(* ===== verification/Prelude.thy ===== *)
theory Prelude
  imports Main
    "HOL-Library.Word"
    "HOL-Library.FSet"
    "HOL-Library.Finite_Map"
    "HOL-Library.Char_ord"
    "HOL-Library.List_Lexorder"
    "HOL-Library.Product_Lexorder"
    "HOL-Library.Option_ord"
    "HOL-Library.Monad_Syntax"
begin

text \<open>
  What every component of the model shares: the machine integers of the Rust source with
  their checked and saturating operations, the ordered collections \<open>BTreeSet\<close> and
  \<open>BTreeMap\<close> (finite sets and finite maps whose iteration is in key order), the
  \<open>for x in xs { f(x)?; }\<close> loop that stops at the first error, and the simplification
  collections the component theories extend.
\<close>

unbundle bit_operations_syntax

named_theorems wrap_simps \<open>unsigned reading of the checked, saturating and wrapping operations\<close>
named_theorems accessor_simps \<open>what an operation leaves unchanged or sets, field by field\<close>

section \<open>Machine integers\<close>

type_synonym u8 = "8 word"
type_synonym u16 = "16 word"
type_synonym u32 = "32 word"
type_synonym u64 = "64 word"
type_synonym i64 = "64 word"
type_synonym bytes = "8 word list"

text \<open>\<open>checked_add\<close>, \<open>checked_mul\<close>, \<open>saturating_add\<close> and \<open>saturating_sub\<close> of the Rust
  integer types; \<open>+\<close> and \<open>-\<close> on words are the wrapping operations.\<close>

definition checked_add :: "'w::len word \<Rightarrow> 'w word \<Rightarrow> 'w word option" where
  "checked_add a b = (if unat a + unat b < 2 ^ LENGTH('w) then Some (a + b) else None)"

definition checked_mul :: "'w::len word \<Rightarrow> 'w word \<Rightarrow> 'w word option" where
  "checked_mul a b = (if unat a * unat b < 2 ^ LENGTH('w) then Some (a * b) else None)"

definition saturating_add :: "'w::len word \<Rightarrow> 'w word \<Rightarrow> 'w word" where
  "saturating_add a b = (if unat a + unat b < 2 ^ LENGTH('w) then a + b else - 1)"

definition saturating_sub :: "'w::len word \<Rightarrow> 'w word \<Rightarrow> 'w word" where
  "saturating_sub a b = (if b \<le> a then a - b else 0)"

lemma checked_add_Some_iff [wrap_simps]:
  "checked_add a b = Some c \<longleftrightarrow> unat c = unat a + unat b"
proof
  assume "checked_add a b = Some c"
  then show "unat c = unat a + unat b"
    by (auto simp: checked_add_def unat_word_ariths split: if_splits)
next
  assume c: "unat c = unat a + unat b"
  moreover have "unat c < 2 ^ LENGTH('a)" by (rule unsigned_less)
  ultimately have "unat a + unat b < 2 ^ LENGTH('a)" by simp
  moreover from this c have "a + b = c"
    by (simp add: word_unat_eq_iff unat_word_ariths)
  ultimately show "checked_add a b = Some c" by (simp add: checked_add_def)
qed

lemma checked_add_None_iff [wrap_simps]:
  "checked_add a b = None \<longleftrightarrow> 2 ^ LENGTH('w) \<le> unat a + unat (b :: 'w::len word)"
  by (auto simp: checked_add_def)

lemma checked_mul_Some_iff [wrap_simps]:
  "checked_mul a b = Some c \<longleftrightarrow> unat c = unat a * unat b"
proof
  assume "checked_mul a b = Some c"
  then show "unat c = unat a * unat b"
    by (auto simp: checked_mul_def unat_word_ariths split: if_splits)
next
  assume c: "unat c = unat a * unat b"
  moreover have "unat c < 2 ^ LENGTH('a)" by (rule unsigned_less)
  ultimately have "unat a * unat b < 2 ^ LENGTH('a)" by simp
  moreover from this c have "a * b = c"
    by (simp add: word_unat_eq_iff unat_word_ariths)
  ultimately show "checked_mul a b = Some c" by (simp add: checked_mul_def)
qed

lemma checked_mul_None_iff [wrap_simps]:
  "checked_mul a b = None \<longleftrightarrow> 2 ^ LENGTH('w) \<le> unat a * unat (b :: 'w::len word)"
  by (auto simp: checked_mul_def)

lemma unat_saturating_add [wrap_simps]:
  "unat (saturating_add a b) = min (unat a + unat b) (2 ^ LENGTH('w) - 1)"
  for a b :: "'w::len word"
proof -
  have "unat (- 1 :: 'w word) = 2 ^ LENGTH('w) - 1"
    by (simp add: unsigned_minus_1_eq_mask mask_eq_exp_minus_1)
  then show ?thesis by (auto simp: saturating_add_def unat_word_ariths)
qed

lemma unat_saturating_sub [wrap_simps]:
  "unat (saturating_sub a b) = unat a - unat b"
  by (auto simp: saturating_sub_def unat_sub word_le_nat_alt)

section \<open>Ordered collections\<close>

text \<open>
  A \<open>BTreeSet<K>\<close> is an \<open>fset\<close> and a \<open>BTreeMap<K, V>\<close> an \<open>fmap\<close>; their iterators visit
  the keys in increasing order.
\<close>

definition btree_keys :: "('k::linorder, 'v) fmap \<Rightarrow> 'k list" where
  "btree_keys m = sorted_list_of_fset (fmdom m)"

definition btree_items :: "('k::linorder, 'v) fmap \<Rightarrow> ('k \<times> 'v) list" where
  "btree_items m = map (\<lambda>k. (k, the (fmlookup m k))) (btree_keys m)"

definition btree_values :: "('k::linorder, 'v) fmap \<Rightarrow> 'v list" where
  "btree_values m = map snd (btree_items m)"

lemma sorted_list_of_fset_distinct [simp]: "distinct (sorted_list_of_fset A)"
  by (simp add: sorted_list_of_fset.rep_eq)

lemma sorted_list_of_fset_sorted [simp]: "sorted (sorted_list_of_fset A)"
  by (simp add: sorted_list_of_fset.rep_eq)

lemma length_sorted_list_of_fset [simp]: "length (sorted_list_of_fset A) = fcard A"
  by (simp add: sorted_list_of_fset.rep_eq fcard.rep_eq)

lemma sorted_list_of_fset_empty [simp]: "sorted_list_of_fset {||} = []"
  by (simp add: sorted_list_of_fset.rep_eq)

lemma sorted_list_of_fset_inject:
  "sorted_list_of_fset A = sorted_list_of_fset B \<longleftrightarrow> A = B"
  by (metis sorted_list_of_fset_simps(2))

lemma set_btree_keys [simp]: "set (btree_keys m) = fset (fmdom m)"
  by (simp add: btree_keys_def)

lemma length_btree_keys [simp]: "length (btree_keys m) = fcard (fmdom m)"
  by (simp add: btree_keys_def)

lemma length_btree_items [simp]: "length (btree_items m) = fcard (fmdom m)"
  by (simp add: btree_items_def)

lemma set_btree_items: "(k, v) \<in> set (btree_items m) \<longleftrightarrow> fmlookup m k = Some v"
  by (auto simp: btree_items_def fmlookup_dom_iff image_iff)

lemma map_fst_btree_items [simp]: "map fst (btree_items m) = btree_keys m"
  by (simp add: btree_items_def comp_def)

lemma set_btree_values: "v \<in> set (btree_values m) \<longleftrightarrow> (\<exists>k. fmlookup m k = Some v)"
  using set_btree_items[of _ _ m] by (force simp: btree_values_def)

lemma distinct_btree_keys [simp]: "distinct (btree_keys m)"
  by (simp add: btree_keys_def)

lemma map_of_btree_items: "map_of (btree_items m) = fmlookup m"
proof
  fix k
  have "distinct (map fst (btree_items m))" by simp
  then have iff: "map_of (btree_items m) k = Some v \<longleftrightarrow> fmlookup m k = Some v" for v
    by (simp add: set_btree_items)
  show "map_of (btree_items m) k = fmlookup m k"
    by (metis iff not_None_eq)
qed

lemma btree_items_inject: "btree_items m = btree_items n \<longleftrightarrow> m = n"
  by (metis fmap_ext map_of_btree_items)

section \<open>Loops that stop at the first error\<close>

fun try_each :: "('a \<Rightarrow> 'e option) \<Rightarrow> 'a list \<Rightarrow> 'e option" where
  "try_each f [] = None"
| "try_each f (x # xs) = (case f x of Some e \<Rightarrow> Some e | None \<Rightarrow> try_each f xs)"

lemma try_each_None_iff: "try_each f xs = None \<longleftrightarrow> (\<forall>x \<in> set xs. f x = None)"
  by (induction xs) (auto split: option.splits)

lemma try_each_SomeE:
  assumes "try_each f xs = Some e"
  obtains ys x zs where "xs = ys @ x # zs" "f x = Some e" "\<forall>y \<in> set ys. f y = None"
  using assms
proof (induction xs arbitrary: thesis)
  case Nil
  then show ?case by simp
next
  case (Cons a xs)
  show ?case
  proof (cases "f a")
    case None
    with Cons.prems(2) have "try_each f xs = Some e" by simp
    then obtain ys x zs where "xs = ys @ x # zs" "f x = Some e" "\<forall>y \<in> set ys. f y = None"
      using Cons.IH by blast
    with None show ?thesis by (intro Cons.prems(1)[of "a # ys" x zs]) auto
  next
    case (Some e')
    with Cons.prems show ?thesis by (intro Cons.prems(1)[of "[]" a xs]) auto
  qed
qed

text \<open>The enumerating loop: the index of each element is passed along.\<close>

fun try_each_from :: "nat \<Rightarrow> (nat \<Rightarrow> 'a \<Rightarrow> 'e option) \<Rightarrow> 'a list \<Rightarrow> 'e option" where
  "try_each_from i f [] = None"
| "try_each_from i f (x # xs) =
     (case f i x of Some e \<Rightarrow> Some e | None \<Rightarrow> try_each_from (Suc i) f xs)"

lemma try_each_from_None_iff:
  "try_each_from i f xs = None \<longleftrightarrow> (\<forall>j < length xs. f (i + j) (xs ! j) = None)"
proof (induction xs arbitrary: i)
  case Nil
  then show ?case by simp
next
  case (Cons x xs)
  show ?case
    by (auto simp: Cons.IH less_Suc_eq_0_disj split: option.splits)
qed

text \<open>The loop whose body may panic: \<open>None\<close> is the panic, \<open>Some None\<close> the normal end.\<close>

fun try_each_opt :: "('a \<Rightarrow> 'e option option) \<Rightarrow> 'a list \<Rightarrow> 'e option option" where
  "try_each_opt f [] = Some None"
| "try_each_opt f (x # xs) = (case f x of
     None \<Rightarrow> None
   | Some (Some e) \<Rightarrow> Some (Some e)
   | Some None \<Rightarrow> try_each_opt f xs)"

lemma try_each_opt_total:
  "\<forall>x \<in> set xs. f x = Some (g x) \<Longrightarrow> try_each_opt f xs = Some (try_each g xs)"
  by (induction xs) (auto split: option.splits)

section \<open>Slices\<close>

text \<open>\<open>chunks_exact(n)\<close>: the full chunks of a slice and its remainder.\<close>

function chunks_exact :: "nat \<Rightarrow> 'a list \<Rightarrow> 'a list list \<times> 'a list" where
  "chunks_exact n xs =
     (if n = 0 \<or> length xs < n then ([], xs)
      else let (cs, rest) = chunks_exact n (drop n xs) in (take n xs # cs, rest))"
  by pat_completeness auto
termination
  by (relation "measure (\<lambda>(n, xs). length xs)") auto

declare chunks_exact.simps [simp del]

lemma chunks_exact_short: "length xs < n \<Longrightarrow> chunks_exact n xs = ([], xs)"
  by (simp add: chunks_exact.simps)

lemma chunks_exact_step:
  "0 < n \<Longrightarrow> n \<le> length xs \<Longrightarrow>
   chunks_exact n xs = (take n xs # fst (chunks_exact n (drop n xs)), snd (chunks_exact n (drop n xs)))"
  by (subst chunks_exact.simps) (simp split: prod.splits)

lemma chunks_exact_induct [consumes 1, case_names short step]:
  assumes "0 < n"
    and "\<And>xs. length xs < n \<Longrightarrow> P xs"
    and "\<And>xs. 0 < n \<Longrightarrow> n \<le> length xs \<Longrightarrow> P (drop n xs) \<Longrightarrow> P xs"
  shows "P xs"
proof (induction xs rule: length_induct)
  case (1 xs)
  then show ?case using assms by (cases "length xs < n") auto
qed

lemma chunks_exact_rest: "0 < n \<Longrightarrow> length (snd (chunks_exact n xs)) < n"
  by (induction xs rule: chunks_exact_induct) (simp_all add: chunks_exact_short chunks_exact_step)

lemma chunks_exact_lengths: "0 < n \<Longrightarrow> list_all (\<lambda>c. length c = n) (fst (chunks_exact n xs))"
  by (induction xs rule: chunks_exact_induct) (simp_all add: chunks_exact_short chunks_exact_step)

lemma chunks_exact_concat: "0 < n \<Longrightarrow> concat (fst (chunks_exact n xs)) @ snd (chunks_exact n xs) = xs"
  by (induction xs rule: chunks_exact_induct) (simp_all add: chunks_exact_short chunks_exact_step)

lemma chunks_exact_append:
  "0 < n \<Longrightarrow> chunks_exact n (xs @ ys) =
     (fst (chunks_exact n xs) @ fst (chunks_exact n (snd (chunks_exact n xs) @ ys)),
      snd (chunks_exact n (snd (chunks_exact n xs) @ ys)))"
proof (induction xs rule: chunks_exact_induct)
  case (short xs)
  then show ?case by (simp add: chunks_exact_short)
next
  case (step xs)
  then show ?case by (simp add: chunks_exact_step)
qed

text \<open>\<open>dst[i..i + src.len()].copy_from_slice(src)\<close>.\<close>

definition copy_at :: "'a list \<Rightarrow> nat \<Rightarrow> 'a list \<Rightarrow> 'a list" where
  "copy_at dst i src = take i dst @ src @ drop (i + length src) dst"

lemma length_copy_at [simp]: "i + length src \<le> length dst \<Longrightarrow> length (copy_at dst i src) = length dst"
  by (simp add: copy_at_def)

lemma take_copy_at: "i \<le> length dst \<Longrightarrow> take (i + length src) (copy_at dst i src) = take i dst @ src"
  by (simp add: copy_at_def)

section \<open>Printing\<close>

text \<open>Decimal and two-digit lowercase hexadecimal output, as \<open>{}\<close> and \<open>{:02x}\<close> print them.\<close>

fun show_nat :: "nat \<Rightarrow> string" where
  "show_nat n = (if n < 10 then [char_of (48 + n)] else show_nat (n div 10) @ [char_of (48 + n mod 10)])"

declare show_nat.simps [simp del]

definition hex_digit :: "nat \<Rightarrow> char" where
  "hex_digit n = char_of (if n < 10 then 48 + n else 87 + n)"

definition hex_byte :: "u8 \<Rightarrow> string" where
  "hex_byte b = [hex_digit (unat b div 16), hex_digit (unat b mod 16)]"

definition hex_lower :: "bytes \<Rightarrow> string" where
  "hex_lower bs = concat (map hex_byte bs)"

lemma hex_digit_table: "map hex_digit [0..<16] = ''0123456789abcdef''"
  by code_simp

lemma hex_digit_range: "n < 16 \<Longrightarrow> hex_digit n \<in> set ''0123456789abcdef''"
  unfolding hex_digit_table[symmetric] by (simp del: upt_rec_numeral)

lemma unat_u8_div_less: "unat (b :: u8) div 16 < 16"
  using unsigned_less[of b, where 'a = nat] by simp

lemma set_hex_lower: "set (hex_lower bs) \<subseteq> set ''0123456789abcdef''"
  unfolding hex_lower_def hex_byte_def
  using hex_digit_range[OF unat_u8_div_less] hex_digit_range[OF mod_less_divisor[of 16]] by auto

lemma length_hex_lower [simp]: "length (hex_lower bs) = 2 * length bs"
  by (induction bs) (simp_all add: hex_lower_def hex_byte_def)

end
