(* ===== verification/DeviceIdentity.thy ===== *)
theory DeviceIdentity
  imports Prelude
begin

text \<open>
  \<open>src/device_identity.rs\<close> and the backend enum of \<open>src/device.rs\<close>: the identity of a physical
  device, its total order, the health epoch, and the canonical byte encoding shared by the
  discovery, plan and transaction components. The locale \<open>prefix_code\<close> is the contract of
  those encodings: no encoding is a prefix of another, so a concatenation of encoded fields
  can be read back in one way only.
\<close>

section \<open>Canonical byte helpers\<close>

definition u64_to_le_bytes :: "u64 \<Rightarrow> bytes" where
  "u64_to_le_bytes v = map (\<lambda>i. ucast (drop_bit (8 * i) v)) [0..<8]"

definition u32_to_le_bytes :: "u32 \<Rightarrow> bytes" where
  "u32_to_le_bytes v = map (\<lambda>i. ucast (drop_bit (8 * i) v)) [0..<4]"

text \<open>The UTF-8 bytes of a string: a \<open>string\<close> of the model is the byte sequence.\<close>

definition str_as_bytes :: "string \<Rightarrow> bytes" where
  "str_as_bytes s = map of_char s"

definition push_u64 :: "bytes \<Rightarrow> u64 \<Rightarrow> bytes" where
  "push_u64 out v = out @ u64_to_le_bytes v"

definition push_u32 :: "bytes \<Rightarrow> u32 \<Rightarrow> bytes" where
  "push_u32 out v = out @ u32_to_le_bytes v"

definition push_bool :: "bytes \<Rightarrow> bool \<Rightarrow> bytes" where
  "push_bool out v = out @ [if v then 1 else 0]"

definition push_str :: "bytes \<Rightarrow> string \<Rightarrow> bytes" where
  "push_str out s = push_u64 out (word_of_nat (length s)) @ str_as_bytes s"

text \<open>Each helper appends a fixed function of its argument.\<close>

abbreviation enc_u64 :: "u64 \<Rightarrow> bytes" where "enc_u64 \<equiv> push_u64 []"
abbreviation enc_u32 :: "u32 \<Rightarrow> bytes" where "enc_u32 \<equiv> push_u32 []"
abbreviation enc_bool :: "bool \<Rightarrow> bytes" where "enc_bool \<equiv> push_bool []"
abbreviation enc_str :: "string \<Rightarrow> bytes" where "enc_str \<equiv> push_str []"

lemma push_u64_append: "push_u64 out v = out @ enc_u64 v"
  by (simp add: push_u64_def)

lemma push_u32_append: "push_u32 out v = out @ enc_u32 v"
  by (simp add: push_u32_def)

lemma push_bool_append: "push_bool out v = out @ enc_bool v"
  by (simp add: push_bool_def)

lemma push_str_append: "push_str out s = out @ enc_str s"
  by (simp add: push_str_def push_u64_def)

lemma u64_to_le_bytes_inject: "u64_to_le_bytes v = u64_to_le_bytes w \<longleftrightarrow> v = w"
proof
  assume eq: "u64_to_le_bytes v = u64_to_le_bytes w"
  show "v = w"
  proof (rule bit_word_eqI)
    fix n assume n: "n < LENGTH(64)"
    then have "n div 8 < 8" by simp
    then have "(ucast (drop_bit (8 * (n div 8)) v) :: u8) = ucast (drop_bit (8 * (n div 8)) w)"
      using arg_cong[OF eq, of "\<lambda>bs. bs ! (n div 8)"] by (simp add: u64_to_le_bytes_def del: upt_rec_numeral)
    then have "bit (ucast (drop_bit (8 * (n div 8)) v) :: u8) (n mod 8)
      = bit (ucast (drop_bit (8 * (n div 8)) w) :: u8) (n mod 8)" by simp
    then show "bit v n = bit w n"
      by (simp add: bit_ucast_iff bit_drop_bit_eq)
  qed
qed simp

lemma u32_to_le_bytes_inject: "u32_to_le_bytes v = u32_to_le_bytes w \<longleftrightarrow> v = w"
proof
  assume eq: "u32_to_le_bytes v = u32_to_le_bytes w"
  show "v = w"
  proof (rule bit_word_eqI)
    fix n assume n: "n < LENGTH(32)"
    then have "n div 8 < 4" by simp
    then have "(ucast (drop_bit (8 * (n div 8)) v) :: u8) = ucast (drop_bit (8 * (n div 8)) w)"
      using arg_cong[OF eq, of "\<lambda>bs. bs ! (n div 8)"] by (simp add: u32_to_le_bytes_def del: upt_rec_numeral)
    then have "bit (ucast (drop_bit (8 * (n div 8)) v) :: u8) (n mod 8)
      = bit (ucast (drop_bit (8 * (n div 8)) w) :: u8) (n mod 8)" by simp
    then show "bit v n = bit w n"
      by (simp add: bit_ucast_iff bit_drop_bit_eq)
  qed
qed simp

lemma length_u64_to_le_bytes [simp]: "length (u64_to_le_bytes v) = 8"
  by (simp add: u64_to_le_bytes_def)

lemma length_u32_to_le_bytes [simp]: "length (u32_to_le_bytes v) = 4"
  by (simp add: u32_to_le_bytes_def)

lemma of_char_u8_inject: "(of_char c :: u8) = of_char d \<longleftrightarrow> c = d"
proof
  assume "(of_char c :: u8) = of_char d"
  then have "unat (word_of_nat (of_char c) :: u8) = unat (word_of_nat (of_char d) :: u8)"
    by (simp only: of_nat_of_char)
  then show "c = d" by (simp add: unat_of_nat del: of_nat_of_char)
qed simp

lemma str_as_bytes_inject: "str_as_bytes s = str_as_bytes t \<longleftrightarrow> s = t"
  unfolding str_as_bytes_def
  by (rule inj_map_eq_map) (simp add: inj_def of_char_u8_inject)

lemma length_str_as_bytes [simp]: "length (str_as_bytes s) = length s"
  by (simp add: str_as_bytes_def)

section \<open>The contract of an encoding\<close>

text \<open>
  \<open>ok\<close> delimits the values the program can hold: a Rust string is shorter than
  \<open>2 ^ 64\<close> bytes (the language bounds every allocation by \<open>isize::MAX\<close>).
\<close>

locale prefix_code =
  fixes enc :: "'a \<Rightarrow> bytes"
    and ok :: "'a \<Rightarrow> bool"
  assumes prefix_free: "ok a \<Longrightarrow> ok b \<Longrightarrow> enc a @ x = enc b @ y \<Longrightarrow> a = b \<and> x = y"
begin

lemma append_iff: "ok a \<Longrightarrow> ok b \<Longrightarrow> enc a @ x = enc b @ y \<longleftrightarrow> a = b \<and> x = y"
  using prefix_free by blast

lemma inject: "ok a \<Longrightarrow> ok b \<Longrightarrow> enc a = enc b \<longleftrightarrow> a = b"
  using append_iff[of a b "[]" "[]"] by simp

lemma concat_prefix_free:
  "length xs = length ys \<Longrightarrow> \<forall>a \<in> set xs. ok a \<Longrightarrow> \<forall>a \<in> set ys. ok a \<Longrightarrow>
   concat (map enc xs) @ u = concat (map enc ys) @ v \<Longrightarrow> xs = ys \<and> u = v"
proof (induction xs ys rule: list_induct2)
  case Nil
  then show ?case by simp
next
  case (Cons x xs y ys)
  then have "x = y \<and> concat (map enc xs) @ u = concat (map enc ys) @ v"
    by (auto simp: append_iff)
  with Cons show ?case by simp
qed

end

abbreviation str_ok :: "string \<Rightarrow> bool" where
  "str_ok s \<equiv> length s < 2 ^ 64"

interpretation u64_code: prefix_code enc_u64 "\<lambda>_. True"
  by unfold_locales (simp add: push_u64_def u64_to_le_bytes_inject)

interpretation u32_code: prefix_code enc_u32 "\<lambda>_. True"
  by unfold_locales (simp add: push_u32_def u32_to_le_bytes_inject)

interpretation bool_code: prefix_code enc_bool "\<lambda>_. True"
  by unfold_locales (auto simp: push_bool_def split: if_splits)

lemma word_of_nat_inject_u64:
  "m < 2 ^ 64 \<Longrightarrow> n < 2 ^ 64 \<Longrightarrow> (word_of_nat m :: u64) = word_of_nat n \<longleftrightarrow> m = n"
  by (simp add: word_unat_eq_iff unat_of_nat)

interpretation str_code: prefix_code enc_str str_ok
proof
  fix s t :: string and x y :: bytes
  assume ok: "str_ok s" "str_ok t" and eq: "enc_str s @ x = enc_str t @ y"
  then have "enc_u64 (word_of_nat (length s)) @ str_as_bytes s @ x
    = enc_u64 (word_of_nat (length t)) @ str_as_bytes t @ y"
    by (simp add: push_str_def)
  then have len: "(word_of_nat (length s) :: u64) = word_of_nat (length t)"
    and rest: "str_as_bytes s @ x = str_as_bytes t @ y"
    by (simp_all add: u64_code.append_iff)
  from len ok have "length s = length t" by (simp add: word_of_nat_inject_u64)
  with rest show "s = t \<and> x = y" by (simp add: str_as_bytes_inject)
qed

text \<open>The append law of every primitive encoding, for the encodings built from them.\<close>

lemmas code_iffs = u64_code.append_iff u32_code.append_iff bool_code.append_iff str_code.append_iff

text \<open>Flattening a chain of pushes into a concatenation of encodings, without looping.\<close>

lemma push_nonempty [simp]:
  "push_u64 out v \<noteq> []" "push_u32 out w \<noteq> []" "push_bool out b \<noteq> []" "push_str out s \<noteq> []"
  by (simp_all add: push_u64_def push_u32_def push_bool_def push_str_def
      u64_to_le_bytes_def u32_to_le_bytes_def)

lemma push_flat:
  "out \<noteq> [] \<Longrightarrow> push_u64 out v = out @ enc_u64 v"
  "out \<noteq> [] \<Longrightarrow> push_u32 out w = out @ enc_u32 w"
  "out \<noteq> [] \<Longrightarrow> push_bool out b = out @ enc_bool b"
  "out \<noteq> [] \<Longrightarrow> push_str out s = out @ enc_str s"
  by (rule push_u64_append push_u32_append push_bool_append push_str_append)+

text \<open>The \<open>for x in xs { push(&mut out, x) }\<close> loop, and the counted list it follows a length.\<close>

definition push_each :: "(bytes \<Rightarrow> 'a \<Rightarrow> bytes) \<Rightarrow> 'a list \<Rightarrow> bytes \<Rightarrow> bytes" where
  "push_each push xs out = foldl push out xs"

lemma push_each_concat:
  assumes "\<And>out a. push out a = out @ enc a"
  shows "push_each push xs out = out @ concat (map enc xs)"
  unfolding push_each_def by (induction xs arbitrary: out) (simp_all add: assms)

context prefix_code
begin

lemma counted_append_iff:
  assumes "length xs < 2 ^ 64" "length ys < 2 ^ 64" "\<forall>a \<in> set xs. ok a" "\<forall>a \<in> set ys. ok a"
  shows "enc_u64 (word_of_nat (length xs)) @ concat (map enc xs) @ u
       = enc_u64 (word_of_nat (length ys)) @ concat (map enc ys) @ v \<longleftrightarrow> xs = ys \<and> u = v"
    (is "?l \<longleftrightarrow> ?r")
proof
  assume ?l
  then have "length xs = length ys" and eq: "concat (map enc xs) @ u = concat (map enc ys) @ v"
    using assms(1,2) by (auto simp: u64_code.append_iff word_of_nat_inject_u64)
  then show ?r using concat_prefix_free assms(3,4) by blast
qed simp

end

section \<open>Physical device identity\<close>

datatype device_backend = BackendMetal | BackendCuda

definition backend_spelling :: "device_backend \<Rightarrow> string" where
  "backend_spelling b = (case b of BackendMetal \<Rightarrow> ''metal'' | BackendCuda \<Rightarrow> ''cuda'')"

definition backend_from_spelling :: "string \<Rightarrow> device_backend option" where
  "backend_from_spelling spelling =
     (if spelling = ''metal'' then Some BackendMetal
      else if spelling = ''cuda'' then Some BackendCuda else None)"

datatype cuda_identity_facts =
  CudaIdentityFacts (pci_uuid: string) (driver_uuid: "string option")

datatype metal_identity_facts = MetalIdentityFacts (registry_id: string)

datatype device_identity_facts = Cuda cuda_identity_facts | Metal metal_identity_facts

datatype physical_device_id = PhysicalDeviceId (facts: device_identity_facts)

text \<open>
  The derived order compares the variant first, then the fields in declaration order, with
  \<open>None\<close> below \<open>Some\<close> and strings byte by byte.
\<close>

fun facts_order_key :: "device_identity_facts \<Rightarrow> nat \<times> string \<times> string option" where
  "facts_order_key (Cuda c) = (0, pci_uuid c, driver_uuid c)"
| "facts_order_key (Metal m) = (1, registry_id m, None)"

lemma facts_order_key_inject: "facts_order_key a = facts_order_key b \<longleftrightarrow> a = b"
  by (cases a; cases b)
    (auto intro: cuda_identity_facts.expand metal_identity_facts.expand)

instantiation device_identity_facts :: linorder
begin

definition less_eq_device_identity_facts :: "device_identity_facts \<Rightarrow> device_identity_facts \<Rightarrow> bool" where
  "less_eq_device_identity_facts a b \<longleftrightarrow> facts_order_key a \<le> facts_order_key b"

definition less_device_identity_facts :: "device_identity_facts \<Rightarrow> device_identity_facts \<Rightarrow> bool" where
  "less_device_identity_facts a b \<longleftrightarrow> facts_order_key a < facts_order_key b"

instance
  by standard
    (auto simp: less_eq_device_identity_facts_def less_device_identity_facts_def
      facts_order_key_inject[symmetric] less_le_not_le)

end

instantiation physical_device_id :: linorder
begin

definition less_eq_physical_device_id :: "physical_device_id \<Rightarrow> physical_device_id \<Rightarrow> bool" where
  "less_eq_physical_device_id a b \<longleftrightarrow> facts a \<le> facts b"

definition less_physical_device_id :: "physical_device_id \<Rightarrow> physical_device_id \<Rightarrow> bool" where
  "less_physical_device_id a b \<longleftrightarrow> facts a < facts b"

instance
  by standard
    (auto simp: less_eq_physical_device_id_def less_physical_device_id_def
      less_le_not_le physical_device_id.expand)

end

definition from_facts :: "device_identity_facts \<Rightarrow> physical_device_id" where
  "from_facts f = PhysicalDeviceId f"

definition device_id_cuda :: "string \<Rightarrow> string option \<Rightarrow> physical_device_id" where
  "device_id_cuda pci drv = from_facts (Cuda (CudaIdentityFacts pci drv))"

definition device_id_metal :: "string \<Rightarrow> physical_device_id" where
  "device_id_metal registry = from_facts (Metal (MetalIdentityFacts registry))"

definition device_id_backend :: "physical_device_id \<Rightarrow> device_backend" where
  "device_id_backend d = (case facts d of Cuda _ \<Rightarrow> BackendCuda | Metal _ \<Rightarrow> BackendMetal)"

definition device_id_canonical_bytes :: "physical_device_id \<Rightarrow> bytes" where
  "device_id_canonical_bytes d = (case facts d of
       Cuda c \<Rightarrow>
         (let out = [] @ [0];
              out = push_str out (pci_uuid c);
              out = push_bool out (driver_uuid c \<noteq> None)
          in case driver_uuid c of Some uuid \<Rightarrow> push_str out uuid | None \<Rightarrow> out)
     | Metal m \<Rightarrow>
         (let out = [] @ [1]
          in push_str out (registry_id m)))"

datatype identity_change = SameDevice | Replaced

definition change_against :: "physical_device_id \<Rightarrow> physical_device_id \<Rightarrow> identity_change" where
  "change_against self previous = (if self = previous then SameDevice else Replaced)"

definition device_id_display :: "physical_device_id \<Rightarrow> string" where
  "device_id_display d = (case facts d of
       Cuda c \<Rightarrow> ''cuda:'' @ pci_uuid c @
         (case driver_uuid c of Some uuid \<Rightarrow> '' (driver '' @ uuid @ '')'' | None \<Rightarrow> [])
     | Metal m \<Rightarrow> ''metal:'' @ registry_id m)"

definition device_id_ok :: "physical_device_id \<Rightarrow> bool" where
  "device_id_ok d = (case facts d of
       Cuda c \<Rightarrow> str_ok (pci_uuid c) \<and> (case driver_uuid c of Some u \<Rightarrow> str_ok u | None \<Rightarrow> True)
     | Metal m \<Rightarrow> str_ok (registry_id m))"

interpretation device_id_code: prefix_code device_id_canonical_bytes device_id_ok
proof
  fix a b :: physical_device_id and x y :: bytes
  assume "device_id_ok a" "device_id_ok b"
    "device_id_canonical_bytes a @ x = device_id_canonical_bytes b @ y"
  then show "a = b \<and> x = y"
    by (cases a; cases b)
      (auto simp: device_id_ok_def device_id_canonical_bytes_def push_flat code_iffs
        intro!: cuda_identity_facts.expand metal_identity_facts.expand
        split: device_identity_facts.splits option.splits)
qed

section \<open>The health epoch\<close>

type_synonym device_ordinal = u32
type_synonym device_health_generation = u64

definition health_initial :: device_health_generation where
  "health_initial = 1"

definition health_advance :: "device_health_generation \<Rightarrow> device_health_generation" where
  "health_advance g = saturating_add g 1"

definition health_is_stale :: "device_health_generation \<Rightarrow> device_health_generation \<Rightarrow> bool" where
  "health_is_stale self candidate = (candidate \<noteq> self)"

definition health_is_current :: "device_health_generation \<Rightarrow> device_health_generation \<Rightarrow> bool" where
  "health_is_current self candidate = (candidate = self)"

lemma unat_health_advance:
  "unat (health_advance g) = min (unat g + 1) (2 ^ 64 - 1)"
  by (simp add: health_advance_def wrap_simps)

lemma health_advance_mono: "g \<le> health_advance g"
proof -
  have "unat g < 2 ^ LENGTH(64)" by (rule unsigned_less)
  then show ?thesis by (simp add: word_le_nat_alt unat_health_advance)
qed

end
