(* ===== verification/Sha256.thy ===== *)
theory Sha256
  imports DeviceIdentity
begin

text \<open>
  The two SHA-256 implementations of the crate: the one-shot \<open>sha256\<close> of \<open>src/gguf.rs\<close>, which
  identifies model files and bound plans, and the buffering \<open>Sha256\<close> of \<open>src/discovery.rs\<close>,
  which identifies discovery snapshots. Both are shown equal to one reference: the padded
  message cut into blocks and folded through the compression function.
\<close>

section \<open>The compression function\<close>

text \<open>The round constants, spelt as the source spells them: four hexadecimal digits, an underscore,
  four more.\<close>

definition sha256_k :: "u32 list" where
  "sha256_k = map (\<lambda>(hi, lo). push_bit 16 hi OR lo) [
     (0x428a, 0x2f98), (0x7137, 0x4491), (0xb5c0, 0xfbcf), (0xe9b5, 0xdba5),
     (0x3956, 0xc25b), (0x59f1, 0x11f1), (0x923f, 0x82a4), (0xab1c, 0x5ed5),
     (0xd807, 0xaa98), (0x1283, 0x5b01), (0x2431, 0x85be), (0x550c, 0x7dc3),
     (0x72be, 0x5d74), (0x80de, 0xb1fe), (0x9bdc, 0x06a7), (0xc19b, 0xf174),
     (0xe49b, 0x69c1), (0xefbe, 0x4786), (0x0fc1, 0x9dc6), (0x240c, 0xa1cc),
     (0x2de9, 0x2c6f), (0x4a74, 0x84aa), (0x5cb0, 0xa9dc), (0x76f9, 0x88da),
     (0x983e, 0x5152), (0xa831, 0xc66d), (0xb003, 0x27c8), (0xbf59, 0x7fc7),
     (0xc6e0, 0x0bf3), (0xd5a7, 0x9147), (0x06ca, 0x6351), (0x1429, 0x2967),
     (0x27b7, 0x0a85), (0x2e1b, 0x2138), (0x4d2c, 0x6dfc), (0x5338, 0x0d13),
     (0x650a, 0x7354), (0x766a, 0x0abb), (0x81c2, 0xc92e), (0x9272, 0x2c85),
     (0xa2bf, 0xe8a1), (0xa81a, 0x664b), (0xc24b, 0x8b70), (0xc76c, 0x51a3),
     (0xd192, 0xe819), (0xd699, 0x0624), (0xf40e, 0x3585), (0x106a, 0xa070),
     (0x19a4, 0xc116), (0x1e37, 0x6c08), (0x2748, 0x774c), (0x34b0, 0xbcb5),
     (0x391c, 0x0cb3), (0x4ed8, 0xaa4a), (0x5b9c, 0xca4f), (0x682e, 0x6ff3),
     (0x748f, 0x82ee), (0x78a5, 0x636f), (0x84c8, 0x7814), (0x8cc7, 0x0208),
     (0x90be, 0xfffa), (0xa450, 0x6ceb), (0xbef9, 0xa3f7), (0xc671, 0x78f2)]"

type_synonym sha_state = "u32 \<times> u32 \<times> u32 \<times> u32 \<times> u32 \<times> u32 \<times> u32 \<times> u32"

definition sha256_initial :: sha_state where
  "sha256_initial = (0x6a09e667, 0xbb67ae85, 0x3c6ef372, 0xa54ff53a,
                     0x510e527f, 0x9b05688c, 0x1f83d9ab, 0x5be0cd19)"

definition u32_from_be_bytes :: "bytes \<Rightarrow> u32" where
  "u32_from_be_bytes bs = (case bs of
     [b0, b1, b2, b3] \<Rightarrow>
       push_bit 24 (ucast b0) OR push_bit 16 (ucast b1) OR push_bit 8 (ucast b2) OR ucast b3
   | _ \<Rightarrow> 0)"

definition u32_to_be_bytes :: "u32 \<Rightarrow> bytes" where
  "u32_to_be_bytes v = rev (u32_to_le_bytes v)"

definition u64_to_be_bytes :: "u64 \<Rightarrow> bytes" where
  "u64_to_be_bytes v = rev (u64_to_le_bytes v)"

text \<open>One word of the message schedule, and one of the 64 rounds.\<close>

definition schedule_word :: "u32 list \<Rightarrow> nat \<Rightarrow> u32" where
  "schedule_word w i =
     (let s0 = word_rotr 7 (w ! (i - 15)) XOR word_rotr 18 (w ! (i - 15)) XOR drop_bit 3 (w ! (i - 15));
          s1 = word_rotr 17 (w ! (i - 2)) XOR word_rotr 19 (w ! (i - 2)) XOR drop_bit 10 (w ! (i - 2))
      in w ! (i - 16) + s0 + w ! (i - 7) + s1)"

fun sha_round :: "sha_state \<Rightarrow> u32 \<times> u32 \<Rightarrow> sha_state" where
  "sha_round (a, b, c, d, e, f, g, h) (k, wi) =
     (let s1 = word_rotr 6 e XOR word_rotr 11 e XOR word_rotr 25 e;
          ch = (e AND f) XOR (NOT e AND g);
          temp1 = h + s1 + ch + k + wi;
          s0 = word_rotr 2 a XOR word_rotr 13 a XOR word_rotr 22 a;
          maj = (a AND b) XOR (a AND c) XOR (b AND c);
          temp2 = s0 + maj
      in (temp1 + temp2, a, b, c, d + temp1, e, f, g))"

fun state_add :: "sha_state \<Rightarrow> sha_state \<Rightarrow> sha_state" where
  "state_add (a, b, c, d, e, f, g, h) (a', b', c', d', e', f', g', h') =
     (a + a', b + b', c + c', d + d', e + e', f + f', g + g', h + h')"

fun state_bytes :: "sha_state \<Rightarrow> bytes" where
  "state_bytes (a, b, c, d, e, f, g, h) = concat (map u32_to_be_bytes [a, b, c, d, e, f, g, h])"

definition load_block :: "u32 list \<Rightarrow> bytes \<Rightarrow> u32 list" where
  "load_block w block =
     foldl (\<lambda>w i. w[i := u32_from_be_bytes (take 4 (drop (4 * i) block))]) w [0..<16]"

definition extend_schedule :: "u32 list \<Rightarrow> u32 list" where
  "extend_schedule w = foldl (\<lambda>w i. w[i := schedule_word w i]) w [16..<64]"

section \<open>The one-shot digest of \<open>gguf.rs\<close>\<close>

text \<open>The closure \<open>compress\<close> captures the schedule \<open>w\<close>, which survives from block to block.\<close>

definition gguf_compress :: "sha_state \<times> u32 list \<Rightarrow> bytes \<Rightarrow> sha_state \<times> u32 list" where
  "gguf_compress s block =
     (let (h, w) = s;
          w = extend_schedule (load_block w block)
      in (state_add h (foldl sha_round h (zip sha256_k w)), w))"

text \<open>How many zero bytes the padding loops still have to write.\<close>

definition pad_distance :: "nat \<Rightarrow> nat" where
  "pad_distance n = (if n mod 64 \<le> 56 then 56 - n mod 64 else 120 - n mod 64)"

function gguf_pad_zeroes :: "bytes \<Rightarrow> nat \<Rightarrow> bytes \<times> nat" where
  "gguf_pad_zeroes tail n =
     (if n mod 64 \<noteq> 56 then gguf_pad_zeroes (tail[n := 0]) (n + 1) else (tail, n))"
  by pat_completeness auto
termination
  by (relation "measure (\<lambda>(tail, n). pad_distance n)") (auto simp: pad_distance_def mod_Suc)

declare gguf_pad_zeroes.simps [simp del]

definition gguf_sha256 :: "bytes \<Rightarrow> bytes" where
  "gguf_sha256 data =
     (let (blocks, rem) = chunks_exact 64 data;
          (h, w) = foldl gguf_compress (sha256_initial, replicate 64 0) blocks;
          bit_len = word_of_nat (length data) * 8;
          tail = copy_at (replicate 128 0) 0 rem;
          n = length rem;
          tail = tail[n := 0x80];
          (tail, n) = gguf_pad_zeroes tail (n + 1);
          tail = copy_at tail n (u64_to_be_bytes bit_len);
          n = n + 8;
          (h, w) = foldl gguf_compress (h, w) (fst (chunks_exact 64 (take n tail)))
      in state_bytes h)"

section \<open>The buffering digest of \<open>discovery.rs\<close>\<close>

record sha256 =
  sh_state :: sha_state
  sh_buf :: bytes
  sh_buf_len :: nat
  sh_total_len :: u64

definition sha256_new :: sha256 where
  "sha256_new = \<lparr>sh_state = sha256_initial, sh_buf = replicate 64 0, sh_buf_len = 0, sh_total_len = 0\<rparr>"

definition sha256_compress :: "sha256 \<Rightarrow> bytes \<Rightarrow> sha256" where
  "sha256_compress s block =
     (let w = extend_schedule (load_block (replicate 64 0) block);
          st = foldl (\<lambda>st i. sha_round st (sha256_k ! i, w ! i)) (sh_state s) [0..<64]
      in s\<lparr>sh_state := state_add (sh_state s) st\<rparr>)"

function sha256_absorb :: "sha256 \<Rightarrow> bytes \<Rightarrow> sha256 \<times> bytes" where
  "sha256_absorb s data =
     (if 64 \<le> length data then sha256_absorb (sha256_compress s (take 64 data)) (drop 64 data)
      else (s, data))"
  by pat_completeness auto
termination
  by (relation "measure (\<lambda>(s, data). length data)") auto

declare sha256_absorb.simps [simp del]

definition sha256_update :: "sha256 \<Rightarrow> bytes \<Rightarrow> sha256" where
  "sha256_update s data =
     (let s = s\<lparr>sh_total_len := sh_total_len s + word_of_nat (length data)\<rparr>;
          (s, data) =
            (if 0 < sh_buf_len s
             then let take_n = min (64 - sh_buf_len s) (length data);
                      s = s\<lparr>sh_buf := copy_at (sh_buf s) (sh_buf_len s) (take take_n data)\<rparr>;
                      s = s\<lparr>sh_buf_len := sh_buf_len s + take_n\<rparr>;
                      data = drop take_n data
                  in (if sh_buf_len s = 64
                      then ((sha256_compress s (sh_buf s))\<lparr>sh_buf_len := 0\<rparr>, data)
                      else (s, data))
             else (s, data));
          (s, data) = sha256_absorb s data
      in (if data \<noteq> []
          then s\<lparr>sh_buf := copy_at (sh_buf s) 0 data, sh_buf_len := length data\<rparr>
          else s))"

function sha256_pad_tail :: "bytes \<Rightarrow> bytes" where
  "sha256_pad_tail tail =
     (if length tail mod 64 \<noteq> 56 then sha256_pad_tail (tail @ [0]) else tail)"
  by pat_completeness auto
termination
  by (relation "measure (\<lambda>tail. pad_distance (length tail))") (auto simp: pad_distance_def mod_Suc)

declare sha256_pad_tail.simps [simp del]

definition sha256_finalize :: "sha256 \<Rightarrow> bytes" where
  "sha256_finalize s =
     (let bit_len = u64_to_be_bytes (sh_total_len s * 8);
          tail = take (sh_buf_len s) (sh_buf s);
          tail = sha256_pad_tail (tail @ [0x80]);
          tail = tail @ bit_len;
          s = foldl sha256_compress s (fst (chunks_exact 64 tail))
      in state_bytes (sh_state s))"

definition sha256_digest :: "bytes \<Rightarrow> bytes" where
  "sha256_digest data = sha256_finalize (sha256_update sha256_new data)"

section \<open>The reference digest\<close>

definition compress_ref :: "sha_state \<Rightarrow> bytes \<Rightarrow> sha_state" where
  "compress_ref h block =
     state_add h (foldl sha_round h (zip sha256_k (extend_schedule (load_block (replicate 64 0) block))))"

definition padding_for :: "nat \<Rightarrow> bytes" where
  "padding_for len = 0x80 # replicate (pad_distance (len + 1)) 0 @ u64_to_be_bytes (word_of_nat len * 8)"

definition sha256_ref :: "bytes \<Rightarrow> bytes" where
  "sha256_ref msg =
     state_bytes (foldl compress_ref sha256_initial
       (fst (chunks_exact 64 (msg @ padding_for (length msg)))))"

text \<open>The index loops are not unrolled by simplification in the proofs below.\<close>

declare upt_rec_numeral [simp del]

subsection \<open>The message schedule does not depend on its old contents\<close>

lemma length_foldl_update [simp]: "length (foldl (\<lambda>w i. w[i := f w i]) w is) = length w"
  by (induction "is" arbitrary: w) auto

lemma foldl_update_agree:
  assumes "\<And>v v' i. m \<le> i \<Longrightarrow> take i v = take i v' \<Longrightarrow> f v i = f v' i"
    and "length w = length w'" "take m w = take m w'" "m \<le> n" "n \<le> length w"
  shows "take n (foldl (\<lambda>w i. w[i := f w i]) w [m..<n])
       = take n (foldl (\<lambda>w i. w[i := f w i]) w' [m..<n])"
  using assms(4,5)
proof (induction n rule: dec_induct)
  case base
  then show ?case by (simp add: assms(3))
next
  case (step n)
  let ?v = "foldl (\<lambda>w i. w[i := f w i]) w [m..<n]"
  let ?v' = "foldl (\<lambda>w i. w[i := f w i]) w' [m..<n]"
  have eq: "take n ?v = take n ?v'" by (rule step.IH) (use step.prems in simp)
  have "f ?v n = f ?v' n" by (rule assms(1)[OF step.hyps(1) eq])
  moreover have "n < length ?v" "n < length ?v'" using step assms(2) by simp_all
  ultimately show ?case using eq step.hyps by (simp add: take_Suc_conv_app_nth)
qed

lemma schedule_word_agree:
  "16 \<le> i \<Longrightarrow> take i v = take i v' \<Longrightarrow> schedule_word v i = schedule_word v' i"
proof -
  assume i: "16 \<le> i" and eq: "take i v = take i v'"
  then have "v ! (i - k) = v' ! (i - k)" if "0 < k" "k \<le> 16" for k
    using that nth_take[of "i - k" i v] nth_take[of "i - k" i v'] by simp
  then show ?thesis by (simp add: schedule_word_def)
qed

lemma length_load_block [simp]: "length (load_block w block) = length w"
  by (simp add: load_block_def)

lemma length_extend_schedule [simp]: "length (extend_schedule w) = length w"
  by (simp add: extend_schedule_def)

lemma schedule_independent:
  assumes "length w = 64" "length w' = 64"
  shows "extend_schedule (load_block w block) = extend_schedule (load_block w' block)"
proof -
  have load: "take 16 (load_block w block) = take 16 (load_block w' block)"
    unfolding load_block_def using assms by (intro foldl_update_agree) simp_all
  have "take 64 (extend_schedule (load_block w block)) = take 64 (extend_schedule (load_block w' block))"
    unfolding extend_schedule_def using assms load
    by (intro foldl_update_agree) (simp_all, rule schedule_word_agree)
  then show ?thesis using assms by simp
qed

lemma length_sha256_k [simp]: "length sha256_k = 64"
  by (simp add: sha256_k_def)

lemma gguf_compress_ref:
  assumes "length w = 64"
  shows "gguf_compress (h, w) block =
    (compress_ref h block, extend_schedule (load_block (replicate 64 0) block))"
  using schedule_independent[OF assms, of "replicate 64 0" block]
  by (simp add: gguf_compress_def compress_ref_def Let_def)

lemma gguf_compress_fold:
  "length w = 64 \<Longrightarrow>
   \<exists>w'. foldl gguf_compress (h, w) blocks = (foldl compress_ref h blocks, w') \<and> length w' = 64"
  by (induction blocks arbitrary: h w) (simp_all add: gguf_compress_ref)

lemma foldl_zip_index:
  assumes "length xs = n" "length ys = n"
  shows "foldl (\<lambda>st i. g st (xs ! i, ys ! i)) st [0..<n] = foldl g st (zip xs ys)"
proof -
  have "zip xs ys = map (\<lambda>i. (xs ! i, ys ! i)) [0..<n]"
    using assms by (intro nth_equalityI) simp_all
  then show ?thesis by (simp add: foldl_map)
qed

lemma sha256_compress_ref:
  "sha256_compress s block = s\<lparr>sh_state := compress_ref (sh_state s) block\<rparr>"
  by (simp add: sha256_compress_def compress_ref_def Let_def
      foldl_zip_index[of sha256_k 64 _ sha_round, simplified])

lemma sha256_compress_fold:
  "foldl sha256_compress s blocks = s\<lparr>sh_state := foldl compress_ref (sh_state s) blocks\<rparr>"
  by (induction blocks arbitrary: s) (simp_all add: sha256_compress_ref)

subsection \<open>Padding\<close>

lemma sha256_pad_tail_eq: "sha256_pad_tail tail = tail @ replicate (pad_distance (length tail)) 0"
proof (induction tail rule: sha256_pad_tail.induct)
  case (1 tail)
  show ?case
  proof (cases "length tail mod 64 = 56")
    case True
    then show ?thesis by (simp add: sha256_pad_tail.simps pad_distance_def)
  next
    case False
    then have "pad_distance (length tail) = Suc (pad_distance (Suc (length tail)))"
      by (auto simp: pad_distance_def mod_Suc)
    with 1 False show ?thesis by (simp add: sha256_pad_tail.simps[of tail])
  qed
qed

lemma gguf_pad_zeroes_eq:
  assumes "n + pad_distance n \<le> length tail"
  shows "\<exists>tail'. gguf_pad_zeroes tail n = (tail', n + pad_distance n) \<and>
    take (n + pad_distance n) tail' = take n tail @ replicate (pad_distance n) 0 \<and>
    length tail' = length tail"
  using assms
proof (induction tail n rule: gguf_pad_zeroes.induct)
  case (1 tail n)
  show ?case
  proof (cases "n mod 64 = 56")
    case True
    then show ?thesis by (simp add: gguf_pad_zeroes.simps pad_distance_def)
  next
    case False
    then have d: "pad_distance n = Suc (pad_distance (n + 1))"
      by (auto simp: pad_distance_def mod_Suc)
    with "1.prems" have n: "n < length tail" by simp
    with 1 False d obtain tail' where
      "gguf_pad_zeroes (tail[n := 0]) (n + 1) = (tail', n + 1 + pad_distance (n + 1))"
      "take (n + 1 + pad_distance (n + 1)) tail' = take (n + 1) (tail[n := 0]) @ replicate (pad_distance (n + 1)) 0"
      "length tail' = length tail" by auto
    with False d n show ?thesis
      by (auto simp: gguf_pad_zeroes.simps[of tail n] take_Suc_conv_app_nth)
  qed
qed

lemma chunks_exact_rest_length: "0 < n \<Longrightarrow> length (snd (chunks_exact n xs)) = length xs mod n"
  by (induction xs rule: chunks_exact_induct)
    (simp_all add: chunks_exact_short chunks_exact_step mod_if le_mod_geq)

lemma pad_distance_mod: "pad_distance (m mod 64 + 1) = pad_distance (m + 1)"
  by (simp add: pad_distance_def mod_simps)

lemma length_u64_to_be_bytes [simp]: "length (u64_to_be_bytes v) = 8"
  by (simp add: u64_to_be_bytes_def)

lemma sha256_ref_remainder:
  "sha256_ref msg =
     state_bytes (foldl compress_ref (foldl compress_ref sha256_initial (fst (chunks_exact 64 msg)))
       (fst (chunks_exact 64 (snd (chunks_exact 64 msg) @ padding_for (length msg)))))"
  unfolding sha256_ref_def by (subst chunks_exact_append) simp_all

subsection \<open>The one-shot digest is the reference\<close>

lemma gguf_tail_bytes:
  assumes "length rem < 64"
  shows "\<exists>tail n. gguf_pad_zeroes ((copy_at (replicate 128 0) 0 rem)[length rem := 0x80]) (length rem + 1)
      = (tail, n) \<and> n + 8 \<le> 128 \<and> length tail = 128 \<and>
      take n tail = rem @ [0x80] @ replicate (pad_distance (length rem + 1)) 0"
proof -
  let ?t = "(copy_at (replicate 128 0) 0 rem)[length rem := 0x80 :: u8]"
  have d: "length rem + 1 + pad_distance (length rem + 1) \<le> 120"
    using assms by (auto simp: pad_distance_def mod_Suc)
  have len: "length ?t = 128" using assms by simp
  have "take (length rem) ?t = rem" using assms by (simp add: copy_at_def)
  then have "take (length rem + 1) ?t = rem @ [0x80]"
    using assms len by (simp add: take_Suc_conv_app_nth)
  then show ?thesis
    using gguf_pad_zeroes_eq[of "length rem + 1" ?t] d len by auto
qed

lemma gguf_sha256_ref: "gguf_sha256 data = sha256_ref data"
proof -
  obtain blocks rem where cs: "chunks_exact 64 data = (blocks, rem)" by fastforce
  have rem: "length rem = length data mod 64" "length rem < 64"
    using chunks_exact_rest_length[of 64 data] chunks_exact_rest[of 64 data] cs by simp_all
  obtain w where w: "foldl gguf_compress (sha256_initial, replicate 64 0) blocks
      = (foldl compress_ref sha256_initial blocks, w)" "length w = 64"
    using gguf_compress_fold[of "replicate 64 0"] by fastforce
  obtain tail n where t:
    "gguf_pad_zeroes ((copy_at (replicate 128 0) 0 rem)[length rem := 0x80]) (length rem + 1) = (tail, n)"
    "n + 8 \<le> 128" "length tail = 128"
    "take n tail = rem @ [0x80] @ replicate (pad_distance (length data + 1)) 0"
    using gguf_tail_bytes[OF rem(2)] pad_distance_mod[of "length data"] rem(1) by auto
  define bl where "bl = u64_to_be_bytes (word_of_nat (length data) * 8)"
  have "take (n + length bl) (copy_at tail n bl) = take n tail @ bl"
    by (rule take_copy_at) (use t in simp)
  then have "take (n + 8) (copy_at tail n bl) = rem @ padding_for (length data)"
    by (simp add: t(4) padding_for_def bl_def)
  moreover obtain w' where "foldl gguf_compress (foldl compress_ref sha256_initial blocks, w)
      (fst (chunks_exact 64 (rem @ padding_for (length data))))
    = (foldl compress_ref (foldl compress_ref sha256_initial blocks)
        (fst (chunks_exact 64 (rem @ padding_for (length data)))), w')"
    using gguf_compress_fold[OF w(2)] by blast
  ultimately show ?thesis
    by (simp add: gguf_sha256_def Let_def cs w(1) t(1)[simplified] bl_def[symmetric] sha256_ref_remainder)
qed

subsection \<open>The buffering digest refines the message it has absorbed\<close>

definition sha256_absorbed :: "sha256 \<Rightarrow> bytes \<Rightarrow> bool" where
  "sha256_absorbed s msg \<longleftrightarrow>
     sh_state s = foldl compress_ref sha256_initial (fst (chunks_exact 64 msg)) \<and>
     sh_buf_len s = length (snd (chunks_exact 64 msg)) \<and>
     take (sh_buf_len s) (sh_buf s) = snd (chunks_exact 64 msg) \<and>
     length (sh_buf s) = 64 \<and> sh_total_len s = word_of_nat (length msg)"

lemma sha256_absorbed_new: "sha256_absorbed sha256_new []"
  by (simp add: sha256_absorbed_def sha256_new_def chunks_exact_short)

lemma sha256_absorb_eq:
  "sha256_absorb s data =
     (s\<lparr>sh_state := foldl compress_ref (sh_state s) (fst (chunks_exact 64 data))\<rparr>,
      snd (chunks_exact 64 data))"
proof (induction s data rule: sha256_absorb.induct)
  case (1 s data)
  show ?case
  proof (cases "64 \<le> length data")
    case True
    have step: "chunks_exact 64 data = (take 64 data # fst (chunks_exact 64 (drop 64 data)),
        snd (chunks_exact 64 (drop 64 data)))"
      by (rule chunks_exact_step) (use True in simp_all)
    show ?thesis
      unfolding sha256_absorb.simps[of s data] "1"[OF True] step using True
      by (simp add: sha256_compress_ref)
  next
    case False
    then show ?thesis by (simp add: sha256_absorb.simps[of s data] chunks_exact_short)
  qed
qed

lemma sha256_update_absorbed:
  assumes "sha256_absorbed s msg"
  shows "sha256_absorbed (sha256_update s data) (msg @ data)"
proof -
  define rem where "rem = snd (chunks_exact 64 msg)"
  note abs = assms[unfolded sha256_absorbed_def rem_def[symmetric]]
  have app: "chunks_exact 64 (msg @ data) =
      (fst (chunks_exact 64 msg) @ fst (chunks_exact 64 (rem @ data)), snd (chunks_exact 64 (rem @ data)))"
    unfolding rem_def by (rule chunks_exact_append) simp
  have rem64: "length rem < 64" unfolding rem_def by (rule chunks_exact_rest) simp
  consider (empty) "rem = []" | (short) "rem \<noteq> []" "length rem + length data < 64"
    | (fill) "rem \<noteq> []" "64 \<le> length rem + length data" by linarith
  then show ?thesis
  proof cases
    case empty
    obtain cs r where cr: "chunks_exact 64 data = (cs, r)" by fastforce
    with empty show ?thesis
      using abs chunks_exact_rest[of 64 data]
      by (cases "r = []") (auto simp: sha256_update_def Let_def sha256_absorb_eq sha256_absorbed_def app copy_at_def)
  next
    case short
    then show ?thesis
      using abs
      by (auto simp: sha256_update_def Let_def sha256_absorb_eq sha256_absorbed_def app copy_at_def
          chunks_exact_short min_def)
  next
    case fill
    define k where "k = 64 - length rem"
    obtain cs r where cr: "chunks_exact 64 (drop k data) = (cs, r)" by fastforce
    have k: "min (64 - length rem) (length data) = k" "length rem + k = 64" "k \<le> length data"
      using fill rem64 by (simp_all add: k_def)
    have block: "copy_at (sh_buf s) (length rem) (take k data) = rem @ take k data"
      using fill abs rem64 k by (auto simp: copy_at_def)
    have "chunks_exact 64 (rem @ data) = ((rem @ take k data) # cs, r)"
      using fill k chunks_exact_step[of 64 "rem @ data"] by (simp add: k_def cr[unfolded k_def])
    moreover have "length r < 64" using chunks_exact_rest[of 64 "drop k data"] cr by simp
    moreover have "sha256_update s data =
      (let s' = s\<lparr>sh_state := foldl compress_ref (compress_ref (sh_state s) (rem @ take k data)) cs,
                  sh_buf := rem @ take k data, sh_buf_len := 0,
                  sh_total_len := sh_total_len s + word_of_nat (length data)\<rparr>
       in if r \<noteq> [] then s'\<lparr>sh_buf := copy_at (sh_buf s') 0 r, sh_buf_len := length r\<rparr> else s')"
      using abs fill(1) k
      by (simp add: sha256_update_def Let_def sha256_absorb_eq cr block sha256_compress_ref)
    ultimately show ?thesis
      using abs k by (auto simp: sha256_absorbed_def app copy_at_def Let_def)
  qed
qed

lemma sha256_finalize_absorbed:
  assumes "sha256_absorbed s msg"
  shows "sha256_finalize s = sha256_ref msg"
  using assms chunks_exact_rest_length[of 64 msg]
  by (auto simp: sha256_finalize_def sha256_absorbed_def sha256_compress_fold sha256_pad_tail_eq
      sha256_ref_remainder padding_for_def pad_distance_mod[of "length msg", simplified] Let_def)

lemma sha256_fold_absorbed:
  "sha256_absorbed s msg \<Longrightarrow> sha256_absorbed (foldl sha256_update s parts) (msg @ concat parts)"
proof (induction parts arbitrary: s msg)
  case Nil
  then show ?case by simp
next
  case (Cons p parts)
  then have "sha256_absorbed (foldl sha256_update (sha256_update s p) parts) ((msg @ p) @ concat parts)"
    by (intro Cons.IH sha256_update_absorbed)
  then show ?case by simp
qed

lemma length_u32_to_be_bytes [simp]: "length (u32_to_be_bytes v) = 4"
  by (simp add: u32_to_be_bytes_def)

lemma length_state_bytes [simp]: "length (state_bytes h) = 32"
  by (cases h rule: state_bytes.cases) simp

lemma length_sha256_digest [simp]: "length (sha256_digest data) = 32"
  by (simp add: sha256_digest_def sha256_finalize_def Let_def)

declare upt_rec_numeral [simp]

section \<open>Properties\<close>

text \<open>C10: feeding a message to the buffering digest of the discovery component in any number of
  pieces, of any sizes, and finalizing gives the digest that the one-shot function of the model
  loader computes for the concatenation: the two implementations of the crate agree, whatever
  the block boundaries, the partial-buffer carries and the padding case.\<close>

theorem sha256_pieces_agree_with_one_shot:
  "sha256_finalize (foldl sha256_update sha256_new parts) = gguf_sha256 (concat parts)"
  using sha256_finalize_absorbed[OF sha256_fold_absorbed[OF sha256_absorbed_new, of parts]]
  by (simp add: gguf_sha256_ref)

end
