(* ===== verification/Discovery.thy ===== *)
theory Discovery
  imports Sha256
begin

text \<open>
  \<open>src/discovery.rs\<close>: the discovery snapshot of a machine's devices, its canonical bytes, its
  digest identity and the staleness rule. A snapshot is built only from a map whose keys are
  the ordinals of its entries; the constructor panics otherwise, which is \<open>None\<close> here.
\<close>

section \<open>Discovery facts\<close>

record compute_capability =
  cc_major :: u32
  cc_minor :: u32

record dtype_surface =
  ds_f32 :: bool
  ds_f64 :: bool
  ds_f16 :: bool
  ds_bf16 :: bool
  ds_i8 :: bool
  ds_i32 :: bool

definition dtype_surface_empty :: dtype_surface where
  "dtype_surface_empty = \<lparr>ds_f32 = False, ds_f64 = False, ds_f16 = False, ds_bf16 = False,
     ds_i8 = False, ds_i32 = False\<rparr>"

record device_capabilities =
  compute_capability_of :: compute_capability
  sm_count :: u32
  dtype_surface_of :: dtype_surface

record device_memory =
  tool_report_total_mib :: "u64 option"
  api_total_bytes :: u64

datatype device_health = Healthy | Degraded string

record probe_provenance =
  pp_probe :: string
  pp_tool_versions :: string

datatype p2p_probe_state = P2pNotAttempted | P2pAttempted

record device_discovery_entry =
  de_ordinal :: device_ordinal
  de_identity :: physical_device_id
  de_device_model :: "string option"
  de_capabilities :: device_capabilities
  de_memory :: device_memory
  de_health :: device_health
  de_health_generation :: device_health_generation
  de_probe_provenance :: probe_provenance

definition entry_backend :: "device_discovery_entry \<Rightarrow> device_backend" where
  "entry_backend e = device_id_backend (de_identity e)"

type_synonym device_discovery_snapshot_id = bytes

definition snapshot_id_from_canonical_bytes :: "bytes \<Rightarrow> device_discovery_snapshot_id" where
  "snapshot_id_from_canonical_bytes bs = sha256_digest bs"

record device_discovery_snapshot =
  snap_id :: device_discovery_snapshot_id
  snap_probe_utc_nanos :: u64
  snap_devices :: "(device_ordinal, device_discovery_entry) fmap"
  snap_p2p :: p2p_probe_state

section \<open>Canonical bytes\<close>

definition push_discovery_entry ::
  "bytes \<Rightarrow> device_ordinal \<times> device_discovery_entry \<Rightarrow> bytes" where
  "push_discovery_entry out item =
     (let (ordinal, entry) = item;
          out = push_u32 out ordinal;
          out = out @ device_id_canonical_bytes (de_identity entry);
          out = push_bool out (de_device_model entry \<noteq> None);
          out = (case de_device_model entry of Some model \<Rightarrow> push_str out model | None \<Rightarrow> out);
          out = push_u32 out (cc_major (compute_capability_of (de_capabilities entry)));
          out = push_u32 out (cc_minor (compute_capability_of (de_capabilities entry)));
          out = push_u32 out (sm_count (de_capabilities entry));
          ds = dtype_surface_of (de_capabilities entry);
          out = push_bool out (ds_f32 ds);
          out = push_bool out (ds_f64 ds);
          out = push_bool out (ds_f16 ds);
          out = push_bool out (ds_bf16 ds);
          out = push_bool out (ds_i8 ds);
          out = push_bool out (ds_i32 ds);
          out = push_bool out (tool_report_total_mib (de_memory entry) \<noteq> None);
          out = (case tool_report_total_mib (de_memory entry) of Some mib \<Rightarrow> push_u64 out mib | None \<Rightarrow> out);
          out = push_u64 out (api_total_bytes (de_memory entry));
          out = (case de_health entry of
                   Healthy \<Rightarrow> out @ [0]
                 | Degraded reason \<Rightarrow> push_str (out @ [1]) reason);
          out = push_u64 out (de_health_generation entry);
          out = push_str out (pp_probe (de_probe_provenance entry))
      in push_str out (pp_tool_versions (de_probe_provenance entry)))"

definition snapshot_canonical_bytes :: "device_discovery_snapshot \<Rightarrow> bytes" where
  "snapshot_canonical_bytes s =
     (let out = push_u64 [] (snap_probe_utc_nanos s);
          out = push_u64 out (word_of_nat (fcard (fmdom (snap_devices s))));
          out = push_each push_discovery_entry (btree_items (snap_devices s)) out
      in case snap_p2p s of P2pNotAttempted \<Rightarrow> out @ [0] | P2pAttempted \<Rightarrow> out @ [1])"

definition snapshot_new ::
  "u64 \<Rightarrow> (device_ordinal, device_discovery_entry) fmap \<Rightarrow> p2p_probe_state
   \<Rightarrow> device_discovery_snapshot option" where
  "snapshot_new probe_utc_nanos devices p2p =
     (if list_all (\<lambda>(key, entry). key = de_ordinal entry) (btree_items devices)
      then (let out = \<lparr>snap_id = replicate 32 0, snap_probe_utc_nanos = probe_utc_nanos,
                       snap_devices = devices, snap_p2p = p2p\<rparr>
            in Some (out\<lparr>snap_id := snapshot_id_from_canonical_bytes (snapshot_canonical_bytes out)\<rparr>))
      else None)"

section \<open>Staleness\<close>

definition snapshot_is_stale :: "device_discovery_snapshot \<Rightarrow> device_health_generation \<Rightarrow> bool" where
  "snapshot_is_stale s current =
     list_ex (\<lambda>entry. health_is_stale current (de_health_generation entry)) (btree_values (snap_devices s))"

definition snapshot_is_current_generation ::
  "device_discovery_snapshot \<Rightarrow> device_health_generation \<Rightarrow> bool" where
  "snapshot_is_current_generation s current = (\<not> snapshot_is_stale s current)"

lemma snapshot_is_stale_iff:
  "snapshot_is_stale s current \<longleftrightarrow>
     (\<exists>o' e. fmlookup (snap_devices s) o' = Some e \<and> de_health_generation e \<noteq> current)"
  by (auto simp: snapshot_is_stale_def health_is_stale_def list_ex_iff set_btree_values Bex_def)

section \<open>A snapshot is determined by its canonical bytes\<close>

definition entry_ok :: "device_discovery_entry \<Rightarrow> bool" where
  "entry_ok e \<longleftrightarrow> device_id_ok (de_identity e) \<and>
     (case de_device_model e of Some m \<Rightarrow> str_ok m | None \<Rightarrow> True) \<and>
     (case de_health e of Degraded r \<Rightarrow> str_ok r | Healthy \<Rightarrow> True) \<and>
     str_ok (pp_probe (de_probe_provenance e)) \<and> str_ok (pp_tool_versions (de_probe_provenance e))"

definition discovery_item_ok :: "device_ordinal \<times> device_discovery_entry \<Rightarrow> bool" where
  "discovery_item_ok item \<longleftrightarrow> fst item = de_ordinal (snd item) \<and> entry_ok (snd item)"

abbreviation enc_discovery_entry :: "device_ordinal \<times> device_discovery_entry \<Rightarrow> bytes" where
  "enc_discovery_entry \<equiv> push_discovery_entry []"

definition enc_opt :: "('a \<Rightarrow> bytes) \<Rightarrow> 'a option \<Rightarrow> bytes" where
  "enc_opt enc v = enc_bool (v \<noteq> None) @ (case v of Some x \<Rightarrow> enc x | None \<Rightarrow> [])"

definition enc_health :: "device_health \<Rightarrow> bytes" where
  "enc_health h = (case h of Healthy \<Rightarrow> [0] | Degraded reason \<Rightarrow> [1] @ enc_str reason)"

text \<open>The encoding of an entry, field by field.\<close>

lemma push_discovery_entry_flat:
  "push_discovery_entry out (ordinal, e) =
     out @ enc_u32 ordinal @ device_id_canonical_bytes (de_identity e) @
     enc_opt enc_str (de_device_model e) @
     enc_u32 (cc_major (compute_capability_of (de_capabilities e))) @
     enc_u32 (cc_minor (compute_capability_of (de_capabilities e))) @
     enc_u32 (sm_count (de_capabilities e)) @
     enc_bool (ds_f32 (dtype_surface_of (de_capabilities e))) @
     enc_bool (ds_f64 (dtype_surface_of (de_capabilities e))) @
     enc_bool (ds_f16 (dtype_surface_of (de_capabilities e))) @
     enc_bool (ds_bf16 (dtype_surface_of (de_capabilities e))) @
     enc_bool (ds_i8 (dtype_surface_of (de_capabilities e))) @
     enc_bool (ds_i32 (dtype_surface_of (de_capabilities e))) @
     enc_opt enc_u64 (tool_report_total_mib (de_memory e)) @
     enc_u64 (api_total_bytes (de_memory e)) @ enc_health (de_health e) @
     enc_u64 (de_health_generation e) @
     enc_str (pp_probe (de_probe_provenance e)) @
     enc_str (pp_tool_versions (de_probe_provenance e))"
  by (cases "out = []"; cases "de_device_model e"; cases "tool_report_total_mib (de_memory e)"; cases "de_health e")
    (simp_all add: push_discovery_entry_def Let_def enc_opt_def enc_health_def push_flat)

context prefix_code
begin

lemma opt_append_iff:
  assumes "pred_option ok v" "pred_option ok w"
  shows "enc_opt enc v @ x = enc_opt enc w @ y \<longleftrightarrow> v = w \<and> x = y"
  using assms by (cases v; cases w) (auto simp: enc_opt_def bool_code.append_iff append_iff)

end

lemma enc_health_append_iff:
  assumes "case h of Degraded r \<Rightarrow> str_ok r | Healthy \<Rightarrow> True"
    "case k of Degraded r \<Rightarrow> str_ok r | Healthy \<Rightarrow> True"
  shows "enc_health h @ x = enc_health k @ y \<longleftrightarrow> h = k \<and> x = y"
  using assms by (cases h; cases k) (auto simp: enc_health_def str_code.append_iff)

interpretation discovery_item_code: prefix_code enc_discovery_entry discovery_item_ok
proof
  fix a b :: "device_ordinal \<times> device_discovery_entry" and x y :: bytes
  assume ok: "discovery_item_ok a" "discovery_item_ok b"
    and eq: "enc_discovery_entry a @ x = enc_discovery_entry b @ y"
  obtain o1 e1 o2 e2 where ab: "a = (o1, e1)" "b = (o2, e2)" by (cases a; cases b)
  have opts: "pred_option str_ok (de_device_model e1)" "pred_option str_ok (de_device_model e2)"
    using ok unfolding ab discovery_item_ok_def entry_ok_def
    by (auto split: option.splits)
  from eq ok show "a = b \<and> x = y"
    unfolding ab
    by (auto simp: push_discovery_entry_flat discovery_item_ok_def entry_ok_def code_iffs
        device_id_code.append_iff str_code.opt_append_iff[OF opts] u64_code.opt_append_iff
        pred_option_def enc_health_append_iff
        intro!: device_discovery_entry.equality device_capabilities.equality
          compute_capability.equality dtype_surface.equality device_memory.equality
          probe_provenance.equality)
qed

definition snapshot_ok :: "device_discovery_snapshot \<Rightarrow> bool" where
  "snapshot_ok s \<longleftrightarrow> fcard (fmdom (snap_devices s)) < 2 ^ 64 \<and>
     (\<forall>item \<in> set (btree_items (snap_devices s)). discovery_item_ok item) \<and>
     snap_id s = snapshot_id_from_canonical_bytes (snapshot_canonical_bytes s)"

definition p2p_byte :: "p2p_probe_state \<Rightarrow> u8" where
  "p2p_byte p = (case p of P2pNotAttempted \<Rightarrow> 0 | P2pAttempted \<Rightarrow> 1)"

lemma p2p_byte_inject: "p2p_byte a = p2p_byte b \<longleftrightarrow> a = b"
  by (cases a; cases b) (simp_all add: p2p_byte_def)

lemma snapshot_bytes_flat:
  "snapshot_canonical_bytes s =
     enc_u64 (snap_probe_utc_nanos s) @ enc_u64 (word_of_nat (length (btree_items (snap_devices s)))) @
     concat (map enc_discovery_entry (btree_items (snap_devices s))) @
     [p2p_byte (snap_p2p s)]"
proof -
  have "\<And>out item. push_discovery_entry out item = out @ enc_discovery_entry item"
    by (case_tac item) (simp add: push_discovery_entry_flat)
  note each = push_each_concat[of push_discovery_entry enc_discovery_entry, OF this]
  show ?thesis
    unfolding snapshot_canonical_bytes_def Let_def each
    by (simp add: push_flat p2p_byte_def split: p2p_probe_state.splits)
qed

lemma snapshot_bytes_inject:
  assumes "snapshot_ok s" "snapshot_ok t" "snapshot_canonical_bytes s = snapshot_canonical_bytes t"
  shows "s = t"
proof -
  let ?p = "\<lambda>s. [p2p_byte (snap_p2p s)]"
  have "snap_probe_utc_nanos s = snap_probe_utc_nanos t \<and>
      enc_u64 (word_of_nat (length (btree_items (snap_devices s)))) @
        concat (map enc_discovery_entry (btree_items (snap_devices s))) @ ?p s =
      enc_u64 (word_of_nat (length (btree_items (snap_devices t)))) @
        concat (map enc_discovery_entry (btree_items (snap_devices t))) @ ?p t"
    using assms(3) unfolding snapshot_bytes_flat by (simp add: u64_code.append_iff)
  then have "snap_probe_utc_nanos s = snap_probe_utc_nanos t"
    "btree_items (snap_devices s) = btree_items (snap_devices t)" "?p s = ?p t"
    using assms(1,2) discovery_item_code.counted_append_iff
      [of "btree_items (snap_devices s)" "btree_items (snap_devices t)" "?p s" "?p t"]
    unfolding snapshot_ok_def by auto
  then show ?thesis
    using assms unfolding snapshot_ok_def
    by (intro device_discovery_snapshot.equality)
      (auto simp: btree_items_inject p2p_byte_inject)
qed

lemma snapshot_canonical_bytes_cong:
  "snap_probe_utc_nanos a = snap_probe_utc_nanos b \<Longrightarrow> snap_devices a = snap_devices b \<Longrightarrow>
   snap_p2p a = snap_p2p b \<Longrightarrow> snapshot_canonical_bytes a = snapshot_canonical_bytes b"
  by (simp add: snapshot_canonical_bytes_def)

lemma snapshot_new_SomeD:
  assumes "snapshot_new t devices p = Some s"
  shows "snap_devices s = devices \<and> snap_probe_utc_nanos s = t \<and> snap_p2p s = p \<and>
    snap_id s = sha256_digest (snapshot_canonical_bytes s) \<and>
    (\<forall>k e. fmlookup devices k = Some e \<longrightarrow> de_ordinal e = k)"
proof -
  have ok: "list_all (\<lambda>(key, entry). key = de_ordinal entry) (btree_items devices)"
    using assms by (simp add: snapshot_new_def Let_def split: if_splits)
  then have "\<forall>k e. fmlookup devices k = Some e \<longrightarrow> de_ordinal e = k"
    by (auto simp: list_all_iff set_btree_items[symmetric])
  then show ?thesis
    using assms ok
    by (auto simp: snapshot_new_def Let_def snapshot_id_from_canonical_bytes_def
        intro!: arg_cong[of _ _ sha256_digest] snapshot_canonical_bytes_cong)
qed

section \<open>Properties\<close>

text \<open>The facts of a machine the program can hold in memory.\<close>

definition discovery_content_ok :: "(device_ordinal, device_discovery_entry) fmap \<Rightarrow> bool" where
  "discovery_content_ok devices \<longleftrightarrow>
     length (btree_items devices) < 2 ^ 64 \<and> list_all discovery_item_ok (btree_items devices)"

lemma snapshot_new_ok:
  "snapshot_new t devices p = Some s \<Longrightarrow> discovery_content_ok devices \<Longrightarrow> snapshot_ok s"
  using snapshot_new_SomeD[of t devices p s]
  by (simp add: snapshot_ok_def discovery_content_ok_def list_all_iff snapshot_id_from_canonical_bytes_def)

text \<open>Two discovery snapshots built by the constructor have the same canonical bytes exactly
  when they were built from the same probe time, the same devices with all their facts, and the
  same peer-probe state. So the digest identity of a snapshot covers every recorded fact, and
  no two different machines' facts are serialised to the same bytes.\<close>

theorem snapshot_bytes_determine_facts:
  assumes "snapshot_new t1 devices1 p1 = Some s1" "snapshot_new t2 devices2 p2 = Some s2"
    and "discovery_content_ok devices1" "discovery_content_ok devices2"
  shows "snapshot_canonical_bytes s1 = snapshot_canonical_bytes s2 \<longleftrightarrow>
    t1 = t2 \<and> devices1 = devices2 \<and> p1 = p2"
  using snapshot_bytes_inject[OF snapshot_new_ok[OF assms(1,3)] snapshot_new_ok[OF assms(2,4)]]
    snapshot_new_SomeD[OF assms(1)] snapshot_new_SomeD[OF assms(2)] assms(1,2)
  by (metis option.inject)

definition example_entry :: "u32 \<Rightarrow> string \<Rightarrow> u64 \<Rightarrow> device_discovery_entry" where
  "example_entry o' uuid g = \<lparr>de_ordinal = o', de_identity = device_id_cuda uuid None,
     de_device_model = Some ''GB10'',
     de_capabilities = \<lparr>compute_capability_of = \<lparr>cc_major = 12, cc_minor = 1\<rparr>, sm_count = 48,
       dtype_surface_of = dtype_surface_empty\<lparr>ds_f32 := True\<rparr>\<rparr>,
     de_memory = \<lparr>tool_report_total_mib = None, api_total_bytes = 1024\<rparr>,
     de_health = Healthy, de_health_generation = g,
     de_probe_provenance = \<lparr>pp_probe = ''nvml'', pp_tool_versions = ''1''\<rparr>\<rparr>"

definition example_devices :: "u64 \<Rightarrow> (device_ordinal, device_discovery_entry) fmap" where
  "example_devices g = fmap_of_list [(0, example_entry 0 ''GPU-a'' g), (1, example_entry 1 ''GPU-b'' g)]"

lemma btree_items_example:
  "btree_items (example_devices g) = [(0, example_entry 0 ''GPU-a'' g), (1, example_entry 1 ''GPU-b'' g)]"
proof -
  have "sorted_list_of_fset (fmdom (example_devices g)) = [0, 1]"
    unfolding example_devices_def by (simp add: sorted_list_of_fset.rep_eq)
  then show ?thesis
    by (simp add: btree_items_def btree_keys_def example_devices_def fmlookup_of_list)
qed

definition example_snapshot :: "u64 \<Rightarrow> u64 \<Rightarrow> device_discovery_snapshot" where
  "example_snapshot t g = the (snapshot_new t (example_devices g) P2pNotAttempted)"

lemma snapshot_new_example:
  "snapshot_new t (example_devices g) P2pNotAttempted = Some (example_snapshot t g)"
  by (simp add: example_snapshot_def snapshot_new_def Let_def btree_items_example example_entry_def)

lemma example_content_ok: "discovery_content_ok (example_devices g)"
  by (simp add: discovery_content_ok_def btree_items_example discovery_item_ok_def entry_ok_def
      example_entry_def device_id_ok_def device_id_cuda_def from_facts_def)

theorem snapshot_bytes_determine_facts_witness:
  "snapshot_canonical_bytes (example_snapshot 5 1) \<noteq> snapshot_canonical_bytes (example_snapshot 6 1)"
  using snapshot_bytes_determine_facts[OF snapshot_new_example snapshot_new_example
      example_content_ok example_content_ok, of 5 1 6 1] by simp

text \<open>A health event, which advances the epoch, makes every non-empty snapshot taken at the
  old epoch stale, except at the very end of the counter, where the saturating increment no
  longer changes it and the event goes unnoticed.\<close>

theorem health_event_stales_snapshot:
  assumes "fmlookup (snap_devices s) k = Some e" "snapshot_is_current_generation s g"
  shows "snapshot_is_stale s (health_advance g) \<longleftrightarrow> unat g < 2 ^ 64 - 1"
proof -
  have all: "\<forall>o' e. fmlookup (snap_devices s) o' = Some e \<longrightarrow> de_health_generation e = g"
    using assms(2) by (auto simp: snapshot_is_current_generation_def snapshot_is_stale_iff)
  then have "snapshot_is_stale s (health_advance g) \<longleftrightarrow> health_advance g \<noteq> g"
    using assms(1) by (force simp: snapshot_is_stale_iff)
  moreover have "unat g < 2 ^ LENGTH(64)" by (rule unsigned_less)
  ultimately show ?thesis by (auto simp: word_unat_eq_iff unat_health_advance)
qed

lemma snap_devices_example [simp]: "snap_devices (example_snapshot t g) = example_devices g"
  using snapshot_new_SomeD[OF snapshot_new_example] by blast

lemma example_lookup: "fmlookup (example_devices g) 0 = Some (example_entry 0 ''GPU-a'' g)"
  by (simp add: example_devices_def fmlookup_of_list)

lemma example_current: "snapshot_is_current_generation (example_snapshot t g) g"
  by (simp add: snapshot_is_current_generation_def snapshot_is_stale_def btree_values_def
      btree_items_example example_entry_def health_is_stale_def)

theorem health_event_stales_snapshot_witness:
  "snapshot_is_stale (example_snapshot 5 1) (health_advance 1)"
  using health_event_stales_snapshot[of "example_snapshot 5 1" 0 _ 1]
    example_current[of 5 1] by (simp add: example_lookup)

end
