(* ===== verification/DeviceSet.thy ===== *)
theory DeviceSet
  imports Discovery
begin

text \<open>
  \<open>src/device_set.rs\<close>: selected device membership, its validation against a discovery snapshot,
  the resolution of a selection request, and the directed topology gate. Constructors that
  panic on a programmer error return \<open>None\<close>.
\<close>

section \<open>Membership\<close>

datatype device_set = DeviceSet (members: "physical_device_id fset")

datatype membership_error =
  UnknownDevice physical_device_id
| StaleEpoch physical_device_id device_health_generation device_health_generation

definition device_set_from_members :: "physical_device_id list \<Rightarrow> device_set" where
  "device_set_from_members ids = DeviceSet (fset_of_list ids)"

definition device_set_contains :: "device_set \<Rightarrow> physical_device_id \<Rightarrow> bool" where
  "device_set_contains s d = (d |\<in>| members s)"

definition device_set_len :: "device_set \<Rightarrow> nat" where
  "device_set_len s = fcard (members s)"

definition device_set_is_singleton :: "device_set \<Rightarrow> bool" where
  "device_set_is_singleton s = (fcard (members s) = 1)"

definition find_entry ::
  "device_discovery_snapshot \<Rightarrow> physical_device_id \<Rightarrow> device_discovery_entry option" where
  "find_entry discovery d =
     find (\<lambda>entry. de_identity entry = d) (btree_values (snap_devices discovery))"

definition validate_member ::
  "device_discovery_snapshot \<Rightarrow> device_health_generation \<Rightarrow> physical_device_id
   \<Rightarrow> membership_error option" where
  "validate_member discovery current d =
     (case find_entry discovery d of
        None \<Rightarrow> Some (UnknownDevice d)
      | Some entry \<Rightarrow>
          if health_is_stale current (de_health_generation entry)
          then Some (StaleEpoch d (de_health_generation entry) current)
          else None)"

definition device_set_validate ::
  "device_set \<Rightarrow> device_discovery_snapshot \<Rightarrow> device_health_generation
   \<Rightarrow> membership_error option" where
  "device_set_validate s discovery current =
     try_each (validate_member discovery current) (sorted_list_of_fset (members s))"

lemma find_entry_SomeD:
  "find_entry s d = Some e \<Longrightarrow> de_identity e = d \<and> (\<exists>k. fmlookup (snap_devices s) k = Some e)"
  unfolding find_entry_def find_Some_iff
  using set_btree_values[of _ "snap_devices s"] by (metis nth_mem)

lemma find_entry_None_iff:
  "find_entry s d = None \<longleftrightarrow> (\<forall>k e. fmlookup (snap_devices s) k = Some e \<longrightarrow> de_identity e \<noteq> d)"
  by (auto simp: find_entry_def find_None_iff set_btree_values)

lemma validate_member_None_iff:
  "validate_member s g d = None \<longleftrightarrow>
     (\<exists>e. find_entry s d = Some e \<and> de_health_generation e = g)"
  by (auto simp: validate_member_def health_is_stale_def split: option.splits)

lemma device_set_validate_None_iff:
  "device_set_validate ds s g = None \<longleftrightarrow>
     (\<forall>d |\<in>| members ds. \<exists>e. find_entry s d = Some e \<and> de_health_generation e = g)"
  by (simp add: device_set_validate_def try_each_None_iff validate_member_None_iff)

section \<open>Selection\<close>

record device_set_constraints =
  dc_backend :: "device_backend option"
  dc_exclude :: "physical_device_id fset"
  dc_min_count :: nat
  dc_max_count :: "nat option"

definition default_constraints :: device_set_constraints where
  "default_constraints = \<lparr>dc_backend = None, dc_exclude = {||}, dc_min_count = 0, dc_max_count = None\<rparr>"

datatype device_set_selection =
  Explicit "physical_device_id fset"
| Constraints device_set_constraints

datatype selection_error =
  Membership membership_error
| BelowMinimum nat nat
| AboveMaximum nat nat

text \<open>The body of the selecting loop: \<open>True\<close> where it reaches \<open>selected.push\<close>.\<close>

definition selectable ::
  "device_set_constraints \<Rightarrow> device_health_generation \<Rightarrow> device_discovery_entry \<Rightarrow> bool" where
  "selectable constraints current entry =
     (if health_is_stale current (de_health_generation entry) then False
      else if (case dc_backend constraints of
                 Some backend \<Rightarrow> device_id_backend (de_identity entry) \<noteq> backend
               | None \<Rightarrow> False) then False
      else if de_identity entry |\<in>| dc_exclude constraints then False
      else True)"

fun selection_resolve ::
  "device_set_selection \<Rightarrow> device_discovery_snapshot \<Rightarrow> device_health_generation
   \<Rightarrow> selection_error + device_set" where
  "selection_resolve (Explicit ids) discovery current =
     (let s = device_set_from_members (sorted_list_of_fset ids)
      in case device_set_validate s discovery current of
           Some e \<Rightarrow> Inl (Membership e)
         | None \<Rightarrow> Inr s)"
| "selection_resolve (Constraints constraints) discovery current =
     (let selected = map de_identity
            (filter (selectable constraints current) (btree_values (snap_devices discovery)));
          s = device_set_from_members selected
      in if device_set_len s < dc_min_count constraints
         then Inl (BelowMinimum (dc_min_count constraints) (device_set_len s))
         else (case dc_max_count constraints of
                 Some mx \<Rightarrow> if mx < device_set_len s then Inl (AboveMaximum mx (device_set_len s)) else Inr s
               | None \<Rightarrow> Inr s))"

text \<open>The devices a request may select: recorded now, of the backend asked for, not excluded.\<close>

definition admissible_devices ::
  "device_set_constraints \<Rightarrow> device_discovery_snapshot \<Rightarrow> device_health_generation
   \<Rightarrow> physical_device_id set" where
  "admissible_devices c s g = {de_identity e | e k. fmlookup (snap_devices s) k = Some e \<and>
     de_health_generation e = g \<and> (\<forall>b. dc_backend c = Some b \<longrightarrow> device_id_backend (de_identity e) = b) \<and>
     de_identity e |\<notin>| dc_exclude c}"

lemma selectable_iff:
  "selectable c g e \<longleftrightarrow> de_health_generation e = g \<and>
     (\<forall>b. dc_backend c = Some b \<longrightarrow> device_id_backend (de_identity e) = b) \<and>
     de_identity e |\<notin>| dc_exclude c"
  by (auto simp: selectable_def health_is_stale_def split: option.splits)

lemma selection_resolve_constraints_members:
  assumes "selection_resolve (Constraints c) s g = Inr ds"
  shows "fset (members ds) = admissible_devices c s g"
proof -
  have "ds = device_set_from_members
      (map de_identity (filter (selectable c g) (btree_values (snap_devices s))))"
    using assms by (auto simp: Let_def split: if_splits option.splits)
  then have "fset (members ds) = de_identity ` {e \<in> set (btree_values (snap_devices s)). selectable c g e}"
    by (simp add: device_set_from_members_def fset_of_list.rep_eq del: fset_of_list_map)
  then show ?thesis by (auto simp: set_btree_values admissible_devices_def selectable_iff)
qed

lemma selection_resolve_constraints_bounds:
  assumes "selection_resolve (Constraints c) s g = Inr ds"
  shows "dc_min_count c \<le> fcard (members ds) \<and> (\<forall>mx. dc_max_count c = Some mx \<longrightarrow> fcard (members ds) \<le> mx)"
  using assms by (auto simp: Let_def device_set_len_def split: if_splits option.splits)

text \<open>No device is recorded at two ordinals.\<close>

definition unique_identities :: "device_discovery_snapshot \<Rightarrow> bool" where
  "unique_identities s \<longleftrightarrow> distinct (map de_identity (btree_values (snap_devices s)))"

lemma find_entry_unique:
  assumes "unique_identities s" "fmlookup (snap_devices s) k = Some e"
  shows "find_entry s (de_identity e) = Some e"
proof -
  have mem: "e \<in> set (btree_values (snap_devices s))" unfolding set_btree_values using assms(2) by blast
  have "find_entry s (de_identity e) \<noteq> None"
    unfolding find_entry_None_iff using assms(2) by blast
  then obtain e' where e': "find_entry s (de_identity e) = Some e'" by auto
  then have "de_identity e' = de_identity e" "e' \<in> set (btree_values (snap_devices s))"
    unfolding set_btree_values using find_entry_SomeD[OF e'] by blast+
  with mem assms(1) e' show ?thesis
    by (auto simp: unique_identities_def distinct_map inj_on_def)
qed

lemma selection_resolve_validates_aux:
  assumes "selection_resolve sel s g = Inr ds" "unique_identities s"
  shows "device_set_validate ds s g = None"
proof (cases sel)
  case (Explicit ids)
  with assms(1) show ?thesis by (auto simp: Let_def split: option.splits)
next
  case (Constraints c)
  have "fset (members ds) = admissible_devices c s g"
    using assms(1) Constraints selection_resolve_constraints_members by simp
  then show ?thesis
    using find_entry_unique[OF assms(2)]
    by (auto simp: device_set_validate_None_iff admissible_devices_def)
qed

section \<open>Topology\<close>

datatype link_path_class = Peer | HostStagedLink

record link_facts =
  bandwidth_bytes_per_sec :: u64
  latency_nanos :: u64

datatype device_link_state =
  LinkAdmitted link_path_class link_facts
| LinkNotAttempted
| LinkRejected string

record device_link =
  dl_from :: physical_device_id
  dl_to :: physical_device_id
  dl_state :: device_link_state

definition link_admitted ::
  "physical_device_id \<Rightarrow> physical_device_id \<Rightarrow> link_path_class \<Rightarrow> link_facts \<Rightarrow> device_link option" where
  "link_admitted from to path_class lf =
     (if from \<noteq> to then Some \<lparr>dl_from = from, dl_to = to, dl_state = LinkAdmitted path_class lf\<rparr> else None)"

definition link_not_attempted ::
  "physical_device_id \<Rightarrow> physical_device_id \<Rightarrow> device_link option" where
  "link_not_attempted from to =
     (if from \<noteq> to then Some \<lparr>dl_from = from, dl_to = to, dl_state = LinkNotAttempted\<rparr> else None)"

definition link_rejected ::
  "physical_device_id \<Rightarrow> physical_device_id \<Rightarrow> string \<Rightarrow> device_link option" where
  "link_rejected from to reason =
     (if from \<noteq> to then Some \<lparr>dl_from = from, dl_to = to, dl_state = LinkRejected reason\<rparr> else None)"

record device_topology_snapshot =
  topo_discovery :: device_discovery_snapshot
  topo_links :: "(physical_device_id \<times> physical_device_id, device_link) fmap"

definition topology_new ::
  "device_discovery_snapshot \<Rightarrow> device_link list \<Rightarrow> device_topology_snapshot option" where
  "topology_new discovery links =
     (if list_all (\<lambda>link. dl_from link \<noteq> dl_to link \<and>
            find_entry discovery (dl_from link) \<noteq> None \<and>
            find_entry discovery (dl_to link) \<noteq> None) links
      then Some \<lparr>topo_discovery = discovery,
                 topo_links = foldl (\<lambda>m link. fmupd (dl_from link, dl_to link) link m) fmempty links\<rparr>
      else None)"

datatype link_gate_error =
  UnknownEndpoint physical_device_id
| NoLinkRecorded physical_device_id physical_device_id
| GateNotAttempted physical_device_id physical_device_id
| GateRejected physical_device_id physical_device_id string

definition traversal_allowed ::
  "device_topology_snapshot \<Rightarrow> physical_device_id \<Rightarrow> physical_device_id \<Rightarrow> link_gate_error option" where
  "traversal_allowed t from to =
     (if from = to then None
      else if find_entry (topo_discovery t) from = None then Some (UnknownEndpoint from)
      else if find_entry (topo_discovery t) to = None then Some (UnknownEndpoint to)
      else (case fmlookup (topo_links t) (from, to) of
              None \<Rightarrow> Some (NoLinkRecorded from to)
            | Some link \<Rightarrow>
                (case dl_state link of
                   LinkAdmitted _ _ \<Rightarrow> None
                 | LinkNotAttempted \<Rightarrow> Some (GateNotAttempted from to)
                 | LinkRejected reason \<Rightarrow> Some (GateRejected from to reason))))"

text \<open>The map of links holds, for each pair, the last row given for it.\<close>

lemma foldl_links_lookup:
  "fmlookup (foldl (\<lambda>m link. fmupd (dl_from link, dl_to link) link m) m links) (a, b) =
     (case find (\<lambda>l. dl_from l = a \<and> dl_to l = b) (rev links) of Some l \<Rightarrow> Some l | None \<Rightarrow> fmlookup m (a, b))"
  by (induction links rule: rev_induct) auto

lemma topology_new_SomeD:
  assumes "topology_new d links = Some t"
  shows "topo_discovery t = d \<and>
    fmlookup (topo_links t) (a, b) = find (\<lambda>l. dl_from l = a \<and> dl_to l = b) (rev links) \<and>
    (\<forall>l \<in> set links. dl_from l \<noteq> dl_to l \<and> find_entry d (dl_from l) \<noteq> None \<and> find_entry d (dl_to l) \<noteq> None)"
  using assms
  by (auto simp: topology_new_def foldl_links_lookup list_all_iff split: if_splits option.splits)

lemma traversal_allowed_iff:
  assumes "topology_new d links = Some t"
  shows "traversal_allowed t a b = None \<longleftrightarrow>
    a = b \<or> (\<exists>l pc lf. find (\<lambda>l. dl_from l = a \<and> dl_to l = b) (rev links) = Some l \<and>
      dl_state l = LinkAdmitted pc lf)"
proof -
  have t: "topo_discovery t = d"
    "fmlookup (topo_links t) (a, b) = find (\<lambda>l. dl_from l = a \<and> dl_to l = b) (rev links)"
    "\<forall>l \<in> set links. find_entry d (dl_from l) \<noteq> None \<and> find_entry d (dl_to l) \<noteq> None"
    using topology_new_SomeD[OF assms] by blast+
  have known: "find_entry d a \<noteq> None \<and> find_entry d b \<noteq> None"
    if "find (\<lambda>l. dl_from l = a \<and> dl_to l = b) (rev links) = Some l" for l
    using that t(3) unfolding find_Some_iff by (metis nth_mem set_rev)
  show ?thesis
  proof (cases "find (\<lambda>l. dl_from l = a \<and> dl_to l = b) (rev links)")
    case None
    then show ?thesis by (simp add: traversal_allowed_def t(1,2))
  next
    case (Some l)
    then show ?thesis using known[OF Some]
      by (cases "dl_state l") (auto simp: traversal_allowed_def t(1,2))
  qed
qed

section \<open>Properties\<close>

text \<open>What a selection request resolves to. From constraints: exactly the devices recorded
  at the current epoch, of the backend asked for and not excluded, and a number of them within
  the bounds asked for. Explicitly: the ids named. Either way, when no device is recorded
  at two ordinals, the selected set passes the membership validation at the same epoch, so a
  bind to it does not fail on membership.\<close>

theorem selection_resolve_correct:
  assumes "selection_resolve sel s g = Inr ds"
  shows "(case sel of
      Explicit ids \<Rightarrow> members ds = ids
    | Constraints c \<Rightarrow> fset (members ds) = admissible_devices c s g \<and>
        dc_min_count c \<le> fcard (members ds) \<and>
        (\<forall>mx. dc_max_count c = Some mx \<longrightarrow> fcard (members ds) \<le> mx)) \<and>
    (unique_identities s \<longrightarrow> device_set_validate ds s g = None)"
proof (cases sel)
  case (Explicit ids)
  then have "members ds = ids"
    using assms by (auto simp: Let_def device_set_from_members_def split: option.splits)
  with Explicit show ?thesis using selection_resolve_validates_aux[OF assms] by simp
next
  case (Constraints c)
  then show ?thesis
    using assms selection_resolve_validates_aux[OF assms]
      selection_resolve_constraints_members selection_resolve_constraints_bounds by simp
qed

definition example_constraints :: device_set_constraints where
  "example_constraints = \<lparr>dc_backend = Some BackendCuda, dc_exclude = {|device_id_cuda ''GPU-b'' None|},
     dc_min_count = 1, dc_max_count = Some 1\<rparr>"

lemma btree_values_example [simp]: "btree_values (example_devices g) =
    [example_entry 0 ''GPU-a'' g, example_entry 1 ''GPU-b'' g]"
  by (simp add: btree_values_def btree_items_example)

lemma example_resolve:
  "selection_resolve (Constraints example_constraints) (example_snapshot 5 1) 1
     = Inr (DeviceSet {|device_id_cuda ''GPU-a'' None|})"
  by (simp add: btree_values_example example_entry_def example_constraints_def Let_def selectable_def
      health_is_stale_def device_id_backend_def device_id_cuda_def from_facts_def
      device_set_from_members_def device_set_len_def fcard_finsert_if)

lemma unique_example: "unique_identities (example_snapshot t g)"
  by (simp add: unique_identities_def btree_values_example example_entry_def
      device_id_cuda_def from_facts_def)

theorem selection_resolve_correct_witness:
  "device_set_validate (DeviceSet {|device_id_cuda ''GPU-a'' None|}) (example_snapshot 5 1) 1 = None"
  using selection_resolve_correct[OF example_resolve] unique_example by simp

text \<open>The transfer gate is directed and evidence based. After a topology is built from
  link rows, a transfer between two different devices is allowed exactly when the last
  row for that ordered pair is an admitted link; an admitted link in the other direction,
  a link never attempted or a rejected one never opens it.\<close>

theorem traversal_needs_admitted_link:
  assumes "topology_new d links = Some t"
  shows "traversal_allowed t a b = None \<longleftrightarrow>
    a = b \<or> (\<exists>l pc lf. find (\<lambda>l. dl_from l = a \<and> dl_to l = b) (rev links) = Some l \<and>
      dl_state l = LinkAdmitted pc lf)"
  using assms by (rule traversal_allowed_iff)

definition example_links :: "device_link list" where
  "example_links = [\<lparr>dl_from = device_id_cuda ''GPU-a'' None, dl_to = device_id_cuda ''GPU-b'' None,
     dl_state = LinkAdmitted Peer \<lparr>bandwidth_bytes_per_sec = 1, latency_nanos = 2\<rparr>\<rparr>]"

lemma find_entry_example: "find_entry (example_snapshot t g) (device_id_cuda ''GPU-a'' None) =
    Some (example_entry 0 ''GPU-a'' g)"
  "find_entry (example_snapshot t g) (device_id_cuda ''GPU-b'' None) = Some (example_entry 1 ''GPU-b'' g)"
  by (simp_all add: find_entry_def btree_values_example) (simp_all add: example_entry_def
      device_id_cuda_def from_facts_def)

lemma topology_example: "topology_new (example_snapshot 5 1) example_links
    = Some (the (topology_new (example_snapshot 5 1) example_links))"
  by (simp add: topology_new_def example_links_def find_entry_example)
    (simp add: device_id_cuda_def from_facts_def)

theorem traversal_needs_admitted_link_witness:
  "traversal_allowed (the (topology_new (example_snapshot 5 1) example_links))
     (device_id_cuda ''GPU-b'' None) (device_id_cuda ''GPU-a'' None) \<noteq> None"
  using traversal_needs_admitted_link[OF topology_example,
      of "device_id_cuda ''GPU-b'' None" "device_id_cuda ''GPU-a'' None"]
  by (simp add: example_links_def device_id_cuda_def from_facts_def)

end
