(* ===== verification/Partition.thy ===== *)
theory Partition
  imports DeviceIdentity
begin

text \<open>
  \<open>src/partition.rs\<close>: the seven-class budget ledger of a virtual partition, the admission of a
  declared ledger against the safe physical limit, the partition state machine
  \<open>Active \<rightarrow> Failed \<rightarrow> TornDown\<close> and the canonical partition receipt.
\<close>

section \<open>The budget ledger\<close>

type_synonym virtual_device_partition_id = u64

record partition_budget_ledger =
  weight_bytes :: u64
  kv_cache_bytes :: u64
  activation_scratch_bytes :: u64
  module_storage_bytes :: u64
  allocator_overhead_bytes :: u64
  transfer_staging_bytes :: u64
  concurrent_state_bytes :: u64

definition ledger_total_bytes :: "partition_budget_ledger \<Rightarrow> u64 option" where
  "ledger_total_bytes l = do {
     total \<leftarrow> checked_add 0 (weight_bytes l);
     total \<leftarrow> checked_add total (kv_cache_bytes l);
     total \<leftarrow> checked_add total (activation_scratch_bytes l);
     total \<leftarrow> checked_add total (module_storage_bytes l);
     total \<leftarrow> checked_add total (allocator_overhead_bytes l);
     total \<leftarrow> checked_add total (transfer_staging_bytes l);
     total \<leftarrow> checked_add total (concurrent_state_bytes l);
     Some total
   }"

text \<open>The same total over unbounded naturals: the specification of the checked sum.\<close>

definition ledger_sum :: "partition_budget_ledger \<Rightarrow> nat" where
  "ledger_sum l = unat (weight_bytes l) + unat (kv_cache_bytes l)
     + unat (activation_scratch_bytes l) + unat (module_storage_bytes l)
     + unat (allocator_overhead_bytes l) + unat (transfer_staging_bytes l)
     + unat (concurrent_state_bytes l)"

lemma checked_add_bind:
  "Option.bind (checked_add a b) f =
     (if unat a + unat b < 2 ^ LENGTH('w) then f (a + b) else None)"
  for a b :: "'w::len word"
  by (simp add: checked_add_def)

lemma unat_plus_exact:
  "unat a + unat b < 2 ^ LENGTH('w) \<Longrightarrow> unat (a + b) = unat a + unat b"
  for a b :: "'w::len word"
  by (simp add: unat_word_ariths)

lemma ledger_total_bytes_eq:
  "ledger_total_bytes l =
     (if ledger_sum l < 2 ^ 64 then Some (word_of_nat (ledger_sum l)) else None)"
  unfolding ledger_total_bytes_def ledger_sum_def
  by (auto simp: checked_add_bind unat_plus_exact simp del: bind_runit)

section \<open>Admission\<close>

type_synonym safe_physical_limit = u64

record admission_request =
  ar_partition_id :: virtual_device_partition_id
  ar_bound_device :: physical_device_id
  ar_declared :: partition_budget_ledger

datatype admission_error =
  BudgetExceeded (declared_total_bytes: "u64 option") (policy_limit_bytes: u64)

datatype partition_failure = AllocationFailure string | DeviceLossFailure string

datatype partition_state = Active | PartitionFailed partition_failure | TornDown

record virtual_device_partition =
  vp_id :: virtual_device_partition_id
  vp_bound_device :: physical_device_id
  vp_ledger :: partition_budget_ledger
  vp_safe_limit :: safe_physical_limit
  vp_state :: partition_state

definition partition_admit ::
  "admission_request \<Rightarrow> safe_physical_limit \<Rightarrow> admission_error + virtual_device_partition" where
  "partition_admit request safe_limit =
     (case ledger_total_bytes (ar_declared request) of
        Some declared_total \<Rightarrow>
          if declared_total \<le> safe_limit
          then Inr \<lparr>vp_id = ar_partition_id request, vp_bound_device = ar_bound_device request,
                    vp_ledger = ar_declared request, vp_safe_limit = safe_limit,
                    vp_state = Active\<rparr>
          else Inl (BudgetExceeded (Some declared_total) safe_limit)
      | None \<Rightarrow> Inl (BudgetExceeded None safe_limit))"

definition partition_implicit_local ::
  "virtual_device_partition_id \<Rightarrow> physical_device_id \<Rightarrow> partition_budget_ledger
   \<Rightarrow> safe_physical_limit \<Rightarrow> admission_error + virtual_device_partition" where
  "partition_implicit_local pid device ledger safe_limit =
     partition_admit \<lparr>ar_partition_id = pid, ar_bound_device = device, ar_declared = ledger\<rparr> safe_limit"

definition partition_is_active :: "virtual_device_partition \<Rightarrow> bool" where
  "partition_is_active p = (vp_state p = Active)"

definition partition_failure_of :: "virtual_device_partition \<Rightarrow> partition_failure option" where
  "partition_failure_of p = (case vp_state p of
     PartitionFailed failure \<Rightarrow> Some failure | Active \<Rightarrow> None | TornDown \<Rightarrow> None)"

definition admitted_total_bytes :: "virtual_device_partition \<Rightarrow> u64 option" where
  "admitted_total_bytes p = ledger_total_bytes (vp_ledger p)"

section \<open>The partition state machine\<close>

definition record_failure ::
  "virtual_device_partition \<Rightarrow> partition_failure \<Rightarrow> virtual_device_partition" where
  "record_failure p failure =
     (if vp_state p = Active then p\<lparr>vp_state := PartitionFailed failure\<rparr> else p)"

definition record_allocation_failure ::
  "virtual_device_partition \<Rightarrow> string \<Rightarrow> virtual_device_partition" where
  "record_allocation_failure p detail = record_failure p (AllocationFailure detail)"

definition report_device_loss ::
  "virtual_device_partition \<Rightarrow> string \<Rightarrow> virtual_device_partition" where
  "report_device_loss p detail = record_failure p (DeviceLossFailure detail)"

definition partition_teardown :: "virtual_device_partition \<Rightarrow> virtual_device_partition" where
  "partition_teardown p = p\<lparr>vp_state := TornDown\<rparr>"

inductive partition_step :: "virtual_device_partition \<Rightarrow> virtual_device_partition \<Rightarrow> bool" where
  fail: "partition_step p (record_failure p failure)"
| allocation_failure: "partition_step p (record_allocation_failure p detail)"
| device_loss: "partition_step p (report_device_loss p detail)"
| teardown: "partition_step p (partition_teardown p)"

inductive_cases partition_stepE: "partition_step p q"

lemmas partition_op_defs =
  record_failure_def record_allocation_failure_def report_device_loss_def partition_teardown_def

lemma partition_step_frame:
  assumes "partition_step p q"
  shows "vp_id q = vp_id p \<and> vp_bound_device q = vp_bound_device p
     \<and> vp_ledger q = vp_ledger p \<and> vp_safe_limit q = vp_safe_limit p"
  using assms by (cases rule: partition_step.cases) (auto simp: partition_op_defs)

lemma partition_step_not_reactivated:
  assumes "partition_step p q" "vp_state p \<noteq> Active"
  shows "vp_state q \<noteq> Active"
  using assms by (cases rule: partition_step.cases) (auto simp: partition_op_defs)

lemma partition_step_failure:
  assumes "partition_step p q" "vp_state p = PartitionFailed f"
  shows "vp_state q \<in> {PartitionFailed f, TornDown}"
  using assms by (cases rule: partition_step.cases) (auto simp: partition_op_defs)

text \<open>What admission promises and every operation keeps: the frozen ledger fits the limit.\<close>

definition admitted_within_limit :: "virtual_device_partition \<Rightarrow> bool" where
  "admitted_within_limit p \<longleftrightarrow> ledger_sum (vp_ledger p) \<le> unat (vp_safe_limit p)"

lemma u64_bound: "unat (v :: u64) < 2 ^ 64"
  using unsigned_less[of v, where 'a = nat] by simp

lemma partition_admit_Inr_iff:
  "partition_admit r limit = Inr p \<longleftrightarrow>
     ledger_sum (ar_declared r) \<le> unat limit \<and>
     p = \<lparr>vp_id = ar_partition_id r, vp_bound_device = ar_bound_device r,
          vp_ledger = ar_declared r, vp_safe_limit = limit, vp_state = Active\<rparr>"
  using u64_bound[of limit]
  by (auto simp: partition_admit_def ledger_total_bytes_eq word_le_nat_alt unat_of_nat)

lemma partition_admit_Inl_iff:
  "partition_admit r limit = Inl e \<longleftrightarrow>
     unat limit < ledger_sum (ar_declared r) \<and>
     e = BudgetExceeded (ledger_total_bytes (ar_declared r)) limit"
  using u64_bound[of limit]
  by (auto simp: partition_admit_def ledger_total_bytes_eq word_le_nat_alt unat_of_nat)

lemma partition_reachable_invariant:
  assumes "partition_step\<^sup>*\<^sup>* p q" "admitted_within_limit p"
  shows "admitted_within_limit q \<and> vp_ledger q = vp_ledger p \<and> vp_id q = vp_id p
    \<and> vp_bound_device q = vp_bound_device p"
  using assms by (induction rule: rtranclp_induct)
    (auto simp: admitted_within_limit_def dest: partition_step_frame)

lemma partition_reachable_not_reactivated:
  assumes "partition_step\<^sup>*\<^sup>* p q" "vp_state p \<noteq> Active"
  shows "vp_state q \<noteq> Active"
  using assms by (induction rule: rtranclp_induct) (auto dest: partition_step_not_reactivated)

section \<open>The partition receipt\<close>

datatype hardware_isolation_claim = NotClaimed

datatype fixture_identity_class = FixturePhysical | FixtureVirtual | FixtureSynthetic

fun fixture_tag :: "fixture_identity_class \<Rightarrow> u64" where
  "fixture_tag FixturePhysical = 0"
| "fixture_tag FixtureVirtual = 1"
| "fixture_tag FixtureSynthetic = 2"

datatype transport_class = TransportNone | TransportHostStaged | TransportDirectedPeerNotAttempted

fun transport_tag :: "transport_class \<Rightarrow> u64" where
  "transport_tag TransportNone = 0"
| "transport_tag TransportHostStaged = 1"
| "transport_tag TransportDirectedPeerNotAttempted = 2"

record partition_receipt =
  physical_device_count :: u64
  physical_device_ids :: "physical_device_id fset"
  virtual_partition_count :: u64
  virtual_partition_ids :: "virtual_device_partition_id fset"
  pr_fixture_identity_class :: fixture_identity_class
  pr_transport_class :: transport_class
  hardware_isolation_claimed :: hardware_isolation_claim

definition partition_receipt_new ::
  "physical_device_id fset \<Rightarrow> virtual_device_partition_id fset \<Rightarrow> fixture_identity_class
   \<Rightarrow> transport_class \<Rightarrow> partition_receipt" where
  "partition_receipt_new physical virtual fixture transport =
     \<lparr>physical_device_count = word_of_nat (fcard physical), physical_device_ids = physical,
      virtual_partition_count = word_of_nat (fcard virtual), virtual_partition_ids = virtual,
      pr_fixture_identity_class = fixture, pr_transport_class = transport,
      hardware_isolation_claimed = NotClaimed\<rparr>"

definition push_device_id :: "bytes \<Rightarrow> physical_device_id \<Rightarrow> bytes" where
  "push_device_id out d = out @ device_id_canonical_bytes d"

definition partition_receipt_canonical_bytes :: "partition_receipt \<Rightarrow> bytes" where
  "partition_receipt_canonical_bytes r =
     (let out = push_u64 [] (physical_device_count r);
          out = push_u64 out (word_of_nat (fcard (physical_device_ids r)));
          out = push_each push_device_id (sorted_list_of_fset (physical_device_ids r)) out;
          out = push_u64 out (virtual_partition_count r);
          out = push_u64 out (word_of_nat (fcard (virtual_partition_ids r)));
          out = push_each push_u64 (sorted_list_of_fset (virtual_partition_ids r)) out;
          out = push_u64 out (fixture_tag (pr_fixture_identity_class r));
          out = push_u64 out (transport_tag (pr_transport_class r));
          claimed = (case hardware_isolation_claimed r of NotClaimed \<Rightarrow> False)
      in push_bool out claimed)"

lemma fixture_tag_inject: "fixture_tag a = fixture_tag b \<longleftrightarrow> a = b"
  by (cases a; cases b) simp_all

lemma transport_tag_inject: "transport_tag a = transport_tag b \<longleftrightarrow> a = b"
  by (cases a; cases b) simp_all

definition device_set_ok :: "physical_device_id fset \<Rightarrow> bool" where
  "device_set_ok ds \<longleftrightarrow> fcard ds < 2 ^ 64 \<and> (\<forall>d |\<in>| ds. device_id_ok d)"

definition partition_receipt_ok :: "partition_receipt \<Rightarrow> bool" where
  "partition_receipt_ok r \<longleftrightarrow>
     device_set_ok (physical_device_ids r) \<and> fcard (virtual_partition_ids r) < 2 ^ 64"

text \<open>A set of devices or of numbers, encoded as its counted sorted list.\<close>

lemma device_set_code_iff:
  assumes "(word_of_nat (fcard A) :: u64) = word_of_nat (fcard B)" "device_set_ok A" "device_set_ok B"
  shows "concat (map device_id_canonical_bytes (sorted_list_of_fset A)) @ u
       = concat (map device_id_canonical_bytes (sorted_list_of_fset B)) @ v \<longleftrightarrow> A = B \<and> u = v"
  using device_id_code.counted_append_iff[of "sorted_list_of_fset A" "sorted_list_of_fset B" u v] assms
  by (simp add: device_set_ok_def sorted_list_of_fset_inject)

lemma u64_set_code_iff:
  assumes "(word_of_nat (fcard A) :: u64) = word_of_nat (fcard B)" "fcard A < 2 ^ 64" "fcard B < 2 ^ 64"
  shows "concat (map enc_u64 (sorted_list_of_fset A)) @ u
       = concat (map enc_u64 (sorted_list_of_fset B)) @ v \<longleftrightarrow> A = B \<and> u = v"
  using u64_code.counted_append_iff[of "sorted_list_of_fset A" "sorted_list_of_fset B" u v] assms
  by (simp add: sorted_list_of_fset_inject)

lemma partition_receipt_bytes_flat:
  "partition_receipt_canonical_bytes r =
     enc_u64 (physical_device_count r) @ enc_u64 (word_of_nat (fcard (physical_device_ids r))) @
     concat (map device_id_canonical_bytes (sorted_list_of_fset (physical_device_ids r))) @
     enc_u64 (virtual_partition_count r) @ enc_u64 (word_of_nat (fcard (virtual_partition_ids r))) @
     concat (map enc_u64 (sorted_list_of_fset (virtual_partition_ids r))) @
     enc_u64 (fixture_tag (pr_fixture_identity_class r)) @
     enc_u64 (transport_tag (pr_transport_class r)) @ enc_bool False"
  unfolding partition_receipt_canonical_bytes_def Let_def
    push_each_concat[of push_device_id device_id_canonical_bytes, OF push_device_id_def]
    push_each_concat[of push_u64 enc_u64, OF push_u64_append]
  by (simp add: push_flat split: hardware_isolation_claim.splits)

interpretation partition_receipt_code:
  prefix_code partition_receipt_canonical_bytes partition_receipt_ok
proof
  fix a b :: partition_receipt and x y :: bytes
  assume "partition_receipt_ok a" "partition_receipt_ok b"
    "partition_receipt_canonical_bytes a @ x = partition_receipt_canonical_bytes b @ y"
  then show "a = b \<and> x = y"
    by (cases "hardware_isolation_claimed a"; cases "hardware_isolation_claimed b")
      (auto simp: partition_receipt_ok_def partition_receipt_bytes_flat code_iffs
        device_set_code_iff u64_set_code_iff fixture_tag_inject transport_tag_inject)
qed

section \<open>Properties\<close>


definition example_ledger :: partition_budget_ledger where
  "example_ledger = \<lparr>weight_bytes = 100, kv_cache_bytes = 20, activation_scratch_bytes = 3,
     module_storage_bytes = 0, allocator_overhead_bytes = 0, transfer_staging_bytes = 0,
     concurrent_state_bytes = 7\<rparr>"

definition example_request :: admission_request where
  "example_request = \<lparr>ar_partition_id = 9, ar_bound_device = device_id_metal ''r1'', ar_declared = example_ledger\<rparr>"

definition example_partition :: virtual_device_partition where
  "example_partition = \<lparr>vp_id = 9, vp_bound_device = device_id_metal ''r1'', vp_ledger = example_ledger,
     vp_safe_limit = 130, vp_state = Active\<rparr>"

lemma example_admit: "partition_admit example_request 130 = Inr example_partition"
  by (simp add: partition_admit_Inr_iff ledger_sum_def example_request_def example_partition_def example_ledger_def)


text \<open>The state of a partition moves only along \<open>Active \<rightarrow> Failed \<rightarrow> TornDown\<close>: the first
  recorded failure is kept with its cause by every later failure report, and only teardown
  leaves it, for good.\<close>

theorem partition_first_failure_kept:
  assumes "partition_step\<^sup>*\<^sup>* (record_failure p f) q" "partition_is_active p"
  shows "vp_state q \<in> {PartitionFailed f, TornDown}"
  using assms(1)
proof (induction rule: rtranclp_induct)
  case base
  then show ?case using assms(2) by (simp add: record_failure_def partition_is_active_def)
next
  case (step a b)
  from step.hyps(2) step.IH show ?case
    by (cases rule: partition_step.cases) (auto simp: partition_op_defs)
qed

theorem partition_first_failure_kept_witness:
  "vp_state (report_device_loss (record_failure example_partition (AllocationFailure ''oom'')) ''lost'')
     \<in> {PartitionFailed (AllocationFailure ''oom''), TornDown}"
  by (rule partition_first_failure_kept, rule r_into_rtranclp, rule partition_step.device_loss)
    (simp add: example_partition_def partition_is_active_def)

text \<open>The canonical bytes of a partition receipt determine the receipt: every count, every
  device identity and partition id, the two evidence classes and the isolation claim.\<close>

theorem partition_receipt_bytes_determine:
  assumes "partition_receipt_ok a" "partition_receipt_ok b"
  shows "partition_receipt_canonical_bytes a = partition_receipt_canonical_bytes b \<longleftrightarrow> a = b"
  using assms by (rule partition_receipt_code.inject)

definition example_receipt :: "u64 \<Rightarrow> partition_receipt" where
  "example_receipt v = partition_receipt_new {|device_id_metal ''r1''|} {|v|} FixturePhysical TransportNone"

theorem partition_receipt_bytes_determine_witness:
  "partition_receipt_canonical_bytes (example_receipt 1) \<noteq> partition_receipt_canonical_bytes (example_receipt 2)"
  by (subst partition_receipt_bytes_determine)
    (simp_all add: partition_receipt_ok_def example_receipt_def partition_receipt_new_def
      device_set_ok_def device_id_ok_def device_id_metal_def from_facts_def
      fcard_finsert_if fcard_fempty)

end
