(* ===== verification/BoundPlan.thy ===== *)
theory BoundPlan
  imports DeviceSet Partition
begin

text \<open>
  \<open>src/bound_plan.rs\<close>: the admission of a logical plan reference, the bind of an admitted plan to
  a physical topology with its four groups of checks in order, the receipt and the canonical
  bytes whose digest identifies the bound plan. An \<open>expect\<close> that fails is \<open>None\<close>.
\<close>

section \<open>The admitted logical plan\<close>

type_synonym logical_partition_id = string

datatype declared_placement_constraint =
  DistinctPhysicalDevices
| Colocated "logical_partition_id fset"
| RequiredBackend "logical_partition_id fset" device_backend

datatype admit_error =
  UnadmittedLogicalHash string
| NoDeclaredPartitions
| ConstraintReferencesUnknownPartition logical_partition_id

record admitted_logical_plan =
  logical_distributed_plan_hash :: string
  declared_partitions :: "logical_partition_id fset"
  declared_constraints :: "declared_placement_constraint list"

definition is_sha256_hex :: "string \<Rightarrow> bool" where
  "is_sha256_hex hash =
     (if take 7 hash = ''sha256:''
      then (let digest = drop 7 hash
            in length digest = 64 \<and>
               list_all (\<lambda>c. (CHR ''0'' \<le> c \<and> c \<le> CHR ''9'') \<or> (CHR ''a'' \<le> c \<and> c \<le> CHR ''f'')) digest)
      else False)"

fun constraint_unknown_partition ::
  "declared_placement_constraint \<Rightarrow> logical_partition_id fset \<Rightarrow> logical_partition_id option" where
  "constraint_unknown_partition DistinctPhysicalDevices declared = None"
| "constraint_unknown_partition (Colocated partitions) declared =
     find (\<lambda>p. p |\<notin>| declared) (sorted_list_of_fset partitions)"
| "constraint_unknown_partition (RequiredBackend partitions _) declared =
     find (\<lambda>p. p |\<notin>| declared) (sorted_list_of_fset partitions)"

definition plan_admit ::
  "string \<Rightarrow> logical_partition_id list \<Rightarrow> declared_placement_constraint list
   \<Rightarrow> admit_error + admitted_logical_plan" where
  "plan_admit hash partitions constraints =
     (if \<not> is_sha256_hex hash then Inl (UnadmittedLogicalHash hash)
      else let declared = fset_of_list partitions in
      if declared = {||} then Inl NoDeclaredPartitions
      else (case try_each (\<lambda>c. constraint_unknown_partition c declared) constraints of
              Some p \<Rightarrow> Inl (ConstraintReferencesUnknownPartition p)
            | None \<Rightarrow> Inr \<lparr>logical_distributed_plan_hash = hash, declared_partitions = declared,
                           declared_constraints = constraints\<rparr>))"

definition is_single_partition :: "admitted_logical_plan \<Rightarrow> bool" where
  "is_single_partition a = (fcard (declared_partitions a) = 1)"

section \<open>Bindings and the bound plan\<close>

record partition_binding =
  pb_device :: physical_device_id
  pb_virtual_partition :: "virtual_device_partition option"

type_synonym bindings = "(logical_partition_id, partition_binding) fmap"

definition binding_new :: "physical_device_id \<Rightarrow> partition_binding" where
  "binding_new device = \<lparr>pb_device = device, pb_virtual_partition = None\<rparr>"

definition binding_with_virtual_partition ::
  "physical_device_id \<Rightarrow> virtual_device_partition \<Rightarrow> partition_binding" where
  "binding_with_virtual_partition device vp =
     \<lparr>pb_device = device, pb_virtual_partition = Some vp\<rparr>"

datatype bound_plan_kind =
  ImplicitLocal physical_device_id "virtual_device_partition option"
| Distributed bindings

datatype bind_error =
  StaleSnapshot device_discovery_snapshot_id device_health_generation
| BindMembership membership_error
| TopologyMismatch string
| InvalidPartitionBinding logical_partition_id string
| ConstraintViolation declared_placement_constraint string

record bound_distributed_plan =
  bp_logical_hash :: string
  bp_kind :: bound_plan_kind
  bp_device_set :: device_set
  bp_snapshot_id :: device_discovery_snapshot_id
  bp_fixture :: fixture_identity_class
  bp_transport :: transport_class
  bp_bound_hash :: string

definition show_partition_id :: "virtual_device_partition_id \<Rightarrow> string" where
  "show_partition_id v = ''vp:'' @ show_nat (unat v)"

section \<open>Declared placement constraints\<close>

fun collect_devices ::
  "bindings \<Rightarrow> logical_partition_id list \<Rightarrow> physical_device_id fset \<Rightarrow> physical_device_id fset option" where
  "collect_devices b [] devices = Some devices"
| "collect_devices b (p # ps) devices =
     (case fmlookup b p of
        None \<Rightarrow> None
      | Some binding \<Rightarrow> collect_devices b ps (finsert (pb_device binding) devices))"

fun check_backends ::
  "bindings \<Rightarrow> device_backend \<Rightarrow> logical_partition_id list \<Rightarrow> string option option" where
  "check_backends b backend [] = Some None"
| "check_backends b backend (p # ps) =
     (case fmlookup b p of
        None \<Rightarrow> None
      | Some binding \<Rightarrow>
          if device_id_backend (pb_device binding) \<noteq> backend
          then Some (Some (''partition '' @ p @ '' bound to a '' @
            backend_spelling (device_id_backend (pb_device binding)) @
            '' device; declared backend is '' @ backend_spelling backend))
          else check_backends b backend ps)"

text \<open>\<open>Some None\<close> is \<open>Ok(())\<close>, \<open>Some (Some detail)\<close> is \<open>Err(detail)\<close>, \<open>None\<close> is the panic of the
  lookup's \<open>expect\<close>.\<close>

fun check_constraint ::
  "declared_placement_constraint \<Rightarrow> bindings \<Rightarrow> string option option" where
  "check_constraint DistinctPhysicalDevices b =
     (let distinct = fset_of_list (map pb_device (btree_values b))
      in if fcard distinct \<noteq> fcard (fmdom b)
         then Some (Some (show_nat (fcard (fmdom b)) @
           '' partition(s) must each bind a distinct physical device; '' @
           show_nat (fcard distinct) @ '' distinct device(s) referenced''))
         else Some None)"
| "check_constraint (Colocated partitions) b =
     (case collect_devices b (sorted_list_of_fset partitions) {||} of
        None \<Rightarrow> None
      | Some devices \<Rightarrow>
          if 1 < fcard devices
          then Some (Some (''colocated partitions must bind exactly one physical device; found '' @
            show_nat (fcard devices)))
          else Some None)"
| "check_constraint (RequiredBackend partitions backend) b =
     check_backends b backend (sorted_list_of_fset partitions)"

fun check_constraints ::
  "bindings \<Rightarrow> declared_placement_constraint list \<Rightarrow> bind_error option option" where
  "check_constraints b [] = Some None"
| "check_constraints b (c # cs) =
     (case check_constraint c b of
        None \<Rightarrow> None
      | Some (Some detail) \<Rightarrow> Some (Some (ConstraintViolation c detail))
      | Some None \<Rightarrow> check_constraints b cs)"

section \<open>Canonical bytes\<close>

definition push_virtual :: "bytes \<Rightarrow> virtual_device_partition option \<Rightarrow> bytes" where
  "push_virtual out vp = (case vp of
     Some p \<Rightarrow> push_u64 (out @ [1]) (vp_id p)
   | None \<Rightarrow> out @ [0])"

definition push_binding :: "bytes \<Rightarrow> logical_partition_id \<times> partition_binding \<Rightarrow> bytes" where
  "push_binding out item =
     (let out = push_str out (fst item);
          out = out @ device_id_canonical_bytes (pb_device (snd item))
      in push_virtual out (pb_virtual_partition (snd item)))"

definition plan_canonical_bytes :: "bound_distributed_plan \<Rightarrow> bytes" where
  "plan_canonical_bytes plan =
     (let out = push_str [] (bp_logical_hash plan);
          out = (case bp_kind plan of
              ImplicitLocal device vp \<Rightarrow>
                push_virtual (out @ [0] @ device_id_canonical_bytes device) vp
            | Distributed b \<Rightarrow>
                push_each push_binding (btree_items b)
                  (push_u64 (out @ [1]) (word_of_nat (fcard (fmdom b)))));
          out = push_u64 out (word_of_nat (device_set_len (bp_device_set plan)));
          out = push_each push_device_id (sorted_list_of_fset (members (bp_device_set plan))) out;
          out = out @ bp_snapshot_id plan;
          out = push_u64 out (fixture_tag (bp_fixture plan))
      in push_u64 out (transport_tag (bp_transport plan)))"

section \<open>The bind\<close>

definition check_binding :: "logical_partition_id \<times> partition_binding \<Rightarrow> bind_error option" where
  "check_binding item =
     (case pb_virtual_partition (snd item) of
        None \<Rightarrow> None
      | Some vp \<Rightarrow>
          if vp_bound_device vp \<noteq> pb_device (snd item)
          then Some (InvalidPartitionBinding (fst item)
            (''attached partition '' @ show_partition_id (vp_id vp) @ '' binds '' @
             device_id_display (vp_bound_device vp) @ '', but the binding names '' @
             device_id_display (pb_device (snd item))))
          else if \<not> partition_is_active vp
          then Some (InvalidPartitionBinding (fst item)
            (''attached partition '' @ show_partition_id (vp_id vp) @ '' is not active''))
          else None)"

definition bound_plan_finish ::
  "admitted_logical_plan \<Rightarrow> bound_plan_kind \<Rightarrow> device_set \<Rightarrow> device_discovery_snapshot
   \<Rightarrow> fixture_identity_class \<Rightarrow> transport_class \<Rightarrow> bound_distributed_plan" where
  "bound_plan_finish admitted kind ds snapshot fixture transport =
     (let plan = \<lparr>bp_logical_hash = logical_distributed_plan_hash admitted, bp_kind = kind,
                  bp_device_set = ds, bp_snapshot_id = snap_id snapshot, bp_fixture = fixture,
                  bp_transport = transport, bp_bound_hash = []\<rparr>;
          bytes = plan_canonical_bytes plan
      in plan\<lparr>bp_bound_hash := ''sha256:'' @ hex_lower (gguf_sha256 bytes)\<rparr>)"

definition plan_bind ::
  "admitted_logical_plan \<Rightarrow> bindings \<Rightarrow> device_set \<Rightarrow> device_discovery_snapshot
   \<Rightarrow> device_health_generation \<Rightarrow> fixture_identity_class \<Rightarrow> transport_class
   \<Rightarrow> (bind_error + bound_distributed_plan) option" where
  "plan_bind admitted b ds snapshot current fixture transport =
     (if snapshot_is_stale snapshot current
      then Some (Inl (StaleSnapshot (snap_id snapshot) current))
      else case device_set_validate ds snapshot current of
        Some e \<Rightarrow> Some (Inl (BindMembership e))
      | None \<Rightarrow>
      if declared_partitions admitted \<noteq> fmdom b
      then Some (Inl (TopologyMismatch
        (''binding set does not match the declared partition set: declared '' @
         show_nat (fcard (declared_partitions admitted)) @ '' partition(s), '' @
         show_nat (fcard (fmdom b)) @ '' binding(s)'')))
      else let bound_devices = fset_of_list (map pb_device (btree_values b)) in
      if bound_devices \<noteq> members ds
      then Some (Inl (TopologyMismatch
        (''the device set does not match the bound device set: set has '' @
         show_nat (device_set_len ds) @ '' member(s), bindings reference '' @
         show_nat (fcard bound_devices))))
      else case try_each check_binding (btree_items b) of
        Some e \<Rightarrow> Some (Inl e)
      | None \<Rightarrow>
      (case check_constraints b (declared_constraints admitted) of
         None \<Rightarrow> None
       | Some (Some e) \<Rightarrow> Some (Inl e)
       | Some None \<Rightarrow>
      if is_single_partition admitted
      then (case btree_items b of
              [] \<Rightarrow> None
            | (_, binding) # _ \<Rightarrow>
                Some (Inr (bound_plan_finish admitted
                  (ImplicitLocal (pb_device binding) (pb_virtual_partition binding)) ds snapshot fixture transport)))
      else Some (Inr (bound_plan_finish admitted (Distributed b) ds snapshot fixture transport))))"

definition plan_is_degenerate :: "bound_distributed_plan \<Rightarrow> bool" where
  "plan_is_degenerate plan = (case bp_kind plan of ImplicitLocal _ _ \<Rightarrow> True | Distributed _ \<Rightarrow> False)"

definition plan_receipt :: "bound_distributed_plan \<Rightarrow> partition_receipt" where
  "plan_receipt plan = (case bp_kind plan of
     ImplicitLocal device vp \<Rightarrow>
       partition_receipt_new {|device|} (case vp of Some p \<Rightarrow> {|vp_id p|} | None \<Rightarrow> {||})
         (bp_fixture plan) (bp_transport plan)
   | Distributed b \<Rightarrow>
       partition_receipt_new (fset_of_list (map pb_device (btree_values b)))
         (fset_of_list (List.map_filter (\<lambda>bd. map_option vp_id (pb_virtual_partition bd)) (btree_values b)))
         (bp_fixture plan) (bp_transport plan))"

section \<open>What the declared constraints mean\<close>

fun constraint_holds :: "declared_placement_constraint \<Rightarrow> bindings \<Rightarrow> bool" where
  "constraint_holds DistinctPhysicalDevices b \<longleftrightarrow>
     (\<forall>p q x y. fmlookup b p = Some x \<longrightarrow> fmlookup b q = Some y \<longrightarrow> pb_device x = pb_device y \<longrightarrow> p = q)"
| "constraint_holds (Colocated partitions) b \<longleftrightarrow>
     (\<forall>p q x y. p |\<in>| partitions \<longrightarrow> q |\<in>| partitions \<longrightarrow> fmlookup b p = Some x \<longrightarrow> fmlookup b q = Some y \<longrightarrow>
        pb_device x = pb_device y)"
| "constraint_holds (RequiredBackend partitions backend) b \<longleftrightarrow>
     (\<forall>p x. p |\<in>| partitions \<longrightarrow> fmlookup b p = Some x \<longrightarrow> device_id_backend (pb_device x) = backend)"

fun constraint_partitions :: "declared_placement_constraint \<Rightarrow> logical_partition_id fset" where
  "constraint_partitions DistinctPhysicalDevices = {||}"
| "constraint_partitions (Colocated partitions) = partitions"
| "constraint_partitions (RequiredBackend partitions _) = partitions"

lemma constraint_unknown_partition_None_iff:
  "constraint_unknown_partition c declared = None \<longleftrightarrow> constraint_partitions c |\<subseteq>| declared"
  by (cases c) (auto simp: find_None_iff fsubset_iff)

lemma find_SomeD: "find P xs = Some x \<Longrightarrow> x \<in> set xs \<and> P x"
  by (auto simp: find_Some_iff)

lemma constraint_unknown_partition_SomeD:
  "constraint_unknown_partition c declared = Some p \<Longrightarrow> p |\<in>| constraint_partitions c \<and> p |\<notin>| declared"
  by (cases c) (auto dest!: find_SomeD)

definition bound_device_set :: "bindings \<Rightarrow> physical_device_id fset" where
  "bound_device_set b = fset_of_list (map pb_device (btree_values b))"

lemma fset_bound_device_set:
  "fset (bound_device_set b) = (\<lambda>p. pb_device (the (fmlookup b p))) ` fset (fmdom b)"
  by (simp add: bound_device_set_def btree_values_def btree_items_def fset_of_list.rep_eq image_image
      del: fset_of_list_map)

lemma check_distinct_iff:
  "fcard (bound_device_set b) = fcard (fmdom b) \<longleftrightarrow> constraint_holds DistinctPhysicalDevices b"
proof -
  have "fcard (bound_device_set b) = fcard (fmdom b) \<longleftrightarrow>
      inj_on (\<lambda>p. pb_device (the (fmlookup b p))) (fset (fmdom b))"
    by (simp add: fcard.rep_eq fset_bound_device_set inj_on_iff_eq_card)
  also have "\<dots> \<longleftrightarrow> constraint_holds DistinctPhysicalDevices b"
    unfolding inj_on_def by (auto simp: fmlookup_dom_iff)
  finally show ?thesis .
qed

lemma collect_devices_total:
  "set ps \<subseteq> fset (fmdom b) \<Longrightarrow> \<exists>ds'. collect_devices b ps ds = Some ds' \<and>
     fset ds' = fset ds \<union> (\<lambda>p. pb_device (the (fmlookup b p))) ` set ps"
proof (induction ps arbitrary: ds)
  case Nil
  then show ?case by simp
next
  case (Cons p ps)
  then obtain x where x: "fmlookup b p = Some x" by (auto simp: fmlookup_dom_iff)
  with Cons.IH[of "finsert (pb_device x) ds"] Cons.prems show ?case by auto
qed

lemma card_le_1_iff: "finite A \<Longrightarrow> \<not> 1 < card A \<longleftrightarrow> (\<forall>x \<in> A. \<forall>y \<in> A. x = y)"
  using card_le_Suc0_iff_eq[of A] by (simp add: not_less)

lemma check_backends_total:
  "set ps \<subseteq> fset (fmdom b) \<Longrightarrow> \<exists>r. check_backends b backend ps = Some r \<and>
     (r = None \<longleftrightarrow> (\<forall>p \<in> set ps. device_id_backend (pb_device (the (fmlookup b p))) = backend))"
proof (induction ps)
  case Nil
  then show ?case by simp
next
  case (Cons p ps)
  then obtain x where x: "fmlookup b p = Some x" by (auto simp: fmlookup_dom_iff)
  with Cons show ?case by auto
qed

lemma bound_lookup:
  "A \<subseteq> fset (fmdom b) \<Longrightarrow> p \<in> A \<Longrightarrow> fmlookup b p = Some (the (fmlookup b p))"
  by (auto simp: fmlookup_dom_iff subset_iff)

text \<open>A constraint over bound partitions never panics, and passes exactly when it holds.\<close>

lemma check_constraint_total:
  assumes "constraint_partitions c |\<subseteq>| fmdom b"
  shows "\<exists>r. check_constraint c b = Some r \<and> (r = None \<longleftrightarrow> constraint_holds c b)"
proof (cases c)
  case DistinctPhysicalDevices
  then show ?thesis
    using check_distinct_iff[of b] by (simp add: bound_device_set_def Let_def del: constraint_holds.simps)
next
  case (Colocated ps)
  let ?d = "\<lambda>p. pb_device (the (fmlookup b p))"
  have sub: "fset ps \<subseteq> fset (fmdom b)" using assms Colocated by (simp add: less_eq_fset.rep_eq)
  then obtain ds where ds: "collect_devices b (sorted_list_of_fset ps) {||} = Some ds" "fset ds = ?d ` fset ps"
    using collect_devices_total[of "sorted_list_of_fset ps" b "{||}"] by auto
  have "\<not> 1 < fcard ds \<longleftrightarrow> (\<forall>p \<in> fset ps. \<forall>q \<in> fset ps. ?d p = ?d q)"
    unfolding fcard.rep_eq ds(2) by (subst card_le_1_iff) auto
  also have "\<dots> \<longleftrightarrow> constraint_holds c b"
    unfolding Colocated constraint_holds.simps using bound_lookup[OF sub] by (metis option.sel)
  finally show ?thesis using ds(1) by (auto simp: Colocated simp del: constraint_holds.simps)
next
  case (RequiredBackend ps backend)
  have sub: "fset ps \<subseteq> fset (fmdom b)" using assms RequiredBackend by (simp add: less_eq_fset.rep_eq)
  have "(\<forall>p \<in> fset ps. device_id_backend (pb_device (the (fmlookup b p))) = backend)
      \<longleftrightarrow> constraint_holds c b"
    unfolding RequiredBackend constraint_holds.simps using bound_lookup[OF sub] by (metis option.sel)
  then show ?thesis
    using check_backends_total[of "sorted_list_of_fset ps" b backend] sub
    by (simp add: RequiredBackend del: constraint_holds.simps)
qed

lemma check_constraints_total:
  assumes "\<forall>c \<in> set cs. constraint_partitions c |\<subseteq>| fmdom b"
  shows "\<exists>r. check_constraints b cs = Some r \<and> (r = None \<longleftrightarrow> (\<forall>c \<in> set cs. constraint_holds c b)) \<and>
    (\<forall>e. r = Some e \<longrightarrow> (\<exists>pre c post detail. cs = pre @ c # post \<and>
       (\<forall>c' \<in> set pre. constraint_holds c' b) \<and> \<not> constraint_holds c b \<and> e = ConstraintViolation c detail))"
  using assms
proof (induction cs)
  case Nil
  then show ?case by simp
next
  case (Cons c cs)
  obtain r1 where r1: "check_constraint c b = Some r1" "r1 = None \<longleftrightarrow> constraint_holds c b"
    using check_constraint_total[of c b] Cons.prems by auto
  show ?case
  proof (cases r1)
    case (Some detail)
    with r1 show ?thesis
      by (intro exI[of _ "Some (ConstraintViolation c detail)"] conjI allI impI exI[of _ "[]"])
        (auto simp del: constraint_holds.simps)
  next
    case None
    obtain r where r: "check_constraints b cs = Some r" "r = None \<longleftrightarrow> (\<forall>c \<in> set cs. constraint_holds c b)"
      "\<forall>e. r = Some e \<longrightarrow> (\<exists>pre c post detail. cs = pre @ c # post \<and>
       (\<forall>c' \<in> set pre. constraint_holds c' b) \<and> \<not> constraint_holds c b \<and> e = ConstraintViolation c detail)"
      using Cons by auto
    have "\<exists>pre c0 post detail. c # cs = pre @ c0 # post \<and>
       (\<forall>c' \<in> set pre. constraint_holds c' b) \<and> \<not> constraint_holds c0 b \<and> e = ConstraintViolation c0 detail"
      if "r = Some e" for e
    proof -
      from r(3) that obtain pre c0 post detail where "cs = pre @ c0 # post"
        "\<forall>c' \<in> set pre. constraint_holds c' b" "\<not> constraint_holds c0 b" "e = ConstraintViolation c0 detail"
        by blast
      with None r1 show ?thesis
        by (intro exI[of _ "c # pre"] exI[of _ c0] exI[of _ post] exI[of _ detail])
          (simp del: constraint_holds.simps)
    qed
    with None r1 r(1,2) show ?thesis by (simp del: constraint_holds.simps)
  qed
qed

section \<open>What a bind checks\<close>

lemma plan_admit_Inr_iff:
  "plan_admit h ps cs = Inr a \<longleftrightarrow> is_sha256_hex h \<and> ps \<noteq> [] \<and>
     (\<forall>c \<in> set cs. constraint_partitions c |\<subseteq>| fset_of_list ps) \<and>
     a = \<lparr>logical_distributed_plan_hash = h, declared_partitions = fset_of_list ps, declared_constraints = cs\<rparr>"
proof -
  have empty: "fset_of_list ps = {||} \<longleftrightarrow> ps = []" by (cases ps) auto
  have loop: "try_each (\<lambda>c. constraint_unknown_partition c (fset_of_list ps)) cs = None \<longleftrightarrow>
      (\<forall>c \<in> set cs. constraint_partitions c |\<subseteq>| fset_of_list ps)"
    by (simp add: try_each_None_iff constraint_unknown_partition_None_iff)
  show ?thesis unfolding loop[symmetric] plan_admit_def Let_def empty
    by (auto split: option.splits)
qed

definition bind_epoch_current ::
  "device_set \<Rightarrow> device_discovery_snapshot \<Rightarrow> device_health_generation \<Rightarrow> bool" where
  "bind_epoch_current ds s g \<longleftrightarrow> \<not> snapshot_is_stale s g \<and> device_set_validate ds s g = None"

definition bind_shape_matches :: "admitted_logical_plan \<Rightarrow> bindings \<Rightarrow> device_set \<Rightarrow> bool" where
  "bind_shape_matches a b ds \<longleftrightarrow> fmdom b = declared_partitions a \<and> bound_device_set b = members ds"

definition binding_consistent :: "partition_binding \<Rightarrow> bool" where
  "binding_consistent x \<longleftrightarrow> (\<forall>vp. pb_virtual_partition x = Some vp \<longrightarrow>
     vp_bound_device vp = pb_device x \<and> partition_is_active vp)"

definition bindings_consistent :: "bindings \<Rightarrow> bool" where
  "bindings_consistent b \<longleftrightarrow> (\<forall>p x. fmlookup b p = Some x \<longrightarrow> binding_consistent x)"

definition bind_kind_for :: "admitted_logical_plan \<Rightarrow> bindings \<Rightarrow> bound_plan_kind" where
  "bind_kind_for a b =
     (if is_single_partition a
      then ImplicitLocal (pb_device (snd (hd (btree_items b)))) (pb_virtual_partition (snd (hd (btree_items b))))
      else Distributed b)"

lemma check_binding_None_iff: "check_binding (p, x) = None \<longleftrightarrow> binding_consistent x"
  by (auto simp: check_binding_def binding_consistent_def split: option.splits)

lemma check_binding_SomeD:
  "check_binding item = Some e \<Longrightarrow>
     (\<exists>detail. e = InvalidPartitionBinding (fst item) detail) \<and> \<not> binding_consistent (snd item)"
  by (auto simp: check_binding_def binding_consistent_def split: option.splits if_splits)

lemma check_bindings_None_iff:
  "try_each check_binding (btree_items b) = None \<longleftrightarrow> bindings_consistent b"
  by (auto simp: try_each_None_iff bindings_consistent_def check_binding_None_iff
      set_btree_items[symmetric])

lemma check_bindings_SomeD:
  assumes "try_each check_binding (btree_items b) = Some e"
  shows "\<exists>p x detail. e = InvalidPartitionBinding p detail \<and> fmlookup b p = Some x \<and> \<not> binding_consistent x"
proof -
  obtain ys item zs where item: "btree_items b = ys @ item # zs" "check_binding item = Some e"
    using try_each_SomeE[OF assms] by metis
  then have "(fst item, snd item) \<in> set (btree_items b)" by simp
  then have "fmlookup b (fst item) = Some (snd item)" unfolding set_btree_items .
  with check_binding_SomeD[OF item(2)] show ?thesis by blast
qed

text \<open>The bind, stage by stage.\<close>

lemma plan_bind_stale:
  "snapshot_is_stale s g \<Longrightarrow> plan_bind a b ds s g f t = Some (Inl (StaleSnapshot (snap_id s) g))"
  by (simp add: plan_bind_def)

lemma plan_bind_membership:
  "\<not> snapshot_is_stale s g \<Longrightarrow> device_set_validate ds s g = Some e \<Longrightarrow>
   plan_bind a b ds s g f t = Some (Inl (BindMembership e))"
  by (simp add: plan_bind_def)

lemma plan_bind_shape:
  assumes "bind_epoch_current ds s g" "\<not> bind_shape_matches a b ds"
  shows "\<exists>detail. plan_bind a b ds s g f t = Some (Inl (TopologyMismatch detail))"
proof (cases "declared_partitions a = fmdom b")
  case True
  then have "fset_of_list (map pb_device (btree_values b)) \<noteq> members ds"
    using assms(2) by (simp add: bind_shape_matches_def bound_device_set_def)
  then show ?thesis
    using assms(1) True unfolding plan_bind_def bind_epoch_current_def Let_def
    by (simp del: fset_of_list_map)
next
  case False
  then show ?thesis using assms(1) by (simp add: plan_bind_def bind_epoch_current_def)
qed

lemma plan_bind_after_shape:
  assumes "bind_epoch_current ds s g" "bind_shape_matches a b ds"
  shows "plan_bind a b ds s g f t =
    (case try_each check_binding (btree_items b) of
       Some e \<Rightarrow> Some (Inl e)
     | None \<Rightarrow>
       (case check_constraints b (declared_constraints a) of
          None \<Rightarrow> None
        | Some (Some e) \<Rightarrow> Some (Inl e)
        | Some None \<Rightarrow> Some (Inr (bound_plan_finish a (bind_kind_for a b) ds s f t))))"
proof -
  have "btree_items b \<noteq> []" if "is_single_partition a"
  proof
    assume "btree_items b = []"
    then have "fcard (fmdom b) = 0" using length_btree_items[of b] by simp
    with that assms(2) show False by (simp add: is_single_partition_def bind_shape_matches_def)
  qed
  then show ?thesis
    using assms unfolding plan_bind_def bind_epoch_current_def bind_shape_matches_def
      bound_device_set_def Let_def bind_kind_for_def
    by (auto simp del: fset_of_list_map split: option.splits list.splits)
qed

lemma plan_bind_after_shape_cases:
  assumes "plan_admit h ps cs = Inr a" "bind_epoch_current ds s g" "bind_shape_matches a b ds"
  obtains
    (binding) p x detail where "\<not> bindings_consistent b" "fmlookup b p = Some x" "\<not> binding_consistent x"
      "plan_bind a b ds s g f t = Some (Inl (InvalidPartitionBinding p detail))"
  | (constraint) pre c post detail where "bindings_consistent b" "cs = pre @ c # post"
      "\<forall>c' \<in> set pre. constraint_holds c' b" "\<not> constraint_holds c b"
      "plan_bind a b ds s g f t = Some (Inl (ConstraintViolation c detail))"
  | (bound) "bindings_consistent b" "\<forall>c \<in> set cs. constraint_holds c b"
      "plan_bind a b ds s g f t = Some (Inr (bound_plan_finish a (bind_kind_for a b) ds s f t))"
proof (cases "try_each check_binding (btree_items b)")
  case (Some e)
  then have "\<not> bindings_consistent b" by (simp flip: check_bindings_None_iff)
  then show thesis
    using check_bindings_SomeD[OF Some] plan_bind_after_shape[OF assms(2,3), of f t] binding Some by auto
next
  case None
  then have cons: "bindings_consistent b" by (simp add: check_bindings_None_iff)
  have cs: "declared_constraints a = cs" "\<forall>c \<in> set cs. constraint_partitions c |\<subseteq>| fmdom b"
    using assms(1,3) by (simp_all add: plan_admit_Inr_iff bind_shape_matches_def)
  from check_constraints_total[OF cs(2)] obtain r where r: "check_constraints b cs = Some r"
    "r = None \<longleftrightarrow> (\<forall>c \<in> set cs. constraint_holds c b)"
    "\<forall>e. r = Some e \<longrightarrow> (\<exists>pre c post detail. cs = pre @ c # post \<and>
       (\<forall>c' \<in> set pre. constraint_holds c' b) \<and> \<not> constraint_holds c b \<and> e = ConstraintViolation c detail)"
    by blast
  note eq = plan_bind_after_shape[OF assms(2,3), of f t, unfolded None cs(1) r(1), simplified]
  show thesis
  proof (cases r)
    case None
    then show thesis using bound[OF cons] r(2) eq by simp
  next
    case (Some e)
    then show thesis using constraint[OF cons] r(3) eq by auto
  qed
qed

section \<open>The canonical bytes cover the binding facts\<close>

text \<open>What the encoding writes of a plan: of an attached virtual partition only its id.\<close>

type_synonym binding_facts = "logical_partition_id \<times> physical_device_id \<times> virtual_device_partition_id option"

datatype plan_kind_facts =
  LocalFacts physical_device_id "virtual_device_partition_id option"
| DistributedFacts "binding_facts list"

definition binding_facts_of :: "logical_partition_id \<times> partition_binding \<Rightarrow> binding_facts" where
  "binding_facts_of item =
     (fst item, pb_device (snd item), map_option vp_id (pb_virtual_partition (snd item)))"

definition plan_kind_facts_of :: "bound_plan_kind \<Rightarrow> plan_kind_facts" where
  "plan_kind_facts_of k = (case k of
     ImplicitLocal d vp \<Rightarrow> LocalFacts d (map_option vp_id vp)
   | Distributed b \<Rightarrow> DistributedFacts (map binding_facts_of (btree_items b)))"

definition plan_facts_of ::
  "bound_distributed_plan \<Rightarrow> string \<times> plan_kind_facts \<times> physical_device_id fset \<times>
     device_discovery_snapshot_id \<times> fixture_identity_class \<times> transport_class" where
  "plan_facts_of p = (bp_logical_hash p, plan_kind_facts_of (bp_kind p), members (bp_device_set p),
     bp_snapshot_id p, bp_fixture p, bp_transport p)"

definition binding_facts_ok :: "binding_facts \<Rightarrow> bool" where
  "binding_facts_ok x \<longleftrightarrow> str_ok (fst x) \<and> device_id_ok (fst (snd x))"

definition enc_binding :: "binding_facts \<Rightarrow> bytes" where
  "enc_binding x = enc_str (fst x) @ device_id_canonical_bytes (fst (snd x)) @ enc_opt enc_u64 (snd (snd x))"

definition enc_kind :: "plan_kind_facts \<Rightarrow> bytes" where
  "enc_kind k = (case k of
     LocalFacts d v \<Rightarrow> [0] @ device_id_canonical_bytes d @ enc_opt enc_u64 v
   | DistributedFacts bs \<Rightarrow> [1] @ enc_u64 (word_of_nat (length bs)) @ concat (map enc_binding bs))"

definition plan_kind_facts_ok :: "plan_kind_facts \<Rightarrow> bool" where
  "plan_kind_facts_ok k = (case k of
     LocalFacts d _ \<Rightarrow> device_id_ok d
   | DistributedFacts bs \<Rightarrow> length bs < 2 ^ 64 \<and> list_all binding_facts_ok bs)"

definition bound_plan_ok :: "bound_distributed_plan \<Rightarrow> bool" where
  "bound_plan_ok p \<longleftrightarrow> str_ok (bp_logical_hash p) \<and> plan_kind_facts_ok (plan_kind_facts_of (bp_kind p)) \<and>
     device_set_ok (members (bp_device_set p)) \<and> length (bp_snapshot_id p) = 32"

lemma u64_opt_append_iff: "enc_opt enc_u64 v @ x = enc_opt enc_u64 w @ y \<longleftrightarrow> v = w \<and> x = y"
  by (rule u64_code.opt_append_iff) (simp_all add: pred_option_def)

interpretation binding_code: prefix_code enc_binding binding_facts_ok
  by unfold_locales
    (auto simp: enc_binding_def binding_facts_ok_def str_code.append_iff device_id_code.append_iff
      u64_opt_append_iff)

interpretation plan_kind_code: prefix_code enc_kind plan_kind_facts_ok
proof
  fix k l :: plan_kind_facts and x y :: bytes
  assume "plan_kind_facts_ok k" "plan_kind_facts_ok l" "enc_kind k @ x = enc_kind l @ y"
  then show "k = l \<and> x = y"
    by (cases k; cases l)
      (auto simp: enc_kind_def plan_kind_facts_ok_def device_id_code.append_iff u64_opt_append_iff
        binding_code.counted_append_iff list_all_iff)
qed

lemma push_virtual_flat: "push_virtual out vp = out @ enc_opt enc_u64 (map_option vp_id vp)"
  by (cases vp) (simp_all add: push_virtual_def enc_opt_def push_bool_def push_flat)

lemma push_binding_flat: "push_binding out item = out @ enc_binding (binding_facts_of item)"
  by (simp add: push_binding_def Let_def push_virtual_flat enc_binding_def binding_facts_of_def
      push_str_append[of out])

lemma plan_bytes_flat:
  "plan_canonical_bytes p = enc_str (bp_logical_hash p) @ enc_kind (plan_kind_facts_of (bp_kind p)) @
     enc_u64 (word_of_nat (fcard (members (bp_device_set p)))) @
     concat (map device_id_canonical_bytes (sorted_list_of_fset (members (bp_device_set p)))) @
     bp_snapshot_id p @ enc_u64 (fixture_tag (bp_fixture p)) @ enc_u64 (transport_tag (bp_transport p))"
proof -
  have each: "push_each push_binding xs out = out @ concat (map enc_binding (map binding_facts_of xs))"
    for xs out
    using push_each_concat[of push_binding "\<lambda>x. enc_binding (binding_facts_of x)", OF push_binding_flat]
    by (simp add: comp_def)
  show ?thesis
    unfolding plan_canonical_bytes_def Let_def each
      push_each_concat[of push_device_id device_id_canonical_bytes, OF push_device_id_def]
    by (cases "bp_kind p") (simp_all add: push_virtual_flat push_flat enc_kind_def
        plan_kind_facts_of_def device_set_len_def)
qed

lemma plan_bytes_inject:
  assumes "bound_plan_ok p" "bound_plan_ok q"
  shows "plan_canonical_bytes p = plan_canonical_bytes q \<longleftrightarrow> plan_facts_of p = plan_facts_of q"
proof
  assume "plan_canonical_bytes p = plan_canonical_bytes q"
  then show "plan_facts_of p = plan_facts_of q"
    using assms unfolding plan_bytes_flat bound_plan_ok_def plan_facts_of_def
    by (auto simp: str_code.append_iff plan_kind_code.append_iff u64_code.append_iff
        device_set_code_iff fixture_tag_inject transport_tag_inject u64_code.inject)
next
  assume "plan_facts_of p = plan_facts_of q"
  then show "plan_canonical_bytes p = plan_canonical_bytes q"
    unfolding plan_bytes_flat plan_facts_of_def by auto
qed

section \<open>The receipt and the digest of a bound plan\<close>

lemma length_gguf_sha256 [simp]: "length (gguf_sha256 data) = 32"
  by (simp add: gguf_sha256_ref sha256_ref_def)

lemma hex_chars_accepted:
  "c \<in> set ''0123456789abcdef'' \<Longrightarrow> (CHR ''0'' \<le> c \<and> c \<le> CHR ''9'') \<or> (CHR ''a'' \<le> c \<and> c \<le> CHR ''f'')"
  by (auto simp: less_eq_char_def)

lemma is_sha256_hex_spelling: "is_sha256_hex (''sha256:'' @ hex_lower (gguf_sha256 bs))"
  using set_hex_lower[of "gguf_sha256 bs"] hex_chars_accepted
  by (auto simp: is_sha256_hex_def list_all_iff subset_iff Let_def)

definition attached_ids :: "bindings \<Rightarrow> virtual_device_partition_id set" where
  "attached_ids b = {vp_id vp | p x vp. fmlookup b p = Some x \<and> pb_virtual_partition x = Some vp}"

lemma single_binding:
  assumes "is_single_partition a" "bind_shape_matches a b ds"
  obtains p x where "btree_items b = [(p, x)]"
proof -
  have "length (btree_items b) = 1"
    using assms by (simp add: is_single_partition_def bind_shape_matches_def)
  then obtain item where "btree_items b = [item]" by (cases "btree_items b") auto
  then show thesis using that by (cases item) blast
qed

lemma attached_ids_items:
  "attached_ids b = {vp_id vp | item vp. item \<in> set (btree_items b) \<and> pb_virtual_partition (snd item) = Some vp}"
  unfolding attached_ids_def set_btree_items[symmetric] by force

lemma bound_device_set_items:
  "fset (bound_device_set b) = (\<lambda>item. pb_device (snd item)) ` set (btree_items b)"
  by (simp add: bound_device_set_def btree_values_def fset_of_list.rep_eq image_image del: fset_of_list_map)

lemma bound_plan_finish_simps [simp]:
  "bp_kind (bound_plan_finish a k ds s f t) = k"
  "bp_fixture (bound_plan_finish a k ds s f t) = f"
  "bp_transport (bound_plan_finish a k ds s f t) = t"
  "bp_device_set (bound_plan_finish a k ds s f t) = ds"
  "bp_snapshot_id (bound_plan_finish a k ds s f t) = snap_id s"
  "bp_logical_hash (bound_plan_finish a k ds s f t) = logical_distributed_plan_hash a"
  by (simp_all add: bound_plan_finish_def Let_def)

lemma plan_canonical_bytes_hash [simp]:
  "plan_canonical_bytes (p\<lparr>bp_bound_hash := x\<rparr>) = plan_canonical_bytes p"
  by (simp add: plan_canonical_bytes_def cong: bound_plan_kind.case_cong)

lemma bound_plan_finish_hash:
  "bp_bound_hash (bound_plan_finish a k ds s f t) =
     ''sha256:'' @ hex_lower (gguf_sha256 (plan_canonical_bytes (bound_plan_finish a k ds s f t)))"
  unfolding bound_plan_finish_def Let_def plan_canonical_bytes_hash by simp

lemma plan_receipt_ids:
  assumes "bind_shape_matches a b ds"
  shows "physical_device_ids (plan_receipt (bound_plan_finish a (bind_kind_for a b) ds s f t)) = members ds \<and>
    fset (virtual_partition_ids (plan_receipt (bound_plan_finish a (bind_kind_for a b) ds s f t))) = attached_ids b"
proof (cases "is_single_partition a")
  case True
  then obtain p x where items: "btree_items b = [(p, x)]" using single_binding assms by blast
  then have "fset (members ds) = {pb_device x}"
    using bound_device_set_items[of b] assms by (simp add: bind_shape_matches_def)
  then have "members ds = {|pb_device x|}" by (simp flip: fset_inject)
  with True items show ?thesis
    by (cases "pb_virtual_partition x")
      (simp_all add: plan_receipt_def bind_kind_for_def partition_receipt_new_def attached_ids_items)
next
  case False
  have "fset (fset_of_list (List.map_filter (\<lambda>bd. map_option vp_id (pb_virtual_partition bd)) (btree_values b)))
      = attached_ids b"
    unfolding attached_ids_items
    by (force simp: fset_of_list.rep_eq List.map_filter_def btree_values_def)
  with False assms show ?thesis
    by (simp add: plan_receipt_def bind_kind_for_def partition_receipt_new_def
        bind_shape_matches_def bound_device_set_def del: fset_of_list_map)
qed

lemma plan_receipt_counts:
  "physical_device_count (plan_receipt p) = word_of_nat (fcard (physical_device_ids (plan_receipt p))) \<and>
   virtual_partition_count (plan_receipt p) = word_of_nat (fcard (virtual_partition_ids (plan_receipt p))) \<and>
   pr_fixture_identity_class (plan_receipt p) = bp_fixture p \<and>
   pr_transport_class (plan_receipt p) = bp_transport p \<and>
   hardware_isolation_claimed (plan_receipt p) = NotClaimed"
  by (cases "bp_kind p") (simp_all add: plan_receipt_def partition_receipt_new_def)

section \<open>Properties of the bind\<close>

text \<open>C4: a bind of an admitted plan never panics, and it succeeds exactly when the snapshot and
  every member of the device set are at the current epoch, the bindings cover exactly the
  declared partitions and reference exactly the members of the device set, every attached
  virtual partition is active and on the bound device, and every declared placement constraint
  holds of the bindings. The bound plan is then the one the code builds from those inputs.\<close>

theorem plan_bind_accepts_exactly:
  assumes "plan_admit h ps cs = Inr a"
  shows "plan_bind a b ds s g f t \<noteq> None \<and>
    (plan_bind a b ds s g f t = Some (Inr plan) \<longleftrightarrow>
       bind_epoch_current ds s g \<and> bind_shape_matches a b ds \<and> bindings_consistent b \<and>
       (\<forall>c \<in> set cs. constraint_holds c b) \<and>
       plan = bound_plan_finish a (bind_kind_for a b) ds s f t)"
proof (cases "bind_epoch_current ds s g")
  case False
  then show ?thesis
    using plan_bind_stale plan_bind_membership unfolding bind_epoch_current_def by fastforce
next
  case cur: True
  show ?thesis
  proof (cases "bind_shape_matches a b ds")
    case False
    then show ?thesis using plan_bind_shape[OF cur False, of f t] by auto
  next
    case True
    from assms cur True show ?thesis
      by (cases rule: plan_bind_after_shape_cases[where f = f and t = t])
        (use cur True in \<open>auto simp del: constraint_holds.simps\<close>)
  qed
qed

text \<open>The rejections come in the documented order. The error names the first group of
  checks that failed: a stale snapshot before a membership error, both before a shape
  mismatch, that before an inconsistent binding, and last the first violated constraint in
  declaration order.\<close>

theorem plan_bind_rejection_order:
  assumes "plan_admit h ps cs = Inr a" "plan_bind a b ds s g f t = Some (Inl e)"
  shows "case e of
      StaleSnapshot i g' \<Rightarrow> snapshot_is_stale s g \<and> i = snap_id s \<and> g' = g
    | BindMembership m \<Rightarrow> \<not> snapshot_is_stale s g \<and> device_set_validate ds s g = Some m
    | TopologyMismatch _ \<Rightarrow> bind_epoch_current ds s g \<and> \<not> bind_shape_matches a b ds
    | InvalidPartitionBinding p _ \<Rightarrow> bind_epoch_current ds s g \<and> bind_shape_matches a b ds \<and>
        (\<exists>x. fmlookup b p = Some x \<and> \<not> binding_consistent x)
    | ConstraintViolation c _ \<Rightarrow> bind_epoch_current ds s g \<and> bind_shape_matches a b ds \<and>
        bindings_consistent b \<and> (\<exists>pre post. cs = pre @ c # post \<and>
          (\<forall>c' \<in> set pre. constraint_holds c' b) \<and> \<not> constraint_holds c b)"
proof (cases "bind_epoch_current ds s g")
  case False
  then show ?thesis
    using plan_bind_stale[of s g a b ds f t] plan_bind_membership[of s g ds _ a b f t] assms(2)
    unfolding bind_epoch_current_def by (cases "snapshot_is_stale s g") auto
next
  case cur: True
  show ?thesis
  proof (cases "bind_shape_matches a b ds")
    case False
    then show ?thesis using plan_bind_shape[OF cur False, of f t] assms(2) cur by auto
  next
    case True
    from assms(1) cur True show ?thesis
      by (cases rule: plan_bind_after_shape_cases[where f = f and t = t])
        (use assms(2) cur True in \<open>auto simp del: constraint_holds.simps\<close>)
  qed
qed

text \<open>The canonical bytes of a bound plan, over which its digest is taken, are equal exactly
  when the logical hash, the kind, every binding (partition identity, physical device, id of the
  attached virtual partition), the device set, the snapshot id and the two receipt classes are
  equal. The budget ledger and the limit of an attached virtual partition are not covered.\<close>

theorem plan_bytes_determine_facts:
  assumes "bound_plan_ok p" "bound_plan_ok q"
  shows "plan_canonical_bytes p = plan_canonical_bytes q \<longleftrightarrow> plan_facts_of p = plan_facts_of q"
  using assms by (rule plan_bytes_inject)

text \<open>What a successful bind reports. The receipt names exactly the members of the device
  set and exactly the ids of the attached virtual partitions, its counts are the sizes of those
  sets, it never claims hardware isolation, and the bound hash is the digest of the plan's
  canonical bytes in the spelling the admission path accepts. The plan has no distributed
  wrapper exactly when one partition was declared.\<close>

theorem bound_plan_receipt:
  assumes "plan_admit h ps cs = Inr a" "plan_bind a b ds s g f t = Some (Inr plan)"
  shows "physical_device_ids (plan_receipt plan) = members ds \<and>
    fset (virtual_partition_ids (plan_receipt plan)) = attached_ids b \<and>
    physical_device_count (plan_receipt plan) = word_of_nat (fcard (members ds)) \<and>
    hardware_isolation_claimed (plan_receipt plan) = NotClaimed \<and>
    bp_bound_hash plan = ''sha256:'' @ hex_lower (gguf_sha256 (plan_canonical_bytes plan)) \<and>
    is_sha256_hex (bp_bound_hash plan) \<and>
    (plan_is_degenerate plan \<longleftrightarrow> is_single_partition a)"
proof -
  have cur: "bind_epoch_current ds s g"
    using assms(2) plan_bind_stale[of s g a b ds f t] plan_bind_membership[of s g ds _ a b f t]
    by (cases "snapshot_is_stale s g"; cases "device_set_validate ds s g") (auto simp: bind_epoch_current_def)
  have shape: "bind_shape_matches a b ds"
    using plan_bind_shape[OF cur, of a b f t] assms(2) by auto
  have plan: "plan = bound_plan_finish a (bind_kind_for a b) ds s f t"
    using assms(1) cur shape by (cases rule: plan_bind_after_shape_cases[where f = f and t = t])
      (use assms(2) in auto)
  have "plan_is_degenerate plan \<longleftrightarrow> is_single_partition a"
    by (simp add: plan plan_is_degenerate_def bind_kind_for_def)
  then show ?thesis
    using plan_receipt_ids[OF shape, of s f t] plan_receipt_counts[of plan]
      bound_plan_finish_hash[of a _ ds s f t] is_sha256_hex_spelling
    unfolding plan by simp
qed

subsection \<open>A bind of two partitions to two devices\<close>

definition example_hash :: string where
  "example_hash = ''sha256:'' @ replicate 64 (CHR ''a'')"

definition example_plan :: admitted_logical_plan where
  "example_plan = \<lparr>logical_distributed_plan_hash = example_hash,
     declared_partitions = fset_of_list [''p0'', ''p1''], declared_constraints = [DistinctPhysicalDevices]\<rparr>"

lemma example_plan_admit:
  "plan_admit example_hash [''p0'', ''p1''] [DistinctPhysicalDevices] = Inr example_plan"
  by (simp add: plan_admit_Inr_iff example_plan_def) (simp add: is_sha256_hex_def example_hash_def list_all_iff less_eq_char_def)

definition example_bindings :: bindings where
  "example_bindings = fmap_of_list [(''p0'', binding_new (device_id_cuda ''GPU-a'' None)),
     (''p1'', binding_with_virtual_partition (device_id_cuda ''GPU-b'' None)
        (example_partition\<lparr>vp_bound_device := device_id_cuda ''GPU-b'' None\<rparr>))]"

definition example_set :: device_set where
  "example_set = DeviceSet {|device_id_cuda ''GPU-a'' None, device_id_cuda ''GPU-b'' None|}"

lemma example_bindings_dom: "fmdom example_bindings = {|''p0'', ''p1''|}"
  by (simp add: example_bindings_def)

lemma example_bindings_lookup:
  "fmlookup example_bindings p = Some x \<longleftrightarrow>
     p = ''p0'' \<and> x = binding_new (device_id_cuda ''GPU-a'' None) \<or>
     p = ''p1'' \<and> x = binding_with_virtual_partition (device_id_cuda ''GPU-b'' None)
        (example_partition\<lparr>vp_bound_device := device_id_cuda ''GPU-b'' None\<rparr>)"
  by (auto simp: example_bindings_def fmlookup_of_list)

lemma example_epoch: "bind_epoch_current example_set (example_snapshot 5 1) 1"
  using example_current[of 5 1]
  by (simp add: bind_epoch_current_def snapshot_is_current_generation_def device_set_validate_None_iff
      example_set_def find_entry_example example_entry_def)

lemma example_shape: "bind_shape_matches example_plan example_bindings example_set"
proof -
  have "fset (bound_device_set example_bindings) = fset (members example_set)"
    unfolding fset_bound_device_set example_bindings_dom
    by (simp add: example_bindings_def example_set_def fmlookup_of_list binding_new_def
        binding_with_virtual_partition_def)
  then show ?thesis
    by (simp add: bind_shape_matches_def example_bindings_dom example_plan_def fset_inject)
qed

lemma example_consistent: "bindings_consistent example_bindings"
  by (auto simp: bindings_consistent_def binding_consistent_def example_bindings_lookup binding_new_def
      binding_with_virtual_partition_def partition_is_active_def example_partition_def)

lemma example_constraint: "constraint_holds DistinctPhysicalDevices example_bindings"
  by (auto simp: example_bindings_lookup binding_new_def binding_with_virtual_partition_def
      device_id_cuda_def from_facts_def)

theorem plan_bind_accepts_exactly_witness:
  "plan_bind example_plan example_bindings example_set (example_snapshot 5 1) 1 FixturePhysical TransportNone =
     Some (Inr (bound_plan_finish example_plan (bind_kind_for example_plan example_bindings) example_set
       (example_snapshot 5 1) FixturePhysical TransportNone))"
  using plan_bind_accepts_exactly[OF example_plan_admit] example_epoch example_shape example_consistent
    example_constraint by simp

lemma example_bind_ok:
  "plan_bind example_plan example_bindings example_set (example_snapshot 5 1) 1 FixturePhysical TransportNone =
     Some (Inr (bound_plan_finish example_plan (bind_kind_for example_plan example_bindings) example_set
       (example_snapshot 5 1) FixturePhysical TransportNone))"
  using example_plan_admit example_epoch example_shape
  by (cases rule: plan_bind_after_shape_cases[where f = FixturePhysical and t = TransportNone])
    (use example_consistent example_constraint in \<open>auto simp: Cons_eq_append_conv simp del: constraint_holds.simps\<close>)

lemma example_bind_stale:
  "plan_bind example_plan example_bindings example_set (example_snapshot 5 1) 2 FixturePhysical TransportNone =
     Some (Inl (StaleSnapshot (snap_id (example_snapshot 5 1)) 2))"
  by (rule plan_bind_stale)
    (simp add: snapshot_is_stale_def example_entry_def health_is_stale_def)

theorem plan_bind_rejection_order_witness:
  "snapshot_is_stale (example_snapshot 5 1) 2"
  using plan_bind_rejection_order[OF example_plan_admit example_bind_stale] by simp

theorem bound_plan_receipt_witness:
  "is_sha256_hex (bp_bound_hash (bound_plan_finish example_plan (bind_kind_for example_plan example_bindings)
     example_set (example_snapshot 5 1) FixturePhysical TransportNone))"
  using bound_plan_receipt[OF example_plan_admit example_bind_ok] by blast

definition example_local_plan :: "string \<Rightarrow> bound_distributed_plan" where
  "example_local_plan u = \<lparr>bp_logical_hash = example_hash, bp_kind = ImplicitLocal (device_id_metal u) None,
     bp_device_set = DeviceSet {|device_id_metal u|}, bp_snapshot_id = replicate 32 0,
     bp_fixture = FixturePhysical, bp_transport = TransportNone, bp_bound_hash = []\<rparr>"

theorem plan_bytes_determine_facts_witness:
  "plan_canonical_bytes (example_local_plan ''r1'') \<noteq> plan_canonical_bytes (example_local_plan ''r2'')"
  by (subst plan_bytes_determine_facts)
    (simp_all add: bound_plan_ok_def example_local_plan_def example_hash_def plan_kind_facts_ok_def
      plan_kind_facts_of_def device_set_ok_def device_id_ok_def device_id_metal_def from_facts_def
      fcard_finsert_if fcard_fempty plan_facts_of_def)

end
