(* ===== verification/TxMirror.thy ===== *)
theory TxMirror
  imports BoundPlan
begin

text \<open>
  \<open>src/execution_transaction/mirror.rs\<close>: the mirror vocabulary of an accepted plan. The
  operations (launch, transfer, broadcast, barrier), the commit boundary, the writes an
  operation stages, the events it completes, and its canonical bytes.
\<close>

section \<open>References and closed vocabularies\<close>

type_synonym launch_ref = string
type_synonym transfer_ref = string
type_synonym collective_ref = string
type_synonym barrier_ref = string
type_synonym output_ref = string

datatype transfer_direction = H2D | D2H | BIDI

fun direction_tag :: "transfer_direction \<Rightarrow> u64" where
  "direction_tag H2D = 0"
| "direction_tag D2H = 1"
| "direction_tag BIDI = 2"

fun direction_spelling :: "transfer_direction \<Rightarrow> string" where
  "direction_spelling H2D = ''h2d''"
| "direction_spelling D2H = ''d2h''"
| "direction_spelling BIDI = ''bidi''"

datatype mirrored_dtype = DtF32 | DtF64 | DtF16 | DtBF16 | DtI8 | DtI32

fun dtype_tag :: "mirrored_dtype \<Rightarrow> u64" where
  "dtype_tag DtF32 = 0"
| "dtype_tag DtF64 = 1"
| "dtype_tag DtF16 = 2"
| "dtype_tag DtBF16 = 3"
| "dtype_tag DtI8 = 4"
| "dtype_tag DtI32 = 5"

fun dtype_spelling :: "mirrored_dtype \<Rightarrow> string" where
  "dtype_spelling DtF32 = ''f32''"
| "dtype_spelling DtF64 = ''f64''"
| "dtype_spelling DtF16 = ''f16''"
| "dtype_spelling DtBF16 = ''bf16''"
| "dtype_spelling DtI8 = ''i8''"
| "dtype_spelling DtI32 = ''i32''"

datatype mirrored_layout = Dense | BlockPacked

fun layout_tag :: "mirrored_layout \<Rightarrow> u64" where
  "layout_tag Dense = 0"
| "layout_tag BlockPacked = 1"

fun layout_spelling :: "mirrored_layout \<Rightarrow> string" where
  "layout_spelling Dense = ''dense''"
| "layout_spelling BlockPacked = ''block-packed''"

datatype transport_path = PathHostStaged

fun path_tag :: "transport_path \<Rightarrow> u64" where
  "path_tag PathHostStaged = 0"

section \<open>The commit boundary\<close>

record commit_boundary =
  cb_barriers :: "barrier_ref fset"
  cb_launches :: "launch_ref fset"

definition boundary_new :: "barrier_ref list \<Rightarrow> launch_ref list \<Rightarrow> commit_boundary" where
  "boundary_new barriers launches =
     \<lparr>cb_barriers = fset_of_list barriers, cb_launches = fset_of_list launches\<rparr>"

definition boundary_is_empty :: "commit_boundary \<Rightarrow> bool" where
  "boundary_is_empty b = (cb_barriers b = {||} \<and> cb_launches b = {||})"

definition push_str_set :: "bytes \<Rightarrow> string fset \<Rightarrow> bytes" where
  "push_str_set out s = push_each push_str (sorted_list_of_fset s) (push_u64 out (word_of_nat (fcard s)))"

definition boundary_canonical_bytes :: "commit_boundary \<Rightarrow> bytes" where
  "boundary_canonical_bytes b =
     (let out = push_str_set [] (cb_barriers b)
      in push_str_set out (cb_launches b))"

section \<open>Operations\<close>

record transfer_operation =
  to_id :: transfer_ref
  to_source :: logical_partition_id
  to_destination :: logical_partition_id
  to_byte_count :: u64
  to_direction :: transfer_direction
  to_dtype :: mirrored_dtype
  to_layout :: mirrored_layout
  to_path :: transport_path
  to_producer_generation :: u64
  to_consumer_generation :: u64
  to_completion_boundary :: commit_boundary

definition transfer_canonical_bytes :: "transfer_operation \<Rightarrow> bytes" where
  "transfer_canonical_bytes t =
     (let out = push_str [] (to_id t);
          out = push_str out (to_source t);
          out = push_str out (to_destination t);
          out = push_u64 out (to_byte_count t);
          out = push_u64 out (direction_tag (to_direction t));
          out = push_u64 out (dtype_tag (to_dtype t));
          out = push_u64 out (layout_tag (to_layout t));
          out = push_u64 out (path_tag (to_path t));
          out = push_u64 out (to_producer_generation t);
          out = push_u64 out (to_consumer_generation t)
      in out @ boundary_canonical_bytes (to_completion_boundary t))"

record collective_broadcast =
  br_id :: collective_ref
  br_source :: logical_partition_id
  br_participants :: "logical_partition_id fset"
  br_byte_count :: u64

definition broadcast_canonical_bytes :: "collective_broadcast \<Rightarrow> bytes" where
  "broadcast_canonical_bytes b =
     (let out = push_str [] (br_id b);
          out = push_str out (br_source b);
          out = push_str_set out (br_participants b)
      in push_u64 out (br_byte_count b))"

datatype operation_ref =
  LaunchOp launch_ref
| TransferOp transfer_ref
| CollectiveOp collective_ref
| BarrierOp barrier_ref

datatype boundary_ref = BoundaryBarrier barrier_ref | BoundaryLaunch launch_ref

record staged_write =
  sw_partition :: logical_partition_id
  sw_output_ref :: output_ref
  sw_byte_count :: u64

datatype transaction_operation =
  Launch logical_partition_id launch_ref u64
| Transfer transfer_operation
| CollectiveBroadcast collective_broadcast
| Barrier barrier_ref "logical_partition_id fset"

datatype operation_event =
  LaunchCompleted logical_partition_id launch_ref
| TransferCompleted logical_partition_id transfer_ref
| BroadcastCompleted logical_partition_id collective_ref
| BarrierCompleted logical_partition_id barrier_ref

fun operation_ref_of :: "transaction_operation \<Rightarrow> operation_ref" where
  "operation_ref_of (Launch _ launch_ref _) = LaunchOp launch_ref"
| "operation_ref_of (Transfer t) = TransferOp (to_id t)"
| "operation_ref_of (CollectiveBroadcast b) = CollectiveOp (br_id b)"
| "operation_ref_of (Barrier barrier_ref _) = BarrierOp barrier_ref"

fun operation_partitions :: "transaction_operation \<Rightarrow> logical_partition_id fset" where
  "operation_partitions (Launch p _ _) = {|p|}"
| "operation_partitions (Transfer t) = {|to_source t, to_destination t|}"
| "operation_partitions (CollectiveBroadcast b) = br_participants b"
| "operation_partitions (Barrier _ ps) = ps"

text \<open>The product of a broadcast is the wrapping multiplication of a release build.\<close>

fun operation_byte_count :: "transaction_operation \<Rightarrow> u64" where
  "operation_byte_count (Launch _ _ _) = 0"
| "operation_byte_count (Barrier _ _) = 0"
| "operation_byte_count (Transfer t) = to_byte_count t"
| "operation_byte_count (CollectiveBroadcast b) =
     br_byte_count b * word_of_nat (fcard (br_participants b) - 1)"

fun operation_completed_events :: "transaction_operation \<Rightarrow> operation_event fset" where
  "operation_completed_events (Launch p launch_ref _) = {|LaunchCompleted p launch_ref|}"
| "operation_completed_events (Transfer t) =
     {|TransferCompleted (to_source t) (to_id t), TransferCompleted (to_destination t) (to_id t)|}"
| "operation_completed_events (CollectiveBroadcast b) =
     (\<lambda>p. BroadcastCompleted p (br_id b)) |`| br_participants b"
| "operation_completed_events (Barrier barrier_ref ps) =
     (\<lambda>p. BarrierCompleted p barrier_ref) |`| ps"

fun operation_staged_writes :: "transaction_operation \<Rightarrow> staged_write list" where
  "operation_staged_writes (Launch p launch_ref output_bytes) =
     [\<lparr>sw_partition = p, sw_output_ref = ''launch:'' @ launch_ref @ '':output'', sw_byte_count = output_bytes\<rparr>]"
| "operation_staged_writes (Transfer t) =
     [\<lparr>sw_partition = to_destination t, sw_output_ref = ''transfer:'' @ to_id t @ '':destination'',
       sw_byte_count = to_byte_count t\<rparr>]"
| "operation_staged_writes (CollectiveBroadcast b) =
     map (\<lambda>p. \<lparr>sw_partition = p, sw_output_ref = ''broadcast:'' @ br_id b @ '':'' @ p,
               sw_byte_count = br_byte_count b\<rparr>)
       (filter (\<lambda>p. p \<noteq> br_source b) (sorted_list_of_fset (br_participants b)))"
| "operation_staged_writes (Barrier _ _) = []"

definition operation_canonical_bytes :: "transaction_operation \<Rightarrow> bytes" where
  "operation_canonical_bytes op = (case op of
     Launch p launch_ref output_bytes \<Rightarrow>
       (let out = [] @ [0];
            out = push_str out p;
            out = push_str out launch_ref
        in push_u64 out output_bytes)
   | Transfer t \<Rightarrow> ([] @ [1]) @ transfer_canonical_bytes t
   | CollectiveBroadcast b \<Rightarrow> ([] @ [2]) @ broadcast_canonical_bytes b
   | Barrier barrier_ref ps \<Rightarrow>
       (let out = [] @ [3];
            out = push_str out barrier_ref
        in push_str_set out ps))"

section \<open>The canonical bytes determine the operation\<close>

definition str_set_ok :: "string fset \<Rightarrow> bool" where
  "str_set_ok s \<longleftrightarrow> fcard s < 2 ^ 64 \<and> (\<forall>x |\<in>| s. str_ok x)"

definition boundary_ok :: "commit_boundary \<Rightarrow> bool" where
  "boundary_ok b \<longleftrightarrow> str_set_ok (cb_barriers b) \<and> str_set_ok (cb_launches b)"

abbreviation enc_str_set :: "string fset \<Rightarrow> bytes" where "enc_str_set \<equiv> push_str_set []"

lemma push_str_set_append: "push_str_set out s = out @ enc_str_set s"
  unfolding push_str_set_def push_each_concat[of push_str enc_str, OF push_str_append]
  by (simp add: push_u64_append[of out])

lemma push_str_set_flat:
  "out \<noteq> [] \<Longrightarrow> push_str_set out s = out @ enc_str_set s"
  by (rule push_str_set_append)

interpretation str_set_code: prefix_code enc_str_set str_set_ok
proof
  fix a b :: "string fset" and x y :: bytes
  assume ok: "str_set_ok a" "str_set_ok b" and eq: "enc_str_set a @ x = enc_str_set b @ y"
  have "enc_u64 (word_of_nat (length (sorted_list_of_fset a))) @ concat (map enc_str (sorted_list_of_fset a)) @ x
    = enc_u64 (word_of_nat (length (sorted_list_of_fset b))) @ concat (map enc_str (sorted_list_of_fset b)) @ y"
    using eq unfolding push_str_set_def push_each_concat[of push_str enc_str, OF push_str_append] by simp
  then show "a = b \<and> x = y"
    using ok by (subst (asm) str_code.counted_append_iff) (auto simp: str_set_ok_def sorted_list_of_fset_inject)
qed

lemma enc_str_set_nonempty [simp]: "enc_str_set s \<noteq> []"
  unfolding push_str_set_def push_each_concat[of push_str enc_str, OF push_str_append] by simp

interpretation boundary_code: prefix_code boundary_canonical_bytes boundary_ok
  by unfold_locales
    (auto simp: boundary_canonical_bytes_def Let_def push_str_set_flat boundary_ok_def
      str_set_code.append_iff intro: commit_boundary.equality)

lemma direction_tag_inject: "direction_tag a = direction_tag b \<longleftrightarrow> a = b"
  by (cases a; cases b) simp_all

lemma dtype_tag_inject: "dtype_tag a = dtype_tag b \<longleftrightarrow> a = b"
  by (cases a; cases b) simp_all

lemma layout_tag_inject: "layout_tag a = layout_tag b \<longleftrightarrow> a = b"
  by (cases a; cases b) simp_all

lemma path_tag_inject: "path_tag a = path_tag b \<longleftrightarrow> a = b"
  by (cases a; cases b) simp_all

lemmas tag_inject = direction_tag_inject dtype_tag_inject layout_tag_inject path_tag_inject

lemma transfer_bytes_flat:
  "transfer_canonical_bytes t = enc_str (to_id t) @ enc_str (to_source t) @ enc_str (to_destination t) @
     enc_u64 (to_byte_count t) @ enc_u64 (direction_tag (to_direction t)) @ enc_u64 (dtype_tag (to_dtype t)) @
     enc_u64 (layout_tag (to_layout t)) @ enc_u64 (path_tag (to_path t)) @
     enc_u64 (to_producer_generation t) @ enc_u64 (to_consumer_generation t) @
     boundary_canonical_bytes (to_completion_boundary t)"
  by (simp add: transfer_canonical_bytes_def Let_def push_flat)

lemma broadcast_bytes_flat:
  "broadcast_canonical_bytes b = enc_str (br_id b) @ enc_str (br_source b) @
     enc_str_set (br_participants b) @ enc_u64 (br_byte_count b)"
  by (simp add: broadcast_canonical_bytes_def Let_def push_flat push_str_set_flat)

definition transfer_ok :: "transfer_operation \<Rightarrow> bool" where
  "transfer_ok t \<longleftrightarrow> str_ok (to_id t) \<and> str_ok (to_source t) \<and> str_ok (to_destination t) \<and>
     boundary_ok (to_completion_boundary t)"

definition broadcast_ok :: "collective_broadcast \<Rightarrow> bool" where
  "broadcast_ok b \<longleftrightarrow> str_ok (br_id b) \<and> str_ok (br_source b) \<and> str_set_ok (br_participants b)"

interpretation transfer_code: prefix_code transfer_canonical_bytes transfer_ok
  by unfold_locales
    (simp add: transfer_bytes_flat transfer_ok_def code_iffs boundary_code.append_iff tag_inject
      transfer_operation.equality)

interpretation broadcast_code: prefix_code broadcast_canonical_bytes broadcast_ok
  by unfold_locales
    (simp add: broadcast_bytes_flat broadcast_ok_def code_iffs str_set_code.append_iff
      collective_broadcast.equality)

fun operation_ok :: "transaction_operation \<Rightarrow> bool" where
  "operation_ok (Launch p l _) \<longleftrightarrow> str_ok p \<and> str_ok l"
| "operation_ok (Transfer t) \<longleftrightarrow> transfer_ok t"
| "operation_ok (CollectiveBroadcast b) \<longleftrightarrow> broadcast_ok b"
| "operation_ok (Barrier r ps) \<longleftrightarrow> str_ok r \<and> str_set_ok ps"

lemma operation_bytes_flat:
  "operation_canonical_bytes (Launch p l n) = 0 # enc_str p @ enc_str l @ enc_u64 n"
  "operation_canonical_bytes (Transfer t) = 1 # transfer_canonical_bytes t"
  "operation_canonical_bytes (CollectiveBroadcast b) = 2 # broadcast_canonical_bytes b"
  "operation_canonical_bytes (Barrier r ps) = 3 # enc_str r @ enc_str_set ps"
  by (simp_all add: operation_canonical_bytes_def Let_def push_flat push_str_set_flat)

interpretation operation_code: prefix_code operation_canonical_bytes operation_ok
proof
  fix a b :: transaction_operation and x y :: bytes
  assume "operation_ok a" "operation_ok b"
    "operation_canonical_bytes a @ x = operation_canonical_bytes b @ y"
  then show "a = b \<and> x = y"
    by (cases a; cases b)
      (simp_all add: operation_bytes_flat code_iffs str_set_code.append_iff
        transfer_code.append_iff broadcast_code.append_iff)
qed

section \<open>Output references\<close>

lemma operation_writes_partitions:
  "w \<in> set (operation_staged_writes op) \<Longrightarrow> sw_partition w |\<in>| operation_partitions op"
  by (cases op) auto

text \<open>References without a colon cannot be confused once they are spelt into an output reference.\<close>

definition colon_free :: "string \<Rightarrow> bool" where
  "colon_free s \<longleftrightarrow> CHR '':'' \<notin> set s"

fun operation_id :: "transaction_operation \<Rightarrow> string" where
  "operation_id (Launch _ l _) = l"
| "operation_id (Transfer t) = to_id t"
| "operation_id (CollectiveBroadcast b) = br_id b"
| "operation_id (Barrier r _) = r"

lemma colon_split:
  "colon_free a \<Longrightarrow> colon_free b \<Longrightarrow> a @ CHR '':'' # x = b @ CHR '':'' # y \<Longrightarrow> a = b \<and> x = y"
proof (induction a arbitrary: b)
  case Nil
  then show ?case by (cases b) (auto simp: colon_free_def)
next
  case (Cons c a)
  then show ?case by (cases b) (auto simp: colon_free_def)
qed

lemma broadcast_output_split:
  assumes "colon_free a" "colon_free b" "''broadcast:'' @ a @ '':'' @ p = ''broadcast:'' @ b @ '':'' @ q"
  shows "a = b \<and> p = q"
  using assms colon_split[of a b p q] by simp

lemma same_output_same_operation:
  assumes "colon_free (operation_id op)" "colon_free (operation_id op')"
    and w: "w \<in> set (operation_staged_writes op)" "w' \<in> set (operation_staged_writes op')"
    and eq: "sw_output_ref w = sw_output_ref w'"
  shows "operation_ref_of op = operation_ref_of op' \<and> (op = op' \<longrightarrow> w = w')"
proof (cases op)
  case (Launch p l n)
  with w eq show ?thesis by (cases op') auto
next
  case (Transfer t)
  with w eq show ?thesis by (cases op') auto
next
  case (CollectiveBroadcast b)
  show ?thesis
  proof (cases op')
    case (CollectiveBroadcast b')
    obtain p q where pq:
      "w = \<lparr>sw_partition = p, sw_output_ref = ''broadcast:'' @ br_id b @ '':'' @ p, sw_byte_count = br_byte_count b\<rparr>"
      "w' = \<lparr>sw_partition = q, sw_output_ref = ''broadcast:'' @ br_id b' @ '':'' @ q, sw_byte_count = br_byte_count b'\<rparr>"
      using w unfolding \<open>op = CollectiveBroadcast b\<close> CollectiveBroadcast by force
    then have "br_id b = br_id b' \<and> p = q"
      using broadcast_output_split[of "br_id b" "br_id b'" p q] assms(1,2) eq
      unfolding \<open>op = CollectiveBroadcast b\<close> CollectiveBroadcast by simp
    then show ?thesis using pq unfolding \<open>op = CollectiveBroadcast b\<close> CollectiveBroadcast by simp
  qed (use w eq CollectiveBroadcast in auto)
next
  case (Barrier r ps)
  with w show ?thesis by simp
qed

lemma distinct_writes_of_operation: "distinct (map sw_output_ref (operation_staged_writes op))"
  by (cases op) (simp_all add: comp_def distinct_map inj_on_def)

lemma distinct_output_refs:
  "distinct (map operation_ref_of ops) \<Longrightarrow> \<forall>op \<in> set ops. colon_free (operation_id op) \<Longrightarrow>
   distinct (map sw_output_ref (concat (map operation_staged_writes ops)))"
proof (induction ops)
  case Nil
  then show ?case by simp
next
  case (Cons op ops)
  have "sw_output_ref w \<noteq> sw_output_ref w'"
    if "w \<in> set (operation_staged_writes op)" "op' \<in> set ops" "w' \<in> set (operation_staged_writes op')" for w op' w'
  proof
    assume eq: "sw_output_ref w = sw_output_ref w'"
    have "operation_ref_of op = operation_ref_of op'"
      using same_output_same_operation[OF _ _ that(1,3) eq] Cons.prems(2) that(2) by auto
    then show False using Cons.prems(1) that(2) by auto
  qed
  then have "set (map sw_output_ref (operation_staged_writes op)) \<inter>
      set (map sw_output_ref (concat (map operation_staged_writes ops))) = {}" by auto
  then show ?case using Cons distinct_writes_of_operation[of op] by auto
qed

section \<open>Properties\<close>

text \<open>Different operations have different canonical bytes, and no operation's bytes are
  a prefix of another's, so a sequence of encoded operations can be read back in one way.\<close>

theorem operation_bytes_unambiguous:
  assumes "\<forall>op \<in> set ops. operation_ok op" "\<forall>op \<in> set ops'. operation_ok op"
    and "length ops = length ops'"
  shows "concat (map operation_canonical_bytes ops) = concat (map operation_canonical_bytes ops') \<longleftrightarrow> ops = ops'"
  using operation_code.concat_prefix_free[OF assms(3,1,2), of "[]" "[]"] by auto

theorem operation_bytes_unambiguous_witness:
  "concat (map operation_canonical_bytes [Launch ''p0'' ''l'' 1, Barrier ''b'' {||}]) \<noteq>
   concat (map operation_canonical_bytes [Launch ''p0'' ''l'' 1, Launch ''b'' ''c'' 2])"
  by (subst operation_bytes_unambiguous) (simp_all add: str_set_ok_def fcard_fempty)

text \<open>The output references of an accepted plan. When the operations have distinct
  identities and no identity contains a colon, all writes they stage have distinct output
  references, so no declared write hides another.\<close>

theorem output_refs_distinct:
  assumes "distinct (map operation_ref_of ops)" "\<forall>op \<in> set ops. colon_free (operation_id op)"
  shows "distinct (map sw_output_ref (concat (map operation_staged_writes ops)))"
  using assms by (rule distinct_output_refs)

definition example_broadcast :: "string \<Rightarrow> string \<Rightarrow> transaction_operation" where
  "example_broadcast i p = CollectiveBroadcast
     \<lparr>br_id = i, br_source = ''s'', br_participants = {|''s'', p|}, br_byte_count = 8\<rparr>"

lemma example_broadcast_writes:
  "p \<noteq> ''s'' \<Longrightarrow> set (operation_staged_writes (example_broadcast i p)) =
     {\<lparr>sw_partition = p, sw_output_ref = ''broadcast:'' @ i @ '':'' @ p, sw_byte_count = 8\<rparr>}"
  by (auto simp: example_broadcast_def)

theorem output_refs_distinct_witness:
  "distinct (map sw_output_ref (concat (map operation_staged_writes
     [example_broadcast ''w'' ''p1'', example_broadcast ''v'' ''p1'', Launch ''p1'' ''w'' 3])))"
  by (rule output_refs_distinct) (simp_all add: example_broadcast_def colon_free_def)

text \<open>Without that condition the claim of uniqueness fails: two broadcasts with different
  identities stage writes to the same output reference.\<close>

lemma broadcast_output_refs_collide:
  "\<exists>w \<in> set (operation_staged_writes (example_broadcast ''a'' ''b:c'')).
   \<exists>w' \<in> set (operation_staged_writes (example_broadcast ''a:b'' ''c'')).
     sw_output_ref w = sw_output_ref w' \<and> sw_partition w \<noteq> sw_partition w' \<and>
     operation_ref_of (example_broadcast ''a'' ''b:c'') \<noteq> operation_ref_of (example_broadcast ''a:b'' ''c'')"
  unfolding example_broadcast_writes[of "''b:c''", simplified] example_broadcast_writes[of "''c''", simplified]
  by (simp add: example_broadcast_def)

end
