(* ===== verification/TxReservation.thy ===== *)
theory TxReservation
  imports TxMirror
begin

text \<open>
  \<open>src/execution_transaction/reservation.rs\<close>: what \<open>prepare\<close> reserves for each partition of an
  accepted plan, the declared write-set, and the specification of both: the reservation of a
  partition is the sum over the operations of what each holds there, modulo the machine word.
\<close>

section \<open>The derivation\<close>

definition EVENT_OBJECT_BYTES :: u64 where
  "EVENT_OBJECT_BYTES = 64"

definition TRANSACTION_SCRATCH_BYTES_PER_PARTITION :: u64 where
  "TRANSACTION_SCRATCH_BYTES_PER_PARTITION = 4096"

datatype budget_class = TransferStaging | ActivationScratch

fun ledger_class :: "budget_class \<Rightarrow> u64" where
  "ledger_class TransferStaging = 6"
| "ledger_class ActivationScratch = 3"

record reservation_record =
  rr_transfer_staging_bytes :: u64
  rr_output_buffer_bytes :: u64
  rr_event_bytes :: u64
  rr_transaction_scratch_bytes :: u64

definition class_six_bytes :: "reservation_record \<Rightarrow> u64" where
  "class_six_bytes r = rr_transfer_staging_bytes r"

definition class_three_bytes :: "reservation_record \<Rightarrow> u64" where
  "class_three_bytes r = rr_output_buffer_bytes r + rr_event_bytes r + rr_transaction_scratch_bytes r"

text \<open>\<open>*map.entry(k).or_insert(0) += v\<close>.\<close>

definition entry_add :: "('k, u64) fmap \<Rightarrow> 'k \<Rightarrow> u64 \<Rightarrow> ('k, u64) fmap" where
  "entry_add m k v = fmupd k ((case fmlookup m k of Some x \<Rightarrow> x | None \<Rightarrow> 0) + v) m"

type_synonym charges =
  "(logical_partition_id, u64) fmap \<times> (logical_partition_id, u64) fmap \<times> (logical_partition_id, u64) fmap"

definition charge_operation :: "charges \<Rightarrow> transaction_operation \<Rightarrow> charges" where
  "charge_operation c operation =
     (let (staging, outputs, events) = c;
          events = foldl (\<lambda>m p. entry_add m p EVENT_OBJECT_BYTES) events
                     (sorted_list_of_fset (operation_partitions operation))
      in case operation of
           Launch p _ output_bytes \<Rightarrow> (staging, entry_add outputs p output_bytes, events)
         | Transfer t \<Rightarrow>
             (entry_add (entry_add staging (to_source t) (to_byte_count t)) (to_destination t) (to_byte_count t),
              entry_add outputs (to_destination t) (to_byte_count t), events)
         | CollectiveBroadcast b \<Rightarrow>
             (foldl (\<lambda>m p. entry_add m p (br_byte_count b)) staging (sorted_list_of_fset (br_participants b)),
              foldl (\<lambda>m p. if p \<noteq> br_source b then entry_add m p (br_byte_count b) else m) outputs
                (sorted_list_of_fset (br_participants b)),
              events)
         | Barrier _ _ \<Rightarrow> (staging, outputs, events))"

definition charge_of :: "(logical_partition_id, u64) fmap \<Rightarrow> logical_partition_id \<Rightarrow> u64" where
  "charge_of m p = (case fmlookup m p of Some x \<Rightarrow> x | None \<Rightarrow> 0)"

definition derive_reservation ::
  "transaction_operation list \<Rightarrow> logical_partition_id fset
   \<Rightarrow> (logical_partition_id, reservation_record) fmap" where
  "derive_reservation operations referenced =
     (let (staging, outputs, events) = foldl charge_operation (fmempty, fmempty, fmempty) operations
      in fmap_of_list (map (\<lambda>p. (p,
           \<lparr>rr_transfer_staging_bytes = charge_of staging p, rr_output_buffer_bytes = charge_of outputs p,
            rr_event_bytes = charge_of events p,
            rr_transaction_scratch_bytes = TRANSACTION_SCRATCH_BYTES_PER_PARTITION\<rparr>))
         (sorted_list_of_fset referenced)))"

definition derive_declared_write_set ::
  "transaction_operation list \<Rightarrow> (output_ref, staged_write) fmap" where
  "derive_declared_write_set operations =
     foldl (\<lambda>writes operation. foldl (\<lambda>writes w. fmupd (sw_output_ref w) w writes) writes
       (operation_staged_writes operation)) fmempty operations"

section \<open>What each operation holds at a partition\<close>

fun staging_of :: "transaction_operation \<Rightarrow> logical_partition_id \<Rightarrow> nat" where
  "staging_of (Launch _ _ _) p = 0"
| "staging_of (Transfer t) p = (if to_source t = p then unat (to_byte_count t) else 0)
     + (if to_destination t = p then unat (to_byte_count t) else 0)"
| "staging_of (CollectiveBroadcast b) p = (if p |\<in>| br_participants b then unat (br_byte_count b) else 0)"
| "staging_of (Barrier _ _) p = 0"

text \<open>The output bytes an operation holds at a partition: the bytes of its staged writes there.\<close>

definition outputs_of :: "transaction_operation \<Rightarrow> logical_partition_id \<Rightarrow> nat" where
  "outputs_of op p = sum_list (map (unat \<circ> sw_byte_count) (filter (\<lambda>w. sw_partition w = p) (operation_staged_writes op)))"

definition events_of :: "transaction_operation \<Rightarrow> logical_partition_id \<Rightarrow> nat" where
  "events_of op p = (if p |\<in>| operation_partitions op then 64 else 0)"

definition staging_sum :: "transaction_operation list \<Rightarrow> logical_partition_id \<Rightarrow> nat" where
  "staging_sum ops p = sum_list (map (\<lambda>op. staging_of op p) ops)"

definition scratch_sum :: "transaction_operation list \<Rightarrow> logical_partition_id \<Rightarrow> nat" where
  "scratch_sum ops p = sum_list (map (\<lambda>op. outputs_of op p + events_of op p) ops) + 4096"

lemma charge_entry_add: "charge_of (entry_add m k v) p = charge_of m p + (if p = k then v else 0)"
  by (simp add: charge_of_def entry_add_def)

lemma charge_fold:
  "distinct ps \<Longrightarrow> charge_of (foldl (\<lambda>m q. if P q then entry_add m q v else m) m ps) p =
     charge_of m p + (if p \<in> set ps \<and> P p then v else 0)"
  by (induction ps arbitrary: m) (auto simp: charge_entry_add)

lemma charge_fold_all:
  "distinct ps \<Longrightarrow> charge_of (foldl (\<lambda>m q. entry_add m q v) m ps) p = charge_of m p + (if p \<in> set ps then v else 0)"
  using charge_fold[of ps "\<lambda>_. True" v m p] by simp

lemma filter_eq_distinct: "distinct xs \<Longrightarrow> filter (\<lambda>x. x = p) xs = (if p \<in> set xs then [p] else [])"
  by (induction xs) auto

lemma outputs_of_simps:
  "outputs_of (Launch q l n) p = (if q = p then unat n else 0)"
  "outputs_of (Transfer t) p = (if to_destination t = p then unat (to_byte_count t) else 0)"
  "outputs_of (CollectiveBroadcast b) p =
     (if p |\<in>| br_participants b \<and> p \<noteq> br_source b then unat (br_byte_count b) else 0)"
  "outputs_of (Barrier r ps) p = 0"
proof -
  have "filter (\<lambda>q. q \<noteq> br_source b \<and> q = p) (sorted_list_of_fset (br_participants b)) =
      (if p |\<in>| br_participants b \<and> p \<noteq> br_source b then [p] else [])"
    using filter_eq_distinct[of "sorted_list_of_fset (br_participants b)" p]
    by (auto simp: filter_filter[symmetric] conj_commute simp del: filter_filter)
  then show "outputs_of (CollectiveBroadcast b) p =
     (if p |\<in>| br_participants b \<and> p \<noteq> br_source b then unat (br_byte_count b) else 0)"
    by (auto simp: outputs_of_def filter_map comp_def conj_commute)
qed (simp_all add: outputs_of_def)

lemma charge_operation_charges:
  assumes "charge_operation (s, ou, e) op = (s', ou', e')"
  shows "charge_of s' p = charge_of s p + word_of_nat (staging_of op p)"
    and "charge_of ou' p = charge_of ou p + word_of_nat (outputs_of op p)"
    and "charge_of e' p = charge_of e p + word_of_nat (events_of op p)"
  using assms
  by (cases op; auto simp: charge_operation_def Let_def charge_entry_add charge_fold charge_fold_all
      outputs_of_simps events_of_def EVENT_OBJECT_BYTES_def)+

lemma charge_operations_charges:
  assumes "foldl charge_operation (s, ou, e) ops = (s', ou', e')"
  shows "charge_of s' p = charge_of s p + word_of_nat (sum_list (map (\<lambda>op. staging_of op p) ops)) \<and>
    charge_of ou' p = charge_of ou p + word_of_nat (sum_list (map (\<lambda>op. outputs_of op p) ops)) \<and>
    charge_of e' p = charge_of e p + word_of_nat (sum_list (map (\<lambda>op. events_of op p) ops))"
  using assms
proof (induction ops arbitrary: s ou e)
  case Nil
  then show ?case by simp
next
  case (Cons op ops)
  obtain s1 o1 e1 where step: "charge_operation (s, ou, e) op = (s1, o1, e1)" by (metis prod_cases3)
  with Cons show ?case by (simp add: charge_operation_charges[OF step] add.assoc)
qed

lemma charge_of_empty [simp]: "charge_of fmempty p = 0"
  by (simp add: charge_of_def)

lemma fmdom_derive_reservation: "fmdom (derive_reservation ops referenced) = referenced"
proof -
  have "fset (fmdom (derive_reservation ops referenced)) = fset referenced"
    by (simp add: derive_reservation_def fset_of_list.rep_eq comp_def image_image split: prod.splits
        del: fset_of_list_map)
  then show ?thesis by (simp add: fset_inject)
qed

lemma lookup_map_of_keys: "p \<in> set ps \<Longrightarrow> map_of (map (\<lambda>p. (p, f p)) ps) p = Some (f p)"
  by (induction ps) auto

lemma derive_reservation_lookup:
  assumes "fmlookup (derive_reservation ops referenced) p = Some r"
  shows "class_six_bytes r = word_of_nat (staging_sum ops p)"
    and "class_three_bytes r = word_of_nat (scratch_sum ops p)"
proof -
  obtain s ou e where fold: "foldl charge_operation (fmempty, fmempty, fmempty) ops = (s, ou, e)"
    by (metis prod_cases3)
  have "p |\<in>| referenced"
    using assms fmdom_derive_reservation[of ops referenced] by (metis fmdomI)
  then have "r = \<lparr>rr_transfer_staging_bytes = charge_of s p, rr_output_buffer_bytes = charge_of ou p,
      rr_event_bytes = charge_of e p, rr_transaction_scratch_bytes = TRANSACTION_SCRATCH_BYTES_PER_PARTITION\<rparr>"
    using assms by (simp add: derive_reservation_def fold fmlookup_of_list lookup_map_of_keys)
  then show "class_six_bytes r = word_of_nat (staging_sum ops p)"
    and "class_three_bytes r = word_of_nat (scratch_sum ops p)"
    using charge_operations_charges[OF fold, of p]
    by (simp_all add: class_six_bytes_def class_three_bytes_def staging_sum_def scratch_sum_def sum_list_addf
        TRANSACTION_SCRATCH_BYTES_PER_PARTITION_def)
qed

end
