(* ===== verification/TxBackend.thy ===== *)
theory TxBackend
  imports TxReservation
begin

text \<open>
  \<open>src/execution_transaction/backend.rs\<close>, the failure vocabulary of \<open>state_machine.rs\<close>, and
  \<open>src/fake_device.rs\<close>. The trait \<open>DeviceExecutionBackend\<close> is a record of operations over a
  backend state; the two implementations of the crate are values of that record. The locale
  \<open>backend_contract\<close> states what a transaction relies on, in terms of three views of the
  state: the published writes, the staged writes and the partitions holding a reservation.
\<close>

section \<open>Failures\<close>

datatype backend_error =
  AllocationError logical_partition_id string
| OperationError logical_partition_id string
| DeviceLossError logical_partition_id string
| CancelledError logical_partition_id string
| TimeoutError logical_partition_id string

fun backend_error_partition :: "backend_error \<Rightarrow> logical_partition_id" where
  "backend_error_partition (AllocationError p _) = p"
| "backend_error_partition (OperationError p _) = p"
| "backend_error_partition (DeviceLossError p _) = p"
| "backend_error_partition (CancelledError p _) = p"
| "backend_error_partition (TimeoutError p _) = p"

datatype transaction_failure =
  BackendFailure backend_error
| PublishFailure string
| CancelledFailure string

section \<open>The trait\<close>

text \<open>An operation that returns \<open>Result<(), BackendError>\<close> gives \<open>None\<close> for \<open>Ok(())\<close>.\<close>

record 'b backend_ops =
  be_reserve :: "logical_partition_id \<Rightarrow> reservation_record \<Rightarrow> 'b \<Rightarrow> backend_error option \<times> 'b"
  be_run_operation :: "transaction_operation \<Rightarrow> 'b \<Rightarrow> backend_error option \<times> 'b"
  be_event_completed :: "operation_event \<Rightarrow> 'b \<Rightarrow> bool"
  be_stage_write :: "staged_write \<Rightarrow> 'b \<Rightarrow> backend_error option \<times> 'b"
  be_publish :: "'b \<Rightarrow> backend_error option \<times> 'b"
  be_staged_bytes :: "'b \<Rightarrow> u64"
  be_published_bytes :: "'b \<Rightarrow> u64"
  be_release :: "logical_partition_id \<Rightarrow> 'b \<Rightarrow> 'b"
  be_retire :: "logical_partition_id \<Rightarrow> transaction_failure \<Rightarrow> 'b \<Rightarrow> 'b"

type_synonym write_set = "(output_ref, staged_write) fmap"

text \<open>\<open>staged_writes.retain(|_, write| write.partition() != partition)\<close>.\<close>

definition retain_other_partitions :: "logical_partition_id \<Rightarrow> write_set \<Rightarrow> write_set" where
  "retain_other_partitions p m = fmfilter (\<lambda>r. map_option sw_partition (fmlookup m r) \<noteq> Some p) m"

text \<open>
  \<open>reserve\<close> may start a fresh transaction, dropping stale staged writes, but only when no
  reservation is held. \<open>publish\<close> is all or nothing.
\<close>

locale backend_contract =
  fixes ops :: "'b backend_ops"
    and published :: "'b \<Rightarrow> write_set"
    and staged :: "'b \<Rightarrow> write_set"
    and held :: "'b \<Rightarrow> logical_partition_id fset"
  assumes reserve_published: "be_reserve ops p r s = (x, s') \<Longrightarrow> published s' = published s"
    and reserve_ok: "be_reserve ops p r s = (None, s') \<Longrightarrow> p |\<notin>| held s \<and> held s' = finsert p (held s) \<and>
      (staged s' = staged s \<or> held s = {||} \<and> staged s' = fmempty)"
    and reserve_err: "be_reserve ops p r s = (Some e, s') \<Longrightarrow> held s' = held s \<and> staged s' = staged s"
    and run_frame: "be_run_operation ops op s = (x, s') \<Longrightarrow>
      published s' = published s \<and> staged s' = staged s \<and> held s' = held s"
    and stage_ok: "be_stage_write ops w s = (None, s') \<Longrightarrow> sw_output_ref w |\<notin>| fmdom (staged s) \<and>
      staged s' = fmupd (sw_output_ref w) w (staged s) \<and> published s' = published s \<and> held s' = held s"
    and stage_err: "be_stage_write ops w s = (Some e, s') \<Longrightarrow>
      staged s' = staged s \<and> published s' = published s \<and> held s' = held s"
    and publish_ok: "be_publish ops s = (None, s') \<Longrightarrow>
      published s' = staged s \<and> staged s' = staged s \<and> held s' = held s"
    and publish_err: "be_publish ops s = (Some e, s') \<Longrightarrow>
      published s' = published s \<and> staged s' = staged s \<and> held s' = held s"
    and release_frame: "published (be_release ops p s) = published s \<and> staged (be_release ops p s) = staged s \<and>
      held (be_release ops p s) = held s |-| {|p|}"
    and retire_frame: "published (be_retire ops p f s) = published s \<and>
      staged (be_retire ops p f s) = retain_other_partitions p (staged s) \<and>
      held (be_retire ops p f s) = held s |-| {|p|}"

section \<open>The happy-path fake\<close>

record fake_execution_backend =
  fb_reservations :: "(logical_partition_id, reservation_record) fmap"
  fb_staged_writes :: write_set
  fb_published_writes :: write_set
  fb_staged_total_bytes :: u64
  fb_published_total_bytes :: u64
  fb_published_once :: bool
  fb_executed_operations :: "transaction_operation list"
  fb_dispatched_events :: "operation_event fset"
  fb_completed_events :: "operation_event fset"
  fb_released_partitions :: "logical_partition_id fset"
  fb_retired_partitions :: "logical_partition_id fset"
  fb_auto_complete :: bool

definition fake_new :: fake_execution_backend where
  "fake_new = \<lparr>fb_reservations = fmempty, fb_staged_writes = fmempty, fb_published_writes = fmempty,
     fb_staged_total_bytes = 0, fb_published_total_bytes = 0, fb_published_once = False,
     fb_executed_operations = [], fb_dispatched_events = {||}, fb_completed_events = {||},
     fb_released_partitions = {||}, fb_retired_partitions = {||}, fb_auto_complete = True\<rparr>"

definition fake_set_auto_complete :: "fake_execution_backend \<Rightarrow> bool \<Rightarrow> fake_execution_backend" where
  "fake_set_auto_complete s on = s\<lparr>fb_auto_complete := on\<rparr>"

definition fake_complete_event :: "fake_execution_backend \<Rightarrow> operation_event \<Rightarrow> fake_execution_backend" where
  "fake_complete_event s event =
     s\<lparr>fb_dispatched_events := finsert event (fb_dispatched_events s),
       fb_completed_events := finsert event (fb_completed_events s)\<rparr>"

definition fake_pending_events :: "fake_execution_backend \<Rightarrow> operation_event fset" where
  "fake_pending_events s = fb_dispatched_events s |-| fb_completed_events s"

definition fake_reserve ::
  "logical_partition_id \<Rightarrow> reservation_record \<Rightarrow> fake_execution_backend
   \<Rightarrow> backend_error option \<times> fake_execution_backend" where
  "fake_reserve p reservation s =
     (if p |\<in>| fmdom (fb_reservations s)
      then (Some (AllocationError p (''partition '' @ p @ '' already holds a reservation'')), s)
      else (None, s\<lparr>fb_reservations := fmupd p reservation (fb_reservations s)\<rparr>))"

definition fake_run_operation ::
  "transaction_operation \<Rightarrow> fake_execution_backend \<Rightarrow> backend_error option \<times> fake_execution_backend" where
  "fake_run_operation operation s =
     (let events = operation_completed_events operation;
          s = s\<lparr>fb_executed_operations := fb_executed_operations s @ [operation]\<rparr>;
          s = s\<lparr>fb_dispatched_events := fb_dispatched_events s |\<union>| events\<rparr>
      in (None, if fb_auto_complete s then s\<lparr>fb_completed_events := fb_completed_events s |\<union>| events\<rparr> else s))"

definition fake_event_completed :: "operation_event \<Rightarrow> fake_execution_backend \<Rightarrow> bool" where
  "fake_event_completed event s = (event |\<in>| fb_completed_events s)"

definition fake_stage_write ::
  "staged_write \<Rightarrow> fake_execution_backend \<Rightarrow> backend_error option \<times> fake_execution_backend" where
  "fake_stage_write w s =
     (if sw_output_ref w |\<in>| fmdom (fb_staged_writes s)
      then (Some (AllocationError (sw_partition w) (''output '' @ sw_output_ref w @ '' staged twice'')), s)
      else (None, s\<lparr>fb_staged_total_bytes := saturating_add (fb_staged_total_bytes s) (sw_byte_count w),
                    fb_staged_writes := fmupd (sw_output_ref w) w (fb_staged_writes s)\<rparr>))"

text \<open>The UTF-8 bytes of the dash in the message below.\<close>

definition em_dash :: string where
  "em_dash = [CHR 0xE2, CHR 0x80, CHR 0x94]"

definition fake_publish :: "fake_execution_backend \<Rightarrow> backend_error option \<times> fake_execution_backend" where
  "fake_publish s =
     (if fb_published_once s
      then (Some (OperationError ''unknown'' (''publish called twice '' @ em_dash @ '' publication is one-shot'')), s)
      else (None, s\<lparr>fb_published_writes := fb_staged_writes s,
                    fb_published_total_bytes := fb_staged_total_bytes s, fb_published_once := True\<rparr>))"

definition fake_release :: "logical_partition_id \<Rightarrow> fake_execution_backend \<Rightarrow> fake_execution_backend" where
  "fake_release p s =
     s\<lparr>fb_reservations := fmdrop p (fb_reservations s),
       fb_released_partitions := finsert p (fb_released_partitions s)\<rparr>"

definition fake_retire ::
  "logical_partition_id \<Rightarrow> transaction_failure \<Rightarrow> fake_execution_backend \<Rightarrow> fake_execution_backend" where
  "fake_retire p failure s =
     (let retired = sum_list (map sw_byte_count (filter (\<lambda>w. sw_partition w = p) (btree_values (fb_staged_writes s))));
          s = s\<lparr>fb_staged_total_bytes := saturating_sub (fb_staged_total_bytes s) retired\<rparr>;
          s = s\<lparr>fb_staged_writes := retain_other_partitions p (fb_staged_writes s)\<rparr>;
          s = s\<lparr>fb_reservations := fmdrop p (fb_reservations s)\<rparr>
      in s\<lparr>fb_retired_partitions := finsert p (fb_retired_partitions s)\<rparr>)"

lemma fake_retire_views [accessor_simps]:
  "fb_published_writes (fake_retire p f s) = fb_published_writes s"
  "fb_staged_writes (fake_retire p f s) = retain_other_partitions p (fb_staged_writes s)"
  "fb_reservations (fake_retire p f s) = fmdrop p (fb_reservations s)"
  by (simp_all add: fake_retire_def Let_def)

definition fake_ops :: "fake_execution_backend backend_ops" where
  "fake_ops = \<lparr>be_reserve = fake_reserve, be_run_operation = fake_run_operation,
     be_event_completed = fake_event_completed, be_stage_write = fake_stage_write,
     be_publish = fake_publish, be_staged_bytes = fb_staged_total_bytes,
     be_published_bytes = fb_published_total_bytes, be_release = fake_release, be_retire = fake_retire\<rparr>"

definition fake_held :: "fake_execution_backend \<Rightarrow> logical_partition_id fset" where
  "fake_held s = fmdom (fb_reservations s)"

interpretation fake_contract: backend_contract fake_ops fb_published_writes fb_staged_writes fake_held
  by unfold_locales
    (auto simp: fake_ops_def fake_held_def fake_reserve_def fake_run_operation_def fake_stage_write_def
      fake_publish_def fake_release_def accessor_simps Let_def split: if_splits)

section \<open>The fault-injecting backend\<close>

datatype fault_class = FaultCancel | FaultTimeout | FaultTransferError | FaultKernelError | FaultDeviceLoss

fun fault_spelling :: "fault_class \<Rightarrow> string" where
  "fault_spelling FaultCancel = ''cancel''"
| "fault_spelling FaultTimeout = ''timeout''"
| "fault_spelling FaultTransferError = ''transfer-error''"
| "fault_spelling FaultKernelError = ''kernel-error''"
| "fault_spelling FaultDeviceLoss = ''device-loss''"

record fault_injection =
  fi_operation :: operation_ref
  fi_partition :: logical_partition_id
  fi_class :: fault_class

fun operation_ref_str :: "operation_ref \<Rightarrow> string" where
  "operation_ref_str (LaunchOp r) = r"
| "operation_ref_str (TransferOp r) = r"
| "operation_ref_str (CollectiveOp r) = r"
| "operation_ref_str (BarrierOp r) = r"

definition fault_to_backend_error :: "fault_injection \<Rightarrow> backend_error" where
  "fault_to_backend_error f =
     (let detail = ''injected '' @ fault_spelling (fi_class f) @ '' on '' @ operation_ref_str (fi_operation f)
      in case fi_class f of
           FaultCancel \<Rightarrow> CancelledError (fi_partition f) detail
         | FaultTimeout \<Rightarrow> TimeoutError (fi_partition f) detail
         | FaultTransferError \<Rightarrow> OperationError (fi_partition f) detail
         | FaultKernelError \<Rightarrow> OperationError (fi_partition f) detail
         | FaultDeviceLoss \<Rightarrow> DeviceLossError (fi_partition f) detail)"

definition reclaimed_copy_bytes :: "fault_injection \<Rightarrow> transaction_operation \<Rightarrow> u64" where
  "reclaimed_copy_bytes f operation =
     (case operation of
        Transfer t \<Rightarrow> if fi_class f \<in> {FaultTimeout, FaultTransferError} then to_byte_count t else 0
      | _ \<Rightarrow> 0)"

record delivered_fault =
  df_operation :: operation_ref
  df_partition :: logical_partition_id
  df_class :: fault_class
  df_error :: backend_error
  df_reclaimed_copy_bytes :: u64

record fault_injecting_backend =
  fib_inner :: fake_execution_backend
  fib_faults :: "fault_injection list"
  fib_delivered :: "delivered_fault list"
  fib_committed_writes :: write_set
  fib_committed_bytes :: u64

definition faulty_new :: fault_injecting_backend where
  "faulty_new = \<lparr>fib_inner = fake_new, fib_faults = [], fib_delivered = [],
     fib_committed_writes = fmempty, fib_committed_bytes = 0\<rparr>"

definition faulty_inject :: "fault_injecting_backend \<Rightarrow> fault_injection \<Rightarrow> fault_injecting_backend" where
  "faulty_inject s f = s\<lparr>fib_faults := fib_faults s @ [f]\<rparr>"

definition begin_fresh_transaction_if_needed :: "fault_injecting_backend \<Rightarrow> fault_injecting_backend" where
  "begin_fresh_transaction_if_needed s =
     (if fmdom (fb_reservations (fib_inner s)) = {||} then s\<lparr>fib_inner := fake_new\<rparr> else s)"

text \<open>A call of the inner backend, its new state stored back.\<close>

definition through_inner ::
  "fault_injecting_backend \<Rightarrow> backend_error option \<times> fake_execution_backend
   \<Rightarrow> backend_error option \<times> fault_injecting_backend" where
  "through_inner s r = (fst r, s\<lparr>fib_inner := snd r\<rparr>)"

definition faulty_reserve ::
  "logical_partition_id \<Rightarrow> reservation_record \<Rightarrow> fault_injecting_backend
   \<Rightarrow> backend_error option \<times> fault_injecting_backend" where
  "faulty_reserve p reservation s =
     (let s = begin_fresh_transaction_if_needed s
      in through_inner s (fake_reserve p reservation (fib_inner s)))"

fun position_of :: "('a \<Rightarrow> bool) \<Rightarrow> 'a list \<Rightarrow> nat option" where
  "position_of P [] = None"
| "position_of P (x # xs) = (if P x then Some 0 else map_option Suc (position_of P xs))"

definition remove_nth :: "nat \<Rightarrow> 'a list \<Rightarrow> 'a list" where
  "remove_nth i xs = take i xs @ drop (Suc i) xs"

definition faulty_run_operation ::
  "transaction_operation \<Rightarrow> fault_injecting_backend \<Rightarrow> backend_error option \<times> fault_injecting_backend" where
  "faulty_run_operation operation s =
     (let key = operation_ref_of operation
      in case position_of (\<lambda>fault. fi_operation fault = key \<and> fi_partition fault |\<in>| operation_partitions operation)
                (fib_faults s) of
           Some index \<Rightarrow>
             (let fault = fib_faults s ! index;
                  s = s\<lparr>fib_faults := remove_nth index (fib_faults s)\<rparr>;
                  error = fault_to_backend_error fault
              in (Some error, s\<lparr>fib_delivered := fib_delivered s @ [\<lparr>df_operation = fi_operation fault,
                    df_partition = fi_partition fault, df_class = fi_class fault, df_error = error,
                    df_reclaimed_copy_bytes = reclaimed_copy_bytes fault operation\<rparr>]\<rparr>))
         | None \<Rightarrow> through_inner s (fake_run_operation operation (fib_inner s)))"

definition faulty_publish :: "fault_injecting_backend \<Rightarrow> backend_error option \<times> fault_injecting_backend" where
  "faulty_publish s =
     (let (result, s) = through_inner s (fake_publish (fib_inner s))
      in (result,
          if result = None
          then s\<lparr>fib_committed_writes := fb_published_writes (fib_inner s),
                 fib_committed_bytes := fb_published_total_bytes (fib_inner s)\<rparr>
          else s))"

definition faulty_ops :: "fault_injecting_backend backend_ops" where
  "faulty_ops = \<lparr>be_reserve = faulty_reserve, be_run_operation = faulty_run_operation,
     be_event_completed = \<lambda>event s. fake_event_completed event (fib_inner s),
     be_stage_write = \<lambda>w s. through_inner s (fake_stage_write w (fib_inner s)),
     be_publish = faulty_publish,
     be_staged_bytes = \<lambda>s. fb_staged_total_bytes (fib_inner s),
     be_published_bytes = \<lambda>s. fb_published_total_bytes (fib_inner s),
     be_release = \<lambda>p s. s\<lparr>fib_inner := fake_release p (fib_inner s)\<rparr>,
     be_retire = \<lambda>p f s. s\<lparr>fib_inner := fake_retire p f (fib_inner s)\<rparr>\<rparr>"

definition faulty_staged :: "fault_injecting_backend \<Rightarrow> write_set" where
  "faulty_staged s = fb_staged_writes (fib_inner s)"

definition faulty_held :: "fault_injecting_backend \<Rightarrow> logical_partition_id fset" where
  "faulty_held s = fake_held (fib_inner s)"

interpretation faulty_contract:
  backend_contract faulty_ops fib_committed_writes faulty_staged faulty_held
  by unfold_locales
    (auto simp: faulty_ops_def faulty_staged_def faulty_held_def fake_held_def faulty_reserve_def
      begin_fresh_transaction_if_needed_def through_inner_def fake_new_def
      fake_reserve_def faulty_run_operation_def fake_run_operation_def fake_stage_write_def
      faulty_publish_def fake_publish_def fake_release_def accessor_simps
      Let_def split: if_splits option.splits prod.splits)

end
