(* ===== verification/Transaction.thy ===== *)
theory Transaction
  imports TxBackend
begin

text \<open>
  \<open>src/execution_transaction/transaction.rs\<close> with the types of \<open>errors.rs\<close>, \<open>receipt.rs\<close> and
  \<open>state_machine.rs\<close>: the coordinator that prepares, executes, commits or aborts one accepted
  plan over a backend. A method on \<open>&mut self\<close> with a \<open>&mut dyn\<close> backend takes and returns both
  states; the outer \<open>option\<close> is \<open>None\<close> when an \<open>expect\<close> or an index fails. The wall-clock
  readings are arguments, and the selected-transport section is carried as an opaque value.
\<close>

section \<open>States, errors and receipts\<close>

datatype transaction_state =
  TxNew
| Prepared
| Executing
| Committed
| TxFailed transaction_failure
| Aborted transaction_failure

datatype construct_error = DegeneratePlan | EmptySnapshot

datatype prepare_error =
  PrepareInvalidState transaction_state
| UnknownPartition logical_partition_id nat
| DuplicateOperation operation_ref
| UndeclaredBoundaryBarrier barrier_ref
| UndeclaredBoundaryLaunch launch_ref
| MissingAdmittedBudget logical_partition_id
| ReservationExceedsBudget logical_partition_id budget_class u64 u64
| PrepareBackend backend_error

datatype execute_error =
  ExecuteInvalidState transaction_state
| OperationOutsideSnapshot operation_ref
| ExecuteBackend backend_error

datatype commit_error =
  CommitInvalidState transaction_state
| BoundaryNotReached "boundary_ref fset"
| PublishFailed backend_error

datatype abort_error = AlreadyCommitted

datatype transaction_decision =
  DecisionCommitted u64
| DecisionAborted transaction_failure

record executed_operation_record =
  eo_operation :: transaction_operation
  eo_byte_count :: u64

record publish_summary =
  ps_staged_bytes :: u64
  ps_published_bytes :: u64
  ps_atomic :: bool

record teardown_facts =
  td_released_partitions :: "logical_partition_id fset"
  td_retired_partitions :: "logical_partition_id fset"
  td_partial_publication :: bool

record transaction_timings =
  tt_prepare_nanos :: u64
  tt_execute_nanos :: u64
  tt_finalize_nanos :: u64

type_synonym reservations = "(logical_partition_id, reservation_record) fmap"

record 't transaction_receipt =
  tr_transaction_id :: string
  tr_logical_hash :: string
  tr_bound_hash :: string
  tr_plan_receipt :: partition_receipt
  tr_reservation_summary :: reservations
  tr_declared_write_set :: write_set
  tr_executed_operations :: "executed_operation_record list"
  tr_synchronization_events :: "operation_event fset"
  tr_decision :: transaction_decision
  tr_publish_summary :: "publish_summary option"
  tr_teardown :: teardown_facts
  tr_timings :: transaction_timings
  tr_selected_transports :: "'t option"

record 't execution_transaction =
  tx_id :: string
  tx_bound_plan :: bound_distributed_plan
  tx_operations :: "transaction_operation list"
  tx_commit_boundary :: commit_boundary
  tx_operation_keys :: "(operation_ref, nat) fmap"
  tx_state :: transaction_state
  tx_reservation :: "reservations option"
  tx_declared_write_set :: write_set
  tx_staged_write_set :: write_set
  tx_executed_operations :: "executed_operation_record list"
  tx_completed_events :: "operation_event fset"
  tx_failure :: "transaction_failure option"
  tx_decision :: "transaction_decision option"
  tx_publish_summary :: "publish_summary option"
  tx_teardown :: teardown_facts
  tx_timings :: transaction_timings
  tx_transport_receipt :: "'t option"
  tx_receipt :: "'t transaction_receipt option"

definition tx_new ::
  "string \<Rightarrow> bound_distributed_plan \<Rightarrow> transaction_operation list \<Rightarrow> commit_boundary
   \<Rightarrow> construct_error + 't execution_transaction" where
  "tx_new i plan operations boundary =
     (if plan_is_degenerate plan then Inl DegeneratePlan
      else if operations = [] then Inl EmptySnapshot
      else Inr \<lparr>tx_id = i, tx_bound_plan = plan, tx_operations = operations, tx_commit_boundary = boundary,
             tx_operation_keys = fmempty, tx_state = TxNew, tx_reservation = None,
             tx_declared_write_set = fmempty, tx_staged_write_set = fmempty, tx_executed_operations = [],
             tx_completed_events = {||}, tx_failure = None, tx_decision = None, tx_publish_summary = None,
             tx_teardown = \<lparr>td_released_partitions = {||}, td_retired_partitions = {||},
               td_partial_publication = False\<rparr>,
             tx_timings = \<lparr>tt_prepare_nanos = 0, tt_execute_nanos = 0, tt_finalize_nanos = 0\<rparr>,
             tx_transport_receipt = None, tx_receipt = None\<rparr>)"

definition tx_with_transport_receipt :: "'t execution_transaction \<Rightarrow> 't \<Rightarrow> 't execution_transaction" where
  "tx_with_transport_receipt tx r = tx\<lparr>tx_transport_receipt := Some r\<rparr>"

section \<open>Prepare\<close>

definition plan_bindings :: "bound_distributed_plan \<Rightarrow> bindings option" where
  "plan_bindings plan = (case bp_kind plan of Distributed b \<Rightarrow> Some b | ImplicitLocal _ _ \<Rightarrow> None)"

definition check_topology ::
  "logical_partition_id fset \<Rightarrow> nat \<Rightarrow> transaction_operation \<Rightarrow> prepare_error option" where
  "check_topology declared index operation =
     map_option (\<lambda>p. UnknownPartition p index)
       (find (\<lambda>p. p |\<notin>| declared) (sorted_list_of_fset (operation_partitions operation)))"

fun build_operation_keys ::
  "nat \<Rightarrow> transaction_operation list \<Rightarrow> (operation_ref, nat) fmap
   \<Rightarrow> operation_ref + (operation_ref, nat) fmap" where
  "build_operation_keys i [] m = Inr m"
| "build_operation_keys i (operation # operations) m =
     (let key = operation_ref_of operation
      in if key |\<in>| fmdom m then Inl key
         else build_operation_keys (Suc i) operations (fmupd key i m))"

fun is_barrier_op :: "barrier_ref \<Rightarrow> transaction_operation \<Rightarrow> bool" where
  "is_barrier_op b (Barrier barrier_ref _) = (barrier_ref = b)"
| "is_barrier_op b _ = False"

fun is_launch_op :: "launch_ref \<Rightarrow> transaction_operation \<Rightarrow> bool" where
  "is_launch_op l (Launch _ launch_ref _) = (launch_ref = l)"
| "is_launch_op l _ = False"

definition check_boundary ::
  "commit_boundary \<Rightarrow> transaction_operation list \<Rightarrow> prepare_error option" where
  "check_boundary boundary operations =
     (case try_each (\<lambda>b. if list_ex (is_barrier_op b) operations then None else Some (UndeclaredBoundaryBarrier b))
             (sorted_list_of_fset (cb_barriers boundary)) of
        Some e \<Rightarrow> Some e
      | None \<Rightarrow>
          try_each (\<lambda>l. if list_ex (is_launch_op l) operations then None else Some (UndeclaredBoundaryLaunch l))
            (sorted_list_of_fset (cb_launches boundary)))"

definition referenced_partitions :: "transaction_operation list \<Rightarrow> logical_partition_id fset" where
  "referenced_partitions operations =
     fset_of_list (concat (map (\<lambda>op. sorted_list_of_fset (operation_partitions op)) operations))"

definition check_admitted :: "bindings \<Rightarrow> logical_partition_id \<Rightarrow> prepare_error option option" where
  "check_admitted b p = (case fmlookup b p of
     None \<Rightarrow> None
   | Some binding \<Rightarrow>
       Some (if pb_virtual_partition binding = None then Some (MissingAdmittedBudget p) else None))"

definition check_budget ::
  "bindings \<Rightarrow> logical_partition_id \<times> reservation_record \<Rightarrow> prepare_error option option" where
  "check_budget b item =
     (case Option.bind (fmlookup b (fst item)) pb_virtual_partition of
        None \<Rightarrow> None
      | Some vp \<Rightarrow>
          Some (let ledger = vp_ledger vp;
                    class_six = class_six_bytes (snd item);
                    class_three = class_three_bytes (snd item)
                in if transfer_staging_bytes ledger < class_six
                   then Some (ReservationExceedsBudget (fst item) TransferStaging class_six
                     (transfer_staging_bytes ledger))
                   else if activation_scratch_bytes ledger < class_three
                   then Some (ReservationExceedsBudget (fst item) ActivationScratch class_three
                     (activation_scratch_bytes ledger))
                   else None))"

text \<open>The five validation groups, in order: the operation index and the reservation they derive.\<close>

definition prepare_checks ::
  "'t execution_transaction \<Rightarrow> (prepare_error + (operation_ref, nat) fmap \<times> reservations) option" where
  "prepare_checks tx =
     (case plan_bindings (tx_bound_plan tx) of
        None \<Rightarrow> None
      | Some b \<Rightarrow>
      case try_each_from 0 (check_topology (fmdom b)) (tx_operations tx) of
        Some e \<Rightarrow> Some (Inl e)
      | None \<Rightarrow>
      case build_operation_keys 0 (tx_operations tx) fmempty of
        Inl key \<Rightarrow> Some (Inl (DuplicateOperation key))
      | Inr keys \<Rightarrow>
      case check_boundary (tx_commit_boundary tx) (tx_operations tx) of
        Some e \<Rightarrow> Some (Inl e)
      | None \<Rightarrow>
      let referenced = referenced_partitions (tx_operations tx) in
      case try_each_opt (check_admitted b) (sorted_list_of_fset referenced) of
        None \<Rightarrow> None
      | Some (Some e) \<Rightarrow> Some (Inl e)
      | Some None \<Rightarrow>
      let reservation = derive_reservation (tx_operations tx) referenced in
      case try_each_opt (check_budget b) (btree_items reservation) of
        None \<Rightarrow> None
      | Some (Some e) \<Rightarrow> Some (Inl e)
      | Some None \<Rightarrow> Some (Inr (keys, reservation)))"

fun hold_reservations ::
  "'b backend_ops \<Rightarrow> (logical_partition_id \<times> reservation_record) list \<Rightarrow> 'b
   \<Rightarrow> backend_error option \<times> 'b" where
  "hold_reservations be [] s = (None, s)"
| "hold_reservations be ((p, record) # items) s =
     (case be_reserve be p record s of
        (Some e, s) \<Rightarrow> (Some e, s)
      | (None, s) \<Rightarrow> hold_reservations be items s)"

definition tx_prepare ::
  "'b backend_ops \<Rightarrow> u64 \<Rightarrow> 't execution_transaction \<Rightarrow> 'b
   \<Rightarrow> (prepare_error option \<times> 't execution_transaction \<times> 'b) option" where
  "tx_prepare be nanos tx s =
     (if tx_state tx \<noteq> TxNew then Some (Some (PrepareInvalidState (tx_state tx)), tx, s)
      else case prepare_checks tx of
        None \<Rightarrow> None
      | Some (Inl e) \<Rightarrow> Some (Some e, tx, s)
      | Some (Inr (keys, reservation)) \<Rightarrow>
          (case hold_reservations be (btree_items reservation) s of
             (Some e, s) \<Rightarrow> Some (Some (PrepareBackend e), tx, s)
           | (None, s) \<Rightarrow>
               Some (None, tx\<lparr>tx_operation_keys := keys, tx_reservation := Some reservation,
                 tx_declared_write_set := derive_declared_write_set (tx_operations tx),
                 tx_timings := (tx_timings tx)\<lparr>tt_prepare_nanos := nanos\<rparr>,
                 tx_state := Prepared\<rparr>, s)))"

section \<open>Execute\<close>

text \<open>The first failure wins.\<close>

definition tx_fail :: "'t execution_transaction \<Rightarrow> transaction_failure \<Rightarrow> 't execution_transaction" where
  "tx_fail tx failure =
     (if tx_state tx \<in> {TxNew, Prepared, Executing}
      then tx\<lparr>tx_failure := Some failure, tx_state := TxFailed failure\<rparr> else tx)"

fun stage_writes ::
  "'b backend_ops \<Rightarrow> staged_write list \<Rightarrow> 't execution_transaction \<Rightarrow> 'b
   \<Rightarrow> backend_error option \<times> 't execution_transaction \<times> 'b" where
  "stage_writes be [] tx s = (None, tx, s)"
| "stage_writes be (w # ws) tx s =
     (case be_stage_write be w s of
        (Some e, s) \<Rightarrow> (Some e, tx_fail tx (BackendFailure e), s)
      | (None, s) \<Rightarrow>
          stage_writes be ws (tx\<lparr>tx_staged_write_set := fmupd (sw_output_ref w) w (tx_staged_write_set tx)\<rparr>) s)"

definition record_events ::
  "'b backend_ops \<Rightarrow> 'b \<Rightarrow> transaction_operation \<Rightarrow> 't execution_transaction \<Rightarrow> 't execution_transaction" where
  "record_events be s operation tx =
     tx\<lparr>tx_completed_events := tx_completed_events tx |\<union>|
          ffilter (\<lambda>event. be_event_completed be event s) (operation_completed_events operation)\<rparr>"

definition tx_execute_operation ::
  "'b backend_ops \<Rightarrow> transaction_operation \<Rightarrow> 't execution_transaction \<Rightarrow> 'b
   \<Rightarrow> (execute_error option \<times> 't execution_transaction \<times> 'b) option" where
  "tx_execute_operation be operation tx s =
     (if tx_state tx \<noteq> Executing then Some (Some (ExecuteInvalidState (tx_state tx)), tx, s)
      else let key = operation_ref_of operation in
      case fmlookup (tx_operation_keys tx) key of
        None \<Rightarrow> Some (Some (OperationOutsideSnapshot key), tx, s)
      | Some index \<Rightarrow>
      if \<not> index < length (tx_operations tx) then None
      else if tx_operations tx ! index \<noteq> operation then Some (Some (OperationOutsideSnapshot key), tx, s)
      else case be_run_operation be operation s of
        (Some e, s) \<Rightarrow> Some (Some (ExecuteBackend e), tx_fail tx (BackendFailure e), s)
      | (None, s) \<Rightarrow>
      case stage_writes be (operation_staged_writes operation) tx s of
        (Some e, tx, s) \<Rightarrow> Some (Some (ExecuteBackend e), tx, s)
      | (None, tx, s) \<Rightarrow>
          (let tx = tx\<lparr>tx_executed_operations := tx_executed_operations tx @
                 [\<lparr>eo_operation = operation, eo_byte_count = operation_byte_count operation\<rparr>]\<rparr>
           in Some (None, record_events be s operation tx, s)))"

fun run_operations ::
  "'b backend_ops \<Rightarrow> transaction_operation list \<Rightarrow> 't execution_transaction \<Rightarrow> 'b
   \<Rightarrow> (execute_error option \<times> 't execution_transaction \<times> 'b) option" where
  "run_operations be [] tx s = Some (None, tx, s)"
| "run_operations be (operation # operations) tx s =
     (case tx_execute_operation be operation tx s of
        None \<Rightarrow> None
      | Some (Some e, tx, s) \<Rightarrow> Some (Some e, tx, s)
      | Some (None, tx, s) \<Rightarrow> run_operations be operations tx s)"

definition set_execute_nanos :: "u64 \<Rightarrow> 't execution_transaction \<Rightarrow> 't execution_transaction" where
  "set_execute_nanos nanos tx = tx\<lparr>tx_timings := (tx_timings tx)\<lparr>tt_execute_nanos := nanos\<rparr>\<rparr>"

definition tx_execute ::
  "'b backend_ops \<Rightarrow> u64 \<Rightarrow> 't execution_transaction \<Rightarrow> 'b
   \<Rightarrow> (execute_error option \<times> 't execution_transaction \<times> 'b) option" where
  "tx_execute be nanos tx s =
     (if tx_state tx \<noteq> Prepared then Some (Some (ExecuteInvalidState (tx_state tx)), tx, s)
      else map_option (\<lambda>(r, tx, s). (r, set_execute_nanos nanos tx, s))
        (run_operations be (tx_operations tx) (tx\<lparr>tx_state := Executing\<rparr>) s))"

section \<open>Commit\<close>

definition refresh_completed_events ::
  "'b backend_ops \<Rightarrow> 'b \<Rightarrow> 't execution_transaction \<Rightarrow> 't execution_transaction" where
  "refresh_completed_events be s tx = foldl (\<lambda>tx op. record_events be s op tx) tx (tx_operations tx)"

definition barrier_missing :: "'t execution_transaction \<Rightarrow> barrier_ref \<Rightarrow> bool" where
  "barrier_missing tx b = (case find (is_barrier_op b) (tx_operations tx) of
     None \<Rightarrow> True
   | Some operation \<Rightarrow>
       list_ex (\<lambda>p. BarrierCompleted p b |\<notin>| tx_completed_events tx)
         (sorted_list_of_fset (operation_partitions operation)))"

definition launch_missing :: "'t execution_transaction \<Rightarrow> launch_ref \<Rightarrow> bool" where
  "launch_missing tx l = (case find (is_launch_op l) (tx_operations tx) of
     None \<Rightarrow> True
   | Some operation \<Rightarrow>
       list_ex (\<lambda>p. LaunchCompleted p l |\<notin>| tx_completed_events tx)
         (sorted_list_of_fset (operation_partitions operation)))"

definition missing_boundary_refs :: "'t execution_transaction \<Rightarrow> boundary_ref fset" where
  "missing_boundary_refs tx =
     (BoundaryBarrier |`| ffilter (barrier_missing tx) (cb_barriers (tx_commit_boundary tx))) |\<union>|
     (BoundaryLaunch |`| ffilter (launch_missing tx) (cb_launches (tx_commit_boundary tx)))"

definition tx_build_receipt :: "'t execution_transaction \<Rightarrow> 't transaction_receipt option" where
  "tx_build_receipt tx = (case tx_decision tx of
     None \<Rightarrow> None
   | Some decision \<Rightarrow> Some \<lparr>tr_transaction_id = tx_id tx,
       tr_logical_hash = bp_logical_hash (tx_bound_plan tx), tr_bound_hash = bp_bound_hash (tx_bound_plan tx),
       tr_plan_receipt = plan_receipt (tx_bound_plan tx),
       tr_reservation_summary = (case tx_reservation tx of Some r \<Rightarrow> r | None \<Rightarrow> fmempty),
       tr_declared_write_set = tx_declared_write_set tx,
       tr_executed_operations = tx_executed_operations tx,
       tr_synchronization_events = tx_completed_events tx, tr_decision = decision,
       tr_publish_summary = tx_publish_summary tx, tr_teardown = tx_teardown tx,
       tr_timings = tx_timings tx, tr_selected_transports = tx_transport_receipt tx\<rparr>)"

definition reserved_partitions :: "'t execution_transaction \<Rightarrow> logical_partition_id fset" where
  "reserved_partitions tx = (case tx_reservation tx of Some r \<Rightarrow> fmdom r | None \<Rightarrow> {||})"

definition release_all :: "'b backend_ops \<Rightarrow> logical_partition_id fset \<Rightarrow> 'b \<Rightarrow> 'b" where
  "release_all be ps s = foldl (\<lambda>s p. be_release be p s) s (sorted_list_of_fset ps)"

definition retire_all :: "'b backend_ops \<Rightarrow> transaction_failure \<Rightarrow> logical_partition_id fset \<Rightarrow> 'b \<Rightarrow> 'b" where
  "retire_all be failure ps s = foldl (\<lambda>s p. be_retire be p failure s) s (sorted_list_of_fset ps)"

definition finish_with_receipt ::
  "'t execution_transaction \<Rightarrow> 'b
   \<Rightarrow> (('e + 't transaction_receipt) \<times> 't execution_transaction \<times> 'b) option" where
  "finish_with_receipt tx s = (case tx_build_receipt tx of
     None \<Rightarrow> None
   | Some receipt \<Rightarrow> Some (Inr receipt, tx\<lparr>tx_receipt := Some receipt\<rparr>, s))"

text \<open>The transaction after a successful publication: released, summarised, decided.\<close>

definition tx_published ::
  "'b backend_ops \<Rightarrow> u64 \<Rightarrow> u64 \<Rightarrow> 'b \<Rightarrow> 't execution_transaction \<Rightarrow> 't execution_transaction" where
  "tx_published be ordinal nanos s tx =
     (let reserved = reserved_partitions tx;
          tx = tx\<lparr>tx_teardown := (tx_teardown tx)\<lparr>td_released_partitions :=
                   td_released_partitions (tx_teardown tx) |\<union>| reserved\<rparr>\<rparr>;
          tx = tx\<lparr>tx_publish_summary := Some \<lparr>ps_staged_bytes = be_staged_bytes be s,
                   ps_published_bytes = be_published_bytes be s, ps_atomic = True\<rparr>\<rparr>;
          tx = tx\<lparr>tx_decision := Some (DecisionCommitted ordinal)\<rparr>;
          tx = tx\<lparr>tx_state := Committed\<rparr>
      in tx\<lparr>tx_timings := (tx_timings tx)\<lparr>tt_finalize_nanos := nanos\<rparr>\<rparr>)"

text \<open>\<open>debug\<close> is the derived debug formatter of the backend error, which only fills the detail.\<close>

definition tx_commit ::
  "'b backend_ops \<Rightarrow> (backend_error \<Rightarrow> string) \<Rightarrow> u64 \<Rightarrow> u64 \<Rightarrow> 't execution_transaction \<Rightarrow> 'b
   \<Rightarrow> ((commit_error + 't transaction_receipt) \<times> 't execution_transaction \<times> 'b) option" where
  "tx_commit be debug ordinal nanos tx s =
     (if tx_state tx \<noteq> Executing then Some (Inl (CommitInvalidState (tx_state tx)), tx, s)
      else let tx = refresh_completed_events be s tx;
               missing = missing_boundary_refs tx in
      if missing \<noteq> {||} then Some (Inl (BoundaryNotReached missing), tx, s)
      else case be_publish be s of
        (Some e, s) \<Rightarrow> Some (Inl (PublishFailed e), tx_fail tx (PublishFailure (debug e)), s)
      | (None, s) \<Rightarrow>
          (let s = release_all be (reserved_partitions tx) s
           in finish_with_receipt (tx_published be ordinal nanos s tx) s))"

section \<open>Abort\<close>

definition staged_partitions :: "'t execution_transaction \<Rightarrow> logical_partition_id fset" where
  "staged_partitions tx = sw_partition |`| fmran (tx_staged_write_set tx)"

text \<open>The transaction after teardown, with the failure recorded.\<close>

definition tx_torn_down ::
  "transaction_failure \<Rightarrow> u64 \<Rightarrow> 't execution_transaction \<Rightarrow> 't execution_transaction" where
  "tx_torn_down failure nanos tx =
     (let staged = staged_partitions tx;
          reserved = reserved_partitions tx;
          tx = tx\<lparr>tx_teardown := (tx_teardown tx)\<lparr>td_retired_partitions :=
                   td_retired_partitions (tx_teardown tx) |\<union>| staged\<rparr>\<rparr>;
          tx = tx\<lparr>tx_teardown := (tx_teardown tx)\<lparr>td_released_partitions :=
                   td_released_partitions (tx_teardown tx) |\<union>| (reserved |-| staged)\<rparr>\<rparr>;
          tx = tx\<lparr>tx_failure := Some failure\<rparr>;
          tx = tx\<lparr>tx_state := Aborted failure\<rparr>;
          tx = tx\<lparr>tx_decision := Some (DecisionAborted failure)\<rparr>
      in tx\<lparr>tx_timings := (tx_timings tx)\<lparr>tt_finalize_nanos := nanos\<rparr>\<rparr>)"

definition tx_abort ::
  "'b backend_ops \<Rightarrow> string \<Rightarrow> u64 \<Rightarrow> 't execution_transaction \<Rightarrow> 'b
   \<Rightarrow> ((abort_error + 't transaction_receipt) \<times> 't execution_transaction \<times> 'b) option" where
  "tx_abort be reason nanos tx s =
     (case tx_state tx of
        Aborted _ \<Rightarrow> (case tx_receipt tx of None \<Rightarrow> None | Some receipt \<Rightarrow> Some (Inr receipt, tx, s))
      | Committed \<Rightarrow> Some (Inl AlreadyCommitted, tx, s)
      | _ \<Rightarrow>
          (let failure = (case tx_state tx of TxFailed failure \<Rightarrow> failure | _ \<Rightarrow> CancelledFailure reason);
               s = retire_all be failure (staged_partitions tx) s;
               s = release_all be (reserved_partitions tx |-| staged_partitions tx) s
           in finish_with_receipt (tx_torn_down failure nanos tx) s))"

end
