(* ===== verification/TxRuns.thy ===== *)
theory TxRuns
  imports Transaction
begin

text \<open>
  The runs of a transaction over a backend: the step relation whose steps are the public
  operations of \<open>ExecutionTransaction\<close> and the events the environment completes, the legal moves
  of its state machine, and the invariant every run keeps. The client half of the contract
  \<open>backend_contract\<close>.
\<close>

section \<open>Steps\<close>

inductive tx_step ::
  "'b backend_ops \<Rightarrow> (backend_error \<Rightarrow> string) \<Rightarrow> ('b \<Rightarrow> 'b \<Rightarrow> bool)
   \<Rightarrow> 't execution_transaction \<times> 'b \<Rightarrow> 't execution_transaction \<times> 'b \<Rightarrow> bool"
  for be debug environment where
  prepare: "tx_prepare be nanos tx s = Some (r, tx', s') \<Longrightarrow> tx_step be debug environment (tx, s) (tx', s')"
| execute: "tx_execute be nanos tx s = Some (r, tx', s') \<Longrightarrow> tx_step be debug environment (tx, s) (tx', s')"
| operation: "tx_execute_operation be op tx s = Some (r, tx', s') \<Longrightarrow> tx_step be debug environment (tx, s) (tx', s')"
| commit: "tx_commit be debug ordinal nanos tx s = Some (c, tx', s') \<Longrightarrow> tx_step be debug environment (tx, s) (tx', s')"
| abort: "tx_abort be reason nanos tx s = Some (a, tx', s') \<Longrightarrow> tx_step be debug environment (tx, s) (tx', s')"
| transport: "tx_step be debug environment (tx, s) (tx_with_transport_receipt tx t, s)"
| environment: "environment s s' \<Longrightarrow> tx_step be debug environment (tx, s) (tx, s')"

inductive_cases tx_stepE: "tx_step be debug environment (tx, s) (tx', s')"

section \<open>What execution leaves alone\<close>

definition tx_core :: "'t execution_transaction \<Rightarrow> bound_distributed_plan \<times> transaction_operation list \<times>
    commit_boundary \<times> (operation_ref, nat) fmap \<times> reservations option \<times> write_set" where
  "tx_core tx = (tx_bound_plan tx, tx_operations tx, tx_commit_boundary tx, tx_operation_keys tx,
     tx_reservation tx, tx_declared_write_set tx)"

definition tx_end :: "'t execution_transaction \<Rightarrow> transaction_decision option \<times> 't transaction_receipt option" where
  "tx_end tx = (tx_decision tx, tx_receipt tx)"

lemma tx_fail_core [simp]: "tx_core (tx_fail tx f) = tx_core tx" "tx_end (tx_fail tx f) = tx_end tx"
  "tx_staged_write_set (tx_fail tx f) = tx_staged_write_set tx"
  "tx_executed_operations (tx_fail tx f) = tx_executed_operations tx"
  "tx_completed_events (tx_fail tx f) = tx_completed_events tx"
  by (simp_all add: tx_fail_def tx_core_def tx_end_def)

lemma tx_fail_executing [simp]: "tx_state tx = Executing \<Longrightarrow> tx_state (tx_fail tx f) = TxFailed f"
  by (simp add: tx_fail_def)

lemma record_events_core [simp]: "tx_core (record_events be s op tx) = tx_core tx"
  "tx_end (record_events be s op tx) = tx_end tx"
  "tx_staged_write_set (record_events be s op tx) = tx_staged_write_set tx"
  "tx_executed_operations (record_events be s op tx) = tx_executed_operations tx"
  "tx_state (record_events be s op tx) = tx_state tx"
  by (simp_all add: record_events_def tx_core_def tx_end_def)

lemma refresh_core [simp]: "tx_core (refresh_completed_events be s tx) = tx_core tx"
  "tx_end (refresh_completed_events be s tx) = tx_end tx"
  "tx_staged_write_set (refresh_completed_events be s tx) = tx_staged_write_set tx"
  "tx_executed_operations (refresh_completed_events be s tx) = tx_executed_operations tx"
  "tx_state (refresh_completed_events be s tx) = tx_state tx"
proof -
  have "tx_core (foldl (\<lambda>tx op. record_events be s op tx) tx ops) = tx_core tx \<and>
     tx_end (foldl (\<lambda>tx op. record_events be s op tx) tx ops) = tx_end tx \<and>
     tx_staged_write_set (foldl (\<lambda>tx op. record_events be s op tx) tx ops) = tx_staged_write_set tx \<and>
     tx_executed_operations (foldl (\<lambda>tx op. record_events be s op tx) tx ops) = tx_executed_operations tx \<and>
     tx_state (foldl (\<lambda>tx op. record_events be s op tx) tx ops) = tx_state tx" for ops
    by (induction ops arbitrary: tx) simp_all
  then show "tx_core (refresh_completed_events be s tx) = tx_core tx"
    "tx_end (refresh_completed_events be s tx) = tx_end tx"
    "tx_staged_write_set (refresh_completed_events be s tx) = tx_staged_write_set tx"
    "tx_executed_operations (refresh_completed_events be s tx) = tx_executed_operations tx"
    "tx_state (refresh_completed_events be s tx) = tx_state tx"
    by (simp_all add: refresh_completed_events_def)
qed

lemma set_execute_nanos_core [simp]: "tx_core (set_execute_nanos n tx) = tx_core tx"
  "tx_end (set_execute_nanos n tx) = tx_end tx"
  "tx_staged_write_set (set_execute_nanos n tx) = tx_staged_write_set tx"
  "tx_executed_operations (set_execute_nanos n tx) = tx_executed_operations tx"
  "tx_state (set_execute_nanos n tx) = tx_state tx"
  by (simp_all add: set_execute_nanos_def tx_core_def tx_end_def)

lemma tx_core_operations: "tx_core tx = tx_core tx' \<Longrightarrow> tx_operations tx = tx_operations tx' \<and>
    tx_bound_plan tx = tx_bound_plan tx' \<and> tx_commit_boundary tx = tx_commit_boundary tx' \<and>
    tx_operation_keys tx = tx_operation_keys tx' \<and> tx_reservation tx = tx_reservation tx' \<and>
    tx_declared_write_set tx = tx_declared_write_set tx'"
  by (simp add: tx_core_def)

definition insert_writes :: "staged_write list \<Rightarrow> write_set \<Rightarrow> write_set" where
  "insert_writes ws m = foldl (\<lambda>m w. fmupd (sw_output_ref w) w m) m ws"

lemma insert_writes_simps [simp]:
  "insert_writes [] m = m" "insert_writes (w # ws) m = insert_writes ws (fmupd (sw_output_ref w) w m)"
  "insert_writes (ws @ ws') m = insert_writes ws' (insert_writes ws m)"
  by (simp_all add: insert_writes_def)

lemma fmran_updD: "w |\<in>| fmran (fmupd k v m) \<Longrightarrow> w = v \<or> w |\<in>| fmran m"
  by (auto simp: fmlookup_ran_iff split: if_splits)

lemma insert_writes_range: "w |\<in>| fmran (insert_writes ws m) \<Longrightarrow> w |\<in>| fmran m \<or> w \<in> set ws"
  by (induction ws arbitrary: m) (auto dest: fmran_updD)

lemma derive_declared_insert: "derive_declared_write_set ops = insert_writes (concat (map operation_staged_writes ops)) fmempty"
proof -
  have "foldl (\<lambda>writes operation. foldl (\<lambda>writes w. fmupd (sw_output_ref w) w writes) writes
       (operation_staged_writes operation)) m ops = insert_writes (concat (map operation_staged_writes ops)) m" for m
    by (induction ops arbitrary: m) (simp_all add: insert_writes_def)
  then show ?thesis by (simp add: derive_declared_write_set_def)
qed

text \<open>Staging the writes of one operation, without assuming anything of the backend.\<close>

lemma stage_writes_frame:
  assumes "stage_writes be ws tx s = (r, tx', s')" "tx_state tx = Executing"
  shows "tx_core tx' = tx_core tx \<and> tx_end tx' = tx_end tx \<and>
    tx_executed_operations tx' = tx_executed_operations tx \<and>
    tx_state tx' = (case r of None \<Rightarrow> Executing | Some e \<Rightarrow> TxFailed (BackendFailure e)) \<and>
    (\<exists>ws'. set ws' \<subseteq> set ws \<and> tx_staged_write_set tx' = insert_writes ws' (tx_staged_write_set tx) \<and>
       (r = None \<longrightarrow> ws' = ws))"
  using assms
proof (induction ws arbitrary: tx s)
  case Nil
  then show ?case by simp
next
  case (Cons w ws)
  show ?case
  proof (cases "be_stage_write be w s")
    case (Pair e s1)
    show ?thesis
    proof (cases e)
      case (Some e')
      with Pair Cons.prems show ?thesis by (auto intro!: exI[of _ "[]"])
    next
      case None
      let ?tx = "tx\<lparr>tx_staged_write_set := fmupd (sw_output_ref w) w (tx_staged_write_set tx)\<rparr>"
      have "stage_writes be ws ?tx s1 = (r, tx', s')" "tx_state ?tx = Executing"
        using Pair None Cons.prems by simp_all
      note ih = Cons.IH[OF this]
      have frame: "tx_core ?tx = tx_core tx" "tx_end ?tx = tx_end tx"
        by (simp_all add: tx_core_def tx_end_def)
      from ih obtain ws' where ws': "set ws' \<subseteq> set ws"
        "tx_staged_write_set tx' = insert_writes ws' (tx_staged_write_set ?tx)" "r = None \<longrightarrow> ws' = ws" by blast
      have "set (w # ws') \<subseteq> set (w # ws)" "tx_staged_write_set tx' = insert_writes (w # ws') (tx_staged_write_set tx)"
        "r = None \<longrightarrow> w # ws' = w # ws"
        using ws' by auto
      with ih frame show ?thesis by (intro conjI exI[of _ "w # ws'"]) simp_all
    qed
  qed
qed

definition executed_record :: "transaction_operation \<Rightarrow> executed_operation_record" where
  "executed_record op = \<lparr>eo_operation = op, eo_byte_count = operation_byte_count op\<rparr>"

definition snapshot_writes :: "transaction_operation list \<Rightarrow> staged_write set" where
  "snapshot_writes ops = set (concat (map operation_staged_writes ops))"

text \<open>What any stretch of execution does to the transaction: it keeps the accepted plan, stages
  only writes the plan declares, and records only operations of the plan.\<close>

definition exec_rel :: "'t execution_transaction \<Rightarrow> 't execution_transaction \<Rightarrow> bool" where
  "exec_rel tx tx' \<longleftrightarrow> tx_core tx' = tx_core tx \<and> tx_end tx' = tx_end tx \<and>
     (tx_state tx' = Executing \<or> (\<exists>e. tx_state tx' = TxFailed (BackendFailure e))) \<and>
     (\<exists>ws. set ws \<subseteq> snapshot_writes (tx_operations tx) \<and>
        tx_staged_write_set tx' = insert_writes ws (tx_staged_write_set tx)) \<and>
     (\<exists>ops. set ops \<subseteq> set (tx_operations tx) \<and>
        tx_executed_operations tx' = tx_executed_operations tx @ map executed_record ops)"

lemma exec_relI:
  assumes "tx_core tx' = tx_core tx" "tx_end tx' = tx_end tx"
    and "tx_state tx' = Executing \<or> (\<exists>e. tx_state tx' = TxFailed (BackendFailure e))"
    and "set ws \<subseteq> snapshot_writes (tx_operations tx)"
    and "tx_staged_write_set tx' = insert_writes ws (tx_staged_write_set tx)"
    and "set ops \<subseteq> set (tx_operations tx)"
    and "tx_executed_operations tx' = tx_executed_operations tx @ map executed_record ops"
  shows "exec_rel tx tx'"
  unfolding exec_rel_def using assms by blast

lemma exec_rel_refl: "tx_state tx = Executing \<Longrightarrow> exec_rel tx tx"
  by (rule exec_relI[where ws = "[]" and ops = "[]"]) simp_all

lemma exec_rel_trans:
  assumes "exec_rel tx tx1" "exec_rel tx1 tx2"
  shows "exec_rel tx tx2"
proof -
  have ops: "tx_operations tx1 = tx_operations tx"
    using assms(1) tx_core_operations unfolding exec_rel_def by blast
  obtain ws1 ws2 where ws:
    "set ws1 \<subseteq> snapshot_writes (tx_operations tx)" "tx_staged_write_set tx1 = insert_writes ws1 (tx_staged_write_set tx)"
    "set ws2 \<subseteq> snapshot_writes (tx_operations tx)" "tx_staged_write_set tx2 = insert_writes ws2 (tx_staged_write_set tx1)"
    using assms ops unfolding exec_rel_def by metis
  obtain os1 os2 where os:
    "set os1 \<subseteq> set (tx_operations tx)" "tx_executed_operations tx1 = tx_executed_operations tx @ map executed_record os1"
    "set os2 \<subseteq> set (tx_operations tx)" "tx_executed_operations tx2 = tx_executed_operations tx1 @ map executed_record os2"
    using assms ops unfolding exec_rel_def by metis
  show ?thesis
    by (rule exec_relI[where ws = "ws1 @ ws2" and ops = "os1 @ os2"])
      (use assms ws os in \<open>simp_all add: exec_rel_def\<close>)
qed

text \<open>One operation: it is refused and nothing changes, or it is an operation of the snapshot.\<close>

lemma execute_operation_cases:
  assumes "tx_execute_operation be op tx s = Some (r, tx', s')"
  obtains
    (refused) e where "tx' = tx" "s' = s" "r = Some e" "\<And>b. e \<noteq> ExecuteBackend b"
      "tx_state tx \<noteq> Executing \<or> e = OperationOutsideSnapshot (operation_ref_of op)"
  | (backend) e where "tx_state tx = Executing" "op \<in> set (tx_operations tx)"
      "be_run_operation be op s = (Some e, s')" "r = Some (ExecuteBackend e)" "tx' = tx_fail tx (BackendFailure e)"
  | (staging) e s1 where "tx_state tx = Executing" "op \<in> set (tx_operations tx)"
      "be_run_operation be op s = (None, s1)"
      "stage_writes be (operation_staged_writes op) tx s1 = (Some e, tx', s')" "r = Some (ExecuteBackend e)"
  | (ran) s1 tx1 where "tx_state tx = Executing" "op \<in> set (tx_operations tx)" "r = None"
      "be_run_operation be op s = (None, s1)"
      "stage_writes be (operation_staged_writes op) tx s1 = (None, tx1, s')"
      "tx' = record_events be s' op (tx1\<lparr>tx_executed_operations := tx_executed_operations tx1 @ [executed_record op]\<rparr>)"
proof (cases "tx_state tx = Executing")
  case False
  then show thesis using refused assms by (auto simp: tx_execute_operation_def)
next
  case st: True
  show thesis
  proof (cases "fmlookup (tx_operation_keys tx) (operation_ref_of op)")
    case None
    then show thesis using refused assms st by (auto simp: tx_execute_operation_def Let_def)
  next
    case (Some index)
    have idx: "index < length (tx_operations tx)"
      using assms st Some by (auto simp: tx_execute_operation_def Let_def split: if_splits)
    show thesis
    proof (cases "tx_operations tx ! index = op")
      case False
      then show thesis using refused assms st Some idx by (auto simp: tx_execute_operation_def Let_def)
    next
      case True
      then have mem: "op \<in> set (tx_operations tx)" using idx by auto
      obtain e1 s1 where run: "be_run_operation be op s = (e1, s1)" by fastforce
      obtain e2 tx2 s2 where stg: "stage_writes be (operation_staged_writes op) tx s1 = (e2, tx2, s2)"
        by (metis prod_cases3)
      have eq: "tx_execute_operation be op tx s =
          (case (e1, s1) of
             (Some e, s) \<Rightarrow> Some (Some (ExecuteBackend e), tx_fail tx (BackendFailure e), s)
           | (None, s) \<Rightarrow> (case stage_writes be (operation_staged_writes op) tx s of
               (Some e, tx, s) \<Rightarrow> Some (Some (ExecuteBackend e), tx, s)
             | (None, tx, s) \<Rightarrow>
                (let tx = tx\<lparr>tx_executed_operations := tx_executed_operations tx @
                   [\<lparr>eo_operation = op, eo_byte_count = operation_byte_count op\<rparr>]\<rparr>
                 in Some (None, record_events be s op tx, s))))"
        unfolding tx_execute_operation_def Let_def by (simp add: st Some idx True run)
      show thesis
      proof (cases e1)
        case (Some e)
        with assms eq have "r = Some (ExecuteBackend e)" "tx' = tx_fail tx (BackendFailure e)" "s' = s1" by simp_all
        with backend[OF st mem, of e] run Some show thesis by simp
      next
        case e1: None
        show thesis
        proof (cases e2)
          case (Some e)
          with assms eq e1 stg have "r = Some (ExecuteBackend e)" "tx' = tx2" "s' = s2" by simp_all
          with staging[OF st mem, of s1 e] run e1 stg Some show thesis by simp
        next
          case None
          with assms eq e1 stg have "r = None" "s' = s2"
            "tx' = record_events be s2 op (tx2\<lparr>tx_executed_operations := tx_executed_operations tx2 @ [executed_record op]\<rparr>)"
            by (auto simp: executed_record_def)
          with ran[OF st mem, of s1 tx2] run e1 stg None show thesis by simp
        qed
      qed
    qed
  qed
qed

lemma execute_operation_exec_rel:
  assumes "tx_execute_operation be op tx s = Some (r, tx', s')" "tx_state tx = Executing"
  shows "exec_rel tx tx' \<and> (tx' \<noteq> tx \<longrightarrow> op \<in> set (tx_operations tx)) \<and>
    (r = None \<longrightarrow> tx_state tx' = Executing \<and>
       tx_staged_write_set tx' = insert_writes (operation_staged_writes op) (tx_staged_write_set tx) \<and>
       tx_executed_operations tx' = tx_executed_operations tx @ [executed_record op])"
  using assms(1)
proof (cases rule: execute_operation_cases)
  case (refused e)
  with assms(2) show ?thesis by (simp add: exec_rel_refl)
next
  case (backend e)
  then have "exec_rel tx tx'" by (intro exec_relI[where ws = "[]" and ops = "[]"]) simp_all
  with backend show ?thesis by simp
next
  case (staging e s1)
  note fr = stage_writes_frame[OF staging(4,1)]
  then obtain ws where ws: "set ws \<subseteq> set (operation_staged_writes op)"
    "tx_staged_write_set tx' = insert_writes ws (tx_staged_write_set tx)" by blast
  then have "set ws \<subseteq> snapshot_writes (tx_operations tx)"
    using staging(2) by (auto simp: snapshot_writes_def)
  then have "exec_rel tx tx'"
    by (intro exec_relI[where ws = ws and ops = "[]"]) (use fr ws in simp_all)
  with staging show ?thesis by simp
next
  case (ran s1 tx1)
  note fr = stage_writes_frame[OF ran(5,1)]
  then have w: "tx_staged_write_set tx1 = insert_writes (operation_staged_writes op) (tx_staged_write_set tx)" by auto
  have sub: "set (operation_staged_writes op) \<subseteq> snapshot_writes (tx_operations tx)"
    using ran(2) by (auto simp: snapshot_writes_def)
  have core: "tx_core tx' = tx_core tx" "tx_end tx' = tx_end tx" "tx_state tx' = Executing"
    "tx_staged_write_set tx' = insert_writes (operation_staged_writes op) (tx_staged_write_set tx)"
    "tx_executed_operations tx' = tx_executed_operations tx @ map executed_record [op]"
    using fr w ran(6) by (simp_all add: tx_core_def tx_end_def record_events_def)
  have "exec_rel tx tx'"
    by (rule exec_relI[where ws = "operation_staged_writes op" and ops = "[op]"])
      (use core sub ran(2) in simp_all)
  with core ran(2) show ?thesis by simp
qed

lemma run_operations_exec_rel:
  assumes "run_operations be ops tx s = Some (r, tx', s')" "tx_state tx = Executing"
  shows "exec_rel tx tx' \<and> (r = None \<longrightarrow> tx_state tx' = Executing \<and>
    tx_staged_write_set tx' = insert_writes (concat (map operation_staged_writes ops)) (tx_staged_write_set tx) \<and>
    tx_executed_operations tx' = tx_executed_operations tx @ map executed_record ops)"
  using assms
proof (induction ops arbitrary: tx s)
  case Nil
  then show ?case by (simp add: exec_rel_refl)
next
  case (Cons op ops)
  obtain r1 tx1 s1 where op: "tx_execute_operation be op tx s = Some (r1, tx1, s1)"
    using Cons.prems(1) by (auto split: option.splits)
  note rel = execute_operation_exec_rel[OF op Cons.prems(2)]
  show ?case
  proof (cases r1)
    case None
    then have "run_operations be ops tx1 s1 = Some (r, tx', s')" using Cons.prems op by simp
    with None rel Cons.IH[of tx1 s1] show ?thesis by (auto intro: exec_rel_trans)
  next
    case (Some e)
    with Cons.prems op have "r = Some e" "tx1 = tx'" by simp_all
    with rel show ?thesis by simp
  qed
qed

section \<open>The views of the backend along a run\<close>

lemma retain_other_lookup:
  "fmlookup (retain_other_partitions p m) r =
     (case fmlookup m r of Some w \<Rightarrow> if sw_partition w = p then None else Some w | None \<Rightarrow> None)"
  by (auto simp: retain_other_partitions_def split: option.splits)

context backend_contract
begin

lemma stage_writes_views:
  assumes "stage_writes ops ws tx s = (r, tx', s')" "staged s = tx_staged_write_set tx"
  shows "staged s' = tx_staged_write_set tx' \<and> published s' = published s \<and> held s' = held s"
  using assms
proof (induction ws arbitrary: tx s)
  case Nil
  then show ?case by simp
next
  case (Cons w ws)
  obtain e s1 where w: "be_stage_write ops w s = (e, s1)" by fastforce
  show ?case
  proof (cases e)
    case (Some e')
    with Cons.prems w stage_err show ?thesis by auto
  next
    case None
    then have v: "staged s1 = fmupd (sw_output_ref w) w (staged s)" "published s1 = published s" "held s1 = held s"
      using stage_ok w by auto
    let ?tx = "tx\<lparr>tx_staged_write_set := fmupd (sw_output_ref w) w (tx_staged_write_set tx)\<rparr>"
    have "stage_writes ops ws ?tx s1 = (r, tx', s')" "staged s1 = tx_staged_write_set ?tx"
      using Cons.prems w None v by simp_all
    from Cons.IH[OF this] v show ?thesis by simp
  qed
qed

lemma execute_operation_views:
  assumes "tx_execute_operation ops op tx s = Some (r, tx', s')" "staged s = tx_staged_write_set tx"
  shows "staged s' = tx_staged_write_set tx' \<and> published s' = published s \<and> held s' = held s"
  using assms(1)
proof (cases rule: execute_operation_cases)
  case (refused e)
  with assms(2) show ?thesis by simp
next
  case (backend e)
  with run_frame[OF backend(3)] assms(2) show ?thesis by simp
next
  case (staging e s1)
  with run_frame[OF staging(3)] stage_writes_views[OF staging(4)] assms(2) show ?thesis by simp
next
  case (ran s1 tx1)
  with run_frame[OF ran(4)] stage_writes_views[OF ran(5)] assms(2) show ?thesis by simp
qed

lemma run_operations_views:
  assumes "run_operations ops os tx s = Some (r, tx', s')" "staged s = tx_staged_write_set tx"
  shows "staged s' = tx_staged_write_set tx' \<and> published s' = published s \<and> held s' = held s"
  using assms
proof (induction os arbitrary: tx s)
  case Nil
  then show ?case by simp
next
  case (Cons op os)
  obtain r1 tx1 s1 where op: "tx_execute_operation ops op tx s = Some (r1, tx1, s1)"
    using Cons.prems(1) by (auto split: option.splits)
  note v = execute_operation_views[OF op Cons.prems(2)]
  show ?case
    using Cons.prems op v Cons.IH[of tx1 s1] by (cases r1) auto
qed

lemma hold_reservations_views:
  assumes "hold_reservations ops items s = (r, s')" "staged s = fmempty"
  shows "published s' = published s \<and> staged s' = fmempty \<and>
    (r = None \<longrightarrow> held s' = held s |\<union>| fset_of_list (map fst items))"
  using assms
proof (induction items arbitrary: s)
  case Nil
  then show ?case by simp
next
  case (Cons item items)
  obtain p rec where item: "item = (p, rec)" by fastforce
  obtain e s1 where r: "be_reserve ops p rec s = (e, s1)" by fastforce
  show ?case
  proof (cases e)
    case (Some e')
    with Cons.prems item r reserve_published[OF r] reserve_err show ?thesis by auto
  next
    case None
    then have v: "published s1 = published s" "staged s1 = fmempty" "held s1 = finsert p (held s)"
      using reserve_published[OF r] reserve_ok[OF r[unfolded None]] Cons.prems(2) by auto
    have "hold_reservations ops items s1 = (r, s')" using Cons.prems item r None by simp
    from Cons.IH[OF this v(2)] v item show ?thesis by auto
  qed
qed

lemma release_all_views:
  "published (release_all ops ps s) = published s \<and> staged (release_all ops ps s) = staged s \<and>
   held (release_all ops ps s) = held s |-| ps"
proof -
  have "published (foldl (\<lambda>s p. be_release ops p s) s xs) = published s \<and>
    staged (foldl (\<lambda>s p. be_release ops p s) s xs) = staged s \<and>
    fset (held (foldl (\<lambda>s p. be_release ops p s) s xs)) = fset (held s) - set xs" for xs
    by (induction xs arbitrary: s) (auto simp: release_frame)
  from this[of "sorted_list_of_fset ps"] show ?thesis
    by (simp add: release_all_def flip: fset_inject)
qed

lemma retire_all_views:
  "published (retire_all ops f ps s) = published s \<and> held (retire_all ops f ps s) = held s |-| ps \<and>
   (\<forall>r w. fmlookup (staged (retire_all ops f ps s)) r = Some w \<longleftrightarrow>
      fmlookup (staged s) r = Some w \<and> sw_partition w |\<notin>| ps)"
proof -
  have "published (foldl (\<lambda>s p. be_retire ops p f s) s xs) = published s \<and>
    fset (held (foldl (\<lambda>s p. be_retire ops p f s) s xs)) = fset (held s) - set xs \<and>
    (\<forall>r w. fmlookup (staged (foldl (\<lambda>s p. be_retire ops p f s) s xs)) r = Some w \<longleftrightarrow>
      fmlookup (staged s) r = Some w \<and> sw_partition w \<notin> set xs)" for xs
    by (induction xs arbitrary: s) (auto simp: retire_frame retain_other_lookup split: option.splits if_splits)
  from this[of "sorted_list_of_fset ps"] show ?thesis
    by (simp add: retire_all_def flip: fset_inject)
qed

lemma retire_staged_partitions:
  "staged (retire_all ops f (sw_partition |`| fmran (staged s)) s) = fmempty"
proof (rule fmap_ext)
  fix r
  have "fmlookup (staged (retire_all ops f (sw_partition |`| fmran (staged s)) s)) r \<noteq> Some w" for w
    using retire_all_views[of f "sw_partition |`| fmran (staged s)" s] fmranI[of "staged s" r w] by auto
  then show "fmlookup (staged (retire_all ops f (sw_partition |`| fmran (staged s)) s)) r = fmlookup fmempty r"
    by (metis fmempty_lookup not_None_eq)
qed

end

section \<open>Prepare, commit and abort, case by case\<close>

lemma build_operation_keys_range:
  assumes "build_operation_keys i os m = Inr keys" "\<forall>k n. fmlookup m k = Some n \<longrightarrow> n < i"
  shows "\<forall>k n. fmlookup keys k = Some n \<longrightarrow> n < i + length os"
  using assms
proof (induction os arbitrary: i m)
  case Nil
  then show ?case by simp
next
  case (Cons op os)
  from Cons.prems have "build_operation_keys (Suc i) os (fmupd (operation_ref_of op) i m) = Inr keys"
    by (auto simp: Let_def split: if_splits)
  have range: "\<forall>k n. fmlookup (fmupd (operation_ref_of op) i m) k = Some n \<longrightarrow> n < Suc i"
    using Cons.prems(2) by (auto intro: less_SucI)
  from Cons.IH[OF \<open>build_operation_keys (Suc i) os (fmupd (operation_ref_of op) i m) = Inr keys\<close> range]
  show ?case by simp
qed

lemma prepare_checks_Inr:
  assumes "prepare_checks tx = Some (Inr (keys, reservation))"
  shows "\<exists>b. plan_bindings (tx_bound_plan tx) = Some b \<and>
    try_each_from 0 (check_topology (fmdom b)) (tx_operations tx) = None \<and>
    build_operation_keys 0 (tx_operations tx) fmempty = Inr keys \<and>
    check_boundary (tx_commit_boundary tx) (tx_operations tx) = None \<and>
    try_each_opt (check_admitted b) (sorted_list_of_fset (referenced_partitions (tx_operations tx))) = Some None \<and>
    reservation = derive_reservation (tx_operations tx) (referenced_partitions (tx_operations tx)) \<and>
    try_each_opt (check_budget b) (btree_items reservation) = Some None"
  using assms by (auto simp: prepare_checks_def Let_def split: option.splits sum.splits)

lemma prepare_cases:
  assumes "tx_prepare be nanos tx s = Some (r, tx', s')"
  obtains
    (refused) e where "r = Some e" "tx' = tx" "s' = s"
  | (backend) keys reservation e where "tx_state tx = TxNew" "r = Some (PrepareBackend e)" "tx' = tx"
      "prepare_checks tx = Some (Inr (keys, reservation))"
      "hold_reservations be (btree_items reservation) s = (Some e, s')"
  | (prepared) keys reservation where "tx_state tx = TxNew" "r = None"
      "prepare_checks tx = Some (Inr (keys, reservation))"
      "hold_reservations be (btree_items reservation) s = (None, s')"
      "tx' = tx\<lparr>tx_operation_keys := keys, tx_reservation := Some reservation,
         tx_declared_write_set := derive_declared_write_set (tx_operations tx),
         tx_timings := (tx_timings tx)\<lparr>tt_prepare_nanos := nanos\<rparr>, tx_state := Prepared\<rparr>"
  using assms unfolding tx_prepare_def
  by (auto split: if_splits option.splits sum.splits prod.splits)

lemma execute_cases:
  assumes "tx_execute be nanos tx s = Some (r, tx', s')"
  obtains
    (refused) "tx' = tx" "s' = s" "r = Some (ExecuteInvalidState (tx_state tx))" "tx_state tx \<noteq> Prepared"
  | (ran) tx1 where "tx_state tx = Prepared"
      "run_operations be (tx_operations tx) (tx\<lparr>tx_state := Executing\<rparr>) s = Some (r, tx1, s')"
      "tx' = set_execute_nanos nanos tx1"
  using assms unfolding tx_execute_def by (auto split: if_splits)

lemma finish_with_receipt_eq:
  assumes "tx_decision tx = Some d"
  obtains receipt where "finish_with_receipt tx s = Some (Inr receipt, tx\<lparr>tx_receipt := Some receipt\<rparr>, s)"
    "tr_decision receipt = d" "tr_executed_operations receipt = tx_executed_operations tx"
    "tr_declared_write_set receipt = tx_declared_write_set tx"
  using assms by (simp add: finish_with_receipt_def tx_build_receipt_def)

lemma tx_receipt_update [simp]:
  "tx_core (tx\<lparr>tx_receipt := r\<rparr>) = tx_core tx" "tx_end (tx\<lparr>tx_receipt := r\<rparr>) = (tx_decision tx, r)"
  by (simp_all add: tx_core_def tx_end_def)

lemma tx_published_views [simp]:
  "tx_core (tx_published be ordinal nanos s tx) = tx_core tx"
  "tx_state (tx_published be ordinal nanos s tx) = Committed"
  "tx_decision (tx_published be ordinal nanos s tx) = Some (DecisionCommitted ordinal)"
  "tx_staged_write_set (tx_published be ordinal nanos s tx) = tx_staged_write_set tx"
  "tx_executed_operations (tx_published be ordinal nanos s tx) = tx_executed_operations tx"
  "tx_completed_events (tx_published be ordinal nanos s tx) = tx_completed_events tx"
  by (simp_all add: tx_published_def Let_def tx_core_def)

lemma tx_torn_down_views [simp]:
  "tx_core (tx_torn_down f nanos tx) = tx_core tx"
  "tx_state (tx_torn_down f nanos tx) = Aborted f"
  "tx_decision (tx_torn_down f nanos tx) = Some (DecisionAborted f)"
  "tx_staged_write_set (tx_torn_down f nanos tx) = tx_staged_write_set tx"
  "tx_executed_operations (tx_torn_down f nanos tx) = tx_executed_operations tx"
  by (simp_all add: tx_torn_down_def Let_def tx_core_def)

lemma commit_cases:
  assumes "tx_commit be debug ordinal nanos tx s = Some (c, tx', s')"
  obtains
    (refused) "tx_state tx \<noteq> Executing" "c = Inl (CommitInvalidState (tx_state tx))" "tx' = tx" "s' = s"
  | (waiting) "tx_state tx = Executing" "tx' = refresh_completed_events be s tx" "s' = s"
      "missing_boundary_refs tx' \<noteq> {||}" "c = Inl (BoundaryNotReached (missing_boundary_refs tx'))"
  | (failed) e where "tx_state tx = Executing" "be_publish be s = (Some e, s')" "c = Inl (PublishFailed e)"
      "tx' = tx_fail (refresh_completed_events be s tx) (PublishFailure (debug e))"
  | (committed) s1 receipt where "tx_state tx = Executing" "be_publish be s = (None, s1)"
      "missing_boundary_refs (refresh_completed_events be s tx) = {||}"
      "s' = release_all be (reserved_partitions tx) s1" "c = Inr receipt" "tx_state tx' = Committed"
      "tx_core tx' = tx_core tx" "tx_staged_write_set tx' = tx_staged_write_set tx"
      "tx_executed_operations tx' = tx_executed_operations tx"
      "tx_completed_events tx' = tx_completed_events (refresh_completed_events be s tx)"
      "tx_end tx' = (Some (DecisionCommitted ordinal), Some receipt)"
      "tr_decision receipt = DecisionCommitted ordinal"
      "tr_executed_operations receipt = tx_executed_operations tx"
proof -
  let ?tx = "refresh_completed_events be s tx"
  have core: "tx_core ?tx = tx_core tx" by simp
  have res: "reserved_partitions ?tx = reserved_partitions tx"
    using tx_core_operations[OF core] by (simp add: reserved_partitions_def)
  consider "tx_state tx \<noteq> Executing" | "tx_state tx = Executing" "missing_boundary_refs ?tx \<noteq> {||}"
    | e s1 where "tx_state tx = Executing" "missing_boundary_refs ?tx = {||}" "be_publish be s = (Some e, s1)"
    | s1 where "tx_state tx = Executing" "missing_boundary_refs ?tx = {||}" "be_publish be s = (None, s1)"
    by (metis not_None_eq surj_pair)
  then show thesis
  proof cases
    case 1
    with assms have "c = Inl (CommitInvalidState (tx_state tx))" "tx' = tx" "s' = s"
      by (auto simp: tx_commit_def)
    with 1 show thesis by (intro refused)
  next
    case 2
    with assms have "c = Inl (BoundaryNotReached (missing_boundary_refs ?tx))" "tx' = ?tx" "s' = s"
      by (auto simp: tx_commit_def Let_def)
    with 2 show thesis by (intro waiting) simp_all
  next
    case (3 e s1)
    with assms have "c = Inl (PublishFailed e)" "tx' = tx_fail ?tx (PublishFailure (debug e))" "s' = s1"
      by (auto simp: tx_commit_def Let_def)
    with 3 show thesis by (intro failed) simp_all
  next
    case (4 s1)
    let ?s = "release_all be (reserved_partitions tx) s1"
    obtain receipt where r:
      "finish_with_receipt (tx_published be ordinal nanos ?s ?tx) ?s =
         Some (Inr receipt :: commit_error + _, (tx_published be ordinal nanos ?s ?tx)\<lparr>tx_receipt := Some receipt\<rparr>, ?s)"
      "tr_decision receipt = DecisionCommitted ordinal"
      "tr_executed_operations receipt = tx_executed_operations tx"
      using finish_with_receipt_eq[of "tx_published be ordinal nanos ?s ?tx" "DecisionCommitted ordinal" ?s] by auto
    have "c = Inr receipt" "tx' = (tx_published be ordinal nanos ?s ?tx)\<lparr>tx_receipt := Some receipt\<rparr>" "s' = ?s"
      using assms 4 r(1) by (auto simp: tx_commit_def Let_def res)
    with committed[OF 4(1,3,2), of receipt] r show thesis by simp
  qed
qed

lemma abort_cases:
  assumes "tx_abort be reason nanos tx s = Some (a, tx', s')"
  obtains
    (again) f receipt where "tx_state tx = Aborted f" "tx_receipt tx = Some receipt" "a = Inr receipt" "tx' = tx" "s' = s"
  | (refused) "tx_state tx = Committed" "a = Inl AlreadyCommitted" "tx' = tx" "s' = s"
  | (aborted) f receipt where "tx_state tx \<in> {TxNew, Prepared, Executing} \<and> f = CancelledFailure reason \<or> tx_state tx = TxFailed f"
      "s' = release_all be (reserved_partitions tx |-| staged_partitions tx)
         (retire_all be f (staged_partitions tx) s)"
      "a = Inr receipt" "tx_state tx' = Aborted f" "tx_core tx' = tx_core tx"
      "tx_staged_write_set tx' = tx_staged_write_set tx"
      "tx_executed_operations tx' = tx_executed_operations tx"
      "tx_end tx' = (Some (DecisionAborted f), Some receipt)"
      "tr_decision receipt = DecisionAborted f"
proof -
  consider f where "tx_state tx = Aborted f" | "tx_state tx = Committed"
    | f where "tx_state tx \<in> {TxNew, Prepared, Executing} \<and> f = CancelledFailure reason \<or> tx_state tx = TxFailed f"
    by (cases "tx_state tx") auto
  then show thesis
  proof cases
    case (1 f)
    with assms obtain receipt where "tx_receipt tx = Some receipt" "a = Inr receipt" "tx' = tx" "s' = s"
      by (auto simp: tx_abort_def split: option.splits)
    with 1 show thesis by (rule again)
  next
    case 2
    with assms have "a = Inl AlreadyCommitted" "tx' = tx" "s' = s" by (auto simp: tx_abort_def)
    with 2 show thesis by (intro refused)
  next
    case (3 f)
    let ?s = "release_all be (reserved_partitions tx |-| staged_partitions tx) (retire_all be f (staged_partitions tx) s)"
    obtain receipt where r:
      "finish_with_receipt (tx_torn_down f nanos tx) ?s =
         Some (Inr receipt :: abort_error + _, (tx_torn_down f nanos tx)\<lparr>tx_receipt := Some receipt\<rparr>, ?s)"
      "tr_decision receipt = DecisionAborted f"
      using finish_with_receipt_eq[of "tx_torn_down f nanos tx" "DecisionAborted f" ?s] by auto
    have "tx_abort be reason nanos tx s = finish_with_receipt (tx_torn_down f nanos tx) ?s"
      using 3 by (auto simp: tx_abort_def Let_def)
    then have "a = Inr receipt" "tx' = (tx_torn_down f nanos tx)\<lparr>tx_receipt := Some receipt\<rparr>" "s' = ?s"
      using assms r(1) by auto
    with aborted[OF 3, of receipt] r show thesis by simp
  qed
qed

section \<open>The invariant of a run\<close>

text \<open>The facts that hold in every state: the plan stays executable, only declared writes are staged,
  only operations of the plan are recorded, and a reservation is the one derived from the plan.\<close>

definition tx_static :: "'t execution_transaction \<Rightarrow> bool" where
  "tx_static tx \<longleftrightarrow> plan_bindings (tx_bound_plan tx) \<noteq> None \<and>
     (\<forall>k n. fmlookup (tx_operation_keys tx) k = Some n \<longrightarrow> n < length (tx_operations tx)) \<and>
     fset (fmran (tx_staged_write_set tx)) \<subseteq> snapshot_writes (tx_operations tx) \<and>
     set (tx_executed_operations tx) \<subseteq> executed_record ` set (tx_operations tx) \<and>
     (\<forall>r. tx_reservation tx = Some r \<longrightarrow>
        r = derive_reservation (tx_operations tx) (referenced_partitions (tx_operations tx)) \<and>
        tx_declared_write_set tx = derive_declared_write_set (tx_operations tx))"

text \<open>What the backend holds in each state, in terms of its three views.\<close>

definition tx_backend ::
  "write_set \<Rightarrow> write_set \<Rightarrow> logical_partition_id fset \<Rightarrow> write_set \<Rightarrow> 't execution_transaction \<Rightarrow> bool" where
  "tx_backend pub staged held pub0 tx \<longleftrightarrow> (case tx_state tx of
     TxNew \<Rightarrow> pub = pub0 \<and> staged = fmempty \<and> tx_staged_write_set tx = fmempty \<and>
       tx_executed_operations tx = [] \<and> tx_reservation tx = None
   | Prepared \<Rightarrow> pub = pub0 \<and> staged = fmempty \<and> tx_staged_write_set tx = fmempty \<and>
       tx_executed_operations tx = [] \<and> tx_reservation tx \<noteq> None \<and> reserved_partitions tx |\<subseteq>| held
   | Executing \<Rightarrow> pub = pub0 \<and> staged = tx_staged_write_set tx \<and> tx_reservation tx \<noteq> None \<and>
       reserved_partitions tx |\<subseteq>| held
   | TxFailed _ \<Rightarrow> pub = pub0 \<and> staged = tx_staged_write_set tx \<and> tx_reservation tx \<noteq> None \<and>
       reserved_partitions tx |\<subseteq>| held
   | Committed \<Rightarrow> pub = tx_staged_write_set tx \<and> tx_reservation tx \<noteq> None \<and>
       reserved_partitions tx |\<inter>| held = {||} \<and>
       (\<exists>n receipt. tx_end tx = (Some (DecisionCommitted n), Some receipt))
   | Aborted f \<Rightarrow> pub = pub0 \<and> staged = fmempty \<and> reserved_partitions tx |\<inter>| held = {||} \<and>
       (\<exists>receipt. tx_end tx = (Some (DecisionAborted f), Some receipt)))"

lemma reserved_partitions_core: "tx_core tx' = tx_core tx \<Longrightarrow> reserved_partitions tx' = reserved_partitions tx"
  using tx_core_operations by (fastforce simp: reserved_partitions_def)

lemma exec_rel_static:
  assumes "exec_rel tx tx'" "tx_static tx"
  shows "tx_static tx'"
proof -
  obtain ws os where w: "set ws \<subseteq> snapshot_writes (tx_operations tx)"
    "tx_staged_write_set tx' = insert_writes ws (tx_staged_write_set tx)"
    "set os \<subseteq> set (tx_operations tx)"
    "tx_executed_operations tx' = tx_executed_operations tx @ map executed_record os"
    and core: "tx_core tx' = tx_core tx"
    using assms(1) unfolding exec_rel_def by blast
  have "fset (fmran (tx_staged_write_set tx')) \<subseteq> snapshot_writes (tx_operations tx)"
    using w(1,2) assms(2) unfolding tx_static_def by (auto dest!: insert_writes_range)
  moreover have "set (tx_executed_operations tx') \<subseteq> executed_record ` set (tx_operations tx)"
    using w(3,4) assms(2) unfolding tx_static_def by auto
  ultimately show ?thesis
    using assms(2) tx_core_operations[OF core] unfolding tx_static_def by simp
qed

lemma core_static:
  assumes "tx_core tx' = tx_core tx" "tx_staged_write_set tx' = tx_staged_write_set tx"
    "tx_executed_operations tx' = tx_executed_operations tx"
  shows "tx_static tx' = tx_static tx"
  using assms tx_core_operations[OF assms(1)] unfolding tx_static_def by simp

lemma core_backend:
  assumes "tx_core tx' = tx_core tx" "tx_staged_write_set tx' = tx_staged_write_set tx"
    "tx_executed_operations tx' = tx_executed_operations tx" "tx_end tx' = tx_end tx" "tx_state tx' = tx_state tx"
  shows "tx_backend p st h p0 tx' = tx_backend p st h p0 tx"
  using assms tx_core_operations[OF assms(1)] reserved_partitions_core[OF assms(1)]
  unfolding tx_backend_def by (cases "tx_state tx") simp_all

context backend_contract
begin

abbreviation inv :: "write_set \<Rightarrow> 't execution_transaction \<Rightarrow> 'b \<Rightarrow> bool" where
  "inv pub0 tx s \<equiv> tx_static tx \<and> tx_backend (published s) (staged s) (held s) pub0 tx"

lemma exec_rel_inv:
  assumes "exec_rel tx tx'" "tx_static tx" "tx_state tx = Executing" "tx_backend (published s) (staged s) (held s) pub0 tx"
    "staged s' = tx_staged_write_set tx' \<and> published s' = published s \<and> held s' = held s"
  shows "inv pub0 tx' s'"
proof -
  have core: "tx_core tx' = tx_core tx"
    and st: "tx_state tx' = Executing \<or> (\<exists>e. tx_state tx' = TxFailed (BackendFailure e))"
    using assms(1) unfolding exec_rel_def by auto
  have "tx_backend (published s') (staged s') (held s') pub0 tx'"
    using st assms(3-5) reserved_partitions_core[OF core] tx_core_operations[OF core]
    unfolding tx_backend_def by (elim disjE exE) simp_all
  then show ?thesis using exec_rel_static[OF assms(1,2)] by simp
qed

lemma prepare_inv:
  assumes "tx_prepare ops nanos tx s = Some (r, tx', s')" "inv pub0 tx s"
  shows "inv pub0 tx' s'"
  using assms(1)
proof (cases rule: prepare_cases)
  case (refused e)
  with assms(2) show ?thesis by simp
next
  case (backend keys reservation e)
  have "staged s = fmempty" using assms(2) backend(1) by (simp add: tx_backend_def)
  from hold_reservations_views[OF backend(5) this] show ?thesis
    using assms(2) backend(1,3) by (simp add: tx_backend_def)
next
  case (prepared keys reservation)
  have "staged s = fmempty" using assms(2) prepared(1) by (simp add: tx_backend_def)
  note v = hold_reservations_views[OF prepared(4) this]
  note checks = prepare_checks_Inr[OF prepared(3)]
  then have range: "\<forall>k n. fmlookup keys k = Some n \<longrightarrow> n < length (tx_operations tx)"
    using build_operation_keys_range[of 0 "tx_operations tx" fmempty keys] by auto
  have res: "reservation = derive_reservation (tx_operations tx) (referenced_partitions (tx_operations tx))"
    using checks by blast
  have "fset_of_list (map fst (btree_items reservation)) = fmdom reservation"
    by (simp add: fset_inject[symmetric] fset_of_list.rep_eq del: fset_of_list_map)
  then have "tx_backend (published s') (staged s') (held s') pub0 tx'"
    using v assms(2) prepared(1,2,5)
    by (simp add: tx_backend_def reserved_partitions_def less_eq_fset.rep_eq)
  moreover have "tx_static tx'"
    using assms(2) range res prepared(5) by (simp add: tx_static_def)
  ultimately show ?thesis by simp
qed

lemma execute_operation_inv:
  assumes "tx_execute_operation ops op tx s = Some (r, tx', s')" "inv pub0 tx s"
  shows "inv pub0 tx' s'"
proof (cases "tx_state tx = Executing")
  case True
  then have "staged s = tx_staged_write_set tx" using assms(2) by (simp add: tx_backend_def)
  then show ?thesis
    using exec_rel_inv execute_operation_exec_rel[OF assms(1) True] execute_operation_views[OF assms(1)]
      assms(2) True by blast
next
  case False
  with assms show ?thesis by (auto simp: tx_execute_operation_def)
qed

lemma execute_inv:
  assumes "tx_execute ops nanos tx s = Some (r, tx', s')" "inv pub0 tx s"
  shows "inv pub0 tx' s'"
  using assms(1)
proof (cases rule: execute_cases)
  case refused
  with assms(2) show ?thesis by simp
next
  case (ran tx1)
  let ?tx = "tx\<lparr>tx_state := Executing\<rparr>"
  have core: "tx_core ?tx = tx_core tx" by (simp add: tx_core_def)
  have e: "tx_static ?tx" "tx_backend (published s) (staged s) (held s) pub0 ?tx"
    using assms(2) ran(1) core_static[OF core] reserved_partitions_core[OF core]
    by (simp_all add: tx_backend_def)
  then have "staged s = tx_staged_write_set ?tx" by (simp add: tx_backend_def)
  then have "inv pub0 tx1 s'"
    using exec_rel_inv[OF conjunct1[OF run_operations_exec_rel[OF ran(2)]] e(1) _ e(2)]
      run_operations_views[OF ran(2)] by simp
  moreover have "tx_core tx' = tx_core tx1" "tx_state tx' = tx_state tx1" "tx_end tx' = tx_end tx1"
    "tx_staged_write_set tx' = tx_staged_write_set tx1" "tx_executed_operations tx' = tx_executed_operations tx1"
    using ran(3) by simp_all
  ultimately show ?thesis using core_static[of tx' tx1] core_backend[of tx' tx1] by simp
qed

lemma commit_inv:
  assumes "tx_commit ops debug ordinal nanos tx s = Some (c, tx', s')" "inv pub0 tx s"
  shows "inv pub0 tx' s'"
  using assms(1)
proof (cases rule: commit_cases)
  case refused
  with assms(2) show ?thesis by simp
next
  case waiting
  then have "tx_core tx' = tx_core tx" by simp
  with waiting assms(2) core_static[of tx' tx] reserved_partitions_core[of tx' tx] tx_core_operations[of tx' tx]
  show ?thesis by (simp add: tx_backend_def)
next
  case (failed e)
  then have "tx_core tx' = tx_core tx" "tx_state tx' = TxFailed (PublishFailure (debug e))" by simp_all
  with failed assms(2) core_static[of tx' tx] reserved_partitions_core[of tx' tx] tx_core_operations[of tx' tx]
    publish_err[OF failed(2)]
  show ?thesis by (simp add: tx_backend_def)
next
  case (committed s1 receipt)
  have "tx_static tx'" using assms(2) core_static[OF committed(7-9)] by simp
  moreover have "published s' = tx_staged_write_set tx" "reserved_partitions tx |\<inter>| held s' = {||}"
    using publish_ok[OF committed(2)] release_all_views[of "reserved_partitions tx" s1] assms(2) committed(1,4)
    by (auto simp: tx_backend_def)
  ultimately show ?thesis
    using committed(1,6,8,11) assms(2) reserved_partitions_core[OF committed(7)] tx_core_operations[OF committed(7)]
    by (simp add: tx_backend_def)
qed

lemma abort_inv:
  assumes "tx_abort ops reason nanos tx s = Some (a, tx', s')" "inv pub0 tx s"
  shows "inv pub0 tx' s'"
  using assms(1)
proof (cases rule: abort_cases)
  case (again f receipt)
  with assms(2) show ?thesis by simp
next
  case refused
  with assms(2) show ?thesis by simp
next
  case (aborted f receipt)
  have live: "published s = pub0 \<and> staged s = tx_staged_write_set tx"
    using aborted(1) assms(2) by (auto simp: tx_backend_def)
  have "staged (retire_all ops f (staged_partitions tx) s) = fmempty"
    using retire_staged_partitions[of f s] live by (simp add: staged_partitions_def)
  then have "published s' = pub0" "staged s' = fmempty"
    "held s' = held s |-| staged_partitions tx |-| (reserved_partitions tx |-| staged_partitions tx)"
    using aborted(2) live retire_all_views[of f "staged_partitions tx" s] by (simp_all add: release_all_views)
  then show ?thesis
    using aborted(4-8) assms(2) core_static[OF aborted(5-7)] reserved_partitions_core[OF aborted(5)]
    by (auto simp: tx_backend_def)
qed

lemma step_inv:
  assumes step: "tx_step ops debug environment (tx, s) (tx', s')" and inv: "inv pub0 tx s"
    and env: "\<And>s s'. environment s s' \<Longrightarrow> published s' = published s \<and> staged s' = staged s \<and> held s' = held s"
  shows "inv pub0 tx' s'"
  using step
proof (cases rule: tx_step.cases)
  case (transport t)
  have "tx_static (tx_with_transport_receipt tx t) = tx_static tx"
    by (rule core_static) (simp_all add: tx_with_transport_receipt_def tx_core_def)
  then show ?thesis using transport inv
    by (simp add: tx_backend_def tx_with_transport_receipt_def reserved_partitions_def tx_end_def
        split: transaction_state.splits)
next
  case environment
  with env[of s s'] inv show ?thesis by simp
next
  case (prepare nanos r)
  then show ?thesis using inv by (rule prepare_inv)
next
  case (execute nanos r)
  then show ?thesis using inv by (rule execute_inv)
next
  case (operation op r)
  then show ?thesis using inv by (rule execute_operation_inv)
next
  case (commit ordinal nanos c)
  then show ?thesis using inv by (rule commit_inv)
next
  case (abort reason nanos a)
  then show ?thesis using inv by (rule abort_inv)
qed

lemma run_inv:
  assumes "(tx_step ops debug environment)\<^sup>*\<^sup>* (tx, s) (tx', s')" "inv pub0 tx s"
    and "\<And>s s'. environment s s' \<Longrightarrow> published s' = published s \<and> staged s' = staged s \<and> held s' = held s"
  shows "inv pub0 tx' s'"
  using assms(1)
proof (induction rule: rtranclp_induct2)
  case refl
  show ?case by (rule assms(2))
next
  case (step tx1 s1 tx2 s2)
  from step_inv[OF step.hyps(2) step.IH assms(3)] show ?case by blast
qed

end

lemma tx_new_initial:
  assumes "tx_new i plan operations boundary = Inr tx"
  shows "tx_static tx \<and> tx_state tx = TxNew \<and> tx_operations tx = operations \<and> tx_commit_boundary tx = boundary \<and>
    tx_bound_plan tx = plan \<and> tx_backend pub0 fmempty h pub0 tx"
  using assms
  by (auto simp: tx_new_def tx_static_def tx_backend_def plan_bindings_def plan_is_degenerate_def
      split: if_splits bound_plan_kind.splits)

end
