(* ===== verification/TxProps.thy ===== *)
theory TxProps
  imports TxRuns
begin

text \<open>
  The properties of a transaction, for every accepted plan and every sequence of calls: the legal
  moves of the state machine, atomic publication, the commit gate, the admitted budgets, abort,
  and freedom from panics, on the two backends of the crate.
\<close>

section \<open>The state machine\<close>

definition legal_move :: "transaction_state \<Rightarrow> transaction_state \<Rightarrow> bool" where
  "legal_move a b \<longleftrightarrow> a = b \<or> (a = TxNew \<and> b = Prepared) \<or> (a = Prepared \<and> b = Executing) \<or>
     (a \<in> {Prepared, Executing} \<and> (\<exists>f. b = TxFailed f)) \<or> (a = Executing \<and> b = Committed) \<or>
     (a \<in> {TxNew, Prepared, Executing} \<and> (\<exists>reason. b = Aborted (CancelledFailure reason))) \<or>
     (\<exists>f. a = TxFailed f \<and> b = Aborted f)"

definition tx_plan ::
  "'t execution_transaction \<Rightarrow> bound_distributed_plan \<times> transaction_operation list \<times> commit_boundary" where
  "tx_plan tx = (tx_bound_plan tx, tx_operations tx, tx_commit_boundary tx)"

lemma tx_core_plan: "tx_core tx' = tx_core tx \<Longrightarrow> tx_plan tx' = tx_plan tx"
  by (simp add: tx_core_def tx_plan_def)

lemma step_legal:
  assumes "tx_step be debug environment (tx, s) (tx', s')"
  shows "legal_move (tx_state tx) (tx_state tx') \<and> tx_plan tx' = tx_plan tx"
  using assms
proof (cases rule: tx_step.cases)
  case (prepare nanos r)
  then show ?thesis by (cases rule: prepare_cases) (simp_all add: legal_move_def tx_plan_def)
next
  case (execute nanos r)
  then show ?thesis
  proof (cases rule: execute_cases)
    case (ran tx1)
    have rel: "exec_rel (tx\<lparr>tx_state := Executing\<rparr>) tx1"
      using run_operations_exec_rel[OF ran(2)] by simp
    then have "tx_core tx1 = tx_core (tx\<lparr>tx_state := Executing\<rparr>)" by (simp add: exec_rel_def)
    then have "tx_plan tx' = tx_plan tx" using ran(3) by (simp add: tx_core_def tx_plan_def set_execute_nanos_def)
    with rel ran show ?thesis by (auto simp: exec_rel_def legal_move_def)
  qed (simp add: legal_move_def)
next
  case (operation op r)
  show ?thesis
  proof (cases "tx_state tx = Executing")
    case True
    have "exec_rel tx tx'" using execute_operation_exec_rel[OF operation True] by blast
    then have "tx_core tx' = tx_core tx" "tx_state tx' = Executing \<or> (\<exists>e. tx_state tx' = TxFailed (BackendFailure e))"
      unfolding exec_rel_def by blast+
    with True show ?thesis unfolding legal_move_def using tx_core_plan by auto
  next
    case False
    with operation show ?thesis by (auto simp: tx_execute_operation_def legal_move_def)
  qed
next
  case (commit ordinal nanos c)
  then show ?thesis
  proof (cases rule: commit_cases)
    case (committed s1 receipt)
    then show ?thesis using tx_core_plan[of tx' tx] by (simp add: legal_move_def)
  next
    case waiting
    then have "tx_core tx' = tx_core tx" by simp
    then show ?thesis using waiting tx_core_plan[of tx' tx] by (simp add: legal_move_def)
  next
    case (failed e)
    then have "tx_core tx' = tx_core tx" by simp
    then show ?thesis using failed tx_core_plan[of tx' tx] by (simp add: legal_move_def)
  qed (simp_all add: legal_move_def)
next
  case (abort reason nanos a)
  then show ?thesis
  proof (cases rule: abort_cases)
    case (aborted f receipt)
    then show ?thesis using tx_core_plan[of tx' tx] by (elim disjE) (simp_all add: legal_move_def)
  qed (simp_all add: legal_move_def)
next
  case (transport t)
  then show ?thesis by (simp add: legal_move_def tx_plan_def tx_with_transport_receipt_def)
next
  case environment
  then show ?thesis by (simp add: legal_move_def)
qed

text \<open>C6: over any backend whatsoever, every call moves the state machine only along
  \<open>New \<rightarrow> Prepared \<rightarrow> Executing \<rightarrow> Committed | Failed\<close> and \<open>New | Prepared | Executing | Failed \<rightarrow> Aborted\<close>,
  an abort of a failed transaction keeps its failure, the two final states are never left, and
  the bound plan, the accepted operations and the commit boundary never change.\<close>

theorem transaction_moves_legal:
  assumes "tx_step be debug environment (tx, s) (tx', s')"
  shows "legal_move (tx_state tx) (tx_state tx') \<and> tx_plan tx' = tx_plan tx"
  using assms by (rule step_legal)

section \<open>The commit gate\<close>

lemma find_first_exists: "find P xs = Some x \<Longrightarrow> x \<in> set xs \<and> P x"
  by (rule find_SomeD)

lemma boundary_reached:
  assumes "missing_boundary_refs tx = {||}"
  shows "b |\<in>| cb_barriers (tx_commit_boundary tx) \<Longrightarrow>
      \<exists>ps. Barrier b ps \<in> set (tx_operations tx) \<and> (\<forall>p |\<in>| ps. BarrierCompleted p b |\<in>| tx_completed_events tx)"
    and "l |\<in>| cb_launches (tx_commit_boundary tx) \<Longrightarrow>
      \<exists>p n. Launch p l n \<in> set (tx_operations tx) \<and> LaunchCompleted p l |\<in>| tx_completed_events tx"
proof -
  have none: "\<forall>b |\<in>| cb_barriers (tx_commit_boundary tx). \<not> barrier_missing tx b"
    "\<forall>l |\<in>| cb_launches (tx_commit_boundary tx). \<not> launch_missing tx l"
    using assms by (auto simp: missing_boundary_refs_def)
  {
    assume "b |\<in>| cb_barriers (tx_commit_boundary tx)"
    with none(1) obtain op where op: "find (is_barrier_op b) (tx_operations tx) = Some op"
      "\<forall>p |\<in>| operation_partitions op. BarrierCompleted p b |\<in>| tx_completed_events tx"
      by (auto simp: barrier_missing_def list_ex_iff split: option.splits)
    from find_SomeD[OF op(1)] op(2) show "\<exists>ps. Barrier b ps \<in> set (tx_operations tx) \<and>
        (\<forall>p |\<in>| ps. BarrierCompleted p b |\<in>| tx_completed_events tx)"
      by (cases op) auto
  }
  {
    assume "l |\<in>| cb_launches (tx_commit_boundary tx)"
    with none(2) obtain op where op: "find (is_launch_op l) (tx_operations tx) = Some op"
      "\<forall>p |\<in>| operation_partitions op. LaunchCompleted p l |\<in>| tx_completed_events tx"
      by (auto simp: launch_missing_def list_ex_iff split: option.splits)
    from find_SomeD[OF op(1)] op(2) show "\<exists>p n. Launch p l n \<in> set (tx_operations tx) \<and>
        LaunchCompleted p l |\<in>| tx_completed_events tx"
      by (cases op) auto
  }
qed


section \<open>Admitted budgets\<close>

lemma referenced_partitions_iff:
  "p |\<in>| referenced_partitions os \<longleftrightarrow> (\<exists>op \<in> set os. p |\<in>| operation_partitions op)"
  by (simp add: referenced_partitions_def fset_of_list.rep_eq)

lemma check_topology_None_iff:
  "check_topology declared i op = None \<longleftrightarrow> operation_partitions op |\<subseteq>| declared"
  by (auto simp: check_topology_def find_None_iff fsubset_iff)

lemma topology_declared:
  assumes "try_each_from 0 (check_topology declared) os = None"
  shows "referenced_partitions os |\<subseteq>| declared"
proof -
  have "\<forall>op \<in> set os. operation_partitions op |\<subseteq>| declared"
    using assms unfolding try_each_from_None_iff check_topology_None_iff by (metis add_0 in_set_conv_nth)
  then show ?thesis by (auto simp: fsubset_iff referenced_partitions_iff)
qed

lemma check_admitted_declared:
  assumes "p |\<in>| fmdom b"
  shows "\<exists>x. fmlookup b p = Some x \<and>
    check_admitted b p = Some (if pb_virtual_partition x = None then Some (MissingAdmittedBudget p) else None)"
  using assms by (auto simp: check_admitted_def fmlookup_dom_iff)

lemma check_admitted_total:
  assumes "ps |\<subseteq>| fmdom b"
  shows "\<exists>r. try_each_opt (check_admitted b) (sorted_list_of_fset ps) = Some r \<and>
    (r = None \<longrightarrow> (\<forall>p |\<in>| ps. \<exists>x vp. fmlookup b p = Some x \<and> pb_virtual_partition x = Some vp))"
proof -
  let ?g = "\<lambda>p. if pb_virtual_partition (the (fmlookup b p)) = None then Some (MissingAdmittedBudget p) else None"
  have all: "\<forall>p \<in> set (sorted_list_of_fset ps). check_admitted b p = Some (?g p)"
    using assms check_admitted_declared[of _ b] by (fastforce simp: fsubset_iff)
  have "\<exists>x vp. fmlookup b p = Some x \<and> pb_virtual_partition x = Some vp"
    if none: "try_each ?g (sorted_list_of_fset ps) = None" and mem: "p |\<in>| ps" for p
  proof -
    obtain x where "fmlookup b p = Some x" using assms mem by (auto simp: fsubset_iff fmlookup_dom_iff)
    moreover have "?g p = None" using none mem by (simp add: try_each_None_iff)
    ultimately show ?thesis by (auto split: if_splits)
  qed
  then show ?thesis using try_each_opt_total[OF all] by blast
qed

text \<open>The test one reservation has to pass.\<close>

definition within_budget :: "virtual_device_partition \<Rightarrow> reservation_record \<Rightarrow> bool" where
  "within_budget vp r \<longleftrightarrow> class_six_bytes r \<le> transfer_staging_bytes (vp_ledger vp) \<and>
     class_three_bytes r \<le> activation_scratch_bytes (vp_ledger vp)"

lemma check_budget_admitted:
  assumes "fmlookup b p = Some x" "pb_virtual_partition x = Some vp"
  shows "\<exists>e. check_budget b (p, r) = Some e \<and> (e = None \<longleftrightarrow> within_budget vp r)"
  using assms by (auto simp: check_budget_def Let_def within_budget_def not_less)

lemma check_budget_total:
  assumes "\<forall>p |\<in>| fmdom res. \<exists>x vp. fmlookup b p = Some x \<and> pb_virtual_partition x = Some vp"
  shows "\<exists>e. try_each_opt (check_budget b) (btree_items res) = Some e \<and>
    (e = None \<longrightarrow> (\<forall>p r. fmlookup res p = Some r \<longrightarrow>
       (\<exists>x vp. fmlookup b p = Some x \<and> pb_virtual_partition x = Some vp \<and> within_budget vp r)))"
proof -
  have all: "\<forall>item \<in> set (btree_items res). check_budget b item = Some (the (check_budget b item))"
  proof
    fix item assume "item \<in> set (btree_items res)"
    then have "fmlookup res (fst item) = Some (snd item)" using set_btree_items[of "fst item" "snd item" res] by simp
    then obtain x vp where "fmlookup b (fst item) = Some x" "pb_virtual_partition x = Some vp"
      using assms fmdomI by metis
    from check_budget_admitted[OF this, of "snd item"]
    show "check_budget b item = Some (the (check_budget b item))" by auto
  qed
  have "\<exists>x vp. fmlookup b p = Some x \<and> pb_virtual_partition x = Some vp \<and> within_budget vp r"
    if none: "try_each (\<lambda>item. the (check_budget b item)) (btree_items res) = None"
      and mem: "fmlookup res p = Some r" for p r
  proof -
    obtain x vp where x: "fmlookup b p = Some x" "pb_virtual_partition x = Some vp"
      using assms mem fmdomI by metis
    have "(p, r) \<in> set (btree_items res)" using mem set_btree_items by metis
    then have "the (check_budget b (p, r)) = None" using none unfolding try_each_None_iff by blast
    with check_budget_admitted[OF x, of r] x show ?thesis by auto
  qed
  then show ?thesis using try_each_opt_total[OF all] by blast
qed

text \<open>The validation of a distributed plan never panics, and what it establishes.\<close>

lemma prepare_checks_total:
  assumes "plan_bindings (tx_bound_plan tx) = Some b"
  shows "\<exists>r. prepare_checks tx = Some r \<and> (\<forall>keys res. r = Inr (keys, res) \<longrightarrow>
    referenced_partitions (tx_operations tx) |\<subseteq>| fmdom b \<and>
    res = derive_reservation (tx_operations tx) (referenced_partitions (tx_operations tx)) \<and>
    (\<forall>p r. fmlookup res p = Some r \<longrightarrow>
       (\<exists>x vp. fmlookup b p = Some x \<and> pb_virtual_partition x = Some vp \<and> within_budget vp r)))"
proof (cases "try_each_from 0 (check_topology (fmdom b)) (tx_operations tx)")
  case (Some e)
  with assms show ?thesis by (simp add: prepare_checks_def)
next
  case topo: None
  let ?ref = "referenced_partitions (tx_operations tx)"
  let ?res = "derive_reservation (tx_operations tx) ?ref"
  have sub: "?ref |\<subseteq>| fmdom b" by (rule topology_declared[OF topo])
  obtain r1 where r1: "try_each_opt (check_admitted b) (sorted_list_of_fset ?ref) = Some r1"
    "r1 = None \<longrightarrow> (\<forall>p |\<in>| ?ref. \<exists>x vp. fmlookup b p = Some x \<and> pb_virtual_partition x = Some vp)"
    using check_admitted_total[OF sub] by blast
  show ?thesis
  proof (cases r1)
    case (Some e)
    with topo r1 assms show ?thesis
      by (auto simp: prepare_checks_def Let_def split: sum.splits option.splits)
  next
    case None
    then have "\<forall>p |\<in>| fmdom ?res. \<exists>x vp. fmlookup b p = Some x \<and> pb_virtual_partition x = Some vp"
      using r1(2) by (simp add: fmdom_derive_reservation)
    from check_budget_total[OF this] obtain r2 where r2: "try_each_opt (check_budget b) (btree_items ?res) = Some r2"
      "r2 = None \<longrightarrow> (\<forall>p r. fmlookup ?res p = Some r \<longrightarrow>
       (\<exists>x vp. fmlookup b p = Some x \<and> pb_virtual_partition x = Some vp \<and> within_budget vp r))" by blast
    show ?thesis
      using topo r1(1) None r2 sub assms
      by (cases r2) (auto simp: prepare_checks_def Let_def split: sum.splits option.splits)
  qed
qed

lemma prepared_budgets:
  assumes "tx_prepare be nanos tx s = Some (None, tx', s')"
    and "\<forall>p. staging_sum (tx_operations tx) p < 2 ^ 64 \<and> scratch_sum (tx_operations tx) p < 2 ^ 64"
    and "op \<in> set (tx_operations tx)" "p |\<in>| operation_partitions op"
  shows "\<exists>b x vp. plan_bindings (tx_bound_plan tx) = Some b \<and> fmlookup b p = Some x \<and>
    pb_virtual_partition x = Some vp \<and>
    staging_sum (tx_operations tx) p \<le> unat (transfer_staging_bytes (vp_ledger vp)) \<and>
    scratch_sum (tx_operations tx) p \<le> unat (activation_scratch_bytes (vp_ledger vp))"
  using assms(1)
proof (cases rule: prepare_cases)
  case (prepared keys reservation)
  from prepare_checks_Inr[OF prepared(3)] obtain b where b: "plan_bindings (tx_bound_plan tx) = Some b" by blast
  from prepare_checks_total[OF b] prepared(3) have facts:
    "reservation = derive_reservation (tx_operations tx) (referenced_partitions (tx_operations tx))"
    "\<forall>p r. fmlookup reservation p = Some r \<longrightarrow>
       (\<exists>x vp. fmlookup b p = Some x \<and> pb_virtual_partition x = Some vp \<and> within_budget vp r)"
    by auto
  have "p |\<in>| fmdom reservation"
    using assms(3,4) facts(1) by (auto simp: fmdom_derive_reservation referenced_partitions_iff)
  then obtain r where r: "fmlookup reservation p = Some r" by (auto simp: fmlookup_dom_iff)
  then obtain x vp where x: "fmlookup b p = Some x" "pb_virtual_partition x = Some vp" "within_budget vp r"
    using facts(2) by blast
  have "unat (class_six_bytes r) = staging_sum (tx_operations tx) p"
    "unat (class_three_bytes r) = scratch_sum (tx_operations tx) p"
    using derive_reservation_lookup[of "tx_operations tx" "referenced_partitions (tx_operations tx)" p r] r facts(1) assms(2)
    by (simp_all add: unat_of_nat)
  with x b show ?thesis unfolding within_budget_def word_le_nat_alt by metis
qed auto


section \<open>Runs on the two backends\<close>

text \<open>What the environment does while a transaction runs: events complete, faults are injected.\<close>

definition fake_environment :: "fake_execution_backend \<Rightarrow> fake_execution_backend \<Rightarrow> bool" where
  "fake_environment s s' \<longleftrightarrow> (\<exists>ev. s' = fake_complete_event s ev) \<or> (\<exists>on. s' = fake_set_auto_complete s on)"

definition faulty_environment :: "fault_injecting_backend \<Rightarrow> fault_injecting_backend \<Rightarrow> bool" where
  "faulty_environment s s' \<longleftrightarrow> (\<exists>f. s' = faulty_inject s f)"

lemma fake_environment_views:
  "fake_environment s s' \<Longrightarrow> fb_published_writes s' = fb_published_writes s \<and>
     fb_staged_writes s' = fb_staged_writes s \<and> fake_held s' = fake_held s"
  by (auto simp: fake_environment_def fake_complete_event_def fake_set_auto_complete_def fake_held_def)

lemma faulty_environment_views:
  "faulty_environment s s' \<Longrightarrow> fib_committed_writes s' = fib_committed_writes s \<and>
     faulty_staged s' = faulty_staged s \<and> faulty_held s' = faulty_held s"
  by (auto simp: faulty_environment_def faulty_inject_def faulty_staged_def faulty_held_def)

lemma faulty_run_inv:
  assumes "tx_new i plan operations boundary = Inr tx0" "faulty_staged s0 = fmempty"
    and "(tx_step faulty_ops debug faulty_environment)\<^sup>*\<^sup>* (tx0, s0) (tx, s)"
  shows "tx_static tx \<and> tx_backend (fib_committed_writes s) (faulty_staged s) (faulty_held s) (fib_committed_writes s0) tx"
proof -
  have "tx_static tx0 \<and> tx_backend (fib_committed_writes s0) (faulty_staged s0) (faulty_held s0) (fib_committed_writes s0) tx0"
    using tx_new_initial[OF assms(1)] assms(2) by simp
  from faulty_contract.run_inv[OF assms(3) this faulty_environment_views] show ?thesis by simp
qed

lemma fake_run_inv:
  assumes "tx_new i plan operations boundary = Inr tx0" "fb_staged_writes s0 = fmempty"
    and "(tx_step fake_ops debug fake_environment)\<^sup>*\<^sup>* (tx0, s0) (tx, s)"
  shows "tx_static tx \<and> tx_backend (fb_published_writes s) (fb_staged_writes s) (fake_held s) (fb_published_writes s0) tx"
proof -
  have "tx_static tx0 \<and> tx_backend (fb_published_writes s0) (fb_staged_writes s0) (fake_held s0) (fb_published_writes s0) tx0"
    using tx_new_initial[OF assms(1)] assms(2) by simp
  from fake_contract.run_inv[OF assms(3) this fake_environment_views] show ?thesis by simp
qed

lemma run_plan:
  assumes "(tx_step be debug environment)\<^sup>*\<^sup>* (tx0, s0) (tx, s)"
  shows "tx_plan tx = tx_plan tx0"
  using assms by (induction rule: rtranclp_induct2) (auto dest: step_legal)

text \<open>C2: publication is atomic under every fault. Along any sequence of calls on the
  fault-injecting backend, with faults of any class injected at any time, the committed state
  is either untouched or, exactly when the transaction is \<open>Committed\<close>, replaced as a whole by
  the writes the transaction staged; all staged writes are writes the accepted plan declares,
  only operations of the plan are ever recorded, and after an abort nothing is staged and no
  reservation of the transaction is held.\<close>

theorem faults_never_publish_partially:
  assumes "tx_new i plan operations boundary = Inr tx0" "faulty_staged s0 = fmempty"
    and "(tx_step faulty_ops debug faulty_environment)\<^sup>*\<^sup>* (tx0, s0) (tx, s)"
  shows "fib_committed_writes s =
      (if tx_state tx = Committed then tx_staged_write_set tx else fib_committed_writes s0) \<and>
    fset (fmran (tx_staged_write_set tx)) \<subseteq> snapshot_writes operations \<and>
    set (tx_executed_operations tx) \<subseteq> executed_record ` set operations \<and>
    (\<forall>f. tx_state tx = Aborted f \<longrightarrow> faulty_staged s = fmempty \<and>
       reserved_partitions tx |\<inter>| faulty_held s = {||})"
proof -
  have ops: "tx_operations tx = operations"
    using run_plan[OF assms(3)] tx_new_initial[OF assms(1)] by (simp add: tx_plan_def)
  have inv: "tx_static tx" "tx_backend (fib_committed_writes s) (faulty_staged s) (faulty_held s) (fib_committed_writes s0) tx"
    using faulty_run_inv[OF assms] by blast+
  from inv(1) have "fset (fmran (tx_staged_write_set tx)) \<subseteq> snapshot_writes operations"
    "set (tx_executed_operations tx) \<subseteq> executed_record ` set operations"
    unfolding tx_static_def ops by blast+
  moreover have "fib_committed_writes s =
      (if tx_state tx = Committed then tx_staged_write_set tx else fib_committed_writes s0)"
    using inv(2) unfolding tx_backend_def by (cases "tx_state tx") simp_all
  moreover have "\<forall>f. tx_state tx = Aborted f \<longrightarrow> faulty_staged s = fmempty \<and>
       reserved_partitions tx |\<inter>| faulty_held s = {||}"
    using inv(2) unfolding tx_backend_def by auto
  ultimately show ?thesis by blast
qed

section \<open>No panic\<close>

lemma prepare_total:
  assumes "tx_static tx"
  shows "tx_prepare be nanos tx s \<noteq> None"
proof -
  obtain b where "plan_bindings (tx_bound_plan tx) = Some b" using assms by (auto simp: tx_static_def)
  from prepare_checks_total[OF this] show ?thesis
    by (auto simp: tx_prepare_def split: sum.splits prod.splits option.splits)
qed

lemma execute_operation_total:
  assumes "tx_static tx"
  shows "tx_execute_operation be op tx s \<noteq> None"
  using assms unfolding tx_execute_operation_def Let_def tx_static_def
  by (auto split: option.splits prod.splits)

lemma run_operations_total:
  assumes "tx_static tx" "tx_state tx = Executing"
  shows "run_operations be os tx s \<noteq> None"
  using assms
proof (induction os arbitrary: tx s)
  case Nil
  then show ?case by simp
next
  case (Cons op os)
  obtain r tx1 s1 where op: "tx_execute_operation be op tx s = Some (r, tx1, s1)"
    using execute_operation_total[OF Cons.prems(1), of be op s] by (cases "tx_execute_operation be op tx s") auto
  note rel = execute_operation_exec_rel[OF op Cons.prems(2)]
  show ?case
  proof (cases r)
    case None
    then have "tx_static tx1" "tx_state tx1 = Executing"
      using rel exec_rel_static Cons.prems(1) by blast+
    from Cons.IH[OF this, of s1] show ?thesis using op None by simp
  next
    case (Some e)
    with op show ?thesis by simp
  qed
qed

lemma execute_total:
  assumes "tx_static tx"
  shows "tx_execute be nanos tx s \<noteq> None"
proof -
  have "tx_static (tx\<lparr>tx_state := Executing\<rparr>)" using assms by (simp add: tx_static_def)
  from run_operations_total[OF this, of be "tx_operations tx" s] show ?thesis by (simp add: tx_execute_def del: not_None_eq)
qed

lemma finish_with_receipt_total: "tx_decision tx \<noteq> None \<Longrightarrow> finish_with_receipt tx s \<noteq> None"
  by (auto simp: finish_with_receipt_def tx_build_receipt_def)

lemma commit_total: "tx_commit be debug ordinal nanos tx s \<noteq> None"
proof -
  obtain e s1 where "be_publish be s = (e, s1)" by fastforce
  then show ?thesis
    by (cases e) (simp_all add: tx_commit_def Let_def finish_with_receipt_total del: not_None_eq)
qed

lemma abort_total:
  assumes "\<And>f. tx_state tx = Aborted f \<Longrightarrow> tx_receipt tx \<noteq> None"
  shows "tx_abort be reason nanos tx s \<noteq> None"
proof (cases "tx_state tx")
  case (Aborted f)
  with assms show ?thesis by (auto simp: tx_abort_def)
qed (simp_all add: tx_abort_def Let_def finish_with_receipt_total del: not_None_eq)

text \<open>C7: no call of a transaction panics. From a constructed transaction, after any sequence of
  calls on the fault-injecting backend, every \<open>expect\<close> and index of prepare, execute, commit
  and abort is safe: each call returns a result.\<close>

theorem transaction_never_panics:
  assumes "tx_new i plan operations boundary = Inr tx0" "faulty_staged s0 = fmempty"
    and "(tx_step faulty_ops debug faulty_environment)\<^sup>*\<^sup>* (tx0, s0) (tx, s)"
  shows "tx_prepare faulty_ops n tx s \<noteq> None \<and> tx_execute faulty_ops n tx s \<noteq> None \<and>
    tx_execute_operation faulty_ops op tx s \<noteq> None \<and> tx_commit faulty_ops debug ordinal n tx s \<noteq> None \<and>
    tx_abort faulty_ops reason n tx s \<noteq> None"
proof -
  have inv: "tx_static tx" "tx_backend (fib_committed_writes s) (faulty_staged s) (faulty_held s) (fib_committed_writes s0) tx"
    using faulty_run_inv[OF assms] by blast+
  have "tx_receipt tx \<noteq> None" if "tx_state tx = Aborted f" for f
    using inv(2) that by (auto simp: tx_backend_def tx_end_def)
  then show ?thesis
    by (intro conjI prepare_total[OF inv(1)] execute_total[OF inv(1)] execute_operation_total[OF inv(1)]
        commit_total abort_total)
qed

section \<open>Abort\<close>


section \<open>The happy path\<close>

lemma build_operation_keys_lookup:
  assumes "build_operation_keys i os m = Inr keys"
  shows "distinct (map operation_ref_of os) \<and> (\<forall>op \<in> set os. operation_ref_of op |\<notin>| fmdom m) \<and>
    (\<forall>j < length os. fmlookup keys (operation_ref_of (os ! j)) = Some (i + j)) \<and>
    (\<forall>k. k \<notin> operation_ref_of ` set os \<longrightarrow> fmlookup keys k = fmlookup m k)"
  using assms
proof (induction os arbitrary: i m)
  case Nil
  then show ?case by simp
next
  case (Cons op os)
  then have new: "operation_ref_of op |\<notin>| fmdom m"
    and rec: "build_operation_keys (Suc i) os (fmupd (operation_ref_of op) i m) = Inr keys"
    by (auto simp: Let_def split: if_splits)
  note ih = Cons.IH[OF rec]
  then have fresh: "operation_ref_of op \<notin> operation_ref_of ` set os" by auto
  then have "fmlookup keys (operation_ref_of op) = Some i" using ih by simp
  then have "\<forall>j < length (op # os). fmlookup keys (operation_ref_of ((op # os) ! j)) = Some (i + j)"
    using ih by (auto simp: less_Suc_eq_0_disj)
  moreover have "\<forall>k. k \<notin> operation_ref_of ` set (op # os) \<longrightarrow> fmlookup keys k = fmlookup m k"
    using ih by auto
  ultimately show ?case using ih new fresh by auto
qed

lemma fake_stage_writes_ok:
  assumes "fb_staged_writes s = tx_staged_write_set tx" "distinct (map sw_output_ref ws)"
    and "\<forall>w \<in> set ws. sw_output_ref w |\<notin>| fmdom (fb_staged_writes s)"
  shows "\<exists>tx' s'. stage_writes fake_ops ws tx s = (None, tx', s') \<and>
    tx_completed_events tx' = tx_completed_events tx \<and>
    fb_completed_events s' = fb_completed_events s \<and> fb_auto_complete s' = fb_auto_complete s \<and>
    fb_published_once s' = fb_published_once s"
  using assms
proof (induction ws arbitrary: tx s)
  case Nil
  then show ?case by simp
next
  case (Cons w ws)
  let ?tx = "tx\<lparr>tx_staged_write_set := fmupd (sw_output_ref w) w (tx_staged_write_set tx)\<rparr>"
  let ?s = "s\<lparr>fb_staged_total_bytes := saturating_add (fb_staged_total_bytes s) (sw_byte_count w),
              fb_staged_writes := fmupd (sw_output_ref w) w (fb_staged_writes s)\<rparr>"
  have w: "be_stage_write fake_ops w s = (None, ?s)"
    using Cons.prems by (simp add: fake_ops_def fake_stage_write_def)
  have "\<forall>w' \<in> set ws. sw_output_ref w' |\<notin>| fmdom (fb_staged_writes ?s)"
    using Cons.prems(2,3) by (auto simp: image_iff)
  with Cons.IH[of ?s ?tx] Cons.prems(1,2) w show ?case by simp
qed

text \<open>One operation of the snapshot runs, on a backend that has staged none of its outputs.\<close>

lemma fake_execute_operation_ok:
  assumes "tx_state tx = Executing" "fmlookup (tx_operation_keys tx) (operation_ref_of op) = Some j"
    and "j < length (tx_operations tx)" "tx_operations tx ! j = op"
    and "fb_staged_writes s = tx_staged_write_set tx" "fb_auto_complete s"
    and "\<forall>w \<in> set (operation_staged_writes op). sw_output_ref w |\<notin>| fmdom (fb_staged_writes s)"
  shows "\<exists>tx' s'. tx_execute_operation fake_ops op tx s = Some (None, tx', s') \<and>
    tx_completed_events tx |\<union>| operation_completed_events op |\<subseteq>| tx_completed_events tx' \<and>
    fb_auto_complete s' \<and> fb_published_once s' = fb_published_once s"
proof -
  obtain s1 where run: "be_run_operation fake_ops op s = (None, s1)"
    and s1: "fb_staged_writes s1 = fb_staged_writes s" "fb_auto_complete s1" "fb_published_once s1 = fb_published_once s"
      "operation_completed_events op |\<subseteq>| fb_completed_events s1"
    using assms(6) by (simp add: fake_ops_def fake_run_operation_def Let_def)
  obtain tx2 s2 where st: "stage_writes fake_ops (operation_staged_writes op) tx s1 = (None, tx2, s2)"
    "tx_completed_events tx2 = tx_completed_events tx" "fb_completed_events s2 = fb_completed_events s1"
    "fb_auto_complete s2 = fb_auto_complete s1" "fb_published_once s2 = fb_published_once s1"
    using fake_stage_writes_ok[of s1 tx "operation_staged_writes op"] assms(5,7) s1
      distinct_writes_of_operation by auto
  let ?tx = "record_events fake_ops s2 op (tx2\<lparr>tx_executed_operations := tx_executed_operations tx2 @
      [\<lparr>eo_operation = op, eo_byte_count = operation_byte_count op\<rparr>]\<rparr>)"
  have "tx_execute_operation fake_ops op tx s = Some (None, ?tx, s2)"
    unfolding tx_execute_operation_def Let_def by (simp add: assms run st(1))
  moreover have "tx_completed_events tx |\<union>| operation_completed_events op |\<subseteq>| tx_completed_events ?tx"
    using st(2,3) s1(4) by (auto simp: record_events_def fake_ops_def fake_event_completed_def fsubset_iff)
  ultimately show ?thesis using s1 st by auto
qed

lemma fake_run_operations_ok:
  assumes "tx_state tx = Executing"
    and "\<forall>op \<in> set os. \<exists>j < length (tx_operations tx). tx_operations tx ! j = op \<and>
      fmlookup (tx_operation_keys tx) (operation_ref_of op) = Some j"
    and "fb_staged_writes s = tx_staged_write_set tx" "fb_auto_complete s"
    and "distinct (map sw_output_ref (concat (map operation_staged_writes os)))"
    and "\<forall>w \<in> snapshot_writes os. sw_output_ref w |\<notin>| fmdom (fb_staged_writes s)"
  shows "\<exists>tx' s'. run_operations fake_ops os tx s = Some (None, tx', s') \<and>
    tx_completed_events tx |\<subseteq>| tx_completed_events tx' \<and>
    (\<forall>op \<in> set os. operation_completed_events op |\<subseteq>| tx_completed_events tx') \<and>
    fb_published_once s' = fb_published_once s"
  using assms
proof (induction os arbitrary: tx s)
  case Nil
  then show ?case by simp
next
  case (Cons op os)
  obtain tx1 s1 where op: "tx_execute_operation fake_ops op tx s = Some (None, tx1, s1)"
    "tx_completed_events tx |\<union>| operation_completed_events op |\<subseteq>| tx_completed_events tx1"
    "fb_auto_complete s1" "fb_published_once s1 = fb_published_once s"
    using fake_execute_operation_ok[of tx op _ s] Cons.prems by (auto simp: snapshot_writes_def)
  have rel: "exec_rel tx tx1" "tx_state tx1 = Executing"
    "tx_staged_write_set tx1 = insert_writes (operation_staged_writes op) (tx_staged_write_set tx)"
    using execute_operation_exec_rel[OF op(1) Cons.prems(1)] by simp_all
  have views: "fb_staged_writes s1 = tx_staged_write_set tx1"
    using fake_contract.execute_operation_views[OF op(1) Cons.prems(3)] by simp
  have core: "tx_operations tx1 = tx_operations tx" "tx_operation_keys tx1 = tx_operation_keys tx"
    using tx_core_operations[of tx1 tx] rel(1) by (simp_all add: exec_rel_def)
  have dom: "fset (fmdom (insert_writes ws m)) = fset (fmdom m) \<union> sw_output_ref ` set ws" for ws m
    by (induction ws arbitrary: m) auto
  have fresh: "\<forall>w \<in> snapshot_writes os. sw_output_ref w |\<notin>| fmdom (fb_staged_writes s1)"
    using Cons.prems(3,5,6) unfolding views rel(3) dom by (auto simp: snapshot_writes_def)
  obtain tx' s' where "run_operations fake_ops os tx1 s1 = Some (None, tx', s')"
    "tx_completed_events tx1 |\<subseteq>| tx_completed_events tx'"
    "\<forall>op \<in> set os. operation_completed_events op |\<subseteq>| tx_completed_events tx'"
    "fb_published_once s' = fb_published_once s1"
    using Cons.IH[OF rel(2) _ views op(3) _ fresh] Cons.prems(2,5) unfolding core by auto
  then show ?case using op by (auto simp: fsubset_iff)
qed

lemma boundary_declared:
  assumes "check_boundary boundary os = None"
  shows "b |\<in>| cb_barriers boundary \<Longrightarrow> list_ex (is_barrier_op b) os"
    and "l |\<in>| cb_launches boundary \<Longrightarrow> list_ex (is_launch_op l) os"
  using assms by (auto simp: check_boundary_def try_each_None_iff split: option.splits if_splits)

lemma nothing_missing:
  assumes "check_boundary (tx_commit_boundary tx) (tx_operations tx) = None"
    and "\<forall>op \<in> set (tx_operations tx). operation_completed_events op |\<subseteq>| tx_completed_events tx"
  shows "missing_boundary_refs tx = {||}"
proof -
  have "\<not> barrier_missing tx b" if b: "b |\<in>| cb_barriers (tx_commit_boundary tx)" for b
  proof -
    obtain op where op: "find (is_barrier_op b) (tx_operations tx) = Some op"
      using boundary_declared(1)[OF assms(1) b] by (cases "find (is_barrier_op b) (tx_operations tx)")
        (auto simp: find_None_iff list_ex_iff)
    from find_SomeD[OF op] assms(2) show ?thesis
      by (cases op) (fastforce simp: barrier_missing_def op list_ex_iff fsubset_iff)+
  qed
  moreover have "\<not> launch_missing tx l" if l: "l |\<in>| cb_launches (tx_commit_boundary tx)" for l
  proof -
    obtain op where op: "find (is_launch_op l) (tx_operations tx) = Some op"
      using boundary_declared(2)[OF assms(1) l] by (cases "find (is_launch_op l) (tx_operations tx)")
        (auto simp: find_None_iff list_ex_iff)
    from find_SomeD[OF op] assms(2) show ?thesis
      by (cases op) (fastforce simp: launch_missing_def op list_ex_iff fsubset_iff)+
  qed
  ultimately show ?thesis by (auto simp: missing_boundary_refs_def)
qed

lemma hold_reservations_fake:
  assumes "hold_reservations fake_ops items s = (r, s')"
  shows "fb_auto_complete s' = fb_auto_complete s \<and> fb_published_once s' = fb_published_once s"
  using assms
proof (induction items arbitrary: s)
  case Nil
  then show ?case by simp
next
  case (Cons item items)
  obtain p rec where item: "item = (p, rec)" by fastforce
  show ?case
  proof (cases "p |\<in>| fmdom (fb_reservations s)")
    case True
    with Cons.prems item show ?thesis by (simp add: fake_ops_def fake_reserve_def)
  next
    case False
    then have "hold_reservations fake_ops items (s\<lparr>fb_reservations := fmupd p rec (fb_reservations s)\<rparr>) = (r, s')"
      using Cons.prems item by (simp add: fake_ops_def fake_reserve_def)
    from Cons.IH[OF this] show ?thesis by simp
  qed
qed

lemma happy_path:
  assumes new: "tx_new i plan operations boundary = Inr tx0"
    and prepare: "tx_prepare fake_ops n tx0 s0 = Some (None, tx1, s1)"
    and start: "fb_staged_writes s0 = fmempty" "fb_auto_complete s0" "\<not> fb_published_once s0"
    and free: "\<forall>op \<in> set operations. colon_free (operation_id op)"
  shows "\<exists>tx2 s2 receipt tx3 s3. tx_execute fake_ops n tx1 s1 = Some (None, tx2, s2) \<and>
    tx_commit fake_ops debug ordinal n tx2 s2 = Some (Inr receipt, tx3, s3) \<and>
    fb_published_writes s3 = derive_declared_write_set operations \<and>
    tr_executed_operations receipt = map executed_record operations \<and>
    reserved_partitions tx3 |\<inter>| fake_held s3 = {||}"
proof -
  note init = tx_new_initial[OF new, of "fb_published_writes s0" "fake_held s0"]
  have inv0: "tx_static tx0 \<and> tx_backend (fb_published_writes s0) (fb_staged_writes s0) (fake_held s0) (fb_published_writes s0) tx0"
    using init start(1) by simp
  have inv1: "tx_static tx1 \<and> tx_backend (fb_published_writes s1) (fb_staged_writes s1) (fake_held s1) (fb_published_writes s0) tx1"
    by (rule fake_contract.prepare_inv[OF prepare inv0])
  from prepare obtain keys reservation where prep: "prepare_checks tx0 = Some (Inr (keys, reservation))"
    "hold_reservations fake_ops (btree_items reservation) s0 = (None, s1)"
    and tx1: "tx_operations tx1 = operations" "tx_commit_boundary tx1 = boundary" "tx_operation_keys tx1 = keys"
      "tx_state tx1 = Prepared" "tx_declared_write_set tx1 = derive_declared_write_set operations"
    by (cases rule: prepare_cases) (use init in auto)
  have empty: "fb_staged_writes s1 = fmempty" "tx_staged_write_set tx1 = fmempty" "tx_executed_operations tx1 = []"
    using inv1 tx1(4) by (simp_all add: tx_backend_def)
  have flags: "fb_auto_complete s1" "\<not> fb_published_once s1"
    using hold_reservations_fake[OF prep(2)] start by simp_all
  from prepare_checks_Inr[OF prep(1)] init have checks: "build_operation_keys 0 operations fmempty = Inr keys"
    "check_boundary boundary operations = None" by auto
  note keys = build_operation_keys_lookup[OF checks(1)]
  let ?tx = "tx1\<lparr>tx_state := Executing\<rparr>"
  have snap: "\<forall>op \<in> set operations. \<exists>j < length (tx_operations ?tx). tx_operations ?tx ! j = op \<and>
      fmlookup (tx_operation_keys ?tx) (operation_ref_of op) = Some j"
    using keys by (auto simp: tx1 in_set_conv_nth)
  obtain tx' s2 where run: "run_operations fake_ops operations ?tx s1 = Some (None, tx', s2)"
    "\<forall>op \<in> set operations. operation_completed_events op |\<subseteq>| tx_completed_events tx'"
    "fb_published_once s2 = fb_published_once s1"
    using fake_run_operations_ok[OF _ snap, of s1] empty flags distinct_output_refs[of operations] keys free by auto
  note rel = run_operations_exec_rel[OF run(1)]
  have tx': "tx_operations tx' = operations" "tx_commit_boundary tx' = boundary" "tx_state tx' = Executing"
    "tx_staged_write_set tx' = derive_declared_write_set operations"
    "tx_executed_operations tx' = map executed_record operations"
    using rel tx_core_operations[of tx' ?tx] tx1 empty
    by (simp_all add: exec_rel_def derive_declared_insert)
  let ?tx2 = "set_execute_nanos n tx'"
  have exec: "tx_execute fake_ops n tx1 s1 = Some (None, ?tx2, s2)"
    using run(1) tx1 by (simp add: tx_execute_def)
  have inv2: "tx_static ?tx2 \<and> tx_backend (fb_published_writes s2) (fb_staged_writes s2) (fake_held s2) (fb_published_writes s0) ?tx2"
    by (rule fake_contract.execute_inv[OF exec inv1])
  obtain c tx3 s3 where commit: "tx_commit fake_ops debug ordinal n ?tx2 s2 = Some (c, tx3, s3)"
    using commit_total[of fake_ops debug ordinal n ?tx2 s2] by auto
  note inv3 = fake_contract.commit_inv[OF commit inv2]
  have "missing_boundary_refs (refresh_completed_events fake_ops s2 ?tx2) = {||}"
  proof (rule nothing_missing)
    let ?r = "refresh_completed_events fake_ops s2 ?tx2"
    have "tx_core ?r = tx_core ?tx2" by (rule refresh_core(1))
    then have plan: "tx_operations ?r = operations" "tx_commit_boundary ?r = boundary"
      using tx_core_operations[of ?r ?tx2] tx_core_operations[of ?tx2 tx'] tx' by simp_all
    show "check_boundary (tx_commit_boundary ?r) (tx_operations ?r) = None" unfolding plan by (rule checks(2))
    have "tx_completed_events t |\<subseteq>| tx_completed_events (foldl (\<lambda>tx op. record_events fake_ops s2 op tx) t os)"
      for t :: "'a execution_transaction" and os
    proof (induction os arbitrary: t)
      case Nil
      then show ?case by simp
    next
      case (Cons a os)
      have "tx_completed_events t |\<subseteq>| tx_completed_events (record_events fake_ops s2 a t)"
        by (auto simp: record_events_def)
      with Cons[of "record_events fake_ops s2 a t"] show ?case by auto
    qed
    then have "tx_completed_events ?tx2 |\<subseteq>| tx_completed_events ?r"
      unfolding refresh_completed_events_def .
    then show "\<forall>op \<in> set (tx_operations ?r). operation_completed_events op |\<subseteq>| tx_completed_events ?r"
      using run(2) unfolding plan by (auto simp: set_execute_nanos_def)
  qed
  moreover have "be_publish fake_ops s2 = (None, s2\<lparr>fb_published_writes := fb_staged_writes s2,
      fb_published_total_bytes := fb_staged_total_bytes s2, fb_published_once := True\<rparr>)"
    using run(3) flags by (simp add: fake_ops_def fake_publish_def)
  moreover note ready = calculation
  have "\<exists>receipt. c = Inr receipt \<and> tx_state tx3 = Committed \<and>
      tr_executed_operations receipt = map executed_record operations \<and>
      tx_staged_write_set tx3 = derive_declared_write_set operations"
    using commit by (cases rule: commit_cases) (use ready tx' in auto)
  then obtain receipt where r: "c = Inr receipt" "tx_state tx3 = Committed"
    "tr_executed_operations receipt = map executed_record operations"
    "tx_staged_write_set tx3 = derive_declared_write_set operations" by blast
  then have "fb_published_writes s3 = derive_declared_write_set operations"
    "reserved_partitions tx3 |\<inter>| fake_held s3 = {||}"
    using inv3 by (simp_all add: tx_backend_def)
  then show ?thesis using exec commit r by blast
qed


section \<open>A concrete transaction\<close>

definition tx_partition :: "u64 \<Rightarrow> string \<Rightarrow> virtual_device_partition" where
  "tx_partition v uuid = \<lparr>vp_id = v, vp_bound_device = device_id_cuda uuid None,
     vp_ledger = \<lparr>weight_bytes = 0, kv_cache_bytes = 0, activation_scratch_bytes = 8192,
       module_storage_bytes = 0, allocator_overhead_bytes = 0, transfer_staging_bytes = 64,
       concurrent_state_bytes = 0\<rparr>,
     vp_safe_limit = 100000, vp_state = Active\<rparr>"

definition tx_bindings :: bindings where
  "tx_bindings = fmap_of_list
     [(''p0'', binding_with_virtual_partition (device_id_cuda ''GPU-a'' None) (tx_partition 1 ''GPU-a'')),
      (''p1'', binding_with_virtual_partition (device_id_cuda ''GPU-b'' None) (tx_partition 2 ''GPU-b''))]"

definition tx_example_plan :: bound_distributed_plan where
  "tx_example_plan = \<lparr>bp_logical_hash = example_hash, bp_kind = Distributed tx_bindings,
     bp_device_set = example_set, bp_snapshot_id = replicate 32 0, bp_fixture = FixturePhysical,
     bp_transport = TransportNone, bp_bound_hash = example_hash\<rparr>"

definition tx_example_transfer :: transfer_operation where
  "tx_example_transfer = \<lparr>to_id = ''t0'', to_source = ''p0'', to_destination = ''p1'', to_byte_count = 16,
     to_direction = BIDI, to_dtype = DtF32, to_layout = Dense, to_path = PathHostStaged,
     to_producer_generation = 1, to_consumer_generation = 1,
     to_completion_boundary = boundary_new [] []\<rparr>"

definition tx_example_operations :: "transaction_operation list" where
  "tx_example_operations = [Launch ''p0'' ''l0'' 16, Transfer tx_example_transfer, Barrier ''b0'' {|''p0'', ''p1''|}]"

definition tx_example :: "unit execution_transaction" where
  "tx_example = projr (tx_new ''tx'' tx_example_plan tx_example_operations (boundary_new [''b0''] [''l0'']))"

lemma tx_example_new:
  "tx_new ''tx'' tx_example_plan tx_example_operations (boundary_new [''b0''] [''l0'']) = Inr tx_example"
  by (simp add: tx_example_def tx_new_def tx_example_plan_def plan_is_degenerate_def tx_example_operations_def)

lemma tx_example_prepares:
  "case tx_prepare fake_ops 1 tx_example fake_new of Some (None, tx, s) \<Rightarrow> tx_state tx = Prepared | _ \<Rightarrow> False"
  by code_simp

lemma tx_example_prepared:
  obtains tx1 s1 where "tx_prepare fake_ops 1 tx_example fake_new = Some (None, tx1, s1)" "tx_state tx1 = Prepared"
  using tx_example_prepares by (auto split: option.splits prod.splits)

lemma tx_example_operations_simp:
  "tx_operations tx_example = tx_example_operations" "tx_commit_boundary tx_example = boundary_new [''b0''] [''l0'']"
  using tx_new_initial[OF tx_example_new] by simp_all

lemma tx_example_free: "\<forall>op \<in> set tx_example_operations. colon_free (operation_id op)"
  by (simp add: tx_example_operations_def tx_example_transfer_def colon_free_def)

lemma fake_new_start: "fb_staged_writes fake_new = fmempty" "fb_auto_complete fake_new" "\<not> fb_published_once fake_new"
  by (simp_all add: fake_new_def)

lemma tx_example_runs:
  obtains tx1 s1 tx2 s2 receipt tx3 s3 where "tx_prepare fake_ops 1 tx_example fake_new = Some (None, tx1, s1)"
    "tx_execute fake_ops 1 tx1 s1 = Some (None, tx2, s2)"
    "tx_commit fake_ops (\<lambda>_. []) 7 1 tx2 s2 = Some (Inr receipt, tx3, s3)"
proof -
  obtain tx1 s1 where prep: "tx_prepare fake_ops 1 tx_example fake_new = Some (None, tx1, s1)"
    by (rule tx_example_prepared)
  with happy_path[OF tx_example_new prep fake_new_start tx_example_free, of "\<lambda>_. []" 7] that show thesis by blast
qed

theorem transaction_moves_legal_witness:
  "\<exists>tx' s'. tx_step fake_ops (\<lambda>_. []) fake_environment (tx_example, fake_new) (tx', s') \<and>
     tx_state tx' = Prepared \<and> tx_plan tx' = tx_plan tx_example"
proof -
  obtain tx1 s1 where prep: "tx_prepare fake_ops 1 tx_example fake_new = Some (None, tx1, s1)" "tx_state tx1 = Prepared"
    by (rule tx_example_prepared)
  note step = tx_step.prepare[OF prep(1), of "\<lambda>_. []" fake_environment]
  from transaction_moves_legal[OF step] step prep(2) show ?thesis by blast
qed


lemma tx_example_sums: "staging_sum tx_example_operations p < 2 ^ 64 \<and> scratch_sum tx_example_operations p < 2 ^ 64"
  by (simp add: staging_sum_def scratch_sum_def tx_example_operations_def tx_example_transfer_def
      outputs_of_simps events_of_def)



definition example_fault :: fault_injection where
  "example_fault = \<lparr>fi_operation = LaunchOp ''l0'', fi_partition = ''p0'', fi_class = FaultDeviceLoss\<rparr>"

lemma faulty_hold_faults:
  assumes "hold_reservations faulty_ops items s = (r, s')"
  shows "fib_faults s' = fib_faults s"
  using assms
proof (induction items arbitrary: s)
  case Nil
  then show ?case by simp
next
  case (Cons item items)
  obtain p rec where item: "item = (p, rec)" by fastforce
  obtain e s1 where r: "be_reserve faulty_ops p rec s = (e, s1)" by fastforce
  have "fib_faults s1 = fib_faults s"
    using r by (auto simp: faulty_ops_def faulty_reserve_def through_inner_def Let_def
        begin_fresh_transaction_if_needed_def)
  then show ?case using Cons item r by (cases e) auto
qed

lemma tx_example_prepares_faulty:
  "case tx_prepare faulty_ops 1 tx_example (faulty_inject faulty_new example_fault) of
     Some (None, tx, s) \<Rightarrow> True | _ \<Rightarrow> False"
  by code_simp

lemma tx_example_faults:
  obtains tx1 s1 tx2 s2 d where
    "tx_prepare faulty_ops 1 tx_example (faulty_inject faulty_new example_fault) = Some (None, tx1, s1)"
    "tx_execute faulty_ops 1 tx1 s1 = Some (Some (ExecuteBackend (DeviceLossError ''p0'' d)), tx2, s2)"
    "tx_state tx2 = TxFailed (BackendFailure (DeviceLossError ''p0'' d))"
proof -
  obtain tx1 s1 where prep:
    "tx_prepare faulty_ops 1 tx_example (faulty_inject faulty_new example_fault) = Some (None, tx1, s1)"
    using tx_example_prepares_faulty by (auto split: option.splits prod.splits)
  then obtain keys reservation where k: "prepare_checks tx_example = Some (Inr (keys, reservation))"
    "hold_reservations faulty_ops (btree_items reservation) (faulty_inject faulty_new example_fault) = (None, s1)"
    and tx1: "tx_operation_keys tx1 = keys" "tx_state tx1 = Prepared" "tx_operations tx1 = tx_example_operations"
    by (cases rule: prepare_cases) (auto simp: tx_example_operations_simp)
  have faults: "fib_faults s1 = [example_fault]"
    using faulty_hold_faults[OF k(2)] by (simp add: faulty_inject_def faulty_new_def)
  have "build_operation_keys 0 tx_example_operations fmempty = Inr keys"
    using prepare_checks_Inr[OF k(1)] by (auto simp: tx_example_operations_simp)
  from build_operation_keys_lookup[OF this] have "fmlookup keys (LaunchOp ''l0'') = Some 0"
    by (auto simp: tx_example_operations_def)
  moreover obtain d s2 where "be_run_operation faulty_ops (Launch ''p0'' ''l0'' 16) s1 = (Some (DeviceLossError ''p0'' d), s2)"
    using faults by (simp add: faulty_ops_def faulty_run_operation_def example_fault_def
        fault_to_backend_error_def Let_def)
  ultimately have "tx_execute faulty_ops 1 tx1 s1 = Some (Some (ExecuteBackend (DeviceLossError ''p0'' d)),
      set_execute_nanos 1 (tx_fail (tx1\<lparr>tx_state := Executing\<rparr>) (BackendFailure (DeviceLossError ''p0'' d))), s2)"
    using tx1 by (simp add: tx_execute_def tx_example_operations_def tx_execute_operation_def)
  with prep that show thesis by fastforce
qed

lemma tx_example_fault_run:
  obtains tx s d where "(tx_step faulty_ops (\<lambda>_. []) faulty_environment)\<^sup>*\<^sup>* (tx_example, faulty_new) (tx, s)"
    "tx_state tx = TxFailed (BackendFailure (DeviceLossError ''p0'' d))"
proof -
  obtain tx1 s1 tx2 s2 d where run:
    "tx_prepare faulty_ops 1 tx_example (faulty_inject faulty_new example_fault) = Some (None, tx1, s1)"
    "tx_execute faulty_ops 1 tx1 s1 = Some (Some (ExecuteBackend (DeviceLossError ''p0'' d)), tx2, s2)"
    "tx_state tx2 = TxFailed (BackendFailure (DeviceLossError ''p0'' d))"
    by (rule tx_example_faults)
  let ?step = "tx_step faulty_ops (\<lambda>_. []) faulty_environment"
  have "?step (tx_example, faulty_new) (tx_example, faulty_inject faulty_new example_fault)"
    by (rule tx_step.environment) (auto simp: faulty_environment_def)
  moreover have "?step (tx_example, faulty_inject faulty_new example_fault) (tx1, s1)"
    by (rule tx_step.prepare[OF run(1)])
  moreover have "?step (tx1, s1) (tx2, s2)" by (rule tx_step.execute[OF run(2)])
  ultimately have "?step\<^sup>*\<^sup>* (tx_example, faulty_new) (tx2, s2)"
    by (meson converse_rtranclp_into_rtranclp r_into_rtranclp)
  then show thesis using run(3) that by blast
qed

lemma faulty_new_start: "faulty_staged faulty_new = fmempty"
  by (simp add: faulty_staged_def faulty_new_def fake_new_def)

theorem faults_never_publish_partially_witness:
  "\<exists>tx s d. (tx_step faulty_ops (\<lambda>_. []) faulty_environment)\<^sup>*\<^sup>* (tx_example, faulty_new) (tx, s) \<and>
     tx_state tx = TxFailed (BackendFailure (DeviceLossError ''p0'' d)) \<and>
     fib_committed_writes s = fib_committed_writes faulty_new"
proof -
  obtain tx s d where run: "(tx_step faulty_ops (\<lambda>_. []) faulty_environment)\<^sup>*\<^sup>* (tx_example, faulty_new) (tx, s)"
    "tx_state tx = TxFailed (BackendFailure (DeviceLossError ''p0'' d))"
    by (rule tx_example_fault_run)
  with faults_never_publish_partially[OF tx_example_new faulty_new_start run(1)] show ?thesis by auto
qed

theorem transaction_never_panics_witness:
  "\<exists>tx s d. tx_state (tx :: unit execution_transaction) = TxFailed (BackendFailure (DeviceLossError ''p0'' d)) \<and>
     tx_abort faulty_ops ''stop'' 1 tx s \<noteq> None"
proof -
  obtain tx s d where run: "(tx_step faulty_ops (\<lambda>_. []) faulty_environment)\<^sup>*\<^sup>* (tx_example, faulty_new) (tx, s)"
    "tx_state tx = TxFailed (BackendFailure (DeviceLossError ''p0'' d))"
    by (rule tx_example_fault_run)
  with transaction_never_panics[OF tx_example_new faulty_new_start run(1)] show ?thesis by blast
qed


section \<open>What the code does not promise\<close>

text \<open>The class-three charge is a wrapping sum: a launch that declares an output of nearly
  \<open>2 ^ 64\<close> bytes is charged less than the coordinator scratch alone.\<close>

definition wrapping_launch :: transaction_operation where
  "wrapping_launch = Launch ''p0'' ''l0'' 18446744073709547456"

lemma reservation_charge_wraps:
  assumes "fmlookup (derive_reservation [wrapping_launch] {|''p0''|}) ''p0'' = Some r"
  shows "class_three_bytes r = 0 \<and> scratch_sum [wrapping_launch] ''p0'' = 2 ^ 64"
proof -
  have "scratch_sum [wrapping_launch] ''p0'' = 2 ^ 64"
    by (simp add: scratch_sum_def wrapping_launch_def outputs_of_simps events_of_def)
  with derive_reservation_lookup(2)[OF assms] show ?thesis by (simp add: word_of_nat_eq_0_iff)
qed

text \<open>A \<open>prepare\<close> that fails while holding its reservations leaves the ones already held on the
  backend: the transaction stays \<open>New\<close> with no reservation recorded, so its abort releases
  nothing.\<close>

lemma failed_prepare_keeps_reservations:
  assumes "tx_state tx = TxNew" "tx_reservation tx = None" "tx_staged_write_set tx = fmempty"
    and "prepare_checks tx = Some (Inr (keys, reservation))"
    and "btree_items reservation = [(p, r), (q, r')]" "p \<noteq> q"
    and "p |\<notin>| fake_held s" "q |\<in>| fake_held s"
  shows "\<exists>e tx' s' receipt tx'' s''. tx_prepare fake_ops n tx s = Some (Some (PrepareBackend e), tx', s') \<and>
    tx_abort fake_ops reason n tx' s' = Some (Inr receipt, tx'', s'') \<and> p |\<in>| fake_held s''"
proof -
  let ?s = "s\<lparr>fb_reservations := fmupd p r (fb_reservations s)\<rparr>"
  let ?e = "AllocationError q (''partition '' @ q @ '' already holds a reservation'')"
  have "hold_reservations fake_ops [(p, r), (q, r')] s = (Some ?e, ?s)"
    using assms(6-8) by (simp add: fake_ops_def fake_reserve_def fake_held_def)
  then have prep: "tx_prepare fake_ops n tx s = Some (Some (PrepareBackend ?e), tx, ?s)"
    using assms(1,4,5) by (simp add: tx_prepare_def)
  obtain receipt where "finish_with_receipt (tx_torn_down (CancelledFailure reason) n tx) ?s =
      Some (Inr receipt :: abort_error + _, (tx_torn_down (CancelledFailure reason) n tx)\<lparr>tx_receipt := Some receipt\<rparr>, ?s)"
    using finish_with_receipt_eq[of "tx_torn_down (CancelledFailure reason) n tx" _ ?s] by auto
  then have "\<exists>receipt tx''. tx_abort fake_ops reason n tx ?s = Some (Inr receipt, tx'', ?s)"
    using assms(1-3) by (simp add: tx_abort_def Let_def staged_partitions_def reserved_partitions_def
        retire_all_def release_all_def sorted_list_of_fset.rep_eq)
  moreover have "p |\<in>| fake_held ?s" by (simp add: fake_held_def)
  ultimately show ?thesis using prep by blast
qed

end
