(* ===== verification/KvCache.thy ===== *)
theory KvCache
  imports Prelude
begin

text \<open>
  The typed key/value cache layout of \<open>src/kv_cache.rs\<close>: its dimensions, the storage bytes
  they imply and the admitted bytes with the declared reserve. \<open>elements_per_slot\<close> and
  \<open>storage_bytes_per_slot\<close> multiply with the plain (wrapping) operator, only the last
  multiplication by the slot count and the addition of the reserve are checked.
\<close>

datatype kv_cache_dtype = KvF32

fun kv_dtype_byte_size :: "kv_cache_dtype \<Rightarrow> u32" where
  "kv_dtype_byte_size KvF32 = 4"

fun kv_dtype_spelling :: "kv_cache_dtype \<Rightarrow> string" where
  "kv_dtype_spelling KvF32 = ''f32''"

datatype kv_reserve_policy = KvFixed u64

fun kv_reserve_bytes :: "kv_reserve_policy \<Rightarrow> u64" where
  "kv_reserve_bytes (KvFixed bytes) = bytes"

record kv_cache_layout =
  kl_slots :: u32
  kl_context_length :: u32
  kl_layer_count :: u32
  kl_kv_head_count :: u32
  kl_head_dim :: u32
  kl_dtype :: kv_cache_dtype
  kl_reserve_policy :: kv_reserve_policy

definition kv_layout_new ::
  "u32 \<Rightarrow> u32 \<Rightarrow> u32 \<Rightarrow> u32 \<Rightarrow> u32 \<Rightarrow> kv_cache_dtype \<Rightarrow> kv_reserve_policy \<Rightarrow> kv_cache_layout option" where
  "kv_layout_new slots context_length layer_count kv_head_count head_dim dtype reserve_policy =
     (if slots = 0 \<or> context_length = 0 \<or> layer_count = 0 \<or> kv_head_count = 0 \<or> head_dim = 0
      then None
      else Some \<lparr>kl_slots = slots, kl_context_length = context_length, kl_layer_count = layer_count,
                 kl_kv_head_count = kv_head_count, kl_head_dim = head_dim, kl_dtype = dtype,
                 kl_reserve_policy = reserve_policy\<rparr>)"

definition kv_elements_per_slot :: "kv_cache_layout \<Rightarrow> u64" where
  "kv_elements_per_slot l =
     (let per_layer = (ucast (kl_context_length l) :: u64) * ucast (kl_kv_head_count l) *
                      ucast (kl_head_dim l)
      in per_layer * ucast (kl_layer_count l) * 2)"

definition kv_storage_bytes_per_slot :: "kv_cache_layout \<Rightarrow> u64" where
  "kv_storage_bytes_per_slot l = kv_elements_per_slot l * ucast (kv_dtype_byte_size (kl_dtype l))"

definition kv_total_bytes :: "kv_cache_layout \<Rightarrow> u64 option" where
  "kv_total_bytes l = checked_mul (kv_storage_bytes_per_slot l) (ucast (kl_slots l))"

definition kv_admitted_bytes :: "kv_cache_layout \<Rightarrow> u64 option" where
  "kv_admitted_bytes l = Option.bind (kv_total_bytes l)
     (\<lambda>total. checked_add total (kv_reserve_bytes (kl_reserve_policy l)))"

section \<open>The exact byte figure\<close>

text \<open>What the layout needs, in unbounded arithmetic.\<close>

definition kv_slot_need :: "kv_cache_layout \<Rightarrow> nat" where
  "kv_slot_need l = unat (kl_context_length l) * unat (kl_kv_head_count l) * unat (kl_head_dim l) *
     unat (kl_layer_count l) * 2 * unat (kv_dtype_byte_size (kl_dtype l))"

definition kv_need :: "kv_cache_layout \<Rightarrow> nat" where
  "kv_need l = kv_slot_need l * unat (kl_slots l) + unat (kv_reserve_bytes (kl_reserve_policy l))"

lemma unat_ucast_u32 [wrap_simps]: "unat (ucast (w :: u32) :: u64) = unat w"
  by (simp add: unsigned_ucast_eq take_bit_nat_eq_self unsigned_less[THEN order_less_le_trans])

lemma unat_kv_storage: "unat (kv_storage_bytes_per_slot l) = kv_slot_need l mod 2 ^ 64"
  by (simp add: kv_storage_bytes_per_slot_def kv_elements_per_slot_def kv_slot_need_def Let_def
      unat_word_ariths mod_mult_left_eq mod_mult_right_eq unat_ucast_u32)

lemma kv_layout_new_SomeD:
  assumes "kv_layout_new a b c d e t r = Some l"
  shows "l = \<lparr>kl_slots = a, kl_context_length = b, kl_layer_count = c, kl_kv_head_count = d,
              kl_head_dim = e, kl_dtype = t, kl_reserve_policy = r\<rparr>"
    and "a \<noteq> 0 \<and> b \<noteq> 0 \<and> c \<noteq> 0 \<and> d \<noteq> 0 \<and> e \<noteq> 0"
  using assms by (auto simp: kv_layout_new_def split: if_splits)

text \<open>The admitted figure, in terms of the per-slot storage modulo the word size.\<close>

lemma kv_admitted_iff:
  "kv_admitted_bytes l = Some n \<longleftrightarrow>
     unat n = kv_slot_need l mod 2 ^ 64 * unat (kl_slots l) +
       unat (kv_reserve_bytes (kl_reserve_policy l))" (is "?l \<longleftrightarrow> ?r")
proof
  assume ?l
  then obtain total where "kv_total_bytes l = Some total"
      "checked_add total (kv_reserve_bytes (kl_reserve_policy l)) = Some n"
    by (auto simp: kv_admitted_bytes_def bind_eq_Some_conv)
  then show ?r by (simp add: kv_total_bytes_def wrap_simps unat_kv_storage)
next
  assume r: ?r
  have "unat n < 2 ^ 64" using unsigned_less[of n, where 'a = nat] by simp
  with r have "kv_slot_need l mod 2 ^ 64 * unat (kl_slots l) < 2 ^ 64" by linarith
  then have "checked_mul (kv_storage_bytes_per_slot l) (ucast (kl_slots l)) \<noteq> None"
    by (simp add: checked_mul_def unat_kv_storage unat_ucast_u32)
  then obtain total where t: "kv_total_bytes l = Some total"
    by (auto simp: kv_total_bytes_def)
  then have "unat total = kv_slot_need l mod 2 ^ 64 * unat (kl_slots l)"
    by (simp add: kv_total_bytes_def wrap_simps unat_kv_storage)
  with r t show ?l by (simp add: kv_admitted_bytes_def wrap_simps)
qed

lemma unat_word_of_nat_u64: "k < 2 ^ 64 \<Longrightarrow> unat (word_of_nat k :: u64) = k"
  by (simp add: unat_of_nat take_bit_nat_eq_self)

lemma ex_unat_u64: "(\<exists>n :: u64. unat n = k) \<longleftrightarrow> k < 2 ^ 64"
proof
  show "\<exists>n :: u64. unat n = k \<Longrightarrow> k < 2 ^ 64"
    using unsigned_less[where 'a = nat and 'b = 64] by auto
  show "k < 2 ^ 64 \<Longrightarrow> \<exists>n :: u64. unat n = k"
    by (rule exI[of _ "word_of_nat k"]) (simp add: unat_word_of_nat_u64)
qed

lemma kv_admitted_None_iff:
  "kv_admitted_bytes l = None \<longleftrightarrow>
     2 ^ 64 \<le> kv_slot_need l mod 2 ^ 64 * unat (kl_slots l) +
       unat (kv_reserve_bytes (kl_reserve_policy l))"
proof -
  have "kv_admitted_bytes l \<noteq> None \<longleftrightarrow> (\<exists>n. kv_admitted_bytes l = Some n)" by auto
  also have "\<dots> \<longleftrightarrow> kv_slot_need l mod 2 ^ 64 * unat (kl_slots l) +
       unat (kv_reserve_bytes (kl_reserve_policy l)) < 2 ^ 64"
    unfolding kv_admitted_iff by (rule ex_unat_u64)
  finally show ?thesis by linarith
qed

section \<open>Properties\<close>

text \<open>A layout accepted by the constructor whose storage for one slot fits 64 bits is
  accounted exactly: the admitted figure is the true number of bytes for keys and values of
  every position, layer, head and slot plus the reserve, and it is refused exactly when that
  number does not fit 64 bits.\<close>

theorem kv_admitted_bytes_exact:
  assumes "kv_layout_new slots ctx layers heads dim t r = Some l"
    and "kv_slot_need l < 2 ^ 64"
  shows "kv_admitted_bytes l = (if kv_need l < 2 ^ 64 then Some (word_of_nat (kv_need l)) else None) \<and>
    kv_need l = unat ctx * unat heads * unat dim * unat layers * 2 * 4 * unat slots +
      unat (kv_reserve_bytes r)"
proof (intro conjI)
  have m: "kv_slot_need l mod 2 ^ 64 = kv_slot_need l" using assms(2) by simp
  show "kv_admitted_bytes l = (if kv_need l < 2 ^ 64 then Some (word_of_nat (kv_need l)) else None)"
  proof (cases "kv_need l < 2 ^ 64")
    case True
    then have "kv_admitted_bytes l = Some (word_of_nat (kv_need l))"
      unfolding kv_admitted_iff m by (metis True kv_need_def unat_word_of_nat_u64)
    with True show ?thesis by simp
  next
    case False
    then show ?thesis using kv_admitted_None_iff[of l] m by (simp add: kv_need_def)
  qed
  show "kv_need l = unat ctx * unat heads * unat dim * unat layers * 2 * 4 * unat slots +
      unat (kv_reserve_bytes r)"
    using kv_layout_new_SomeD(1)[OF assms(1)] by (cases t) (simp add: kv_need_def kv_slot_need_def)
qed

text \<open>The pinned row: 8192 positions, 32 layers, 5 heads of dimension 64, one slot.\<close>

definition example_kv_layout :: kv_cache_layout where
  "example_kv_layout = \<lparr>kl_slots = 1, kl_context_length = 8192, kl_layer_count = 32,
     kl_kv_head_count = 5, kl_head_dim = 64, kl_dtype = KvF32, kl_reserve_policy = KvFixed 4096\<rparr>"

theorem kv_admitted_bytes_exact_witness: "kv_admitted_bytes example_kv_layout = Some 671092736"
proof -
  have new: "kv_layout_new 1 8192 32 5 64 KvF32 (KvFixed 4096) = Some example_kv_layout"
    by (simp add: kv_layout_new_def example_kv_layout_def)
  have slot: "kv_slot_need example_kv_layout < 2 ^ 64"
    by (simp add: kv_slot_need_def example_kv_layout_def)
  show ?thesis
    using kv_admitted_bytes_exact[OF new slot] by simp
qed

text \<open>When the storage of one slot does not fit 64 bits, the unchecked multiplications wrap: a
  layout of 2 to the 93 bytes is accounted as zero bytes instead of being refused.\<close>

lemma kv_oversized_layout_wraps:
  "\<exists>l. kv_layout_new 1 (2 ^ 31) (2 ^ 29) (2 ^ 15) (2 ^ 15) KvF32 (KvFixed 0) = Some l \<and>
       kv_need l = 2 ^ 93 \<and> kv_admitted_bytes l = Some 0"
proof -
  define l where "l = \<lparr>kl_slots = 1, kl_context_length = 2 ^ 31, kl_layer_count = 2 ^ 29,
     kl_kv_head_count = 2 ^ 15, kl_head_dim = 2 ^ 15, kl_dtype = KvF32, kl_reserve_policy = KvFixed 0\<rparr>"
  have need: "kv_slot_need l = 2 ^ 93" "kv_need l = 2 ^ 93"
    by (simp_all add: l_def kv_slot_need_def kv_need_def)
  have "kv_admitted_bytes l = Some 0"
    unfolding kv_admitted_iff need by (simp add: l_def)
  moreover have "kv_layout_new 1 (2 ^ 31) (2 ^ 29) (2 ^ 15) (2 ^ 15) KvF32 (KvFixed 0) = Some l"
    by (simp add: kv_layout_new_def l_def)
  ultimately show ?thesis using need by blast
qed

end
