(* ===== verification/Session.thy ===== *)
theory Session
  imports TxMirror KvCache
begin

text \<open>
  The inference session contract of \<open>src/session.rs\<close>: model and sequence identities, the two
  residency keys, invocations, and the sequence state whose position, token history and KV
  generation advance together through \<open>SequenceState::commit\<close>.
\<close>

section \<open>Identities and residency keys\<close>

record model_instance =
  mi_model_id :: string
  mi_bytes_sha256 :: bytes
  mi_bytes_len :: u64

definition short_sha256 :: "model_instance \<Rightarrow> string" where
  "short_sha256 m = hex_lower (take 8 (mi_bytes_sha256 m))"

record model_residency_key =
  mk_session_id :: u64
  mk_model_epoch :: u64

record sequence_residency_key =
  qk_session_id :: u64
  qk_sequence_id :: u64
  qk_epoch :: u64

definition model_weights_reusable :: "model_residency_key \<Rightarrow> model_residency_key \<Rightarrow> bool" where
  "model_weights_reusable stored requested \<longleftrightarrow> stored = requested"

definition sequence_kv_reusable :: "sequence_residency_key \<Rightarrow> sequence_residency_key \<Rightarrow> bool" where
  "sequence_kv_reusable stored requested \<longleftrightarrow> stored = requested"

section \<open>Workload modes and cadence\<close>

datatype invocation_mode = Prefill | ScalarDecode

fun mode_spelling :: "invocation_mode \<Rightarrow> string" where
  "mode_spelling Prefill = ''prefill''"
| "mode_spelling ScalarDecode = ''scalar_decode''"

definition mode_is_prefill :: "invocation_mode \<Rightarrow> bool" where
  "mode_is_prefill m \<longleftrightarrow> m = Prefill"

definition mode_is_decode :: "invocation_mode \<Rightarrow> bool" where
  "mode_is_decode m \<longleftrightarrow> m = ScalarDecode"

datatype input_update_cadence = Resident | PerInvocation

fun cadence_spelling :: "input_update_cadence \<Rightarrow> string" where
  "cadence_spelling Resident = ''resident''"
| "cadence_spelling PerInvocation = ''per_invocation''"

datatype invocation_output = OutLogits | OutSelectedToken

record invocation =
  inv_mode :: invocation_mode
  inv_sequence_id :: u64
  inv_token :: i64
  inv_position :: u32
  inv_output :: invocation_output

definition invocation_prefill :: "u64 \<Rightarrow> i64 \<Rightarrow> u32 \<Rightarrow> invocation" where
  "invocation_prefill sequence_id token position =
     \<lparr>inv_mode = Prefill, inv_sequence_id = sequence_id, inv_token = token,
      inv_position = position, inv_output = OutLogits\<rparr>"

definition invocation_scalar_decode :: "u64 \<Rightarrow> i64 \<Rightarrow> u32 \<Rightarrow> invocation" where
  "invocation_scalar_decode sequence_id token position =
     \<lparr>inv_mode = ScalarDecode, inv_sequence_id = sequence_id, inv_token = token,
      inv_position = position, inv_output = OutLogits\<rparr>"

section \<open>The sequence state\<close>

record sequence_state =
  sq_sequence_id :: u64
  sq_position :: u32
  sq_token_history :: "i64 list"
  sq_kv_generations :: u64

record token_commit =
  tc_token :: i64
  tc_position :: u32
  tc_kv_generation :: u64
  tc_publication_boundary :: commit_boundary

datatype sequence_commit_outcome = Applied | IdempotentReplay

datatype sequence_commit_error =
    NoPublicationBoundary
  | OutOfOrderPosition u32 u32
  | KvGenerationGap u64 u64

definition commit_error_is_retryable :: "sequence_commit_error \<Rightarrow> bool" where
  "commit_error_is_retryable e = False"

definition sequence_new :: "u64 \<Rightarrow> i64 list \<Rightarrow> sequence_state" where
  "sequence_new sequence_id prompt =
     (let len = length prompt
      in \<lparr>sq_sequence_id = sequence_id, sq_position = word_of_nat len, sq_token_history = prompt,
          sq_kv_generations = word_of_nat len\<rparr>)"

definition sequence_commit ::
  "sequence_state \<Rightarrow> token_commit
   \<Rightarrow> (sequence_commit_error + sequence_commit_outcome) \<times> sequence_state" where
  "sequence_commit s c =
     (if boundary_is_empty (tc_publication_boundary c) then (Inl NoPublicationBoundary, s)
      else if tc_position c = saturating_sub (sq_position s) 1 \<and>
              tc_kv_generation c = sq_kv_generations s \<and>
              sq_token_history s \<noteq> [] \<and> last (sq_token_history s) = tc_token c
      then (Inr IdempotentReplay, s)
      else if tc_position c \<noteq> sq_position s
      then (Inl (OutOfOrderPosition (sq_position s) (tc_position c)), s)
      else let expected_generation = sq_kv_generations s + 1 in
      if tc_kv_generation c \<noteq> expected_generation
      then (Inl (KvGenerationGap expected_generation (tc_kv_generation c)), s)
      else (Inr Applied,
            s\<lparr>sq_token_history := sq_token_history s @ [tc_token c],
              sq_position := sq_position s + 1,
              sq_kv_generations := sq_kv_generations s + 1\<rparr>))"

section \<open>The execution session\<close>

record execution_session =
  es_session_id :: u64
  es_model :: model_instance
  es_kv_layout :: kv_cache_layout
  es_model_epoch :: u64
  es_sequence_epoch :: u64
  es_sequence :: sequence_state

definition session_new ::
  "u64 \<Rightarrow> model_instance \<Rightarrow> kv_cache_layout \<Rightarrow> u64 \<Rightarrow> u64 \<Rightarrow> sequence_state \<Rightarrow> execution_session" where
  "session_new session_id model kv_layout model_epoch sequence_epoch sequence =
     \<lparr>es_session_id = session_id, es_model = model, es_kv_layout = kv_layout,
      es_model_epoch = model_epoch, es_sequence_epoch = sequence_epoch, es_sequence = sequence\<rparr>"

definition session_model_key :: "execution_session \<Rightarrow> model_residency_key" where
  "session_model_key s = \<lparr>mk_session_id = es_session_id s, mk_model_epoch = es_model_epoch s\<rparr>"

definition session_sequence_key :: "execution_session \<Rightarrow> sequence_residency_key" where
  "session_sequence_key s = \<lparr>qk_session_id = es_session_id s,
     qk_sequence_id = sq_sequence_id (es_sequence s), qk_epoch = es_sequence_epoch s\<rparr>"

text \<open>\<open>session.sequence_mut().commit(c)\<close>: the only way a caller advances the sequence.\<close>

definition session_commit ::
  "execution_session \<Rightarrow> token_commit
   \<Rightarrow> (sequence_commit_error + sequence_commit_outcome) \<times> execution_session" where
  "session_commit s c =
     (let (result, sequence) = sequence_commit (es_sequence s) c
      in (result, s\<lparr>es_sequence := sequence\<rparr>))"

section \<open>What one commit does\<close>

text \<open>The commit the sequence is waiting for.\<close>

definition commit_is_next :: "sequence_state \<Rightarrow> token_commit \<Rightarrow> bool" where
  "commit_is_next s c \<longleftrightarrow> \<not> boundary_is_empty (tc_publication_boundary c) \<and>
     tc_position c = sq_position s \<and> tc_kv_generation c = sq_kv_generations s + 1"

definition sequence_pushed :: "sequence_state \<Rightarrow> token_commit \<Rightarrow> sequence_state" where
  "sequence_pushed s c = s\<lparr>sq_token_history := sq_token_history s @ [tc_token c],
     sq_position := sq_position s + 1, sq_kv_generations := sq_kv_generations s + 1\<rparr>"

lemma sequence_commit_next:
  "commit_is_next s c \<Longrightarrow> sequence_commit s c = (Inr Applied, sequence_pushed s c)"
  by (auto simp: sequence_commit_def commit_is_next_def sequence_pushed_def Let_def)

lemma sequence_commit_not_next:
  "\<not> commit_is_next s c \<Longrightarrow> snd (sequence_commit s c) = s \<and> fst (sequence_commit s c) \<noteq> Inr Applied"
  by (auto simp: sequence_commit_def commit_is_next_def Let_def)

lemma sequence_commit_applied_iff:
  "fst (sequence_commit s c) = Inr Applied \<longleftrightarrow> commit_is_next s c"
  using sequence_commit_next sequence_commit_not_next by fastforce

lemma snd_sequence_commit:
  "snd (sequence_commit s c) = (if commit_is_next s c then sequence_pushed s c else s)"
  by (simp add: sequence_commit_next sequence_commit_not_next)

lemma sequence_pushed_simps [accessor_simps]:
  "sq_token_history (sequence_pushed s c) = sq_token_history s @ [tc_token c]"
  "sq_position (sequence_pushed s c) = sq_position s + 1"
  "sq_kv_generations (sequence_pushed s c) = sq_kv_generations s + 1"
  "sq_sequence_id (sequence_pushed s c) = sq_sequence_id s"
  by (simp_all add: sequence_pushed_def)

section \<open>Sequences of commits\<close>

text \<open>A client that submits commits one after the other, whatever their outcomes; the applied ones
  are collected.\<close>

fun session_run :: "execution_session \<Rightarrow> token_commit list \<Rightarrow> token_commit list \<times> execution_session" where
  "session_run s [] = ([], s)"
| "session_run s (c # cs) =
     (let (result, s') = session_commit s c;
          (applied, s'') = session_run s' cs
      in (if result = Inr Applied then c # applied else applied, s''))"

lemma session_run_Cons:
  "session_run s (c # cs) =
     (if commit_is_next (es_sequence s) c
      then (c # fst (session_run (s\<lparr>es_sequence := sequence_pushed (es_sequence s) c\<rparr>) cs),
            snd (session_run (s\<lparr>es_sequence := sequence_pushed (es_sequence s) c\<rparr>) cs))
      else session_run s cs)"
  using sequence_commit_not_next[of "es_sequence s" c]
  by (auto simp: session_commit_def Let_def sequence_commit_next split: prod.splits)

declare session_run.simps(2) [simp del]

text \<open>The state after a history: the invariant that ties the three facts together.\<close>

definition sequence_tied :: "sequence_state \<Rightarrow> bool" where
  "sequence_tied s \<longleftrightarrow> sq_position s = word_of_nat (length (sq_token_history s)) \<and>
     sq_kv_generations s = word_of_nat (length (sq_token_history s))"

lemma sequence_tied_new: "sequence_tied (sequence_new i prompt)"
  by (simp add: sequence_tied_def sequence_new_def Let_def)

lemma sequence_tied_pushed: "sequence_tied s \<Longrightarrow> sequence_tied (sequence_pushed s c)"
  by (simp add: sequence_tied_def accessor_simps add.commute)

text \<open>What a run from \<open>s\<close> to \<open>s'\<close> that applied the commits \<open>applied\<close> has done.\<close>

definition run_explained :: "execution_session \<Rightarrow> token_commit list \<Rightarrow> execution_session \<Rightarrow> bool" where
  "run_explained s applied s' \<longleftrightarrow>
     sequence_tied (es_sequence s') \<and>
     sq_token_history (es_sequence s') = sq_token_history (es_sequence s) @ map tc_token applied \<and>
     map tc_position applied = map word_of_nat
       [length (sq_token_history (es_sequence s))..<length (sq_token_history (es_sequence s'))] \<and>
     (\<forall>c \<in> set applied. \<not> boundary_is_empty (tc_publication_boundary c)) \<and>
     sq_sequence_id (es_sequence s') = sq_sequence_id (es_sequence s) \<and>
     session_model_key s' = session_model_key s \<and>
     es_sequence_epoch s' = es_sequence_epoch s"

lemma run_explained_Nil: "sequence_tied (es_sequence s) \<Longrightarrow> run_explained s [] s"
  by (simp add: run_explained_def)

lemma run_explained_Cons:
  assumes "sequence_tied (es_sequence s)" "commit_is_next (es_sequence s) c"
    and e: "run_explained (s\<lparr>es_sequence := sequence_pushed (es_sequence s) c\<rparr>) applied s'"
  shows "run_explained s (c # applied) s'"
proof -
  have hist: "sq_token_history (es_sequence s') =
      sq_token_history (es_sequence s) @ tc_token c # map tc_token applied"
    using e by (simp add: run_explained_def accessor_simps)
  have "map tc_position applied = map word_of_nat
      [Suc (length (sq_token_history (es_sequence s)))..<length (sq_token_history (es_sequence s'))]"
    using e by (simp add: run_explained_def accessor_simps)
  moreover have "tc_position c = word_of_nat (length (sq_token_history (es_sequence s)))"
    using assms(1,2) by (simp add: sequence_tied_def commit_is_next_def)
  ultimately have "map tc_position (c # applied) = map word_of_nat
      [length (sq_token_history (es_sequence s))..<length (sq_token_history (es_sequence s'))]"
    by (simp add: hist upt_conv_Cons del: upt_Suc)
  then show ?thesis
    using e hist assms(2)
    by (simp add: run_explained_def accessor_simps commit_is_next_def session_model_key_def)
qed

lemma session_run_explained:
  "sequence_tied (es_sequence s) \<Longrightarrow> run_explained s (fst (session_run s cs)) (snd (session_run s cs))"
proof (induction cs arbitrary: s)
  case Nil
  then show ?case by (simp add: run_explained_Nil)
next
  case (Cons c cs)
  show ?case
  proof (cases "commit_is_next (es_sequence s) c")
    case True
    then show ?thesis
      using Cons.IH[of "s\<lparr>es_sequence := sequence_pushed (es_sequence s) c\<rparr>"] Cons.prems
      by (simp add: session_run_Cons run_explained_Cons sequence_tied_pushed)
  next
    case False
    with Cons show ?thesis by (simp add: session_run_Cons)
  qed
qed

section \<open>Properties\<close>

text \<open>C11: after any series of commits, accepted or not, on a session opened on a prompt, the token
  history is the prompt followed by exactly the applied tokens, the position and the KV
  generation both count that history (modulo their width), the applied commits carried the
  consecutive positions after the prompt, each at most once and none with an empty publication
  boundary, and neither residency key has changed, so the resident weights and the resident KV
  state stay reusable.\<close>

theorem sequence_advances_together:
  fixes run :: "token_commit list \<Rightarrow> token_commit list \<times> execution_session"
  assumes run: "run = session_run (session_new sid m layout me se (sequence_new qid prompt))"
  shows "sq_token_history (es_sequence (snd (run cs))) = prompt @ map tc_token (fst (run cs)) \<and>
    sq_position (es_sequence (snd (run cs))) =
      word_of_nat (length (sq_token_history (es_sequence (snd (run cs))))) \<and>
    sq_kv_generations (es_sequence (snd (run cs))) =
      word_of_nat (length (sq_token_history (es_sequence (snd (run cs))))) \<and>
    map tc_position (fst (run cs)) = map word_of_nat
      [length prompt..<length (sq_token_history (es_sequence (snd (run cs))))] \<and>
    list_all (\<lambda>c. \<not> boundary_is_empty (tc_publication_boundary c)) (fst (run cs)) \<and>
    model_weights_reusable \<lparr>mk_session_id = sid, mk_model_epoch = me\<rparr>
      (session_model_key (snd (run cs))) \<and>
    sequence_kv_reusable \<lparr>qk_session_id = sid, qk_sequence_id = qid, qk_epoch = se\<rparr>
      (session_sequence_key (snd (run cs)))"
  using session_run_explained[of "session_new sid m layout me se (sequence_new qid prompt)" cs]
    sequence_tied_new[of qid prompt]
  unfolding run
  by (simp_all add: run_explained_def session_new_def sequence_new_def Let_def sequence_tied_def
      list_all_iff model_weights_reusable_def sequence_kv_reusable_def session_model_key_def
      session_sequence_key_def)

text \<open>C12: a commit that was applied can be submitted again after a lost acknowledgement: it is
  recognised as a replay and nothing moves, so a token is never advanced twice. A different
  token for that position is refused, also without moving anything. (At the very
  last 32-bit position the counter wraps.)\<close>

theorem commit_retry_never_double_advances:
  assumes "sequence_commit s c = (Inr Applied, s')"
    and "unat (sq_position s) < 2 ^ 32 - 1"
  shows "sequence_commit s' c = (Inr IdempotentReplay, s') \<and>
    sq_token_history s' = sq_token_history s @ [tc_token c] \<and>
    (tc_token d \<noteq> tc_token c \<longrightarrow> tc_position d = tc_position c
      \<longrightarrow> \<not> boundary_is_empty (tc_publication_boundary d)
      \<longrightarrow> sequence_commit s' d = (Inl (OutOfOrderPosition (sq_position s') (tc_position d)), s'))"
proof (intro conjI impI)
  have n: "commit_is_next s c" using assms(1) sequence_commit_applied_iff[of s c] by simp
  then have s': "s' = sequence_pushed s c" using assms(1) by (simp add: sequence_commit_next)
  have p: "unat (sq_position s') = unat (sq_position s) + 1"
    using assms(2) by (simp add: s' accessor_simps unat_word_ariths)
  have "unat (saturating_sub (sq_position s') 1) = unat (sq_position s)"
    using p by (simp add: wrap_simps)
  then have pred: "saturating_sub (sq_position s') 1 = sq_position s"
    by (simp add: word_unat_eq_iff)
  have ne: "sq_position s \<noteq> sq_position s'" using p by auto
  note facts = n[unfolded commit_is_next_def]
  show "sequence_commit s' c = (Inr IdempotentReplay, s')"
    using facts pred by (simp add: sequence_commit_def) (simp add: s' accessor_simps)
  show "sq_token_history s' = sq_token_history s @ [tc_token c]"
    by (simp add: s' accessor_simps)
  assume "tc_token d \<noteq> tc_token c" "tc_position d = tc_position c"
    "\<not> boundary_is_empty (tc_publication_boundary d)"
  then show "sequence_commit s' d = (Inl (OutOfOrderPosition (sq_position s') (tc_position d)), s')"
    using facts ne by (auto simp: sequence_commit_def s' accessor_simps)
qed

definition example_commit :: "i64 \<Rightarrow> u32 \<Rightarrow> u64 \<Rightarrow> token_commit" where
  "example_commit t p g = \<lparr>tc_token = t, tc_position = p, tc_kv_generation = g,
     tc_publication_boundary = boundary_new [''b0''] []\<rparr>"

lemma example_commit_boundary [simp]:
  "\<not> boundary_is_empty (tc_publication_boundary (example_commit t p g))"
  by (simp add: example_commit_def boundary_is_empty_def boundary_new_def)

lemma example_commit_next: "commit_is_next (sequence_new 1 [504, 2365]) (example_commit 30 2 3)"
  by (simp add: commit_is_next_def sequence_new_def Let_def example_commit_def boundary_is_empty_def
      boundary_new_def)

theorem commit_retry_never_double_advances_witness:
  "let s = sequence_pushed (sequence_new 1 [504, 2365]) (example_commit 30 2 3)
   in sequence_commit s (example_commit 30 2 3) = (Inr IdempotentReplay, s) \<and>
      sq_token_history s = [504, 2365, 30] \<and>
      sequence_commit s (example_commit 31 2 3) = (Inl (OutOfOrderPosition 3 2), s)"
proof -
  note facts = commit_retry_never_double_advances[OF sequence_commit_next[OF example_commit_next]]
  have "unat (sq_position (sequence_new 1 [504, 2365])) < 2 ^ 32 - 1"
    by (simp add: sequence_new_def Let_def)
  then show ?thesis
    using facts[of "example_commit 31 2 3"]
    by (simp add: Let_def accessor_simps) (simp add: sequence_new_def example_commit_def Let_def)
qed

text \<open>Two commits, one refused in between: the run of the first property on a concrete session.\<close>

theorem sequence_advances_together_witness:
  "sq_token_history (es_sequence (snd (session_run
     (session_new 7 \<lparr>mi_model_id = ''m'', mi_bytes_sha256 = [], mi_bytes_len = 0\<rparr> example_kv_layout 1 1
       (sequence_new 1 [504, 2365]))
     [example_commit 30 2 3, example_commit 99 5 4, example_commit 198 3 4]))) = [504, 2365] @ [30, 198]"
  unfolding conjunct1[OF sequence_advances_together[OF refl]]
  by (simp add: session_run_Cons session_new_def sequence_new_def commit_is_next_def
      boundary_is_empty_def boundary_new_def accessor_simps example_commit_def Let_def)

end
