(* ===== verification/Policy.thy ===== *)
theory Policy
  imports DeviceSet Partition "HOL-Library.Multiset"
begin

text \<open>
  The two-pass policy evaluator of \<open>src/policy.rs\<close>: four gates reject candidate plans with the
  exact failing fact, the objectives rank only the plans that passed every gate, and the
  explained receipt records both with a fingerprint of its canonical bytes. The stable
  \<open>sort_by\<close> of the standard library is an insertion sort over the same comparison closure.
\<close>

section \<open>Gates and objectives\<close>

datatype gate_class = HealthEpochMembership | Compatibility | RequiredMemory | TopologyGate

fun gate_tag :: "gate_class \<Rightarrow> u64" where
  "gate_tag HealthEpochMembership = 0"
| "gate_tag Compatibility = 1"
| "gate_tag RequiredMemory = 2"
| "gate_tag TopologyGate = 3"

record gate_violation =
  gv_gate :: gate_class
  gv_device :: "physical_device_id option"
  gv_failing_fact :: string

record plan_rejection =
  pr_plan :: string
  pr_violations :: "gate_violation list"

datatype objective =
  Latency | Throughput | CapacityReserve | CacheAffinity | ExpertHotness | TransferBudget | Power

fun objective_tag :: "objective \<Rightarrow> u64" where
  "objective_tag Latency = 0"
| "objective_tag Throughput = 1"
| "objective_tag CapacityReserve = 2"
| "objective_tag CacheAffinity = 3"
| "objective_tag ExpertHotness = 4"
| "objective_tag TransferBudget = 5"
| "objective_tag Power = 6"

datatype objective_direction = Minimize | Maximize

fun objective_direction_of :: "objective \<Rightarrow> objective_direction" where
  "objective_direction_of Latency = Minimize"
| "objective_direction_of TransferBudget = Minimize"
| "objective_direction_of Power = Minimize"
| "objective_direction_of Throughput = Maximize"
| "objective_direction_of CapacityReserve = Maximize"
| "objective_direction_of CacheAffinity = Maximize"
| "objective_direction_of ExpertHotness = Maximize"

record objective_score =
  os_objective :: objective
  os_value :: u64

record ranked_plan =
  rp_rank :: nat
  rp_plan :: string
  rp_devices :: "physical_device_id list"
  rp_scores :: "objective_score list"

record explained_receipt =
  er_snapshot_id_hex :: string
  er_current_generation :: device_health_generation
  er_per_device_budget :: "(physical_device_id \<times> safe_physical_limit) list"
  er_total_budget :: "safe_physical_limit option"
  er_objectives :: "objective list"
  er_rejected :: "plan_rejection list"
  er_ranked :: "ranked_plan list"
  er_determinism_fingerprint :: string

record policy_outcome =
  po_rejected :: "plan_rejection list"
  po_ranked :: "ranked_plan list"
  po_receipt :: explained_receipt

section \<open>Declared inputs\<close>

record declared_constraints =
  dcs_current_generation :: device_health_generation
  dcs_topology :: device_topology_snapshot
  dcs_per_device_budget :: "(physical_device_id, safe_physical_limit) fmap"
  dcs_total_budget :: "safe_physical_limit option"

record required_capabilities =
  rc_min_compute_capability :: "compute_capability option"
  rc_min_sm_count :: "u32 option"
  rc_required_dtypes :: dtype_surface

definition required_capabilities_default :: required_capabilities where
  "required_capabilities_default = \<lparr>rc_min_compute_capability = None, rc_min_sm_count = None,
     rc_required_dtypes = dtype_surface_empty\<rparr>"

record objective_facts =
  of_latency_nanos :: "u64 option"
  of_throughput_tokens_per_sec :: "u64 option"
  of_cache_affinity_hit_rate_milli :: "u64 option"
  of_expert_hotness_score :: "u64 option"
  of_transfer_bytes :: "u64 option"
  of_estimated_power_milliwatts :: "u64 option"

record device_assignment =
  da_device :: physical_device_id
  da_required :: partition_budget_ledger
  da_required_capabilities :: required_capabilities

definition assignment_new :: "physical_device_id \<Rightarrow> partition_budget_ledger \<Rightarrow> device_assignment" where
  "assignment_new device required = \<lparr>da_device = device, da_required = required,
     da_required_capabilities = required_capabilities_default\<rparr>"

record plan_transfer =
  pt_from :: physical_device_id
  pt_to :: physical_device_id

record candidate_plan =
  cp_name :: string
  cp_assignments :: "device_assignment list"
  cp_transfers :: "plan_transfer list"
  cp_declared_total_bytes :: u64
  cp_facts :: objective_facts

record policy_request =
  pq_discovery :: device_discovery_snapshot
  pq_selection :: device_set_selection
  pq_constraints :: declared_constraints
  pq_objectives :: "objective list"
  pq_plans :: "candidate_plan list"

section \<open>The gates\<close>

text \<open>The texts are built from the \<open>Display\<close> forms; \<open>arrow_text\<close> is the UTF-8 arrow.\<close>

definition arrow_text :: string where
  "arrow_text = [CHR '' '', CHR 0xE2, CHR 0x86, CHR 0x92, CHR '' '']"

fun join_texts :: "string \<Rightarrow> string list \<Rightarrow> string" where
  "join_texts sep [] = []"
| "join_texts sep [x] = x"
| "join_texts sep (x # xs) = x @ sep @ join_texts sep xs"

abbreviation show_word :: "'w::len word \<Rightarrow> string" where
  "show_word w \<equiv> show_nat (unat w)"

definition selection_violation :: "device_health_generation \<Rightarrow> selection_error \<Rightarrow> gate_violation" where
  "selection_violation frozen err = (case err of
     Membership (UnknownDevice d) \<Rightarrow>
       \<lparr>gv_gate = HealthEpochMembership, gv_device = Some d,
        gv_failing_fact = ''device '' @ device_id_display d @
          '' is not recorded in the snapshot (unknown or replaced)''\<rparr>
   | Membership (StaleEpoch d recorded current) \<Rightarrow>
       \<lparr>gv_gate = HealthEpochMembership, gv_device = Some d,
        gv_failing_fact = ''device '' @ device_id_display d @ '' recorded at generation '' @
          show_word recorded @ '', current is '' @ show_word current\<rparr>
   | BelowMinimum mn actual \<Rightarrow>
       \<lparr>gv_gate = HealthEpochMembership, gv_device = None,
        gv_failing_fact = ''selection resolved '' @ show_nat actual @
          '' member(s), below declared minimum '' @ show_nat mn\<rparr>
   | AboveMaximum mx actual \<Rightarrow>
       \<lparr>gv_gate = HealthEpochMembership, gv_device = None,
        gv_failing_fact = ''selection resolved '' @ show_nat actual @
          '' member(s), above declared maximum '' @ show_nat mx\<rparr>)"

definition gate_health_epoch_selection :: "policy_request \<Rightarrow> gate_violation + device_set" where
  "gate_health_epoch_selection request =
     (let current = dcs_current_generation (pq_constraints request);
          discovery = pq_discovery request in
      if snapshot_is_stale discovery current
      then let stale_entries =
             map (\<lambda>entry. device_id_display (de_identity entry) @ '' recorded at generation '' @
                    show_word (de_health_generation entry))
               (filter (\<lambda>entry. health_is_stale current (de_health_generation entry))
                 (btree_values (snap_devices discovery)))
           in Inl \<lparr>gv_gate = HealthEpochMembership, gv_device = None,
                   gv_failing_fact = ''snapshot '' @ hex_lower (snap_id discovery) @
                     '' carries stale health generation(s): '' @ join_texts ''; '' stale_entries\<rparr>
      else case selection_resolve (pq_selection request) discovery current of
             Inl err \<Rightarrow> Inl (selection_violation current err)
           | Inr s \<Rightarrow> Inr s)"

definition gate_membership :: "candidate_plan \<Rightarrow> device_set \<Rightarrow> gate_violation list" where
  "gate_membership plan s = concat (map (\<lambda>assignment.
     if \<not> device_set_contains s (da_device assignment)
     then [\<lparr>gv_gate = HealthEpochMembership, gv_device = Some (da_device assignment),
            gv_failing_fact = ''device '' @ device_id_display (da_device assignment) @
              '' is not a current-epoch member of the resolved selection''\<rparr>]
     else []) (cp_assignments plan))"

definition dtype_names :: "string list" where
  "dtype_names = [''f32'', ''f64'', ''f16'', ''bf16'', ''i8'', ''i32'']"

definition dtype_supported :: "dtype_surface \<Rightarrow> string \<Rightarrow> bool" where
  "dtype_supported surface name =
     (if name = ''f32'' then ds_f32 surface
      else if name = ''f64'' then ds_f64 surface
      else if name = ''f16'' then ds_f16 surface
      else if name = ''bf16'' then ds_bf16 surface
      else if name = ''i8'' then ds_i8 surface
      else if name = ''i32'' then ds_i32 surface
      else False)"

text \<open>The checks of one assignment whose entry was found, in the order of the loop body.\<close>

definition compute_violations :: "device_assignment \<Rightarrow> device_capabilities \<Rightarrow> gate_violation list" where
  "compute_violations assignment caps =
     (case rc_min_compute_capability (da_required_capabilities assignment) of
        None \<Rightarrow> []
      | Some required_cc \<Rightarrow>
          let got = compute_capability_of caps in
          if (cc_major got, cc_minor got) < (cc_major required_cc, cc_minor required_cc)
          then [\<lparr>gv_gate = Compatibility, gv_device = Some (da_device assignment),
                 gv_failing_fact = ''compute capability '' @ show_word (cc_major got) @ ''.'' @
                   show_word (cc_minor got) @ '' is below required '' @ show_word (cc_major required_cc) @
                   ''.'' @ show_word (cc_minor required_cc)\<rparr>]
          else [])"

definition dtype_violations :: "device_assignment \<Rightarrow> device_capabilities \<Rightarrow> gate_violation list" where
  "dtype_violations assignment caps = concat (map (\<lambda>name.
     if dtype_supported (rc_required_dtypes (da_required_capabilities assignment)) name \<and>
        \<not> dtype_supported (dtype_surface_of caps) name
     then [\<lparr>gv_gate = Compatibility, gv_device = Some (da_device assignment),
            gv_failing_fact = ''device '' @ device_id_display (da_device assignment) @
              '' lacks required dtype '' @ name\<rparr>]
     else []) dtype_names)"

definition sm_violations :: "device_assignment \<Rightarrow> device_capabilities \<Rightarrow> gate_violation list" where
  "sm_violations assignment caps =
     (case rc_min_sm_count (da_required_capabilities assignment) of
        None \<Rightarrow> []
      | Some required_sms \<Rightarrow>
          if sm_count caps < required_sms
          then [\<lparr>gv_gate = Compatibility, gv_device = Some (da_device assignment),
                 gv_failing_fact = ''sm count '' @ show_word (sm_count caps) @ '' is below required '' @
                   show_word required_sms\<rparr>]
          else [])"

definition gate_compatibility ::
  "candidate_plan \<Rightarrow> device_discovery_snapshot \<Rightarrow> gate_violation list" where
  "gate_compatibility plan discovery = concat (map (\<lambda>assignment.
     case find_entry discovery (da_device assignment) of
       None \<Rightarrow> [\<lparr>gv_gate = Compatibility, gv_device = Some (da_device assignment),
                 gv_failing_fact = ''no capability facts recorded for '' @
                   device_id_display (da_device assignment) @ '' in the snapshot''\<rparr>]
     | Some entry \<Rightarrow>
         compute_violations assignment (de_capabilities entry) @
         dtype_violations assignment (de_capabilities entry) @
         sm_violations assignment (de_capabilities entry)) (cp_assignments plan))"

definition assignment_memory_violations ::
  "declared_constraints \<Rightarrow> device_assignment \<Rightarrow> gate_violation list" where
  "assignment_memory_violations constraints assignment =
     (case fmlookup (dcs_per_device_budget constraints) (da_device assignment) of
        None \<Rightarrow> [\<lparr>gv_gate = RequiredMemory, gv_device = Some (da_device assignment),
                  gv_failing_fact = ''no declared admitted budget for device '' @
                    device_id_display (da_device assignment) @ '' (fail-closed)''\<rparr>]
      | Some limit \<Rightarrow>
          (case ledger_total_bytes (da_required assignment) of
             Some declared \<Rightarrow>
               if declared \<le> limit then []
               else [\<lparr>gv_gate = RequiredMemory, gv_device = Some (da_device assignment),
                      gv_failing_fact = ''budget_exceeded: declared '' @ show_word declared @
                        '' bytes exceeds policy limit '' @ show_word limit @ '' bytes (SafePhysicalLimit)''\<rparr>]
           | None \<Rightarrow> [\<lparr>gv_gate = RequiredMemory, gv_device = Some (da_device assignment),
                       gv_failing_fact = ''budget_exceeded: declared ledger overflow; policy limit '' @
                         show_word limit @ '' bytes''\<rparr>]))"

definition gate_memory :: "candidate_plan \<Rightarrow> declared_constraints \<Rightarrow> gate_violation list" where
  "gate_memory plan constraints =
     concat (map (assignment_memory_violations constraints) (cp_assignments plan)) @
     (case dcs_total_budget constraints of
        None \<Rightarrow> []
      | Some total_budget \<Rightarrow>
          if total_budget < cp_declared_total_bytes plan
          then [\<lparr>gv_gate = RequiredMemory, gv_device = None,
                 gv_failing_fact = ''declared total '' @ show_word (cp_declared_total_bytes plan) @
                   '' bytes exceeds declared total budget '' @ show_word total_budget @ '' bytes''\<rparr>]
          else [])"

definition link_failing_fact :: "plan_transfer \<Rightarrow> link_gate_error \<Rightarrow> string" where
  "link_failing_fact transfer err = (case err of
     UnknownEndpoint endpoint \<Rightarrow>
       ''transfer '' @ device_id_display (pt_from transfer) @ arrow_text @
       device_id_display (pt_to transfer) @ '': endpoint '' @ device_id_display endpoint @
       '' is not a device in the topology''
   | NoLinkRecorded from to \<Rightarrow>
       ''transfer '' @ device_id_display from @ arrow_text @ device_id_display to @
       '': no directed link recorded; unmeasured pairs are never assumed''
   | GateNotAttempted from to \<Rightarrow>
       ''transfer '' @ device_id_display from @ arrow_text @ device_id_display to @
       '': directed link is NOT ATTEMPTED''
   | GateRejected from to reason \<Rightarrow>
       ''transfer '' @ device_id_display from @ arrow_text @ device_id_display to @
       '': directed link rejected ('' @ reason @ '')'')"

definition gate_topology :: "candidate_plan \<Rightarrow> device_topology_snapshot \<Rightarrow> gate_violation list" where
  "gate_topology plan topology = concat (map (\<lambda>transfer.
     case traversal_allowed topology (pt_from transfer) (pt_to transfer) of
       None \<Rightarrow> []
     | Some err \<Rightarrow> [\<lparr>gv_gate = TopologyGate, gv_device = None,
                     gv_failing_fact = link_failing_fact transfer err\<rparr>]) (cp_transfers plan))"

section \<open>Ranking\<close>

text \<open>The computed headroom.\<close>

definition capacity_reserve_bytes :: "candidate_plan \<Rightarrow> declared_constraints \<Rightarrow> u64" where
  "capacity_reserve_bytes plan constraints = foldl (\<lambda>reserve assignment.
     case fmlookup (dcs_per_device_budget constraints) (da_device assignment) of
       None \<Rightarrow> reserve
     | Some limit \<Rightarrow>
         (case ledger_total_bytes (da_required assignment) of
            None \<Rightarrow> reserve
          | Some required \<Rightarrow> saturating_add reserve (saturating_sub limit required)))
     0 (cp_assignments plan)"

definition unwrap_or :: "'a option \<Rightarrow> 'a \<Rightarrow> 'a" where
  "unwrap_or v d = (case v of Some x \<Rightarrow> x | None \<Rightarrow> d)"

fun objective_value :: "candidate_plan \<Rightarrow> objective \<Rightarrow> declared_constraints \<Rightarrow> u64" where
  "objective_value plan Latency c = unwrap_or (of_latency_nanos (cp_facts plan)) (- 1)"
| "objective_value plan Throughput c = unwrap_or (of_throughput_tokens_per_sec (cp_facts plan)) 0"
| "objective_value plan CapacityReserve c = capacity_reserve_bytes plan c"
| "objective_value plan CacheAffinity c = unwrap_or (of_cache_affinity_hit_rate_milli (cp_facts plan)) 0"
| "objective_value plan ExpertHotness c = unwrap_or (of_expert_hotness_score (cp_facts plan)) 0"
| "objective_value plan TransferBudget c = unwrap_or (of_transfer_bytes (cp_facts plan)) (- 1)"
| "objective_value plan Power c = unwrap_or (of_estimated_power_milliwatts (cp_facts plan)) (- 1)"

datatype cmp_ordering = CmpLess | CmpEqual | CmpGreater

definition cmp_of :: "'a::linorder \<Rightarrow> 'a \<Rightarrow> cmp_ordering" where
  "cmp_of a b = (if a < b then CmpLess else if a = b then CmpEqual else CmpGreater)"

record scored_plan =
  sp_plan :: candidate_plan
  sp_values :: "u64 list"
  sp_devices :: "physical_device_id fset"

definition score_plan ::
  "objective list \<Rightarrow> declared_constraints \<Rightarrow> candidate_plan \<Rightarrow> scored_plan" where
  "score_plan objectives constraints plan =
     \<lparr>sp_plan = plan,
      sp_values = map (\<lambda>objective. objective_value plan objective constraints) objectives,
      sp_devices = fset_of_list (map da_device (cp_assignments plan))\<rparr>"

fun compare_values :: "objective list \<Rightarrow> u64 list \<Rightarrow> u64 list \<Rightarrow> cmp_ordering" where
  "compare_values (objective # os) (a # as) (b # bs) =
     (let ord = (case objective_direction_of objective of
                   Minimize \<Rightarrow> cmp_of a b
                 | Maximize \<Rightarrow> cmp_of b a)
      in if ord \<noteq> CmpEqual then ord else compare_values os as bs)"
| "compare_values _ _ _ = CmpEqual"

definition compare_scored :: "objective list \<Rightarrow> scored_plan \<Rightarrow> scored_plan \<Rightarrow> cmp_ordering" where
  "compare_scored objectives a b =
     (let ord = compare_values objectives (sp_values a) (sp_values b)
      in if ord \<noteq> CmpEqual then ord
         else cmp_of (sorted_list_of_fset (sp_devices a)) (sorted_list_of_fset (sp_devices b)))"

fun insert_by :: "('a \<Rightarrow> 'a \<Rightarrow> cmp_ordering) \<Rightarrow> 'a \<Rightarrow> 'a list \<Rightarrow> 'a list" where
  "insert_by cmp x [] = [x]"
| "insert_by cmp x (y # ys) = (if cmp x y \<noteq> CmpGreater then x # y # ys else y # insert_by cmp x ys)"

definition sort_by :: "('a \<Rightarrow> 'a \<Rightarrow> cmp_ordering) \<Rightarrow> 'a list \<Rightarrow> 'a list" where
  "sort_by cmp xs = foldr (insert_by cmp) xs []"

definition ranked_entry :: "objective list \<Rightarrow> nat \<times> scored_plan \<Rightarrow> ranked_plan" where
  "ranked_entry objectives item = (case item of (rank, scored) \<Rightarrow>
     \<lparr>rp_rank = rank + 1, rp_plan = cp_name (sp_plan scored),
      rp_devices = sorted_list_of_fset (sp_devices scored),
      rp_scores = map (\<lambda>(objective, value). \<lparr>os_objective = objective, os_value = value\<rparr>)
        (zip objectives (sp_values scored))\<rparr>)"

definition rank_plans ::
  "candidate_plan list \<Rightarrow> objective list \<Rightarrow> declared_constraints \<Rightarrow> ranked_plan list" where
  "rank_plans passers objectives constraints =
     (if passers = [] then []
      else let scored = map (score_plan objectives constraints) passers;
               scored = sort_by (compare_scored objectives) scored
           in map (ranked_entry objectives) (List.enumerate 0 scored))"

section \<open>The receipt and its fingerprint\<close>

definition push_budget_item :: "bytes \<Rightarrow> physical_device_id \<times> safe_physical_limit \<Rightarrow> bytes" where
  "push_budget_item out item = push_u64 (out @ device_id_canonical_bytes (fst item)) (snd item)"

definition push_violation :: "bytes \<Rightarrow> gate_violation \<Rightarrow> bytes" where
  "push_violation out v =
     (let out = push_u64 out (gate_tag (gv_gate v));
          out = push_bool out (gv_device v \<noteq> None);
          out = (case gv_device v of Some device \<Rightarrow> out @ device_id_canonical_bytes device | None \<Rightarrow> out)
      in push_str out (gv_failing_fact v))"

definition push_rejection :: "bytes \<Rightarrow> plan_rejection \<Rightarrow> bytes" where
  "push_rejection out r =
     (let out = push_str out (pr_plan r);
          out = push_u64 out (word_of_nat (length (pr_violations r)))
      in push_each push_violation (pr_violations r) out)"

definition push_score :: "bytes \<Rightarrow> objective_score \<Rightarrow> bytes" where
  "push_score out s = push_u64 (push_u64 out (objective_tag (os_objective s))) (os_value s)"

definition push_ranked :: "bytes \<Rightarrow> ranked_plan \<Rightarrow> bytes" where
  "push_ranked out r =
     (let out = push_u64 out (word_of_nat (rp_rank r));
          out = push_str out (rp_plan r);
          out = push_u64 out (word_of_nat (length (rp_devices r)));
          out = push_each push_device_id (rp_devices r) out;
          out = push_u64 out (word_of_nat (length (rp_scores r)))
      in push_each push_score (rp_scores r) out)"

definition push_objective :: "bytes \<Rightarrow> objective \<Rightarrow> bytes" where
  "push_objective out objective = push_u64 out (objective_tag objective)"

definition policy_receipt_canonical_bytes :: "explained_receipt \<Rightarrow> bytes" where
  "policy_receipt_canonical_bytes r =
     (let out = push_str [] (er_snapshot_id_hex r);
          out = push_u64 out (er_current_generation r);
          out = push_u64 out (word_of_nat (length (er_per_device_budget r)));
          out = push_each push_budget_item (er_per_device_budget r) out;
          out = push_bool out (er_total_budget r \<noteq> None);
          out = (case er_total_budget r of Some limit \<Rightarrow> push_u64 out limit | None \<Rightarrow> out);
          out = push_u64 out (word_of_nat (length (er_objectives r)));
          out = push_each push_objective (er_objectives r) out;
          out = push_u64 out (word_of_nat (length (er_rejected r)));
          out = push_each push_rejection (er_rejected r) out;
          out = push_u64 out (word_of_nat (length (er_ranked r)))
      in push_each push_ranked (er_ranked r) out)"

definition fnv1a64 :: "bytes \<Rightarrow> u64" where
  "fnv1a64 bs = foldl (\<lambda>hash byte. (hash XOR ucast byte) * 0x00000100000001b3) 0xcbf29ce484222325 bs"

definition hex64 :: "u64 \<Rightarrow> string" where
  "hex64 value = hex_lower (rev (u64_to_le_bytes value))"

section \<open>The evaluator\<close>

definition plan_violations ::
  "policy_request \<Rightarrow> device_set \<Rightarrow> candidate_plan \<Rightarrow> gate_violation list" where
  "plan_violations request s plan =
     gate_membership plan s @ gate_compatibility plan (pq_discovery request) @
     gate_memory plan (pq_constraints request) @
     gate_topology plan (dcs_topology (pq_constraints request))"

text \<open>The loop over the plans: rejections and passers, both in input order.\<close>

fun gate_plans ::
  "policy_request \<Rightarrow> device_set \<Rightarrow> candidate_plan list \<Rightarrow> plan_rejection list \<times> candidate_plan list" where
  "gate_plans request s [] = ([], [])"
| "gate_plans request s (plan # plans) =
     (let violations = plan_violations request s plan;
          (rejected, passers) = gate_plans request s plans
      in if violations = [] then (rejected, plan # passers)
         else (\<lparr>pr_plan = cp_name plan, pr_violations = violations\<rparr> # rejected, passers))"

definition policy_passes :: "policy_request \<Rightarrow> plan_rejection list \<times> ranked_plan list" where
  "policy_passes request =
     (case gate_health_epoch_selection request of
        Inr s \<Rightarrow>
          (let (rejected, passers) = gate_plans request s (pq_plans request)
           in (rejected, rank_plans passers (pq_objectives request) (pq_constraints request)))
      | Inl violation \<Rightarrow>
          (map (\<lambda>plan. \<lparr>pr_plan = cp_name plan, pr_violations = [violation]\<rparr>) (pq_plans request), []))"

definition policy_evaluate :: "policy_request \<Rightarrow> policy_outcome option" where
  "policy_evaluate request =
     (if topo_discovery (dcs_topology (pq_constraints request)) \<noteq> pq_discovery request then None
      else let (rejected, ranked) = policy_passes request;
               receipt = \<lparr>er_snapshot_id_hex = hex_lower (snap_id (pq_discovery request)),
                 er_current_generation = dcs_current_generation (pq_constraints request),
                 er_per_device_budget = btree_items (dcs_per_device_budget (pq_constraints request)),
                 er_total_budget = dcs_total_budget (pq_constraints request),
                 er_objectives = pq_objectives request,
                 er_rejected = rejected, er_ranked = ranked, er_determinism_fingerprint = []\<rparr>;
               bs = policy_receipt_canonical_bytes receipt
           in Some \<lparr>po_rejected = rejected, po_ranked = ranked,
                    po_receipt = receipt\<lparr>er_determinism_fingerprint := hex64 (fnv1a64 bs)\<rparr>\<rparr>)"

section \<open>What the gates admit\<close>

text \<open>The conditions of the four gates, stated over the facts.\<close>

definition capabilities_meet :: "required_capabilities \<Rightarrow> device_capabilities \<Rightarrow> bool" where
  "capabilities_meet req caps \<longleftrightarrow>
     (\<forall>cc. rc_min_compute_capability req = Some cc \<longrightarrow>
        cc_major cc < cc_major (compute_capability_of caps) \<or>
        cc_major cc = cc_major (compute_capability_of caps) \<and>
        cc_minor cc \<le> cc_minor (compute_capability_of caps)) \<and>
     (ds_f32 (rc_required_dtypes req) \<longrightarrow> ds_f32 (dtype_surface_of caps)) \<and>
     (ds_f64 (rc_required_dtypes req) \<longrightarrow> ds_f64 (dtype_surface_of caps)) \<and>
     (ds_f16 (rc_required_dtypes req) \<longrightarrow> ds_f16 (dtype_surface_of caps)) \<and>
     (ds_bf16 (rc_required_dtypes req) \<longrightarrow> ds_bf16 (dtype_surface_of caps)) \<and>
     (ds_i8 (rc_required_dtypes req) \<longrightarrow> ds_i8 (dtype_surface_of caps)) \<and>
     (ds_i32 (rc_required_dtypes req) \<longrightarrow> ds_i32 (dtype_surface_of caps)) \<and>
     (\<forall>n. rc_min_sm_count req = Some n \<longrightarrow> n \<le> sm_count caps)"

definition assignment_feasible ::
  "policy_request \<Rightarrow> device_set \<Rightarrow> device_assignment \<Rightarrow> bool" where
  "assignment_feasible r s a \<longleftrightarrow>
     da_device a |\<in>| members s \<and>
     (\<exists>e. find_entry (pq_discovery r) (da_device a) = Some e \<and>
          capabilities_meet (da_required_capabilities a) (de_capabilities e)) \<and>
     (\<exists>limit. fmlookup (dcs_per_device_budget (pq_constraints r)) (da_device a) = Some limit \<and>
          ledger_sum (da_required a) \<le> unat limit)"

definition plan_feasible :: "policy_request \<Rightarrow> device_set \<Rightarrow> candidate_plan \<Rightarrow> bool" where
  "plan_feasible r s p \<longleftrightarrow>
     (\<forall>a \<in> set (cp_assignments p). assignment_feasible r s a) \<and>
     (\<forall>t. dcs_total_budget (pq_constraints r) = Some t \<longrightarrow> cp_declared_total_bytes p \<le> t) \<and>
     (\<forall>t \<in> set (cp_transfers p).
        traversal_allowed (dcs_topology (pq_constraints r)) (pt_from t) (pt_to t) = None)"

lemma gate_membership_Nil_iff:
  "gate_membership p s = [] \<longleftrightarrow> (\<forall>a \<in> set (cp_assignments p). da_device a |\<in>| members s)"
  by (auto simp: gate_membership_def device_set_contains_def)

lemma compute_violations_Nil_iff:
  "compute_violations a caps = [] \<longleftrightarrow>
     (\<forall>cc. rc_min_compute_capability (da_required_capabilities a) = Some cc \<longrightarrow>
        cc_major cc < cc_major (compute_capability_of caps) \<or>
        cc_major cc = cc_major (compute_capability_of caps) \<and>
        cc_minor cc \<le> cc_minor (compute_capability_of caps))"
  by (auto simp: compute_violations_def Let_def less_prod_def' split: option.splits)

lemma dtype_supported_simps:
  "dtype_supported d ''f32'' = ds_f32 d" "dtype_supported d ''f64'' = ds_f64 d"
  "dtype_supported d ''f16'' = ds_f16 d" "dtype_supported d ''bf16'' = ds_bf16 d"
  "dtype_supported d ''i8'' = ds_i8 d" "dtype_supported d ''i32'' = ds_i32 d"
  by (simp_all add: dtype_supported_def)

lemma gate_compatibility_Nil_iff:
  "gate_compatibility p d = [] \<longleftrightarrow> (\<forall>a \<in> set (cp_assignments p).
     \<exists>e. find_entry d (da_device a) = Some e \<and>
         capabilities_meet (da_required_capabilities a) (de_capabilities e))"
proof -
  have "dtype_violations a caps = [] \<and> sm_violations a caps = [] \<and> compute_violations a caps = [] \<longleftrightarrow>
      capabilities_meet (da_required_capabilities a) caps" for a caps
    unfolding capabilities_meet_def compute_violations_Nil_iff
    by (auto simp: dtype_violations_def dtype_names_def dtype_supported_simps sm_violations_def
        not_less split: option.splits)
  then have "compute_violations a caps = [] \<and> dtype_violations a caps = [] \<and> sm_violations a caps = [] \<longleftrightarrow>
      capabilities_meet (da_required_capabilities a) caps" for a caps
    by blast
  then show ?thesis
    by (simp add: gate_compatibility_def concat_eq_Nil_conv split: option.splits) fastforce
qed

lemma assignment_memory_violations_Nil_iff:
  "assignment_memory_violations c a = [] \<longleftrightarrow>
     (\<exists>limit. fmlookup (dcs_per_device_budget c) (da_device a) = Some limit \<and>
        ledger_sum (da_required a) \<le> unat limit)"
proof (cases "fmlookup (dcs_per_device_budget c) (da_device a)")
  case None
  then show ?thesis by (simp add: assignment_memory_violations_def)
next
  case (Some limit)
  have "unat limit < 2 ^ 64" using unsigned_less[of limit, where 'a = nat] by simp
  then have "ledger_sum (da_required a) \<le> unat limit \<longleftrightarrow>
      ledger_sum (da_required a) < 2 ^ 64 \<and> word_of_nat (ledger_sum (da_required a)) \<le> limit"
    by (auto simp: word_le_nat_alt unat_of_nat take_bit_nat_eq_self)
  with Some show ?thesis
    by (simp add: assignment_memory_violations_def ledger_total_bytes_eq)
qed

lemma gate_memory_Nil_iff:
  "gate_memory p c = [] \<longleftrightarrow>
     (\<forall>a \<in> set (cp_assignments p). \<exists>limit. fmlookup (dcs_per_device_budget c) (da_device a) = Some limit \<and>
        ledger_sum (da_required a) \<le> unat limit) \<and>
     (\<forall>t. dcs_total_budget c = Some t \<longrightarrow> cp_declared_total_bytes p \<le> t)"
  by (auto simp: gate_memory_def concat_eq_Nil_conv assignment_memory_violations_Nil_iff not_less
      split: option.splits)

lemma gate_topology_Nil_iff:
  "gate_topology p t = [] \<longleftrightarrow>
     (\<forall>x \<in> set (cp_transfers p). traversal_allowed t (pt_from x) (pt_to x) = None)"
  by (auto simp: gate_topology_def concat_eq_Nil_conv split: option.splits)

lemma plan_violations_Nil_iff: "plan_violations r s p = [] \<longleftrightarrow> plan_feasible r s p"
  unfolding plan_violations_def plan_feasible_def assignment_feasible_def append_is_Nil_conv
    gate_membership_Nil_iff gate_compatibility_Nil_iff gate_memory_Nil_iff gate_topology_Nil_iff
  by blast

lemma gate_plans_eq:
  "gate_plans r s ps =
     (map (\<lambda>p. \<lparr>pr_plan = cp_name p, pr_violations = plan_violations r s p\<rparr>)
        (filter (\<lambda>p. \<not> plan_feasible r s p) ps),
      filter (plan_feasible r s) ps)"
  by (induction ps) (auto simp: Let_def plan_violations_Nil_iff split: prod.splits)

section \<open>The order of the ranking\<close>

text \<open>\<open>a\<close> is strictly better than \<open>b\<close> for an objective.\<close>

definition objective_better :: "objective \<Rightarrow> u64 \<Rightarrow> u64 \<Rightarrow> bool" where
  "objective_better objective a b \<longleftrightarrow>
     (case objective_direction_of objective of Minimize \<Rightarrow> a < b | Maximize \<Rightarrow> b < a)"

text \<open>The documented preference: the first declared objective on which two plans differ decides,
  then the stable device identities.\<close>

definition plan_at_least_as_good ::
  "objective list \<Rightarrow> declared_constraints \<Rightarrow> candidate_plan \<Rightarrow> candidate_plan \<Rightarrow> bool" where
  "plan_at_least_as_good objs c p q \<longleftrightarrow>
     (\<exists>i < length objs. (\<forall>j < i. objective_value p (objs ! j) c = objective_value q (objs ! j) c) \<and>
        objective_better (objs ! i) (objective_value p (objs ! i) c) (objective_value q (objs ! i) c)) \<or>
     (\<forall>o' \<in> set objs. objective_value p o' c = objective_value q o' c) \<and>
     sorted_list_of_fset (fset_of_list (map da_device (cp_assignments p)))
       \<le> sorted_list_of_fset (fset_of_list (map da_device (cp_assignments q)))"

text \<open>A key whose lexicographic order is the comparison: maximised values are complemented.\<close>

definition directed_value :: "objective \<Rightarrow> u64 \<Rightarrow> u64" where
  "directed_value objective v =
     (case objective_direction_of objective of Minimize \<Rightarrow> v | Maximize \<Rightarrow> - 1 - v)"

definition scored_key :: "objective list \<Rightarrow> scored_plan \<Rightarrow> u64 list \<times> physical_device_id list" where
  "scored_key objs s =
     (map (\<lambda>(objective, v). directed_value objective v) (zip objs (sp_values s)),
      sorted_list_of_fset (sp_devices s))"

lemma complement_less_iff: "(- 1 - a < - 1 - b) \<longleftrightarrow> b < a" for a b :: u64
proof -
  have u: "unat (- 1 - x :: u64) = 2 ^ 64 - 1 - unat x" for x
    by (subst unat_sub) (simp_all add: unsigned_minus_1_eq_mask mask_eq_exp_minus_1)
  have "unat a < 2 ^ 64" "unat b < 2 ^ 64"
    using unsigned_less[of a, where 'a = nat] unsigned_less[of b, where 'a = nat] by simp_all
  then show ?thesis unfolding word_less_nat_alt u by linarith
qed

lemma directed_value_less: "directed_value o' a < directed_value o' b \<longleftrightarrow> objective_better o' a b"
  by (simp add: directed_value_def objective_better_def complement_less_iff split: objective_direction.splits)

lemma directed_value_inject: "directed_value o' a = directed_value o' b \<longleftrightarrow> a = b"
  by (simp add: directed_value_def split: objective_direction.splits)

lemma compare_values_cmp:
  "length objs = length as \<Longrightarrow> length objs = length bs \<Longrightarrow>
   compare_values objs as bs =
     cmp_of (map (\<lambda>(o', v). directed_value o' v) (zip objs as)) (map (\<lambda>(o', v). directed_value o' v) (zip objs bs))"
proof (induction objs as bs rule: compare_values.induct)
  case (1 o' os a as b bs)
  have "(case objective_direction_of o' of Minimize \<Rightarrow> cmp_of a b | Maximize \<Rightarrow> cmp_of b a) =
      cmp_of (directed_value o' a) (directed_value o' b)"
    by (auto simp: cmp_of_def directed_value_def complement_less_iff split: objective_direction.splits)
  with 1 show ?case by (auto simp: Let_def cmp_of_def)
qed (auto simp: cmp_of_def)

lemma compare_scored_iff:
  assumes "length objs = length (sp_values a)" "length objs = length (sp_values b)"
  shows "compare_scored objs a b \<noteq> CmpGreater \<longleftrightarrow> scored_key objs a \<le> scored_key objs b"
  unfolding compare_scored_def Let_def compare_values_cmp[OF assms] scored_key_def
  by (auto simp: cmp_of_def less_eq_prod_simp)

lemma insert_by_key:
  assumes "\<forall>y \<in> set ys. cmp x y \<noteq> CmpGreater \<longleftrightarrow> key x \<le> key y"
  shows "insert_by cmp x ys = insort_key key x ys"
  using assms by (induction ys) auto

lemma set_insert_by [simp]: "set (insert_by cmp x ys) = insert x (set ys)"
  by (induction ys) auto

lemma sort_by_key:
  assumes "\<forall>x \<in> set xs. \<forall>y \<in> set xs. cmp x y \<noteq> CmpGreater \<longleftrightarrow> key x \<le> key y"
  shows "sort_by cmp xs = sort_key key xs"
  using assms
proof (induction xs)
  case Nil
  then show ?case by (simp add: sort_by_def)
next
  case (Cons x xs)
  then have "sort_by cmp xs = sort_key key xs" by simp
  then have "sort_by cmp (x # xs) = insert_by cmp x (sort_key key xs)" by (simp add: sort_by_def)
  also have "\<dots> = insort_key key x (sort_key key xs)" using Cons.prems by (intro insert_by_key) simp
  finally show ?case by simp
qed

definition plan_key ::
  "objective list \<Rightarrow> declared_constraints \<Rightarrow> candidate_plan \<Rightarrow> u64 list \<times> physical_device_id list" where
  "plan_key objs c p = scored_key objs (score_plan objs c p)"

lemma plan_key_eq:
  "plan_key objs c p = (map (\<lambda>o'. directed_value o' (objective_value p o' c)) objs,
     sorted_list_of_fset (fset_of_list (map da_device (cp_assignments p))))"
  by (simp add: plan_key_def scored_key_def score_plan_def zip_map2 zip_same_conv_map comp_def)

lemma pair_le_iff: "(a, b) \<le> (c, d) \<longleftrightarrow> a < c \<or> a = c \<and> b \<le> d"
  for a :: "'a::linorder" and b :: "'b::linorder"
  by (auto simp: less_eq_prod_simp)

lemma list_le_first_difference:
  fixes xs ys :: "'a::linorder list"
  assumes "length xs = length ys"
  shows "xs < ys \<longleftrightarrow> (\<exists>i < length xs. (\<forall>j < i. xs ! j = ys ! j) \<and> xs ! i < ys ! i)"
  using assms
proof (induction xs ys rule: list_induct2)
  case Nil
  then show ?case by simp
next
  case (Cons x xs y ys)
  show ?case
    by (auto simp: Cons.IH Ex_less_Suc2 All_less_Suc2)
qed

lemma plan_at_least_as_good_iff:
  "plan_at_least_as_good objs c p q \<longleftrightarrow> plan_key objs c p \<le> plan_key objs c q"
proof -
  let ?v = "\<lambda>p. map (\<lambda>o'. directed_value o' (objective_value p o' c)) objs"
  have "?v p < ?v q \<longleftrightarrow> (\<exists>i < length objs.
      (\<forall>j < i. objective_value p (objs ! j) c = objective_value q (objs ! j) c) \<and>
      objective_better (objs ! i) (objective_value p (objs ! i) c) (objective_value q (objs ! i) c))"
    by (subst list_le_first_difference)
      (auto simp: directed_value_less directed_value_inject intro!: ex_cong1)
  moreover have "?v p = ?v q \<longleftrightarrow> (\<forall>o' \<in> set objs. objective_value p o' c = objective_value q o' c)"
    by (auto simp: directed_value_inject)
  ultimately show ?thesis
    unfolding plan_at_least_as_good_def plan_key_eq pair_le_iff by (simp del: fset_of_list_map)
qed

lemma rank_plans_eq:
  "rank_plans ps objs c =
     map (ranked_entry objs) (List.enumerate 0 (map (score_plan objs c) (sort_key (plan_key objs c) ps)))"
proof -
  have key: "sort_by (compare_scored objs) (map (score_plan objs c) ps) =
      sort_key (scored_key objs) (map (score_plan objs c) ps)"
    by (rule sort_by_key) (auto simp: compare_scored_iff score_plan_def)
  have "sort_key (scored_key objs) (map f ps) = map f (sort_key (\<lambda>p. scored_key objs (f p)) ps)"
    for f :: "candidate_plan \<Rightarrow> scored_plan"
  proof (induction ps)
    case (Cons p ps)
    have "insort_key (scored_key objs) (f p) (map f qs) =
        map f (insort_key (\<lambda>p. scored_key objs (f p)) p qs)" for qs
      by (induction qs) auto
    with Cons show ?case by simp
  qed simp
  then show ?thesis by (simp add: rank_plans_def key plan_key_def[abs_def])
qed

lemma rank_plans_fields:
  "map rp_plan (rank_plans ps objs c) = map cp_name (sort_key (plan_key objs c) ps)"
  "map rp_rank (rank_plans ps objs c) = [1..<Suc (length ps)]"
  "map rp_devices (rank_plans ps objs c) = map (\<lambda>p. sorted_list_of_fset
     (fset_of_list (map da_device (cp_assignments p)))) (sort_key (plan_key objs c) ps)"
  "map (\<lambda>x. map os_value (rp_scores x)) (rank_plans ps objs c) =
     map (\<lambda>p. map (\<lambda>o'. objective_value p o' c) objs) (sort_key (plan_key objs c) ps)"
  unfolding rank_plans_eq
  by (auto simp: enumerate_eq_zip ranked_entry_def score_plan_def comp_def intro!: nth_equalityI
      simp del: fset_of_list_map upt_Suc)

lemma policy_evaluate_SomeD:
  assumes "policy_evaluate r = Some out"
  shows "po_rejected out = fst (policy_passes r)" "po_ranked out = snd (policy_passes r)"
    "topo_discovery (dcs_topology (pq_constraints r)) = pq_discovery r"
  using assms by (auto simp: policy_evaluate_def Let_def split: if_splits prod.splits)

text \<open>The selection gate passed.\<close>

definition selection_admits :: "policy_request \<Rightarrow> device_set \<Rightarrow> bool" where
  "selection_admits r s \<longleftrightarrow>
     snapshot_is_current_generation (pq_discovery r) (dcs_current_generation (pq_constraints r)) \<and>
     selection_resolve (pq_selection r) (pq_discovery r) (dcs_current_generation (pq_constraints r)) = Inr s"

lemma gate_health_epoch_selection_Inr_iff:
  "gate_health_epoch_selection r = Inr s \<longleftrightarrow> selection_admits r s"
  by (auto simp: gate_health_epoch_selection_def selection_admits_def Let_def
      snapshot_is_current_generation_def split: sum.splits)

lemma gate_health_epoch_selection_gate:
  "gate_health_epoch_selection r = Inl v \<Longrightarrow> gv_gate v = HealthEpochMembership"
  by (auto simp: gate_health_epoch_selection_def Let_def selection_violation_def
      split: if_splits sum.splits selection_error.splits membership_error.splits)

lemma policy_passes_admitted:
  "selection_admits r s \<Longrightarrow> policy_passes r =
     (map (\<lambda>p. \<lparr>pr_plan = cp_name p, pr_violations = plan_violations r s p\<rparr>)
        (filter (\<lambda>p. \<not> plan_feasible r s p) (pq_plans r)),
      rank_plans (filter (plan_feasible r s) (pq_plans r)) (pq_objectives r) (pq_constraints r))"
  unfolding gate_health_epoch_selection_Inr_iff[symmetric]
  by (simp add: policy_passes_def gate_plans_eq)

lemma policy_passes_refused:
  "\<nexists>s. selection_admits r s \<Longrightarrow> \<exists>v. gv_gate v = HealthEpochMembership \<and>
     policy_passes r = (map (\<lambda>p. \<lparr>pr_plan = cp_name p, pr_violations = [v]\<rparr>) (pq_plans r), [])"
  using gate_health_epoch_selection_Inr_iff[of r] gate_health_epoch_selection_gate[of r]
  by (cases "gate_health_epoch_selection r") (auto simp: policy_passes_def)

section \<open>The receipt is determined by its bytes\<close>

text \<open>A list preceded by its length.\<close>

definition enc_counted :: "('a \<Rightarrow> bytes) \<Rightarrow> 'a list \<Rightarrow> bytes" where
  "enc_counted enc xs = enc_u64 (word_of_nat (length xs)) @ concat (map enc xs)"

context prefix_code
begin

lemma enc_counted_append_iff:
  assumes "length xs < 2 ^ 64" "length ys < 2 ^ 64" "list_all ok xs" "list_all ok ys"
  shows "enc_counted enc xs @ u = enc_counted enc ys @ v \<longleftrightarrow> xs = ys \<and> u = v"
  using counted_append_iff[of xs ys u v] assms by (simp add: enc_counted_def list_all_iff)

lemma enc_counted_inject:
  assumes "length xs < 2 ^ 64" "length ys < 2 ^ 64" "list_all ok xs" "list_all ok ys"
  shows "enc_counted enc xs = enc_counted enc ys \<longleftrightarrow> xs = ys"
  using enc_counted_append_iff[OF assms, of "[]" "[]"] by simp

end

lemma gate_tag_inject [simp]: "gate_tag a = gate_tag b \<longleftrightarrow> a = b"
  by (cases a; cases b) simp_all

lemma objective_tag_inject [simp]: "objective_tag a = objective_tag b \<longleftrightarrow> a = b"
  by (cases a; cases b) simp_all

definition violation_ok :: "gate_violation \<Rightarrow> bool" where
  "violation_ok v \<longleftrightarrow> pred_option device_id_ok (gv_device v) \<and> str_ok (gv_failing_fact v)"

definition rejection_ok :: "plan_rejection \<Rightarrow> bool" where
  "rejection_ok r \<longleftrightarrow> str_ok (pr_plan r) \<and> length (pr_violations r) < 2 ^ 64 \<and>
     list_all violation_ok (pr_violations r)"

definition ranked_ok :: "ranked_plan \<Rightarrow> bool" where
  "ranked_ok r \<longleftrightarrow> rp_rank r < 2 ^ 64 \<and> str_ok (rp_plan r) \<and> length (rp_devices r) < 2 ^ 64 \<and>
     list_all device_id_ok (rp_devices r) \<and> length (rp_scores r) < 2 ^ 64"

definition budget_item_ok :: "physical_device_id \<times> safe_physical_limit \<Rightarrow> bool" where
  "budget_item_ok item \<longleftrightarrow> device_id_ok (fst item)"

definition enc_violation :: "gate_violation \<Rightarrow> bytes" where
  "enc_violation v = enc_u64 (gate_tag (gv_gate v)) @ enc_opt device_id_canonical_bytes (gv_device v) @
     enc_str (gv_failing_fact v)"

definition enc_rejection :: "plan_rejection \<Rightarrow> bytes" where
  "enc_rejection r = enc_str (pr_plan r) @ enc_counted enc_violation (pr_violations r)"

definition enc_score :: "objective_score \<Rightarrow> bytes" where
  "enc_score s = enc_u64 (objective_tag (os_objective s)) @ enc_u64 (os_value s)"

definition enc_ranked :: "ranked_plan \<Rightarrow> bytes" where
  "enc_ranked r = enc_u64 (word_of_nat (rp_rank r)) @ enc_str (rp_plan r) @
     enc_counted device_id_canonical_bytes (rp_devices r) @
     enc_counted enc_score (rp_scores r)"

definition enc_budget_item :: "physical_device_id \<times> safe_physical_limit \<Rightarrow> bytes" where
  "enc_budget_item item = device_id_canonical_bytes (fst item) @ enc_u64 (snd item)"

definition enc_objective :: "objective \<Rightarrow> bytes" where
  "enc_objective objective = enc_u64 (objective_tag objective)"

interpretation violation_code: prefix_code enc_violation violation_ok
  by unfold_locales
    (auto simp: enc_violation_def violation_ok_def u64_code.append_iff device_id_code.opt_append_iff
      str_code.append_iff intro: gate_violation.equality)

interpretation rejection_code: prefix_code enc_rejection rejection_ok
  by unfold_locales
    (auto simp: enc_rejection_def rejection_ok_def str_code.append_iff violation_code.enc_counted_append_iff
      intro: plan_rejection.equality)

interpretation score_code: prefix_code enc_score "\<lambda>_. True"
  by unfold_locales
    (auto simp: enc_score_def u64_code.append_iff intro: objective_score.equality)

interpretation ranked_code: prefix_code enc_ranked ranked_ok
  by unfold_locales
    (auto simp: enc_ranked_def ranked_ok_def u64_code.append_iff str_code.append_iff
      word_of_nat_inject_u64 device_id_code.enc_counted_append_iff score_code.enc_counted_append_iff list.pred_True
      intro: ranked_plan.equality)

interpretation budget_item_code: prefix_code enc_budget_item budget_item_ok
  by unfold_locales
    (auto simp: enc_budget_item_def budget_item_ok_def u64_code.append_iff device_id_code.append_iff)

interpretation objective_code: prefix_code enc_objective "\<lambda>_. True"
  by unfold_locales (auto simp: enc_objective_def u64_code.append_iff)

lemma push_violation_flat: "push_violation out v = out @ enc_violation v"
  by (cases "gv_device v")
    (simp_all add: push_violation_def Let_def enc_violation_def enc_opt_def push_flat push_u64_append[of out])

lemma push_rejection_flat: "push_rejection out r = out @ enc_rejection r"
  unfolding push_rejection_def Let_def push_each_concat[of push_violation enc_violation, OF push_violation_flat]
  by (simp add: enc_rejection_def enc_counted_def push_flat push_str_append[of out])

lemma push_score_flat: "push_score out s = out @ enc_score s"
  by (simp add: push_score_def enc_score_def push_flat push_u64_append[of out])

lemma push_ranked_flat: "push_ranked out r = out @ enc_ranked r"
  unfolding push_ranked_def Let_def push_each_concat[of push_score enc_score, OF push_score_flat]
    push_each_concat[of push_device_id device_id_canonical_bytes, OF push_device_id_def]
  by (simp add: enc_ranked_def enc_counted_def push_flat push_u64_append[of out])

lemma push_budget_item_flat: "push_budget_item out item = out @ enc_budget_item item"
  unfolding push_budget_item_def enc_budget_item_def
  by (subst push_u64_append) simp

lemma push_objective_flat: "push_objective out objective = out @ enc_objective objective"
  unfolding push_objective_def enc_objective_def by (subst push_u64_append) simp

lemma policy_receipt_bytes_flat:
  "policy_receipt_canonical_bytes r = enc_str (er_snapshot_id_hex r) @ enc_u64 (er_current_generation r) @
     enc_counted enc_budget_item (er_per_device_budget r) @
     enc_opt enc_u64 (er_total_budget r) @
     enc_counted enc_objective (er_objectives r) @
     enc_counted enc_rejection (er_rejected r) @
     enc_counted enc_ranked (er_ranked r)"
  unfolding policy_receipt_canonical_bytes_def Let_def
    push_each_concat[of push_budget_item enc_budget_item, OF push_budget_item_flat]
    push_each_concat[of push_objective enc_objective, OF push_objective_flat]
    push_each_concat[of push_rejection enc_rejection, OF push_rejection_flat]
    push_each_concat[of push_ranked enc_ranked, OF push_ranked_flat]
  by (cases "er_total_budget r") (simp_all add: enc_opt_def enc_counted_def push_flat)

definition policy_receipt_ok :: "explained_receipt \<Rightarrow> bool" where
  "policy_receipt_ok r \<longleftrightarrow> str_ok (er_snapshot_id_hex r) \<and>
     length (er_per_device_budget r) < 2 ^ 64 \<and> list_all budget_item_ok (er_per_device_budget r) \<and>
     length (er_objectives r) < 2 ^ 64 \<and>
     length (er_rejected r) < 2 ^ 64 \<and> list_all rejection_ok (er_rejected r) \<and>
     length (er_ranked r) < 2 ^ 64 \<and> list_all ranked_ok (er_ranked r)"

lemma u64_option_append_iff: "enc_opt enc_u64 v @ x = enc_opt enc_u64 w @ y \<longleftrightarrow> v = w \<and> x = y"
  by (rule u64_code.opt_append_iff) (simp_all add: pred_option_def)

lemma policy_receipt_bytes_inject:
  assumes "policy_receipt_ok a" "policy_receipt_ok b"
    and "policy_receipt_canonical_bytes a = policy_receipt_canonical_bytes b"
  shows "a\<lparr>er_determinism_fingerprint := []\<rparr> = b\<lparr>er_determinism_fingerprint := []\<rparr>"
  using assms(3) assms(1,2)[unfolded policy_receipt_ok_def]
  unfolding policy_receipt_bytes_flat
  by (intro explained_receipt.equality)
    (simp_all add: str_code.append_iff u64_code.append_iff budget_item_code.enc_counted_append_iff
      u64_option_append_iff objective_code.enc_counted_append_iff rejection_code.enc_counted_append_iff
      ranked_code.enc_counted_inject list.pred_True)

section \<open>A concrete request\<close>

definition facts_with_latency :: "u64 option \<Rightarrow> objective_facts" where
  "facts_with_latency l = \<lparr>of_latency_nanos = l, of_throughput_tokens_per_sec = None,
     of_cache_affinity_hit_rate_milli = None, of_expert_hotness_score = None, of_transfer_bytes = None,
     of_estimated_power_milliwatts = None\<rparr>"

definition gpu :: "string \<Rightarrow> physical_device_id" where
  "gpu n = device_id_cuda n None"

definition plan_on :: "string \<Rightarrow> device_assignment list \<Rightarrow> u64 option \<Rightarrow> candidate_plan" where
  "plan_on n assignments l = \<lparr>cp_name = n, cp_assignments = assignments, cp_transfers = [],
     cp_declared_total_bytes = 260, cp_facts = facts_with_latency l\<rparr>"

definition example_plans :: "candidate_plan list" where
  "example_plans =
     [plan_on ''slow'' [assignment_new (gpu ''GPU-b'') example_ledger] (Some 9),
      plan_on ''big'' [assignment_new (gpu ''GPU-a'') (example_ledger\<lparr>weight_bytes := 1000\<rparr>)] None,
      plan_on ''fast'' [assignment_new (gpu ''GPU-a'') example_ledger] (Some 5)]"

definition example_policy_request :: "device_health_generation \<Rightarrow> candidate_plan list \<Rightarrow> policy_request" where
  "example_policy_request g plans = \<lparr>pq_discovery = example_snapshot 5 1,
     pq_selection = Explicit {|gpu ''GPU-a'', gpu ''GPU-b''|},
     pq_constraints = \<lparr>dcs_current_generation = g,
       dcs_topology = \<lparr>topo_discovery = example_snapshot 5 1, topo_links = fmempty\<rparr>,
       dcs_per_device_budget = fmap_of_list [(gpu ''GPU-a'', 200), (gpu ''GPU-b'', 200)],
       dcs_total_budget = Some 300\<rparr>,
     pq_objectives = [Latency], pq_plans = plans\<rparr>"

lemma gpu_distinct [simp]: "gpu a = gpu b \<longleftrightarrow> a = b"
  by (simp add: gpu_def device_id_cuda_def from_facts_def)

lemma find_entry_gpu:
  "find_entry (example_snapshot t g) (gpu ''GPU-a'') = Some (example_entry 0 ''GPU-a'' g)"
  "find_entry (example_snapshot t g) (gpu ''GPU-b'') = Some (example_entry 1 ''GPU-b'' g)"
  by (simp_all add: gpu_def find_entry_example)

lemma example_entry_generation [simp]: "de_health_generation (example_entry o' u g) = g"
  by (simp add: example_entry_def)

lemma example_selection_admits:
  "selection_admits (example_policy_request 1 plans) (DeviceSet {|gpu ''GPU-a'', gpu ''GPU-b''|})"
proof -
  let ?s = "DeviceSet {|gpu ''GPU-a'', gpu ''GPU-b''|}"
  have "device_set_from_members (sorted_list_of_fset {|gpu ''GPU-a'', gpu ''GPU-b''|}) = ?s"
    by (simp add: device_set_from_members_def fset_of_list.rep_eq flip: fset_inject)
  moreover have "device_set_validate ?s (example_snapshot 5 1) 1 = None"
    by (simp add: device_set_validate_None_iff find_entry_gpu)
  ultimately show ?thesis
    by (simp add: selection_admits_def example_policy_request_def example_current Let_def)
qed

lemma example_capabilities_meet: "capabilities_meet required_capabilities_default caps"
  by (simp add: capabilities_meet_def required_capabilities_default_def dtype_surface_empty_def)

lemma example_assignment_feasible:
  "n \<in> {''GPU-a'', ''GPU-b''} \<Longrightarrow>
   assignment_feasible (example_policy_request 1 plans) (DeviceSet {|gpu ''GPU-a'', gpu ''GPU-b''|})
     (assignment_new (gpu n) ledger) \<longleftrightarrow> ledger_sum ledger \<le> 200"
  by (auto simp: assignment_feasible_def example_policy_request_def assignment_new_def find_entry_gpu
      example_capabilities_meet fmlookup_of_list)

lemma ledger_sum_examples:
  "ledger_sum example_ledger = 130" "ledger_sum (example_ledger\<lparr>weight_bytes := 1000\<rparr>) = 1030"
  by (simp_all add: ledger_sum_def example_ledger_def)

lemma example_plan_feasible:
  "plan_feasible (example_policy_request 1 plans) (DeviceSet {|gpu ''GPU-a'', gpu ''GPU-b''|})
     (plan_on n assignments l) \<longleftrightarrow> (\<forall>a \<in> set assignments. assignment_feasible
       (example_policy_request 1 plans) (DeviceSet {|gpu ''GPU-a'', gpu ''GPU-b''|}) a)"
  unfolding plan_feasible_def by (simp add: plan_on_def example_policy_request_def)

lemma example_feasible_plans:
  "filter (plan_feasible (example_policy_request 1 plans) (DeviceSet {|gpu ''GPU-a'', gpu ''GPU-b''|}))
     example_plans = [example_plans ! 0, example_plans ! 2]"
  by (simp add: example_plans_def example_plan_feasible example_assignment_feasible ledger_sum_examples)

lemma example_evaluates: "\<exists>out. policy_evaluate (example_policy_request g plans) = Some out"
  by (simp add: policy_evaluate_def example_policy_request_def Let_def split: prod.splits)

text \<open>The memory gate compares each assignment alone with its device's budget: a plan that assigns
  one device twice passes although the two ledgers together exceed that budget.\<close>

lemma same_device_assignments_not_summed:
  "plan_feasible (example_policy_request 1 plans) (DeviceSet {|gpu ''GPU-a'', gpu ''GPU-b''|})
     (plan_on ''twice'' [assignment_new (gpu ''GPU-a'') example_ledger,
        assignment_new (gpu ''GPU-a'') example_ledger] None) \<and>
   fmlookup (dcs_per_device_budget (pq_constraints (example_policy_request 1 plans))) (gpu ''GPU-a'')
     = Some 200 \<and> 200 < 2 * ledger_sum example_ledger"
  by (simp add: example_plan_feasible example_assignment_feasible ledger_sum_examples)
    (simp add: example_policy_request_def fmlookup_of_list)

section \<open>Properties\<close>

text \<open>C13: once the selection resolves at the current epoch, the gates decide alone: the ranked plans
  are exactly the feasible ones (every assigned device selected, capable and within its own
  budget in unbounded arithmetic, the declared total within the total budget, every transfer over
  an admitted link), with ranks 1 to n, whatever objectives are declared; every other plan is
  rejected, in input order, with at least one violation. No objective rejects and no gate ranks.\<close>

theorem policy_ranks_exactly_the_feasible:
  assumes "policy_evaluate r = Some out" "selection_admits r s"
  shows "mset (map rp_plan (po_ranked out)) =
      mset (map cp_name (filter (plan_feasible r s) (pq_plans r))) \<and>
    map rp_rank (po_ranked out) = [1..<Suc (length (filter (plan_feasible r s) (pq_plans r)))] \<and>
    map pr_plan (po_rejected out) =
      map cp_name (filter (\<lambda>p. \<not> plan_feasible r s p) (pq_plans r)) \<and>
    [] \<notin> set (map pr_violations (po_rejected out))"
  using policy_evaluate_SomeD[OF assms(1)]
  by (simp_all add: policy_passes_admitted[OF assms(2)] rank_plans_fields(1,2) comp_def image_iff
      plan_violations_Nil_iff eq_commute[of "[]"] del: upt_Suc)

theorem policy_ranks_exactly_the_feasible_witness:
  "\<exists>out. policy_evaluate (example_policy_request 1 example_plans) = Some out \<and>
     mset (map rp_plan (po_ranked out)) = {#''slow'', ''fast''#} \<and>
     map rp_rank (po_ranked out) = [1, 2] \<and> map pr_plan (po_rejected out) = [''big'']"
proof -
  obtain out where out: "policy_evaluate (example_policy_request 1 example_plans) = Some out"
    using example_evaluates by blast
  have plans: "pq_plans (example_policy_request 1 example_plans) = example_plans"
    by (simp add: example_policy_request_def)
  note facts = policy_ranks_exactly_the_feasible[OF out example_selection_admits,
      unfolded plans example_feasible_plans]
  have "filter (\<lambda>p. \<not> plan_feasible (example_policy_request 1 example_plans)
      (DeviceSet {|gpu ''GPU-a'', gpu ''GPU-b''|}) p) example_plans = [example_plans ! 1]"
    by (simp add: example_plans_def example_plan_feasible example_assignment_feasible ledger_sum_examples)
  then show ?thesis
    using out facts by (intro exI[of _ out]) (simp add: example_plans_def plan_on_def)
qed

text \<open>C14: the ranking is the documented one: there is an order of the feasible plans in which each is
  at least as good as every later one (the first declared objective that tells two plans apart
  decides, in its direction, then the device identities, never an ordinal), and the ranked
  entries list the names, the devices and the scores in that order.\<close>

theorem policy_ranking_is_best_first:
  assumes "policy_evaluate r = Some out" "selection_admits r s"
  shows "\<exists>ps. mset ps = mset (filter (plan_feasible r s) (pq_plans r)) \<and>
    sorted_wrt (plan_at_least_as_good (pq_objectives r) (pq_constraints r)) ps \<and>
    map rp_plan (po_ranked out) = map cp_name ps \<and>
    map rp_devices (po_ranked out) = map (\<lambda>p. sorted_list_of_fset
      (fset_of_list (map da_device (cp_assignments p)))) ps \<and>
    map (\<lambda>x. map os_value (rp_scores x)) (po_ranked out) =
      map (\<lambda>p. map (\<lambda>o'. objective_value p o' (pq_constraints r)) (pq_objectives r)) ps"
proof -
  let ?ps = "sort_key (plan_key (pq_objectives r) (pq_constraints r))
    (filter (plan_feasible r s) (pq_plans r))"
  have "sorted_wrt (plan_at_least_as_good (pq_objectives r) (pq_constraints r)) ?ps"
    unfolding plan_at_least_as_good_iff[abs_def]
    using sorted_sort_key[of "plan_key (pq_objectives r) (pq_constraints r)"]
    by (simp add: sorted_map)
  then show ?thesis
    using policy_evaluate_SomeD[OF assms(1)]
    by (intro exI[of _ ?ps]) (simp add: policy_passes_admitted[OF assms(2)] rank_plans_fields del: fset_of_list_map)
qed

lemma mset_two_cases: "mset xs = {#a, b#} \<Longrightarrow> xs = [a, b] \<or> xs = [b, a]"
  by (cases xs; cases "tl xs") (auto simp: add_eq_conv_ex)

theorem policy_ranking_is_best_first_witness:
  "\<exists>out. policy_evaluate (example_policy_request 1 example_plans) = Some out \<and>
     map rp_plan (po_ranked out) = [''fast'', ''slow'']"
proof -
  let ?r = "example_policy_request 1 example_plans" and ?f = "example_plans ! 2" and ?s = "example_plans ! 0"
  obtain out where out: "policy_evaluate ?r = Some out"
    using example_evaluates by blast
  have plans: "pq_plans ?r = example_plans" and objs: "pq_objectives ?r = [Latency]"
    by (simp_all add: example_policy_request_def)
  obtain ps where ps: "mset ps = {#?s, ?f#}"
      "sorted_wrt (plan_at_least_as_good [Latency] (pq_constraints ?r)) ps"
      "map rp_plan (po_ranked out) = map cp_name ps"
    using policy_ranking_is_best_first[OF out example_selection_admits]
    unfolding plans example_feasible_plans objs by auto
  have "\<not> plan_at_least_as_good [Latency] c ?s ?f" for c
    by (simp add: plan_at_least_as_good_def example_plans_def plan_on_def facts_with_latency_def
        unwrap_or_def objective_better_def)
  moreover have "ps = [?s, ?f] \<or> ps = [?f, ?s]"
    using ps(1) by (rule mset_two_cases)
  ultimately have "ps = [?f, ?s]" using ps(2) by auto
  with ps(3) out show ?thesis by (simp add: example_plans_def plan_on_def)
qed

text \<open>A snapshot of another epoch, or a selection that does not resolve, rejects every candidate
  with one and the same health-epoch violation, and nothing is ranked.\<close>

theorem policy_selection_failure_rejects_all:
  assumes "policy_evaluate r = Some out" "\<nexists>s. selection_admits r s"
  shows "po_ranked out = [] \<and> (\<exists>v. gv_gate v = HealthEpochMembership \<and>
    po_rejected out = map (\<lambda>p. \<lparr>pr_plan = cp_name p, pr_violations = [v]\<rparr>) (pq_plans r))"
  using policy_evaluate_SomeD[OF assms(1)] policy_passes_refused[OF assms(2)] by auto

theorem policy_selection_failure_rejects_all_witness:
  "\<exists>out. policy_evaluate (example_policy_request 2 example_plans) = Some out \<and> po_ranked out = [] \<and>
     map pr_plan (po_rejected out) = [''slow'', ''big'', ''fast'']"
proof -
  let ?r = "example_policy_request 2 example_plans"
  obtain out where out: "policy_evaluate ?r = Some out"
    using example_evaluates by blast
  have "\<nexists>s. selection_admits ?r s"
    by (simp add: selection_admits_def example_policy_request_def snapshot_is_current_generation_def
        snapshot_is_stale_def btree_values_example health_is_stale_def)
  from policy_selection_failure_rejects_all[OF out this] show ?thesis
    using out by (auto simp: example_policy_request_def example_plans_def plan_on_def)
qed

text \<open>The explained receipt loses nothing: two receipts have the same canonical bytes, the bytes
  the fingerprint is taken of, exactly when they agree on everything but the fingerprint, that is
  on the snapshot, the epoch, the budgets, the objectives, every rejection with its facts and
  every rank with its scores.\<close>

theorem policy_receipt_bytes_determine:
  assumes "policy_receipt_ok a" "policy_receipt_ok b"
  shows "policy_receipt_canonical_bytes a = policy_receipt_canonical_bytes b \<longleftrightarrow>
    a\<lparr>er_determinism_fingerprint := []\<rparr> = b\<lparr>er_determinism_fingerprint := []\<rparr>"
proof
  assume eq: "a\<lparr>er_determinism_fingerprint := []\<rparr> = b\<lparr>er_determinism_fingerprint := []\<rparr>"
  have "policy_receipt_canonical_bytes (r\<lparr>er_determinism_fingerprint := []\<rparr>) =
      policy_receipt_canonical_bytes r" for r
    by (simp add: policy_receipt_bytes_flat)
  with eq show "policy_receipt_canonical_bytes a = policy_receipt_canonical_bytes b" by metis
qed (rule policy_receipt_bytes_inject[OF assms])

definition example_policy_receipt :: "u64 \<Rightarrow> explained_receipt" where
  "example_policy_receipt score = \<lparr>er_snapshot_id_hex = ''ab'', er_current_generation = 1,
     er_per_device_budget = [(gpu ''GPU-a'', 200)], er_total_budget = None, er_objectives = [Latency],
     er_rejected = [\<lparr>pr_plan = ''big'', pr_violations = [\<lparr>gv_gate = RequiredMemory,
       gv_device = Some (gpu ''GPU-a''), gv_failing_fact = ''x''\<rparr>]\<rparr>],
     er_ranked = [\<lparr>rp_rank = 1, rp_plan = ''fast'', rp_devices = [gpu ''GPU-a''],
       rp_scores = [\<lparr>os_objective = Latency, os_value = score\<rparr>]\<rparr>],
     er_determinism_fingerprint = []\<rparr>"

theorem policy_receipt_bytes_determine_witness:
  "policy_receipt_canonical_bytes (example_policy_receipt 5) \<noteq>
   policy_receipt_canonical_bytes (example_policy_receipt 6)"
proof -
  have "policy_receipt_ok (example_policy_receipt v)" for v
    by (simp add: policy_receipt_ok_def example_policy_receipt_def budget_item_ok_def rejection_ok_def
        violation_ok_def ranked_ok_def gpu_def device_id_ok_def device_id_cuda_def from_facts_def)
  then show ?thesis
    by (simp add: policy_receipt_bytes_determine) (simp add: example_policy_receipt_def)
qed

end
