(* ===== verification/Transport.thy ===== *)
theory Transport
  imports TxBackend Policy
begin

text \<open>
  The typed, ranged transport of \<open>src/transport.rs\<close>: validation of the declared facts against the
  actual content before any copy, the host-staged adapter with its staging pool and transfer
  budget, the explicit peer adapter with its per-pair admission registry, and the receipt of the
  selected transports. A clock reading is an argument (elapsed nanoseconds, unbounded as in
  \<open>Duration\<close>); a slice index that panics is \<open>None\<close>.
\<close>

section \<open>Measured rates\<close>

record measured_rates =
  h2d_bytes_per_sec :: u64
  d2h_bytes_per_sec :: u64
  bidi_bytes_per_sec :: u64

definition rates_t1 :: measured_rates where
  "rates_t1 = \<lparr>h2d_bytes_per_sec = 9800000000, d2h_bytes_per_sec = 11000000000,
     bidi_bytes_per_sec = 12100000000\<rparr>"

fun rate_for :: "measured_rates \<Rightarrow> transfer_direction \<Rightarrow> u64" where
  "rate_for r H2D = h2d_bytes_per_sec r"
| "rate_for r D2H = d2h_bytes_per_sec r"
| "rate_for r BIDI = bidi_bytes_per_sec r"

fun with_rate :: "measured_rates \<Rightarrow> transfer_direction \<Rightarrow> u64 \<Rightarrow> measured_rates" where
  "with_rate r H2D rate = r\<lparr>h2d_bytes_per_sec := rate\<rparr>"
| "with_rate r D2H rate = r\<lparr>d2h_bytes_per_sec := rate\<rparr>"
| "with_rate r BIDI rate = r\<lparr>bidi_bytes_per_sec := rate\<rparr>"

definition saturating_mul :: "u64 \<Rightarrow> u64 \<Rightarrow> u64" where
  "saturating_mul a b = (if unat a * unat b < 2 ^ 64 then a * b else - 1)"

definition checked_div :: "u64 \<Rightarrow> u64 \<Rightarrow> u64 option" where
  "checked_div a b = (if b = 0 then None else Some (a div b))"

definition expected_copy_time_nanos :: "u64 \<Rightarrow> transfer_direction \<Rightarrow> measured_rates \<Rightarrow> u64" where
  "expected_copy_time_nanos n direction rates =
     (let fixed = (if n \<le> 16 * 1024 then 1300 else 5000);
          transfer = unwrap_or (checked_div (saturating_mul n 1000000000) (rate_for rates direction)) 0
      in saturating_add fixed transfer)"

section \<open>Declared and actual transfer facts\<close>

record byte_range =
  ra_offset :: u64
  ra_length :: u64

definition range_end :: "byte_range \<Rightarrow> u64" where
  "range_end r = ra_offset r + ra_length r"

type_synonym duration = nat

record transfer_spec =
  ts_transfer_ref :: transfer_ref
  ts_source_owner :: logical_partition_id
  ts_destination :: logical_partition_id
  ts_range :: byte_range
  ts_direction :: transfer_direction
  ts_dtype :: mirrored_dtype
  ts_layout :: mirrored_layout
  ts_generation :: u64
  ts_path_label :: transport_path
  ts_timeout :: duration

definition spec_new ::
  "transfer_ref \<Rightarrow> logical_partition_id \<Rightarrow> logical_partition_id \<Rightarrow> byte_range \<Rightarrow> transfer_direction
   \<Rightarrow> mirrored_dtype \<Rightarrow> mirrored_layout \<Rightarrow> u64 \<Rightarrow> duration \<Rightarrow> transfer_spec" where
  "spec_new transfer_ref source_owner destination moved direction dtype layout generation timeout =
     \<lparr>ts_transfer_ref = transfer_ref, ts_source_owner = source_owner, ts_destination = destination,
      ts_range = moved, ts_direction = direction, ts_dtype = dtype, ts_layout = layout,
      ts_generation = generation, ts_path_label = PathHostStaged, ts_timeout = timeout\<rparr>"

definition spec_from_mirror :: "transfer_operation \<Rightarrow> duration \<Rightarrow> transfer_spec" where
  "spec_from_mirror mirror timeout =
     \<lparr>ts_transfer_ref = to_id mirror, ts_source_owner = to_source mirror,
      ts_destination = to_destination mirror,
      ts_range = \<lparr>ra_offset = 0, ra_length = to_byte_count mirror\<rparr>,
      ts_direction = to_direction mirror, ts_dtype = to_dtype mirror, ts_layout = to_layout mirror,
      ts_generation = to_producer_generation mirror, ts_path_label = to_path mirror,
      ts_timeout = timeout\<rparr>"

record source_value =
  sv_owner :: logical_partition_id
  sv_dtype :: mirrored_dtype
  sv_layout :: mirrored_layout
  sv_generation :: u64
  sv_bytes :: bytes

definition source_total_bytes :: "source_value \<Rightarrow> u64" where
  "source_total_bytes s = word_of_nat (length (sv_bytes s))"

text \<open>\<open>bytes[offset..end]\<close> panics when the start is past the end or the end past the length.\<close>

definition source_slice :: "source_value \<Rightarrow> byte_range \<Rightarrow> bytes option" where
  "source_slice s r =
     (let a = unat (ra_offset r); b = unat (range_end r)
      in if a \<le> b \<and> b \<le> length (sv_bytes s) then Some (take (b - a) (drop a (sv_bytes s))) else None)"

section \<open>Validation before the copy\<close>

datatype transfer_rejection =
  DtypeMismatch transfer_ref mirrored_dtype mirrored_dtype
| LayoutMismatch transfer_ref mirrored_layout mirrored_layout
| RangeOutOfBounds transfer_ref byte_range u64
| GenerationMismatch transfer_ref u64 u64
| OwnerMismatch transfer_ref logical_partition_id logical_partition_id
| DestinationMismatch transfer_ref logical_partition_id logical_partition_id

fun rejection_class :: "transfer_rejection \<Rightarrow> string" where
  "rejection_class (DtypeMismatch _ _ _) = ''dtype mismatch''"
| "rejection_class (LayoutMismatch _ _ _) = ''layout mismatch''"
| "rejection_class (RangeOutOfBounds _ _ _) = ''out-of-bounds range''"
| "rejection_class (GenerationMismatch _ _ _) = ''generation mismatch''"
| "rejection_class (OwnerMismatch _ _ _) = ''owner mismatch''"
| "rejection_class (DestinationMismatch _ _ _) = ''destination mismatch''"

text \<open>The derived \<open>Debug\<close> of a range, and the \<open>Display\<close> of a rejection.\<close>

definition range_debug :: "byte_range \<Rightarrow> string" where
  "range_debug r = ''ByteRange { offset: '' @ show_word (ra_offset r) @ '', length: '' @
     show_word (ra_length r) @ '' }''"

fun rejection_display :: "transfer_rejection \<Rightarrow> string" where
  "rejection_display (DtypeMismatch t declared actual) =
     ''dtype mismatch: transfer '' @ t @ '' declared '' @ dtype_spelling declared @
     '' but the source content is '' @ dtype_spelling actual"
| "rejection_display (LayoutMismatch t declared actual) =
     ''layout mismatch: transfer '' @ t @ '' declared '' @ layout_spelling declared @
     '' but the source content is '' @ layout_spelling actual"
| "rejection_display (RangeOutOfBounds t declared source_bytes) =
     ''out-of-bounds range: transfer '' @ t @ '' declares range '' @ range_debug declared @
     '' which exceeds the source's '' @ show_word source_bytes @ '' bytes''"
| "rejection_display (GenerationMismatch t declared actual) =
     ''generation mismatch: transfer '' @ t @ '' declares generation '' @ show_word declared @
     '' but the source content is generation '' @ show_word actual"
| "rejection_display (OwnerMismatch t declared actual) =
     ''owner mismatch: transfer '' @ t @ '' declares owner '' @ declared @
     '' but the source content belongs to '' @ actual"
| "rejection_display (DestinationMismatch t declared actual) =
     ''destination mismatch: transfer '' @ t @ '' declares destination '' @ declared @
     '' but the copy would land on '' @ actual"

definition validate_before_copy ::
  "transfer_spec \<Rightarrow> source_value \<Rightarrow> logical_partition_id \<Rightarrow> transfer_rejection option" where
  "validate_before_copy spec source destination =
     (if ts_dtype spec \<noteq> sv_dtype source
      then Some (DtypeMismatch (ts_transfer_ref spec) (ts_dtype spec) (sv_dtype source))
      else if ts_layout spec \<noteq> sv_layout source
      then Some (LayoutMismatch (ts_transfer_ref spec) (ts_layout spec) (sv_layout source))
      else if source_total_bytes source < range_end (ts_range spec)
      then Some (RangeOutOfBounds (ts_transfer_ref spec) (ts_range spec) (source_total_bytes source))
      else if ts_generation spec \<noteq> sv_generation source
      then Some (GenerationMismatch (ts_transfer_ref spec) (ts_generation spec) (sv_generation source))
      else if ts_source_owner spec \<noteq> sv_owner source
      then Some (OwnerMismatch (ts_transfer_ref spec) (ts_source_owner spec) (sv_owner source))
      else if ts_destination spec \<noteq> destination
      then Some (DestinationMismatch (ts_transfer_ref spec) (ts_destination spec) destination)
      else None)"

section \<open>Directed peer pairs\<close>

datatype directed_pair = DirectedPair (pair_source: logical_partition_id) (pair_destination: logical_partition_id)

definition pair_display :: "directed_pair \<Rightarrow> string" where
  "pair_display p = pair_source p @ ''->'' @ pair_destination p"

record peer_pair_measurement =
  pm_pair :: directed_pair
  pm_probe_provenance :: string
  pm_directional_bandwidth_bytes_per_sec :: u64
  pm_latency_nanos :: u64
  pm_evidence_reference :: string

datatype pair_admission_error =
  SelfPair directed_pair
| MissingBandwidthOrLatency directed_pair
| MissingEvidence directed_pair

type_synonym peer_pair_registry = "(directed_pair, peer_pair_measurement) fmap"

definition registry_admit ::
  "peer_pair_registry \<Rightarrow> peer_pair_measurement \<Rightarrow> pair_admission_error option \<times> peer_pair_registry" where
  "registry_admit registry measurement =
     (let pair = pm_pair measurement in
      if pair_source pair = pair_destination pair then (Some (SelfPair pair), registry)
      else if pm_directional_bandwidth_bytes_per_sec measurement = 0 \<or> pm_latency_nanos measurement = 0
      then (Some (MissingBandwidthOrLatency pair), registry)
      else if pm_evidence_reference measurement = [] then (Some (MissingEvidence pair), registry)
      else (None, fmupd pair measurement registry))"

definition registry_is_admitted :: "peer_pair_registry \<Rightarrow> directed_pair \<Rightarrow> bool" where
  "registry_is_admitted registry pair = (fmlookup registry pair \<noteq> None)"

datatype copy_path = CopyHostStaged | CopyPeer

fun copy_path_spelling :: "copy_path \<Rightarrow> string" where
  "copy_path_spelling CopyHostStaged = ''host-staged''"
| "copy_path_spelling CopyPeer = ''peer''"

definition select_copy_path :: "directed_pair \<Rightarrow> peer_pair_registry \<Rightarrow> copy_path" where
  "select_copy_path pair registry =
     (if registry_is_admitted registry pair then CopyPeer else CopyHostStaged)"

section \<open>Transfer errors\<close>

datatype transfer_error =
  TransferRejected transfer_rejection
| TransferTimeout transfer_ref duration u64
| TransferFailed transfer_ref string
| PeerNotAdmitted directed_pair
| PeerNotAttempted directed_pair string
| TransferBudgetExceeded transfer_ref u64 u64 u64

text \<open>The \<open>Debug\<close> of a \<open>Duration\<close>: the largest unit that is not zero, with the significant decimals.\<close>

fun strip_zeroes :: "string \<Rightarrow> string" where
  "strip_zeroes s = rev (dropWhile (\<lambda>c. c = CHR ''0'') (rev s))"

definition show_decimal :: "nat \<Rightarrow> nat \<Rightarrow> nat \<Rightarrow> string" where
  "show_decimal whole digits rest =
     (let padded = replicate (digits - length (show_nat rest)) (CHR ''0'') @ show_nat rest
      in show_nat whole @ (if rest = 0 then [] else ''.'' @ strip_zeroes padded))"

definition duration_debug :: "duration \<Rightarrow> string" where
  "duration_debug n =
     (if 10 ^ 9 \<le> n then show_decimal (n div 10 ^ 9) 9 (n mod 10 ^ 9) @ ''s''
      else if 10 ^ 6 \<le> n then show_decimal (n div 10 ^ 6) 6 (n mod 10 ^ 6) @ ''ms''
      else if 10 ^ 3 \<le> n then show_decimal (n div 10 ^ 3) 3 (n mod 10 ^ 3) @ [CHR 0xC2, CHR 0xB5] @ ''s''
      else show_nat n @ ''ns'')"

definition section_sign :: string where
  "section_sign = [CHR 0xC2, CHR 0xA7]"

fun into_backend_error :: "transfer_error \<Rightarrow> logical_partition_id \<Rightarrow> backend_error" where
  "into_backend_error (TransferRejected rejection) p =
     OperationError p (''typed/ranged transfer rejected before copy: '' @ rejection_display rejection)"
| "into_backend_error (TransferTimeout t declared_timeout elapsed_nanos) p =
     TimeoutError p (''transfer '' @ t @ '' exceeded its declared '' @ duration_debug declared_timeout @
       '' timeout ('' @ show_word elapsed_nanos @ '' ns elapsed)'')"
| "into_backend_error (TransferFailed t detail) p =
     OperationError p (''transfer '' @ t @ '' failed: '' @ detail)"
| "into_backend_error (PeerNotAdmitted pair) p =
     OperationError p (''peer transfer on unmeasured directed pair '' @ pair_display pair @
       '' is not admitted (T2 '' @ section_sign @ ''6 '' @ em_dash @ '' NOT ATTEMPTED)'')"
| "into_backend_error (PeerNotAttempted pair detail) p =
     OperationError p (''peer transfer on admitted pair '' @ pair_display pair @
       '' is not attempted: '' @ detail)"
| "into_backend_error (TransferBudgetExceeded t budget_bytes used_bytes needed_bytes) p =
     OperationError p (''transfer '' @ t @ '' exceeds the declared transfer budget (used '' @
       show_word used_bytes @ '' of '' @ show_word budget_bytes @ '' bytes, needs '' @
       show_word needed_bytes @ '' more)'')"

section \<open>Staging\<close>

type_synonym staging_buffer_id = u64

record staging_buffer_record =
  sb_id :: staging_buffer_id
  sb_capacity_bytes :: u64
  sb_pinned :: bool

record staging_pool =
  pool_next_id :: u64
  pool_allocations :: u64
  pool_active :: "(staging_buffer_id, staging_buffer_record) fmap"

definition pool_new :: staging_pool where
  "pool_new = \<lparr>pool_next_id = 0, pool_allocations = 0, pool_active = fmempty\<rparr>"

definition pool_allocate :: "staging_pool \<Rightarrow> u64 \<Rightarrow> staging_buffer_record \<times> staging_pool" where
  "pool_allocate pool n =
     (let pool = pool\<lparr>pool_next_id := pool_next_id pool + 1\<rparr>;
          pool = pool\<lparr>pool_allocations := pool_allocations pool + 1\<rparr>;
          buffer = \<lparr>sb_id = pool_next_id pool, sb_capacity_bytes = n, sb_pinned = True\<rparr>
      in (buffer, pool\<lparr>pool_active := fmupd (sb_id buffer) buffer (pool_active pool)\<rparr>))"

definition pool_release :: "staging_pool \<Rightarrow> staging_buffer_id \<Rightarrow> staging_pool" where
  "pool_release pool i = pool\<lparr>pool_active := fmdrop i (pool_active pool)\<rparr>"

section \<open>The host-staged adapter\<close>

record selected_transfer_record =
  st_transfer_ref :: transfer_ref
  st_copy_path :: copy_path
  st_staging :: staging_buffer_record
  st_engine :: u64
  st_event :: u64
  st_timeout :: duration
  st_bytes :: u64
  st_elapsed_nanos :: u64
  st_expected_nanos :: u64
  st_direction :: transfer_direction
  st_destination :: logical_partition_id

record transfer_outcome =
  to_record :: selected_transfer_record
  to_destination_bytes :: bytes

record transfer_budget =
  tb_bytes :: u64
  tb_time_nanos :: u64

record rate_observation =
  ro_direction :: transfer_direction
  ro_bytes :: u64
  ro_elapsed_nanos :: u64
  ro_measured_bytes_per_sec :: u64

record host_staged_adapter =
  ha_declared_budget :: transfer_budget
  ha_used_bytes :: u64
  ha_used_time_nanos :: u64
  ha_staging_pool :: staging_pool
  ha_rates :: measured_rates
  ha_next_engine :: u64
  ha_next_event :: u64
  ha_records :: "selected_transfer_record list"
  ha_rate_observations :: "rate_observation list"
  ha_simulated_delay :: duration
  ha_simulated_failure :: "string option"

definition host_new :: "transfer_budget \<Rightarrow> host_staged_adapter" where
  "host_new declared_budget = \<lparr>ha_declared_budget = declared_budget, ha_used_bytes = 0,
     ha_used_time_nanos = 0, ha_staging_pool = pool_new, ha_rates = rates_t1, ha_next_engine = 0,
     ha_next_event = 0, ha_records = [], ha_rate_observations = [], ha_simulated_delay = 0,
     ha_simulated_failure = None\<rparr>"

definition host_set_simulated_delay :: "duration \<Rightarrow> host_staged_adapter \<Rightarrow> host_staged_adapter" where
  "host_set_simulated_delay delay a = a\<lparr>ha_simulated_delay := delay\<rparr>"

definition host_set_simulated_failure ::
  "string option \<Rightarrow> host_staged_adapter \<Rightarrow> host_staged_adapter" where
  "host_set_simulated_failure detail a = a\<lparr>ha_simulated_failure := detail\<rparr>"

definition host_record_fixture_measurement ::
  "transfer_direction \<Rightarrow> u64 \<Rightarrow> u64 \<Rightarrow> host_staged_adapter \<Rightarrow> host_staged_adapter" where
  "host_record_fixture_measurement direction n elapsed_nanos a =
     (if elapsed_nanos = 0 then a
      else let measured = saturating_mul n 1000000000 div elapsed_nanos;
               a = a\<lparr>ha_rate_observations := ha_rate_observations a @
                 [\<lparr>ro_direction = direction, ro_bytes = n, ro_elapsed_nanos = elapsed_nanos,
                   ro_measured_bytes_per_sec = measured\<rparr>]\<rparr>
           in a\<lparr>ha_rates := with_rate (ha_rates a) direction measured\<rparr>)"

record transport_receipt =
  tr_records :: "selected_transfer_record list"
  tr_budget_bytes :: u64
  tr_budget_time_nanos :: u64
  tr_used_bytes :: u64
  tr_used_time_nanos :: u64
  tr_rates :: measured_rates
  tr_rate_observations :: "rate_observation list"

definition host_transport_receipt :: "host_staged_adapter \<Rightarrow> transport_receipt" where
  "host_transport_receipt a = \<lparr>tr_records = ha_records a,
     tr_budget_bytes = tb_bytes (ha_declared_budget a),
     tr_budget_time_nanos = tb_time_nanos (ha_declared_budget a),
     tr_used_bytes = ha_used_bytes a, tr_used_time_nanos = ha_used_time_nanos a,
     tr_rates = ha_rates a, tr_rate_observations = ha_rate_observations a\<rparr>"

text \<open>\<open>elapsed\<close> is what the clock measures around the copy, the simulated delay included.\<close>

definition host_run_staged_copy ::
  "transfer_spec \<Rightarrow> source_value \<Rightarrow> u64 \<Rightarrow> duration \<Rightarrow> host_staged_adapter
   \<Rightarrow> ((transfer_error + staging_buffer_record \<times> bytes \<times> duration) \<times> host_staged_adapter) option" where
  "host_run_staged_copy spec source n elapsed a =
     (let (staging, pool) = pool_allocate (ha_staging_pool a) n;
          a = a\<lparr>ha_staging_pool := pool\<rparr> in
      case ha_simulated_failure a of
        Some detail \<Rightarrow>
          Some (Inl (TransferFailed (ts_transfer_ref spec) detail),
                a\<lparr>ha_staging_pool := pool_release (ha_staging_pool a) (sb_id staging)\<rparr>)
      | None \<Rightarrow>
      (case source_slice source (ts_range spec) of
         None \<Rightarrow> None
       | Some destination_bytes \<Rightarrow>
           (let a = a\<lparr>ha_staging_pool := pool_release (ha_staging_pool a) (sb_id staging)\<rparr> in
            if ts_timeout spec < elapsed
            then Some (Inl (TransferTimeout (ts_transfer_ref spec) (ts_timeout spec) (word_of_nat elapsed)), a)
            else Some (Inr (staging, destination_bytes, elapsed), a))))"

definition host_copy ::
  "duration \<Rightarrow> transfer_spec \<Rightarrow> source_value \<Rightarrow> logical_partition_id \<Rightarrow> host_staged_adapter
   \<Rightarrow> ((transfer_error + transfer_outcome) \<times> host_staged_adapter) option" where
  "host_copy elapsed spec source destination a =
     (case validate_before_copy spec source destination of
        Some rejection \<Rightarrow> Some (Inl (TransferRejected rejection), a)
      | None \<Rightarrow>
      let n = ra_length (ts_range spec);
          direction = ts_direction spec;
          expected = expected_copy_time_nanos n direction (ha_rates a) in
      if tb_bytes (ha_declared_budget a) < saturating_add (ha_used_bytes a) n \<or>
         tb_time_nanos (ha_declared_budget a) < saturating_add (ha_used_time_nanos a) expected
      then Some (Inl (TransferBudgetExceeded (ts_transfer_ref spec) (tb_bytes (ha_declared_budget a))
             (ha_used_bytes a) n), a)
      else (case host_run_staged_copy spec source n elapsed a of
         None \<Rightarrow> None
       | Some (Inl e, a) \<Rightarrow> Some (Inl e, a)
       | Some (Inr (staging, destination_bytes, elapsed), a) \<Rightarrow>
           (let a = a\<lparr>ha_used_bytes := saturating_add (ha_used_bytes a) n\<rparr>;
                a = a\<lparr>ha_used_time_nanos := saturating_add (ha_used_time_nanos a) expected\<rparr>;
                a = a\<lparr>ha_next_engine := ha_next_engine a + 1\<rparr>;
                a = a\<lparr>ha_next_event := ha_next_event a + 1\<rparr>;
                r = \<lparr>st_transfer_ref = ts_transfer_ref spec, st_copy_path = CopyHostStaged,
                     st_staging = staging, st_engine = ha_next_engine a, st_event = ha_next_event a,
                     st_timeout = ts_timeout spec, st_bytes = n,
                     st_elapsed_nanos = word_of_nat elapsed, st_expected_nanos = expected,
                     st_direction = direction, st_destination = destination\<rparr>
            in Some (Inr \<lparr>to_record = r, to_destination_bytes = destination_bytes\<rparr>,
                     a\<lparr>ha_records := ha_records a @ [r]\<rparr>))))"

section \<open>The peer adapter\<close>

definition at_least_sign :: string where
  "at_least_sign = [CHR 0xE2, CHR 0x89, CHR 0xA5]"

definition peer_copy ::
  "transfer_spec \<Rightarrow> source_value \<Rightarrow> logical_partition_id \<Rightarrow> peer_pair_registry
   \<Rightarrow> (transfer_error + transfer_outcome) \<times> peer_pair_registry" where
  "peer_copy spec source destination registry =
     (case validate_before_copy spec source destination of
        Some rejection \<Rightarrow> (Inl (TransferRejected rejection), registry)
      | None \<Rightarrow>
      let pair = DirectedPair (ts_source_owner spec) destination in
      if \<not> registry_is_admitted registry pair then (Inl (PeerNotAdmitted pair), registry)
      else (Inl (PeerNotAttempted pair
             (''real peer copies require a real same-host '' @ at_least_sign @
              ''2-GPU topology (lane queue '' @ section_sign @ ''5b); never fabricated'')), registry))"

definition peer_selected_records :: "peer_pair_registry \<Rightarrow> selected_transfer_record list" where
  "peer_selected_records registry = []"

section \<open>What the validation accepts\<close>

definition transfer_facts_match :: "transfer_spec \<Rightarrow> source_value \<Rightarrow> logical_partition_id \<Rightarrow> bool" where
  "transfer_facts_match spec source destination \<longleftrightarrow>
     ts_dtype spec = sv_dtype source \<and> ts_layout spec = sv_layout source \<and>
     ts_generation spec = sv_generation source \<and> ts_source_owner spec = sv_owner source \<and>
     ts_destination spec = destination"

text \<open>A range whose end is not beyond the last address.\<close>

definition range_exact :: "byte_range \<Rightarrow> bool" where
  "range_exact r \<longleftrightarrow> unat (ra_offset r) + unat (ra_length r) < 2 ^ 64"

lemma validate_None_iff:
  "validate_before_copy spec source destination = None \<longleftrightarrow>
     transfer_facts_match spec source destination \<and>
     range_end (ts_range spec) \<le> source_total_bytes source"
  by (auto simp: validate_before_copy_def transfer_facts_match_def not_less)

lemma range_end_exact: "range_exact r \<Longrightarrow> unat (range_end r) = unat (ra_offset r) + unat (ra_length r)"
  by (simp add: range_end_def range_exact_def unat_plus_exact)

lemma range_in_bounds_iff:
  assumes "range_exact r" "length (sv_bytes s) < 2 ^ 64"
  shows "range_end r \<le> source_total_bytes s \<longleftrightarrow>
    unat (ra_offset r) + unat (ra_length r) \<le> length (sv_bytes s)"
  using assms
  by (simp add: word_le_nat_alt range_end_exact source_total_bytes_def unat_of_nat take_bit_nat_eq_self)

lemma source_slice_exact:
  assumes "range_exact r" "unat (ra_offset r) + unat (ra_length r) \<le> length (sv_bytes s)"
  shows "source_slice s r = Some (take (unat (ra_length r)) (drop (unat (ra_offset r)) (sv_bytes s)))"
  using assms by (simp add: source_slice_def range_end_exact)

section \<open>The contract of a transport adapter\<close>

text \<open>
  What the trait \<open>TransportAdapter\<close> promises its callers: a mismatch is reported before anything
  happens, a successful copy moves the validated range and records it, a failed one records
  nothing. \<open>copy\<close> takes the clock reading of the copy.
\<close>

locale transport_adapter =
  fixes copy :: "duration \<Rightarrow> transfer_spec \<Rightarrow> source_value \<Rightarrow> logical_partition_id \<Rightarrow> 'a
      \<Rightarrow> ((transfer_error + transfer_outcome) \<times> 'a) option"
    and records :: "'a \<Rightarrow> selected_transfer_record list"
  assumes reject: "validate_before_copy spec source destination = Some r \<Longrightarrow>
      copy elapsed spec source destination a = Some (Inl (TransferRejected r), a)"
    and moved: "copy elapsed spec source destination a = Some (Inr out, a') \<Longrightarrow>
      source_slice source (ts_range spec) = Some (to_destination_bytes out) \<and>
      records a' = records a @ [to_record out] \<and>
      st_bytes (to_record out) = ra_length (ts_range spec) \<and>
      st_transfer_ref (to_record out) = ts_transfer_ref spec \<and>
      st_destination (to_record out) = destination \<and> elapsed \<le> ts_timeout spec"
    and failed: "copy elapsed spec source destination a = Some (Inl e, a') \<Longrightarrow> records a' = records a"
begin

text \<open>A coordinator that runs transfers one after the other, whatever their outcomes.\<close>

primrec copy_all ::
  "(duration \<times> transfer_spec \<times> source_value \<times> logical_partition_id) list \<Rightarrow> 'a
   \<Rightarrow> ((transfer_error + transfer_outcome) list \<times> 'a) option" where
  "copy_all [] a = Some ([], a)"
| "copy_all (x # xs) a = (case x of (elapsed, spec, source, destination) \<Rightarrow>
     (case copy elapsed spec source destination a of
        None \<Rightarrow> None
      | Some (result, a') \<Rightarrow>
          (case copy_all xs a' of None \<Rightarrow> None | Some (results, a'') \<Rightarrow> Some (result # results, a''))))"

definition outcomes :: "(transfer_error + transfer_outcome) list \<Rightarrow> transfer_outcome list" where
  "outcomes results = concat (map (\<lambda>r. case r of Inr out \<Rightarrow> [out] | Inl _ \<Rightarrow> []) results)"

lemma validated: "copy elapsed spec source destination a = Some (Inr out, a') \<Longrightarrow>
  validate_before_copy spec source destination = None"
  using reject[of spec source destination _ elapsed a]
  by (cases "validate_before_copy spec source destination") auto

lemma copy_all_records:
  "copy_all xs a = Some (results, a') \<Longrightarrow> records a' = records a @ map to_record (outcomes results)"
proof (induction xs arbitrary: a results)
  case Nil
  then show ?case by (simp add: outcomes_def)
next
  case (Cons x xs)
  obtain elapsed spec source destination where x: "x = (elapsed, spec, source, destination)"
    by (cases x)
  obtain result a1 rest where c: "copy elapsed spec source destination a = Some (result, a1)"
      "copy_all xs a1 = Some (rest, a')" "results = result # rest"
    using Cons.prems by (auto simp: x split: option.splits)
  show ?case
    using Cons.IH[OF c(2)] c(1) moved[of elapsed spec source destination a _ a1]
      failed[of elapsed spec source destination a _ a1]
    by (cases result) (auto simp: c(3) outcomes_def)
qed

lemma copy_all_moves:
  "copy_all xs a = Some (results, a') \<Longrightarrow> list_all2 (\<lambda>x r. \<forall>out. r = Inr out \<longrightarrow>
     (case x of (elapsed, spec, source, destination) \<Rightarrow>
        transfer_facts_match spec source destination \<and>
        source_slice source (ts_range spec) = Some (to_destination_bytes out) \<and>
        elapsed \<le> ts_timeout spec)) xs results"
proof (induction xs arbitrary: a results)
  case Nil
  then show ?case by simp
next
  case (Cons x xs)
  obtain elapsed spec source destination where x: "x = (elapsed, spec, source, destination)"
    by (cases x)
  obtain result a1 rest where c: "copy elapsed spec source destination a = Some (result, a1)"
      "copy_all xs a1 = Some (rest, a')" "results = result # rest"
    using Cons.prems by (auto simp: x split: option.splits)
  show ?case
    using Cons.IH[OF c(2)] c(1) moved[of elapsed spec source destination a _ a1]
      validated[of elapsed spec source destination a _ a1]
    by (auto simp: c(3) x validate_None_iff)
qed

end

section \<open>Both adapters keep the contract\<close>

lemma snd_pool_allocate:
  "pool_allocate p n = (\<lparr>sb_id = pool_next_id p + 1, sb_capacity_bytes = n, sb_pinned = True\<rparr>,
     p\<lparr>pool_next_id := pool_next_id p + 1, pool_allocations := pool_allocations p + 1,
       pool_active := fmupd (pool_next_id p + 1)
         \<lparr>sb_id = pool_next_id p + 1, sb_capacity_bytes = n, sb_pinned = True\<rparr> (pool_active p)\<rparr>)"
  by (simp add: pool_allocate_def Let_def)

text \<open>The pool after one allocation and its release.\<close>

definition pool_cycled :: "staging_pool \<Rightarrow> staging_pool" where
  "pool_cycled p = p\<lparr>pool_next_id := pool_next_id p + 1, pool_allocations := pool_allocations p + 1,
     pool_active := fmdrop (pool_next_id p + 1) (pool_active p)\<rparr>"

lemma fmdrop_fmupd_same [simp]: "fmdrop k (fmupd k v m) = fmdrop k m"
  by (rule fmap_ext) simp

definition host_cycled :: "host_staged_adapter \<Rightarrow> host_staged_adapter" where
  "host_cycled a = a\<lparr>ha_staging_pool := pool_cycled (ha_staging_pool a)\<rparr>"

lemma host_run_staged_copy_eq:
  "host_run_staged_copy spec source n elapsed a =
     (case ha_simulated_failure a of
        Some detail \<Rightarrow> Some (Inl (TransferFailed (ts_transfer_ref spec) detail), host_cycled a)
      | None \<Rightarrow> (case source_slice source (ts_range spec) of
          None \<Rightarrow> None
        | Some bs \<Rightarrow>
            if ts_timeout spec < elapsed
            then Some (Inl (TransferTimeout (ts_transfer_ref spec) (ts_timeout spec) (word_of_nat elapsed)),
                       host_cycled a)
            else Some (Inr (\<lparr>sb_id = pool_next_id (ha_staging_pool a) + 1, sb_capacity_bytes = n,
                              sb_pinned = True\<rparr>, bs, elapsed), host_cycled a)))"
  by (simp add: host_run_staged_copy_def snd_pool_allocate Let_def pool_release_def host_cycled_def
      pool_cycled_def split: option.splits)

text \<open>The record of a copy, and the adapter that has accounted for it.\<close>

definition host_over_budget :: "transfer_spec \<Rightarrow> host_staged_adapter \<Rightarrow> bool" where
  "host_over_budget spec a \<longleftrightarrow>
     tb_bytes (ha_declared_budget a) < saturating_add (ha_used_bytes a) (ra_length (ts_range spec)) \<or>
     tb_time_nanos (ha_declared_budget a) < saturating_add (ha_used_time_nanos a)
       (expected_copy_time_nanos (ra_length (ts_range spec)) (ts_direction spec) (ha_rates a))"

definition host_record_of ::
  "duration \<Rightarrow> transfer_spec \<Rightarrow> logical_partition_id \<Rightarrow> host_staged_adapter \<Rightarrow> selected_transfer_record" where
  "host_record_of elapsed spec destination a =
     \<lparr>st_transfer_ref = ts_transfer_ref spec, st_copy_path = CopyHostStaged,
      st_staging = \<lparr>sb_id = pool_next_id (ha_staging_pool a) + 1,
        sb_capacity_bytes = ra_length (ts_range spec), sb_pinned = True\<rparr>,
      st_engine = ha_next_engine a + 1, st_event = ha_next_event a + 1,
      st_timeout = ts_timeout spec, st_bytes = ra_length (ts_range spec),
      st_elapsed_nanos = word_of_nat elapsed,
      st_expected_nanos = expected_copy_time_nanos (ra_length (ts_range spec)) (ts_direction spec) (ha_rates a),
      st_direction = ts_direction spec, st_destination = destination\<rparr>"

definition host_accounted :: "selected_transfer_record \<Rightarrow> host_staged_adapter \<Rightarrow> host_staged_adapter" where
  "host_accounted r a = (host_cycled a)
     \<lparr>ha_used_bytes := saturating_add (ha_used_bytes a) (st_bytes r),
      ha_used_time_nanos := saturating_add (ha_used_time_nanos a) (st_expected_nanos r),
      ha_next_engine := ha_next_engine a + 1, ha_next_event := ha_next_event a + 1,
      ha_records := ha_records a @ [r]\<rparr>"

lemma host_copy_eq:
  "host_copy elapsed spec source destination a =
     (case validate_before_copy spec source destination of
        Some r \<Rightarrow> Some (Inl (TransferRejected r), a)
      | None \<Rightarrow>
          if host_over_budget spec a
          then Some (Inl (TransferBudgetExceeded (ts_transfer_ref spec) (tb_bytes (ha_declared_budget a))
                 (ha_used_bytes a) (ra_length (ts_range spec))), a)
          else case ha_simulated_failure a of
            Some detail \<Rightarrow> Some (Inl (TransferFailed (ts_transfer_ref spec) detail), host_cycled a)
          | None \<Rightarrow> (case source_slice source (ts_range spec) of
              None \<Rightarrow> None
            | Some bs \<Rightarrow>
                if ts_timeout spec < elapsed
                then Some (Inl (TransferTimeout (ts_transfer_ref spec) (ts_timeout spec) (word_of_nat elapsed)),
                           host_cycled a)
                else Some (Inr \<lparr>to_record = host_record_of elapsed spec destination a,
                                to_destination_bytes = bs\<rparr>,
                           host_accounted (host_record_of elapsed spec destination a) a)))"
  unfolding host_copy_def host_run_staged_copy_eq Let_def host_over_budget_def[symmetric]
  by (simp add: host_record_of_def host_accounted_def host_cycled_def split: option.splits)

lemma host_record_of_simps [simp]:
  "st_bytes (host_record_of elapsed spec destination a) = ra_length (ts_range spec)"
  "st_transfer_ref (host_record_of elapsed spec destination a) = ts_transfer_ref spec"
  "st_destination (host_record_of elapsed spec destination a) = destination"
  "st_expected_nanos (host_record_of elapsed spec destination a) =
     expected_copy_time_nanos (ra_length (ts_range spec)) (ts_direction spec) (ha_rates a)"
  "st_engine (host_record_of elapsed spec destination a) = ha_next_engine a + 1"
  by (simp_all add: host_record_of_def)

lemma host_cycled_simps [simp]:
  "ha_records (host_cycled a) = ha_records a" "ha_used_bytes (host_cycled a) = ha_used_bytes a"
  "ha_used_time_nanos (host_cycled a) = ha_used_time_nanos a"
  "ha_declared_budget (host_cycled a) = ha_declared_budget a" "ha_rates (host_cycled a) = ha_rates a"
  "ha_next_engine (host_cycled a) = ha_next_engine a"
  "ha_staging_pool (host_cycled a) = pool_cycled (ha_staging_pool a)"
  by (simp_all add: host_cycled_def)

lemma host_accounted_simps [simp]:
  "ha_records (host_accounted r a) = ha_records a @ [r]"
  "ha_used_bytes (host_accounted r a) = saturating_add (ha_used_bytes a) (st_bytes r)"
  "ha_used_time_nanos (host_accounted r a) = saturating_add (ha_used_time_nanos a) (st_expected_nanos r)"
  "ha_declared_budget (host_accounted r a) = ha_declared_budget a"
  "ha_next_engine (host_accounted r a) = ha_next_engine a + 1"
  "ha_staging_pool (host_accounted r a) = pool_cycled (ha_staging_pool a)"
  by (simp_all add: host_accounted_def)

interpretation host_transport: transport_adapter host_copy ha_records
  by unfold_locales
    (auto simp: host_copy_eq split: option.splits if_splits)

interpretation peer_transport: transport_adapter
  "\<lambda>_ spec source destination registry. Some (peer_copy spec source destination registry)"
  peer_selected_records
  by unfold_locales (auto simp: peer_copy_def peer_selected_records_def Let_def split: option.splits if_splits)

section \<open>The budget and the staging pool over any history\<close>

text \<open>Everything a caller can do to a host-staged adapter.\<close>

datatype host_event =
  HostCopy duration transfer_spec source_value logical_partition_id
| HostMeasurement transfer_direction u64 u64
| HostSimulatedFailure "string option"
| HostSimulatedDelay duration

fun host_step :: "host_event \<Rightarrow> host_staged_adapter \<Rightarrow> host_staged_adapter option" where
  "host_step (HostCopy elapsed spec source destination) a =
     map_option snd (host_copy elapsed spec source destination a)"
| "host_step (HostMeasurement direction n elapsed) a =
     Some (host_record_fixture_measurement direction n elapsed a)"
| "host_step (HostSimulatedFailure detail) a = Some (host_set_simulated_failure detail a)"
| "host_step (HostSimulatedDelay delay) a = Some (host_set_simulated_delay delay a)"

primrec host_run :: "host_event list \<Rightarrow> host_staged_adapter \<Rightarrow> host_staged_adapter option" where
  "host_run [] a = Some a"
| "host_run (e # es) a = Option.bind (host_step e a) (host_run es)"

text \<open>The accounting agrees with the records, up to saturation, and stays in the budget.\<close>

definition host_ok :: "host_staged_adapter \<Rightarrow> bool" where
  "host_ok a \<longleftrightarrow>
     ha_used_bytes a \<le> tb_bytes (ha_declared_budget a) \<and>
     ha_used_time_nanos a \<le> tb_time_nanos (ha_declared_budget a) \<and>
     unat (ha_used_bytes a) = min (sum_list (map (unat \<circ> st_bytes) (ha_records a))) (2 ^ 64 - 1) \<and>
     unat (ha_used_time_nanos a) =
       min (sum_list (map (unat \<circ> st_expected_nanos) (ha_records a))) (2 ^ 64 - 1) \<and>
     pool_active (ha_staging_pool a) = fmempty \<and>
     map st_engine (ha_records a) = map word_of_nat [1..<Suc (length (ha_records a))] \<and>
     ha_next_engine a = word_of_nat (length (ha_records a))"

lemma host_ok_new: "host_ok (host_new b)"
  by (simp add: host_ok_def host_new_def pool_new_def)

lemma host_ok_cycled: "host_ok a \<Longrightarrow> host_ok (host_cycled a)"
  by (simp add: host_ok_def pool_cycled_def)

lemma saturated_sum:
  fixes u v :: u64
  assumes "unat u = min s (2 ^ 64 - 1)"
  shows "unat (saturating_add u v) = min (s + unat v) (2 ^ 64 - 1)"
  using assms by (simp add: wrap_simps min_def)

lemma host_ok_accounted:
  assumes "host_ok a" "\<not> host_over_budget spec a"
  shows "host_ok (host_accounted (host_record_of elapsed spec destination a) a)"
  unfolding host_ok_def
proof (intro conjI)
  show "ha_used_bytes (host_accounted (host_record_of elapsed spec destination a) a)
      \<le> tb_bytes (ha_declared_budget (host_accounted (host_record_of elapsed spec destination a) a))"
    "ha_used_time_nanos (host_accounted (host_record_of elapsed spec destination a) a)
      \<le> tb_time_nanos (ha_declared_budget (host_accounted (host_record_of elapsed spec destination a) a))"
    using assms(2) by (simp_all add: host_over_budget_def not_less)
qed (use assms(1) in \<open>simp_all add: host_ok_def saturated_sum pool_cycled_def add.commute\<close>)

lemma host_ok_copy:
  "host_ok a \<Longrightarrow> host_copy elapsed spec source destination a = Some (res, a') \<Longrightarrow> host_ok a'"
  by (auto simp: host_copy_eq host_ok_cycled host_ok_accounted split: option.splits if_splits)

lemma host_ok_untouched [simp]:
  "host_ok (a\<lparr>ha_rate_observations := x, ha_rates := y\<rparr>) = host_ok a"
  "host_ok (a\<lparr>ha_simulated_failure := f\<rparr>) = host_ok a"
  "host_ok (a\<lparr>ha_simulated_delay := d\<rparr>) = host_ok a"
  by (simp_all add: host_ok_def)

lemma host_ok_step:
  assumes "host_ok a" "host_step e a = Some a'"
  shows "host_ok a'"
proof (cases e)
  case (HostCopy elapsed spec source destination)
  with assms show ?thesis by (auto dest: host_ok_copy)
next
  case (HostMeasurement direction n elapsed)
  with assms show ?thesis
    by (auto simp: host_record_fixture_measurement_def Let_def split: if_splits)
next
  case (HostSimulatedFailure detail)
  with assms show ?thesis by (auto simp: host_set_simulated_failure_def)
next
  case (HostSimulatedDelay delay)
  with assms show ?thesis by (auto simp: host_set_simulated_delay_def)
qed

lemma host_step_budget: "host_step e a = Some a' \<Longrightarrow> ha_declared_budget a' = ha_declared_budget a"
  by (cases e)
    (auto simp: host_copy_eq host_record_fixture_measurement_def host_set_simulated_failure_def
      host_set_simulated_delay_def Let_def split: if_splits option.splits)

lemma host_run_ok:
  "host_ok a \<Longrightarrow> host_run es a = Some a' \<Longrightarrow> host_ok a' \<and> ha_declared_budget a' = ha_declared_budget a"
proof (induction es arbitrary: a)
  case (Cons e es)
  from Cons.prems(2) obtain b where b: "host_step e a = Some b" "host_run es b = Some a'"
    by (auto simp: bind_eq_Some_conv)
  show ?case
    using Cons.IH[OF host_ok_step[OF Cons.prems(1) b(1)] b(2)] host_step_budget[OF b(1)] by simp
qed simp

lemma host_copy_returns:
  assumes "range_exact (ts_range spec)" "length (sv_bytes source) < 2 ^ 64"
  shows "\<exists>res a'. host_copy elapsed spec source destination a = Some (res, a')"
  using assms source_slice_exact[OF assms(1), of source]
  by (auto simp: host_copy_eq validate_None_iff range_in_bounds_iff split: option.splits)

section \<open>A concrete transfer\<close>

definition example_spec :: "u64 \<Rightarrow> transfer_spec" where
  "example_spec offset = spec_new ''t1'' ''p0'' ''p1'' \<lparr>ra_offset = offset, ra_length = 2\<rparr> H2D DtF32 Dense 7 1000"

definition example_source :: source_value where
  "example_source = \<lparr>sv_owner = ''p0'', sv_dtype = DtF32, sv_layout = Dense, sv_generation = 7,
     sv_bytes = [10, 20, 30, 40]\<rparr>"

definition example_adapter :: host_staged_adapter where
  "example_adapter = host_new \<lparr>tb_bytes = 3, tb_time_nanos = 5000\<rparr>"

lemma example_facts_match: "transfer_facts_match (example_spec i) example_source ''p1''"
  by (simp add: transfer_facts_match_def example_spec_def spec_new_def example_source_def)

lemma example_range [simp]: "ts_range (example_spec i) = \<lparr>ra_offset = i, ra_length = 2\<rparr>"
  "ts_timeout (example_spec i) = 1000"
  by (simp_all add: example_spec_def spec_new_def)

lemma example_source_length [simp]: "sv_bytes example_source = [10, 20, 30, 40]"
  by (simp add: example_source_def)

lemma example_expected: "expected_copy_time_nanos 2 (ts_direction (example_spec i)) rates_t1 = 1300"
  by (simp add: expected_copy_time_nanos_def example_spec_def spec_new_def rates_t1_def checked_div_def
      unwrap_or_def saturating_mul_def saturating_add_def)

lemma example_within_budget: "\<not> host_over_budget (example_spec i) example_adapter"
  using example_expected[of i]
  by (simp add: host_over_budget_def example_adapter_def host_new_def) (simp add: saturating_add_def)

lemma example_no_failure: "ha_simulated_failure example_adapter = None"
  by (simp add: example_adapter_def host_new_def)

lemma example_in_range: "range_exact (ts_range (example_spec 1))"
  by (simp add: range_exact_def)

lemma example_copy:
  "host_copy 900 (example_spec 1) example_source ''p1'' example_adapter =
     Some (Inr \<lparr>to_record = host_record_of 900 (example_spec 1) ''p1'' example_adapter,
                to_destination_bytes = [20, 30]\<rparr>,
           host_accounted (host_record_of 900 (example_spec 1) ''p1'' example_adapter) example_adapter)"
proof -
  have "validate_before_copy (example_spec 1) example_source ''p1'' = None"
    by (simp add: validate_None_iff example_facts_match range_end_def source_total_bytes_def)
  moreover have "source_slice example_source (ts_range (example_spec 1)) = Some [20, 30]"
    by (simp add: source_slice_def range_end_def)
  ultimately show ?thesis
    by (simp add: host_copy_eq example_within_budget example_no_failure)
qed

section \<open>Properties\<close>

text \<open>C15: whatever copies, measurements and injected failures a host-staged adapter goes through, its
  accounted bytes and time stay within the declared budget, they are the sums over the recorded
  copies (saturating at the 64-bit maximum), the engines are numbered in copy order, and no
  staging buffer stays in flight after a failure, a timeout or a success.\<close>

theorem host_adapter_stays_in_budget:
  assumes "host_run es (host_new budget) = Some a"
  shows "ha_used_bytes a \<le> tb_bytes budget \<and> ha_used_time_nanos a \<le> tb_time_nanos budget \<and>
    unat (tr_used_bytes (host_transport_receipt a)) =
      min (sum_list (map (unat \<circ> st_bytes) (tr_records (host_transport_receipt a)))) (2 ^ 64 - 1) \<and>
    unat (tr_used_time_nanos (host_transport_receipt a)) =
      min (sum_list (map (unat \<circ> st_expected_nanos) (tr_records (host_transport_receipt a)))) (2 ^ 64 - 1) \<and>
    map st_engine (ha_records a) = map word_of_nat [1..<Suc (length (ha_records a))] \<and>
    pool_active (ha_staging_pool a) = fmempty"
proof (intro conjI)
  have ok: "host_ok a" and budget: "ha_declared_budget a = budget"
    using host_run_ok[OF host_ok_new assms] by (auto simp: host_new_def)
  show "ha_used_bytes a \<le> tb_bytes budget" "ha_used_time_nanos a \<le> tb_time_nanos budget"
    using ok budget by (auto simp: host_ok_def)
qed (use host_run_ok[OF host_ok_new assms] in
    \<open>simp_all add: host_ok_def host_transport_receipt_def del: upt_Suc\<close>)

theorem host_adapter_stays_in_budget_witness:
  "\<exists>a. host_run [HostCopy 900 (example_spec 1) example_source ''p1'']
     (host_new \<lparr>tb_bytes = 3, tb_time_nanos = 5000\<rparr>) = Some a \<and> ha_used_bytes a \<le> 3 \<and>
     pool_active (ha_staging_pool a) = fmempty \<and> map st_bytes (ha_records a) = [2]"
proof -
  let ?a = "host_accounted (host_record_of 900 (example_spec 1) ''p1'' example_adapter) example_adapter"
  have run: "host_run [HostCopy 900 (example_spec 1) example_source ''p1'']
      (host_new \<lparr>tb_bytes = 3, tb_time_nanos = 5000\<rparr>) = Some ?a"
    using example_copy by (simp add: example_adapter_def)
  have "ha_records example_adapter = []" by (simp add: example_adapter_def host_new_def)
  then have "map st_bytes (ha_records ?a) = [2]" by simp
  with run host_adapter_stays_in_budget[OF run] show ?thesis by simp
qed

text \<open>C16: a copy whose range does not wrap around the address space never panics; it succeeds exactly
  when every declared fact matches the content and the destination, the range lies inside the
  content, both budgets hold, the runtime does not fail and the clock stays within the declared
  timeout; the destination then receives exactly the bytes of the range. Otherwise nothing is
  recorded or charged, and a rejection or an exceeded budget leaves the adapter untouched.\<close>

theorem host_copy_exact:
  assumes "range_exact (ts_range spec)" "length (sv_bytes source) < 2 ^ 64"
    and "host_copy elapsed spec source destination a = Some (res, a')"
  shows "((\<exists>out. res = Inr out) \<longleftrightarrow>
      transfer_facts_match spec source destination \<and>
      unat (ra_offset (ts_range spec)) + unat (ra_length (ts_range spec)) \<le> length (sv_bytes source) \<and>
      \<not> host_over_budget spec a \<and> ha_simulated_failure a = None \<and> elapsed \<le> ts_timeout spec) \<and>
    (\<forall>out. res = Inr out \<longrightarrow> to_destination_bytes out =
      take (unat (ra_length (ts_range spec))) (drop (unat (ra_offset (ts_range spec))) (sv_bytes source))) \<and>
    (\<forall>e. res = Inl e \<longrightarrow> ha_records a' = ha_records a \<and> ha_used_bytes a' = ha_used_bytes a \<and>
      ha_used_time_nanos a' = ha_used_time_nanos a) \<and>
    (\<forall>r. res = Inl (TransferRejected r) \<longrightarrow> a' = a) \<and>
    (\<forall>t b u n. res = Inl (TransferBudgetExceeded t b u n) \<longrightarrow> a' = a)"
proof (intro conjI)
  let ?in_bounds = "unat (ra_offset (ts_range spec)) + unat (ra_length (ts_range spec)) \<le> length (sv_bytes source)"
  have v: "validate_before_copy spec source destination = None \<longleftrightarrow>
      transfer_facts_match spec source destination \<and> ?in_bounds"
    by (simp add: validate_None_iff range_in_bounds_iff[OF assms(1,2)])
  note slice = source_slice_exact[OF assms(1), of source]
  show "(\<exists>out. res = Inr out) \<longleftrightarrow> transfer_facts_match spec source destination \<and> ?in_bounds \<and>
      \<not> host_over_budget spec a \<and> ha_simulated_failure a = None \<and> elapsed \<le> ts_timeout spec"
    using assms(3) v slice unfolding host_copy_eq
    by (cases "validate_before_copy spec source destination") (auto split: option.splits if_splits)
  show "\<forall>out. res = Inr out \<longrightarrow> to_destination_bytes out =
      take (unat (ra_length (ts_range spec))) (drop (unat (ra_offset (ts_range spec))) (sv_bytes source))"
    using assms(3) v slice unfolding host_copy_eq by (auto split: option.splits if_splits)
  show "\<forall>e. res = Inl e \<longrightarrow> ha_records a' = ha_records a \<and> ha_used_bytes a' = ha_used_bytes a \<and>
      ha_used_time_nanos a' = ha_used_time_nanos a"
    and "\<forall>r. res = Inl (TransferRejected r) \<longrightarrow> a' = a"
    and "\<forall>t b u n. res = Inl (TransferBudgetExceeded t b u n) \<longrightarrow> a' = a"
    using assms(3) unfolding host_copy_eq by (auto split: option.splits if_splits)
qed

theorem host_copy_exact_witness:
  "\<exists>out a'. host_copy 900 (example_spec 1) example_source ''p1'' example_adapter = Some (Inr out, a') \<and>
     to_destination_bytes out = [20, 30] \<and>
     (\<forall>res a''. host_copy 1001 (example_spec 1) example_source ''p1'' example_adapter \<noteq> Some (Inr res, a''))"
proof -
  have len: "length (sv_bytes example_source) < 2 ^ 64" by simp
  note exact = host_copy_exact[OF example_in_range len]
  have "to_destination_bytes \<lparr>to_record = host_record_of 900 (example_spec 1) ''p1'' example_adapter,
      to_destination_bytes = [20, 30]\<rparr> = take 2 (drop 1 [10, 20, 30, 40])"
    using exact[OF example_copy] by simp
  moreover have "host_copy 1001 (example_spec 1) example_source ''p1'' example_adapter \<noteq> Some (Inr res, a'')"
    for res a''
    using exact[of 1001 "''p1''" example_adapter "Inr res" a''] by auto
  ultimately show ?thesis using example_copy by (intro exI conjI) (assumption | simp)+
qed

text \<open>A coordinator that runs any list of transfers over either adapter gets, for each success,
  the validated range within its timeout, and the adapter's records grow by exactly the records
  of the successes, in order: this is the contract of the trait, and both adapters keep it.\<close>

theorem transfers_are_recorded_exactly:
  assumes "host_transport.copy_all xs a = Some (results, a')"
  shows "ha_records a' = ha_records a @ map to_record (host_transport.outcomes results) \<and>
    list_all2 (\<lambda>x r. \<forall>out. r = Inr out \<longrightarrow>
      (case x of (elapsed, spec, source, destination) \<Rightarrow>
         transfer_facts_match spec source destination \<and>
         source_slice source (ts_range spec) = Some (to_destination_bytes out) \<and>
         elapsed \<le> ts_timeout spec)) xs results"
  by (rule conjI[OF host_transport.copy_all_records[OF assms] host_transport.copy_all_moves[OF assms]])

theorem transfers_are_recorded_exactly_witness:
  "\<exists>results a'. host_transport.copy_all [(900, example_spec 1, example_source, ''p1''),
       (900, example_spec 0, example_source, ''p2'')] example_adapter = Some (results, a') \<and>
     ha_records a' = ha_records example_adapter @ map to_record (host_transport.outcomes results) \<and>
     length (host_transport.outcomes results) = 1"
proof -
  let ?a = "host_accounted (host_record_of 900 (example_spec 1) ''p1'' example_adapter) example_adapter"
  have "validate_before_copy (example_spec 0) example_source ''p2'' =
      Some (DestinationMismatch ''t1'' ''p1'' ''p2'')"
    by (simp add: validate_before_copy_def example_spec_def spec_new_def example_source_def
        source_total_bytes_def range_end_def)
  then have "host_copy 900 (example_spec 0) example_source ''p2'' ?a =
      Some (Inl (TransferRejected (DestinationMismatch ''t1'' ''p1'' ''p2'')), ?a)"
    by (simp add: host_copy_eq)
  then obtain results where run: "host_transport.copy_all [(900, example_spec 1, example_source, ''p1''),
       (900, example_spec 0, example_source, ''p2'')] example_adapter = Some (results, ?a)"
      and "length (host_transport.outcomes results) = 1"
    using example_copy by (simp add: host_transport.outcomes_def)
  with transfers_are_recorded_exactly[OF run] show ?thesis by blast
qed

section \<open>The peer path\<close>

text \<open>What an admission registry holds: only measured rows, for the pair they were measured on.\<close>

definition measurement_proper :: "directed_pair \<Rightarrow> peer_pair_measurement \<Rightarrow> bool" where
  "measurement_proper pair m \<longleftrightarrow> pm_pair m = pair \<and> pair_source pair \<noteq> pair_destination pair \<and>
     pm_directional_bandwidth_bytes_per_sec m \<noteq> 0 \<and> pm_latency_nanos m \<noteq> 0 \<and>
     pm_evidence_reference m \<noteq> []"

definition registry_of :: "peer_pair_measurement list \<Rightarrow> peer_pair_registry" where
  "registry_of ms = foldl (\<lambda>registry m. snd (registry_admit registry m)) fmempty ms"

lemma registry_admit_eq:
  "registry_admit registry m =
     (if measurement_proper (pm_pair m) m then (None, fmupd (pm_pair m) m registry)
      else (fst (registry_admit registry m), registry))"
  "fst (registry_admit registry m) = None \<longleftrightarrow> measurement_proper (pm_pair m) m"
  by (auto simp: registry_admit_def measurement_proper_def Let_def)

lemma registry_of_lookup:
  "fmlookup (registry_of ms) pair = Some m \<Longrightarrow> m \<in> set ms \<and> measurement_proper pair m"
proof (induction ms rule: rev_induct)
  case Nil
  then show ?case by (simp add: registry_of_def)
next
  case (snoc x ms)
  have "registry_of (ms @ [x]) = snd (registry_admit (registry_of ms) x)" by (simp add: registry_of_def)
  with snoc show ?case by (subst (asm) registry_admit_eq) (auto split: if_splits)
qed

lemma registry_of_mem:
  "m \<in> set ms \<Longrightarrow> measurement_proper (pm_pair m) m \<Longrightarrow> registry_is_admitted (registry_of ms) (pm_pair m)"
proof (induction ms rule: rev_induct)
  case Nil
  then show ?case by simp
next
  case (snoc x ms)
  have eq: "registry_of (ms @ [x]) = snd (registry_admit (registry_of ms) x)" by (simp add: registry_of_def)
  show ?case
    unfolding eq using snoc by (subst registry_admit_eq) (auto simp: registry_is_admitted_def)
qed

text \<open>The per-pair flip rule: after any admissions a directed pair selects the peer path exactly
  when one of them measured that very pair with a bandwidth, a latency and evidence, never for a
  self pair and never for the reverse pair alone; and the peer adapter copies nothing in any case,
  it reports the mismatch first, then the missing admission, then that it is not attempted.\<close>

theorem peer_path_needs_own_measurement:
  "(select_copy_path pair (registry_of ms) = CopyPeer \<longleftrightarrow> (\<exists>m \<in> set ms. measurement_proper pair m)) \<and>
   (\<exists>e. peer_copy spec source destination (registry_of ms) = (Inl e, registry_of ms) \<and>
     (e = PeerNotAdmitted (DirectedPair (ts_source_owner spec) destination) \<longleftrightarrow>
        validate_before_copy spec source destination = None \<and>
        select_copy_path (DirectedPair (ts_source_owner spec) destination) (registry_of ms) = CopyHostStaged))"
proof (rule conjI)
  show "select_copy_path pair (registry_of ms) = CopyPeer \<longleftrightarrow> (\<exists>m \<in> set ms. measurement_proper pair m)"
  proof
    show "select_copy_path pair (registry_of ms) = CopyPeer \<Longrightarrow> \<exists>m \<in> set ms. measurement_proper pair m"
      using registry_of_lookup[of ms pair]
      by (auto simp: select_copy_path_def registry_is_admitted_def split: if_splits)
    assume "\<exists>m \<in> set ms. measurement_proper pair m"
    then obtain m where m: "m \<in> set ms" "measurement_proper pair m" by blast
    then have "pm_pair m = pair" by (simp add: measurement_proper_def)
    with registry_of_mem[of m ms] m show "select_copy_path pair (registry_of ms) = CopyPeer"
      by (simp add: select_copy_path_def)
  qed
  show "\<exists>e. peer_copy spec source destination (registry_of ms) = (Inl e, registry_of ms) \<and>
     (e = PeerNotAdmitted (DirectedPair (ts_source_owner spec) destination) \<longleftrightarrow>
        validate_before_copy spec source destination = None \<and>
        select_copy_path (DirectedPair (ts_source_owner spec) destination) (registry_of ms) = CopyHostStaged)"
    by (auto simp: peer_copy_def Let_def select_copy_path_def split: option.splits)
qed

section \<open>Where the arithmetic leaves the contract\<close>

text \<open>A range whose end wraps around passes the bounds check; the slice then panics.\<close>

lemma wrapped_range_panics:
  assumes "transfer_facts_match spec source destination"
    and "ts_range spec = \<lparr>ra_offset = - 1, ra_length = 2\<rparr>" "length (sv_bytes source) = 1"
    and "\<not> host_over_budget spec a" "ha_simulated_failure a = None"
  shows "validate_before_copy spec source destination = None \<and>
    host_copy elapsed spec source destination a = None"
proof -
  have v: "validate_before_copy spec source destination = None"
    using assms by (simp add: validate_None_iff range_end_def source_total_bytes_def)
  have "unat (- 1 :: u64) = 2 ^ 64 - 1" by (simp add: unsigned_minus_1_eq_mask mask_eq_exp_minus_1)
  then have "source_slice source (ts_range spec) = None"
    using assms(2,3) by (simp add: source_slice_def range_end_def)
  then show ?thesis using v assms(4,5) by (simp add: host_copy_eq)
qed

text \<open>A measurement of zero bytes sets the rate to zero, and a zero rate makes every copy free of
  transfer time.\<close>

lemma zero_measurement_disables_time_budget:
  "0 < e \<Longrightarrow> expected_copy_time_nanos n direction
     (ha_rates (host_record_fixture_measurement direction 0 e a)) = (if n \<le> 16 * 1024 then 1300 else 5000)"
  by (cases direction)
    (auto simp: host_record_fixture_measurement_def saturating_mul_def Let_def word_gt_0
      expected_copy_time_nanos_def checked_div_def unwrap_or_def saturating_add_def)

end
