(* ===== verification/Utf8.thy ===== *)
theory Utf8
  imports Prelude
begin

text \<open>
  Texts as the lists of their Unicode scalar values, with the byte view that Rust's \<open>str\<close> offers: the
  UTF-8 encoding, byte lengths and slices by byte offsets, which exist only between two characters.
\<close>

type_synonym ustr = "nat list"

abbreviation lit :: "string \<Rightarrow> ustr" where
  "lit s \<equiv> map of_char s"

definition len_utf8 :: "nat \<Rightarrow> nat" where
  "len_utf8 c = (if c < 0x80 then 1 else if c < 0x800 then 2 else if c < 0x10000 then 3 else 4)"

definition utf8_char :: "nat \<Rightarrow> bytes" where
  "utf8_char c = map word_of_nat
     (if c < 0x80 then [c]
      else if c < 0x800 then [0xC0 + c div 64, 0x80 + c mod 64]
      else if c < 0x10000 then [0xE0 + c div 4096, 0x80 + c div 64 mod 64, 0x80 + c mod 64]
      else [0xF0 + c div 262144, 0x80 + c div 4096 mod 64, 0x80 + c div 64 mod 64, 0x80 + c mod 64])"

definition utf8 :: "ustr \<Rightarrow> bytes" where
  "utf8 cs = concat (map utf8_char cs)"

text \<open>\<open>str::len\<close>.\<close>

definition byte_len :: "ustr \<Rightarrow> nat" where
  "byte_len cs = sum_list (map len_utf8 cs)"

lemma len_utf8_pos [simp]: "0 < len_utf8 c"
  by (simp add: len_utf8_def)

lemma length_utf8_char [simp]: "length (utf8_char c) = len_utf8 c"
  by (simp add: utf8_char_def len_utf8_def)

lemma utf8_simps [simp]: "utf8 [] = []" "utf8 (c # cs) = utf8_char c @ utf8 cs" "utf8 (cs @ ds) = utf8 cs @ utf8 ds"
  by (simp_all add: utf8_def)

lemma byte_len_simps [simp]:
  "byte_len [] = 0" "byte_len (c # cs) = len_utf8 c + byte_len cs" "byte_len (cs @ ds) = byte_len cs + byte_len ds"
  by (simp_all add: byte_len_def)

lemma length_utf8 [simp]: "length (utf8 cs) = byte_len cs"
  by (induction cs) auto

lemma byte_len_eq_0 [simp]: "byte_len cs = 0 \<longleftrightarrow> cs = []"
  by (cases cs) (auto simp: add_eq_0_iff_both_eq_0)

lemma length_le_byte_len: "length cs \<le> byte_len cs"
proof (induction cs)
  case (Cons c cs)
  have "0 < len_utf8 c" by simp
  with Cons show ?case by (simp del: len_utf8_pos)
qed simp

section \<open>Slices\<close>

fun drop_bytes :: "nat \<Rightarrow> ustr \<Rightarrow> ustr option" where
  "drop_bytes n [] = (if n = 0 then Some [] else None)"
| "drop_bytes n (c # cs) =
     (if n = 0 then Some (c # cs)
      else if len_utf8 c \<le> n then drop_bytes (n - len_utf8 c) cs else None)"

fun take_bytes :: "nat \<Rightarrow> ustr \<Rightarrow> ustr option" where
  "take_bytes n [] = (if n = 0 then Some [] else None)"
| "take_bytes n (c # cs) =
     (if n = 0 then Some []
      else if len_utf8 c \<le> n then map_option (\<lambda>ds. c # ds) (take_bytes (n - len_utf8 c) cs) else None)"

text \<open>\<open>text.get(start..end)\<close>; indexing panics where this is \<open>None\<close>.\<close>

definition str_get :: "ustr \<Rightarrow> nat \<Rightarrow> nat \<Rightarrow> ustr option" where
  "str_get cs start end' =
     (if start \<le> end' then Option.bind (drop_bytes start cs) (take_bytes (end' - start)) else None)"

lemma drop_bytes_append [simp]: "drop_bytes (byte_len cs) (cs @ ds) = Some ds"
proof (induction cs)
  case (Cons c cs)
  have "0 < len_utf8 c" by simp
  with Cons show ?case by (simp del: len_utf8_pos)
next
  case Nil
  show ?case by (cases ds) auto
qed

lemma take_bytes_append [simp]: "take_bytes (byte_len cs) (cs @ ds) = Some cs"
proof (induction cs)
  case (Cons c cs)
  have "0 < len_utf8 c" by simp
  with Cons show ?case by (simp del: len_utf8_pos)
next
  case Nil
  show ?case by (cases ds) auto
qed

lemma drop_bytes_SomeD: "drop_bytes n cs = Some ds \<Longrightarrow> \<exists>as. cs = as @ ds \<and> byte_len as = n"
proof (induction n cs rule: drop_bytes.induct)
  case (2 n c cs)
  show ?case
  proof (cases "n = 0")
    case False
    then obtain as where "cs = as @ ds" "byte_len as = n - len_utf8 c" "len_utf8 c \<le> n"
      using 2 by (auto split: if_splits)
    then show ?thesis by (intro exI[of _ "c # as"]) auto
  qed (use 2 in auto)
qed (auto split: if_splits)

lemma take_bytes_SomeD: "take_bytes n cs = Some as \<Longrightarrow> \<exists>ds. cs = as @ ds \<and> byte_len as = n"
proof (induction n cs arbitrary: as rule: take_bytes.induct)
  case (2 n c cs)
  show ?case
  proof (cases "n = 0")
    case False
    then obtain bs where bs: "as = c # bs" "take_bytes (n - len_utf8 c) cs = Some bs" "len_utf8 c \<le> n"
      using 2(2) by (auto split: if_splits)
    with 2(1)[OF False bs(3,2)] show ?thesis by auto
  qed (use 2 in auto)
qed (auto split: if_splits)

text \<open>A slice exists exactly between two prefixes of the text.\<close>

lemma str_get_append: "str_get (as @ bs @ cs) (byte_len as) (byte_len as + byte_len bs) = Some bs"
  by (simp add: str_get_def)

lemma str_get_SomeD:
  "str_get cs i j = Some bs \<Longrightarrow> \<exists>as ds. cs = as @ bs @ ds \<and> i = byte_len as \<and> j = byte_len as + byte_len bs"
proof -
  assume a: "str_get cs i j = Some bs"
  then obtain rest where r: "i \<le> j" "drop_bytes i cs = Some rest" "take_bytes (j - i) rest = Some bs"
    by (auto simp: str_get_def bind_eq_Some_conv split: if_splits)
  obtain as where "cs = as @ rest" "byte_len as = i" using drop_bytes_SomeD[OF r(2)] by auto
  moreover obtain ds where "rest = bs @ ds" "byte_len bs = j - i" using take_bytes_SomeD[OF r(3)] by auto
  ultimately show ?thesis using r(1) by auto
qed

text \<open>The byte offset of a character.\<close>

definition off :: "ustr \<Rightarrow> nat \<Rightarrow> nat" where
  "off cs i = byte_len (take i cs)"

definition seg :: "ustr \<Rightarrow> nat \<Rightarrow> nat \<Rightarrow> ustr" where
  "seg cs i j = take (j - i) (drop i cs)"

lemma seg_append: "i \<le> j \<Longrightarrow> j \<le> k \<Longrightarrow> seg cs i j @ seg cs j k = seg cs i k"
proof -
  assume "i \<le> j" "j \<le> k"
  then have "k - i = (j - i) + (k - j)" "drop (j - i) (drop i cs) = drop j cs" by simp_all
  then show ?thesis unfolding seg_def by (metis take_add)
qed

lemma take_seg: "i \<le> j \<Longrightarrow> take j cs = take i cs @ seg cs i j"
  by (metis seg_def le_add_diff_inverse take_add)

lemma off_seg: "i \<le> j \<Longrightarrow> off cs j = off cs i + byte_len (seg cs i j)"
  by (simp add: off_def take_seg[of i j])

lemma length_seg: "j \<le> length cs \<Longrightarrow> length (seg cs i j) = j - i"
  by (simp add: seg_def)

lemma off_less: "i < j \<Longrightarrow> j \<le> length cs \<Longrightarrow> off cs i < off cs j"
  using off_seg[of i j cs] length_seg[of j cs i] length_le_byte_len[of "seg cs i j"] by simp

lemma off_inject: "i \<le> length cs \<Longrightarrow> j \<le> length cs \<Longrightarrow> off cs i = off cs j \<longleftrightarrow> i = j"
  using off_less[of i j cs] off_less[of j i cs] by (cases i j rule: linorder_cases) auto

lemma off_mono: "i \<le> j \<Longrightarrow> off cs i \<le> off cs j"
  by (simp add: off_seg[of i j])

lemma off_le_total: "i \<le> length cs \<Longrightarrow> off cs i \<le> byte_len cs"
  using off_mono[of i "length cs" cs] by (simp add: off_def)

lemma str_get_off: "i \<le> j \<Longrightarrow> j \<le> length cs \<Longrightarrow> str_get cs (off cs i) (off cs j) = Some (seg cs i j)"
proof -
  assume ij: "i \<le> j" "j \<le> length cs"
  have "cs = take i cs @ seg cs i j @ drop j cs"
    using take_seg[OF ij(1), of cs] by (metis append_assoc append_take_drop_id)
  then show ?thesis
    using str_get_append[of "take i cs" "seg cs i j" "drop j cs"] off_seg[OF ij(1), of cs]
    by (simp add: off_def)
qed

end
