(* ===== verification/Json.thy ===== *)
theory Json
  imports Utf8
begin

text \<open>
  The object-rooted JSON carrier of \<open>src/json.rs\<close> over the dynamic values of \<open>src/valor.rs\<close>: the
  validation with its error paths, the wire rendering and the parser. A text is the list of its
  Unicode scalar values, which is also the order of its UTF-8 bytes; the parser's position is the
  rest of the wire. A \<open>BTreeMap<String, Valor>\<close> is its list of items in key order. The floating
  point type is a parameter with the three library operations the source uses; \<open>unreachable!\<close> is
  \<open>None\<close>. The recursive descent carries a fuel that the length of the wire bounds.
\<close>

section \<open>Values\<close>

datatype 'f valor =
  Nihil
| Bivalens bool
| Numerus i64
| Fractus 'f
| Textus ustr
| Octeti bytes
| Lista "'f valor list"
| Tabula "(ustr \<times> 'f valor) list"
| InstansText ustr

text \<open>\<open>f64\<close>: \<open>is_finite\<close>, \<open>to_string\<close> and \<open>str::parse\<close>.\<close>

record 'f float_ops =
  f_is_finite :: "'f \<Rightarrow> bool"
  f_to_string :: "'f \<Rightarrow> ustr"
  f_parse :: "ustr \<Rightarrow> 'f option"

datatype json_error_kind =
  ExpectedObjectRoot
| UnsupportedVariant string
| NonFiniteNumber
| DuplicateKey ustr
| InvalidSyntax ustr
| InvalidNumber ustr
| TrailingCharacters

datatype json_error = JsonError (je_path: ustr) (je_kind: json_error_kind)

section \<open>Rendering\<close>

definition is_control :: "nat \<Rightarrow> bool" where
  "is_control c \<longleftrightarrow> c < 32 \<or> (127 \<le> c \<and> c < 160)"

definition is_digit :: "nat \<Rightarrow> bool" where
  "is_digit c \<longleftrightarrow> 48 \<le> c \<and> c \<le> 57"

definition is_ascii_alphanumeric :: "nat \<Rightarrow> bool" where
  "is_ascii_alphanumeric c \<longleftrightarrow> is_digit c \<or> (65 \<le> c \<and> c \<le> 90) \<or> (97 \<le> c \<and> c \<le> 122)"

text \<open>\<open>{:04x}\<close> of a control character.\<close>

definition hex_quad :: "nat \<Rightarrow> ustr" where
  "hex_quad c = lit [hex_digit (c div 4096 mod 16), hex_digit (c div 256 mod 16),
     hex_digit (c div 16 mod 16), hex_digit (c mod 16)]"

definition render_char :: "nat \<Rightarrow> ustr" where
  "render_char ch =
     (if ch = 34 then [92, 34]
      else if ch = 92 then [92, 92]
      else if ch = 8 then [92, 98]
      else if ch = 12 then [92, 102]
      else if ch = 10 then [92, 110]
      else if ch = 13 then [92, 114]
      else if ch = 9 then [92, 116]
      else if is_control ch then [92, 117] @ hex_quad ch
      else [ch])"

definition render_string :: "ustr \<Rightarrow> ustr" where
  "render_string value = [34] @ concat (map render_char value) @ [34]"

definition render_fractus :: "'f float_ops \<Rightarrow> 'f \<Rightarrow> ustr" where
  "render_fractus F value =
     (let rendered = f_to_string F value
      in if 46 \<in> set rendered \<or> 101 \<in> set rendered \<or> 69 \<in> set rendered then rendered
         else rendered @ lit ''.0'')"

definition show_i64 :: "i64 \<Rightarrow> ustr" where
  "show_i64 v = (if sint v < 0 then 45 # lit (show_nat (nat (- sint v))) else lit (show_nat (nat (sint v))))"

fun join_comma :: "ustr list \<Rightarrow> ustr" where
  "join_comma [] = []"
| "join_comma [x] = x"
| "join_comma (x # y # xs) = x @ [44] @ join_comma (y # xs)"

fun render_valor :: "'f float_ops \<Rightarrow> 'f valor \<Rightarrow> ustr option"
  and render_items :: "'f float_ops \<Rightarrow> 'f valor list \<Rightarrow> ustr list option"
  and render_fields :: "'f float_ops \<Rightarrow> (ustr \<times> 'f valor) list \<Rightarrow> ustr list option" where
  "render_valor F Nihil = Some (lit ''null'')"
| "render_valor F (Bivalens True) = Some (lit ''true'')"
| "render_valor F (Bivalens False) = Some (lit ''false'')"
| "render_valor F (Numerus value) = Some (show_i64 value)"
| "render_valor F (Fractus value) = Some (render_fractus F value)"
| "render_valor F (Textus value) = Some (render_string value)"
| "render_valor F (Lista items) =
     map_option (\<lambda>body. [91] @ join_comma body @ [93]) (render_items F items)"
| "render_valor F (Tabula tab) =
     map_option (\<lambda>body. [123] @ join_comma body @ [125]) (render_fields F tab)"
| "render_valor F (Octeti _) = None"
| "render_valor F (InstansText _) = None"
| "render_items F [] = Some []"
| "render_items F (v # vs) = Option.bind (render_valor F v) (\<lambda>r.
     map_option (\<lambda>rs. r # rs) (render_items F vs))"
| "render_fields F [] = Some []"
| "render_fields F ((k, v) # fs) = Option.bind (render_valor F v) (\<lambda>r.
     map_option (\<lambda>rs. (render_string k @ [58] @ r) # rs) (render_fields F fs))"

section \<open>Validation\<close>

definition object_path :: "ustr \<Rightarrow> ustr \<Rightarrow> ustr" where
  "object_path parent key =
     (if list_all (\<lambda>ch. ch = 95 \<or> is_ascii_alphanumeric ch) key then parent @ [46] @ key
      else parent @ [91] @ render_string key @ [93])"

definition item_path :: "ustr \<Rightarrow> nat \<Rightarrow> ustr" where
  "item_path path idx = path @ [91] @ lit (show_nat idx) @ [93]"

fun validate_value :: "'f float_ops \<Rightarrow> 'f valor \<Rightarrow> ustr \<Rightarrow> json_error option"
  and validate_items :: "'f float_ops \<Rightarrow> nat \<Rightarrow> 'f valor list \<Rightarrow> ustr \<Rightarrow> json_error option"
  and validate_fields :: "'f float_ops \<Rightarrow> (ustr \<times> 'f valor) list \<Rightarrow> ustr \<Rightarrow> json_error option" where
  "validate_value F Nihil path = None"
| "validate_value F (Bivalens _) path = None"
| "validate_value F (Numerus _) path = None"
| "validate_value F (Textus _) path = None"
| "validate_value F (Fractus n) path =
     (if f_is_finite F n then None else Some (JsonError path NonFiniteNumber))"
| "validate_value F (Lista items) path = validate_items F 0 items path"
| "validate_value F (Tabula tab) path = validate_fields F tab path"
| "validate_value F (Octeti _) path = Some (JsonError path (UnsupportedVariant ''octeti''))"
| "validate_value F (InstansText _) path = Some (JsonError path (UnsupportedVariant ''instans''))"
| "validate_items F idx [] path = None"
| "validate_items F idx (v # vs) path = (case validate_value F v (item_path path idx) of
     Some e \<Rightarrow> Some e | None \<Rightarrow> validate_items F (Suc idx) vs path)"
| "validate_fields F [] path = None"
| "validate_fields F ((k, v) # fs) path = (case validate_value F v (object_path path k) of
     Some e \<Rightarrow> Some e | None \<Rightarrow> validate_fields F fs path)"

definition validate_root :: "'f float_ops \<Rightarrow> 'f valor \<Rightarrow> json_error option" where
  "validate_root F value = (case value of
     Tabula _ \<Rightarrow> validate_value F value (lit ''$'')
   | _ \<Rightarrow> Some (JsonError (lit ''$'') ExpectedObjectRoot))"

text \<open>\<open>Json\<close> wraps a validated value.\<close>

datatype 'f json = JsonDoc (json_valor: "'f valor")

definition json_try_from :: "'f float_ops \<Rightarrow> 'f valor \<Rightarrow> json_error + 'f json" where
  "json_try_from F value = (case validate_root F value of
     Some e \<Rightarrow> Inl e | None \<Rightarrow> Inr (JsonDoc value))"

definition json_from_object :: "'f float_ops \<Rightarrow> (ustr \<times> 'f valor) list \<Rightarrow> json_error + 'f json" where
  "json_from_object F tab = json_try_from F (Tabula tab)"

definition json_as_object :: "'f json \<Rightarrow> (ustr \<times> 'f valor) list option" where
  "json_as_object j = (case json_valor j of Tabula tab \<Rightarrow> Some tab | _ \<Rightarrow> None)"

definition json_to_wire :: "'f float_ops \<Rightarrow> 'f json \<Rightarrow> ustr option" where
  "json_to_wire F j = render_valor F (json_valor j)"

section \<open>The parser\<close>

definition syntax_error :: "ustr \<Rightarrow> ustr \<Rightarrow> json_error" where
  "syntax_error path message = JsonError path (InvalidSyntax message)"

definition skip_ws :: "ustr \<Rightarrow> ustr" where
  "skip_ws s = dropWhile (\<lambda>c. c = 32 \<or> c = 10 \<or> c = 13 \<or> c = 9) s"

fun consume :: "nat \<Rightarrow> ustr \<Rightarrow> bool \<times> ustr" where
  "consume b [] = (False, [])"
| "consume b (c # s) = (if c = b then (True, s) else (False, c # s))"

definition expect :: "nat \<Rightarrow> ustr \<Rightarrow> ustr \<Rightarrow> json_error + ustr" where
  "expect b path s = (case consume b s of
     (True, s') \<Rightarrow> Inr s'
   | (False, _) \<Rightarrow> Inl (syntax_error path (lit ''expected '' @ [b])))"

text \<open>The first byte of the UTF-8 encoding, which \<open>peek\<close> returns.\<close>

definition utf8_lead_byte :: "nat \<Rightarrow> nat" where
  "utf8_lead_byte c =
     (if c < 0x80 then c else if c < 0x800 then 0xC0 + c div 64
      else if c < 0x10000 then 0xE0 + c div 4096 else 0xF0 + c div 262144)"

fun hex_value :: "nat \<Rightarrow> nat option" where
  "hex_value c = (if is_digit c then Some (c - 48)
     else if 97 \<le> c \<and> c \<le> 102 then Some (c - 87)
     else if 65 \<le> c \<and> c \<le> 70 then Some (c - 55) else None)"

fun parse_hex_digits :: "nat \<Rightarrow> nat \<Rightarrow> ustr \<Rightarrow> ustr \<Rightarrow> json_error + nat \<times> ustr" where
  "parse_hex_digits 0 value path s = Inr (value, s)"
| "parse_hex_digits (Suc n) value path [] = Inl (syntax_error path (lit ''short unicode escape''))"
| "parse_hex_digits (Suc n) value path (ch # s) = (case hex_value ch of
     None \<Rightarrow> Inl (syntax_error path (lit ''invalid unicode escape''))
   | Some digit \<Rightarrow> parse_hex_digits n (value * 16 + digit) path s)"

definition parse_hex_quad :: "ustr \<Rightarrow> ustr \<Rightarrow> json_error + nat \<times> ustr" where
  "parse_hex_quad path s = parse_hex_digits 4 0 path s"

definition char_from_u32 :: "nat \<Rightarrow> nat option" where
  "char_from_u32 c = (if c < 0xD800 \<or> 0xDFFF < c \<and> c < 0x110000 then Some c else None)"

definition scalar_or_error :: "ustr \<Rightarrow> nat \<Rightarrow> ustr \<Rightarrow> json_error + nat \<times> ustr" where
  "scalar_or_error path c s = (case char_from_u32 c of
     Some ch \<Rightarrow> Inr (ch, s)
   | None \<Rightarrow> Inl (syntax_error path (lit ''invalid unicode scalar'')))"

definition parse_unicode_escape :: "ustr \<Rightarrow> ustr \<Rightarrow> json_error + nat \<times> ustr" where
  "parse_unicode_escape path s = (case parse_hex_quad path s of
     Inl e \<Rightarrow> Inl e
   | Inr (high, s) \<Rightarrow>
       if \<not> (0xD800 \<le> high \<and> high \<le> 0xDBFF) then scalar_or_error path high s
       else (case s of
         c1 # c2 # s' \<Rightarrow>
           if c1 = 92 \<and> c2 = 117
           then (case parse_hex_quad path s' of
              Inl e \<Rightarrow> Inl e
            | Inr (low, s'') \<Rightarrow>
                if \<not> (0xDC00 \<le> low \<and> low \<le> 0xDFFF)
                then Inl (syntax_error path (lit ''high surrogate without low surrogate''))
                else scalar_or_error path (0x10000 + (high - 0xD800) * 1024 + (low - 0xDC00)) s'')
           else Inl (syntax_error path (lit ''high surrogate without low surrogate''))
       | _ \<Rightarrow> Inl (syntax_error path (lit ''high surrogate without low surrogate''))))"

fun parse_escape :: "ustr \<Rightarrow> ustr \<Rightarrow> json_error + nat \<times> ustr" where
  "parse_escape path [] = Inl (syntax_error path (lit ''unterminated escape''))"
| "parse_escape path (ch # s) =
     (if ch = 34 \<or> ch = 92 \<or> ch = 47 then Inr (ch, s)
      else if ch = 98 then Inr (8, s)
      else if ch = 102 then Inr (12, s)
      else if ch = 110 then Inr (10, s)
      else if ch = 114 then Inr (13, s)
      else if ch = 116 then Inr (9, s)
      else if ch = 117 then parse_unicode_escape path s
      else Inl (syntax_error path (lit ''invalid escape '' @ [92, ch])))"

text \<open>Every successful step of the parser leaves a rest no longer than its input.\<close>

lemma parse_hex_digits_length:
  "parse_hex_digits n v path s = Inr (c, s') \<Longrightarrow> length s = length s' + n"
  by (induction n v path s rule: parse_hex_digits.induct) (auto split: option.splits)

lemma scalar_or_error_rest: "scalar_or_error path c s = Inr (d, s') \<Longrightarrow> s' = s"
  by (auto simp: scalar_or_error_def split: option.splits)

lemma parse_unicode_escape_length: "parse_unicode_escape path s = Inr (c, s') \<Longrightarrow> length s' < length s"
  by (auto simp: parse_unicode_escape_def parse_hex_quad_def
      dest!: parse_hex_digits_length scalar_or_error_rest split: sum.splits list.splits if_splits)

lemma parse_escape_length: "parse_escape path s = Inr (c, s') \<Longrightarrow> length s' < length s"
  by (cases s) (auto dest!: parse_unicode_escape_length split: if_splits)

function parse_string_body :: "ustr \<Rightarrow> ustr \<Rightarrow> ustr \<Rightarrow> json_error + ustr \<times> ustr" where
  "parse_string_body path out [] = Inl (syntax_error path (lit ''unterminated string''))"
| "parse_string_body path out (ch # s) =
     (if ch = 34 then Inr (out, s)
      else if ch = 92 then (case parse_escape path s of
             Inl e \<Rightarrow> Inl e
           | Inr (c, s') \<Rightarrow> parse_string_body path (out @ [c]) s')
      else if is_control ch
      then Inl (syntax_error path (lit ''unescaped control character in string''))
      else parse_string_body path (out @ [ch]) s)"
  by pat_completeness auto
termination
  by (relation "measure (\<lambda>(path, out, s). length s)") (auto dest!: parse_escape_length)

definition parse_string :: "ustr \<Rightarrow> ustr \<Rightarrow> json_error + ustr \<times> ustr" where
  "parse_string path s = (case expect 34 path s of
     Inl e \<Rightarrow> Inl e
   | Inr s \<Rightarrow> parse_string_body path [] s)"

definition starts_with :: "ustr \<Rightarrow> ustr \<Rightarrow> bool" where
  "starts_with s prefix \<longleftrightarrow> take (length prefix) s = prefix"

definition parse_literal ::
  "ustr \<Rightarrow> 'f valor \<Rightarrow> ustr \<Rightarrow> ustr \<Rightarrow> json_error + 'f valor \<times> ustr" where
  "parse_literal expected value path s =
     (if starts_with s expected then Inr (value, drop (length expected) s)
      else Inl (syntax_error path (lit ''expected '' @ expected)))"

definition next_is_digit :: "ustr \<Rightarrow> bool" where
  "next_is_digit s = (case s of [] \<Rightarrow> False | c # _ \<Rightarrow> is_digit c)"

definition take_digits :: "ustr \<Rightarrow> ustr" where
  "take_digits s = dropWhile is_digit s"

definition consumed :: "ustr \<Rightarrow> ustr \<Rightarrow> ustr" where
  "consumed s rest = take (length s - length rest) s"

definition invalid_number :: "ustr \<Rightarrow> ustr \<Rightarrow> ustr \<Rightarrow> json_error" where
  "invalid_number path s rest = JsonError path (InvalidNumber (consumed s rest))"

text \<open>\<open>str::parse::<i64>\<close> of a token of the number grammar.\<close>

definition digits_value :: "ustr \<Rightarrow> nat" where
  "digits_value ds = foldl (\<lambda>v d. v * 10 + (d - 48)) 0 ds"

definition parse_i64 :: "ustr \<Rightarrow> i64 option" where
  "parse_i64 token =
     (let v = (case token of
                 c # ds \<Rightarrow> if c = 45 then - int (digits_value ds) else int (digits_value token)
               | [] \<Rightarrow> 0)
      in if - (2 ^ 63) \<le> v \<and> v < 2 ^ 63 then Some (word_of_int v) else None)"

text \<open>The integer part, the fraction and the exponent: each returns the rest after it.\<close>

definition number_integer :: "ustr \<Rightarrow> ustr \<Rightarrow> json_error + ustr" where
  "number_integer path start =
     (let s = snd (consume 45 start) in
      case s of
        [] \<Rightarrow> Inl (invalid_number path start s)
      | c # s' \<Rightarrow>
          if c = 48 then (if next_is_digit s' then Inl (invalid_number path start s') else Inr s')
          else if is_digit c then Inr (take_digits s)
          else Inl (invalid_number path start s))"

definition number_fraction :: "ustr \<Rightarrow> ustr \<Rightarrow> ustr \<Rightarrow> json_error + bool \<times> ustr" where
  "number_fraction path start s = (case consume 46 s of
     (False, _) \<Rightarrow> Inr (False, s)
   | (True, s') \<Rightarrow> if next_is_digit s' then Inr (True, take_digits s')
                   else Inl (invalid_number path start s'))"

definition number_exponent :: "ustr \<Rightarrow> ustr \<Rightarrow> bool \<Rightarrow> ustr \<Rightarrow> json_error + bool \<times> ustr" where
  "number_exponent path start fractional s =
     (let (lower, s1) = consume 101 s;
          (upper, s2) = (if lower then (True, s1) else consume 69 s1) in
      if upper
      then (let (plus, s3) = consume 43 s2;
                s4 = (if plus then s3 else snd (consume 45 s3))
            in if next_is_digit s4 then Inr (True, take_digits s4)
               else Inl (invalid_number path start s4))
      else Inr (fractional, s))"

definition parse_number :: "'f float_ops \<Rightarrow> ustr \<Rightarrow> ustr \<Rightarrow> json_error + 'f valor \<times> ustr" where
  "parse_number F path start = (case number_integer path start of
     Inl e \<Rightarrow> Inl e
   | Inr s \<Rightarrow> (case number_fraction path start s of
       Inl e \<Rightarrow> Inl e
     | Inr (fractional, s) \<Rightarrow> (case number_exponent path start fractional s of
         Inl e \<Rightarrow> Inl e
       | Inr (fractional, s) \<Rightarrow>
           (let token = consumed start s in
            if fractional
            then (case f_parse F token of
                    None \<Rightarrow> Inl (JsonError path (InvalidNumber token))
                  | Some value \<Rightarrow>
                      if f_is_finite F value then Inr (Fractus value, s)
                      else Inl (JsonError path (InvalidNumber token)))
            else (case parse_i64 token of
                    Some value \<Rightarrow> Inr (Numerus value, s)
                  | None \<Rightarrow> Inl (JsonError path (InvalidNumber token)))))))"

text \<open>\<open>BTreeMap::insert\<close>: whether the key was there, and the updated items.\<close>

fun btree_insert :: "ustr \<Rightarrow> 'v \<Rightarrow> (ustr \<times> 'v) list \<Rightarrow> bool \<times> (ustr \<times> 'v) list" where
  "btree_insert k v [] = (False, [(k, v)])"
| "btree_insert k v ((k', v') # tab) =
     (if k < k' then (False, (k, v) # (k', v') # tab)
      else if k = k' then (True, (k, v) # tab)
      else let (found, tab') = btree_insert k v tab in (found, (k', v') # tab'))"

text \<open>
  The recursive descent. The loops of an object and of an array take the parser of their values as
  an argument; \<open>None\<close> is an exhausted fuel.
\<close>

type_synonym 'f value_parser = "ustr \<Rightarrow> ustr \<Rightarrow> (json_error + 'f valor \<times> ustr) option"

text \<open>One turn of the loop of an object: a finished object, or the members and rest to go on with.\<close>

definition parse_member ::
  "'f value_parser \<Rightarrow> ustr \<Rightarrow> (ustr \<times> 'f valor) list \<Rightarrow> ustr
   \<Rightarrow> (json_error + ('f valor \<times> ustr) + ((ustr \<times> 'f valor) list \<times> ustr)) option" where
  "parse_member value_of path tab s =
     (case parse_string path (skip_ws s) of
        Inl e \<Rightarrow> Some (Inl e)
      | Inr (key, s) \<Rightarrow> (case expect 58 path (skip_ws s) of
          Inl e \<Rightarrow> Some (Inl e)
        | Inr s \<Rightarrow> (case value_of (object_path path key) s of
            None \<Rightarrow> None
          | Some (Inl e) \<Rightarrow> Some (Inl e)
          | Some (Inr (value, s)) \<Rightarrow>
              (let (found, tab) = btree_insert key value tab in
               if found then Some (Inl (JsonError (object_path path key) (DuplicateKey key)))
               else let s = skip_ws s; (closed, s') = consume 125 s in
                 if closed then Some (Inr (Inl (Tabula tab, s')))
                 else (case expect 44 path s of
                         Inl e \<Rightarrow> Some (Inl e)
                       | Inr s \<Rightarrow> Some (Inr (Inr (tab, s))))))))"

primrec parse_members ::
  "nat \<Rightarrow> 'f value_parser \<Rightarrow> ustr \<Rightarrow> (ustr \<times> 'f valor) list \<Rightarrow> ustr
   \<Rightarrow> (json_error + 'f valor \<times> ustr) option" where
  "parse_members 0 value_of path tab s = None"
| "parse_members (Suc n) value_of path tab s = (case parse_member value_of path tab s of
     None \<Rightarrow> None
   | Some (Inl e) \<Rightarrow> Some (Inl e)
   | Some (Inr (Inl r)) \<Rightarrow> Some (Inr r)
   | Some (Inr (Inr (tab, s))) \<Rightarrow> parse_members n value_of path tab s)"

definition parse_element ::
  "'f value_parser \<Rightarrow> ustr \<Rightarrow> 'f valor list \<Rightarrow> ustr
   \<Rightarrow> (json_error + ('f valor \<times> ustr) + ('f valor list \<times> ustr)) option" where
  "parse_element value_of path items s =
     (case value_of (item_path path (length items)) s of
        None \<Rightarrow> None
      | Some (Inl e) \<Rightarrow> Some (Inl e)
      | Some (Inr (value, s)) \<Rightarrow>
          (let items = items @ [value]; s = skip_ws s; (closed, s') = consume 93 s in
           if closed then Some (Inr (Inl (Lista items, s')))
           else (case expect 44 path s of
                   Inl e \<Rightarrow> Some (Inl e)
                 | Inr s \<Rightarrow> Some (Inr (Inr (items, s))))))"

primrec parse_elements ::
  "nat \<Rightarrow> 'f value_parser \<Rightarrow> ustr \<Rightarrow> 'f valor list \<Rightarrow> ustr
   \<Rightarrow> (json_error + 'f valor \<times> ustr) option" where
  "parse_elements 0 value_of path items s = None"
| "parse_elements (Suc n) value_of path items s = (case parse_element value_of path items s of
     None \<Rightarrow> None
   | Some (Inl e) \<Rightarrow> Some (Inl e)
   | Some (Inr (Inl r)) \<Rightarrow> Some (Inr r)
   | Some (Inr (Inr (items, s))) \<Rightarrow> parse_elements n value_of path items s)"

definition parse_object ::
  "nat \<Rightarrow> 'f value_parser \<Rightarrow> ustr \<Rightarrow> ustr \<Rightarrow> (json_error + 'f valor \<times> ustr) option" where
  "parse_object n value_of path s = (case expect 123 path s of
     Inl e \<Rightarrow> Some (Inl e)
   | Inr s \<Rightarrow>
       (let s = skip_ws s; (closed, s') = consume 125 s in
        if closed then Some (Inr (Tabula [], s')) else parse_members n value_of path [] s))"

definition parse_array ::
  "nat \<Rightarrow> 'f value_parser \<Rightarrow> ustr \<Rightarrow> ustr \<Rightarrow> (json_error + 'f valor \<times> ustr) option" where
  "parse_array n value_of path s = (case expect 91 path s of
     Inl e \<Rightarrow> Some (Inl e)
   | Inr s \<Rightarrow>
       (let s = skip_ws s; (closed, s') = consume 93 s in
        if closed then Some (Inr (Lista [], s')) else parse_elements n value_of path [] s))"

definition parse_scalar :: "'f float_ops \<Rightarrow> nat \<Rightarrow> ustr \<Rightarrow> ustr \<Rightarrow> json_error + 'f valor \<times> ustr" where
  "parse_scalar F c path s =
     (if c = 34 then (case parse_string path s of Inl e \<Rightarrow> Inl e | Inr (t, s') \<Rightarrow> Inr (Textus t, s'))
      else if c = 116 then parse_literal (lit ''true'') (Bivalens True) path s
      else if c = 102 then parse_literal (lit ''false'') (Bivalens False) path s
      else if c = 110 then parse_literal (lit ''null'') Nihil path s
      else if c = 45 \<or> is_digit c then parse_number F path s
      else Inl (syntax_error path
             (lit (''unexpected byte 0x'' @ hex_byte (word_of_nat (utf8_lead_byte c))))))"

primrec parse_value :: "nat \<Rightarrow> 'f float_ops \<Rightarrow> 'f value_parser" where
  "parse_value 0 F path s = None"
| "parse_value (Suc n) F path s =
     (let s = skip_ws s in
      case s of
        [] \<Rightarrow> Some (Inl (syntax_error path (lit ''unexpected end of input'')))
      | c # _ \<Rightarrow>
          if c = 123 then parse_object n (parse_value n F) path s
          else if c = 91 then parse_array n (parse_value n F) path s
          else Some (parse_scalar F c path s))"

definition json_parse :: "'f float_ops \<Rightarrow> ustr \<Rightarrow> (json_error + 'f json) option" where
  "json_parse F wire = (case parse_value (Suc (length wire)) F (lit ''$'') wire of
     None \<Rightarrow> None
   | Some (Inl e) \<Rightarrow> Some (Inl e)
   | Some (Inr (value, rest)) \<Rightarrow>
       if skip_ws rest \<noteq> [] then Some (Inl (JsonError (lit ''$'') TrailingCharacters))
       else Some (json_try_from F value))"

section \<open>The parser always returns\<close>

lemma skip_ws_length: "length (skip_ws s) \<le> length s"
  by (simp add: skip_ws_def length_dropWhile_le)

lemma consume_length: "consume b s = (found, s') \<Longrightarrow> length s' = length s - (if found then 1 else 0)"
  by (cases s) (auto split: if_splits)

lemma snd_consume_length: "length (snd (consume b s)) \<le> length s"
  by (cases s) auto

lemma consume_True_length: "consume b s = (True, s') \<Longrightarrow> length s' < length s"
  by (cases s) (auto split: if_splits)

lemma expect_length: "expect b path s = Inr s' \<Longrightarrow> length s' < length s"
  by (cases s) (auto simp: expect_def split: if_splits)

lemma parse_string_body_length: "parse_string_body path out s = Inr (t, s') \<Longrightarrow> length s' < length s"
proof (induction path out s rule: parse_string_body.induct)
  case (2 path out ch s)
  show ?case
  proof (cases "ch = 34")
    case True
    with 2 show ?thesis by simp
  next
    case not_quote: False
    show ?thesis
    proof (cases "ch = 92")
      case True
      then obtain c s1 where e: "parse_escape path s = Inr (c, s1)"
          "parse_string_body path (out @ [c]) s1 = Inr (t, s')"
        using 2(3) by (auto split: sum.splits)
      then have "length s' < length s1" using 2(1)[OF not_quote True e(1)] by simp
      with parse_escape_length[OF e(1)] show ?thesis by simp
    next
      case False
      with 2 not_quote show ?thesis by (fastforce split: if_splits)
    qed
  qed
qed simp

lemma parse_string_length: "parse_string path s = Inr (t, s') \<Longrightarrow> length s' < length s"
  by (fastforce simp: parse_string_def dest: expect_length parse_string_body_length split: sum.splits)

lemma take_digits_length: "length (take_digits s) \<le> length s"
  by (simp add: take_digits_def length_dropWhile_le)

lemma number_integer_length: "number_integer path start = Inr s \<Longrightarrow> length s < length start"
  using snd_consume_length[of 45 start] take_digits_length[of "tl (snd (consume 45 start))"]
  by (auto simp: number_integer_def Let_def take_digits_def split: list.splits if_splits)

lemma number_fraction_length: "number_fraction path start s = Inr (f, s') \<Longrightarrow> length s' \<le> length s"
  by (auto simp: number_fraction_def split: prod.splits bool.splits if_splits
      dest!: consume_True_length intro: le_trans[OF take_digits_length])

lemma number_exponent_length: "number_exponent path start f s = Inr (f', s') \<Longrightarrow> length s' \<le> length s"
proof -
  assume r: "number_exponent path start f s = Inr (f', s')"
  obtain lower s1 where c1: "consume 101 s = (lower, s1)" by fastforce
  obtain upper s2 where c2: "(if lower then (True, s1) else consume 69 s1) = (upper, s2)" by fastforce
  obtain plus s3 where c3: "consume 43 s2 = (plus, s3)" by fastforce
  have l1: "length s1 \<le> length s" using snd_consume_length[of 101 s] c1 by simp
  have l2: "length s2 \<le> length s1" using snd_consume_length[of 69 s1] c2 by (auto split: if_splits)
  have l3: "length s3 \<le> length s2" using snd_consume_length[of 43 s2] c3 by simp
  show ?thesis
    using r l1 l2 l3 c1 c2 c3 snd_consume_length[of 45 s3] take_digits_length[of s3]
      take_digits_length[of "snd (consume 45 s3)"]
    by (auto simp: number_exponent_def Let_def split: if_splits)
qed

lemma parse_number_length: "parse_number F path s = Inr (v, s') \<Longrightarrow> length s' < length s"
  by (fastforce simp: parse_number_def Let_def dest: number_integer_length number_fraction_length
      number_exponent_length split: sum.splits option.splits if_splits)

lemma parse_literal_length:
  assumes "parse_literal e v path s = Inr (w, s')" "e \<noteq> []"
  shows "length s' < length s"
proof -
  have t: "take (length e) s = e" and s': "s' = drop (length e) s"
    using assms(1) by (auto simp: parse_literal_def starts_with_def split: if_splits)
  from t assms(2) have "s \<noteq> []" "e \<noteq> []" by auto
  then show ?thesis by (simp add: s')
qed

lemma parse_scalar_length: "parse_scalar F c path s = Inr (v, s') \<Longrightarrow> length s' < length s"
  by (auto simp: parse_scalar_def dest: parse_string_length parse_number_length parse_literal_length
      split: if_splits sum.splits)

text \<open>A parser that returns, and consumes something, on every input shorter than its fuel.\<close>

definition value_parser_ok :: "nat \<Rightarrow> 'f value_parser \<Rightarrow> bool" where
  "value_parser_ok n p \<longleftrightarrow> (\<forall>path s. length s < n \<longrightarrow>
     p path s \<noteq> None \<and> (\<forall>v s'. p path s = Some (Inr (v, s')) \<longrightarrow> length s' < length s))"

lemma parse_member_cases:
  assumes p: "value_parser_ok n p" and "length s < n"
  obtains (failed) e where "parse_member p path tab s = Some (Inl e)"
  | (parsed) key s1 s2 v s3 where "parse_string path (skip_ws s) = Inr (key, s1)"
      "expect 58 path (skip_ws s1) = Inr s2" "p (object_path path key) s2 = Some (Inr (v, s3))"
      "length s3 < length s"
proof (cases "parse_string path (skip_ws s)")
  case (Inl e)
  then show thesis using failed by (simp add: parse_member_def)
next
  case (Inr ks)
  then obtain key s1 where s1: "parse_string path (skip_ws s) = Inr (key, s1)" by (cases ks) auto
  show thesis
  proof (cases "expect 58 path (skip_ws s1)")
    case (Inl e)
    then show thesis using failed s1 by (simp add: parse_member_def)
  next
    case (Inr s2)
    have l: "length s2 < length s"
      using expect_length[OF Inr] skip_ws_length[of s1] parse_string_length[OF s1] skip_ws_length[of s]
      by linarith
    with p assms(2) obtain r where r: "p (object_path path key) s2 = Some r"
      "\<forall>v s'. r = Inr (v, s') \<longrightarrow> length s' < length s2"
      unfolding value_parser_ok_def by (metis not_None_eq option.inject order_less_trans)
    show thesis
    proof (cases r)
      case Inl
      then show thesis using failed s1 Inr r by (simp add: parse_member_def)
    next
      case vs: (Inr vs)
      then obtain v s3 where "r = Inr (v, s3)" by (cases vs) auto
      with r l have "length s3 < length s" by fastforce
      with parsed s1 Inr r \<open>r = Inr (v, s3)\<close> show thesis by blast
    qed
  qed
qed

lemma close_or_comma_length:
  "length (snd (consume b (skip_ws s))) \<le> length s"
  "expect b path (skip_ws s) = Inr s' \<Longrightarrow> length s' \<le> length s"
  using snd_consume_length[of b "skip_ws s"] expect_length[of b path "skip_ws s" s'] skip_ws_length[of s]
  by linarith+

lemma parse_member_ok:
  assumes "value_parser_ok n p" "length s < n"
  shows "parse_member p path tab s \<noteq> None"
    and "parse_member p path tab s = Some (Inr (Inl (v, s'))) \<Longrightarrow> length s' < length s"
    and "parse_member p path tab s = Some (Inr (Inr (tab', s'))) \<Longrightarrow> length s' < length s"
proof -
  show "parse_member p path tab s \<noteq> None"
    using assms
    by (cases rule: parse_member_cases[of n p s path tab])
      (auto simp: parse_member_def Let_def split: prod.splits sum.splits)
  show "parse_member p path tab s = Some (Inr (Inl (v, s'))) \<Longrightarrow> length s' < length s"
    using assms
  proof (cases rule: parse_member_cases[of n p s path tab])
    case (parsed key s1 s2 w s3)
    moreover assume "parse_member p path tab s = Some (Inr (Inl (v, s')))"
    ultimately show ?thesis using close_or_comma_length(1)[of 125 s3]
      by (auto simp: parse_member_def Let_def split: prod.splits sum.splits if_splits)
  qed simp
  show "parse_member p path tab s = Some (Inr (Inr (tab', s'))) \<Longrightarrow> length s' < length s"
    using assms
  proof (cases rule: parse_member_cases[of n p s path tab])
    case (parsed key s1 s2 w s3)
    moreover assume "parse_member p path tab s = Some (Inr (Inr (tab', s')))"
    ultimately show ?thesis using close_or_comma_length(2)[of 44 path s3]
      by (fastforce simp: parse_member_def Let_def split: prod.splits sum.splits if_splits)
  qed simp
qed

lemma parse_members_ok:
  assumes "value_parser_ok n p" "length s < n" "length s < m"
  shows "parse_members m p path tab s \<noteq> None \<and>
    (\<forall>v s'. parse_members m p path tab s = Some (Inr (v, s')) \<longrightarrow> length s' < length s)"
  using assms(2,3)
proof (induction m arbitrary: tab s)
  case (Suc m)
  note step = parse_member_ok[OF assms(1) Suc.prems(1), of path tab]
  show ?case
  proof (cases "parse_member p path tab s")
    case None
    with step(1) show ?thesis by simp
  next
    case (Some r)
    show ?thesis
    proof (cases r)
      case (Inl e)
      with Some show ?thesis by simp
    next
      case (Inr q)
      show ?thesis
      proof (cases q)
        case (Inl vs)
        with Some Inr step(2) show ?thesis by (cases vs) auto
      next
        case inr: (Inr ts)
        obtain tab' s' where ts: "ts = (tab', s')" by fastforce
        then have "length s' < length s" using step(3) Some Inr inr by blast
        with Suc.IH[of s' tab'] Suc.prems show ?thesis
          using Some Inr inr ts by fastforce
      qed
    qed
  qed
qed simp

lemma parse_element_ok:
  assumes p: "value_parser_ok n p" and "length s < n"
  shows "parse_element p path items s \<noteq> None"
    and "parse_element p path items s = Some (Inr (Inl (v, s'))) \<Longrightarrow> length s' < length s"
    and "parse_element p path items s = Some (Inr (Inr (items', s'))) \<Longrightarrow> length s' < length s"
proof -
  obtain r where r: "p (item_path path (length items)) s = Some r"
      "\<forall>v s'. r = Inr (v, s') \<longrightarrow> length s' < length s"
    using p assms(2) unfolding value_parser_ok_def by (metis not_None_eq option.inject)
  show "parse_element p path items s \<noteq> None"
    using r(1) by (auto simp: parse_element_def Let_def split: sum.splits prod.splits)
  show "length s' < length s" if "parse_element p path items s = Some (Inr (Inl (v, s')))"
  proof -
    from that r(1) obtain w s3 where "r = Inr (w, s3)" by (cases r) (auto simp: parse_element_def)
    with r that close_or_comma_length(1)[of 93 s3] show ?thesis
      by (fastforce simp: parse_element_def Let_def split: prod.splits sum.splits if_splits)
  qed
  show "length s' < length s" if "parse_element p path items s = Some (Inr (Inr (items', s')))"
  proof -
    from that r(1) obtain w s3 where "r = Inr (w, s3)" by (cases r) (auto simp: parse_element_def)
    with r that close_or_comma_length(2)[of 44 path s3] show ?thesis
      by (fastforce simp: parse_element_def Let_def split: prod.splits sum.splits if_splits)
  qed
qed

lemma parse_elements_ok:
  assumes "value_parser_ok n p" "length s < n" "length s < m"
  shows "parse_elements m p path items s \<noteq> None \<and>
    (\<forall>v s'. parse_elements m p path items s = Some (Inr (v, s')) \<longrightarrow> length s' < length s)"
  using assms(2,3)
proof (induction m arbitrary: items s)
  case (Suc m)
  note step = parse_element_ok[OF assms(1) Suc.prems(1), of path items]
  show ?case
  proof (cases "parse_element p path items s")
    case None
    with step(1) show ?thesis by simp
  next
    case (Some r)
    show ?thesis
    proof (cases r)
      case (Inl e)
      with Some show ?thesis by simp
    next
      case (Inr q)
      show ?thesis
      proof (cases q)
        case (Inl vs)
        with Some Inr step(2) show ?thesis by (cases vs) auto
      next
        case inr: (Inr ts)
        obtain items' s' where ts: "ts = (items', s')" by fastforce
        then have "length s' < length s" using step(3) Some Inr inr by blast
        with Suc.IH[of s' items'] Suc.prems show ?thesis
          using Some Inr inr ts by fastforce
      qed
    qed
  qed
qed simp

lemma parse_object_ok:
  assumes "value_parser_ok n p" "length s \<le> n"
  shows "parse_object n p path s \<noteq> None \<and>
    (\<forall>v s'. parse_object n p path s = Some (Inr (v, s')) \<longrightarrow> length s' < length s)"
proof (cases "expect 123 path s")
  case (Inl e)
  then show ?thesis by (simp add: parse_object_def)
next
  case (Inr s1)
  have l: "length (skip_ws s1) < length s"
    using expect_length[OF Inr] skip_ws_length[of s1] by linarith
  then have "length (skip_ws s1) < n" using assms(2) by linarith
  from parse_members_ok[OF assms(1) this this, of path "[]"] l close_or_comma_length(1)[of 125 s1]
    expect_length[OF Inr]
  show ?thesis
    by (auto simp: parse_object_def Inr Let_def split: prod.splits if_splits)
qed

lemma parse_array_ok:
  assumes "value_parser_ok n p" "length s \<le> n"
  shows "parse_array n p path s \<noteq> None \<and>
    (\<forall>v s'. parse_array n p path s = Some (Inr (v, s')) \<longrightarrow> length s' < length s)"
proof (cases "expect 91 path s")
  case (Inl e)
  then show ?thesis by (simp add: parse_array_def)
next
  case (Inr s1)
  have l: "length (skip_ws s1) < length s"
    using expect_length[OF Inr] skip_ws_length[of s1] by linarith
  then have "length (skip_ws s1) < n" using assms(2) by linarith
  from parse_elements_ok[OF assms(1) this this, of path "[]"] l close_or_comma_length(1)[of 93 s1]
    expect_length[OF Inr]
  show ?thesis
    by (auto simp: parse_array_def Inr Let_def split: prod.splits if_splits)
qed

lemma parse_value_ok: "value_parser_ok n (parse_value n F)"
proof (induction n)
  case 0
  then show ?case by (simp add: value_parser_ok_def)
next
  case (Suc n)
  show ?case
    unfolding value_parser_ok_def
  proof (intro allI impI)
    fix path s :: ustr
    assume "length s < Suc n"
    then have l: "length (skip_ws s) \<le> n" using skip_ws_length[of s] by linarith
    show "parse_value (Suc n) F path s \<noteq> None \<and>
        (\<forall>v s'. parse_value (Suc n) F path s = Some (Inr (v, s')) \<longrightarrow> length s' < length s)"
      using parse_object_ok[OF Suc.IH l, of path] parse_array_ok[OF Suc.IH l, of path]
        parse_scalar_length[of F _ path "skip_ws s"] skip_ws_length[of s]
      by (auto simp: Let_def split: list.splits dest: less_le_trans)
  qed
qed

lemma json_parse_returns: "json_parse F wire \<noteq> None"
  using parse_value_ok[of "Suc (length wire)" F]
  by (auto simp: json_parse_def value_parser_ok_def simp del: parse_value.simps split: option.splits sum.splits)

section \<open>What a parsed document contains\<close>

text \<open>The invariant of a JSON value: finite numbers, no foreign variants, and the keys of every object
  strictly increasing, as in a \<open>BTreeMap\<close>.\<close>

fun value_ok :: "'f float_ops \<Rightarrow> 'f valor \<Rightarrow> bool"
  and items_ok :: "'f float_ops \<Rightarrow> 'f valor list \<Rightarrow> bool"
  and members_ok :: "'f float_ops \<Rightarrow> (ustr \<times> 'f valor) list \<Rightarrow> bool" where
  "value_ok F Nihil = True"
| "value_ok F (Bivalens _) = True"
| "value_ok F (Numerus _) = True"
| "value_ok F (Fractus v) = f_is_finite F v"
| "value_ok F (Textus _) = True"
| "value_ok F (Octeti _) = False"
| "value_ok F (InstansText _) = False"
| "value_ok F (Lista items) = items_ok F items"
| "value_ok F (Tabula tab) = (sorted_wrt (<) (map fst tab) \<and> members_ok F tab)"
| "items_ok F [] = True"
| "items_ok F (v # vs) = (value_ok F v \<and> items_ok F vs)"
| "members_ok F [] = True"
| "members_ok F ((k, v) # tab) = (value_ok F v \<and> members_ok F tab)"

lemma items_ok_iff: "items_ok F items = list_all (value_ok F) items"
  by (induction items) auto

lemma members_ok_iff: "members_ok F tab = list_all (\<lambda>(k, v). value_ok F v) tab"
  by (induction tab) auto

lemma render_total:
  "value_ok F v \<Longrightarrow> render_valor F v \<noteq> None"
  "items_ok F items \<Longrightarrow> render_items F items \<noteq> None"
  "members_ok F tab \<Longrightarrow> render_fields F tab \<noteq> None"
  by (induction F v and F items and F tab rule: render_valor_render_items_render_fields.induct) auto

lemma btree_insert_Cons_cases:
  assumes "btree_insert k v ((k', v') # tab) = (found, tab')"
  obtains "k < k'" "tab' = (k, v) # (k', v') # tab" | "k = k'" "tab' = (k, v) # tab"
  | rest where "k' < k" "btree_insert k v tab = (found, rest)" "tab' = (k', v') # rest"
  using assms by (cases "k < k'"; cases "k = k'") (auto split: prod.splits)

lemma set_btree_insert_keys:
  "btree_insert k v tab = (found, tab') \<Longrightarrow> set (map fst tab') = insert k (set (map fst tab))"
proof (induction tab arbitrary: tab')
  case (Cons kv tab)
  obtain k' v' where "kv = (k', v')" by fastforce
  with Cons.prems have "btree_insert k v ((k', v') # tab) = (found, tab')" by simp
  then show ?case using Cons.IH \<open>kv = (k', v')\<close> by (cases rule: btree_insert_Cons_cases) auto
qed simp

lemma btree_insert_sorted:
  "sorted_wrt (<) (map fst tab) \<Longrightarrow> btree_insert k v tab = (found, tab') \<Longrightarrow>
   sorted_wrt (<) (map fst tab')"
proof (induction tab arbitrary: tab')
  case (Cons kv tab)
  obtain k' v' where kv: "kv = (k', v')" by fastforce
  with Cons.prems have ins: "btree_insert k v ((k', v') # tab) = (found, tab')" by simp
  from Cons.prems(1) have tl: "sorted_wrt (<) (map fst tab)" "\<forall>x \<in> set (map fst tab). k' < x"
    by (auto simp: kv)
  from ins show ?case
  proof (cases rule: btree_insert_Cons_cases)
    case 1
    then have "\<forall>x \<in> set (map fst tab). k < x" using tl(2) order.strict_trans by blast
    with 1 tl show ?thesis by simp
  next
    case 2
    with tl show ?thesis by simp
  next
    case (3 rest)
    with Cons.IH[OF tl(1) 3(2)] set_btree_insert_keys[OF 3(2)] tl(2) show ?thesis
      by (simp del: set_map)
  qed
qed auto

lemma btree_insert_members_ok:
  "members_ok F tab \<Longrightarrow> value_ok F v \<Longrightarrow> btree_insert k v tab = (found, tab') \<Longrightarrow> members_ok F tab'"
  by (induction k v tab arbitrary: tab' rule: btree_insert.induct) (auto split: prod.splits if_splits)

definition yields_ok :: "'f float_ops \<Rightarrow> 'f value_parser \<Rightarrow> bool" where
  "yields_ok F p \<longleftrightarrow> (\<forall>path s v s'. p path s = Some (Inr (v, s')) \<longrightarrow> value_ok F v)"

lemma parse_members_yields:
  "yields_ok F p \<Longrightarrow> sorted_wrt (<) (map fst tab) \<Longrightarrow> members_ok F tab \<Longrightarrow>
   parse_members m p path tab s = Some (Inr (v, s')) \<Longrightarrow> value_ok F v"
proof (induction m arbitrary: tab s)
  case (Suc m)
  have step: "(\<forall>v s'. r = Inl (v, s') \<longrightarrow> value_ok F v) \<and>
      (\<forall>tab' s'. r = Inr (tab', s') \<longrightarrow> sorted_wrt (<) (map fst tab') \<and> members_ok F tab')"
    if "parse_member p path tab s = Some (Inr r)" for r
  proof -
    from that obtain key w s3 found tab' where w: "value_ok F w" and ins: "btree_insert key w tab = (found, tab')"
        and r: "(\<forall>v s'. r = Inl (v, s') \<longrightarrow> v = Tabula tab') \<and> (\<forall>t s'. r = Inr (t, s') \<longrightarrow> t = tab')"
      using Suc.prems(1) unfolding yields_ok_def parse_member_def Let_def
      by (auto split: sum.splits prod.splits option.splits if_splits) blast+
    from btree_insert_sorted[OF Suc.prems(2) ins] btree_insert_members_ok[OF Suc.prems(3) w ins] r
    show ?thesis by auto
  qed
  show ?case
    using Suc.prems(4) step Suc.IH[OF Suc.prems(1)]
    by (fastforce split: option.splits sum.splits prod.splits)
qed simp

lemma parse_elements_yields:
  "yields_ok F p \<Longrightarrow> items_ok F items \<Longrightarrow>
   parse_elements m p path items s = Some (Inr (v, s')) \<Longrightarrow> value_ok F v"
proof (induction m arbitrary: items s)
  case (Suc m)
  have step: "parse_element p path items s = Some (Inr r) \<Longrightarrow>
      (\<forall>v s'. r = Inl (v, s') \<longrightarrow> value_ok F v) \<and>
      (\<forall>items' s'. r = Inr (items', s') \<longrightarrow> items_ok F items')" for r
    using Suc.prems(1,2)
    unfolding yields_ok_def parse_element_def Let_def
    by (fastforce simp: items_ok_iff split: sum.splits prod.splits option.splits if_splits)
  show ?case
    using Suc.prems(3) step Suc.IH[OF Suc.prems(1)]
    by (fastforce split: option.splits sum.splits prod.splits)
qed simp

lemma parse_scalar_yields: "parse_scalar F c path s = Inr (v, s') \<Longrightarrow> value_ok F v"
  by (auto simp: parse_scalar_def parse_literal_def parse_number_def Let_def
      split: if_splits sum.splits option.splits)

lemma parse_value_yields: "yields_ok F (parse_value n F)"
proof (induction n)
  case 0
  then show ?case by (simp add: yields_ok_def)
next
  case (Suc n)
  show ?case
    unfolding yields_ok_def
    using parse_members_yields[OF Suc.IH, of "[]"] parse_elements_yields[OF Suc.IH, of "[]"]
      parse_scalar_yields[of F]
    by (auto simp: Let_def parse_object_def parse_array_def split: list.splits if_splits sum.splits prod.splits)
qed

section \<open>Parsing what was rendered\<close>

text \<open>What follows a rendered value inside a document: the end, or a separator or closing bracket.\<close>

definition delimited :: "ustr \<Rightarrow> bool" where
  "delimited rest \<longleftrightarrow> rest = [] \<or> hd rest \<in> {44, 93, 125}"

lemma delimited_Cons: "b \<in> {44, 93, 125} \<Longrightarrow> delimited (b # rest)"
  by (simp add: delimited_def)

subsection \<open>Strings\<close>

lemma of_char_hex_digit: "d < 16 \<Longrightarrow> of_char (hex_digit d) = (if d < 10 then 48 + d else 87 + d)"
  by (simp add: hex_digit_def of_char_of)

lemma hex_value_hex_digit: "d < 16 \<Longrightarrow> hex_value (of_char (hex_digit d)) = Some d"
  by (auto simp: of_char_hex_digit is_digit_def)

lemma parse_hex_digits_hex_digit:
  "d < 16 \<Longrightarrow> parse_hex_digits (Suc n) value path (of_char (hex_digit d) # s) =
     parse_hex_digits n (value * 16 + d) path s"
  by (simp add: hex_value_hex_digit del: hex_value.simps)

lemma nibbles_of: "c < 65536 \<Longrightarrow>
  ((c div 4096 mod 16 * 16 + c div 256 mod 16) * 16 + c div 16 mod 16) * 16 + c mod 16 = c"
  for c :: nat
proof -
  assume "c < 65536"
  then have "c div 4096 mod 16 = c div 4096" by simp
  moreover have "c div 256 = c div 4096 * 16 + c div 256 mod 16"
    "c div 16 = c div 256 * 16 + c div 16 mod 16" "c = c div 16 * 16 + c mod 16"
    using div_mult_mod_eq[of "c div 256" 16] div_mult_mod_eq[of "c div 16" 16] div_mult_mod_eq[of c 16]
    by (simp_all add: div_mult2_eq[symmetric])
  ultimately show ?thesis by presburger
qed

lemma parse_hex_quad_hex_quad: "c < 65536 \<Longrightarrow> parse_hex_quad path (hex_quad c @ s) = Inr (c, s)"
  unfolding parse_hex_quad_def hex_quad_def
  using nibbles_of[of c]
  by (simp add: parse_hex_digits_hex_digit eval_nat_numeral(3)[of "num.Bit1 num.One"]
      numeral_2_eq_2 numeral_3_eq_3 numeral_eq_Suc[of "num.Bit0 (num.Bit0 num.One)"]
      del: parse_hex_digits.simps(3))

lemma parse_escape_control:
  "is_control c \<Longrightarrow> parse_escape path (117 # hex_quad c @ s) = Inr (c, s)"
  using parse_hex_quad_hex_quad[of c path s]
  by (auto simp: is_control_def parse_unicode_escape_def scalar_or_error_def char_from_u32_def)

lemma parse_rendered_char:
  "parse_string_body path out (render_char c @ s) = parse_string_body path (out @ [c]) s"
proof (cases "c \<in> {34, 92, 8, 12, 10, 13, 9}")
  case True
  then show ?thesis by (auto simp: render_char_def)
next
  case False
  show ?thesis
  proof (cases "is_control c")
    case True
    with False parse_escape_control[OF True, of path s] show ?thesis
      by (auto simp: render_char_def simp del: parse_escape.simps)
  next
    case nc: False
    with False show ?thesis by (auto simp: render_char_def)
  qed
qed

lemma parse_string_body_rendered:
  "parse_string_body path out (concat (map render_char t) @ 34 # rest) = Inr (out @ t, rest)"
  by (induction t arbitrary: out) (auto simp: parse_rendered_char)

lemma parse_string_render_string: "parse_string path (render_string t @ rest) = Inr (t, rest)"
  using parse_string_body_rendered[of path "[]" t rest]
  by (simp add: parse_string_def expect_def render_string_def)

subsection \<open>Numbers\<close>

definition all_digits :: "ustr \<Rightarrow> bool" where
  "all_digits ds \<longleftrightarrow> ds \<noteq> [] \<and> list_all is_digit ds"

text \<open>The integer part of a number: digits without a leading zero.\<close>

definition integer_digits :: "ustr \<Rightarrow> bool" where
  "integer_digits ds \<longleftrightarrow> all_digits ds \<and> (hd ds = 48 \<longrightarrow> ds = [48])"

lemma take_digits_append: "list_all is_digit ds \<Longrightarrow> \<not> next_is_digit rest \<Longrightarrow> take_digits (ds @ rest) = rest"
  by (induction ds) (auto simp: take_digits_def next_is_digit_def dropWhile_eq_self_iff split: list.splits)

lemma consumed_append: "consumed (t @ rest) rest = t"
  by (simp add: consumed_def)

definition signed :: "bool \<Rightarrow> ustr \<Rightarrow> ustr" where
  "signed neg t = (if neg then 45 # t else t)"

lemma number_integer_digits:
  assumes "integer_digits ds" "\<not> next_is_digit rest"
  shows "number_integer path (signed neg (ds @ rest)) = Inr rest"
proof -
  obtain d ds' where ds: "ds = d # ds'" and d: "is_digit d" "list_all is_digit ds'"
    using assms(1) by (cases ds) (auto simp: integer_digits_def all_digits_def)
  then have "snd (consume 45 (signed neg (ds @ rest))) = ds @ rest"
    by (auto simp: signed_def is_digit_def)
  moreover have "d = 48 \<Longrightarrow> ds' = []" using assms(1) ds by (simp add: integer_digits_def)
  ultimately show ?thesis
    using ds d assms(2) take_digits_append[of ds rest] by (auto simp: number_integer_def Let_def)
qed

lemma delimited_no_number:
  "delimited rest \<Longrightarrow> \<not> next_is_digit rest \<and> fst (consume 46 rest) = False \<and>
   fst (consume 101 rest) = False \<and> fst (consume 69 rest) = False"
  by (cases rest) (auto simp: delimited_def next_is_digit_def is_digit_def)

lemma consume_False: "fst (consume b s) = False \<Longrightarrow> consume b s = (False, s)"
  by (cases s) (auto split: if_splits)

lemma number_exponent_none: "delimited rest \<Longrightarrow> number_exponent path start f rest = Inr (f, rest)"
  using delimited_no_number[of rest] consume_False[of 101 rest] consume_False[of 69 rest]
  by (simp add: number_exponent_def)

lemma show_nat_digits: "integer_digits (lit (show_nat n))"
proof (induction n rule: show_nat.induct)
  case (1 n)
  show ?case
  proof (cases "n < 10")
    case True
    then show ?thesis
      by (subst show_nat.simps) (simp add: integer_digits_def all_digits_def is_digit_def of_char_of)
  next
    case False
    have "show_nat (n div 10) \<noteq> [] \<and> (hd (lit (show_nat (n div 10))) = 48 \<longrightarrow> n div 10 = 0)"
    proof (cases "n div 10 < 10")
      case True
      then show ?thesis by (subst show_nat.simps) (simp add: show_nat.simps of_char_of)
    next
      case big: False
      have "length (show_nat (n div 10)) = length (show_nat (n div 10 div 10)) + 1"
        using big by (subst show_nat.simps) simp
      moreover have "lit (show_nat (n div 10)) = [48] \<Longrightarrow> length (show_nat (n div 10)) = 1"
        by (metis length_map length_Cons list.size(3) One_nat_def)
      moreover have "show_nat (n div 10 div 10) \<noteq> []"
        by (subst show_nat.simps) simp
      ultimately show ?thesis using 1[OF False] by (auto simp: integer_digits_def all_digits_def)
    qed
    with 1[OF False] False show ?thesis
      by (subst show_nat.simps)
        (auto simp: integer_digits_def all_digits_def is_digit_def of_char_of hd_append)
  qed
qed

lemma digits_value_append: "digits_value (ds @ [d]) = digits_value ds * 10 + (d - 48)"
  by (simp add: digits_value_def)

lemma digits_value_show_nat: "digits_value (lit (show_nat n)) = n"
proof (induction n rule: show_nat.induct)
  case (1 n)
  then show ?case
    by (subst show_nat.simps) (auto simp: digits_value_append of_char_of, simp add: digits_value_def of_char_of)
qed

lemma show_i64_signed:
  "show_i64 v = signed (sint v < 0) (lit (show_nat (nat \<bar>sint v\<bar>)))"
  by (simp add: show_i64_def signed_def)

lemma parse_i64_show_i64: "parse_i64 (show_i64 v) = Some v"
proof -
  let ?ds = "lit (show_nat (nat \<bar>sint v\<bar>))"
  obtain c cs where ds: "?ds = c # cs" "c \<noteq> 45"
    using show_nat_digits[of "nat \<bar>sint v\<bar>"]
    by (cases ?ds; force simp: integer_digits_def all_digits_def is_digit_def)+
  have dv: "digits_value ?ds = nat \<bar>sint v\<bar>" by (rule digits_value_show_nat)
  have range: "- (2 ^ 63) \<le> sint v \<and> sint v < 2 ^ 63"
    using sint_range_size[of v] by (simp add: size_word.rep_eq)
  show ?thesis
  proof (cases "sint v < 0")
    case True
    then have "show_i64 v = 45 # ?ds" by (simp add: show_i64_signed signed_def)
    with dv range True show ?thesis by (simp add: parse_i64_def)
  next
    case False
    then have "show_i64 v = ?ds" by (simp add: show_i64_signed signed_def)
    with dv range False ds show ?thesis by (simp add: parse_i64_def)
  qed
qed

lemma parse_number_i64:
  assumes "delimited rest"
  shows "parse_number F path (show_i64 v @ rest) = Inr (Numerus v, rest)"
proof -
  have "number_integer path (show_i64 v @ rest) = Inr rest"
    using number_integer_digits[OF show_nat_digits, of rest path "sint v < 0" "nat \<bar>sint v\<bar>"]
      delimited_no_number[OF assms]
    by (auto simp: show_i64_signed signed_def)
  moreover have "number_fraction path start rest = Inr (False, rest)" for start
    using delimited_no_number[OF assms] consume_False[of 46 rest] by (simp add: number_fraction_def)
  ultimately show ?thesis
    by (simp add: parse_number_def number_exponent_none[OF assms] consumed_append parse_i64_show_i64)
qed

text \<open>
  The documented behaviour of the floating point type that the round trip relies on: a finite value
  prints as a decimal without an exponent, a trailing \<open>.0\<close> does not change what is parsed, and
  printing then parsing gives the value back.
\<close>

definition decimal_text :: "bool \<Rightarrow> ustr \<Rightarrow> ustr \<Rightarrow> ustr" where
  "decimal_text neg i ds = signed neg (i @ (if ds = [] then [] else 46 # ds))"

definition prints_decimals :: "'f float_ops \<Rightarrow> bool" where
  "prints_decimals F \<longleftrightarrow> (\<forall>v. f_is_finite F v \<longrightarrow>
     (\<exists>neg i ds. f_to_string F v = decimal_text neg i ds \<and> integer_digits i \<and> list_all is_digit ds) \<and>
     f_parse F (f_to_string F v) = Some v)"

definition ignores_zero_fraction :: "'f float_ops \<Rightarrow> bool" where
  "ignores_zero_fraction F \<longleftrightarrow> (\<forall>neg i. integer_digits i \<longrightarrow>
     f_parse F (signed neg i @ lit ''.0'') = f_parse F (signed neg i))"

lemma integer_digits_no_point: "integer_digits i \<Longrightarrow> 46 \<notin> set i \<and> 101 \<notin> set i \<and> 69 \<notin> set i"
  by (auto simp: integer_digits_def all_digits_def list_all_iff is_digit_def)

lemma render_fractus_decimal:
  assumes "prints_decimals F" "ignores_zero_fraction F" "f_is_finite F v"
  obtains neg i ds where "render_fractus F v = decimal_text neg i ds" "integer_digits i" "all_digits ds"
    "f_parse F (render_fractus F v) = Some v"
proof -
  obtain neg i ds where t: "f_to_string F v = decimal_text neg i ds" "integer_digits i" "list_all is_digit ds"
      "f_parse F (f_to_string F v) = Some v"
    using assms(1,3) unfolding prints_decimals_def by blast
  show thesis
  proof (cases "ds = []")
    case True
    then have eq: "f_to_string F v = signed neg i" using t(1) by (simp add: decimal_text_def)
    then have r: "render_fractus F v = signed neg i @ lit ''.0''"
      using integer_digits_no_point[OF t(2)] by (auto simp: render_fractus_def signed_def Let_def)
    then have "render_fractus F v = decimal_text neg i [48]"
      by (simp add: decimal_text_def signed_def)
    moreover have "f_parse F (render_fractus F v) = Some v"
      using assms(2) t(2,4) eq r unfolding ignores_zero_fraction_def by metis
    ultimately show thesis using that[of neg i "[48]"] t(2) by (simp add: all_digits_def is_digit_def)
  next
    case False
    then have "render_fractus F v = f_to_string F v"
      using t(1) by (simp add: render_fractus_def decimal_text_def signed_def Let_def)
    with that[of neg i ds] t False show thesis by (simp add: all_digits_def)
  qed
qed

lemma parse_number_decimal:
  assumes i: "integer_digits i" and ds: "all_digits ds" and rest: "delimited rest"
    and p: "f_parse F (decimal_text neg i ds) = Some v" "f_is_finite F v"
  shows "parse_number F path (decimal_text neg i ds @ rest) = Inr (Fractus v, rest)"
proof -
  let ?t = "decimal_text neg i ds"
  have eq: "?t @ rest = signed neg (i @ 46 # ds @ rest)"
    using ds by (auto simp: decimal_text_def signed_def all_digits_def)
  have "\<not> next_is_digit (46 # ds @ rest)" by (simp add: next_is_digit_def is_digit_def)
  then have 1: "number_integer path (?t @ rest) = Inr (46 # ds @ rest)"
    unfolding eq by (rule number_integer_digits[OF i])
  have "next_is_digit (ds @ rest)"
    using ds by (cases ds) (auto simp: all_digits_def next_is_digit_def)
  moreover have "take_digits (ds @ rest) = rest"
    using ds delimited_no_number[OF rest] by (simp add: take_digits_append all_digits_def)
  ultimately have "number_fraction path start (46 # ds @ rest) = Inr (True, rest)" for start
    by (simp add: number_fraction_def)
  then show ?thesis
    by (simp add: parse_number_def 1 number_exponent_none[OF rest] consumed_append p)
qed

subsection \<open>Values\<close>

text \<open>The first character of a rendered value selects the branch of the parser and is no blank.\<close>

definition scalar_start :: "nat \<Rightarrow> bool" where
  "scalar_start c \<longleftrightarrow> c \<in> {34, 116, 102, 110, 45} \<or> is_digit c"

definition value_start :: "nat \<Rightarrow> bool" where
  "value_start c \<longleftrightarrow> scalar_start c \<or> c = 91 \<or> c = 123"

lemma skip_ws_Cons: "c \<notin> {32, 10, 13, 9} \<Longrightarrow> skip_ws (c # s) = c # s"
  by (simp add: skip_ws_def)

lemma skip_ws_delimited: "delimited s \<Longrightarrow> skip_ws s = s"
  by (cases s) (auto simp: delimited_def skip_ws_def)

lemma parse_value_scalar:
  assumes "scalar_start c"
  shows "parse_value (Suc n) F path (c # s) = Some (parse_scalar F c path (c # s))"
  using assms by (auto simp: scalar_start_def is_digit_def skip_ws_Cons)

lemma parse_literal_append: "parse_literal e v path (e @ rest) = Inr (v, rest)"
  by (simp add: parse_literal_def starts_with_def)

definition reads_back :: "'f float_ops \<Rightarrow> 'f valor \<Rightarrow> ustr \<Rightarrow> bool" where
  "reads_back F v r \<longleftrightarrow> r \<noteq> [] \<and> value_start (hd r) \<and> (\<forall>n path rest. delimited rest \<longrightarrow> length (r @ rest) < n \<longrightarrow>
     parse_value n F path (r @ rest) = Some (Inr (v, rest)))"

lemma reads_back_scalar:
  assumes "r = c # r'" "scalar_start c"
    and "\<And>path rest. delimited rest \<Longrightarrow> parse_scalar F c path (r @ rest) = Inr (v, rest)"
  shows "reads_back F v r"
  unfolding reads_back_def
proof (intro conjI allI impI)
  show "r \<noteq> []" "value_start (hd r)" using assms(1,2) by (auto simp: value_start_def)
  fix n path rest
  assume rest: "delimited rest" and "length (r @ rest) < n"
  then obtain m where "n = Suc m" by (cases n) auto
  with parse_value_scalar[OF assms(2), of m F path "r' @ rest"] assms(1) assms(3)[OF rest, of path]
  show "parse_value n F path (r @ rest) = Some (Inr (v, rest))" by simp
qed

lemma reads_back_literals:
  "reads_back F Nihil (lit ''null'')" "reads_back F (Bivalens True) (lit ''true'')"
  "reads_back F (Bivalens False) (lit ''false'')"
  using parse_literal_append[of "lit ''null''"] parse_literal_append[of "lit ''true''"]
    parse_literal_append[of "lit ''false''"]
  by (auto intro!: reads_back_scalar simp: scalar_start_def parse_scalar_def)

lemma reads_back_textus: "reads_back F (Textus t) (render_string t)"
  using parse_string_render_string[of _ t]
  by (intro reads_back_scalar[of _ 34 "concat (map render_char t) @ [34]"])
    (auto simp: render_string_def scalar_start_def parse_scalar_def)

lemma number_start:
  assumes "integer_digits i"
  obtains c r where "signed neg (i @ t) = c # r" "c = 45 \<or> is_digit c" "scalar_start c"
  using assms that
  by (cases i; cases neg) (auto simp: signed_def integer_digits_def all_digits_def scalar_start_def)

lemma parse_scalar_number: "c = 45 \<or> is_digit c \<Longrightarrow> parse_scalar F c path s = parse_number F path s"
  by (auto simp: parse_scalar_def is_digit_def)

lemma reads_back_numerus: "reads_back F (Numerus v) (show_i64 v)"
proof -
  obtain c r where c: "show_i64 v = c # r" "c = 45 \<or> is_digit c" "scalar_start c"
    using number_start[OF show_nat_digits, of "sint v < 0" "nat \<bar>sint v\<bar>" "[]"]
    by (auto simp: show_i64_signed)
  show ?thesis
    using parse_number_i64[of _ F _ v]
    by (intro reads_back_scalar[OF c(1,3)]) (simp add: parse_scalar_number[OF c(2)])
qed

lemma reads_back_fractus:
  assumes "prints_decimals F" "ignores_zero_fraction F" "f_is_finite F v"
  shows "reads_back F (Fractus v) (render_fractus F v)"
proof -
  obtain neg i ds where d: "render_fractus F v = decimal_text neg i ds" "integer_digits i" "all_digits ds"
      "f_parse F (render_fractus F v) = Some v"
    using render_fractus_decimal[OF assms] .
  obtain c r where c: "render_fractus F v = c # r" "c = 45 \<or> is_digit c" "scalar_start c"
    using number_start[OF d(2), of neg "if ds = [] then [] else 46 # ds"]
    by (auto simp: d(1) decimal_text_def)
  show ?thesis
    using parse_number_decimal[OF d(2,3) _ d(4)[unfolded d(1)] assms(3)]
    by (intro reads_back_scalar[OF c(1,3)]) (simp add: parse_scalar_number[OF c(2)] d(1))
qed

lemma reads_backD:
  "reads_back F v r \<Longrightarrow> delimited rest \<Longrightarrow> length (r @ rest) < n \<Longrightarrow>
   parse_value n F path (r @ rest) = Some (Inr (v, rest))"
  by (simp add: reads_back_def)

lemma parse_elements_rendered:
  "list_all2 (reads_back F) items rs \<Longrightarrow> items \<noteq> [] \<Longrightarrow> length (join_comma rs @ 93 # rest) < n \<Longrightarrow>
   length (join_comma rs @ 93 # rest) < m \<Longrightarrow>
   parse_elements m (parse_value n F) path acc (join_comma rs @ 93 # rest) =
     Some (Inr (Lista (acc @ items), rest))"
proof (induction items rs arbitrary: acc m rule: list_all2_induct)
  case (Cons v vs r rs)
  then obtain m' where m: "m = Suc m'" by (cases m) auto
  show ?case
  proof (cases rs)
    case Nil
    with Cons have "vs = []" by simp
    with Nil reads_backD[OF Cons.hyps(1) delimited_Cons[of 93 rest], of n] Cons.prems show ?thesis
      by (simp add: m parse_element_def skip_ws_Cons)
  next
    case (Cons r2 rs2)
    with Cons.hyps(2) have ne: "vs \<noteq> []" by auto
    have s: "join_comma (r # rs) @ 93 # rest = r @ 44 # join_comma rs @ 93 # rest"
      using Cons by simp
    have "parse_value n F p (r @ 44 # join_comma rs @ 93 # rest) =
        Some (Inr (v, 44 # join_comma rs @ 93 # rest))" for p
      using Cons.prems(2) unfolding s by (intro reads_backD[OF Cons.hyps(1)] delimited_Cons) auto
    then have "parse_element (parse_value n F) path acc (join_comma (r # rs) @ 93 # rest) =
        Some (Inr (Inr (acc @ [v], join_comma rs @ 93 # rest)))"
      unfolding s by (simp add: parse_element_def skip_ws_Cons expect_def)
    then show ?thesis
      using Cons.IH[OF ne, of m' "acc @ [v]"] Cons.prems unfolding s by (simp add: m)
  qed
qed simp

definition member_reads_back :: "'f float_ops \<Rightarrow> ustr \<times> 'f valor \<Rightarrow> ustr \<Rightarrow> bool" where
  "member_reads_back F kv r \<longleftrightarrow> (\<exists>rv. r = render_string (fst kv) @ 58 # rv \<and> reads_back F (snd kv) rv)"

lemma btree_insert_last:
  "\<forall>k' \<in> set (map fst tab). k' < k \<Longrightarrow> btree_insert k v tab = (False, tab @ [(k, v)])"
proof (induction tab)
  case (Cons kv tab)
  obtain k' v' where kv: "kv = (k', v')" by fastforce
  with Cons have "k' < k" "btree_insert k v tab = (False, tab @ [(k, v)])" by auto
  then show ?case by (auto simp: kv dest: order.asym)
qed simp

lemma parse_member_rendered:
  assumes "member_reads_back F (k, v) r" "\<forall>k' \<in> set (map fst acc). k' < k"
    and "b \<in> {44, 125}" "length (r @ b # rest) < n"
  shows "parse_member (parse_value n F) path acc (r @ b # rest) =
    Some (Inr (if b = 125 then Inl (Tabula (acc @ [(k, v)]), rest) else Inr (acc @ [(k, v)], rest)))"
proof -
  obtain rv where r: "r = render_string k @ 58 # rv" and rv: "reads_back F v rv"
    using assms(1) by (auto simp: member_reads_back_def)
  have "skip_ws (r @ b # rest) = r @ b # rest"
    by (simp add: r render_string_def skip_ws_Cons)
  then have key: "parse_string path (skip_ws (r @ b # rest)) = Inr (k, 58 # rv @ b # rest)"
    by (simp add: r parse_string_render_string)
  have "length (rv @ b # rest) < n" using assms(4) by (simp add: r)
  then have "parse_value n F p (rv @ b # rest) = Some (Inr (v, b # rest))" for p
    using assms(3) by (intro reads_backD[OF rv]) (auto simp: delimited_def)
  then show ?thesis
    using assms(3) btree_insert_last[OF assms(2), of v]
    by (auto simp: parse_member_def key skip_ws_Cons expect_def Let_def)
qed

lemma parse_members_rendered:
  "list_all2 (member_reads_back F) tab rs \<Longrightarrow> tab \<noteq> [] \<Longrightarrow> sorted_wrt (<) (map fst (acc @ tab)) \<Longrightarrow>
   length (join_comma rs @ 125 # rest) < n \<Longrightarrow> length (join_comma rs @ 125 # rest) < m \<Longrightarrow>
   parse_members m (parse_value n F) path acc (join_comma rs @ 125 # rest) =
     Some (Inr (Tabula (acc @ tab), rest))"
proof (induction tab rs arbitrary: acc m rule: list_all2_induct)
  case (Cons kv tab r rs)
  obtain k v where kv: "kv = (k, v)" by fastforce
  from Cons.prems obtain m' where m: "m = Suc m'" by (cases m) auto
  have keys: "\<forall>k' \<in> set (map fst acc). k' < k"
    using Cons.prems(2) by (auto simp: kv sorted_wrt_append)
  note member = parse_member_rendered[OF Cons.hyps(1)[unfolded kv] keys]
  show ?case
  proof (cases rs)
    case Nil
    with Cons.hyps(2) have "tab = []" by simp
    with Nil member[of 125 rest n path] Cons.prems(3) show ?thesis by (simp add: m kv)
  next
    case (Cons r2 rs2)
    with Cons.hyps(2) have ne: "tab \<noteq> []" by auto
    have s: "join_comma (r # rs) @ 125 # rest = r @ 44 # join_comma rs @ 125 # rest"
      using Cons by simp
    have "parse_member (parse_value n F) path acc (r @ 44 # join_comma rs @ 125 # rest) =
        Some (Inr (Inr (acc @ [(k, v)], join_comma rs @ 125 # rest)))"
      using member[of 44 "join_comma rs @ 125 # rest" n path] Cons.prems(3) unfolding s by simp
    then show ?thesis
      using Cons.IH[OF ne, of "acc @ [(k, v)]" m'] Cons.prems unfolding s by (simp add: m kv)
  qed
qed simp

text \<open>The body of a list or object starts like its first part, so no blank is skipped and no closing
  bracket is taken for an empty body.\<close>

lemma join_comma_start:
  assumes "r \<noteq> []" "hd r \<notin> {32, 10, 13, 9}" "hd r \<noteq> b"
  shows "skip_ws (join_comma (r # rs) @ s) = join_comma (r # rs) @ s"
    and "consume b (join_comma (r # rs) @ s) = (False, join_comma (r # rs) @ s)"
proof -
  obtain c t where "join_comma (r # rs) @ s = c # t" "c = hd r"
    using assms(1) by (cases rs; cases r) auto
  with assms(2,3) show "skip_ws (join_comma (r # rs) @ s) = join_comma (r # rs) @ s"
    "consume b (join_comma (r # rs) @ s) = (False, join_comma (r # rs) @ s)"
    by (auto simp: skip_ws_Cons)
qed

lemma value_start_plain: "value_start c \<Longrightarrow> c \<notin> {32, 10, 13, 9} \<and> c \<noteq> 93 \<and> c \<noteq> 125"
  by (auto simp: value_start_def scalar_start_def is_digit_def)

lemma reads_back_lista:
  assumes "list_all2 (reads_back F) items rs"
  shows "reads_back F (Lista items) ([91] @ join_comma rs @ [93])"
  unfolding reads_back_def
proof (intro conjI allI impI)
  show "[91] @ join_comma rs @ [93] \<noteq> []" "value_start (hd ([91] @ join_comma rs @ [93]))"
    by (simp_all add: value_start_def)
  fix n path rest
  assume "length (([91] @ join_comma rs @ [93]) @ rest) < n"
  then obtain m where m: "n = Suc m" "length (join_comma rs @ 93 # rest) < m" by (cases n) auto
  show "parse_value n F path (([91] @ join_comma rs @ [93]) @ rest) = Some (Inr (Lista items, rest))"
  proof (cases rs)
    case Nil
    with assms show ?thesis by (simp add: m parse_array_def skip_ws_Cons expect_def)
  next
    case (Cons r rs')
    then obtain v where "reads_back F v r" and ne: "items \<noteq> []" using assms by (cases items) auto
    then have "r \<noteq> []" "value_start (hd r)" by (simp_all add: reads_back_def)
    note start = join_comma_start[OF this(1), of 93 rs' "93 # rest", folded Cons]
    have "skip_ws (join_comma rs @ 93 # rest) = join_comma rs @ 93 # rest"
      "consume 93 (join_comma rs @ 93 # rest) = (False, join_comma rs @ 93 # rest)"
      using start value_start_plain[OF \<open>value_start (hd r)\<close>] by auto
    with parse_elements_rendered[OF assms ne m(2,2), of path "[]"] show ?thesis
      by (simp add: m(1) parse_array_def skip_ws_Cons expect_def)
  qed
qed

lemma reads_back_tabula:
  assumes "list_all2 (member_reads_back F) tab rs" "sorted_wrt (<) (map fst tab)"
  shows "reads_back F (Tabula tab) ([123] @ join_comma rs @ [125])"
  unfolding reads_back_def
proof (intro conjI allI impI)
  show "[123] @ join_comma rs @ [125] \<noteq> []" "value_start (hd ([123] @ join_comma rs @ [125]))"
    by (simp_all add: value_start_def)
  fix n path rest
  assume "length (([123] @ join_comma rs @ [125]) @ rest) < n"
  then obtain m where m: "n = Suc m" "length (join_comma rs @ 125 # rest) < m" by (cases n) auto
  show "parse_value n F path (([123] @ join_comma rs @ [125]) @ rest) = Some (Inr (Tabula tab, rest))"
  proof (cases rs)
    case Nil
    with assms show ?thesis by (simp add: m parse_object_def skip_ws_Cons expect_def)
  next
    case (Cons r rs')
    then obtain kv where "member_reads_back F kv r" and ne: "tab \<noteq> []" using assms by (cases tab) auto
    then have "r \<noteq> []" "hd r = 34" by (auto simp: member_reads_back_def render_string_def)
    note start = join_comma_start[OF this(1), of 125 rs' "125 # rest", folded Cons]
    have "skip_ws (join_comma rs @ 125 # rest) = join_comma rs @ 125 # rest"
      "consume 125 (join_comma rs @ 125 # rest) = (False, join_comma rs @ 125 # rest)"
      using start \<open>hd r = 34\<close> by auto
    with parse_members_rendered[OF assms(1) ne _ m(2,2), of "[]" path] assms(2) show ?thesis
      by (simp add: m(1) parse_object_def skip_ws_Cons expect_def)
  qed
qed

lemma render_items_Some_iff:
  "render_items F items = Some rs \<longleftrightarrow> list_all2 (\<lambda>v r. render_valor F v = Some r) items rs"
  by (induction items arbitrary: rs) (auto simp: bind_eq_Some_conv list_all2_Cons1)

lemma render_fields_Some_iff:
  "render_fields F tab = Some rs \<longleftrightarrow>
     list_all2 (\<lambda>(k, v) r. \<exists>rv. r = render_string k @ 58 # rv \<and> render_valor F v = Some rv) tab rs"
  by (induction tab arbitrary: rs) (auto simp: bind_eq_Some_conv list_all2_Cons1)

lemma rendered_reads_back:
  assumes F: "prints_decimals F" "ignores_zero_fraction F"
  shows "value_ok F v \<Longrightarrow> render_valor F v = Some r \<Longrightarrow> reads_back F v r"
proof (induction v arbitrary: r)
  case (Bivalens b)
  then show ?case by (cases b) (auto simp: reads_back_literals(2,3)[simplified])
next
  case (Fractus x)
  then show ?case using reads_back_fractus[OF F, of x] by auto
next
  case (Lista items)
  from Lista.prems obtain rs where r: "r = [91] @ join_comma rs @ [93]"
      and rs: "list_all2 (\<lambda>v r. render_valor F v = Some r) items rs"
    by (auto simp: render_items_Some_iff)
  have "list_all2 (reads_back F) items rs"
    using Lista.IH Lista.prems(1)
    by (intro list.rel_mono_strong[OF rs]) (auto simp: items_ok_iff list_all_iff)
  then show ?case unfolding r by (rule reads_back_lista)
next
  case (Tabula tab)
  from Tabula.prems obtain rs where r: "r = [123] @ join_comma rs @ [125]"
      and rs: "list_all2 (\<lambda>(k, v) r. \<exists>rv. r = render_string k @ 58 # rv \<and> render_valor F v = Some rv) tab rs"
    by (auto simp: render_fields_Some_iff)
  have ok: "\<forall>kv \<in> set tab. value_ok F (snd kv)" and sorted: "sorted_wrt (<) (map fst tab)"
    using Tabula.prems(1) by (auto simp: members_ok_iff list_all_iff)
  have "list_all2 (member_reads_back F) tab rs"
  proof (rule list.rel_mono_strong[OF rs])
    fix kv r assume kv: "kv \<in> set tab"
      and "(\<lambda>(k, v) r. \<exists>rv. r = render_string k @ 58 # rv \<and> render_valor F v = Some rv) kv r"
    then obtain rv where "r = render_string (fst kv) @ 58 # rv" "render_valor F (snd kv) = Some rv"
      by (cases kv) auto
    with Tabula.IH[OF kv, of "snd kv" rv] ok kv show "member_reads_back F kv r"
      by (auto simp: member_reads_back_def snds.simps)
  qed
  then show ?case unfolding r by (rule reads_back_tabula[OF _ sorted])
qed (auto simp: reads_back_literals(1)[simplified] reads_back_numerus reads_back_textus)

section \<open>Validation\<close>

text \<open>Every table of the value has its keys in order: what a \<open>BTreeMap\<close> guarantees by construction.\<close>

fun tables_sorted :: "'f valor \<Rightarrow> bool"
  and items_sorted :: "'f valor list \<Rightarrow> bool"
  and members_sorted :: "(ustr \<times> 'f valor) list \<Rightarrow> bool" where
  "tables_sorted (Lista items) = items_sorted items"
| "tables_sorted (Tabula tab) = (sorted_wrt (<) (map fst tab) \<and> members_sorted tab)"
| "tables_sorted _ = True"
| "items_sorted [] = True"
| "items_sorted (v # vs) = (tables_sorted v \<and> items_sorted vs)"
| "members_sorted [] = True"
| "members_sorted ((k, v) # tab) = (tables_sorted v \<and> members_sorted tab)"

lemma validate_None_value_ok:
  "validate_value F v path = None \<Longrightarrow> tables_sorted v \<Longrightarrow> value_ok F v"
  "validate_items F idx items path = None \<Longrightarrow> items_sorted items \<Longrightarrow> items_ok F items"
  "validate_fields F tab path = None \<Longrightarrow> members_sorted tab \<Longrightarrow> members_ok F tab"
  by (induction F v path and F idx items path and F tab path
      rule: validate_value_validate_items_validate_fields.induct)
    (auto split: if_splits option.splits)

lemma value_ok_validate:
  "value_ok F v \<Longrightarrow> validate_value F v path = None"
  "items_ok F items \<Longrightarrow> validate_items F idx items path = None"
  "members_ok F tab \<Longrightarrow> validate_fields F tab path = None"
  by (induction F v path and F idx items path and F tab path
      rule: validate_value_validate_items_validate_fields.induct) auto

lemma json_try_from_Inr:
  "json_try_from F v = Inr j \<longleftrightarrow> j = JsonDoc v \<and> (\<exists>tab. v = Tabula tab) \<and> validate_value F v (lit ''$'') = None"
  by (auto simp: json_try_from_def validate_root_def split: valor.splits option.splits)

lemma json_parse_Inr_iff:
  "json_parse F wire = Some (Inr j) \<longleftrightarrow> (\<exists>v rest. j = JsonDoc v \<and>
     parse_value (Suc (length wire)) F (lit ''$'') wire = Some (Inr (v, rest)) \<and> skip_ws rest = [] \<and>
     (\<exists>tab. v = Tabula tab) \<and> validate_value F v (lit ''$'') = None)"
  by (auto simp: json_parse_def json_try_from_Inr simp del: parse_value.simps
      split: option.splits sum.splits)

section \<open>Properties\<close>

text \<open>C17: the parser returns on every wire, whatever its nesting, and what it accepts is a well-formed
  document: an object whose values are finite and of the JSON variants and whose tables all have
  strictly increasing keys, so that neither the object accessor nor the rendering can reach the
  branch that panics.\<close>

theorem json_parse_returns_valid_documents:
  "\<exists>result. json_parse F wire = Some result \<and>
     (\<forall>j. result = Inr j \<longrightarrow> value_ok F (json_valor j) \<and> json_as_object j \<noteq> None \<and> json_to_wire F j \<noteq> None)"
proof -
  obtain result where r: "json_parse F wire = Some result"
    using json_parse_returns[of F wire] by auto
  have "value_ok F (json_valor j) \<and> json_as_object j \<noteq> None \<and> json_to_wire F j \<noteq> None"
    if inr: "result = Inr j" for j
  proof -
    have "json_parse F wire = Some (Inr j)" using r inr by simp
    then obtain v rest tab where v: "j = JsonDoc v" "v = Tabula tab"
        "parse_value (Suc (length wire)) F (lit ''$'') wire = Some (Inr (v, rest))"
      unfolding json_parse_Inr_iff by blast
    then have "value_ok F v"
      using parse_value_yields[of F "Suc (length wire)"] unfolding yields_ok_def by blast
    with v(1,2) render_total(1)[of F v] show ?thesis
      by (simp add: json_as_object_def json_to_wire_def)
  qed
  with r show ?thesis by blast
qed

text \<open>C18: rendering and parsing are inverse: every validated document renders, and its wire parses back
  to the same document, over any floating point type whose finite values print as decimals that
  parse back. Strings round-trip through every escape, integers through their whole range.\<close>

theorem json_wire_round_trip:
  assumes "prints_decimals F" "ignores_zero_fraction F" "tables_sorted v"
    and "json_try_from F v = Inr j"
  shows "\<exists>wire. json_to_wire F j = Some wire \<and> json_parse F wire = Some (Inr j)"
proof -
  obtain tab where j: "j = JsonDoc v" "v = Tabula tab" and val: "validate_value F v (lit ''$'') = None"
    using assms(4) by (auto simp: json_try_from_Inr)
  have ok: "value_ok F v" using validate_None_value_ok(1)[OF val assms(3)] .
  then obtain wire where wire: "render_valor F v = Some wire" using render_total(1)[of F v] by auto
  have "parse_value (Suc (length wire)) F (lit ''$'') (wire @ []) = Some (Inr (v, []))"
    by (rule reads_backD[OF rendered_reads_back[OF assms(1,2) ok wire]]) (simp_all add: delimited_def)
  then have "json_parse F wire = Some (Inr j)"
    using j val unfolding json_parse_Inr_iff by (auto simp: skip_ws_def simp del: parse_value.simps)
  with wire j(1) show ?thesis by (auto simp: json_to_wire_def)
qed

text \<open>Integers as a floating point type: they print without a point and parse up to it.\<close>

definition int_floats :: "int float_ops" where
  "int_floats = \<lparr>f_is_finite = (\<lambda>_. True),
     f_to_string = (\<lambda>n. signed (n < 0) (lit (show_nat (nat \<bar>n\<bar>)))),
     f_parse = (\<lambda>t. let t = takeWhile (\<lambda>c. c \<noteq> 46) t in
       Some (if t \<noteq> [] \<and> hd t = 45 then - int (digits_value (tl t)) else int (digits_value t)))\<rparr>"

lemma takeWhile_no_point: "46 \<notin> set t \<Longrightarrow> takeWhile (\<lambda>c. c \<noteq> 46) t = t"
  by (rule takeWhile_eq_all_conv[THEN iffD2]) auto

lemma signed_no_point: "integer_digits i \<Longrightarrow> 46 \<notin> set (signed neg i)"
  using integer_digits_no_point[of i] by (auto simp: signed_def)

lemma int_floats_print: "prints_decimals int_floats"
proof -
  have "f_parse int_floats (f_to_string int_floats n) = Some n" for n
  proof -
    let ?i = "lit (show_nat (nat \<bar>n\<bar>))"
    obtain c cs where ds: "?i = c # cs" "c \<noteq> 45"
      using show_nat_digits[of "nat \<bar>n\<bar>"]
      by (cases ?i; force simp: integer_digits_def all_digits_def is_digit_def)+
    have dv: "digits_value ?i = nat \<bar>n\<bar>" by (rule digits_value_show_nat)
    have "takeWhile (\<lambda>c. c \<noteq> 46) (signed (n < 0) ?i) = signed (n < 0) ?i"
      by (rule takeWhile_no_point[OF signed_no_point[OF show_nat_digits]])
    with ds dv show ?thesis by (cases "n < 0") (auto simp: int_floats_def signed_def Let_def)
  qed
  moreover have "\<exists>neg i ds. f_to_string int_floats n = decimal_text neg i ds \<and> integer_digits i \<and> list_all is_digit ds" for n
    by (rule exI[of _ "n < 0"], rule exI[of _ "lit (show_nat (nat \<bar>n\<bar>))"], rule exI[of _ "[]"])
      (simp add: int_floats_def decimal_text_def show_nat_digits)
  ultimately show ?thesis by (simp add: prints_decimals_def)
qed

lemma int_floats_fraction: "ignores_zero_fraction int_floats"
proof -
  have "takeWhile (\<lambda>c. c \<noteq> 46) (signed neg i @ lit ''.0'') = takeWhile (\<lambda>c. c \<noteq> 46) (signed neg i)"
    if "integer_digits i" for neg i
  proof -
    have "takeWhile (\<lambda>c. c \<noteq> 46) (signed neg i @ lit ''.0'') = signed neg i @ takeWhile (\<lambda>c. c \<noteq> 46) (lit ''.0'')"
      using signed_no_point[OF that, of neg] by (intro takeWhile_append2) auto
    then show ?thesis by (simp add: takeWhile_no_point[OF signed_no_point[OF that]])
  qed
  then show ?thesis by (simp add: ignores_zero_fraction_def int_floats_def)
qed

definition example_document :: "int valor" where
  "example_document = Tabula
     [(lit ''a'', Lista [Numerus (- 7), Fractus 2, Nihil]), (lit ''b'', Textus [34, 10, 0x1F600, 7])]"

theorem json_wire_round_trip_witness:
  "\<exists>wire. json_to_wire int_floats (JsonDoc example_document) = Some wire \<and>
     json_parse int_floats wire = Some (Inr (JsonDoc example_document))"
proof -
  have "tables_sorted example_document" by (simp add: example_document_def)
  moreover have "json_try_from int_floats example_document = Inr (JsonDoc example_document)"
    by (simp add: json_try_from_Inr) (simp add: example_document_def int_floats_def)
  ultimately show ?thesis
    using json_wire_round_trip[OF int_floats_print int_floats_fraction] by blast
qed

theorem json_parse_returns_valid_documents_witness:
  "json_parse int_floats (lit ''{}'') = Some (Inr (JsonDoc (Tabula []))) \<and> value_ok int_floats (Tabula [])"
proof -
  have p: "json_parse int_floats (lit ''{}'') = Some (Inr (JsonDoc (Tabula [])))"
    by (simp add: json_parse_Inr_iff skip_ws_def parse_object_def expect_def)
  then show ?thesis using json_parse_returns_valid_documents[of int_floats "lit ''{}''"] by auto
qed

end
