(* ===== verification/Arena.thy ===== *)
theory Arena
  imports Prelude
begin

text \<open>
  The generational arena of \<open>src/arena.rs\<close>: slots with a generation, an intrusive free list and the
  count of live slots. An index is a \<open>u32\<close>, so a handle of a slot beyond \<open>2^32\<close> would be truncated as
  the cast of the source truncates it; \<open>unreachable!\<close> and an index out of range are \<open>None\<close>. A caller
  of \<open>get_mut\<close> writes through the reference, which is the function it passes.
\<close>

section \<open>The store\<close>

record arena_handle =
  ah_index :: u32
  ah_generation :: u32

datatype 'a slot =
  Free (slot_generation: u32) (slot_next_free: "u32 option")
| Live (slot_generation: u32) (slot_value: 'a)

record 'a arena =
  ar_slots :: "'a slot list"
  ar_free_head :: "u32 option"
  ar_live_count :: nat

definition handle_new :: "u32 \<Rightarrow> u32 \<Rightarrow> arena_handle" where
  "handle_new index generation = \<lparr>ah_index = index, ah_generation = generation\<rparr>"

definition handle_display :: "arena_handle \<Rightarrow> string" where
  "handle_display h = ''manus('' @ show_nat (unat (ah_index h)) @ '':'' @ show_nat (unat (ah_generation h)) @ '')''"

definition arena_new :: "'a arena" where
  "arena_new = \<lparr>ar_slots = [], ar_free_head = None, ar_live_count = 0\<rparr>"

definition arena_len :: "'a arena \<Rightarrow> nat" where
  "arena_len A = ar_live_count A"

definition arena_is_empty :: "'a arena \<Rightarrow> bool" where
  "arena_is_empty A \<longleftrightarrow> ar_live_count A = 0"

definition arena_insert :: "'a \<Rightarrow> 'a arena \<Rightarrow> (arena_handle \<times> 'a arena) option" where
  "arena_insert v A = (case ar_free_head A of
     Some index \<Rightarrow>
       if unat index < length (ar_slots A)
       then (case ar_slots A ! unat index of
          Free generation next_free \<Rightarrow> Some (handle_new index generation,
            A\<lparr>ar_slots := (ar_slots A)[unat index := Live generation v],
              ar_free_head := next_free,
              ar_live_count := ar_live_count A + 1\<rparr>)
        | Live _ _ \<Rightarrow> None)
       else None
   | None \<Rightarrow> Some (handle_new (of_nat (length (ar_slots A))) 0,
       A\<lparr>ar_slots := ar_slots A @ [Live 0 v], ar_live_count := ar_live_count A + 1\<rparr>))"

definition arena_get :: "'a arena \<Rightarrow> arena_handle \<Rightarrow> 'a option" where
  "arena_get A h =
     (if unat (ah_index h) < length (ar_slots A)
      then (case ar_slots A ! unat (ah_index h) of
              Live generation v \<Rightarrow> if generation = ah_generation h then Some v else None
            | Free _ _ \<Rightarrow> None)
      else None)"

definition arena_get_mut :: "arena_handle \<Rightarrow> ('a \<Rightarrow> 'a) \<Rightarrow> 'a arena \<Rightarrow> 'a option \<times> 'a arena" where
  "arena_get_mut h write A =
     (if unat (ah_index h) < length (ar_slots A)
      then (case ar_slots A ! unat (ah_index h) of
              Live generation v \<Rightarrow>
                if generation = ah_generation h
                then (Some v, A\<lparr>ar_slots := (ar_slots A)[unat (ah_index h) := Live generation (write v)]\<rparr>)
                else (None, A)
            | Free _ _ \<Rightarrow> (None, A))
      else (None, A))"

definition arena_remove :: "arena_handle \<Rightarrow> 'a arena \<Rightarrow> 'a option \<times> 'a arena" where
  "arena_remove h A =
     (if unat (ah_index h) < length (ar_slots A)
      then (case ar_slots A ! unat (ah_index h) of
              Live generation v \<Rightarrow>
                if generation = ah_generation h
                then (Some v,
                  A\<lparr>ar_slots := (ar_slots A)[unat (ah_index h) := Free (generation + 1) (ar_free_head A)],
                    ar_free_head := Some (ah_index h),
                    ar_live_count := ar_live_count A - 1\<rparr>)
                else (None, A)
            | Free _ _ \<Rightarrow> (None, A))
      else (None, A))"

definition arena_contains :: "'a arena \<Rightarrow> arena_handle \<Rightarrow> bool" where
  "arena_contains A h \<longleftrightarrow> arena_get A h \<noteq> None"

text \<open>A run of operations on one arena; \<open>None\<close> is a panic of an insertion.\<close>

datatype 'a arena_op = ArInsert 'a | ArRemove arena_handle | ArWrite arena_handle "'a \<Rightarrow> 'a"

fun arena_run :: "'a arena_op list \<Rightarrow> 'a arena \<Rightarrow> 'a arena option" where
  "arena_run [] A = Some A"
| "arena_run (ArInsert v # ops) A = (case arena_insert v A of
     None \<Rightarrow> None | Some (_, A) \<Rightarrow> arena_run ops A)"
| "arena_run (ArRemove h # ops) A = arena_run ops (snd (arena_remove h A))"
| "arena_run (ArWrite h write # ops) A = arena_run ops (snd (arena_get_mut h write A))"

fun is_insert :: "'a arena_op \<Rightarrow> bool" where
  "is_insert (ArInsert _) = True"
| "is_insert _ = False"

fun is_remove :: "'a arena_op \<Rightarrow> bool" where
  "is_remove (ArRemove _) = True"
| "is_remove _ = False"

section \<open>The free list\<close>

definition is_live :: "'a slot \<Rightarrow> bool" where
  "is_live s \<longleftrightarrow> (case s of Live _ _ \<Rightarrow> True | Free _ _ \<Rightarrow> False)"

lemma is_live_simps [simp]: "is_live (Live g v)" "\<not> is_live (Free g n)"
  by (simp_all add: is_live_def)

text \<open>The slots that the free list visits from a head.\<close>

fun chain :: "'a slot list \<Rightarrow> u32 option \<Rightarrow> nat list \<Rightarrow> bool" where
  "chain slots head [] \<longleftrightarrow> head = None"
| "chain slots head (i # is) \<longleftrightarrow> (case head of
     None \<Rightarrow> False
   | Some j \<Rightarrow> unat j = i \<and> i < length slots \<and> \<not> is_live (slots ! i) \<and>
       chain slots (slot_next_free (slots ! i)) is)"

definition arena_ok :: "'a arena \<Rightarrow> bool" where
  "arena_ok A \<longleftrightarrow>
     length (ar_slots A) \<le> 2 ^ 32 \<and>
     ar_live_count A = length (filter is_live (ar_slots A)) \<and>
     (\<exists>is. chain (ar_slots A) (ar_free_head A) is \<and> distinct is \<and>
        set is = {i. i < length (ar_slots A) \<and> \<not> is_live (ar_slots A ! i)})"

lemma arena_okI:
  assumes "length (ar_slots A) \<le> 2 ^ 32" "ar_live_count A = length (filter is_live (ar_slots A))"
    and "chain (ar_slots A) (ar_free_head A) is" "distinct is"
    and "set is = {i. i < length (ar_slots A) \<and> \<not> is_live (ar_slots A ! i)}"
  shows "arena_ok A"
  unfolding arena_ok_def using assms by blast

lemma arena_okE:
  assumes "arena_ok A"
  obtains "is" where "length (ar_slots A) \<le> 2 ^ 32" "ar_live_count A = length (filter is_live (ar_slots A))"
    "chain (ar_slots A) (ar_free_head A) is" "distinct is"
    "set is = {i. i < length (ar_slots A) \<and> \<not> is_live (ar_slots A ! i)}"
  using assms unfolding arena_ok_def by blast

lemma chain_None: "chain slots None is \<longleftrightarrow> is = []"
  by (cases "is") auto

lemma chain_update: "i \<notin> set is \<Longrightarrow> chain (slots[i := s]) head is = chain slots head is"
  by (induction slots head "is" rule: chain.induct) (auto split: option.splits)

lemma chain_append: "chain slots head is \<Longrightarrow> chain (slots @ [s]) head is"
  by (induction slots head "is" rule: chain.induct) (auto simp: nth_append split: option.splits)

lemma filter_update_live:
  "i < length slots \<Longrightarrow> \<not> is_live (slots ! i) \<Longrightarrow> is_live s \<Longrightarrow>
   length (filter is_live (slots[i := s])) = Suc (length (filter is_live slots))"
  by (induction slots arbitrary: i) (auto simp: nth_Cons split: nat.splits)

lemma filter_update_free:
  "i < length slots \<Longrightarrow> is_live (slots ! i) \<Longrightarrow> \<not> is_live s \<Longrightarrow>
   Suc (length (filter is_live (slots[i := s]))) = length (filter is_live slots)"
  by (induction slots arbitrary: i) (auto simp: nth_Cons split: nat.splits)

lemma filter_update_same:
  "i < length slots \<Longrightarrow> is_live s = is_live (slots ! i) \<Longrightarrow>
   length (filter is_live (slots[i := s])) = length (filter is_live slots)"
  by (induction slots arbitrary: i) (auto simp: nth_Cons split: nat.splits)

section \<open>The arena is a finite map of handles\<close>

lemma arena_new_ok: "arena_ok arena_new"
  by (simp add: arena_ok_def arena_new_def exI[of _ "[]"])

lemma arena_get_new: "arena_get arena_new = Map.empty"
  by (simp add: arena_get_def arena_new_def fun_eq_iff)

lemma arena_get_Some_iff:
  "arena_get A h = Some v \<longleftrightarrow> unat (ah_index h) < length (ar_slots A) \<and>
     ar_slots A ! unat (ah_index h) = Live (ah_generation h) v"
  by (auto simp: arena_get_def split: slot.splits if_splits)

lemma handle_eq_iff: "(h :: arena_handle) = k \<longleftrightarrow> ah_index h = ah_index k \<and> ah_generation h = ah_generation k"
  by (cases h; cases k) auto

lemma handle_new_sel [simp]: "ah_index (handle_new i g) = i" "ah_generation (handle_new i g) = g"
  by (simp_all add: handle_new_def)

text \<open>Writing the slot of a handle changes the map at that handle only.\<close>

lemma arena_get_write_slot:
  assumes "unat (ah_index h) < length (ar_slots A)"
    and A': "ar_slots A' = (ar_slots A)[unat (ah_index h) := s]"
    and "is_live (ar_slots A ! unat (ah_index h)) \<Longrightarrow> slot_generation (ar_slots A ! unat (ah_index h)) = ah_generation h"
    and "is_live s \<Longrightarrow> slot_generation s = ah_generation h"
  shows "arena_get A' = (arena_get A)(h := (if is_live s then Some (slot_value s) else None))"
proof
  fix k
  show "arena_get A' k = ((arena_get A)(h := (if is_live s then Some (slot_value s) else None))) k"
  proof (cases "ah_index k = ah_index h")
    case True
    then show ?thesis
      using assms by (cases s; cases "ar_slots A ! unat (ah_index h)") (auto simp: arena_get_def handle_eq_iff)
  next
    case False
    then have "unat (ah_index h) \<noteq> unat (ah_index k)" by (metis word_unat_eq_iff)
    with False show ?thesis by (auto simp: arena_get_def A' handle_eq_iff)
  qed
qed

lemma arena_ok_free_head:
  assumes "arena_ok A" "ar_free_head A = Some j"
  obtains g n "is" where "unat j < length (ar_slots A)" "ar_slots A ! unat j = Free g n"
    "chain (ar_slots A) n is" "unat j \<notin> set is" "distinct is"
    "set is = {i. i < length (ar_slots A) \<and> \<not> is_live (ar_slots A ! i)} - {unat j}"
proof -
  obtain js where c: "chain (ar_slots A) (Some j) js" "distinct js"
      "set js = {i. i < length (ar_slots A) \<and> \<not> is_live (ar_slots A ! i)}"
    using assms unfolding arena_ok_def by auto
  then obtain "is" where js: "js = unat j # is" by (cases js) auto
  then obtain g n where "ar_slots A ! unat j = Free g n"
    using c(1) by (cases "ar_slots A ! unat j") auto
  with that[of g n "is"] c js show ?thesis by auto
qed

lemma arena_insert_ok:
  assumes ok: "arena_ok A" and room: "length (ar_slots A) < 2 ^ 32"
  obtains h A' where "arena_insert v A = Some (h, A')" "arena_ok A'"
    "arena_get A h = None" "arena_get A' = (arena_get A)(h \<mapsto> v)"
    "length (ar_slots A') \<le> Suc (length (ar_slots A))"
proof (cases "ar_free_head A")
  case None
  let ?n = "length (ar_slots A)"
  let ?h = "handle_new (of_nat ?n) 0"
  let ?A' = "A\<lparr>ar_slots := ar_slots A @ [Live 0 v], ar_live_count := ar_live_count A + 1\<rparr>"
  have n: "unat (of_nat ?n :: u32) = ?n" using room by (simp add: unat_of_nat)
  have full: "\<forall>i < ?n. is_live (ar_slots A ! i)"
    by (rule arena_okE[OF ok]) (auto simp: None chain_None)
  have "arena_ok ?A'"
  proof (rule arena_okI[of _ "[]"])
    show "ar_live_count ?A' = length (filter is_live (ar_slots ?A'))"
      using ok by (simp add: arena_ok_def)
    show "set [] = {i. i < length (ar_slots ?A') \<and> \<not> is_live (ar_slots ?A' ! i)}"
      using full by (auto simp: nth_append)
  qed (use room None in simp_all)
  moreover have "arena_get ?A' = (arena_get A)(?h \<mapsto> v)"
  proof
    fix k
    show "arena_get ?A' k = ((arena_get A)(?h \<mapsto> v)) k"
    proof (cases "unat (ah_index k) = ?n")
      case True
      then have "ah_index k = of_nat ?n" using n by (metis word_unat_eq_iff)
      with True n show ?thesis by (auto simp: arena_get_def handle_eq_iff)
    next
      case False
      then show ?thesis using n by (auto simp: arena_get_def handle_eq_iff nth_append)
    qed
  qed
  moreover have "arena_get A ?h = None" using n by (simp add: arena_get_def)
  moreover have "arena_insert v A = Some (?h, ?A')" using None by (simp add: arena_insert_def)
  ultimately show ?thesis using that[of ?h ?A'] by simp
next
  case (Some j)
  obtain g n "is" where j: "unat j < length (ar_slots A)" "ar_slots A ! unat j = Free g n"
      "chain (ar_slots A) n is" "unat j \<notin> set is" "distinct is"
      "set is = {i. i < length (ar_slots A) \<and> \<not> is_live (ar_slots A ! i)} - {unat j}"
    by (rule arena_ok_free_head[OF ok Some])
  let ?h = "handle_new j g"
  let ?A' = "A\<lparr>ar_slots := (ar_slots A)[unat j := Live g v], ar_free_head := n,
     ar_live_count := ar_live_count A + 1\<rparr>"
  have "ar_live_count ?A' = length (filter is_live (ar_slots ?A'))"
    using ok j(1,2) filter_update_live[of "unat j" "ar_slots A" "Live g v"] by (simp add: arena_ok_def)
  moreover have "chain (ar_slots ?A') (ar_free_head ?A') is"
    using j(3,4) by (simp add: chain_update)
  moreover have "set is = {i. i < length (ar_slots ?A') \<and> \<not> is_live (ar_slots ?A' ! i)}"
    using j(1,6) by (auto simp: nth_list_update)
  ultimately have "arena_ok ?A'" using ok j(5) unfolding arena_ok_def by auto
  moreover have "arena_get ?A' = (arena_get A)(?h \<mapsto> v)"
    using j(1,2) arena_get_write_slot[of ?h A ?A' "Live g v"] by simp
  moreover have "arena_get A ?h = None" using j by (simp add: arena_get_def)
  moreover have "arena_insert v A = Some (?h, ?A')" using Some j by (simp add: arena_insert_def)
  ultimately show ?thesis using that[of ?h ?A'] by simp
qed

lemma arena_remove_stale: "arena_get A h = None \<Longrightarrow> arena_remove h A = (None, A)"
  by (auto simp: arena_get_def arena_remove_def split: slot.splits if_splits)

lemma arena_remove_live:
  "arena_get A h = Some v \<Longrightarrow> arena_remove h A = (Some v,
     A\<lparr>ar_slots := (ar_slots A)[unat (ah_index h) := Free (ah_generation h + 1) (ar_free_head A)],
       ar_free_head := Some (ah_index h), ar_live_count := ar_live_count A - 1\<rparr>)"
  by (auto simp: arena_get_Some_iff arena_remove_def)

lemma arena_remove_ok:
  assumes ok: "arena_ok A"
  shows "arena_ok (snd (arena_remove h A))" and "fst (arena_remove h A) = arena_get A h"
    and "arena_get (snd (arena_remove h A)) = (arena_get A)(h := None)"
proof -
  let ?i = "unat (ah_index h)" and ?A' = "snd (arena_remove h A)"
  have all: "arena_ok ?A' \<and> fst (arena_remove h A) = arena_get A h \<and> arena_get ?A' = (arena_get A)(h := None)"
  proof (cases "arena_get A h")
    case None
    then show ?thesis using ok by (simp add: arena_remove_stale) (metis fun_upd_triv)
  next
    case (Some v)
    note rem = arena_remove_live[OF Some]
    have i: "?i < length (ar_slots A)" "ar_slots A ! ?i = Live (ah_generation h) v"
      using Some by (simp_all add: arena_get_Some_iff)
    obtain "is" where c: "chain (ar_slots A) (ar_free_head A) is" "distinct is"
        "set is = {i. i < length (ar_slots A) \<and> \<not> is_live (ar_slots A ! i)}"
        and len: "length (ar_slots A) \<le> 2 ^ 32"
      by (rule arena_okE[OF ok])
    then have notin: "?i \<notin> set is" using i by auto
    have ch: "chain (ar_slots ?A') (ar_free_head ?A') (?i # is)"
      using i c(1) by (simp add: rem chain_update[OF notin])
    have lv: "ar_live_count ?A' = length (filter is_live (ar_slots ?A'))"
      using ok i filter_update_free[of ?i "ar_slots A" "Free (ah_generation h + 1) (ar_free_head A)"]
      by (simp add: rem arena_ok_def)
    have st: "set (?i # is) = {i. i < length (ar_slots ?A') \<and> \<not> is_live (ar_slots ?A' ! i)}"
      using i c(3) by (auto simp: rem nth_list_update)
    have "arena_ok ?A'"
      using c(2) notin len by (intro arena_okI[OF _ lv ch _ st]) (simp_all add: rem)
    moreover have "arena_get ?A' = (arena_get A)(h := None)"
      using i(2) arena_get_write_slot[OF i(1), of ?A' "Free (ah_generation h + 1) (ar_free_head A)"]
      by (simp add: rem)
    ultimately show ?thesis using rem Some by simp
  qed
  then show "arena_ok ?A'" "fst (arena_remove h A) = arena_get A h" "arena_get ?A' = (arena_get A)(h := None)"
    by blast+
qed

lemma arena_get_mut_ok:
  assumes ok: "arena_ok A"
  shows "arena_ok (snd (arena_get_mut h write A))" and "fst (arena_get_mut h write A) = arena_get A h"
    and "arena_get (snd (arena_get_mut h write A)) = (arena_get A)(h := map_option write (arena_get A h))"
proof -
  let ?i = "unat (ah_index h)" and ?A' = "snd (arena_get_mut h write A)"
  have all: "arena_ok ?A' \<and> fst (arena_get_mut h write A) = arena_get A h \<and>
      arena_get ?A' = (arena_get A)(h := map_option write (arena_get A h))"
  proof (cases "arena_get A h")
    case None
    then have "arena_get_mut h write A = (None, A)"
      by (auto simp: arena_get_def arena_get_mut_def split: slot.splits if_splits)
    then show ?thesis using ok None by (simp add: fun_upd_idem)
  next
    case (Some v)
    have i: "?i < length (ar_slots A)" "ar_slots A ! ?i = Live (ah_generation h) v"
      using Some by (simp_all add: arena_get_Some_iff)
    then have eq: "arena_get_mut h write A =
        (Some v, A\<lparr>ar_slots := (ar_slots A)[?i := Live (ah_generation h) (write v)]\<rparr>)"
      by (simp add: arena_get_mut_def)
    obtain "is" where c: "chain (ar_slots A) (ar_free_head A) is" "distinct is"
        "set is = {i. i < length (ar_slots A) \<and> \<not> is_live (ar_slots A ! i)}"
        and len: "length (ar_slots A) \<le> 2 ^ 32" "ar_live_count A = length (filter is_live (ar_slots A))"
      by (rule arena_okE[OF ok])
    then have "?i \<notin> set is" using i by auto
    then have "chain (ar_slots ?A') (ar_free_head ?A') is"
      using c(1) by (simp add: eq chain_update)
    moreover have "set is = {i. i < length (ar_slots ?A') \<and> \<not> is_live (ar_slots ?A' ! i)}"
      unfolding c(3) using i by (intro Collect_cong) (auto simp: eq nth_list_update)
    ultimately have "arena_ok ?A'"
      using c(2) len i filter_update_same[of ?i "ar_slots A" "Live (ah_generation h) (write v)"]
      by (intro arena_okI[of ?A' "is"]) (simp_all add: eq)
    moreover have "arena_get ?A' = (arena_get A)(h \<mapsto> write v)"
      using i(2) arena_get_write_slot[OF i(1), of ?A' "Live (ah_generation h) (write v)"]
      by (simp add: eq)
    ultimately show ?thesis using eq Some by simp
  qed
  then show "arena_ok ?A'" "fst (arena_get_mut h write A) = arena_get A h"
      "arena_get ?A' = (arena_get A)(h := map_option write (arena_get A h))" by blast+
qed

text \<open>The reported length is the number of live handles.\<close>

lemma card_live_handles:
  assumes "length (ar_slots A) \<le> 2 ^ 32"
  shows "card (dom (arena_get A)) = length (filter is_live (ar_slots A))"
proof -
  let ?live = "{i. i < length (ar_slots A) \<and> is_live (ar_slots A ! i)}"
  have "bij_betw (\<lambda>h. unat (ah_index h)) (dom (arena_get A)) ?live"
  proof (rule bij_betw_imageI)
    show "inj_on (\<lambda>h. unat (ah_index h)) (dom (arena_get A))"
      by (rule inj_onI) (auto simp: arena_get_Some_iff handle_eq_iff word_unat_eq_iff)
    show "(\<lambda>h. unat (ah_index h)) ` dom (arena_get A) = ?live"
    proof
      show "(\<lambda>h. unat (ah_index h)) ` dom (arena_get A) \<subseteq> ?live"
        by (auto simp: arena_get_Some_iff)
      show "?live \<subseteq> (\<lambda>h. unat (ah_index h)) ` dom (arena_get A)"
      proof
        fix i assume i: "i \<in> ?live"
        let ?h = "handle_new (of_nat i) (slot_generation (ar_slots A ! i))"
        have u: "unat (of_nat i :: u32) = i" using i assms by (auto simp: unat_of_nat)
        have "arena_get A ?h = Some (slot_value (ar_slots A ! i))"
          using i u by (cases "ar_slots A ! i") (auto simp: arena_get_Some_iff)
        with u show "i \<in> (\<lambda>h. unat (ah_index h)) ` dom (arena_get A)"
          by (intro image_eqI[of _ _ ?h]) auto
      qed
    qed
  qed
  then show ?thesis by (simp add: bij_betw_same_card length_filter_conv_card)
qed

lemma arena_len_is_card: "arena_ok A \<Longrightarrow> arena_len A = card (dom (arena_get A))"
  by (simp add: arena_ok_def arena_len_def card_live_handles)

section \<open>Histories of one arena\<close>

lemma length_remove [simp]: "length (ar_slots (snd (arena_remove h A))) = length (ar_slots A)"
  by (auto simp: arena_remove_def split: slot.splits)

lemma length_get_mut [simp]: "length (ar_slots (snd (arena_get_mut h write A))) = length (ar_slots A)"
  by (auto simp: arena_get_mut_def split: slot.splits)

lemma arena_run_ok:
  assumes "arena_ok A" "length (ar_slots A) + length (filter is_insert ops) \<le> 2 ^ 32"
  shows "\<exists>A'. arena_run ops A = Some A' \<and> arena_ok A' \<and>
    length (ar_slots A') \<le> length (ar_slots A) + length (filter is_insert ops)"
  using assms
proof (induction ops A rule: arena_run.induct)
  case (2 v ops A)
  obtain h A' where A': "arena_insert v A = Some (h, A')" "arena_ok A'"
      "length (ar_slots A') \<le> Suc (length (ar_slots A))"
    by (rule arena_insert_ok[OF "2.prems"(1), of v]) (use "2.prems"(2) in auto)
  with "2.IH"[OF A'(1) refl A'(2)] "2.prems"(2) show ?case by auto
qed (auto simp: arena_remove_ok arena_get_mut_ok)

text \<open>C19: the arena refines a finite map from handles to values: after any operations with fewer than
  \<open>2 ^ 32\<close> insertions nothing has panicked, an insertion returns a handle that was not live and
  binds it, a removal returns and unbinds exactly what the handle was bound to, a write through a
  handle changes that binding only, and the length is the number of live handles.\<close>

theorem arena_refines_finite_map:
  assumes "length (filter is_insert ops) < 2 ^ 32"
  shows "\<exists>A. arena_run ops arena_new = Some A \<and> arena_len A = card (dom (arena_get A)) \<and>
    (\<exists>h A'. arena_insert v A = Some (h, A') \<and> arena_get A h = None \<and> arena_get A' = (arena_get A)(h \<mapsto> v)) \<and>
    fst (arena_remove k A) = arena_get A k \<and>
    arena_get (snd (arena_remove k A)) = (arena_get A)(k := None) \<and>
    fst (arena_get_mut k write A) = arena_get A k \<and>
    arena_get (snd (arena_get_mut k write A)) = (arena_get A)(k := map_option write (arena_get A k))"
proof -
  obtain A where run: "arena_run ops arena_new = Some A" and ok: "arena_ok A"
      and len: "length (ar_slots A) \<le> length (filter is_insert ops)"
    using arena_run_ok[OF arena_new_ok, of ops] assms by (auto simp: arena_new_def)
  obtain h A' where "arena_insert v A = Some (h, A')" "arena_get A h = None" "arena_get A' = (arena_get A)(h \<mapsto> v)"
    by (rule arena_insert_ok[OF ok, of v]) (use len assms in auto)
  with run arena_len_is_card[OF ok] arena_remove_ok[OF ok] arena_get_mut_ok[OF ok] show ?thesis
    by (intro exI[of _ A]) blast
qed

text \<open>The generation of a slot counts its removals; only a removal moves it, by one.\<close>

definition generation_at :: "'a arena \<Rightarrow> nat \<Rightarrow> u32" where
  "generation_at A i = slot_generation (ar_slots A ! i)"

lemma insert_generation:
  "arena_insert v A = Some (h, A') \<Longrightarrow> i < length (ar_slots A) \<Longrightarrow>
   generation_at A' i = generation_at A i \<and> i < length (ar_slots A')"
  by (auto simp: arena_insert_def generation_at_def nth_append nth_list_update
      split: option.splits if_splits slot.splits)

lemma get_mut_generation:
  "i < length (ar_slots A) \<Longrightarrow> generation_at (snd (arena_get_mut h write A)) i = generation_at A i"
  by (auto simp: arena_get_mut_def generation_at_def nth_list_update split: slot.splits)

lemma remove_generation:
  "i < length (ar_slots A) \<Longrightarrow>
   generation_at (snd (arena_remove h A)) i \<in> {generation_at A i, generation_at A i + 1}"
  by (auto simp: arena_remove_def generation_at_def nth_list_update split: slot.splits)

lemma run_generation:
  assumes "arena_run ops A = Some A'" "i < length (ar_slots A)"
  shows "i < length (ar_slots A') \<and> (\<exists>r \<le> length (filter is_remove ops). generation_at A' i = generation_at A i + of_nat r)"
  using assms
proof (induction ops A rule: arena_run.induct)
  case (2 v ops A)
  then obtain h B where "arena_insert v A = Some (h, B)" "arena_run ops B = Some A'"
    by (auto split: option.splits)
  with 2 insert_generation[of v A h B i] show ?case by auto
next
  case (3 h ops A)
  then obtain r where r: "i < length (ar_slots A')" "r \<le> length (filter is_remove ops)"
      "generation_at A' i = generation_at (snd (arena_remove h A)) i + of_nat r"
    by auto
  show ?case
  proof (cases "generation_at (snd (arena_remove h A)) i = generation_at A i")
    case True
    with r show ?thesis by (auto intro!: exI[of _ r])
  next
    case False
    then have "generation_at A' i = generation_at A i + of_nat (Suc r)"
      using r(3) remove_generation[OF "3.prems"(2), of h] by (auto simp: algebra_simps)
    with r(1,2) show ?thesis by (auto intro!: exI[of _ "Suc r"])
  qed
qed (auto simp: get_mut_generation)

text \<open>A removed handle stays stale: through any further operations with at most \<open>2 ^ 32 - 2\<close>
  removals, whichever slots they reuse, the handle neither reads nor removes a value.\<close>

theorem removed_handle_stays_stale:
  assumes "arena_get A h = Some v" "arena_run ops (snd (arena_remove h A)) = Some A'"
    and "length (filter is_remove ops) \<le> 2 ^ 32 - 2"
  shows "\<not> arena_contains A' h \<and> arena_remove h A' = (None, A')"
proof -
  let ?i = "unat (ah_index h)"
  have i: "?i < length (ar_slots A)" using assms(1) by (simp add: arena_get_Some_iff)
  have "generation_at (snd (arena_remove h A)) ?i = ah_generation h + 1"
    using i by (simp add: arena_remove_live[OF assms(1)] generation_at_def)
  then obtain r where r: "r \<le> length (filter is_remove ops)"
      "generation_at A' ?i = ah_generation h + 1 + of_nat r"
    using run_generation[OF assms(2), of ?i] i by auto
  have "(1 + of_nat r :: u32) \<noteq> 0"
  proof
    assume "(1 + of_nat r :: u32) = 0"
    then have "(of_nat (Suc r) :: u32) = 0" by (simp add: add.commute)
    then have "(2 :: nat) ^ 32 dvd Suc r" using word_of_nat_eq_0_iff[where 'a = 32, of "Suc r"] by simp
    then have "2 ^ 32 \<le> Suc r" by (rule dvd_imp_le) simp
    with r(1) assms(3) show False by simp
  qed
  then have "generation_at A' ?i \<noteq> ah_generation h" using r(2) by (simp add: add.assoc)
  then have "arena_get A' h = None"
    by (auto simp: arena_get_def generation_at_def split: slot.splits)
  then show ?thesis by (simp add: arena_contains_def arena_remove_stale)
qed

text \<open>After \<open>2 ^ 32\<close> removals of one slot the generation has wrapped around and the first handle is
  valid again, so staleness is not permanent.\<close>

lemma wrapped_generation_revives_handle:
  assumes "ar_slots A = [Live (- 1) v]" "ar_free_head A = None"
  shows "\<exists>A'. arena_insert w (snd (arena_remove (handle_new 0 (- 1)) A)) = Some (handle_new 0 0, A') \<and>
    arena_get A' (handle_new 0 0) = Some w"
  using assms by (auto simp: arena_remove_def arena_insert_def arena_get_def)

definition example_arena :: "nat arena" where
  "example_arena = \<lparr>ar_slots = [Live 0 5], ar_free_head = None, ar_live_count = 1\<rparr>"

theorem arena_refines_finite_map_witness:
  "\<exists>A. arena_run [ArInsert 5, ArRemove (handle_new 0 0), ArInsert (7 :: nat)] arena_new = Some A \<and>
     arena_len A = 1 \<and> fst (arena_remove (handle_new 0 1) A) = Some 7 \<and> fst (arena_remove (handle_new 0 0) A) = None"
proof -
  let ?ops = "[ArInsert 5, ArRemove (handle_new 0 0), ArInsert (7 :: nat)]"
  let ?A = "\<lparr>ar_slots = [Live 1 7], ar_free_head = None, ar_live_count = 1\<rparr> :: nat arena"
  have run: "arena_run ?ops arena_new = Some ?A"
    by (simp add: arena_insert_def arena_remove_def arena_new_def)
  have "fst (arena_remove (handle_new 0 1) ?A) = arena_get ?A (handle_new 0 1)"
    using arena_refines_finite_map[of ?ops 0 "handle_new 0 1" id] run by auto
  with run show ?thesis by (simp add: arena_get_def arena_len_def arena_remove_def)
qed

theorem removed_handle_stays_stale_witness:
  "\<exists>A'. arena_run [ArInsert 7] (snd (arena_remove (handle_new 0 0) example_arena)) = Some A' \<and>
     \<not> arena_contains A' (handle_new 0 0) \<and> arena_get A' (handle_new 0 1) = Some 7"
proof -
  let ?A = "\<lparr>ar_slots = [Live 1 7], ar_free_head = None, ar_live_count = 1\<rparr> :: nat arena"
  have live: "arena_get example_arena (handle_new 0 0) = Some 5"
    by (simp add: arena_get_def example_arena_def)
  have run: "arena_run [ArInsert 7] (snd (arena_remove (handle_new 0 0) example_arena)) = Some ?A"
    by (simp add: arena_insert_def arena_remove_def example_arena_def)
  from removed_handle_stays_stale[OF live run] run show ?thesis by (simp add: arena_get_def)
qed

end
