(* ===== verification/Intervallum.thy ===== *)
theory Intervallum
  imports Main
begin

text \<open>
  The numeric intervals of \<open>src/intervallum.rs\<close>: containment, clamping, the directed walks and the
  set operations. The trait \<open>IntervallumNumeric\<close> is implemented for the sized integers only; a value
  of such a type is an integer between the bounds of the type, and the trait's operations are written
  out over them (wrapping as in a release build). Every loop is a partial function, \<open>None\<close> when it
  does not end.
\<close>

section \<open>Sized integers\<close>

datatype int_ty = Signed nat | Unsigned nat

fun ty_min :: "int_ty \<Rightarrow> int" where
  "ty_min (Signed w) = - (2 ^ (w - 1))"
| "ty_min (Unsigned w) = 0"

fun ty_max :: "int_ty \<Rightarrow> int" where
  "ty_max (Signed w) = 2 ^ (w - 1) - 1"
| "ty_max (Unsigned w) = 2 ^ w - 1"

definition in_ty :: "int_ty \<Rightarrow> int \<Rightarrow> bool" where
  "in_ty t x \<longleftrightarrow> ty_min t \<le> x \<and> x \<le> ty_max t"

definition ty_wrap :: "int_ty \<Rightarrow> int \<Rightarrow> int" where
  "ty_wrap t x = (x - ty_min t) mod (ty_max t - ty_min t + 1) + ty_min t"

definition ty_saturate :: "int_ty \<Rightarrow> int \<Rightarrow> int" where
  "ty_saturate t x = max (ty_min t) (min (ty_max t) x)"

definition sat_add :: "int_ty \<Rightarrow> int \<Rightarrow> int \<Rightarrow> int" where
  "sat_add t x y = ty_saturate t (x + y)"

definition sat_sub :: "int_ty \<Rightarrow> int \<Rightarrow> int \<Rightarrow> int" where
  "sat_sub t x y = ty_saturate t (x - y)"

definition walk_ascend :: "int_ty \<Rightarrow> int \<Rightarrow> int" where
  "walk_ascend t x = ty_wrap t (x + 1)"

definition walk_descend :: "int_ty \<Rightarrow> int \<Rightarrow> int" where
  "walk_descend t x = ty_wrap t (x - 1)"

definition to_i64 :: "int \<Rightarrow> int" where
  "to_i64 x = ty_wrap (Signed 64) x"

section \<open>Intervals\<close>

datatype intervallum_kind = Exclusive | Inclusive

record intervallum =
  iv_initium :: int
  iv_finis :: int
  iv_kind :: intervallum_kind

definition iv_exclusive :: "int \<Rightarrow> int \<Rightarrow> intervallum" where
  "iv_exclusive i f = \<lparr>iv_initium = i, iv_finis = f, iv_kind = Exclusive\<rparr>"

definition iv_inclusive :: "int \<Rightarrow> int \<Rightarrow> intervallum" where
  "iv_inclusive i f = \<lparr>iv_initium = i, iv_finis = f, iv_kind = Inclusive\<rparr>"

definition continet :: "intervallum \<Rightarrow> int \<Rightarrow> bool" where
  "continet I x =
     (let ascending = iv_initium I \<le> iv_finis I in
      case iv_kind I of
        Exclusive \<Rightarrow>
          if ascending then x \<ge> iv_initium I \<and> x < iv_finis I
          else x \<le> iv_initium I \<and> x > iv_finis I
      | Inclusive \<Rightarrow>
          if ascending then x \<ge> iv_initium I \<and> x \<le> iv_finis I
          else x \<le> iv_initium I \<and> x \<ge> iv_finis I)"

definition max_bound :: "int \<Rightarrow> int \<Rightarrow> int" where
  "max_bound a b = (if a \<ge> b then a else b)"

definition min_bound :: "int \<Rightarrow> int \<Rightarrow> int" where
  "min_bound a b = (if a \<le> b then a else b)"

definition coercere :: "int_ty \<Rightarrow> intervallum \<Rightarrow> int \<Rightarrow> int" where
  "coercere t I value =
     (if continet I value then value
      else let ascending = iv_initium I \<le> iv_finis I;
               lo = min_bound (iv_initium I) (iv_finis I);
               hi = max_bound (iv_initium I) (iv_finis I);
               lo_valid = (case iv_kind I of
                  Exclusive \<Rightarrow> if \<not> ascending then sat_add t lo 1 else lo
                | _ \<Rightarrow> lo);
               hi_valid = (case iv_kind I of
                  Exclusive \<Rightarrow> if ascending then sat_sub t hi 1 else hi
                | _ \<Rightarrow> hi)
           in if value < lo_valid then lo_valid
              else if value > hi_valid then hi_valid
              else value)"

definition coercere_intervallum :: "int_ty \<Rightarrow> intervallum \<Rightarrow> intervallum \<Rightarrow> intervallum" where
  "coercere_intervallum t I target =
     \<lparr>iv_initium = coercere t target (iv_initium I),
      iv_finis = coercere t target (iv_finis I),
      iv_kind = iv_kind target\<rparr>"

partial_function (option) ad_lista_up :: "int_ty \<Rightarrow> intervallum \<Rightarrow> int \<Rightarrow> int list \<Rightarrow> int list option" where
  "ad_lista_up t I cursor out =
     (if (case iv_kind I of Exclusive \<Rightarrow> cursor < iv_finis I | Inclusive \<Rightarrow> cursor \<le> iv_finis I)
      then if cursor \<ge> ty_max t then Some (out @ [cursor])
           else ad_lista_up t I (walk_ascend t cursor) (out @ [cursor])
      else Some out)"

partial_function (option) ad_lista_down :: "int_ty \<Rightarrow> intervallum \<Rightarrow> int \<Rightarrow> int list \<Rightarrow> int list option" where
  "ad_lista_down t I cursor out =
     (if (case iv_kind I of Exclusive \<Rightarrow> cursor > iv_finis I | Inclusive \<Rightarrow> cursor \<ge> iv_finis I)
      then if cursor \<le> ty_min t then Some (out @ [cursor])
           else ad_lista_down t I (walk_descend t cursor) (out @ [cursor])
      else Some out)"

definition ad_lista :: "int_ty \<Rightarrow> intervallum \<Rightarrow> int list option" where
  "ad_lista t I =
     (if iv_initium I \<le> iv_finis I then ad_lista_up t I (iv_initium I) []
      else ad_lista_down t I (iv_initium I) [])"

definition longitudo :: "int_ty \<Rightarrow> intervallum \<Rightarrow> int" where
  "longitudo t I =
     (let span = (if iv_initium I \<le> iv_finis I then sat_sub t (iv_finis I) (iv_initium I)
                  else sat_sub t (iv_initium I) (iv_finis I));
          span_i64 = to_i64 span
      in case iv_kind I of Exclusive \<Rightarrow> span_i64 | Inclusive \<Rightarrow> sat_add (Signed 64) span_i64 1)"

text \<open>The iterator of \<open>ambula\<close>.\<close>

record intervallum_walk =
  wk_interval :: intervallum
  wk_cursor :: int
  wk_exhausted :: bool

definition ambula :: "intervallum \<Rightarrow> intervallum_walk" where
  "ambula I = \<lparr>wk_interval = I, wk_cursor = iv_initium I, wk_exhausted = False\<rparr>"

definition walk_next :: "int_ty \<Rightarrow> intervallum_walk \<Rightarrow> int option \<times> intervallum_walk" where
  "walk_next t w =
     (if wk_exhausted w then (None, w)
      else let I = wk_interval w;
               ascending = iv_initium I \<le> iv_finis I;
               finished =
                 (if ascending
                  then (case iv_kind I of Exclusive \<Rightarrow> wk_cursor w \<ge> iv_finis I | Inclusive \<Rightarrow> wk_cursor w > iv_finis I)
                  else (case iv_kind I of Exclusive \<Rightarrow> wk_cursor w \<le> iv_finis I | Inclusive \<Rightarrow> wk_cursor w < iv_finis I))
           in if finished then (None, w\<lparr>wk_exhausted := True\<rparr>)
              else let current = wk_cursor w in
                if ascending
                then if current \<ge> ty_max t \<or> current \<ge> iv_finis I then (Some current, w\<lparr>wk_exhausted := True\<rparr>)
                     else (Some current, w\<lparr>wk_cursor := walk_ascend t (wk_cursor w)\<rparr>)
                else if current \<le> ty_min t \<or> current \<le> iv_finis I then (Some current, w\<lparr>wk_exhausted := True\<rparr>)
                     else (Some current, w\<lparr>wk_cursor := walk_descend t (wk_cursor w)\<rparr>))"

definition walk_size_hint :: "int_ty \<Rightarrow> intervallum_walk \<Rightarrow> int \<times> int option" where
  "walk_size_hint t w = (let len = longitudo t (wk_interval w) in
     if len \<le> 0 then (0, Some 0) else (0, Some len))"

section \<open>Set operations\<close>

text \<open>The loops of \<open>inter\<close>, which stop at the other bound, and of \<open>union\<close>, which do not.\<close>

partial_function (option) first_common :: "int_ty \<Rightarrow> intervallum \<Rightarrow> intervallum \<Rightarrow> int \<Rightarrow> int \<Rightarrow> int option option" where
  "first_common t a b hi new_lo =
     (if continet a new_lo \<and> continet b new_lo then Some (Some new_lo)
      else if new_lo \<ge> hi then Some None
      else first_common t a b hi (sat_add t new_lo 1))"

partial_function (option) last_common :: "int_ty \<Rightarrow> intervallum \<Rightarrow> intervallum \<Rightarrow> int \<Rightarrow> int \<Rightarrow> int option option" where
  "last_common t a b new_lo new_hi =
     (if continet a new_hi \<and> continet b new_hi then Some (Some new_hi)
      else if new_hi \<le> new_lo then Some None
      else last_common t a b new_lo (sat_sub t new_hi 1))"

partial_function (option) first_either :: "int_ty \<Rightarrow> intervallum \<Rightarrow> intervallum \<Rightarrow> int \<Rightarrow> int option" where
  "first_either t a b new_lo =
     (if continet a new_lo \<or> continet b new_lo then Some new_lo
      else first_either t a b (sat_add t new_lo 1))"

partial_function (option) last_either :: "int_ty \<Rightarrow> intervallum \<Rightarrow> intervallum \<Rightarrow> int \<Rightarrow> int option" where
  "last_either t a b new_hi =
     (if continet a new_hi \<or> continet b new_hi then Some new_hi
      else last_either t a b (sat_sub t new_hi 1))"

definition directed :: "intervallum \<Rightarrow> int \<Rightarrow> int \<Rightarrow> intervallum" where
  "directed left new_lo new_hi =
     (let left_descending = iv_initium left > iv_finis left;
          (initium, finis) = (if left_descending then (new_hi, new_lo) else (new_lo, new_hi))
      in \<lparr>iv_initium = initium, iv_finis = finis, iv_kind = Inclusive\<rparr>)"

definition iv_inter :: "int_ty \<Rightarrow> intervallum \<Rightarrow> intervallum \<Rightarrow> intervallum option option" where
  "iv_inter t a b =
     (let lo_a = min_bound (iv_initium a) (iv_finis a);
          hi_a = max_bound (iv_initium a) (iv_finis a);
          lo_b = min_bound (iv_initium b) (iv_finis b);
          hi_b = max_bound (iv_initium b) (iv_finis b);
          lo = max_bound lo_a lo_b;
          hi = min_bound hi_a hi_b
      in if lo > hi then Some None
         else Option.bind (first_common t a b hi lo) (\<lambda>first. case first of
           None \<Rightarrow> Some None
         | Some new_lo \<Rightarrow> Option.bind (last_common t a b new_lo hi) (\<lambda>last. case last of
             None \<Rightarrow> Some None
           | Some new_hi \<Rightarrow> Some (Some (directed a new_lo new_hi)))))"

definition touches :: "int_ty \<Rightarrow> intervallum \<Rightarrow> intervallum \<Rightarrow> bool" where
  "touches t a b =
     (if iv_finis a = iv_initium b \<and> (continet a (iv_initium b) \<or> continet b (iv_finis a)) then True
      else if iv_finis b = iv_initium a \<and> (continet b (iv_initium a) \<or> continet a (iv_finis b)) then True
      else let lo_a = min_bound (iv_initium a) (iv_finis a);
               hi_a = max_bound (iv_initium a) (iv_finis a);
               lo_b = min_bound (iv_initium b) (iv_finis b);
               hi_b = max_bound (iv_initium b) (iv_finis b);
               actual_hi_a = (if continet a hi_a then hi_a else sat_sub t hi_a 1);
               actual_lo_b = (if continet b lo_b then lo_b else sat_add t lo_b 1)
           in if sat_add t actual_hi_a 1 = actual_lo_b then True
              else let actual_hi_b = (if continet b hi_b then hi_b else sat_sub t hi_b 1);
                       actual_lo_a = (if continet a lo_a then lo_a else sat_add t lo_a 1)
                   in sat_add t actual_hi_b 1 = actual_lo_a)"

definition iv_union :: "int_ty \<Rightarrow> intervallum \<Rightarrow> intervallum \<Rightarrow> intervallum option option" where
  "iv_union t a b =
     Option.bind (iv_inter t a b) (\<lambda>common.
       if common = None \<and> \<not> touches t a b then Some None
       else let lo_a = min_bound (iv_initium a) (iv_finis a);
                hi_a = max_bound (iv_initium a) (iv_finis a);
                lo_b = min_bound (iv_initium b) (iv_finis b);
                hi_b = max_bound (iv_initium b) (iv_finis b);
                lo = min_bound lo_a lo_b;
                hi = max_bound hi_a hi_b
            in Option.bind (first_either t a b lo) (\<lambda>new_lo.
               Option.bind (last_either t a b hi) (\<lambda>new_hi.
               Some (Some (directed a new_lo new_hi)))))"

section \<open>The points of an interval\<close>

definition points :: "intervallum \<Rightarrow> int set" where
  "points I = {x. continet I x}"

text \<open>An interval whose bounds are values of the type.\<close>

definition iv_ok :: "int_ty \<Rightarrow> intervallum \<Rightarrow> bool" where
  "iv_ok t I \<longleftrightarrow> in_ty t (iv_initium I) \<and> in_ty t (iv_finis I)"

definition least_point :: "intervallum \<Rightarrow> int" where
  "least_point I = (if iv_initium I \<le> iv_finis I then iv_initium I
     else case iv_kind I of Exclusive \<Rightarrow> iv_finis I + 1 | Inclusive \<Rightarrow> iv_finis I)"

definition greatest_point :: "intervallum \<Rightarrow> int" where
  "greatest_point I = (if iv_initium I \<le> iv_finis I
     then case iv_kind I of Exclusive \<Rightarrow> iv_finis I - 1 | Inclusive \<Rightarrow> iv_finis I
     else iv_initium I)"

named_theorems bound_simps \<open>bounds of intervals and of types written out\<close>

lemmas [bound_simps] = least_point_def greatest_point_def min_bound_def max_bound_def
  sat_add_def sat_sub_def ty_saturate_def in_ty_def iv_ok_def

lemma continet_iff: "continet I x \<longleftrightarrow> least_point I \<le> x \<and> x \<le> greatest_point I"
  by (auto simp: continet_def least_point_def greatest_point_def Let_def split: intervallum_kind.split)

lemma points_eq: "points I = {least_point I..greatest_point I}"
  by (auto simp: points_def continet_iff)

lemma points_within_bounds:
  "min_bound (iv_initium I) (iv_finis I) \<le> least_point I"
  "greatest_point I \<le> max_bound (iv_initium I) (iv_finis I)"
  by (auto simp: bound_simps split: intervallum_kind.split)

lemma point_in_ty: "iv_ok t I \<Longrightarrow> continet I x \<Longrightarrow> in_ty t x"
  by (auto simp: bound_simps continet_iff split: if_splits intervallum_kind.splits)

lemma sat_add_1: "in_ty t x \<Longrightarrow> x < ty_max t \<Longrightarrow> sat_add t x 1 = x + 1"
  by (simp add: bound_simps)

lemma sat_sub_1: "in_ty t x \<Longrightarrow> ty_min t < x \<Longrightarrow> sat_sub t x 1 = x - 1"
  by (simp add: bound_simps)

lemma ty_wrap_id: "in_ty t x \<Longrightarrow> ty_wrap t x = x"
  by (simp add: ty_wrap_def in_ty_def mod_pos_pos_trivial)

lemma walk_ascend_eq: "in_ty t x \<Longrightarrow> x < ty_max t \<Longrightarrow> walk_ascend t x = x + 1"
  by (simp add: walk_ascend_def ty_wrap_id in_ty_def)

lemma walk_descend_eq: "in_ty t x \<Longrightarrow> ty_min t < x \<Longrightarrow> walk_descend t x = x - 1"
  by (simp add: walk_descend_def ty_wrap_id in_ty_def)

section \<open>Clamping and walking\<close>

lemma coercere_eq:
  assumes "iv_ok t I" "points I \<noteq> {}"
  shows "coercere t I x = max (least_point I) (min (greatest_point I) x)"
  using assms unfolding coercere_def continet_iff points_eq
  by (cases "iv_kind I") (auto simp: bound_simps Let_def)

definition points_list :: "intervallum \<Rightarrow> int list" where
  "points_list I = (if iv_initium I \<le> iv_finis I then [least_point I..greatest_point I]
     else rev [least_point I..greatest_point I])"

lemma set_points_list: "set (points_list I) = points I"
  by (auto simp: points_list_def points_eq)

lemma upto_first: "(i :: int) \<le> j \<Longrightarrow> [i..j] = i # [i + 1..j]"
  by (rule upto_rec1)

lemma rev_upto_first: "(i :: int) \<le> j \<Longrightarrow> rev [i..j] = j # rev [i..j - 1]"
  by (simp add: upto_rec2)

lemma ad_lista_up_eq:
  assumes "in_ty t cursor" "iv_ok t I" "iv_initium I \<le> iv_finis I"
  shows "ad_lista_up t I cursor out = Some (out @ [cursor..greatest_point I])"
  using assms(1)
proof (induction "nat (greatest_point I + 1 - cursor)" arbitrary: cursor out rule: less_induct)
  case less
  have more: "(case iv_kind I of Exclusive \<Rightarrow> cursor < iv_finis I | Inclusive \<Rightarrow> cursor \<le> iv_finis I)
      \<longleftrightarrow> cursor \<le> greatest_point I"
    using assms(3) by (auto simp: bound_simps split: intervallum_kind.split)
  have top: "greatest_point I \<le> ty_max t"
    using assms(2,3) by (auto simp: bound_simps split: intervallum_kind.split)
  show ?case
  proof (cases "cursor \<le> greatest_point I \<and> cursor < ty_max t")
    case True
    then have "walk_ascend t cursor = cursor + 1" "in_ty t (cursor + 1)"
      using less.prems walk_ascend_eq[of t cursor] by (auto simp: in_ty_def)
    then show ?thesis
      using True less.hyps[of "cursor + 1" "out @ [cursor]"]
      by (subst ad_lista_up.simps) (simp add: more upto_first)
  next
    case False
    then consider "greatest_point I < cursor" | "cursor = greatest_point I" "cursor = ty_max t"
      using top less.prems by (cases "greatest_point I < ty_max t") (auto simp: in_ty_def)
    then show ?thesis by cases (subst ad_lista_up.simps; simp add: more)+
  qed
qed

lemma ad_lista_down_eq:
  assumes "in_ty t cursor" "iv_ok t I" "\<not> iv_initium I \<le> iv_finis I"
  shows "ad_lista_down t I cursor out = Some (out @ rev [least_point I..cursor])"
  using assms(1)
proof (induction "nat (cursor + 1 - least_point I)" arbitrary: cursor out rule: less_induct)
  case less
  have more: "(case iv_kind I of Exclusive \<Rightarrow> cursor > iv_finis I | Inclusive \<Rightarrow> cursor \<ge> iv_finis I)
      \<longleftrightarrow> least_point I \<le> cursor"
    using assms(3) by (auto simp: bound_simps split: intervallum_kind.split)
  have bot: "ty_min t \<le> least_point I"
    using assms(2,3) by (auto simp: bound_simps split: intervallum_kind.split)
  show ?case
  proof (cases "least_point I \<le> cursor \<and> ty_min t < cursor")
    case True
    then have "walk_descend t cursor = cursor - 1" "in_ty t (cursor - 1)"
      using less.prems walk_descend_eq[of t cursor] by (auto simp: in_ty_def)
    then show ?thesis
      using True less.hyps[of "cursor - 1" "out @ [cursor]"]
      by (subst ad_lista_down.simps) (simp add: more rev_upto_first)
  next
    case False
    then consider "cursor < least_point I" | "cursor = least_point I" "cursor = ty_min t"
      using bot less.prems by (cases "ty_min t < least_point I") (auto simp: in_ty_def)
    then show ?thesis by cases (subst ad_lista_down.simps; simp add: more)+
  qed
qed

lemma ad_lista_eq:
  assumes "iv_ok t I"
  shows "ad_lista t I = Some (points_list I)"
proof -
  have "in_ty t (iv_initium I)" using assms by (simp add: iv_ok_def)
  then show ?thesis
    using ad_lista_up_eq[OF _ assms] ad_lista_down_eq[OF _ assms]
    by (simp add: ad_lista_def points_list_def) (simp add: least_point_def greatest_point_def)
qed

text \<open>The first \<open>n\<close> answers of an iterator.\<close>

fun walk_answers :: "int_ty \<Rightarrow> nat \<Rightarrow> intervallum_walk \<Rightarrow> int option list" where
  "walk_answers t 0 w = []"
| "walk_answers t (Suc n) w = (case walk_next t w of (x, w') \<Rightarrow> x # walk_answers t n w')"

lemma walk_answers_exhausted: "wk_exhausted w \<Longrightarrow> walk_answers t n w = replicate n None"
  by (induction n) (auto simp: walk_next_def)

text \<open>What is left of a walk.\<close>

definition walk_rest :: "intervallum_walk \<Rightarrow> int list" where
  "walk_rest w = (let I = wk_interval w in
     if wk_exhausted w then []
     else if iv_initium I \<le> iv_finis I then [wk_cursor w..greatest_point I]
     else rev [least_point I..wk_cursor w])"

lemma walk_next_finished:
  "\<not> wk_exhausted w \<Longrightarrow> walk_rest w = [] \<Longrightarrow> walk_next t w = (None, w\<lparr>wk_exhausted := True\<rparr>)"
  by (cases "iv_kind (wk_interval w)")
    (auto simp: walk_next_def walk_rest_def Let_def least_point_def greatest_point_def split: if_splits)

lemma walk_next_up:
  assumes "iv_ok t (wk_interval w)" "in_ty t (wk_cursor w)" "\<not> wk_exhausted w"
    and "iv_initium (wk_interval w) \<le> iv_finis (wk_interval w)" "wk_cursor w \<le> greatest_point (wk_interval w)"
  shows "\<exists>w'. walk_next t w = (Some (wk_cursor w), w') \<and> wk_interval w' = wk_interval w \<and>
    in_ty t (wk_cursor w') \<and> walk_rest w' = [wk_cursor w + 1..greatest_point (wk_interval w)]"
proof -
  let ?I = "wk_interval w" and ?c = "wk_cursor w"
  have f: "greatest_point ?I \<le> iv_finis ?I" "iv_finis ?I \<le> ty_max t"
    using assms by (auto simp: bound_simps split: intervallum_kind.split)
  have "walk_next t w = (Some ?c, if ?c \<ge> ty_max t \<or> ?c \<ge> iv_finis ?I then w\<lparr>wk_exhausted := True\<rparr>
      else w\<lparr>wk_cursor := walk_ascend t ?c\<rparr>)"
    using assms(3-5) by (cases "iv_kind ?I") (auto simp: walk_next_def Let_def greatest_point_def)
  moreover have "walk_ascend t ?c = ?c + 1 \<and> in_ty t (?c + 1)" if "?c < ty_max t"
    using assms(2) that walk_ascend_eq[of t ?c] by (auto simp: in_ty_def)
  ultimately show ?thesis using assms f by (auto simp: walk_rest_def Let_def)
qed

lemma walk_next_down:
  assumes "iv_ok t (wk_interval w)" "in_ty t (wk_cursor w)" "\<not> wk_exhausted w"
    and "\<not> iv_initium (wk_interval w) \<le> iv_finis (wk_interval w)" "least_point (wk_interval w) \<le> wk_cursor w"
  shows "\<exists>w'. walk_next t w = (Some (wk_cursor w), w') \<and> wk_interval w' = wk_interval w \<and>
    in_ty t (wk_cursor w') \<and> walk_rest w' = rev [least_point (wk_interval w)..wk_cursor w - 1]"
proof -
  let ?I = "wk_interval w" and ?c = "wk_cursor w"
  have f: "iv_finis ?I \<le> least_point ?I" "ty_min t \<le> iv_finis ?I"
    using assms by (auto simp: bound_simps split: intervallum_kind.split)
  have "walk_next t w = (Some ?c, if ?c \<le> ty_min t \<or> ?c \<le> iv_finis ?I then w\<lparr>wk_exhausted := True\<rparr>
      else w\<lparr>wk_cursor := walk_descend t ?c\<rparr>)"
    using assms(3-5) by (cases "iv_kind ?I") (auto simp: walk_next_def Let_def least_point_def)
  moreover have "walk_descend t ?c = ?c - 1 \<and> in_ty t (?c - 1)" if "ty_min t < ?c"
    using assms(2) that walk_descend_eq[of t ?c] by (auto simp: in_ty_def)
  ultimately show ?thesis using assms f by (auto simp: walk_rest_def Let_def)
qed

lemma walk_next_rest:
  assumes "iv_ok t (wk_interval w)" "in_ty t (wk_cursor w)"
  shows "case walk_rest w of
      [] \<Rightarrow> \<exists>w'. walk_next t w = (None, w') \<and> wk_exhausted w'
    | x # xs \<Rightarrow> \<exists>w'. walk_next t w = (Some x, w') \<and> walk_rest w' = xs \<and>
        iv_ok t (wk_interval w') \<and> in_ty t (wk_cursor w')"
proof (cases "walk_rest w")
  case Nil
  then show ?thesis
    using walk_next_finished[of w t] by (cases "wk_exhausted w") (auto simp: walk_next_def)
next
  case (Cons x xs)
  then have "\<not> wk_exhausted w" by (auto simp: walk_rest_def Let_def)
  note live = this
  show ?thesis
  proof (cases "iv_initium (wk_interval w) \<le> iv_finis (wk_interval w)")
    case True
    then have rest: "walk_rest w = [wk_cursor w..greatest_point (wk_interval w)]"
      using live by (simp add: walk_rest_def)
    then have le: "wk_cursor w \<le> greatest_point (wk_interval w)"
      using Cons by (cases "wk_cursor w \<le> greatest_point (wk_interval w)") auto
    from walk_next_up[OF assms live True le] assms(1) show ?thesis
      unfolding rest upto_first[OF le] by auto
  next
    case False
    then have rest: "walk_rest w = rev [least_point (wk_interval w)..wk_cursor w]"
      using live by (simp add: walk_rest_def)
    then have le: "least_point (wk_interval w) \<le> wk_cursor w"
      using Cons by (cases "least_point (wk_interval w) \<le> wk_cursor w") auto
    from walk_next_down[OF assms live False le] assms(1) show ?thesis
      unfolding rest rev_upto_first[OF le] by auto
  qed
qed

lemma walk_answers_rest:
  assumes "iv_ok t (wk_interval w)" "in_ty t (wk_cursor w)"
  shows "walk_answers t n w = take n (map Some (walk_rest w) @ replicate n None)"
  using assms
proof (induction n arbitrary: w)
  case (Suc n)
  show ?case
  proof (cases "walk_rest w")
    case Nil
    then obtain w' where "walk_next t w = (None, w')" "wk_exhausted w'"
      using walk_next_rest[OF Suc.prems] by auto
    with Nil show ?thesis by (simp add: walk_answers_exhausted)
  next
    case (Cons x xs)
    then obtain w' where "walk_next t w = (Some x, w')" "walk_rest w' = xs"
        "iv_ok t (wk_interval w')" "in_ty t (wk_cursor w')"
      using walk_next_rest[OF Suc.prems] by auto
    with Cons Suc.IH[of w'] show ?thesis by (simp add: replicate_append_same[symmetric])
  qed
qed simp

lemma ambula_rest: "walk_rest (ambula I) = points_list I"
  by (auto simp: walk_rest_def ambula_def points_list_def Let_def least_point_def greatest_point_def)

lemma longitudo_eq:
  assumes "iv_ok t I" "\<bar>iv_finis I - iv_initium I\<bar> \<le> ty_max t" "\<bar>iv_finis I - iv_initium I\<bar> < 2 ^ 63 - 1"
  shows "longitudo t I = int (length (points_list I))"
proof -
  have "0 \<le> ty_max t" and "ty_min t \<le> 0" by (cases t; simp)+
  with assms show ?thesis
    by (auto simp: longitudo_def to_i64_def ty_wrap_def bound_simps points_list_def Let_def split: intervallum_kind.split)
qed

text \<open>A span that the type cannot hold saturates: the interval of all signed bytes has 256 values, its
  reported length is 128, and the iterator's upper bound is 128 as well.\<close>

lemma longitudo_saturates:
  "longitudo (Signed 8) (iv_inclusive (-128) 127) = 128"
  "length (points_list (iv_inclusive (-128) 127)) = 256"
  "walk_size_hint (Signed 8) (ambula (iv_inclusive (-128) 127)) = (0, Some 128)"
proof -
  show l: "longitudo (Signed 8) (iv_inclusive (-128) 127) = 128"
    by (simp add: longitudo_def iv_inclusive_def to_i64_def ty_wrap_def bound_simps)
  show "length (points_list (iv_inclusive (-128) 127)) = 256"
    by (simp add: points_list_def iv_inclusive_def bound_simps)
  show "walk_size_hint (Signed 8) (ambula (iv_inclusive (-128) 127)) = (0, Some 128)"
    using l by (simp add: walk_size_hint_def ambula_def)
qed

section \<open>Intersection and union are those of the point sets\<close>

lemma first_common_eq:
  assumes "in_ty t hi" "\<And>y. continet a y \<and> continet b y \<longleftrightarrow> L \<le> y \<and> y \<le> H" "H \<le> hi"
    and "in_ty t x" "x \<le> hi" "x \<le> L \<or> H < L"
  shows "first_common t a b hi x = Some (if L \<le> H then Some L else None)"
  using assms(4-6)
proof (induction "nat (hi - x)" arbitrary: x rule: less_induct)
  case less
  consider "L \<le> x \<and> x \<le> H" | "\<not> (L \<le> x \<and> x \<le> H)" "hi \<le> x" | "\<not> (L \<le> x \<and> x \<le> H)" "x < hi" by linarith
  then show ?case
  proof cases
    case 3
    then have "sat_add t x 1 = x + 1" "in_ty t (x + 1)"
      using less.prems assms(1) sat_add_1[of t x] by (auto simp: in_ty_def)
    with 3 show ?thesis
      using less.hyps[of "x + 1"] less.prems by (subst first_common.simps) (auto simp: assms(2))
  qed (use less.prems assms(3) in \<open>subst first_common.simps; auto simp: assms(2)\<close>)+
qed

lemma last_common_eq:
  assumes "in_ty t lo" "\<And>y. continet a y \<and> continet b y \<longleftrightarrow> L \<le> y \<and> y \<le> H" "lo \<le> L"
    and "in_ty t x" "lo \<le> x" "H \<le> x \<or> H < L"
  shows "last_common t a b lo x = Some (if L \<le> H then Some H else None)"
  using assms(4-6)
proof (induction "nat (x - lo)" arbitrary: x rule: less_induct)
  case less
  consider "L \<le> x \<and> x \<le> H" | "\<not> (L \<le> x \<and> x \<le> H)" "x \<le> lo" | "\<not> (L \<le> x \<and> x \<le> H)" "lo < x" by linarith
  then show ?case
  proof cases
    case 3
    then have "sat_sub t x 1 = x - 1" "in_ty t (x - 1)"
      using less.prems assms(1) sat_sub_1[of t x] by (auto simp: in_ty_def)
    with 3 show ?thesis
      using less.hyps[of "x - 1"] less.prems by (subst last_common.simps) (auto simp: assms(2))
  qed (use less.prems assms(3) in \<open>subst last_common.simps; auto simp: assms(2)\<close>)+
qed

lemma first_either_eq:
  assumes "\<And>y. continet a y \<or> continet b y \<longleftrightarrow> i \<le> y \<and> y \<le> j" "i \<le> j" "in_ty t i"
    and "in_ty t x" "x \<le> i"
  shows "first_either t a b x = Some i"
  using assms(4,5)
proof (induction "nat (i - x)" arbitrary: x rule: less_induct)
  case less
  show ?case
  proof (cases "x = i")
    case False
    then have "sat_add t x 1 = x + 1" "in_ty t (x + 1)"
      using less.prems assms(3) sat_add_1[of t x] by (auto simp: in_ty_def)
    with False show ?thesis
      using less.hyps[of "x + 1"] less.prems by (subst first_either.simps) (auto simp: assms(1))
  qed (use assms(2) in \<open>subst first_either.simps; simp add: assms(1)\<close>)
qed

lemma last_either_eq:
  assumes "\<And>y. continet a y \<or> continet b y \<longleftrightarrow> i \<le> y \<and> y \<le> j" "i \<le> j" "in_ty t j"
    and "in_ty t x" "j \<le> x"
  shows "last_either t a b x = Some j"
  using assms(4,5)
proof (induction "nat (x - j)" arbitrary: x rule: less_induct)
  case less
  show ?case
  proof (cases "x = j")
    case False
    then have "sat_sub t x 1 = x - 1" "in_ty t (x - 1)"
      using less.prems assms(3) sat_sub_1[of t x] by (auto simp: in_ty_def)
    with False show ?thesis
      using less.hyps[of "x - 1"] less.prems by (subst last_either.simps) (auto simp: assms(1))
  qed (use assms(2) in \<open>subst last_either.simps; simp add: assms(1)\<close>)
qed

lemma points_directed: "l \<le> h \<Longrightarrow> points (directed a l h) = {l..h}"
  by (auto simp: points_eq directed_def Let_def least_point_def greatest_point_def)

lemma directed_ok: "in_ty t l \<Longrightarrow> in_ty t h \<Longrightarrow> iv_ok t (directed a l h)"
  by (simp add: directed_def Let_def iv_ok_def)

definition common_lo :: "intervallum \<Rightarrow> intervallum \<Rightarrow> int" where
  "common_lo a b = max (least_point a) (least_point b)"

definition common_hi :: "intervallum \<Rightarrow> intervallum \<Rightarrow> int" where
  "common_hi a b = min (greatest_point a) (greatest_point b)"

lemma common_iff: "continet a y \<and> continet b y \<longleftrightarrow> common_lo a b \<le> y \<and> y \<le> common_hi a b"
  by (auto simp: continet_iff common_lo_def common_hi_def)

lemma points_common: "points a \<inter> points b = {common_lo a b..common_hi a b}"
  by (auto simp: points_eq common_lo_def common_hi_def)

lemma iv_inter_eq:
  assumes "iv_ok t a" "iv_ok t b"
  shows "iv_inter t a b = Some (if common_lo a b \<le> common_hi a b
     then Some (directed a (common_lo a b) (common_hi a b)) else None)"
proof -
  define lo where "lo = max_bound (min_bound (iv_initium a) (iv_finis a)) (min_bound (iv_initium b) (iv_finis b))"
  define hi where "hi = min_bound (max_bound (iv_initium a) (iv_finis a)) (max_bound (iv_initium b) (iv_finis b))"
  let ?L = "common_lo a b" and ?H = "common_hi a b"
  have lo: "lo \<le> ?L" and hi: "?H \<le> hi"
    using points_within_bounds[of a] points_within_bounds[of b]
    unfolding lo_def hi_def common_lo_def common_hi_def
    by (auto simp: max_bound_def[of "min_bound _ _"] min_bound_def[of "max_bound _ _"])
  have ty: "in_ty t lo" "in_ty t hi"
    using assms by (auto simp: lo_def hi_def bound_simps)
  show ?thesis
  proof (cases "lo > hi")
    case True
    with lo hi show ?thesis by (simp add: iv_inter_def Let_def lo_def[symmetric] hi_def[symmetric])
  next
    case False
    then have first: "first_common t a b hi lo = Some (if ?L \<le> ?H then Some ?L else None)"
      using first_common_eq[OF ty(2) common_iff hi ty(1)] lo by simp
    have "last_common t a b ?L hi = Some (Some ?H)" if "?L \<le> ?H"
    proof -
      have "in_ty t ?L" using that ty lo hi by (auto simp: in_ty_def)
      from last_common_eq[OF this common_iff order_refl ty(2)] that hi show ?thesis by simp
    qed
    with first False show ?thesis
      by (simp add: iv_inter_def Let_def lo_def[symmetric] hi_def[symmetric])
  qed
qed

text \<open>Two nonempty intervals leave no gap when neither starts later than right after the other's end.\<close>

definition near :: "intervallum \<Rightarrow> intervallum \<Rightarrow> bool" where
  "near a b \<longleftrightarrow> least_point a \<le> greatest_point b + 1 \<and> least_point b \<le> greatest_point a + 1"

definition contiguous :: "int set \<Rightarrow> bool" where
  "contiguous S \<longleftrightarrow> (\<exists>i j. S = {i..j})"

lemma points_nonempty: "points I \<noteq> {} \<longleftrightarrow> least_point I \<le> greatest_point I"
  by (simp add: points_eq)

lemma near_union:
  assumes "near a b" "points a \<noteq> {}" "points b \<noteq> {}"
  shows "points a \<union> points b = {min (least_point a) (least_point b)..max (greatest_point a) (greatest_point b)}"
  using assms unfolding points_nonempty by (auto simp: points_eq near_def)

lemma contiguous_union_near:
  assumes "contiguous (points a \<union> points b)" "points a \<noteq> {}" "points b \<noteq> {}"
  shows "near a b"
proof -
  have ne: "least_point a \<le> greatest_point a" "least_point b \<le> greatest_point b"
    using assms(2,3) by (simp_all add: points_nonempty)
  obtain i j where u: "points a \<union> points b = {i..j}" using assms(1) by (auto simp: contiguous_def)
  have mem: "least_point a \<in> {i..j}" "least_point b \<in> {i..j}" "greatest_point a \<in> {i..j}" "greatest_point b \<in> {i..j}"
    using ne unfolding u[symmetric] points_eq by auto
  have "\<not> greatest_point b + 1 < least_point a"
  proof
    assume "greatest_point b + 1 < least_point a"
    with mem have "greatest_point b + 1 \<in> points a \<union> points b" unfolding u by auto
    with \<open>greatest_point b + 1 < least_point a\<close> show False by (simp add: points_eq)
  qed
  moreover have "\<not> greatest_point a + 1 < least_point b"
  proof
    assume "greatest_point a + 1 < least_point b"
    with mem have "greatest_point a + 1 \<in> points a \<union> points b" unfolding u by auto
    with \<open>greatest_point a + 1 < least_point b\<close> show False by (simp add: points_eq)
  qed
  ultimately show ?thesis by (simp add: near_def)
qed

lemma actual_bounds:
  assumes "iv_ok t I" "points I \<noteq> {}"
  shows "(if continet I (max_bound (iv_initium I) (iv_finis I)) then max_bound (iv_initium I) (iv_finis I)
      else sat_sub t (max_bound (iv_initium I) (iv_finis I)) 1) = greatest_point I"
    and "(if continet I (min_bound (iv_initium I) (iv_finis I)) then min_bound (iv_initium I) (iv_finis I)
      else sat_add t (min_bound (iv_initium I) (iv_finis I)) 1) = least_point I"
  using assms unfolding points_nonempty
  by (cases "iv_kind I"; auto simp: bound_simps continet_iff)+

lemma endpoints_at_ends:
  "points I \<noteq> {} \<Longrightarrow> continet I (iv_initium I) \<and>
     least_point I \<le> iv_finis I + 1 \<and> iv_finis I - 1 \<le> greatest_point I"
  unfolding points_nonempty by (cases "iv_kind I") (auto simp: continet_iff least_point_def greatest_point_def)

lemma touches_iff:
  assumes "iv_ok t a" "iv_ok t b" "points a \<noteq> {}" "points b \<noteq> {}"
  shows "touches t a b \<longleftrightarrow>
    iv_finis a = iv_initium b \<and> (continet a (iv_initium b) \<or> continet b (iv_finis a)) \<or>
    iv_finis b = iv_initium a \<and> (continet b (iv_initium a) \<or> continet a (iv_finis b)) \<or>
    sat_add t (greatest_point a) 1 = least_point b \<or> sat_add t (greatest_point b) 1 = least_point a"
  unfolding touches_def Let_def actual_bounds[OF assms(1,3)] actual_bounds[OF assms(2,4)] by auto

lemma touches_near:
  assumes "iv_ok t a" "iv_ok t b" "points a \<noteq> {}" "points b \<noteq> {}" "touches t a b"
  shows "near a b"
proof -
  have sat: "least_point y \<le> greatest_point x + 1 \<and> least_point x \<le> greatest_point y + 1"
    if "sat_add t (greatest_point x) 1 = least_point y" "iv_ok t x" "iv_ok t y" "points x \<noteq> {}" "points y \<noteq> {}" for x y
  proof -
    have "in_ty t (greatest_point x)" "in_ty t (least_point x)"
      using that points_nonempty[of x] by (auto intro!: point_in_ty[of t x] simp: continet_iff)
    with that show ?thesis unfolding points_nonempty by (auto simp: sat_add_def ty_saturate_def in_ty_def)
  qed
  from assms(5)[unfolded touches_iff[OF assms(1-4)]]
  consider "iv_finis a = iv_initium b" | "iv_finis b = iv_initium a"
    | "sat_add t (greatest_point a) 1 = least_point b" | "sat_add t (greatest_point b) 1 = least_point a" by blast
  then show ?thesis
    using endpoints_at_ends[OF assms(3)] endpoints_at_ends[OF assms(4)] sat[of a b] sat[of b a] assms(1-4)
    by cases (auto simp: near_def continet_iff)
qed

lemma near_touches:
  assumes "iv_ok t a" "iv_ok t b" "points a \<noteq> {}" "points b \<noteq> {}"
    and "near a b" "points a \<inter> points b = {}"
  shows "touches t a b"
proof -
  have "in_ty t (least_point a)" "in_ty t (least_point b)"
    by (rule point_in_ty[OF assms(1)], use assms(3) in \<open>simp add: points_nonempty continet_iff\<close>)
      (rule point_in_ty[OF assms(2)], use assms(4) in \<open>simp add: points_nonempty continet_iff\<close>)
  moreover have "least_point a = greatest_point b + 1 \<or> least_point b = greatest_point a + 1"
    using assms(3-6) unfolding points_nonempty points_common by (auto simp: near_def common_lo_def common_hi_def)
  ultimately show ?thesis
    unfolding touches_iff[OF assms(1-4)] using assms(3,4) unfolding points_nonempty
    by (auto simp: sat_add_def ty_saturate_def in_ty_def)
qed

lemma iv_union_contiguous:
  assumes ok: "iv_ok t a" "iv_ok t b" and u: "points a \<union> points b = {i..j}" "i \<le> j"
    and go: "points a \<inter> points b \<noteq> {} \<or> touches t a b"
  shows "iv_union t a b = Some (Some (directed a i j))"
proof -
  define lo where "lo = min_bound (min_bound (iv_initium a) (iv_finis a)) (min_bound (iv_initium b) (iv_finis b))"
  define hi where "hi = max_bound (max_bound (iv_initium a) (iv_finis a)) (max_bound (iv_initium b) (iv_finis b))"
  have P: "continet a y \<or> continet b y \<longleftrightarrow> i \<le> y \<and> y \<le> j" for y
    using u(1) unfolding points_def by (auto simp: set_eq_iff)
  have mem: "continet a i \<or> continet b i" "continet a j \<or> continet b j" using P u(2) by auto
  then have ij: "in_ty t i" "in_ty t j" using point_in_ty ok by blast+
  have lohi: "in_ty t lo" "in_ty t hi" using ok by (auto simp: lo_def hi_def bound_simps)
  have "lo \<le> i" "j \<le> hi"
    using mem points_within_bounds[of a] points_within_bounds[of b]
    unfolding lo_def hi_def continet_iff
    by (auto simp: min_bound_def[of "min_bound _ _"] max_bound_def[of "max_bound _ _"])
  then have "first_either t a b lo = Some i" "last_either t a b hi = Some j"
    using first_either_eq[OF P u(2) ij(1) lohi(1)] last_either_eq[OF P u(2) ij(2) lohi(2)] by auto
  moreover have "\<not> (common_lo a b \<le> common_hi a b) \<Longrightarrow> touches t a b"
    using go by (auto simp: points_common)
  ultimately show ?thesis
    by (auto simp: iv_union_def iv_inter_eq[OF ok] Let_def lo_def[symmetric] hi_def[symmetric])
qed

lemma iv_union_gap:
  "iv_ok t a \<Longrightarrow> iv_ok t b \<Longrightarrow> points a \<inter> points b = {} \<Longrightarrow> \<not> touches t a b \<Longrightarrow> iv_union t a b = Some None"
  by (simp add: iv_union_def iv_inter_eq points_common)

lemma union_interval:
  assumes "points a \<noteq> {} \<or> points b \<noteq> {}"
    and "points a \<noteq> {} \<Longrightarrow> points b \<noteq> {} \<Longrightarrow> near a b"
  obtains i j where "points a \<union> points b = {i..j}" "i \<le> j"
proof (cases "points a \<noteq> {} \<and> points b \<noteq> {}")
  case True
  with near_union[of a b] assms(2) that show ?thesis by (auto simp: points_nonempty)
next
  case False
  with assms(1) that[of "least_point a" "greatest_point a"] that[of "least_point b" "greatest_point b"]
  show ?thesis by (auto simp: points_nonempty) (auto simp: points_eq)
qed

lemma contiguous_interval: "contiguous {i..j}"
  by (auto simp: contiguous_def)


text \<open>The eager list, the lazy walk and the reported length agree: the list is finite and holds
  each point once, in the direction of the interval; the iterator yields exactly that list, at every
  bound of the type, and then stays exhausted; the length is the number of points as long as the
  span is a value of the type and of a 64-bit count; and a clamped value is the nearest point.\<close>

theorem interval_walks_agree:
  assumes "iv_ok t I"
  shows "\<exists>xs. ad_lista t I = Some xs \<and> set xs = points I \<and> distinct xs \<and>
    (if iv_initium I \<le> iv_finis I then sorted xs else sorted (rev xs)) \<and>
    (\<forall>n. walk_answers t n (ambula I) = take n (map Some xs @ replicate n None)) \<and>
    (\<bar>iv_finis I - iv_initium I\<bar> \<le> ty_max t \<and> \<bar>iv_finis I - iv_initium I\<bar> < 2 ^ 63 - 1 \<longrightarrow>
       longitudo t I = int (length xs)) \<and>
    (\<forall>x p. p \<in> points I \<longrightarrow> coercere t I x \<in> points I \<and> \<bar>coercere t I x - x\<bar> \<le> \<bar>p - x\<bar>)"
proof (intro exI[of _ "points_list I"] conjI allI impI)
  show "ad_lista t I = Some (points_list I)" by (rule ad_lista_eq[OF assms])
  show "set (points_list I) = points I" by (rule set_points_list)
  show "distinct (points_list I)"
    and "if iv_initium I \<le> iv_finis I then sorted (points_list I) else sorted (rev (points_list I))"
    by (simp_all add: points_list_def)
  show "walk_answers t n (ambula I) = take n (map Some (points_list I) @ replicate n None)" for n
    using walk_answers_rest[of t "ambula I" n] assms by (simp add: ambula_rest) (simp add: ambula_def iv_ok_def)
  show "longitudo t I = int (length (points_list I))"
    if "\<bar>iv_finis I - iv_initium I\<bar> \<le> ty_max t \<and> \<bar>iv_finis I - iv_initium I\<bar> < 2 ^ 63 - 1"
    using that longitudo_eq[OF assms] by blast
  fix x p assume p: "p \<in> points I"
  then have "coercere t I x = max (least_point I) (min (greatest_point I) x)"
    using coercere_eq[OF assms] by blast
  with p show "coercere t I x \<in> points I" "\<bar>coercere t I x - x\<bar> \<le> \<bar>p - x\<bar>"
    by (auto simp: points_eq)
qed

text \<open>Two empty intervals can count as touching: the union of \<open>5..5\<close> and \<open>4..4\<close> then searches for a
  point for ever.\<close>

lemma first_either_empty:
  "(\<And>y. \<not> continet a y \<and> \<not> continet b y) \<Longrightarrow> first_either t a b x \<noteq> Some y"
proof
  assume none: "\<And>y. \<not> continet a y \<and> \<not> continet b y" and r: "first_either t a b x = Some y"
  have "continet a y \<or> continet b y"
    by (rule first_either.raw_induct[of "\<lambda>t a b x y. continet a y \<or> continet b y", OF _ r])
      (auto split: if_splits)
  with none show False by blast
qed

lemma union_of_touching_empties_diverges:
  assumes "a = iv_exclusive 5 5" "b = iv_exclusive 4 4"
  shows "iv_ok (Signed 64) a \<and> iv_ok (Signed 64) b \<and> iv_inter (Signed 64) a b = Some None \<and>
    iv_union (Signed 64) a b = None"
proof -
  have ok: "iv_ok (Signed 64) a" "iv_ok (Signed 64) b"
    by (simp_all add: assms iv_exclusive_def bound_simps)
  have bounds: "least_point a = 5" "greatest_point a = 4" "least_point b = 4" "greatest_point b = 3"
    by (simp_all add: assms iv_exclusive_def bound_simps)
  have empty: "\<not> continet a y \<and> \<not> continet b y" for y by (auto simp: continet_iff bounds)
  have "touches (Signed 64) a b"
    using empty by (simp add: touches_def assms iv_exclusive_def Let_def) (simp add: bound_simps)
  moreover have "first_either (Signed 64) a b x = None" for x
    using first_either_empty[OF empty] by (cases "first_either (Signed 64) a b x") auto
  moreover have "iv_inter (Signed 64) a b = Some None"
    by (simp add: iv_inter_eq[OF ok] common_lo_def common_hi_def bounds)
  ultimately show ?thesis using ok by (simp add: iv_union_def Let_def)
qed


theorem interval_walks_agree_witness:
  "\<exists>xs. ad_lista (Unsigned 8) (iv_inclusive 255 253) = Some xs \<and> set xs = {253..255} \<and> sorted (rev xs) \<and>
     walk_answers (Unsigned 8) 4 (ambula (iv_inclusive 255 253)) = map Some xs @ [None] \<and>
     longitudo (Unsigned 8) (iv_inclusive 255 253) = 3"
proof -
  let ?I = "iv_inclusive 255 253"
  have "iv_ok (Unsigned 8) ?I" by (simp add: iv_inclusive_def bound_simps)
  from interval_walks_agree[OF this] obtain xs where xs: "ad_lista (Unsigned 8) ?I = Some xs"
      "set xs = points ?I" "distinct xs" "sorted (rev xs)"
      "walk_answers (Unsigned 8) 4 (ambula ?I) = take 4 (map Some xs @ replicate 4 None)"
      "longitudo (Unsigned 8) ?I = int (length xs)"
    by (auto simp: iv_inclusive_def)
  have p: "points ?I = {253..255}"
    by (simp add: points_eq iv_inclusive_def least_point_def greatest_point_def)
  have "length xs = 3" using distinct_card[OF xs(3)] xs(2) p by simp
  with xs p show ?thesis by auto
qed

end
