(* ===== verification/Bpe.thy ===== *)
theory Bpe
  imports Utf8 "HOL-Library.Multiset"
begin

text \<open>
  The byte-pair merge stage of \<open>src/tokenizer/bpe.rs\<close>: symbols chained through a vector, candidate
  merges in a \<open>BinaryHeap\<close> (stated as an interface, provided by a list with a linear search), the
  merge loop that drops outdated candidates, and the walk that emits token ids. The loop and the
  walk are partial functions; a panic (an index or a slice out of range) and a run that does not end
  are \<open>None\<close>. The reference is greedy merging over the pieces themselves: always the adjacent pair
  of least rank, the leftmost one first.
\<close>

section \<open>Errors and symbols\<close>

datatype tokenizer_error =
  UnsupportedModel ustr
| UnsupportedPreTokenizer ustr
| VocabSizeMismatch nat nat
| TokenTypeCountMismatch nat nat
| MergesCountMismatch nat nat
| ScoresPresent
| MalformedMergeString nat ustr
| ByteBoundaryViolation nat ustr
| TokenIdOutOfRange u32 nat
| AddBosTokenNotSupported bool
| AddSpacePrefixNotSupported bool
| InputTooLarge nat nat
| OutputTooLarge nat nat
| ArithmeticOverflow string
| MissingMetadataKey string
| WrongMetadataValueType string

type_synonym token_id_map = "bytes \<Rightarrow> u32 option"
type_synonym rank_map = "bytes \<times> bytes \<Rightarrow> u32 option"

definition max_encode_output_tokens :: nat where
  "max_encode_output_tokens = 2 ^ 20"

record symbol =
  sy_prev :: int
  sy_next :: int
  sy_start :: nat
  sy_n :: nat

record queue_entry =
  qe_rank :: u32
  qe_left :: nat
  qe_right :: nat
  qe_text :: ustr

definition usize_checked_add :: "nat \<Rightarrow> nat \<Rightarrow> string \<Rightarrow> tokenizer_error + nat" where
  "usize_checked_add a b what = (if a + b < 2 ^ 64 then Inr (a + b) else Inl (ArithmeticOverflow what))"

section \<open>The queue of candidate merges\<close>

text \<open>What the loop relies on: a bag whose \<open>pop\<close> removes an element that no other one exceeds.\<close>

locale max_queue =
  fixes push :: "'e \<Rightarrow> 'q \<Rightarrow> 'q"
    and pop :: "'q \<Rightarrow> ('e \<times> 'q) option"
    and elems :: "'q \<Rightarrow> 'e multiset"
    and le :: "'e \<Rightarrow> 'e \<Rightarrow> bool"
  assumes elems_push: "elems (push e q) = add_mset e (elems q)"
    and pop_empty: "pop q = None \<longleftrightarrow> elems q = {#}"
    and pop_elems: "pop q = Some (e, q') \<Longrightarrow> elems q = add_mset e (elems q')"
    and pop_max: "pop q = Some (e, q') \<Longrightarrow> f \<in># elems q \<Longrightarrow> le f e"
begin

lemma pop_member: "pop q = Some (e, q') \<Longrightarrow> f \<in># elems q \<longleftrightarrow> f = e \<or> f \<in># elems q'"
  using pop_elems[of q e q'] by auto

lemma pop_smaller: "pop q = Some (e, q') \<Longrightarrow> size (elems q') < size (elems q)"
  using pop_elems[of q e q'] by simp

lemma push_member: "f \<in># elems (push e q) \<longleftrightarrow> f = e \<or> f \<in># elems q"
  by (auto simp: elems_push)

lemma pop_other_stays: "pop q = Some (e, q') \<Longrightarrow> f \<in># elems q \<Longrightarrow> f \<noteq> e \<Longrightarrow> f \<in># elems q'"
  using pop_member by blast

end

text \<open>\<open>Ord for QueueEntry\<close> is reversed: the greatest entry has the least rank, then the least left.\<close>

definition entry_cmp :: "queue_entry \<Rightarrow> queue_entry \<Rightarrow> int" where
  "entry_cmp self other =
     (if qe_rank other < qe_rank self then - 1 else if qe_rank self < qe_rank other then 1
      else if qe_left other < qe_left self then - 1 else if qe_left self < qe_left other then 1 else 0)"

definition entry_le :: "queue_entry \<Rightarrow> queue_entry \<Rightarrow> bool" where
  "entry_le e f \<longleftrightarrow> entry_cmp e f \<le> 0"

fun heap_best :: "queue_entry \<Rightarrow> queue_entry list \<Rightarrow> queue_entry" where
  "heap_best e [] = e"
| "heap_best e (f # fs) = heap_best (if entry_cmp e f < 0 then f else e) fs"

definition heap_push :: "queue_entry \<Rightarrow> queue_entry list \<Rightarrow> queue_entry list" where
  "heap_push e q = e # q"

definition heap_pop :: "queue_entry list \<Rightarrow> (queue_entry \<times> queue_entry list) option" where
  "heap_pop q = (case q of
     [] \<Rightarrow> None
   | e # es \<Rightarrow> let best = heap_best e es in Some (best, remove1 best q))"

lemma entry_le_iff: "entry_le e f \<longleftrightarrow> (qe_rank f, qe_left f) \<le> (qe_rank e, qe_left e)"
  by (auto simp: entry_le_def entry_cmp_def less_eq_prod_def)

lemma heap_best_le: "f = e \<or> f \<in> set fs \<Longrightarrow> entry_le f (heap_best e fs)"
proof (induction e fs arbitrary: f rule: heap_best.induct)
  case (2 e g fs)
  have "entry_le e (if entry_cmp e g < 0 then g else e)" "entry_le g (if entry_cmp e g < 0 then g else e)"
    by (auto simp: entry_le_def entry_cmp_def)
  moreover have "entry_le (if entry_cmp e g < 0 then g else e) (heap_best e (g # fs))"
    using "2.IH" by simp
  ultimately have "entry_le e (heap_best e (g # fs))" "entry_le g (heap_best e (g # fs))"
    unfolding entry_le_iff by (meson order_trans)+
  with 2 show ?case by auto
qed (simp add: entry_le_iff)

lemma heap_best_mem: "heap_best e fs \<in> set (e # fs)"
  by (induction e fs rule: heap_best.induct) auto

interpretation bpe_queue: max_queue heap_push heap_pop mset entry_le
proof
  show "mset q = add_mset e (mset q')" if "heap_pop q = Some (e, q')" for q e q'
  proof -
    obtain x xs where q: "q = x # xs" using \<open>heap_pop q = _\<close> by (auto simp: heap_pop_def split: list.splits)
    have "e \<in> set q" "q' = remove1 e q"
      using \<open>heap_pop q = _\<close> heap_best_mem[of x xs] by (auto simp: heap_pop_def Let_def q)
    then show ?thesis by simp
  qed
  show "heap_pop q = Some (e, q') \<Longrightarrow> f \<in># mset q \<Longrightarrow> entry_le f e" for q e q' f
    using heap_best_le by (auto simp: heap_pop_def Let_def split: list.splits)
qed (auto simp: heap_push_def heap_pop_def Let_def split: list.splits)

section \<open>The merge stage\<close>

fun bpe_symbols :: "nat \<Rightarrow> nat \<Rightarrow> nat \<Rightarrow> ustr \<Rightarrow> tokenizer_error + symbol list" where
  "bpe_symbols n_chars index byte_cursor [] = Inr []"
| "bpe_symbols n_chars index byte_cursor (c # cs) =
     (case usize_checked_add byte_cursor (len_utf8 c) ''symbol byte cursor'' of
        Inl e \<Rightarrow> Inl e
      | Inr cursor \<Rightarrow> (case bpe_symbols n_chars (index + 1) cursor cs of
          Inl e \<Rightarrow> Inl e
        | Inr rest \<Rightarrow> Inr (\<lparr>sy_prev = int index - 1,
            sy_next = (if index + 1 = n_chars then - 1 else int index + 1),
            sy_start = byte_cursor, sy_n = len_utf8 c\<rparr> # rest)))"

definition symbol_text :: "ustr \<Rightarrow> symbol \<Rightarrow> ustr option" where
  "symbol_text display s = str_get display (sy_start s) (sy_start s + sy_n s)"

definition add_bigram :: "ustr \<Rightarrow> rank_map \<Rightarrow> symbol list \<Rightarrow> int \<Rightarrow> int \<Rightarrow> queue_entry list \<Rightarrow> queue_entry list option" where
  "add_bigram display ranks symbols left right queue =
     (if left < 0 \<or> right < 0 then Some queue
      else let l = nat left; r = nat right in
        if l < length symbols \<and> r < length symbols
        then Option.bind (symbol_text display (symbols ! l)) (\<lambda>ltext.
             Option.bind (symbol_text display (symbols ! r)) (\<lambda>rtext.
             case ranks (utf8 ltext, utf8 rtext) of
               Some rank \<Rightarrow> Some (heap_push \<lparr>qe_rank = rank, qe_left = l, qe_right = r, qe_text = ltext @ rtext\<rparr> queue)
             | None \<Rightarrow> Some queue))
        else None)"

fun seed_queue :: "ustr \<Rightarrow> rank_map \<Rightarrow> symbol list \<Rightarrow> nat list \<Rightarrow> queue_entry list \<Rightarrow> queue_entry list option" where
  "seed_queue display ranks symbols [] queue = Some queue"
| "seed_queue display ranks symbols (i # is) queue =
     Option.bind (add_bigram display ranks symbols (int i - 1) (int i) queue) (seed_queue display ranks symbols is)"

definition entry_outdated :: "queue_entry \<Rightarrow> ustr \<Rightarrow> ustr \<Rightarrow> bool option" where
  "entry_outdated entry ltext rtext =
     (if byte_len ltext + byte_len rtext \<noteq> byte_len (qe_text entry) then Some True
      else Option.bind (str_get (qe_text entry) 0 (byte_len ltext)) (\<lambda>left.
        if ltext \<noteq> left then Some True
        else Option.bind (str_get (qe_text entry) (byte_len ltext) (byte_len (qe_text entry))) (\<lambda>right.
          Some (rtext \<noteq> right))))"

definition merge_symbols :: "queue_entry \<Rightarrow> symbol list \<Rightarrow> (tokenizer_error + symbol list) option" where
  "merge_symbols entry symbols =
     (case usize_checked_add (sy_n (symbols ! qe_left entry)) (sy_n (symbols ! qe_right entry)) ''merge len'' of
        Inl e \<Rightarrow> Some (Inl e)
      | Inr left_n \<Rightarrow>
          (let next_of_right = sy_next (symbols ! qe_right entry);
               symbols = symbols[qe_left entry :=
                 (symbols ! qe_left entry)\<lparr>sy_n := left_n, sy_next := next_of_right\<rparr>];
               symbols = symbols[qe_right entry := (symbols ! qe_right entry)\<lparr>sy_n := 0\<rparr>]
           in if next_of_right \<ge> 0
              then if nat next_of_right < length symbols
                   then Some (Inr (symbols[nat next_of_right :=
                          (symbols ! nat next_of_right)\<lparr>sy_prev := int (qe_left entry)\<rparr>]))
                   else None
              else Some (Inr symbols)))"

definition bpe_entry :: "ustr \<Rightarrow> rank_map \<Rightarrow> queue_entry \<Rightarrow> symbol list \<Rightarrow> queue_entry list
    \<Rightarrow> (tokenizer_error + symbol list \<times> queue_entry list) option" where
  "bpe_entry display ranks entry symbols queue =
     (if qe_left entry < length symbols \<and> qe_right entry < length symbols
      then let left_symbol = symbols ! qe_left entry; right_symbol = symbols ! qe_right entry in
        if sy_n left_symbol = 0 \<or> sy_n right_symbol = 0 then Some (Inr (symbols, queue))
        else Option.bind (symbol_text display left_symbol) (\<lambda>ltext.
             Option.bind (symbol_text display right_symbol) (\<lambda>rtext.
             Option.bind (entry_outdated entry ltext rtext) (\<lambda>outdated.
             if outdated then Some (Inr (symbols, queue))
             else Option.bind (merge_symbols entry symbols) (\<lambda>merged. case merged of
               Inl e \<Rightarrow> Some (Inl e)
             | Inr symbols \<Rightarrow>
                 Option.bind (add_bigram display ranks symbols (sy_prev (symbols ! qe_left entry))
                   (int (qe_left entry)) queue) (\<lambda>queue.
                 Option.bind (add_bigram display ranks symbols (int (qe_left entry))
                   (sy_next right_symbol) queue) (\<lambda>queue.
                 Some (Inr (symbols, queue))))))))
      else None)"

partial_function (option) bpe_merge_loop :: "ustr \<Rightarrow> rank_map \<Rightarrow> symbol list \<Rightarrow> queue_entry list
    \<Rightarrow> (tokenizer_error + symbol list) option" where
  "bpe_merge_loop display ranks symbols queue =
     (case heap_pop queue of
        None \<Rightarrow> Some (Inr symbols)
      | Some (entry, queue) \<Rightarrow>
          Option.bind (bpe_entry display ranks entry symbols queue) (\<lambda>r. case r of
            Inl e \<Rightarrow> Some (Inl e)
          | Inr (symbols, queue) \<Rightarrow> bpe_merge_loop display ranks symbols queue))"

definition emit_id :: "u32 \<Rightarrow> u32 list \<Rightarrow> tokenizer_error + u32 list" where
  "emit_id tok output =
     (if length output \<ge> max_encode_output_tokens
      then Inl (OutputTooLarge max_encode_output_tokens max_encode_output_tokens)
      else Inr (output @ [tok]))"

fun emit_bytes :: "(u8 \<Rightarrow> u32) \<Rightarrow> bytes \<Rightarrow> u32 list \<Rightarrow> tokenizer_error + u32 list" where
  "emit_bytes byte_fallback [] output = Inr output"
| "emit_bytes byte_fallback (byte # bs) output =
     (let tok = byte_fallback byte in
      if tok \<noteq> - 1
      then (case emit_id tok output of Inl e \<Rightarrow> Inl e | Inr output \<Rightarrow> emit_bytes byte_fallback bs output)
      else emit_bytes byte_fallback bs output)"

definition emit_text :: "token_id_map \<Rightarrow> (u8 \<Rightarrow> u32) \<Rightarrow> ustr \<Rightarrow> u32 list \<Rightarrow> tokenizer_error + u32 list" where
  "emit_text token_to_id byte_fallback txt output = (case token_to_id (utf8 txt) of
     Some tok \<Rightarrow> emit_id tok output
   | None \<Rightarrow> emit_bytes byte_fallback (utf8 txt) output)"

partial_function (option) bpe_collect :: "ustr \<Rightarrow> token_id_map \<Rightarrow> (u8 \<Rightarrow> u32) \<Rightarrow> symbol list \<Rightarrow> int \<Rightarrow> u32 list
    \<Rightarrow> (tokenizer_error + u32 list) option" where
  "bpe_collect display token_to_id byte_fallback symbols idx output =
     (if 0 \<le> idx \<and> nat idx < length symbols
      then Option.bind
        (if sy_n (symbols ! nat idx) > 0
         then Option.bind (symbol_text display (symbols ! nat idx)) (\<lambda>txt.
                Some (emit_text token_to_id byte_fallback txt output))
         else Some (Inr output))
        (\<lambda>r. case r of
           Inl e \<Rightarrow> Some (Inl e)
         | Inr output \<Rightarrow>
             if sy_next (symbols ! nat idx) < 0 then Some (Inr output)
             else bpe_collect display token_to_id byte_fallback symbols (sy_next (symbols ! nat idx)) output)
      else None)"

definition bpe_encode_word :: "ustr \<Rightarrow> token_id_map \<Rightarrow> rank_map \<Rightarrow> (u8 \<Rightarrow> u32) \<Rightarrow> u32 list
    \<Rightarrow> (tokenizer_error + u32 list) option" where
  "bpe_encode_word display token_to_id bpe_ranks byte_fallback output =
     (let n_chars = length display in
      if n_chars = 0 then Some (Inr output)
      else (case bpe_symbols n_chars 0 0 display of
         Inl e \<Rightarrow> Some (Inl e)
       | Inr symbols \<Rightarrow>
           Option.bind (seed_queue display bpe_ranks symbols [1..<n_chars] []) (\<lambda>queue.
           Option.bind (bpe_merge_loop display bpe_ranks symbols queue) (\<lambda>r. case r of
             Inl e \<Rightarrow> Some (Inl e)
           | Inr symbols \<Rightarrow> bpe_collect display token_to_id byte_fallback symbols 0 output))))"

section \<open>The reference: greedy merging of pieces\<close>

definition pair_rank :: "rank_map \<Rightarrow> ustr list \<Rightarrow> nat \<Rightarrow> u32 option" where
  "pair_rank ranks ps k = ranks (utf8 (ps ! k), utf8 (ps ! Suc k))"

definition ranked_pairs :: "rank_map \<Rightarrow> ustr list \<Rightarrow> (u32 \<times> nat) list" where
  "ranked_pairs ranks ps =
     concat (map (\<lambda>k. case pair_rank ranks ps k of None \<Rightarrow> [] | Some x \<Rightarrow> [(x, k)]) [0..<length ps - 1])"

definition merge_at :: "nat \<Rightarrow> ustr list \<Rightarrow> ustr list" where
  "merge_at k ps = take k ps @ [ps ! k @ ps ! Suc k] @ drop (Suc (Suc k)) ps"

lemma ranked_pairs_mem:
  "(x, k) \<in> set (ranked_pairs ranks ps) \<longleftrightarrow> Suc k < length ps \<and> pair_rank ranks ps k = Some x"
  by (auto simp: ranked_pairs_def split: option.splits)

function bpe_reference :: "rank_map \<Rightarrow> ustr list \<Rightarrow> ustr list" where
  "bpe_reference ranks ps =
     (if ranked_pairs ranks ps = [] then ps
      else bpe_reference ranks (merge_at (snd (Min (set (ranked_pairs ranks ps)))) ps))"
  by pat_completeness auto
termination
proof (relation "measure (\<lambda>(ranks, ps). length ps)")
  fix ranks ps assume "ranked_pairs ranks ps \<noteq> []"
  then have "Min (set (ranked_pairs ranks ps)) \<in> set (ranked_pairs ranks ps)" by (intro Min_in) auto
  then have "Suc (snd (Min (set (ranked_pairs ranks ps)))) < length ps"
    by (metis prod.collapse ranked_pairs_mem)
  then show "((ranks, merge_at (snd (Min (set (ranked_pairs ranks ps)))) ps), (ranks, ps))
      \<in> measure (\<lambda>(ranks, ps). length ps)"
    by (simp add: merge_at_def)
qed simp

declare bpe_reference.simps [simp del]

end
