(* ===== verification/BpeProps.thy ===== *)
theory BpeProps
  imports Bpe
begin

text \<open>
  The merge stage of \<open>src/tokenizer/bpe.rs\<close> is greedy merging: the live symbols are a chain of character
  positions, the queue always holds an entry for every adjacent pair with a rank (besides outdated
  ones, which the loop recognises), so the entry it merges is the least ranked, leftmost pair.
\<close>

section \<open>Chains of positions and their pieces\<close>

definition chain_ok :: "ustr \<Rightarrow> nat list \<Rightarrow> bool" where
  "chain_ok cs ch \<longleftrightarrow> ch \<noteq> [] \<and> hd ch = 0 \<and> sorted_wrt (<) ch \<and> set ch \<subseteq> {..<length cs}"

definition bound :: "ustr \<Rightarrow> nat list \<Rightarrow> nat \<Rightarrow> nat" where
  "bound cs ch k = (if k < length ch then ch ! k else length cs)"

definition piece :: "ustr \<Rightarrow> nat list \<Rightarrow> nat \<Rightarrow> ustr" where
  "piece cs ch k = seg cs (bound cs ch k) (bound cs ch (Suc k))"

definition pieces :: "ustr \<Rightarrow> nat list \<Rightarrow> ustr list" where
  "pieces cs ch = map (piece cs ch) [0..<length ch]"

lemma length_pieces [simp]: "length (pieces cs ch) = length ch"
  by (simp add: pieces_def)

lemma nth_pieces [simp]: "k < length ch \<Longrightarrow> pieces cs ch ! k = piece cs ch k"
  by (simp add: pieces_def)

lemma chain_nth: "chain_ok cs ch \<Longrightarrow> k < length ch \<Longrightarrow> ch ! k < length cs"
  unfolding chain_ok_def using nth_mem[of k ch] by blast

lemma chain_less: "chain_ok cs ch \<Longrightarrow> i < j \<Longrightarrow> j < length ch \<Longrightarrow> ch ! i < ch ! j"
  by (simp add: chain_ok_def sorted_wrt_nth_less)

lemma chain_inject: "chain_ok cs ch \<Longrightarrow> i < length ch \<Longrightarrow> j < length ch \<Longrightarrow> ch ! i = ch ! j \<longleftrightarrow> i = j"
  using chain_less[of cs ch i j] chain_less[of cs ch j i] by (cases i j rule: linorder_cases) auto

lemma chain_nth_less_iff: "chain_ok cs ch \<Longrightarrow> i < length ch \<Longrightarrow> j < length ch \<Longrightarrow> ch ! i < ch ! j \<longleftrightarrow> i < j"
  using chain_less[of cs ch i j] chain_less[of cs ch j i] by (cases i j rule: linorder_cases) auto

lemma bound_step:
  "chain_ok cs ch \<Longrightarrow> k < length ch \<Longrightarrow> bound cs ch k < bound cs ch (Suc k)"
  "chain_ok cs ch \<Longrightarrow> bound cs ch k \<le> length cs"
  using chain_less[of cs ch k "Suc k"] chain_nth[of cs ch k] by (auto simp: bound_def)

lemma piece_nonempty: "chain_ok cs ch \<Longrightarrow> k < length ch \<Longrightarrow> piece cs ch k \<noteq> []"
  using bound_step(1)[of cs ch k] bound_step(2)[of cs ch "Suc k"]
    length_seg[of "bound cs ch (Suc k)" cs "bound cs ch k"] by (auto simp: piece_def)

lemma concat_pieces_prefix:
  "chain_ok cs ch \<Longrightarrow> k \<le> length ch \<Longrightarrow> concat (map (piece cs ch) [0..<k]) = take (bound cs ch k) cs"
proof (induction k)
  case 0
  then show ?case by (cases ch) (auto simp: bound_def chain_ok_def)
next
  case (Suc k)
  then show ?case
    using bound_step(1)[of cs ch k] take_seg[of "bound cs ch k" "bound cs ch (Suc k)" cs]
    by (simp add: piece_def)
qed

lemma concat_pieces: "chain_ok cs ch \<Longrightarrow> concat (pieces cs ch) = cs"
  using concat_pieces_prefix[of cs ch "length ch"] by (simp add: pieces_def bound_def)

lemma chain_all: "cs \<noteq> [] \<Longrightarrow> chain_ok cs [0..<length cs]"
  by (auto simp: chain_ok_def hd_upt)

lemma pieces_all: "pieces cs [0..<length cs] = map (\<lambda>c. [c]) cs"
proof (rule nth_equalityI)
  fix i assume "i < length (pieces cs [0..<length cs])"
  then show "pieces cs [0..<length cs] ! i = map (\<lambda>c. [c]) cs ! i"
    by (auto simp: piece_def bound_def seg_def take_Suc_conv_app_nth Suc_diff_Suc Cons_nth_drop_Suc[symmetric]
        less_Suc_eq not_less)
qed simp

section \<open>Symbols and queue entries of a chain\<close>

definition sym_at :: "ustr \<Rightarrow> nat list \<Rightarrow> nat \<Rightarrow> symbol" where
  "sym_at cs ch k = \<lparr>sy_prev = (if k = 0 then - 1 else int (ch ! (k - 1))),
     sy_next = (if Suc k = length ch then - 1 else int (ch ! Suc k)),
     sy_start = off cs (ch ! k), sy_n = off cs (bound cs ch (Suc k)) - off cs (ch ! k)\<rparr>"

definition sym_ok :: "ustr \<Rightarrow> nat list \<Rightarrow> symbol list \<Rightarrow> bool" where
  "sym_ok cs ch ss \<longleftrightarrow> length ss = length cs \<and> (\<forall>k < length ch. ss ! (ch ! k) = sym_at cs ch k) \<and>
     (\<forall>i < length cs. i \<notin> set ch \<longrightarrow> sy_n (ss ! i) = 0)"

lemma sym_okD:
  "sym_ok cs ch ss \<Longrightarrow> length ss = length cs"
  "sym_ok cs ch ss \<Longrightarrow> k < length ch \<Longrightarrow> ss ! (ch ! k) = sym_at cs ch k"
  "sym_ok cs ch ss \<Longrightarrow> i < length cs \<Longrightarrow> i \<notin> set ch \<Longrightarrow> sy_n (ss ! i) = 0"
  by (auto simp: sym_ok_def)

lemma off_bound_less: "chain_ok cs ch \<Longrightarrow> k < length ch \<Longrightarrow> off cs (ch ! k) < off cs (bound cs ch (Suc k))"
  using bound_step(1)[of cs ch k] bound_step(2)[of cs ch "Suc k"] off_less[of "ch ! k" "bound cs ch (Suc k)" cs]
  by (simp add: bound_def)

lemma symbol_text_at: "chain_ok cs ch \<Longrightarrow> k < length ch \<Longrightarrow> symbol_text cs (sym_at cs ch k) = Some (piece cs ch k)"
  using off_bound_less[of cs ch k] bound_step[of cs ch k] bound_step(2)[of cs ch "Suc k"]
    str_get_off[of "ch ! k" "bound cs ch (Suc k)" cs]
  by (simp add: symbol_text_def sym_at_def piece_def bound_def[of cs ch k])

lemma sym_n_pos: "chain_ok cs ch \<Longrightarrow> k < length ch \<Longrightarrow> sy_n (sym_at cs ch k) \<noteq> 0"
  using off_bound_less[of cs ch k] by (simp add: sym_at_def)

lemma bound_all: "i \<le> length cs \<Longrightarrow> bound cs [0..<length cs] i = i"
  by (simp add: bound_def)

lemma sym_at_all:
  "i < length cs \<Longrightarrow> sym_at cs [0..<length cs] i = \<lparr>sy_prev = int i - 1,
     sy_next = (if i + 1 = length cs then - 1 else int i + 1), sy_start = off cs i, sy_n = off cs (Suc i) - off cs i\<rparr>"
  by (cases "Suc i < length cs") (auto simp: sym_at_def bound_all of_nat_diff simp del: upt_Suc)

lemma bpe_symbols_eq:
  assumes "byte_len cs < 2 ^ 64" "cs = as @ ds"
  shows "bpe_symbols (length cs) (length as) (byte_len as) ds =
    Inr (map (sym_at cs [0..<length cs]) [length as..<length cs])"
  using assms(2)
proof (induction ds arbitrary: as)
  case (Cons c ds)
  let ?n = "length cs" and ?i = "length as"
  from Cons.prems have "cs = (as @ [c]) @ ds" by simp
  from Cons.IH[OF this] have IH: "bpe_symbols ?n (?i + 1) (byte_len as + len_utf8 c) ds =
      Inr (map (sym_at cs [0..<?n]) [Suc ?i..<?n])" by simp
  have less: "?i < ?n" and small: "byte_len as + len_utf8 c < 2 ^ 64" using assms(1) Cons.prems by auto
  have offs: "off cs ?i = byte_len as" "off cs (Suc ?i) = byte_len as + len_utf8 c"
    using Cons.prems by (simp_all add: off_def)
  have "[?i..<?n] = ?i # [Suc ?i..<?n]" by (rule upt_conv_Cons[OF less])
  then show ?case
    using IH by (simp only: bpe_symbols.simps list.map sym_at_all[OF less] offs)
      (simp add: usize_checked_add_def small[simplified])
qed simp

lemma sym_ok_all: "sym_ok cs [0..<length cs] (map (sym_at cs [0..<length cs]) [0..<length cs])"
  by (simp add: sym_ok_def)

definition pair_entry :: "ustr \<Rightarrow> nat list \<Rightarrow> nat \<Rightarrow> u32 \<Rightarrow> queue_entry" where
  "pair_entry cs ch k x = \<lparr>qe_rank = x, qe_left = ch ! k, qe_right = ch ! Suc k,
     qe_text = piece cs ch k @ piece cs ch (Suc k)\<rparr>"

definition push_pair :: "ustr \<Rightarrow> rank_map \<Rightarrow> nat list \<Rightarrow> nat \<Rightarrow> queue_entry list \<Rightarrow> queue_entry list" where
  "push_pair cs ranks ch k q = (case pair_rank ranks (pieces cs ch) k of
     Some x \<Rightarrow> heap_push (pair_entry cs ch k x) q | None \<Rightarrow> q)"

lemma set_push_pair:
  "set (push_pair cs ranks ch k q) =
     {pair_entry cs ch k x |x. pair_rank ranks (pieces cs ch) k = Some x} \<union> set q"
  by (auto simp: push_pair_def heap_push_def split: option.splits)

lemma add_bigram_pair:
  assumes "chain_ok cs ch" "sym_ok cs ch ss" "Suc k < length ch"
  shows "add_bigram cs ranks ss (int (ch ! k)) (int (ch ! Suc k)) q = Some (push_pair cs ranks ch k q)"
  using assms(3) symbol_text_at[OF assms(1), of k] symbol_text_at[OF assms(1), of "Suc k"]
    sym_okD(2)[OF assms(2), of k] sym_okD(2)[OF assms(2), of "Suc k"] sym_okD(1)[OF assms(2)]
    chain_nth[OF assms(1), of k] chain_nth[OF assms(1), of "Suc k"]
  by (simp add: add_bigram_def push_pair_def pair_rank_def pair_entry_def Let_def split: option.split)

lemma add_bigram_none: "left < 0 \<or> right < 0 \<Longrightarrow> add_bigram cs ranks ss left right q = Some q"
  by (auto simp: add_bigram_def)

section \<open>The invariant of the queue\<close>

definition entry_sound :: "ustr \<Rightarrow> rank_map \<Rightarrow> nat list \<Rightarrow> queue_entry \<Rightarrow> bool" where
  "entry_sound cs ranks ch e \<longleftrightarrow>
     (\<exists>m. qe_left e < qe_right e \<and> qe_right e < m \<and> m \<le> length cs \<and> qe_text e = seg cs (qe_left e) m \<and>
        ranks (utf8 (seg cs (qe_left e) (qe_right e)), utf8 (seg cs (qe_right e) m)) = Some (qe_rank e)) \<and>
     (\<forall>i \<in> set ch. \<not> (qe_left e < i \<and> i < qe_right e))"

definition queue_ok :: "ustr \<Rightarrow> rank_map \<Rightarrow> nat list \<Rightarrow> queue_entry list \<Rightarrow> bool" where
  "queue_ok cs ranks ch q \<longleftrightarrow> (\<forall>e \<in> set q. entry_sound cs ranks ch e) \<and>
     (\<forall>k x. Suc k < length ch \<longrightarrow> pair_rank ranks (pieces cs ch) k = Some x \<longrightarrow> pair_entry cs ch k x \<in> set q)"

lemma pair_entry_sound:
  assumes ch: "chain_ok cs ch" and k: "Suc k < length ch" and x: "pair_rank ranks (pieces cs ch) k = Some x"
  shows "entry_sound cs ranks ch (pair_entry cs ch k x)"
proof -
  have b: "ch ! k < ch ! Suc k" "ch ! Suc k < bound cs ch (Suc (Suc k))" "bound cs ch (Suc (Suc k)) \<le> length cs"
    using chain_less[OF ch, of k "Suc k"] bound_step[OF ch, of "Suc k"] bound_step(2)[OF ch] k
    by (auto simp: bound_def[of cs ch "Suc k"])
  have p: "piece cs ch k = seg cs (ch ! k) (ch ! Suc k)"
      "piece cs ch (Suc k) = seg cs (ch ! Suc k) (bound cs ch (Suc (Suc k)))"
    using k by (simp_all add: piece_def bound_def)
  have gap: "\<not> (ch ! k < i \<and> i < ch ! Suc k)" if i: "i \<in> set ch" for i
  proof -
    obtain j where j: "i = ch ! j" "j < length ch" using i by (auto simp: in_set_conv_nth)
    with chain_nth_less_iff[OF ch, of k j] chain_nth_less_iff[OF ch, of j "Suc k"] k show ?thesis by auto
  qed
  show ?thesis
    unfolding entry_sound_def
    by (intro conjI exI[of _ "bound cs ch (Suc (Suc k))"])
      (use b x k gap in \<open>auto simp: pair_entry_def p seg_append pair_rank_def\<close>)
qed

lemma entry_sound_mono: "entry_sound cs ranks ch e \<Longrightarrow> set ch' \<subseteq> set ch \<Longrightarrow> entry_sound cs ranks ch' e"
  by (auto simp: entry_sound_def)

lemma seed_queue_eq:
  assumes ch: "chain_ok cs [0..<length cs]" "sym_ok cs [0..<length cs] ss" and "set is \<subseteq> {1..<length cs}"
  shows "\<exists>q'. seed_queue cs ranks ss is q = Some q' \<and>
    set q' = set q \<union> (\<Union>i \<in> set is. {pair_entry cs [0..<length cs] (i - 1) x |x.
      pair_rank ranks (pieces cs [0..<length cs]) (i - 1) = Some x})"
  using assms(3)
proof (induction "is" arbitrary: q)
  case (Cons i "is")
  then have i: "Suc (i - 1) < length [0..<length cs]" by auto
  then have "int i - 1 = int ([0..<length cs] ! (i - 1))" "int i = int ([0..<length cs] ! Suc (i - 1))"
    using Cons.prems by (auto simp: of_nat_diff)
  then have "add_bigram cs ranks ss (int i - 1) (int i) q = Some (push_pair cs ranks [0..<length cs] (i - 1) q)"
    using add_bigram_pair[OF ch i] by metis
  with Cons.IH[of "push_pair cs ranks [0..<length cs] (i - 1) q"] Cons.prems show ?case
    by (auto simp: set_push_pair)
qed simp

lemma seed_queue_ok:
  assumes ch: "chain_ok cs [0..<length cs]" "sym_ok cs [0..<length cs] ss"
  shows "\<exists>q. seed_queue cs ranks ss [1..<length cs] [] = Some q \<and> queue_ok cs ranks [0..<length cs] q"
proof -
  let ?ch = "[0..<length cs]"
  obtain q where q: "seed_queue cs ranks ss [1..<length cs] [] = Some q"
      "set q = (\<Union>i \<in> {1..<length cs}. {pair_entry cs ?ch (i - 1) x |x. pair_rank ranks (pieces cs ?ch) (i - 1) = Some x})"
    using seed_queue_eq[OF ch, of "[1..<length cs]" ranks "[]"] by auto
  have "pair_entry cs ?ch k x \<in> set q" if "Suc k < length ?ch" "pair_rank ranks (pieces cs ?ch) k = Some x" for k x
    unfolding q(2) using that by (intro UN_I[of "Suc k"]) auto
  moreover have "entry_sound cs ranks ?ch e" if "e \<in> set q" for e
    using that pair_entry_sound[OF ch(1)] unfolding q(2) by fastforce
  ultimately show ?thesis using q(1) by (auto simp: queue_ok_def)
qed

section \<open>One merge\<close>

definition drop_link :: "nat \<Rightarrow> nat list \<Rightarrow> nat list" where
  "drop_link k ch = take (Suc k) ch @ drop (Suc (Suc k)) ch"

lemma length_drop_link: "Suc k < length ch \<Longrightarrow> Suc (length (drop_link k ch)) = length ch"
  by (simp add: drop_link_def)

lemma nth_drop_link:
  "Suc k < length ch \<Longrightarrow> j < length (drop_link k ch) \<Longrightarrow>
   drop_link k ch ! j = (if j \<le> k then ch ! j else ch ! Suc j)"
  by (auto simp: drop_link_def nth_append min_def)

lemma bound_drop_link:
  "Suc k < length ch \<Longrightarrow> bound cs (drop_link k ch) j = (if j \<le> k then bound cs ch j else bound cs ch (Suc j))"
  using length_drop_link[of k ch] nth_drop_link[of k ch j] by (auto simp: bound_def)

lemma set_drop_link:
  assumes ch: "chain_ok cs ch" and k: "Suc k < length ch"
  shows "set (drop_link k ch) = set ch - {ch ! Suc k}"
proof -
  have "set ch = set (drop_link k ch) \<union> {ch ! Suc k}"
    using k by (subst id_take_nth_drop[OF k]) (auto simp: drop_link_def take_Suc_conv_app_nth)
  moreover have "ch ! Suc k \<notin> set (drop_link k ch)"
  proof
    assume "ch ! Suc k \<in> set (drop_link k ch)"
    then obtain j where "j < length (drop_link k ch)" "drop_link k ch ! j = ch ! Suc k"
      by (auto simp: in_set_conv_nth)
    then show False
      using nth_drop_link[OF k, of j] length_drop_link[OF k] k chain_inject[OF ch, of j "Suc k"] chain_inject[OF ch, of "Suc j" "Suc k"]
      by (auto split: if_splits)
  qed
  ultimately show ?thesis by blast
qed

lemma chain_drop_link:
  assumes ch: "chain_ok cs ch" and k: "Suc k < length ch"
  shows "chain_ok cs (drop_link k ch)"
proof -
  have "sorted_wrt (<) (drop_link k ch)"
    unfolding sorted_wrt_iff_nth_less
    using nth_drop_link[OF k] length_drop_link[OF k] chain_less[OF ch] by auto
  moreover have "hd (drop_link k ch) = hd ch" "drop_link k ch \<noteq> []"
    using k by (cases ch; simp add: drop_link_def)+
  ultimately show ?thesis using ch set_drop_link[OF ch k] by (auto simp: chain_ok_def)
qed

lemma piece_drop_link:
  assumes ch: "chain_ok cs ch" and k: "Suc k < length ch"
  shows "piece cs (drop_link k ch) j =
     (if j < k then piece cs ch j else if j = k then piece cs ch k @ piece cs ch (Suc k) else piece cs ch (Suc j))"
proof -
  have "bound cs ch k \<le> bound cs ch (Suc k)" "bound cs ch (Suc k) \<le> bound cs ch (Suc (Suc k))"
    using bound_step(1)[OF ch, of k] bound_step(1)[OF ch, of "Suc k"] k by auto
  then show ?thesis by (auto simp: piece_def bound_drop_link[OF k] seg_append)
qed

lemma pieces_drop_link:
  assumes ch: "chain_ok cs ch" and k: "Suc k < length ch"
  shows "pieces cs (drop_link k ch) = merge_at k (pieces cs ch)"
proof (rule nth_equalityI)
  show "length (pieces cs (drop_link k ch)) = length (merge_at k (pieces cs ch))"
    using k length_drop_link[OF k] by (simp add: merge_at_def)
  fix j assume j: "j < length (pieces cs (drop_link k ch))"
  then have j': "Suc j < length ch" using length_drop_link[OF k] by simp
  have "merge_at k (pieces cs ch) ! j = (if j < k then piece cs ch j
      else if j = k then piece cs ch k @ piece cs ch (Suc k) else piece cs ch (Suc j))"
    using j' k by (cases "j \<le> k") (auto simp: merge_at_def nth_append min_def nth_Cons' Suc_diff_le)
  then show "pieces cs (drop_link k ch) ! j = merge_at k (pieces cs ch) ! j"
    using j by (simp add: piece_drop_link[OF ch k])
qed

lemma merge_symbols_ok:
  assumes ch: "chain_ok cs ch" and k: "Suc k < length ch"
    and ss: "sym_ok cs ch ss" and e: "qe_left e = ch ! k" "qe_right e = ch ! Suc k" and small: "byte_len cs < 2 ^ 64"
  shows "\<exists>ss'. merge_symbols e ss = Some (Inr ss') \<and> sym_ok cs (drop_link k ch) ss'"
proof -
  let ?l = "ch ! k" and ?r = "ch ! Suc k" and ?next = "sy_next (sym_at cs ch (Suc k))"
  let ?left = "(sym_at cs ch k)\<lparr>sy_n := sy_n (sym_at cs ch k) + sy_n (sym_at cs ch (Suc k)), sy_next := ?next\<rparr>"
  let ?ss1 = "ss[?l := ?left, ?r := (sym_at cs ch (Suc k))\<lparr>sy_n := 0\<rparr>]"
  define ss' where "ss' = (if ?next \<ge> 0 then ?ss1[nat ?next := (?ss1 ! nat ?next)\<lparr>sy_prev := int ?l\<rparr>] else ?ss1)"
  have len: "length ss = length cs" by (rule sym_okD(1)[OF ss])
  have lr: "?l < length cs" "?r < length cs" "?l \<noteq> ?r"
    using chain_nth[OF ch] chain_less[OF ch, of k "Suc k"] k by auto
  have at: "ss ! ?l = sym_at cs ch k" "ss ! ?r = sym_at cs ch (Suc k)"
    using sym_okD(2)[OF ss] k by auto
  have offs: "off cs ?l < off cs (bound cs ch (Suc k))" "off cs (bound cs ch (Suc k)) < off cs (bound cs ch (Suc (Suc k)))"
    using off_bound_less[OF ch, of k] off_bound_less[OF ch, of "Suc k"] k by (auto simp: bound_def)
  have total: "off cs (bound cs ch (Suc (Suc k))) \<le> byte_len cs"
    by (rule off_le_total[OF bound_step(2)[OF ch]])
  have n: "sy_n (sym_at cs ch k) + sy_n (sym_at cs ch (Suc k)) = off cs (bound cs ch (Suc (Suc k))) - off cs ?l"
    using offs k by (simp add: sym_at_def bound_def)
  have nxt: "?next = (if Suc (Suc k) = length ch then - 1 else int (ch ! Suc (Suc k)))" by (simp add: sym_at_def)
  have nbound: "Suc (Suc k) < length ch \<Longrightarrow> ch ! Suc (Suc k) < length cs" by (rule chain_nth[OF ch])
  note length_drop_link = length_drop_link[OF k] and nth_drop_link = nth_drop_link[OF k]
    and bound_drop_link = bound_drop_link[OF k] and set_drop_link = set_drop_link[OF ch k]
  have merged: "merge_symbols e ss = Some (Inr ss')"
  proof -
    have "usize_checked_add (sy_n (sym_at cs ch k)) (sy_n (sym_at cs ch (Suc k))) ''merge len'' =
        Inr (sy_n (sym_at cs ch k) + sy_n (sym_at cs ch (Suc k)))"
      using n total small by (simp add: usize_checked_add_def)
    then show ?thesis
      using lr len nbound k unfolding merge_symbols_def e at
      by (auto simp: Let_def ss'_def nxt at split: if_splits)
  qed
  have "ss' ! (drop_link k ch ! j) = sym_at cs (drop_link k ch) j" if j: "j < length (drop_link k ch)" for j
  proof -
    have j': "Suc j < length ch" using j length_drop_link by simp
    consider "j < k" | "j = k" | "j = Suc k" | "Suc k < j" by linarith
    then show ?thesis
    proof cases
      case 1
      then have "ch ! j \<noteq> ?l" "ch ! j \<noteq> ?r" "Suc (Suc k) < length ch \<Longrightarrow> ch ! j \<noteq> ch ! Suc (Suc k)"
        using chain_inject[OF ch, of j] k j' by auto
      moreover have "ss ! (ch ! j) = sym_at cs ch j" using sym_okD(2)[OF ss, of j] j' by simp
      moreover have "sym_at cs (drop_link k ch) j = sym_at cs ch j"
        using 1 j j' k length_drop_link by (auto simp: sym_at_def nth_drop_link bound_drop_link)
      ultimately show ?thesis using 1 j k nth_drop_link[OF j] by (auto simp: ss'_def nxt)
    next
      case 2
      then have "Suc (Suc k) < length ch \<Longrightarrow> ch ! Suc (Suc k) \<noteq> ?l"
        using chain_inject[OF ch, of "Suc (Suc k)" k] k by auto
      moreover have "sym_at cs (drop_link k ch) k = ?left"
        using 2 j j' k length_drop_link n by (simp add: sym_at_def nth_drop_link bound_drop_link nxt)
      ultimately show ?thesis using 2 j k nth_drop_link[OF j] lr len by (auto simp: ss'_def nxt)
    next
      case 3
      have at2: "ss ! (ch ! Suc (Suc k)) = sym_at cs ch (Suc (Suc k))" using sym_okD(2)[OF ss, of "Suc (Suc k)"] j' 3 by simp
      have "ch ! Suc (Suc k) \<noteq> ?l" "ch ! Suc (Suc k) \<noteq> ?r"
        using chain_inject[OF ch, of "Suc (Suc k)"] j' 3 k by auto
      moreover have "sym_at cs (drop_link k ch) (Suc k) = (sym_at cs ch (Suc (Suc k)))\<lparr>sy_prev := int ?l\<rparr>"
        using 3 j j' k length_drop_link by (simp add: sym_at_def nth_drop_link bound_drop_link)
      ultimately show ?thesis
        using 3 j j' nth_drop_link[OF j] at2 len nbound by (auto simp: ss'_def nxt)
    next
      case 4
      then have "ch ! Suc j \<noteq> ?l" "ch ! Suc j \<noteq> ?r" "ch ! Suc j \<noteq> ch ! Suc (Suc k)"
        using chain_inject[OF ch, of "Suc j"] k j' by auto
      moreover have "ss ! (ch ! Suc j) = sym_at cs ch (Suc j)" using sym_okD(2)[OF ss, of "Suc j"] j' by simp
      moreover have "sym_at cs (drop_link k ch) j = sym_at cs ch (Suc j)"
        using 4 j j' k length_drop_link by (auto simp: sym_at_def nth_drop_link bound_drop_link)
      ultimately show ?thesis using 4 j k nth_drop_link[OF j] by (auto simp: ss'_def nxt)
    qed
  qed
  moreover have "sy_n (ss' ! i) = 0" if i: "i < length cs" "i \<notin> set (drop_link k ch)" for i
  proof (cases "i = ?r")
    case True
    then show ?thesis using lr len chain_inject[OF ch, of "Suc (Suc k)" "Suc k"] k
      by (auto simp: ss'_def nxt nth_list_update)
  next
    case False
    then have "i \<notin> set ch" using i(2) set_drop_link by auto
    then have "sy_n (ss ! i) = 0" "i \<noteq> ?l" using sym_okD(3)[OF ss i(1)] k by auto
    moreover have "Suc (Suc k) < length ch \<Longrightarrow> i \<noteq> ch ! Suc (Suc k)" using \<open>i \<notin> set ch\<close> by auto
    ultimately show ?thesis using False k by (auto simp: ss'_def nxt)
  qed
  moreover have "length ss' = length cs" by (simp add: ss'_def len)
  ultimately show ?thesis using merged by (auto simp: sym_ok_def)
qed

section \<open>One turn of the loop\<close>

lemma nth_in_between:
  assumes ch: "chain_ok cs ch" and "l \<in> set ch" "r \<in> set ch" "l < r" "\<forall>i \<in> set ch. \<not> (l < i \<and> i < r)"
  obtains k where "Suc k < length ch" "ch ! k = l" "ch ! Suc k = r"
proof -
  obtain i j where ij: "i < length ch" "ch ! i = l" "j < length ch" "ch ! j = r"
    using assms(2,3) by (auto simp: in_set_conv_nth)
  then have "i < j" using chain_nth_less_iff[OF ch, of i j] assms(4) by simp
  moreover have "\<not> Suc i < j"
  proof
    assume "Suc i < j"
    then have "l < ch ! Suc i \<and> ch ! Suc i < r"
      using chain_less[OF ch, of i "Suc i"] chain_less[OF ch, of "Suc i" j] ij by auto
    moreover have "ch ! Suc i \<in> set ch" using \<open>Suc i < j\<close> ij by auto
    ultimately show False using assms(5) by blast
  qed
  ultimately have "j = Suc i" by simp
  with ij that show thesis by blast
qed

text \<open>The popped entry of an adjacent pair is outdated exactly when the right piece has grown since.\<close>

lemma entry_outdated_eq:
  assumes "qe_text e = seg cs l m" "l \<le> r" "r \<le> m" "r \<le> b" "m \<le> length cs" "b \<le> length cs"
  shows "entry_outdated e (seg cs l r) (seg cs r b) = Some (m \<noteq> b)"
proof -
  have len: "byte_len (seg cs l r) + byte_len (seg cs r b) = off cs b - off cs l"
    using off_seg[of l r cs] off_seg[of r b cs] assms by simp
  have text_len: "byte_len (qe_text e) = off cs m - off cs l" using off_seg[of l m cs] assms by simp
  have le: "off cs l \<le> off cs m" "off cs l \<le> off cs b" using off_mono assms by auto
  show ?thesis
  proof (cases "m = b")
    case True
    then have t: "qe_text e = seg cs l r @ seg cs r b" using assms by (simp add: seg_append)
    have "str_get (qe_text e) 0 (byte_len (seg cs l r)) = Some (seg cs l r)"
      using str_get_append[of "[]" "seg cs l r" "seg cs r b"] by (simp add: t)
    moreover have "str_get (qe_text e) (byte_len (seg cs l r)) (byte_len (qe_text e)) = Some (seg cs r b)"
      using str_get_append[of "seg cs l r" "seg cs r b" "[]"] by (simp add: t)
    ultimately show ?thesis using True by (simp add: entry_outdated_def t)
  next
    case False
    then have "off cs b \<noteq> off cs m" using off_inject[of b cs m] assms by simp
    with le have "off cs b - off cs l \<noteq> off cs m - off cs l" by arith
    then show ?thesis by (simp add: entry_outdated_def len text_len False)
  qed
qed

lemma queue_ok_pop_other:
  assumes "heap_pop q = Some (e, q')" "queue_ok cs ranks ch q"
    and "\<And>k x. Suc k < length ch \<Longrightarrow> pair_rank ranks (pieces cs ch) k = Some x \<Longrightarrow> pair_entry cs ch k x \<noteq> e"
  shows "queue_ok cs ranks ch q'"
  using bpe_queue.pop_member[OF assms(1)] bpe_queue.pop_other_stays[OF assms(1)] assms(2,3)
  unfolding queue_ok_def by (metis set_mset_mset)

lemma best_pair_popped:
  assumes pop: "heap_pop q = Some (pair_entry cs ch k x, q')" and q: "queue_ok cs ranks ch q"
    and ch: "chain_ok cs ch" and k: "Suc k < length ch" and x: "pair_rank ranks (pieces cs ch) k = Some x"
  shows "Min (set (ranked_pairs ranks (pieces cs ch))) = (x, k)"
proof (rule Min_eqI)
  show "finite (set (ranked_pairs ranks (pieces cs ch)))" by simp
  show "(x, k) \<in> set (ranked_pairs ranks (pieces cs ch))" using k x by (simp add: ranked_pairs_mem)
  fix y assume mem: "y \<in> set (ranked_pairs ranks (pieces cs ch))"
  obtain x' k' where "y = (x', k')" by (cases y)
  with mem have y: "y = (x', k')" "Suc k' < length ch" "pair_rank ranks (pieces cs ch) k' = Some x'"
    using ranked_pairs_mem[of x' k' ranks "pieces cs ch"] by simp_all
  then have "pair_entry cs ch k' x' \<in># mset q" using q by (auto simp: queue_ok_def)
  then have "entry_le (pair_entry cs ch k' x') (pair_entry cs ch k x)" by (rule bpe_queue.pop_max[OF pop])
  then show "(x, k) \<le> y"
    using chain_nth_less_iff[OF ch, of k k'] chain_inject[OF ch, of k k'] k y
    by (auto simp: entry_le_iff pair_entry_def less_eq_prod_def)
qed

lemma pieces_after_merge_rank:
  assumes ch: "chain_ok cs ch" and k: "Suc k < length ch" and j: "Suc j < length (drop_link k ch)" "j \<noteq> k" "Suc j \<noteq> k"
  shows "pair_entry cs (drop_link k ch) j x = pair_entry cs ch (if j < k then j else Suc j) x"
    and "pair_rank ranks (pieces cs (drop_link k ch)) j = pair_rank ranks (pieces cs ch) (if j < k then j else Suc j)"
  using j k length_drop_link[OF k]
  by (auto simp: pair_entry_def pair_rank_def nth_drop_link[OF k] piece_drop_link[OF ch k])

definition ranked_links :: "ustr \<Rightarrow> rank_map \<Rightarrow> nat list \<Rightarrow> nat set \<Rightarrow> queue_entry set" where
  "ranked_links cs ranks ch J = {pair_entry cs ch j y |j y.
     j \<in> J \<and> Suc j < length ch \<and> pair_rank ranks (pieces cs ch) j = Some y}"

lemma ranked_links_Un: "ranked_links cs ranks ch (J \<union> K) = ranked_links cs ranks ch J \<union> ranked_links cs ranks ch K"
  by (auto simp: ranked_links_def)

lemma set_push_pair_links:
  "Suc k < length ch \<Longrightarrow> set (push_pair cs ranks ch k q) = set q \<union> ranked_links cs ranks ch {k}"
  by (auto simp: set_push_pair ranked_links_def)

lemma queue_ok_merge:
  assumes pop: "heap_pop q = Some (pair_entry cs ch k x, q')" and q: "queue_ok cs ranks ch q"
    and ch: "chain_ok cs ch" and k: "Suc k < length ch"
    and q'': "set q'' = set q' \<union> ranked_links cs ranks (drop_link k ch) {j. j = k \<or> Suc j = k}"
  shows "queue_ok cs ranks (drop_link k ch) q''"
proof -
  note ch' = chain_drop_link[OF ch k]
  have "entry_sound cs ranks (drop_link k ch) f" if "f \<in> set q''" for f
    using that q bpe_queue.pop_member[OF pop] pair_entry_sound[OF ch'] entry_sound_mono[of cs ranks ch f "drop_link k ch"]
      set_drop_link[OF ch k]
    unfolding q'' queue_ok_def ranked_links_def by fastforce
  moreover have "pair_entry cs (drop_link k ch) j y \<in> set q''"
    if j: "Suc j < length (drop_link k ch)" "pair_rank ranks (pieces cs (drop_link k ch)) j = Some y" for j y
  proof (cases "j = k \<or> Suc j = k")
    case False
    let ?j = "if j < k then j else Suc j"
    have "Suc ?j < length ch" using j(1) length_drop_link[OF k] by auto
    moreover have same: "pair_entry cs (drop_link k ch) j y = pair_entry cs ch ?j y"
        "pair_rank ranks (pieces cs ch) ?j = Some y"
      using pieces_after_merge_rank[OF ch k j(1)] False j(2) by auto
    ultimately have "pair_entry cs ch ?j y \<in> set q" using q by (auto simp: queue_ok_def)
    moreover have "pair_entry cs ch ?j y \<noteq> pair_entry cs ch k x"
      using chain_inject[OF ch, of ?j k] \<open>Suc ?j < length ch\<close> k False by (auto simp: pair_entry_def)
    ultimately have "pair_entry cs ch ?j y \<in> set q'"
      using bpe_queue.pop_other_stays[OF pop] by (metis set_mset_mset)
    then show ?thesis unfolding q'' same(1) by blast
  qed (use j in \<open>auto simp: q'' ranked_links_def\<close>)
  ultimately show ?thesis by (auto simp: queue_ok_def)
qed

lemma add_bigrams_after_merge:
  assumes ch: "chain_ok cs ch" and k: "Suc k < length ch" and ss: "sym_ok cs (drop_link k ch) ss"
  shows "\<exists>q''. Option.bind (add_bigram cs ranks ss (sy_prev (ss ! (ch ! k))) (int (ch ! k)) q')
      (add_bigram cs ranks ss (int (ch ! k)) (sy_next (sym_at cs ch (Suc k)))) = Some q'' \<and>
    set q'' = set q' \<union> ranked_links cs ranks (drop_link k ch) {j. j = k \<or> Suc j = k}"
proof -
  let ?ch = "drop_link k ch"
  note ch' = chain_drop_link[OF ch k] and len = length_drop_link[OF k] and nth = nth_drop_link[OF k]
  have sk: "ss ! (ch ! k) = sym_at cs ?ch k" using sym_okD(2)[OF ss, of k] nth[of k] len k by simp
  have prev: "\<exists>q1. add_bigram cs ranks ss (sy_prev (ss ! (ch ! k))) (int (ch ! k)) q' = Some q1 \<and>
      set q1 = set q' \<union> ranked_links cs ranks ?ch {j. Suc j = k}"
  proof (cases k)
    case 0
    then show ?thesis by (simp add: sk[unfolded 0] sym_at_def add_bigram_none ranked_links_def)
  next
    case (Suc i)
    then have i: "Suc i < length ?ch" and eq: "{j. Suc j = k} = {i}" using len k by auto
    from add_bigram_pair[OF ch' ss i, of ranks q'] Suc nth[of i] nth[of k] len k
    show ?thesis unfolding eq
      by (auto simp: sk[unfolded Suc] sym_at_def set_push_pair_links[OF i[unfolded Suc]])
  qed
  have nxt: "\<exists>q2. add_bigram cs ranks ss (int (ch ! k)) (sy_next (sym_at cs ch (Suc k))) q1 = Some q2 \<and>
      set q2 = set q1 \<union> ranked_links cs ranks ?ch {k}" for q1
  proof (cases "Suc k < length ?ch")
    case True
    from add_bigram_pair[OF ch' ss this, of ranks q1] nth[of k] nth[of "Suc k"] len True
    show ?thesis by (auto simp: sym_at_def set_push_pair_links[OF True])
  next
    case False
    then show ?thesis using len k by (simp add: sym_at_def add_bigram_none ranked_links_def)
  qed
  from prev obtain q1 where q1: "add_bigram cs ranks ss (sy_prev (ss ! (ch ! k))) (int (ch ! k)) q' = Some q1"
      "set q1 = set q' \<union> ranked_links cs ranks ?ch {j. Suc j = k}" by blast
  from nxt[of q1] obtain q2 where q2: "add_bigram cs ranks ss (int (ch ! k)) (sy_next (sym_at cs ch (Suc k))) q1 = Some q2"
      "set q2 = set q1 \<union> ranked_links cs ranks ?ch {k}" by blast
  have "{j. j = k \<or> Suc j = k} = {j. Suc j = k} \<union> {k}" by auto
  then have "set q2 = set q' \<union> ranked_links cs ranks ?ch {j. j = k \<or> Suc j = k}"
    unfolding q2(2) q1(2) by (simp only: ranked_links_Un Un_assoc)
  with q1(1) q2(1) show ?thesis by auto
qed

lemma bpe_entry_step:
  assumes ch: "chain_ok cs ch" and ss: "sym_ok cs ch ss" and q: "queue_ok cs ranks ch q"
    and pop: "heap_pop q = Some (e, q')" and small: "byte_len cs < 2 ^ 64"
  obtains (outdated) "bpe_entry cs ranks e ss q' = Some (Inr (ss, q'))" "queue_ok cs ranks ch q'"
  | (merged) k ss' q'' where "Suc k < length ch" "pair_rank ranks (pieces cs ch) k \<noteq> None"
      "snd (Min (set (ranked_pairs ranks (pieces cs ch)))) = k"
      "bpe_entry cs ranks e ss q' = Some (Inr (ss', q''))"
      "sym_ok cs (drop_link k ch) ss'" "queue_ok cs ranks (drop_link k ch) q''"
proof -
  have e: "entry_sound cs ranks ch e" using q bpe_queue.pop_member[OF pop] by (auto simp: queue_ok_def)
  then obtain m where m: "qe_left e < qe_right e" "qe_right e < m" "m \<le> length cs" "qe_text e = seg cs (qe_left e) m"
      "ranks (utf8 (seg cs (qe_left e) (qe_right e)), utf8 (seg cs (qe_right e) m)) = Some (qe_rank e)"
      and gap: "\<forall>i \<in> set ch. \<not> (qe_left e < i \<and> i < qe_right e)"
    by (auto simp: entry_sound_def)
  have len: "length ss = length cs" by (rule sym_okD(1)[OF ss])
  show thesis
  proof (cases "qe_left e \<in> set ch \<and> qe_right e \<in> set ch")
    case False
    then have "bpe_entry cs ranks e ss q' = Some (Inr (ss, q'))"
      using sym_okD(3)[OF ss, of "qe_left e"] sym_okD(3)[OF ss, of "qe_right e"] m len
      by (auto simp: bpe_entry_def Let_def)
    moreover have "pair_entry cs ch k x \<noteq> e" if "Suc k < length ch" for k x
      using False that by (auto simp: pair_entry_def)
    then have "queue_ok cs ranks ch q'" by (intro queue_ok_pop_other[OF pop q]) auto
    ultimately show thesis by (rule outdated)
  next
    case True
    then obtain k where k: "Suc k < length ch" "ch ! k = qe_left e" "ch ! Suc k = qe_right e"
      using nth_in_between[OF ch _ _ m(1) gap] by blast
    let ?b = "bound cs ch (Suc (Suc k))"
    have b: "qe_right e < ?b" "?b \<le> length cs"
      using bound_step(1)[OF ch, of "Suc k"] bound_step(2)[OF ch] k by (auto simp: bound_def[of cs ch "Suc k"])
    have p: "piece cs ch k = seg cs (qe_left e) (qe_right e)" "piece cs ch (Suc k) = seg cs (qe_right e) ?b"
      using k by (simp_all add: piece_def bound_def[of cs ch k] bound_def[of cs ch "Suc k"])
    have at: "ss ! qe_left e = sym_at cs ch k" "ss ! qe_right e = sym_at cs ch (Suc k)"
      using sym_okD(2)[OF ss, of k] sym_okD(2)[OF ss, of "Suc k"] k by auto
    note texts = symbol_text_at[OF ch, of k] symbol_text_at[OF ch k(1)] sym_n_pos[OF ch, of k] sym_n_pos[OF ch k(1)]
    have check: "entry_outdated e (piece cs ch k) (piece cs ch (Suc k)) = Some (m \<noteq> ?b)"
      unfolding p using m b by (intro entry_outdated_eq) auto
    have bounds: "qe_left e < length ss" "qe_right e < length ss" using m len by auto
    show thesis
    proof (cases "m = ?b")
      case False
      then have "bpe_entry cs ranks e ss q' = Some (Inr (ss, q'))"
        using texts check bounds k(1) by (simp add: bpe_entry_def at Let_def)
      moreover have "pair_entry cs ch j x \<noteq> e" if "Suc j < length ch" for j x
      proof
        assume a: "pair_entry cs ch j x = e"
        then have "j = k" using chain_inject[OF ch, of j k] that k by (auto simp: pair_entry_def)
        then have "qe_text e = seg cs (qe_left e) ?b"
          using arg_cong[OF a, of qe_text] m(1) b(1) by (simp add: pair_entry_def p seg_append)
        then have "seg cs (qe_left e) ?b = seg cs (qe_left e) m" using m(4) by simp
        then show False using False length_seg[OF b(2), of "qe_left e"] length_seg[OF m(3), of "qe_left e"] b m by auto
      qed
      then have "queue_ok cs ranks ch q'" by (intro queue_ok_pop_other[OF pop q]) auto
      ultimately show thesis by (rule outdated)
    next
      case True
      have x: "pair_rank ranks (pieces cs ch) k = Some (qe_rank e)"
        using m(5) True k(1) by (simp add: pair_rank_def p)
      have e_pair: "e = pair_entry cs ch k (qe_rank e)"
        using k True m(1,2,4) by (simp add: pair_entry_def p seg_append)
      have pop': "heap_pop q = Some (pair_entry cs ch k (qe_rank e), q')"
        unfolding e_pair[symmetric] by (rule pop)
      obtain ss' where ss': "merge_symbols e ss = Some (Inr ss')" "sym_ok cs (drop_link k ch) ss'"
        using merge_symbols_ok[OF ch k(1) ss k(2,3)[symmetric] small] by blast
      obtain q'' where q'': "Option.bind (add_bigram cs ranks ss' (sy_prev (ss' ! (ch ! k))) (int (ch ! k)) q')
          (add_bigram cs ranks ss' (int (ch ! k)) (sy_next (sym_at cs ch (Suc k)))) = Some q''"
          "set q'' = set q' \<union> ranked_links cs ranks (drop_link k ch) {j. j = k \<or> Suc j = k}"
        using add_bigrams_after_merge[OF ch k(1) ss'(2), of ranks q'] by blast
      have "bpe_entry cs ranks e ss q' = Some (Inr (ss', q''))"
        using texts check bounds k(1) True ss'(1) q''(1)
        by (auto simp: bpe_entry_def at Let_def k(2) bind_eq_Some_conv)
      moreover have "queue_ok cs ranks (drop_link k ch) q''"
        by (rule queue_ok_merge[OF pop' q ch k(1) q''(2)])
      moreover have "Min (set (ranked_pairs ranks (pieces cs ch))) = (qe_rank e, k)"
        by (rule best_pair_popped[OF pop' q ch k(1) x])
      ultimately show thesis using merged[OF k(1)] x ss'(2) by simp
    qed
  qed
qed

section \<open>The loop, the walk and the whole stage\<close>

lemma ranked_pairs_Nil_iff:
  "ranked_pairs ranks ps = [] \<longleftrightarrow> (\<forall>k. Suc k < length ps \<longrightarrow> pair_rank ranks ps k = None)"
  by (auto simp: ranked_pairs_def split: option.splits)

lemma bpe_reference_stop: "ranked_pairs ranks ps = [] \<Longrightarrow> bpe_reference ranks ps = ps"
  by (simp add: bpe_reference.simps)

lemma bpe_reference_step:
  "ranked_pairs ranks ps \<noteq> [] \<Longrightarrow> bpe_reference ranks ps =
     bpe_reference ranks (merge_at (snd (Min (set (ranked_pairs ranks ps)))) ps)"
  by (subst bpe_reference.simps) simp

lemma merge_loop_reference:
  assumes "chain_ok cs ch" "sym_ok cs ch ss" "queue_ok cs ranks ch q" "byte_len cs < 2 ^ 64"
  shows "\<exists>ch' ss'. bpe_merge_loop cs ranks ss q = Some (Inr ss') \<and> chain_ok cs ch' \<and> sym_ok cs ch' ss' \<and>
    pieces cs ch' = bpe_reference ranks (pieces cs ch)"
  using assms(1-3)
proof (induction "(length ch, size (mset q))" arbitrary: ch ss q rule: less_induct)
  case less
  show ?case
  proof (cases "heap_pop q")
    case None
    then have "q = []" using bpe_queue.pop_empty[of q] by simp
    then have "ranked_pairs ranks (pieces cs ch) = []"
      using less.prems(3) by (auto simp: queue_ok_def ranked_pairs_Nil_iff)
    then show ?thesis
      using less.prems None by (subst bpe_merge_loop.simps) (auto simp: bpe_reference_stop)
  next
    case (Some r)
    then obtain e q' where pop: "heap_pop q = Some (e, q')" by (cases r) auto
    show ?thesis
    proof (cases rule: bpe_entry_step[OF less.prems pop assms(4), case_names outdated merged])
      case outdated
      have "(length ch, size (mset q')) < (length ch, size (mset q))"
        using bpe_queue.pop_smaller[OF pop] by (simp add: less_prod_def)
      from less.hyps[OF this less.prems(1,2) outdated(2)] outdated(1) show ?thesis
        by (subst bpe_merge_loop.simps) (simp add: pop)
    next
      case (merged k ss' q'')
      have "(length (drop_link k ch), size (mset q'')) < (length ch, size (mset q))"
        using length_drop_link[OF merged(1)] by (auto simp: less_prod_def)
      from less.hyps[OF this chain_drop_link[OF less.prems(1) merged(1)] merged(5,6)]
      obtain ch' ss3 where r: "bpe_merge_loop cs ranks ss' q'' = Some (Inr ss3)" "chain_ok cs ch'" "sym_ok cs ch' ss3"
          "pieces cs ch' = bpe_reference ranks (pieces cs (drop_link k ch))" by blast
      have "ranked_pairs ranks (pieces cs ch) \<noteq> []"
        using merged(1,2) by (auto simp: ranked_pairs_Nil_iff)
      then have "bpe_reference ranks (pieces cs ch) = bpe_reference ranks (pieces cs (drop_link k ch))"
        using merged(3) by (simp add: bpe_reference_step pieces_drop_link[OF less.prems(1) merged(1)])
      with r merged(4) show ?thesis
        by (intro exI[of _ ch'] exI[of _ ss3]) (subst bpe_merge_loop.simps, simp add: pop)
    qed
  qed
qed

text \<open>What one piece emits, and a run over pieces under the ceiling.\<close>

definition piece_ids :: "token_id_map \<Rightarrow> (u8 \<Rightarrow> u32) \<Rightarrow> ustr \<Rightarrow> u32 list" where
  "piece_ids token_to_id byte_fallback p = (case token_to_id (utf8 p) of
     Some tok \<Rightarrow> [tok]
   | None \<Rightarrow> filter (\<lambda>tok. tok \<noteq> - 1) (map byte_fallback (utf8 p)))"

definition emit_all :: "u32 list \<Rightarrow> u32 list \<Rightarrow> tokenizer_error + u32 list" where
  "emit_all ids out =
     (if ids = [] \<or> length out + length ids \<le> max_encode_output_tokens then Inr (out @ ids)
      else Inl (OutputTooLarge max_encode_output_tokens max_encode_output_tokens))"

lemma emit_all_append:
  "emit_all (ids @ ids') out = (case emit_all ids out of Inl e \<Rightarrow> Inl e | Inr out \<Rightarrow> emit_all ids' out)"
  by (cases ids; cases ids') (auto simp: emit_all_def)

lemma emit_all_Cons: "emit_all (tok # ids) out =
    (case emit_id tok out of Inl e \<Rightarrow> Inl e | Inr out \<Rightarrow> emit_all ids out)"
  by (cases ids) (auto simp: emit_all_def emit_id_def)

lemma emit_bytes_eq: "emit_bytes b bs out = emit_all (filter (\<lambda>tok. tok \<noteq> - 1) (map b bs)) out"
proof (induction b bs out rule: emit_bytes.induct)
  case (2 b byte bs out)
  then show ?case by (auto simp: Let_def emit_all_Cons split: sum.split)
qed (simp add: emit_all_def)

lemma emit_text_eq: "emit_text t b p out = emit_all (piece_ids t b p) out"
  by (auto simp: emit_text_def piece_ids_def emit_bytes_eq emit_all_def emit_id_def split: option.split)

lemma collect_pieces:
  assumes ch: "chain_ok cs ch" and ss: "sym_ok cs ch ss" and "k < length ch"
  shows "bpe_collect cs t b ss (int (ch ! k)) out =
    Some (emit_all (concat (map (piece_ids t b) (drop k (pieces cs ch)))) out)"
  using assms(3)
proof (induction "length ch - k" arbitrary: k out rule: less_induct)
  case less
  have at: "ss ! (ch ! k) = sym_at cs ch k" by (rule sym_okD(2)[OF ss less.prems])
  have in_range: "ch ! k < length ss" using chain_nth[OF ch less.prems] sym_okD(1)[OF ss] by simp
  have drop: "drop k (pieces cs ch) = piece cs ch k # drop (Suc k) (pieces cs ch)"
    using less.prems by (simp add: Cons_nth_drop_Suc[symmetric])
  note body = symbol_text_at[OF ch less.prems] sym_n_pos[OF ch less.prems]
  show ?case
  proof (cases "Suc k < length ch")
    case True
    then show ?thesis
      using less.hyps[of "Suc k"] in_range body less.prems
      by (subst bpe_collect.simps)
        (auto simp: at drop emit_text_eq emit_all_append sym_at_def[of cs ch k] split: sum.split)
  next
    case False
    with less.prems have "Suc k = length ch" by simp
    then show ?thesis
      using in_range body
      by (subst bpe_collect.simps) (auto simp: at drop emit_text_eq sym_at_def[of cs ch k] split: sum.split)
  qed
qed

lemma chain_hd: "chain_ok cs ch \<Longrightarrow> ch ! 0 = 0"
  by (auto simp: chain_ok_def hd_conv_nth)

lemma reference_lossless: "concat (bpe_reference ranks ps) = concat ps"
proof (induction ranks ps rule: bpe_reference.induct)
  case (1 ranks ps)
  show ?case
  proof (cases "ranked_pairs ranks ps = []")
    case False
    let ?k = "snd (Min (set (ranked_pairs ranks ps)))"
    have "Min (set (ranked_pairs ranks ps)) \<in> set (ranked_pairs ranks ps)" using False by (intro Min_in) auto
    then have k: "Suc ?k < length ps" by (metis prod.collapse ranked_pairs_mem)
    then have "ps = take ?k ps @ ps ! ?k # ps ! Suc ?k # drop (Suc (Suc ?k)) ps"
      by (metis Cons_nth_drop_Suc Suc_lessD append_take_drop_id)
    then have "concat (merge_at ?k ps) = concat ps"
      by (metis (no_types, lifting) merge_at_def append.assoc concat.simps concat_append append_Nil2)
    with 1 False show ?thesis by (simp add: bpe_reference_step)
  qed (simp add: bpe_reference_stop)
qed

lemma reference_saturated: "ranked_pairs ranks (bpe_reference ranks ps) = []"
proof (induction ranks ps rule: bpe_reference.induct)
  case (1 ranks ps)
  then show ?case by (cases "ranked_pairs ranks ps = []") (simp_all add: bpe_reference_stop bpe_reference_step)
qed

lemma bpe_encode_word_pieces:
  assumes "byte_len display < 2 ^ 64"
  shows "bpe_encode_word display t ranks b out =
    Some (emit_all (concat (map (piece_ids t b) (bpe_reference ranks (map (\<lambda>c. [c]) display)))) out)"
proof (cases "display = []")
  case True
  then show ?thesis by (simp add: bpe_encode_word_def bpe_reference_stop ranked_pairs_def emit_all_def)
next
  case False
  let ?ch = "[0..<length display]" and ?ss = "map (sym_at display [0..<length display]) [0..<length display]"
  have ch: "chain_ok display ?ch" by (rule chain_all[OF False])
  have symbols: "bpe_symbols (length display) 0 0 display = Inr ?ss"
    using bpe_symbols_eq[OF assms, of "[]" display] by simp
  obtain q where q: "seed_queue display ranks ?ss [1..<length display] [] = Some q" "queue_ok display ranks ?ch q"
    using seed_queue_ok[OF ch sym_ok_all] by blast
  obtain ch' ss' where r: "bpe_merge_loop display ranks ?ss q = Some (Inr ss')" "chain_ok display ch'"
      "sym_ok display ch' ss'" "pieces display ch' = bpe_reference ranks (pieces display ?ch)"
    using merge_loop_reference[OF ch sym_ok_all q(2) assms] by blast
  have "ch' \<noteq> []" using r(2) by (simp add: chain_ok_def)
  then have "bpe_collect display t b ss' 0 out = Some (emit_all (concat (map (piece_ids t b) (pieces display ch'))) out)"
    using collect_pieces[OF r(2,3), of 0 t b out] chain_hd[OF r(2)] by simp
  with q(1) r(1) show ?thesis
    using False by (simp add: bpe_encode_word_def symbols r(4) pieces_all)
qed

text \<open>C21: the merge stage is greedy byte-pair encoding: over any ranks and any display text it returns
  without a panic, and the ids it appends are those of the reference pieces, which are the text cut
  into adjacent pieces such that no adjacent pair has a rank left, obtained by always merging the
  least ranked, leftmost pair; a piece gives its token id or, when it has none, the mapped ids of
  its bytes. It fails only when those ids would pass the output ceiling.\<close>

theorem bpe_merges_greedily:
  assumes "byte_len display < 2 ^ 64" "pieces' = bpe_reference ranks (map (\<lambda>c. [c]) display)"
    and "ids = concat (map (piece_ids token_to_id byte_fallback) pieces')"
  shows "bpe_encode_word display token_to_id ranks byte_fallback out =
      Some (if ids = [] \<or> length out + length ids \<le> max_encode_output_tokens then Inr (out @ ids)
            else Inl (OutputTooLarge max_encode_output_tokens max_encode_output_tokens)) \<and>
    concat pieces' = display \<and>
    (\<forall>k. Suc k < length pieces' \<longrightarrow> ranks (utf8 (pieces' ! k), utf8 (pieces' ! Suc k)) = None)"
proof (intro conjI allI impI)
  show "bpe_encode_word display token_to_id ranks byte_fallback out =
      Some (if ids = [] \<or> length out + length ids \<le> max_encode_output_tokens then Inr (out @ ids)
            else Inl (OutputTooLarge max_encode_output_tokens max_encode_output_tokens))"
    unfolding bpe_encode_word_pieces[OF assms(1)] assms(2,3) emit_all_def ..
  show "concat pieces' = display" by (simp add: assms(2) reference_lossless)
  fix k assume "Suc k < length pieces'"
  then show "ranks (utf8 (pieces' ! k), utf8 (pieces' ! Suc k)) = None"
    using reference_saturated[of ranks "map (\<lambda>c. [c]) display"]
    by (simp add: assms(2) ranked_pairs_Nil_iff pair_rank_def)
qed

text \<open>Three merges over \<open>abab\<close>: \<open>ab\<close> first (twice), then \<open>abab\<close>; with no token for it the bytes fall back.\<close>

definition example_ranks :: rank_map where
  "example_ranks = (\<lambda>p. if p = (utf8 (lit ''a''), utf8 (lit ''b'')) then Some 0
     else if p = (utf8 (lit ''b''), utf8 (lit ''a'')) then Some 1 else None)"

theorem bpe_merges_greedily_witness:
  "bpe_encode_word (lit ''abab'') (\<lambda>bs. if bs = utf8 (lit ''ab'') then Some 7 else None) example_ranks (\<lambda>_. - 1) [1] =
     Some (Inr [1, 7, 7])"
proof -
  have r1: "ranked_pairs example_ranks (map (\<lambda>c. [c]) (lit ''abab'')) = [(0, 0), (1, 1), (0, 2)]"
    by (simp add: ranked_pairs_def pair_rank_def example_ranks_def utf8_char_def upt_rec)
  have r2: "ranked_pairs example_ranks [lit ''ab'', [97], [98]] = [(0, 1)]"
    by (simp add: ranked_pairs_def pair_rank_def example_ranks_def utf8_char_def upt_rec)
  have r3: "ranked_pairs example_ranks [lit ''ab'', lit ''ab''] = []"
    by (simp add: ranked_pairs_def pair_rank_def example_ranks_def utf8_char_def upt_rec)
  have m1: "Min {(0 :: u32, 0 :: nat), (1, 1), (0, 2)} = (0, 0)" by (rule Min_eqI) (auto simp: less_eq_prod_def)
  have "bpe_reference example_ranks (map (\<lambda>c. [c]) (lit ''abab'')) = [lit ''ab'', lit ''ab'']"
    by (subst bpe_reference_step, simp only: r1, simp)
      (simp only: r1 list.set m1 snd_conv, simp add: merge_at_def, subst bpe_reference_step, simp add: r2[simplified],
        simp add: r2[simplified] merge_at_def, rule bpe_reference_stop, simp add: r3[simplified])
  note ref = this[symmetric]
  have ids: "[7, 7] = concat (map (piece_ids (\<lambda>bs. if bs = utf8 (lit ''ab'') then Some 7 else None) (\<lambda>_. - 1))
      [lit ''ab'', lit ''ab''])"
    by (simp add: piece_ids_def)
  from bpe_merges_greedily[OF _ ref ids, of "[1]"] show ?thesis
    by (simp add: len_utf8_def max_encode_output_tokens_def)
qed

end
