(* ===== verification/Pretoken.thy ===== *)
theory Pretoken
  imports Utf8 PretokenTables
begin

text \<open>
  The pre-tokenizer of \<open>src/tokenizer/pretoken.rs\<close>: number codepoints become words of their own, the
  hand-written splitter cuts what lies between, and every byte is mapped to its display character.
  The loops of the splitter are partial functions, \<open>None\<close> when one does not end. A binary search in
  a sorted table is the prefix or the membership it finds.
\<close>

section \<open>Codepoint flags\<close>

definition cpt_number :: u16 where "cpt_number = 0x0002"

definition cpt_letter :: u16 where "cpt_letter = 0x0004"

definition cpt_whitespace :: u16 where "cpt_whitespace = 0x0100"

definition partition_point :: "('a \<Rightarrow> bool) \<Rightarrow> 'a list \<Rightarrow> nat" where
  "partition_point P xs = length (takeWhile P xs)"

definition cpt_flags :: "nat \<Rightarrow> u16" where
  "cpt_flags c =
     (let idx = partition_point (\<lambda>(start, _). start \<le> c) cpt_ranges - 1;
          flags = snd (cpt_ranges ! idx)
      in if c \<in> set whitespace_set then flags OR cpt_whitespace else flags)"

definition cpt_is_number :: "nat \<Rightarrow> bool" where
  "cpt_is_number c \<longleftrightarrow> cpt_flags c AND cpt_number \<noteq> 0"

section \<open>The splitter\<close>

definition get_cpt :: "ustr \<Rightarrow> nat \<Rightarrow> nat \<Rightarrow> nat \<Rightarrow> nat option" where
  "get_cpt chars ini end' pos = (if ini \<le> pos \<and> pos < end' then Some (chars ! pos) else None)"

definition get_flags :: "ustr \<Rightarrow> nat \<Rightarrow> nat \<Rightarrow> nat \<Rightarrow> u16" where
  "get_flags chars ini end' pos = (if ini \<le> pos \<and> pos < end' then cpt_flags (chars ! pos) else 0)"

text \<open>\<open>while P(f2) { pos += 1; f2 = get_flags(pos); }\<close>\<close>

partial_function (option) flag_run :: "(u16 \<Rightarrow> bool) \<Rightarrow> (nat \<Rightarrow> u16) \<Rightarrow> u16 \<Rightarrow> nat \<Rightarrow> nat option" where
  "flag_run P flags_at f2 pos =
     (if P f2 then flag_run P flags_at (flags_at (pos + 1)) (pos + 1) else Some pos)"

text \<open>\<open>while get_flags(pos + num_ws) & CPT_WHITESPACE != 0 { num_ws += 1; }\<close>\<close>

partial_function (option) count_ws :: "(nat \<Rightarrow> u16) \<Rightarrow> nat \<Rightarrow> nat \<Rightarrow> nat option" where
  "count_ws flags_at pos num_ws =
     (if flags_at (pos + num_ws) AND cpt_whitespace \<noteq> 0 then count_ws flags_at pos (num_ws + 1) else Some num_ws)"

definition contraction :: "(nat \<Rightarrow> nat option) \<Rightarrow> nat \<Rightarrow> nat \<Rightarrow> nat option" where
  "contraction cpt_at end' pos =
     (if cpt_at pos = Some 39 \<and> pos + 1 < end'
      then let next = cpt_at (pos + 1) in
        if next = Some 115 \<or> next = Some 116 \<or> next = Some 109 \<or> next = Some 100 then Some (pos + 2)
        else if pos + 2 < end'
        then let next2 = cpt_at (pos + 2) in
          if next = Some 114 \<and> next2 = Some 101 \<or> next = Some 118 \<and> next2 = Some 101
             \<or> next = Some 108 \<and> next2 = Some 108
          then Some (pos + 3) else None
        else None
      else None)"

definition is_other :: "u16 \<Rightarrow> bool" where
  "is_other f \<longleftrightarrow> f AND (cpt_whitespace OR cpt_letter OR cpt_number) = 0 \<and> f \<noteq> 0"

text \<open>The end of the word that starts at a position.\<close>

definition split_word :: "ustr \<Rightarrow> nat \<Rightarrow> nat \<Rightarrow> nat \<Rightarrow> nat option" where
  "split_word chars ini end' pos =
     (let cpt_at = get_cpt chars ini end'; flags_at = get_flags chars ini end';
          cpt = cpt_at pos; flags = flags_at pos in
      case contraction cpt_at end' pos of
        Some p \<Rightarrow> Some p
      | None \<Rightarrow>
         (let next_flags = flags_at (pos + 1);
              flags2 = (if cpt = Some 32 then next_flags else flags);
              word_pos = (if cpt = Some 32 then pos + 1 else pos) in
          if flags2 AND cpt_letter \<noteq> 0
          then flag_run (\<lambda>f. f AND cpt_letter \<noteq> 0) flags_at flags2 word_pos
          else if flags2 AND cpt_number \<noteq> 0
          then flag_run (\<lambda>f. f AND cpt_number \<noteq> 0) flags_at flags2 word_pos
          else if is_other flags2
          then flag_run is_other flags_at flags2 word_pos
          else Option.bind (count_ws flags_at pos 0) (\<lambda>num_ws.
            if num_ws > 1 \<and> cpt_at (pos + num_ws) \<noteq> None then Some (pos + (num_ws - 1))
            else if num_ws > 0 then Some (pos + num_ws)
            else Some (pos + 1))))"

partial_function (option) split_gpt2_loop ::
  "ustr \<Rightarrow> nat \<Rightarrow> nat \<Rightarrow> nat \<Rightarrow> nat \<Rightarrow> (nat \<times> nat) list \<Rightarrow> (nat \<times> nat) list option" where
  "split_gpt2_loop chars ini end' pos prev_end out =
     (if pos < end'
      then Option.bind (split_word chars ini end' pos) (\<lambda>pos.
        if pos > prev_end then split_gpt2_loop chars ini end' pos pos (out @ [(prev_end, pos)])
        else split_gpt2_loop chars ini end' pos prev_end out)
      else Some out)"

definition split_gpt2_span :: "ustr \<Rightarrow> nat \<times> nat \<Rightarrow> (nat \<times> nat) list \<Rightarrow> (nat \<times> nat) list option" where
  "split_gpt2_span chars span out = split_gpt2_loop chars (fst span) (snd span) (fst span) (fst span) out"

section \<open>The pre-tokenizer\<close>

text \<open>The first pass: each number codepoint is a span of its own.\<close>

fun number_spans :: "nat \<Rightarrow> nat \<Rightarrow> ustr \<Rightarrow> (nat \<times> nat) list \<Rightarrow> (nat \<times> nat) list \<times> nat" where
  "number_spans i cur [] spans = (spans, cur)"
| "number_spans i cur (c # cs) spans =
     (if cpt_is_number c
      then number_spans (i + 1) (i + 1) cs ((if i > cur then spans @ [(cur, i)] else spans) @ [(i, i + 1)])
      else number_spans (i + 1) cur cs spans)"

fun split_spans :: "ustr \<Rightarrow> (nat \<times> nat) list \<Rightarrow> (nat \<times> nat) list \<Rightarrow> (nat \<times> nat) list option" where
  "split_spans chars [] out = Some out"
| "split_spans chars (span # spans) out = Option.bind (split_gpt2_span chars span out) (split_spans chars spans)"

fun byte_offsets :: "nat \<Rightarrow> ustr \<Rightarrow> nat list" where
  "byte_offsets acc [] = [acc]"
| "byte_offsets acc (c # cs) = acc # byte_offsets (acc + len_utf8 c) cs"

definition pre_tokenize_smollm :: "ustr \<Rightarrow> (nat \<times> nat) list option" where
  "pre_tokenize_smollm chars =
     (let n = length chars;
          (spans, cur) = number_spans 0 0 chars [];
          spans = (if cur < n then spans @ [(cur, n)] else spans);
          byte_of = byte_offsets 0 chars
      in map_option (map (\<lambda>(s, e). (byte_of ! s, byte_of ! e - byte_of ! s))) (split_spans chars spans []))"

definition byte_encode :: "ustr \<Rightarrow> ustr" where
  "byte_encode word = map (\<lambda>byte. byte_to_display ! unat byte) (utf8 word)"

section \<open>The tables\<close>

text \<open>Rows in ascending order from a bound, and the bound after them.\<close>

fun ascends :: "nat \<Rightarrow> flag_row list \<Rightarrow> nat \<Rightarrow> bool" where
  "ascends lo [] hi \<longleftrightarrow> lo \<le> hi"
| "ascends lo ((s, f) # rows) hi \<longleftrightarrow> lo \<le> s \<and> ascends (s + 1) rows hi"

lemma ascends_append: "ascends lo rows mid \<Longrightarrow> ascends mid rows' hi \<Longrightarrow> ascends lo (rows @ rows') hi"
proof (induction lo rows mid rule: ascends.induct)
  case (1 lo mid)
  then show ?case by (cases rows') auto
qed auto

lemma ascends_sorted: "ascends lo rows hi \<Longrightarrow> sorted_wrt (<) (map fst rows) \<and> (\<forall>r \<in> set rows. lo \<le> fst r)"
proof (induction lo rows hi rule: ascends.induct)
  case (2 lo s f rows hi)
  then show ?case by (fastforce simp: Suc_le_eq)
qed auto

lemma cpt_ranges_0_ascends: "ascends 0 cpt_ranges_0 1985"
  by (simp add: cpt_ranges_0_def)

lemma cpt_ranges_1_ascends: "ascends 1985 cpt_ranges_1 2785"
  by (simp add: cpt_ranges_1_def)

lemma cpt_ranges_2_ascends: "ascends 2785 cpt_ranges_2 3391"
  by (simp add: cpt_ranges_2_def)

lemma cpt_ranges_3_ascends: "ascends 3391 cpt_ranges_3 4682"
  by (simp add: cpt_ranges_3_def)

lemma cpt_ranges_4_ascends: "ascends 4682 cpt_ranges_4 7020"
  by (simp add: cpt_ranges_4_def)

lemma cpt_ranges_5_ascends: "ascends 7020 cpt_ranges_5 8973"
  by (simp add: cpt_ranges_5_def)

lemma cpt_ranges_6_ascends: "ascends 8973 cpt_ranges_6 42613"
  by (simp add: cpt_ranges_6_def)

lemma cpt_ranges_7_ascends: "ascends 42613 cpt_ranges_7 64286"
  by (simp add: cpt_ranges_7_def)

lemma cpt_ranges_8_ascends: "ascends 64286 cpt_ranges_8 66777"
  by (simp add: cpt_ranges_8_def)

lemma cpt_ranges_9_ascends: "ascends 66777 cpt_ranges_9 69425"
  by (simp add: cpt_ranges_9_def)

lemma cpt_ranges_10_ascends: "ascends 69425 cpt_ranges_10 71097"
  by (simp add: cpt_ranges_10_def)

lemma cpt_ranges_11_ascends: "ascends 71097 cpt_ranges_11 73525"
  by (simp add: cpt_ranges_11_def)

lemma cpt_ranges_12_ascends: "ascends 73525 cpt_ranges_12 119553"
  by (simp add: cpt_ranges_12_def)

lemma cpt_ranges_13_ascends: "ascends 119553 cpt_ranges_13 126256"
  by (simp add: cpt_ranges_13_def)

lemma cpt_ranges_14_ascends: "ascends 126256 cpt_ranges_14 178207"
  by (simp add: cpt_ranges_14_def)

lemma cpt_ranges_15_ascends: "ascends 178207 cpt_ranges_15 1114113"
  by (simp add: cpt_ranges_15_def)

text \<open>The table is sorted, as the binary search needs, and starts at 0, so the index never underflows.\<close>

lemma cpt_ranges_sorted: "sorted_wrt (<) (map fst cpt_ranges)"
proof -
  note rows = cpt_ranges_0_ascends
    cpt_ranges_1_ascends
    cpt_ranges_2_ascends
    cpt_ranges_3_ascends
    cpt_ranges_4_ascends
    cpt_ranges_5_ascends
    cpt_ranges_6_ascends
    cpt_ranges_7_ascends
    cpt_ranges_8_ascends
    cpt_ranges_9_ascends
    cpt_ranges_10_ascends
    cpt_ranges_11_ascends
    cpt_ranges_12_ascends
    cpt_ranges_13_ascends
    cpt_ranges_14_ascends
    cpt_ranges_15_ascends
  have "ascends 0 cpt_ranges 1114113"
    unfolding cpt_ranges_def concat.simps by (intro ascends_append; (rule rows)?) simp
  then show ?thesis using ascends_sorted by blast
qed

lemma cpt_flags_index_in_range:
  "0 < partition_point (\<lambda>(start, _). start \<le> c) cpt_ranges \<and>
   partition_point (\<lambda>(start, _). start \<le> c) cpt_ranges \<le> length cpt_ranges"
proof -
  obtain f rows where rows: "cpt_ranges = (0, f) # rows"
    unfolding cpt_ranges_def cpt_ranges_0_def by simp
  show ?thesis unfolding partition_point_def rows by (simp add: length_takeWhile_le)
qed

lemma whitespace_set_sorted: "sorted_wrt (<) whitespace_set"
  by (simp add: whitespace_set_def)

section \<open>Words cover their span\<close>

lemma flag_run_ends:
  assumes "\<not> P 0" "\<And>p. end' \<le> p \<Longrightarrow> flags_at p = 0" "P f2 \<Longrightarrow> pos < end'" "pos \<le> end'"
  shows "\<exists>p. flag_run P flags_at f2 pos = Some p \<and> pos \<le> p \<and> p \<le> end' \<and> (P f2 \<longrightarrow> pos < p)"
  using assms(3,4)
proof (induction "end' - pos" arbitrary: pos f2 rule: less_induct)
  case less
  show ?case
  proof (cases "P f2")
    case True
    then have "pos < end'" using less.prems by blast
    moreover have "P (flags_at (pos + 1)) \<Longrightarrow> pos + 1 < end'"
      using assms(1) assms(2)[of "pos + 1"] by (cases "end' \<le> pos + 1") auto
    moreover have "end' - (pos + 1) < end' - pos" "pos + 1 \<le> end'" using \<open>pos < end'\<close> by simp_all
    ultimately obtain p where "flag_run P flags_at (flags_at (pos + 1)) (pos + 1) = Some p" "pos + 1 \<le> p" "p \<le> end'"
      using less.hyps[of "pos + 1" "flags_at (pos + 1)"] by blast
    with True show ?thesis by (subst flag_run.simps) auto
  qed (use less.prems in \<open>subst flag_run.simps; auto\<close>)
qed

lemma count_ws_ends:
  assumes "\<And>p. end' \<le> p \<Longrightarrow> flags_at p = 0" "pos + n \<le> end'"
  shows "\<exists>m. count_ws flags_at pos n = Some m \<and> pos + m \<le> end' \<and> n \<le> m"
  using assms(2)
proof (induction "end' - (pos + n)" arbitrary: n rule: less_induct)
  case less
  show ?case
  proof (cases "flags_at (pos + n) AND cpt_whitespace \<noteq> 0")
    case True
    then have "pos + (n + 1) \<le> end'" using assms(1)[of "pos + n"] less.prems by (cases "end' \<le> pos + n") auto
    moreover have "end' - (pos + (n + 1)) < end' - (pos + n)" using calculation by linarith
    ultimately obtain m where "count_ws flags_at pos (n + 1) = Some m" "pos + m \<le> end'" "n + 1 \<le> m"
      using less.hyps[of "n + 1"] by blast
    with True show ?thesis by (subst count_ws.simps) auto
  qed (use less.prems in \<open>subst count_ws.simps; auto\<close>)
qed

lemma contraction_advances: "contraction cpt_at end' pos = Some p \<Longrightarrow> pos < p \<and> p \<le> end'"
  by (auto simp: contraction_def Let_def split: if_splits)

lemma split_word_advances:
  assumes "ini \<le> pos" "pos < end'"
  shows "\<exists>p. split_word chars ini end' pos = Some p \<and> pos < p \<and> p \<le> end'"
proof (cases "contraction (get_cpt chars ini end') end' pos")
  case (Some p)
  then show ?thesis using contraction_advances[OF Some] by (simp add: split_word_def)
next
  case None
  let ?flags_at = "get_flags chars ini end'"
  define flags2 where "flags2 = (if get_cpt chars ini end' pos = Some 32 then ?flags_at (pos + 1) else ?flags_at pos)"
  define word_pos where "word_pos = (if get_cpt chars ini end' pos = Some 32 then pos + 1 else pos)"
  have outside: "end' \<le> p \<Longrightarrow> ?flags_at p = 0" for p by (simp add: get_flags_def)
  have flags2: "flags2 = ?flags_at word_pos" "pos \<le> word_pos" "word_pos \<le> end'"
    using assms by (auto simp: flags2_def word_pos_def)
  have run: "\<exists>p. flag_run P ?flags_at flags2 word_pos = Some p \<and> pos < p \<and> p \<le> end'" if "P flags2" "\<not> P 0" for P
  proof -
    have "word_pos < end'" using that outside[of word_pos] flags2(1) by (cases "end' \<le> word_pos") auto
    with flag_run_ends[of P end' ?flags_at flags2 word_pos] that outside flags2(2,3) show ?thesis by fastforce
  qed
  have letters: "\<exists>p. flag_run (\<lambda>f. f AND cpt_letter \<noteq> 0) ?flags_at flags2 word_pos = Some p \<and> pos < p \<and> p \<le> end'"
      if "flags2 AND cpt_letter \<noteq> 0" using run[of "\<lambda>f. f AND cpt_letter \<noteq> 0"] that by simp
  have numbers: "\<exists>p. flag_run (\<lambda>f. f AND cpt_number \<noteq> 0) ?flags_at flags2 word_pos = Some p \<and> pos < p \<and> p \<le> end'"
      if "flags2 AND cpt_number \<noteq> 0" using run[of "\<lambda>f. f AND cpt_number \<noteq> 0"] that by simp
  have others: "\<exists>p. flag_run is_other ?flags_at flags2 word_pos = Some p \<and> pos < p \<and> p \<le> end'"
      if "is_other flags2" using run[of is_other] that by (simp add: is_other_def)
  obtain m where m: "count_ws ?flags_at pos 0 = Some m" "pos + m \<le> end'"
    using count_ws_ends[of end' ?flags_at pos 0] outside assms by auto
  have "split_word chars ini end' pos =
      (if flags2 AND cpt_letter \<noteq> 0 then flag_run (\<lambda>f. f AND cpt_letter \<noteq> 0) ?flags_at flags2 word_pos
       else if flags2 AND cpt_number \<noteq> 0 then flag_run (\<lambda>f. f AND cpt_number \<noteq> 0) ?flags_at flags2 word_pos
       else if is_other flags2 then flag_run is_other ?flags_at flags2 word_pos
       else if m > 1 \<and> get_cpt chars ini end' (pos + m) \<noteq> None then Some (pos + (m - 1))
       else if m > 0 then Some (pos + m) else Some (pos + 1))"
    using None m(1) unfolding split_word_def Let_def flags2_def[symmetric] word_pos_def[symmetric] by simp
  with letters numbers others m(2) assms show ?thesis by auto
qed

text \<open>Consecutive nonempty spans from one position to another.\<close>

fun tiles :: "nat \<Rightarrow> (nat \<times> nat) list \<Rightarrow> nat \<Rightarrow> bool" where
  "tiles i [] j \<longleftrightarrow> i = j"
| "tiles i ((s, e) # spans) j \<longleftrightarrow> s = i \<and> s < e \<and> tiles e spans j"

lemma tiles_append: "tiles i (xs @ ys) k \<longleftrightarrow> (\<exists>j. tiles i xs j \<and> tiles j ys k)"
  by (induction i xs k rule: tiles.induct) auto

lemma tiles_le: "tiles i xs j \<Longrightarrow> i \<le> j"
  by (induction i xs j rule: tiles.induct) auto

lemma tiles_bounds: "tiles i xs j \<Longrightarrow> (s, e) \<in> set xs \<Longrightarrow> i \<le> s \<and> s < e \<and> e \<le> j"
  by (induction i xs j rule: tiles.induct) (auto dest: tiles_le)

lemma split_loop_tiles:
  assumes "ini \<le> pos" "pos \<le> end'"
  shows "\<exists>words. split_gpt2_loop chars ini end' pos pos out = Some (out @ words) \<and> tiles pos words end'"
  using assms
proof (induction "end' - pos" arbitrary: pos out rule: less_induct)
  case less
  show ?case
  proof (cases "pos < end'")
    case True
    obtain p where p: "split_word chars ini end' pos = Some p" "pos < p" "p \<le> end'"
      using split_word_advances[OF less.prems(1) True, of chars] by blast
    then have "end' - p < end' - pos" "ini \<le> p" using less.prems by auto
    with p(3) obtain words where "split_gpt2_loop chars ini end' p p (out @ [(pos, p)]) = Some ((out @ [(pos, p)]) @ words)"
        "tiles p words end'"
      using less.hyps[of p "out @ [(pos, p)]"] by blast
    with p True show ?thesis
      by (subst split_gpt2_loop.simps) (auto intro!: exI[of _ "(pos, p) # words"])
  next
    case False
    with less.prems show ?thesis by (subst split_gpt2_loop.simps) (auto intro!: exI[of _ "[]"])
  qed
qed

lemma split_spans_tiles:
  assumes "tiles i spans j"
  shows "\<exists>words. split_spans chars spans out = Some (out @ words) \<and> tiles i words j \<and>
    (\<forall>w \<in> set words. \<exists>span \<in> set spans. fst span \<le> fst w \<and> snd w \<le> snd span)"
  using assms
proof (induction i spans j arbitrary: out rule: tiles.induct)
  case (2 i s e spans j)
  then have se: "s = i" "s < e" "tiles e spans j" by auto
  then obtain ws where ws: "split_gpt2_span chars (s, e) out = Some (out @ ws)" "tiles s ws e"
    using split_loop_tiles[of s s e chars out] by (auto simp: split_gpt2_span_def)
  from "2.IH"[OF se(3), of "out @ ws"] obtain words where words:
      "split_spans chars spans (out @ ws) = Some ((out @ ws) @ words)" "tiles e words j"
      "\<forall>w \<in> set words. \<exists>span \<in> set spans. fst span \<le> fst w \<and> snd w \<le> snd span" by blast
  have "\<forall>w \<in> set ws. s \<le> fst w \<and> snd w \<le> e" using tiles_bounds[OF ws(2)] by auto
  with ws words se show ?case by (intro exI[of _ "ws @ words"]) (auto simp: tiles_append)
qed simp

text \<open>The first pass: spans without a number codepoint, and spans of one number codepoint.\<close>

definition plain_span :: "ustr \<Rightarrow> nat \<times> nat \<Rightarrow> bool" where
  "plain_span chars span \<longleftrightarrow> (\<forall>p. fst span \<le> p \<and> p < snd span \<longrightarrow> \<not> cpt_is_number (chars ! p))"

lemma number_spans_tiles:
  assumes "chars = as @ cs" "length as = i" "cur \<le> i" "tiles 0 spans cur"
    and "plain_span chars (cur, i)" "\<forall>s \<in> set spans. plain_span chars s \<or> snd s = fst s + 1"
    and "number_spans i cur cs spans = (spans', cur')"
  shows "cur' \<le> length chars \<and> tiles 0 spans' cur' \<and> plain_span chars (cur', length chars) \<and>
    (\<forall>s \<in> set spans'. plain_span chars s \<or> snd s = fst s + 1)"
  using assms
proof (induction cs arbitrary: as i cur spans)
  case (Cons c cs)
  have chars: "chars = (as @ [c]) @ cs" and i: "length (as @ [c]) = i + 1" and at: "chars ! i = c"
    using Cons.prems(1,2) by (auto simp: nth_append)
  show ?case
  proof (cases "cpt_is_number c")
    case True
    let ?spans = "(if i > cur then spans @ [(cur, i)] else spans) @ [(i, i + 1)]"
    have "tiles 0 ?spans (i + 1)" using Cons.prems(3,4) by (auto simp: tiles_append)
    moreover have "\<forall>s \<in> set ?spans. plain_span chars s \<or> snd s = fst s + 1" using Cons.prems(5,6) by auto
    moreover have "plain_span chars (i + 1, i + 1)" by (auto simp: plain_span_def)
    moreover have "number_spans (i + 1) (i + 1) cs ?spans = (spans', cur')" using Cons.prems(7) True by simp
    ultimately show ?thesis using Cons.IH[OF chars i order_refl] by blast
  next
    case False
    then have "plain_span chars (cur, i + 1)" using Cons.prems(5) at by (auto simp: plain_span_def less_Suc_eq)
    with Cons.IH[OF chars i, of cur spans] Cons.prems False show ?thesis by simp
  qed
qed simp

lemma byte_offsets_nth: "i \<le> length cs \<Longrightarrow> byte_offsets acc cs ! i = acc + off cs i"
  by (induction acc cs arbitrary: i rule: byte_offsets.induct) (auto simp: off_def nth_Cons split: nat.split)

definition word_spans :: "ustr \<Rightarrow> (nat \<times> nat) list \<Rightarrow> bool" where
  "word_spans chars ws \<longleftrightarrow> tiles 0 ws (length chars) \<and>
     (\<forall>(s, e) \<in> set ws. (\<exists>p. s \<le> p \<and> p < e \<and> cpt_is_number (chars ! p)) \<longrightarrow> e = s + 1)"

lemma pre_tokenize_spans:
  "\<exists>ws. pre_tokenize_smollm chars = Some (map (\<lambda>(s, e). (off chars s, off chars e - off chars s)) ws) \<and> word_spans chars ws"
proof -
  obtain spans0 cur where n: "number_spans 0 0 chars [] = (spans0, cur)" by fastforce
  have first: "cur \<le> length chars" "tiles 0 spans0 cur" "plain_span chars (cur, length chars)"
      "\<forall>s \<in> set spans0. plain_span chars s \<or> snd s = fst s + 1"
    using number_spans_tiles[of chars "[]" chars 0 0 "[]" spans0 cur] n by (auto simp: plain_span_def)
  define spans where "spans = (if cur < length chars then spans0 @ [(cur, length chars)] else spans0)"
  have "tiles 0 spans (length chars)" using first(1,2) by (auto simp: spans_def tiles_append)
  from split_spans_tiles[OF this, of chars "[]"] obtain ws where ws: "split_spans chars spans [] = Some ws"
      "tiles 0 ws (length chars)" "\<forall>w \<in> set ws. \<exists>span \<in> set spans. fst span \<le> fst w \<and> snd w \<le> snd span" by auto
  have alone: "e = s + 1" if w: "(s, e) \<in> set ws" "s \<le> p" "p < e" "cpt_is_number (chars ! p)" for s e p
  proof -
    obtain span where span: "span \<in> set spans" "fst span \<le> s" "e \<le> snd span" using ws(3) w(1) by fastforce
    then have "fst span \<le> p \<and> p < snd span" using w by simp
    then have "\<not> plain_span chars span" using w(4) by (auto simp: plain_span_def)
    then have "snd span = fst span + 1" using span(1) first(3,4) by (auto simp: spans_def split: if_splits)
    with span w tiles_bounds[OF ws(2) w(1)] show ?thesis by auto
  qed
  have "map (\<lambda>(s, e). (byte_offsets 0 chars ! s, byte_offsets 0 chars ! e - byte_offsets 0 chars ! s)) ws =
      map (\<lambda>(s, e). (off chars s, off chars e - off chars s)) ws"
    using tiles_bounds[OF ws(2)] by (fastforce simp: byte_offsets_nth)
  then have "pre_tokenize_smollm chars = Some (map (\<lambda>(s, e). (off chars s, off chars e - off chars s)) ws)"
    using ws(1) by (simp add: pre_tokenize_smollm_def n spans_def[symmetric] Let_def)
  moreover have "word_spans chars ws" using ws(2) alone by (auto simp: word_spans_def)
  ultimately show ?thesis by blast
qed

section \<open>Words of the text\<close>

lemma tiles_concat: "tiles i ws j \<Longrightarrow> concat (map (\<lambda>(s, e). seg chars s e) ws) = seg chars i j"
proof (induction i ws j rule: tiles.induct)
  case (2 i s e ws j)
  then show ?case using seg_append[of s e j chars] tiles_le[of e ws j] by auto
qed (simp add: seg_def)

lemma word_slices:
  assumes "tiles 0 ws (length chars)"
  shows "map (\<lambda>(s, l). str_get chars s (s + l)) (map (\<lambda>(s, e). (off chars s, off chars e - off chars s)) ws) =
      map Some (map (\<lambda>(s, e). seg chars s e) ws)"
    and "concat (map (\<lambda>(s, e). seg chars s e) ws) = chars"
proof -
  have "str_get chars (off chars s) (off chars s + (off chars e - off chars s)) = Some (seg chars s e)"
      if "(s, e) \<in> set ws" for s e
    using str_get_off[of s e chars] tiles_bounds[OF assms that] off_mono[of s e chars] by simp
  then show "map (\<lambda>(s, l). str_get chars s (s + l)) (map (\<lambda>(s, e). (off chars s, off chars e - off chars s)) ws) =
      map Some (map (\<lambda>(s, e). seg chars s e) ws)" by auto
  show "concat (map (\<lambda>(s, e). seg chars s e) ws) = chars"
    using tiles_concat[OF assms] by (simp add: seg_def)
qed

definition display_byte :: "nat \<Rightarrow> u8" where
  "display_byte c = word_of_nat (length (takeWhile (\<lambda>d. d \<noteq> c) byte_to_display))"

lemma byte_to_display_distinct: "distinct byte_to_display" "length byte_to_display = 256"
  by (simp_all add: byte_to_display_def)

lemma takeWhile_nth_distinct: "distinct xs \<Longrightarrow> i < length xs \<Longrightarrow> length (takeWhile (\<lambda>d. d \<noteq> xs ! i) xs) = i"
proof (induction xs arbitrary: i)
  case (Cons x xs)
  then show ?case by (cases i) auto
qed simp

lemma display_byte_inverse: "display_byte (byte_to_display ! unat b) = b"
proof -
  have "unat b < length byte_to_display"
    using unsigned_less[of b, where 'a = nat] byte_to_display_distinct(2) by simp
  then show ?thesis
    using takeWhile_nth_distinct[OF byte_to_display_distinct(1)] by (simp add: display_byte_def)
qed

lemma byte_encode_append: "byte_encode (xs @ ys) = byte_encode xs @ byte_encode ys"
  by (simp add: byte_encode_def)

lemma byte_encode_concat: "byte_encode (concat xss) = concat (map byte_encode xss)"
  by (induction xss) (simp_all add: byte_encode_append, simp add: byte_encode_def)

text \<open>C22: the pre-tokenizer always ends and loses nothing: it returns byte spans, each of them a slice of
  the text between two characters, whose words are nonempty, follow one another and together are
  the whole text; a word with a number codepoint is that codepoint alone; and the display forms of
  the words, joined, are the display form of the text, from which its bytes can be read back.\<close>

theorem pretoken_words_cover_text:
  "\<exists>spans words. pre_tokenize_smollm chars = Some spans \<and>
     map (\<lambda>(s, l). str_get chars s (s + l)) spans = map Some words \<and>
     concat words = chars \<and> list_all (\<lambda>w. w \<noteq> []) words \<and>
     list_all (\<lambda>w. length w = 1) (filter (list_ex cpt_is_number) words) \<and>
     concat (map byte_encode words) = byte_encode chars \<and>
     map display_byte (byte_encode chars) = utf8 chars"
proof -
  obtain ws where ws: "pre_tokenize_smollm chars = Some (map (\<lambda>(s, e). (off chars s, off chars e - off chars s)) ws)"
      "word_spans chars ws"
    using pre_tokenize_spans by blast
  let ?words = "map (\<lambda>(s, e). seg chars s e) ws"
  have b: "s < e \<and> e \<le> length chars" if "(s, e) \<in> set ws" for s e
    using ws(2) tiles_bounds that by (auto simp: word_spans_def)
  note slices = word_slices[of ws chars]
  have all: "concat ?words = chars" using slices(2) ws(2) by (simp add: word_spans_def)
  have "seg chars s e \<noteq> []" if "(s, e) \<in> set ws" for s e
    using length_seg[of e chars s] b[OF that] by auto
  then have ne: "list_all (\<lambda>w. w \<noteq> []) ?words" by (auto simp: list_all_iff)
  have "length (seg chars s e) = 1" if w: "(s, e) \<in> set ws" "list_ex cpt_is_number (seg chars s e)" for s e
  proof -
    obtain i where "i < e - s" "cpt_is_number (chars ! (s + i))"
      using w(2) b[OF w(1)] by (auto simp: list_ex_iff in_set_conv_nth seg_def)
    then have "e = s + 1" using ws(2) w(1) unfolding word_spans_def by fastforce
    then show ?thesis using b[OF w(1)] length_seg[of e chars s] by simp
  qed
  then have num: "list_all (\<lambda>w. length w = 1) (filter (list_ex cpt_is_number) ?words)"
    by (auto simp: list_all_iff)
  have "concat (map byte_encode ?words) = byte_encode chars"
    using byte_encode_concat[of ?words] all by simp
  moreover have "map display_byte (byte_encode chars) = utf8 chars"
    by (simp add: byte_encode_def display_byte_inverse comp_def)
  ultimately show ?thesis using ws slices(1) all ne num unfolding word_spans_def by blast
qed

end
