(* ===== verification/Tokenizer.thy ===== *)
theory Tokenizer
  imports Bpe Pretoken DeviceIdentity
begin

text \<open>
  The tokenizer of \<open>src/tokenizer/mod.rs\<close>: its fail-closed construction from the facts of a GGUF
  admission, the partition of a text by the special tokens and the encoding, which composes the
  partition, the pre-tokenizer and the merge stage. A \<open>HashMap\<close> is the function its lookups
  compute; a panic, or a loop that does not end, is \<open>None\<close>.
\<close>

section \<open>Facts and tokenizer\<close>

definition tokenizer_model :: ustr where "tokenizer_model = lit ''gpt2''"

definition tokenizer_pre :: ustr where "tokenizer_pre = lit ''smollm''"

definition expected_vocab_size :: nat where "expected_vocab_size = 49152"

definition expected_merges :: nat where "expected_merges = 48900"

definition max_token_string_bytes :: nat where "max_token_string_bytes = 4096"

definition max_merge_string_bytes :: nat where "max_merge_string_bytes = 2 * max_token_string_bytes + 1"

definition max_special_tokens :: nat where "max_special_tokens = 1024"

definition max_encode_input_bytes :: nat where "max_encode_input_bytes = 2 ^ 20"

record tokenizer_facts =
  tf_model :: ustr
  tf_pre :: ustr
  tf_tokens :: "ustr list"
  tf_token_types :: "32 word list"
  tf_merges :: "ustr list"
  tf_scores_present :: bool
  tf_bos_token_id :: u32
  tf_eos_token_id :: u32
  tf_pad_token_id :: u32
  tf_unk_token_id :: u32
  tf_add_bos_token :: bool
  tf_add_space_prefix :: bool

datatype special_kind = SkControl | SkUnknown | SkUserDefined

record special =
  sp_text :: ustr
  sp_id :: u32
  sp_kind :: special_kind

record gpt2_tokenizer =
  tk_vocab_size :: nat
  tk_token_to_id :: token_id_map
  tk_bpe_ranks :: rank_map
  tk_specials :: "special list"
  tk_byte_fallback :: "u8 \<Rightarrow> u32"
  tk_bos :: u32
  tk_eos :: u32
  tk_pad :: u32
  tk_unk :: u32
  tk_add_bos :: bool
  tk_add_space_prefix :: bool
  tk_eog :: "u32 list"

section \<open>Construction\<close>

text \<open>\<open>entry(key).or_insert(value)\<close>: the first value of a key stays.\<close>

definition or_insert :: "'k \<Rightarrow> 'v \<Rightarrow> ('k \<Rightarrow> 'v option) \<Rightarrow> 'k \<Rightarrow> 'v option" where
  "or_insert k v m = (case m k of Some _ \<Rightarrow> m | None \<Rightarrow> m(k \<mapsto> v))"

fun scan_tokens :: "nat \<Rightarrow> ustr list \<Rightarrow> token_id_map \<Rightarrow> (u8 \<Rightarrow> u32)
    \<Rightarrow> tokenizer_error + token_id_map \<times> (u8 \<Rightarrow> u32)" where
  "scan_tokens i [] token_to_id byte_fallback = Inr (token_to_id, byte_fallback)"
| "scan_tokens i (t # ts) token_to_id byte_fallback =
     (let bs = utf8 t in
      if bs = [] \<or> length bs > max_token_string_bytes \<or> 0x20 \<in> set bs
      then Inl (ByteBoundaryViolation i t)
      else scan_tokens (i + 1) ts (or_insert bs (word_of_nat i) token_to_id)
             (if length bs = 1 \<and> hd bs < 0x80 then byte_fallback(hd bs := word_of_nat i) else byte_fallback))"

fun first_position :: "('a \<Rightarrow> bool) \<Rightarrow> 'a list \<Rightarrow> nat option" where
  "first_position P [] = None"
| "first_position P (x # xs) = (if P x then Some 0 else map_option Suc (first_position P xs))"

fun scan_merges :: "nat \<Rightarrow> ustr list \<Rightarrow> rank_map \<Rightarrow> tokenizer_error + rank_map" where
  "scan_merges i [] bpe_ranks = Inr bpe_ranks"
| "scan_merges i (m # ms) bpe_ranks =
     (let bs = utf8 m in
      if length bs > max_merge_string_bytes then Inl (MalformedMergeString i m)
      else (case first_position (\<lambda>b. b = 0x20) bs of
         None \<Rightarrow> Inl (MalformedMergeString i m)
       | Some sep \<Rightarrow>
           if sep < 1 then Inl (MalformedMergeString i m)
           else let left = take sep bs; right = drop (sep + 1) bs in
             if left = [] \<or> right = [] then Inl (MalformedMergeString i m)
             else scan_merges (i + 1) ms (or_insert (left, right) (word_of_nat i) bpe_ranks)))"

fun check_ids :: "nat \<Rightarrow> u32 list \<Rightarrow> tokenizer_error option" where
  "check_ids vocab_size [] = None"
| "check_ids vocab_size (i # is) =
     (if unat i \<ge> vocab_size then Some (TokenIdOutOfRange i vocab_size) else check_ids vocab_size is)"

definition kind_of_type :: "32 word \<Rightarrow> special_kind option" where
  "kind_of_type ttype =
     (if ttype = 3 then Some SkControl else if ttype = 2 then Some SkUnknown
      else if ttype = 4 then Some SkUserDefined else None)"

fun collect_specials :: "nat \<Rightarrow> (ustr \<times> 32 word) list \<Rightarrow> special list" where
  "collect_specials i [] = []"
| "collect_specials i ((t, ttype) # rest) = (case kind_of_type ttype of
     None \<Rightarrow> collect_specials (i + 1) rest
   | Some kind \<Rightarrow> \<lparr>sp_text = t, sp_id = word_of_nat i, sp_kind = kind\<rparr> # collect_specials (i + 1) rest)"

text \<open>\<open>sort_by\<close>: longest text first, then by id.\<close>

definition sort_specials :: "special list \<Rightarrow> special list" where
  "sort_specials = sort_key (\<lambda>s. (- int (byte_len (sp_text s)), sp_id s))"

definition eog_texts :: "ustr list" where
  "eog_texts = map lit
     [''<|eot_id|>'', ''<|im_end|>'', ''<|end|>'', ''<|return|>'', ''<|call|>'', ''<|flush|>'', ''<|calls|>'',
      ''<end_of_turn>'', ''<|endoftext|>'', ''</s>'', ''<|eom_id|>'', ''<EOT>'', ''_<EOT>'', ''[EOT]'', ''[EOS]'',
      ''<|end_of_text|>'', ''<end_of_utterance>'', ''<eos>'', ''<turn|>'', ''<|tool_response>''] @
     [[0x3C, 0xFF5C] @ lit ''end'' @ [0x2581] @ lit ''of'' @ [0x2581] @ lit ''sentence'' @ [0xFF5C, 0x3E],
      lit ''[e~['']"

fun collect_eog :: "nat \<Rightarrow> ustr list \<Rightarrow> u32 list" where
  "collect_eog i [] = []"
| "collect_eog i (t # ts) = (if t \<in> set eog_texts then [word_of_nat i] else []) @ collect_eog (i + 1) ts"

definition check_facts :: "tokenizer_facts \<Rightarrow> tokenizer_error option" where
  "check_facts tfs =
     (if tf_model tfs \<noteq> tokenizer_model then Some (UnsupportedModel (tf_model tfs))
      else if tf_pre tfs \<noteq> tokenizer_pre then Some (UnsupportedPreTokenizer (tf_pre tfs))
      else if length (tf_tokens tfs) \<noteq> expected_vocab_size
      then Some (VocabSizeMismatch expected_vocab_size (length (tf_tokens tfs)))
      else if length (tf_token_types tfs) \<noteq> length (tf_tokens tfs)
      then Some (TokenTypeCountMismatch (length (tf_tokens tfs)) (length (tf_token_types tfs)))
      else if length (tf_merges tfs) \<noteq> expected_merges
      then Some (MergesCountMismatch expected_merges (length (tf_merges tfs)))
      else if tf_scores_present tfs then Some ScoresPresent
      else if tf_add_bos_token tfs \<noteq> False then Some (AddBosTokenNotSupported (tf_add_bos_token tfs))
      else if tf_add_space_prefix tfs \<noteq> False then Some (AddSpacePrefixNotSupported (tf_add_space_prefix tfs))
      else None)"

definition tokenizer_new :: "tokenizer_facts \<Rightarrow> tokenizer_error + gpt2_tokenizer" where
  "tokenizer_new tfs = (case check_facts tfs of
     Some e \<Rightarrow> Inl e
   | None \<Rightarrow>
       (let vocab_size = length (tf_tokens tfs) in
        case scan_tokens 0 (tf_tokens tfs) Map.empty (\<lambda>_. - 1) of
          Inl e \<Rightarrow> Inl e
        | Inr (token_to_id, byte_fallback) \<Rightarrow> (case scan_merges 0 (tf_merges tfs) Map.empty of
            Inl e \<Rightarrow> Inl e
          | Inr bpe_ranks \<Rightarrow>
             (case check_ids vocab_size [tf_bos_token_id tfs, tf_eos_token_id tfs,
                 tf_pad_token_id tfs, tf_unk_token_id tfs] of
                Some e \<Rightarrow> Inl e
              | None \<Rightarrow>
                 (let specials = collect_specials 0 (zip (tf_tokens tfs) (tf_token_types tfs)) in
                  if length specials > max_special_tokens
                  then Inl (ArithmeticOverflow ''special token cache ceiling'')
                  else let eog = collect_eog 0 (tf_tokens tfs);
                           eog = (if tf_eos_token_id tfs \<notin> set eog then eog @ [tf_eos_token_id tfs] else eog)
                       in Inr \<lparr>tk_vocab_size = vocab_size, tk_token_to_id = token_to_id, tk_bpe_ranks = bpe_ranks,
                            tk_specials = sort_specials specials, tk_byte_fallback = byte_fallback,
                            tk_bos = tf_bos_token_id tfs, tk_eos = tf_eos_token_id tfs,
                            tk_pad = tf_pad_token_id tfs, tk_unk = tf_unk_token_id tfs,
                            tk_add_bos = tf_add_bos_token tfs,
                            tk_add_space_prefix = tf_add_space_prefix tfs, tk_eog = eog\<rparr>)))))"

section \<open>Intake from an admission\<close>

datatype 'f metadata_value =
  MvString ustr
| MvUint32 u32
| MvInt32 "32 word"
| MvFloat32 'f
| MvBool bool
| MvStringArray "ustr list"
| MvInt32Array "32 word list"

record 'f metadata_kv =
  kv_key :: string
  kv_value :: "'f metadata_value"

text \<open>The loop over the metadata keeps the last value of each key.\<close>

fun last_value :: "string \<Rightarrow> 'f metadata_kv list \<Rightarrow> 'f metadata_value option" where
  "last_value key [] = None"
| "last_value key (kv # kvs) = (case last_value key kvs of
     Some v \<Rightarrow> Some v
   | None \<Rightarrow> if kv_key kv = key then Some (kv_value kv) else None)"

definition required :: "('f metadata_value \<Rightarrow> 'a option) \<Rightarrow> string \<Rightarrow> 'f metadata_kv list \<Rightarrow> tokenizer_error + 'a" where
  "required read key metadata = (case last_value key metadata of
     None \<Rightarrow> Inl (MissingMetadataKey key)
   | Some v \<Rightarrow> (case read v of None \<Rightarrow> Inl (WrongMetadataValueType key) | Some x \<Rightarrow> Inr x))"

definition str_of :: "'f metadata_value \<Rightarrow> ustr option" where
  "str_of v = (case v of MvString s \<Rightarrow> Some s | _ \<Rightarrow> None)"

definition u32_of :: "'f metadata_value \<Rightarrow> u32 option" where
  "u32_of v = (case v of MvUint32 n \<Rightarrow> Some n | _ \<Rightarrow> None)"

definition bool_of :: "'f metadata_value \<Rightarrow> bool option" where
  "bool_of v = (case v of MvBool b \<Rightarrow> Some b | _ \<Rightarrow> None)"

definition strings_of :: "'f metadata_value \<Rightarrow> ustr list option" where
  "strings_of v = (case v of MvStringArray ss \<Rightarrow> Some ss | _ \<Rightarrow> None)"

definition int32s_of :: "'f metadata_value \<Rightarrow> 32 word list option" where
  "int32s_of v = (case v of MvInt32Array ns \<Rightarrow> Some ns | _ \<Rightarrow> None)"

text \<open>The \<open>?\<close> operator.\<close>

definition try_then :: "'e + 'a \<Rightarrow> ('a \<Rightarrow> 'e + 'b) \<Rightarrow> 'e + 'b" where
  "try_then r f = (case r of Inl e \<Rightarrow> Inl e | Inr x \<Rightarrow> f x)"

definition tokenizer_from_admission :: "'f metadata_kv list \<Rightarrow> tokenizer_error + gpt2_tokenizer" where
  "tokenizer_from_admission metadata =
     try_then (required str_of ''tokenizer.ggml.model'' metadata) (\<lambda>model.
     try_then (required str_of ''tokenizer.ggml.pre'' metadata) (\<lambda>pre.
     try_then (required strings_of ''tokenizer.ggml.tokens'' metadata) (\<lambda>tokens.
     try_then (required int32s_of ''tokenizer.ggml.token_type'' metadata) (\<lambda>token_types.
     try_then (required strings_of ''tokenizer.ggml.merges'' metadata) (\<lambda>merges.
     try_then (required u32_of ''tokenizer.ggml.bos_token_id'' metadata) (\<lambda>bos.
     try_then (required u32_of ''tokenizer.ggml.eos_token_id'' metadata) (\<lambda>eos.
     try_then (required u32_of ''tokenizer.ggml.padding_token_id'' metadata) (\<lambda>pad.
     try_then (required u32_of ''tokenizer.ggml.unknown_token_id'' metadata) (\<lambda>unk.
     try_then (required bool_of ''tokenizer.ggml.add_bos_token'' metadata) (\<lambda>add_bos.
     try_then (required bool_of ''tokenizer.ggml.add_space_prefix'' metadata) (\<lambda>add_space_prefix.
     tokenizer_new \<lparr>tf_model = model, tf_pre = pre, tf_tokens = tokens,
       tf_token_types = token_types, tf_merges = merges,
       tf_scores_present = (last_value ''tokenizer.ggml.scores'' metadata \<noteq> None),
       tf_bos_token_id = bos, tf_eos_token_id = eos, tf_pad_token_id = pad, tf_unk_token_id = unk,
       tf_add_bos_token = add_bos, tf_add_space_prefix = add_space_prefix\<rparr>)))))))))))"

section \<open>Special-token partition\<close>

datatype fragment = FragToken u32 | FragText nat nat

text \<open>\<open>haystack[from..end].windows(n).position(..)\<close>.\<close>

definition find_bytes :: "bytes \<Rightarrow> bytes \<Rightarrow> nat \<Rightarrow> nat \<Rightarrow> nat option option" where
  "find_bytes haystack pattern from' end' =
     (if pattern = [] \<or> from' + length pattern > end' then Some None
      else if end' \<le> length haystack
      then Some (find (\<lambda>m. take (length pattern) (drop m haystack) = pattern) [from'..<Suc (end' - length pattern)])
      else None)"

definition replacement_of :: "u32 \<Rightarrow> nat \<Rightarrow> nat \<Rightarrow> nat \<Rightarrow> nat \<Rightarrow> fragment list" where
  "replacement_of tok base m right_start right_len =
     (if m > base then [FragText base (m - base)] else []) @ [FragToken tok] @
     (if right_len > 0 then [FragText right_start right_len] else [])"

definition splice_at :: "nat \<Rightarrow> 'a list \<Rightarrow> 'a list \<Rightarrow> 'a list option" where
  "splice_at i replacement xs = (if i < length xs then Some (take i xs @ replacement @ drop (Suc i) xs) else None)"

partial_function (option) split_special ::
  "bytes \<Rightarrow> bytes \<Rightarrow> u32 \<Rightarrow> fragment list \<Rightarrow> nat \<Rightarrow> nat \<Rightarrow> nat \<Rightarrow> nat \<Rightarrow> (fragment list \<times> nat) option" where
  "split_special raw pattern tok fragments insert_at base base_len tot =
     Option.bind (find_bytes raw pattern base (base + base_len)) (\<lambda>found. case found of
       None \<Rightarrow> Some (fragments, tot)
     | Some m \<Rightarrow>
         (let right_start = m + length pattern;
              right_len = base + base_len - right_start;
              replacement = replacement_of tok base m right_start right_len;
              repl_len = length replacement
          in Option.bind (splice_at insert_at replacement fragments) (\<lambda>fragments.
             if right_len = 0 then Some (fragments, tot + repl_len)
             else split_special raw pattern tok fragments (insert_at + (repl_len - 1)) right_start right_len
                    (tot + repl_len))))"

partial_function (option) partition_loop ::
  "bytes \<Rightarrow> bytes \<Rightarrow> u32 \<Rightarrow> nat \<Rightarrow> fragment list \<Rightarrow> fragment list option" where
  "partition_loop raw pattern tok i fragments =
     (if i < length fragments
      then (case fragments ! i of
         FragToken _ \<Rightarrow> partition_loop raw pattern tok (i + 1) fragments
       | FragText start len \<Rightarrow>
           Option.bind (split_special raw pattern tok fragments i start len 0) (\<lambda>(fragments, tot).
             partition_loop raw pattern tok (i + (if tot = 0 then 1 else tot)) fragments))
      else Some fragments)"

definition partition_fragments :: "fragment list \<Rightarrow> ustr \<Rightarrow> special \<Rightarrow> fragment list option" where
  "partition_fragments fragments raw special =
     partition_loop (utf8 raw) (utf8 (sp_text special)) (sp_id special) 0 fragments"

fun partition_specials :: "bool \<Rightarrow> ustr \<Rightarrow> special list \<Rightarrow> fragment list \<Rightarrow> fragment list option" where
  "partition_specials parse_special raw [] fragments = Some fragments"
| "partition_specials parse_special raw (s # ss) fragments =
     (if \<not> parse_special \<and> (sp_kind s = SkControl \<or> sp_kind s = SkUnknown)
      then partition_specials parse_special raw ss fragments
      else Option.bind (partition_fragments fragments raw s) (partition_specials parse_special raw ss))"

section \<open>Encoding\<close>

fun encode_words :: "gpt2_tokenizer \<Rightarrow> ustr \<Rightarrow> (nat \<times> nat) list \<Rightarrow> u32 list \<Rightarrow> (tokenizer_error + u32 list) option" where
  "encode_words tk frag [] out = Some (Inr out)"
| "encode_words tk frag ((s, l) # spans) out = (case str_get frag s (s + l) of
     None \<Rightarrow> Some (Inl (ArithmeticOverflow ''word slice''))
   | Some word \<Rightarrow>
       Option.bind (bpe_encode_word (byte_encode word) (tk_token_to_id tk) (tk_bpe_ranks tk) (tk_byte_fallback tk) out)
         (\<lambda>r. case r of Inl e \<Rightarrow> Some (Inl e) | Inr out \<Rightarrow> encode_words tk frag spans out))"

definition encode_fragment :: "gpt2_tokenizer \<Rightarrow> ustr \<Rightarrow> fragment \<Rightarrow> u32 list \<Rightarrow> (tokenizer_error + u32 list) option" where
  "encode_fragment tk txt frag out = (case frag of
     FragToken tok \<Rightarrow>
       Some (if unat tok \<ge> tk_vocab_size tk then Inl (TokenIdOutOfRange tok (tk_vocab_size tk))
             else emit_id tok out)
   | FragText start len \<Rightarrow> (case str_get txt start (start + len) of
       None \<Rightarrow> Some (Inl (ArithmeticOverflow ''fragment slice''))
     | Some piece \<Rightarrow> Option.bind (pre_tokenize_smollm piece) (\<lambda>spans. encode_words tk piece spans out)))"

fun encode_fragments :: "gpt2_tokenizer \<Rightarrow> ustr \<Rightarrow> fragment list \<Rightarrow> u32 list \<Rightarrow> (tokenizer_error + u32 list) option" where
  "encode_fragments tk txt [] out = Some (Inr out)"
| "encode_fragments tk txt (f # fs) out =
     Option.bind (encode_fragment tk txt f out) (\<lambda>r. case r of
       Inl e \<Rightarrow> Some (Inl e) | Inr out \<Rightarrow> encode_fragments tk txt fs out)"

definition tokenizer_encode :: "gpt2_tokenizer \<Rightarrow> ustr \<Rightarrow> bool \<Rightarrow> (tokenizer_error + u32 list) option" where
  "tokenizer_encode tk txt parse_special =
     (if txt = [] then Some (Inr [])
      else if byte_len txt > max_encode_input_bytes
      then Some (Inl (InputTooLarge (byte_len txt) max_encode_input_bytes))
      else Option.bind (partition_specials parse_special txt (tk_specials tk) [FragText 0 (byte_len txt)])
             (\<lambda>fragments. encode_fragments tk txt fragments []))"

definition special_tokens :: "gpt2_tokenizer \<Rightarrow> (ustr \<times> u32) list" where
  "special_tokens tk = map (\<lambda>s. (sp_text s, sp_id s)) (tk_specials tk)"

end
