(* ===== verification/Utf8Code.thy ===== *)
theory Utf8Code
  imports Utf8 DeviceIdentity
begin

text \<open>
  UTF-8 is a prefix code over the scalar values: decoding is unique, the bytes of one text occur in
  those of another only between characters, and an ASCII byte at a character boundary is a character.
\<close>

section \<open>UTF-8 as a code\<close>

definition scalar_ok :: "nat \<Rightarrow> bool" where
  "scalar_ok c \<longleftrightarrow> c < 0x110000"

definition is_continuation :: "u8 \<Rightarrow> bool" where
  "is_continuation b \<longleftrightarrow> 0x80 \<le> unat b \<and> unat b < 0xC0"

lemma unat_byte: "n < 256 \<Longrightarrow> unat (word_of_nat n :: u8) = n"
  by (simp add: unat_of_nat)

lemma byte_inject: "a < 256 \<Longrightarrow> b < 256 \<Longrightarrow> (word_of_nat a :: u8) = word_of_nat b \<longleftrightarrow> a = b"
  by (metis unat_byte)

definition lead_of :: "nat \<Rightarrow> nat" where
  "lead_of c = (if c < 0x80 then c else if c < 0x800 then 0xC0 + c div 64
     else if c < 0x10000 then 0xE0 + c div 4096 else 0xF0 + c div 262144)"

definition tail_of :: "nat \<Rightarrow> nat list" where
  "tail_of c = (if c < 0x80 then [] else if c < 0x800 then [0x80 + c mod 64]
     else if c < 0x10000 then [0x80 + c div 64 mod 64, 0x80 + c mod 64]
     else [0x80 + c div 4096 mod 64, 0x80 + c div 64 mod 64, 0x80 + c mod 64])"

lemma utf8_char_parts: "utf8_char c = map word_of_nat (lead_of c # tail_of c)"
  by (simp add: utf8_char_def lead_of_def tail_of_def)

lemma lead_range: "scalar_ok c \<Longrightarrow> lead_of c < 0x80 \<or> 0xC0 \<le> lead_of c \<and> lead_of c < 256"
  by (auto simp: lead_of_def scalar_ok_def)

lemma tail_range: "n \<in> set (tail_of c) \<Longrightarrow> 0x80 \<le> n \<and> n < 0xC0"
  by (auto simp: tail_of_def split: if_splits)

lemma lead_determines_length: "scalar_ok c \<Longrightarrow> scalar_ok d \<Longrightarrow> lead_of c = lead_of d \<Longrightarrow> len_utf8 c = len_utf8 d"
  by (auto simp: lead_of_def len_utf8_def scalar_ok_def split: if_splits)

lemma div_mod_inject: "(a :: nat) div m = b div m \<Longrightarrow> a mod m = b mod m \<Longrightarrow> a = b"
  by (metis div_mult_mod_eq)

lemma digits_inject:
  assumes "(a :: nat) div 4096 = b div 4096" "a div 64 mod 64 = b div 64 mod 64" "a mod 64 = b mod 64"
  shows "a = b"
proof -
  have "a div 64 div 64 = b div 64 div 64" using assms(1) by (simp add: div_mult2_eq[symmetric])
  then have "a div 64 = b div 64" using assms(2) by (rule div_mod_inject)
  then show ?thesis using assms(3) by (rule div_mod_inject)
qed

lemma long_digits_inject:
  assumes "(a :: nat) div 262144 = b div 262144" "a div 4096 mod 64 = b div 4096 mod 64"
    "a div 64 mod 64 = b div 64 mod 64" "a mod 64 = b mod 64"
  shows "a = b"
proof (rule digits_inject)
  have "a div 4096 div 64 = b div 4096 div 64" using assms(1) by (simp add: div_mult2_eq[symmetric])
  then show "a div 4096 = b div 4096" using assms(2) by (rule div_mod_inject)
qed (use assms in auto)

lemma parts_2: "0x80 \<le> c \<Longrightarrow> c < 0x800 \<Longrightarrow> lead_of c = 0xC0 + c div 64 \<and> tail_of c = [0x80 + c mod 64]"
  by (simp add: lead_of_def tail_of_def)

lemma parts_3: "0x800 \<le> c \<Longrightarrow> c < 0x10000 \<Longrightarrow>
    lead_of c = 0xE0 + c div 4096 \<and> tail_of c = [0x80 + c div 64 mod 64, 0x80 + c mod 64]"
  by (simp add: lead_of_def tail_of_def)

lemma parts_4: "0x10000 \<le> c \<Longrightarrow> lead_of c = 0xF0 + c div 262144 \<and>
    tail_of c = [0x80 + c div 4096 mod 64, 0x80 + c div 64 mod 64, 0x80 + c mod 64]"
  by (simp add: lead_of_def tail_of_def)

lemma parts_inject:
  assumes "scalar_ok c" "scalar_ok d" "lead_of c = lead_of d" "tail_of c = tail_of d"
  shows "c = d"
proof -
  have len: "len_utf8 c = len_utf8 d" by (rule lead_determines_length[OF assms(1-3)])
  consider "c < 0x80" | "0x80 \<le> c" "c < 0x800" | "0x800 \<le> c" "c < 0x10000" | "0x10000 \<le> c" by linarith
  then show ?thesis
  proof cases
    case 1
    with len assms(3) show ?thesis by (auto simp: len_utf8_def lead_of_def split: if_splits)
  next
    case 2
    then have "0x80 \<le> d" "d < 0x800" using len by (auto simp: len_utf8_def split: if_splits)
    from assms(3,4)[unfolded parts_2[OF 2, THEN conjunct1] parts_2[OF this, THEN conjunct1]
        parts_2[OF 2, THEN conjunct2] parts_2[OF this, THEN conjunct2]]
    show ?thesis by - (rule div_mod_inject[of c 64 d], simp_all only: add_left_cancel list.inject)
  next
    case 3
    then have "0x800 \<le> d" "d < 0x10000" using len by (auto simp: len_utf8_def split: if_splits)
    from assms(3,4)[unfolded parts_3[OF 3, THEN conjunct1] parts_3[OF this, THEN conjunct1]
        parts_3[OF 3, THEN conjunct2] parts_3[OF this, THEN conjunct2]]
    show ?thesis by - (rule digits_inject, simp_all only: add_left_cancel list.inject)
  next
    case 4
    then have "0x10000 \<le> d" using len by (auto simp: len_utf8_def split: if_splits)
    from assms(3,4)[unfolded parts_4[OF 4, THEN conjunct1] parts_4[OF this, THEN conjunct1]
        parts_4[OF 4, THEN conjunct2] parts_4[OF this, THEN conjunct2]]
    show ?thesis by - (rule long_digits_inject, simp_all only: add_left_cancel list.inject)
  qed
qed

lemma map_byte_inject:
  "list_all (\<lambda>n. n < 256) xs \<Longrightarrow> list_all (\<lambda>n. n < 256) ys \<Longrightarrow>
   map (word_of_nat :: nat \<Rightarrow> u8) xs = map word_of_nat ys \<longleftrightarrow> xs = ys"
  by (rule inj_on_map_eq_map) (auto simp: inj_on_def list_all_iff byte_inject)

lemma char_bytes_small: "scalar_ok c \<Longrightarrow> list_all (\<lambda>n. n < 256) (lead_of c # tail_of c)"
  using lead_range[of c] tail_range[of _ c] by (fastforce simp: list_all_iff)

interpretation utf8_code: prefix_code utf8_char scalar_ok
proof
  fix c d x y assume ok: "scalar_ok c" "scalar_ok d" and eq: "utf8_char c @ x = utf8_char d @ y"
  have "(word_of_nat (lead_of c) :: u8) = word_of_nat (lead_of d)"
    using eq by (simp add: utf8_char_parts)
  then have lead: "lead_of c = lead_of d"
    using char_bytes_small[OF ok(1)] char_bytes_small[OF ok(2)] by (simp add: byte_inject)
  then have "length (utf8_char c) = length (utf8_char d)"
    using lead_determines_length[OF ok] by simp
  with eq have parts: "utf8_char c = utf8_char d" "x = y" by auto
  then have "lead_of c # tail_of c = lead_of d # tail_of d"
    using map_byte_inject[OF char_bytes_small[OF ok(1)] char_bytes_small[OF ok(2)]]
    unfolding utf8_char_parts by blast
  with parts(2) parts_inject[OF ok] show "c = d \<and> x = y" by simp
qed

definition text_ok :: "ustr \<Rightarrow> bool" where
  "text_ok cs \<longleftrightarrow> list_all scalar_ok cs"

lemma utf8_prefix:
  assumes "text_ok cs" "text_ok ps" "utf8 cs = utf8 ps @ ys"
  shows "\<exists>bs. cs = ps @ bs \<and> ys = utf8 bs"
  using assms
proof (induction ps arbitrary: cs)
  case (Cons p ps)
  then obtain c cs' where cs: "cs = c # cs'" by (cases cs) (auto simp: utf8_char_parts)
  then have "c = p \<and> utf8 cs' = utf8 ps @ ys"
    using Cons.prems utf8_code.append_iff[of c p "utf8 cs'" "utf8 ps @ ys"] by (simp add: text_ok_def)
  with Cons.IH[of cs'] Cons.prems cs show ?case by (auto simp: text_ok_def)
qed auto

text \<open>An occurrence of a nonempty text in the bytes of another starts and ends between two characters.\<close>

lemma utf8_occurrence:
  assumes "text_ok cs" "text_ok ps" "ps \<noteq> []" "utf8 cs = xs @ utf8 ps @ ys"
  shows "\<exists>as bs. cs = as @ ps @ bs \<and> xs = utf8 as \<and> ys = utf8 bs"
  using assms(1,4)
proof (induction cs arbitrary: xs)
  case Nil
  with assms(3) show ?case by (cases ps) (auto simp: utf8_char_parts)
next
  case (Cons c cs)
  show ?case
  proof (cases "xs = []")
    case True
    then have "utf8 (c # cs) = utf8 ps @ ys" using Cons.prems(2) by simp
    from utf8_prefix[OF Cons.prems(1) assms(2) this] obtain bs where "c # cs = ps @ bs" "ys = utf8 bs" by blast
    then have "c # cs = [] @ ps @ bs \<and> xs = utf8 [] \<and> ys = utf8 bs" using \<open>xs = []\<close> by simp
    then show ?thesis by blast
  next
    case False
    obtain p ps' where ps: "ps = p # ps'" using assms(3) by (cases ps) auto
    have bytes: "utf8_char c @ utf8 cs = xs @ utf8 ps @ ys" using Cons.prems(2) by simp
    show ?thesis
    proof (cases "len_utf8 c \<le> length xs")
      case True
      then obtain xs' where xs: "xs = utf8_char c @ xs'" "utf8 cs = xs' @ utf8 ps @ ys"
        using bytes by (metis append_eq_append_conv_if append_take_drop_id length_utf8_char append_eq_conv_conj)
      from Cons.IH[OF _ xs(2)] Cons.prems(1) obtain as bs where
          "cs = as @ ps @ bs" "xs' = utf8 as" "ys = utf8 bs" by (auto simp: text_ok_def)
      with xs show ?thesis by (intro exI[of _ "c # as"] exI[of _ bs]) simp
    next
      case False
      let ?i = "length xs"
      have "(utf8_char c @ utf8 cs) ! ?i = (utf8 ps @ ys) ! 0"
        unfolding bytes by (simp add: nth_append)
      then have at: "utf8_char c ! ?i = word_of_nat (lead_of p)"
        using False nth_append[of "utf8_char c" "utf8 cs" ?i] by (simp add: ps utf8_char_parts[of p])
      obtain j where j: "?i = Suc j" "j < length (tail_of c)"
        using \<open>xs \<noteq> []\<close> False by (cases xs) (auto simp flip: length_utf8_char simp: utf8_char_parts)
      then have tail: "utf8_char c ! ?i = word_of_nat (tail_of c ! j)" by (simp add: utf8_char_parts)
      have "tail_of c ! j \<in> set (tail_of c)" using j(2) by simp
      then have "0x80 \<le> tail_of c ! j \<and> tail_of c ! j < 0xC0" by (rule tail_range)
      moreover have "scalar_ok p" using assms(2) ps by (simp add: text_ok_def)
      then have "lead_of p < 0x80 \<or> 0xC0 \<le> lead_of p \<and> lead_of p < 256" by (rule lead_range)
      ultimately have "(word_of_nat (tail_of c ! j) :: u8) \<noteq> word_of_nat (lead_of p)" by (auto simp: byte_inject)
      with at tail show ?thesis by simp
    qed
  qed
qed

end
