(* ===== verification/TokenizerProps.thy ===== *)
theory TokenizerProps
  imports Tokenizer BpeProps Utf8Code
begin

text \<open>
  The special-token partition of \<open>src/tokenizer/mod.rs\<close>: a special token found in the bytes of a text lies
  between two characters, and the fragments keep covering the text.
\<close>

section \<open>The partition covers the text\<close>

text \<open>Fragments that tile the characters from one position to another, a token standing for an
  occurrence of its special text.\<close>

fun covers :: "special list \<Rightarrow> ustr \<Rightarrow> nat \<Rightarrow> fragment list \<Rightarrow> nat \<Rightarrow> bool" where
  "covers ss txt k [] n \<longleftrightarrow> k = n"
| "covers ss txt k (FragText s l # fs) n \<longleftrightarrow> (\<exists>m. k < m \<and> m \<le> length txt \<and> s = off txt k \<and>
     l = off txt m - off txt k \<and> covers ss txt m fs n)"
| "covers ss txt k (FragToken tok # fs) n \<longleftrightarrow> (\<exists>m. k < m \<and> m \<le> length txt \<and>
     (\<exists>sp. sp \<in> set ss \<and> sp_id sp = tok \<and> sp_text sp = seg txt k m) \<and> covers ss txt m fs n)"

lemma covers_append: "covers ss txt k (xs @ ys) n \<longleftrightarrow> (\<exists>m. covers ss txt k xs m \<and> covers ss txt m ys n)"
proof (induction xs arbitrary: k)
  case (Cons f xs)
  then show ?case by (cases f) auto
qed simp

lemma covers_end: "covers ss txt k fs n \<Longrightarrow> k \<le> length txt \<Longrightarrow> n \<le> length txt"
proof (induction fs arbitrary: k)
  case (Cons f fs)
  then show ?case by (cases f) auto
qed simp

lemma off_le_iff: "i \<le> length cs \<Longrightarrow> j \<le> length cs \<Longrightarrow> off cs i \<le> off cs j \<longleftrightarrow> i \<le> j"
  using off_less[of j i cs] off_mono[of i j cs] by (cases "i \<le> j") auto

definition special_ok :: "special \<Rightarrow> bool" where
  "special_ok sp \<longleftrightarrow> text_ok (sp_text sp) \<and> sp_text sp \<noteq> []"

lemma find_special:
  assumes "text_ok txt" "special_ok sp" "k \<le> m" "m \<le> length txt"
  obtains (absent) "find_bytes (utf8 txt) (utf8 (sp_text sp)) (off txt k) (off txt m) = Some None"
  | (found) p q where "find_bytes (utf8 txt) (utf8 (sp_text sp)) (off txt k) (off txt m) = Some (Some (off txt p))"
      "k \<le> p" "p < q" "q \<le> m" "sp_text sp = seg txt p q" "off txt q = off txt p + byte_len (sp_text sp)"
proof -
  let ?raw = "utf8 txt" and ?ps = "sp_text sp"
  have ps: "text_ok ?ps" "?ps \<noteq> []" using assms(2) by (auto simp: special_ok_def)
  have top: "off txt m \<le> length ?raw" using off_le_total[OF assms(4)] by simp
  let ?range = "[off txt k..<Suc (off txt m - byte_len ?ps)]"
  let ?P = "\<lambda>i. take (byte_len ?ps) (drop i ?raw) = utf8 ?ps"
  show thesis
  proof (cases "off txt k + byte_len ?ps > off txt m \<or> find ?P ?range = None")
    case True
    then have "find_bytes ?raw (utf8 ?ps) (off txt k) (off txt m) = Some None"
      using top by (auto simp: find_bytes_def)
    then show thesis by (rule absent)
  next
    case False
    then obtain i where i: "find ?P ?range = Some i" "off txt k + byte_len ?ps \<le> off txt m" by auto
    have ne: "utf8 ?ps \<noteq> []" using ps(2) by (metis byte_len_eq_0 length_0_conv length_utf8)
    have "i \<in> set ?range \<and> ?P i" using i(1) by (auto simp: find_Some_iff simp del: upt_Suc)
    then have P: "?P i" "off txt k \<le> i" "i + byte_len ?ps \<le> off txt m" using i(2) by auto
    have "?raw = take i ?raw @ utf8 ?ps @ drop (i + byte_len ?ps) ?raw"
      using P(1) by (metis append_take_drop_id drop_drop add.commute)
    from utf8_occurrence[OF assms(1) ps this] obtain as bs where
        cut: "txt = as @ ?ps @ bs" "take i ?raw = utf8 as" by blast
    have "i \<le> length ?raw" using P(3) top by simp
    then have "byte_len as = i" using arg_cong[OF cut(2), of length] by simp
    let ?p = "length as" and ?q = "length as + length ?ps"
    have p: "off txt ?p = i" "off txt ?q = i + byte_len ?ps"
      using \<open>byte_len as = i\<close> unfolding off_def by (simp_all add: cut(1))
    have le: "?p \<le> length txt" "?q \<le> length txt" by (simp_all add: cut(1))
    have "k \<le> ?p" "?q \<le> m"
      using off_le_iff[of k "txt" ?p] off_le_iff[of ?q "txt" m] p P(2,3) le assms(3,4) by auto
    moreover have "?ps = seg txt ?p ?q" by (simp add: cut(1) seg_def)
    moreover have "?p < ?q" using ps(2) by simp
    moreover have "find_bytes ?raw (utf8 ?ps) (off txt k) (off txt m) = Some (Some (off txt ?p))"
      using i top ne unfolding p by (simp add: find_bytes_def)
    ultimately show thesis using found[of ?p ?q] p by simp
  qed
qed

lemma split_special_covers:
  assumes ok: "text_ok txt" "special_ok sp" "sp \<in> set ss"
    and "covers ss txt 0 pre k" "k < m" "m \<le> length txt" "covers ss txt m post n"
  shows "\<exists>fs tot'. split_special (utf8 txt) (utf8 (sp_text sp)) (sp_id sp)
      (pre @ FragText (off txt k) (off txt m - off txt k) # post) (length pre) (off txt k) (off txt m - off txt k) tot
        = Some (fs, tot') \<and> covers ss txt 0 fs n \<and>
      (tot' = tot \<and> length fs = length pre + 1 + length post \<or>
       tot < tot' \<and> length fs + tot < length pre + 1 + length post + tot')"
  using assms(4,5)
proof (induction "m - k" arbitrary: pre k tot rule: less_induct)
  case less
  let ?raw = "utf8 txt" and ?ps = "utf8 (sp_text sp)"
  let ?fs = "pre @ FragText (off txt k) (off txt m - off txt k) # post"
  have sum_off: "off txt k + (off txt m - off txt k) = off txt m" using off_mono[of k m "txt"] less.prems by simp
  show ?case
  proof (cases rule: find_special[OF ok(1,2) less_imp_le[OF less.prems(2)] assms(6), case_names absent found])
    case absent
    have "covers ss txt 0 ?fs n"
      using less.prems assms(6,7) by (auto simp: covers_append)
    then show ?thesis by (subst split_special.simps) (simp add: sum_off absent)
  next
    case (found p q)
    let ?right = "if q < m then [FragText (off txt q) (off txt m - off txt q)] else []"
    let ?left = "if k < p then [FragText (off txt k) (off txt p - off txt k)] else []"
    have rest: "off txt m - off txt q > 0 \<longleftrightarrow> q < m"
      using off_less[of q m "txt"] found(4) assms(6) by (cases "q = m") auto
    have left: "off txt p > off txt k \<longleftrightarrow> k < p"
      using off_less[of k p "txt"] found assms(6) by (cases "k = p") auto
    define rp where "rp = replacement_of (sp_id sp) (off txt k) (off txt p) (off txt q) (off txt m - off txt q)"
    have repl: "rp = ?left @ [FragToken (sp_id sp)] @ ?right"
      using rest left by (simp add: replacement_of_def rp_def)
    have splice: "splice_at (length pre) rp ?fs = Some (pre @ rp @ post)"
      by (simp add: splice_at_def)
    have step: "split_special ?raw ?ps (sp_id sp) ?fs (length pre) (off txt k) (off txt m - off txt k) tot =
        (if off txt m - off txt q = 0 then Some (pre @ rp @ post, tot + length rp)
         else split_special ?raw ?ps (sp_id sp) (pre @ rp @ post) (length pre + (length rp - 1)) (off txt q)
           (off txt m - off txt q) (tot + length rp))"
      by (subst split_special.simps)
        (auto simp: sum_off found(1) found(6)[symmetric] Let_def rp_def splice[unfolded rp_def] simp del: diff_is_0_eq)
    have "covers ss txt k ?left p" using found(2-4) assms(6) by auto
    moreover have "covers ss txt p [FragToken (sp_id sp)] q" using found(3-5) assms(6) ok(3) by auto
    ultimately have cov: "covers ss txt 0 (pre @ ?left @ [FragToken (sp_id sp)]) q"
      using less.prems(1) unfolding covers_append by blast
    show ?thesis
    proof (cases "q < m")
      case True
      have "m - q < m - k" using found(2,3) True by simp
      from less.hyps[OF this cov True, of "tot + length (?left @ [FragToken (sp_id sp)] @ ?right)"]
      obtain fs tot' where IH: "split_special ?raw ?ps (sp_id sp)
          ((pre @ ?left @ [FragToken (sp_id sp)]) @ FragText (off txt q) (off txt m - off txt q) # post)
          (length (pre @ ?left @ [FragToken (sp_id sp)])) (off txt q) (off txt m - off txt q)
          (tot + length (?left @ [FragToken (sp_id sp)] @ ?right)) = Some (fs, tot')" "covers ss txt 0 fs n"
          "tot' = tot + length (?left @ [FragToken (sp_id sp)] @ ?right) \<and>
             length fs = length (pre @ ?left @ [FragToken (sp_id sp)]) + 1 + length post \<or>
           tot + length (?left @ [FragToken (sp_id sp)] @ ?right) < tot' \<and>
             length fs + (tot + length (?left @ [FragToken (sp_id sp)] @ ?right))
               < length (pre @ ?left @ [FragToken (sp_id sp)]) + 1 + length post + tot'" by blast
      have "split_special ?raw ?ps (sp_id sp) ?fs (length pre) (off txt k) (off txt m - off txt k) tot = Some (fs, tot')"
      proof -
        have "pre @ rp @ post = (pre @ ?left @ [FragToken (sp_id sp)]) @ FragText (off txt q) (off txt m - off txt q) # post"
          "length pre + (length rp - 1) = length (pre @ ?left @ [FragToken (sp_id sp)])"
          "length rp = length (?left @ [FragToken (sp_id sp)] @ ?right)"
          using True unfolding repl by simp_all
        moreover have "off txt m - off txt q \<noteq> 0" using rest True by simp
        ultimately show ?thesis using IH(1) unfolding step by metis
      qed
      moreover have "tot < tot' \<and> length fs + tot < length pre + 1 + length post + tot'"
        using IH(3) True by (auto split: if_splits)
      ultimately show ?thesis using IH(2) by blast
    next
      case False
      then have "q = m" using found(4) by simp
      let ?out = "pre @ (?left @ [FragToken (sp_id sp)]) @ post"
      have "split_special ?raw ?ps (sp_id sp) ?fs (length pre) (off txt k) (off txt m - off txt k) tot =
          Some (?out, tot + length (?left @ [FragToken (sp_id sp)]))"
      proof -
        have "off txt m - off txt q = 0" using \<open>q = m\<close> by simp
        moreover have "rp = ?left @ [FragToken (sp_id sp)]" using False unfolding repl by simp
        ultimately show ?thesis unfolding step by (simp only: if_True refl append.assoc)
      qed
      moreover have "covers ss txt 0 ?out n"
      proof -
        have "covers ss txt 0 ((pre @ ?left @ [FragToken (sp_id sp)]) @ post) n"
          unfolding covers_append[of _ _ _ _ post] using cov assms(7) unfolding \<open>q = m\<close> by blast
        then show ?thesis by (simp only: append.assoc)
      qed
      moreover have "length ?out + tot < length pre + 1 + length post + (tot + length (?left @ [FragToken (sp_id sp)]))"
        by simp
      ultimately show ?thesis by fastforce
    qed
  qed
qed

lemma partition_loop_covers:
  assumes ok: "text_ok txt" "special_ok sp" "sp \<in> set ss" and "covers ss txt 0 fs n"
  shows "\<exists>fs'. partition_loop (utf8 txt) (utf8 (sp_text sp)) (sp_id sp) i fs = Some fs' \<and> covers ss txt 0 fs' n"
  using assms(4)
proof (induction "length fs - i" arbitrary: i fs rule: less_induct)
  case less
  show ?case
  proof (cases "i < length fs")
    case False
    with less.prems show ?thesis by (subst partition_loop.simps) simp
  next
    case True
    have split: "fs = take i fs @ fs ! i # drop (Suc i) fs" using True by (simp add: id_take_nth_drop)
    show ?thesis
    proof (cases "fs ! i")
      case (FragToken tok)
      with less.hyps[of fs "i + 1"] less.prems True show ?thesis by (subst partition_loop.simps) simp
    next
      case (FragText s l)
      have "covers ss txt 0 (take i fs @ FragText s l # drop (Suc i) fs) n" using less.prems split FragText by metis
      then obtain k m where km: "covers ss txt 0 (take i fs) k" "k < m" "m \<le> length txt"
          "s = off txt k" "l = off txt m - off txt k" "covers ss txt m (drop (Suc i) fs) n"
        by (auto simp: covers_append)
      have fs: "take i fs @ FragText (off txt k) (off txt m - off txt k) # drop (Suc i) fs = fs"
          "length (take i fs) = i" "i + 1 + length (drop (Suc i) fs) = length fs"
        using split True unfolding FragText km(4,5) by auto
      from split_special_covers[OF ok km(1-3,6), of 0, unfolded fs(1,2), unfolded fs(3)] obtain fs' tot' where r0:
          "split_special (utf8 txt) (utf8 (sp_text sp)) (sp_id sp) fs i (off txt k) (off txt m - off txt k) 0 = Some (fs', tot')"
          "covers ss txt 0 fs' n" "tot' = 0 \<and> length fs' = length fs \<or> 0 < tot' \<and> length fs' + 0 < length fs + tot'"
        by blast
      then have r: "split_special (utf8 txt) (utf8 (sp_text sp)) (sp_id sp) fs i s l 0 = Some (fs', tot')" "covers ss txt 0 fs' n"
          "tot' = 0 \<and> length fs' = length fs \<or> 0 < tot' \<and> length fs' < length fs + tot'"
        by (simp_all add: km(4,5))
      let ?j = "i + (if tot' = 0 then 1 else tot')"
      have "length fs' - ?j < length fs - i" using r(3) True by auto
      from less.hyps[OF this r(2)] r(1) True FragText show ?thesis by (subst partition_loop.simps) auto
    qed
  qed
qed

lemma partition_specials_covers:
  assumes "text_ok txt" "\<forall>sp \<in> set ss. special_ok sp"
    and "covers active txt 0 fs n" "\<forall>sp \<in> set ss. parse \<or> sp_kind sp = SkUserDefined \<longrightarrow> sp \<in> set active"
  shows "\<exists>fs'. partition_specials parse txt ss fs = Some fs' \<and> covers active txt 0 fs' n"
  using assms(2-4)
proof (induction ss arbitrary: fs)
  case (Cons sp ss)
  show ?case
  proof (cases "\<not> parse \<and> (sp_kind sp = SkControl \<or> sp_kind sp = SkUnknown)")
    case False
    then have "parse \<or> sp_kind sp = SkUserDefined" by (cases "sp_kind sp") auto
    then have "sp \<in> set active" using Cons.prems(3) by (meson list.set_intros(1))
    from partition_loop_covers[OF assms(1) _ this Cons.prems(2), of 0] Cons.prems(1)
    obtain fs1 where "partition_fragments fs txt sp = Some fs1" "covers active txt 0 fs1 n"
      by (auto simp: partition_fragments_def)
    with Cons.IH[of fs1] Cons.prems False show ?thesis by auto
  qed (use Cons in auto)
qed simp

end
