(* ===== verification/EncodeProps.thy ===== *)
theory EncodeProps
  imports TokenizerProps
begin

text \<open>
  The encoding of \<open>src/tokenizer/mod.rs\<close> end to end: the partition, the pre-tokenizer and the merge stage
  composed, for a tokenizer the constructor accepted.
\<close>

section \<open>Words\<close>

lemma pre_tokenize_words:
  "\<exists>spans words. pre_tokenize_smollm chars = Some spans \<and>
     map (\<lambda>(s, l). str_get chars s (s + l)) spans = map Some words \<and> concat words = chars"
proof -
  obtain ws where ws: "pre_tokenize_smollm chars = Some (map (\<lambda>(s, e). (off chars s, off chars e - off chars s)) ws)"
      "tiles 0 ws (length chars)"
    using pre_tokenize_spans[of chars] by (auto simp: word_spans_def)
  with word_slices[OF ws(2)] show ?thesis by blast
qed

definition words_of :: "ustr \<Rightarrow> ustr list" where
  "words_of chars = (case pre_tokenize_smollm chars of
     None \<Rightarrow> [] | Some spans \<Rightarrow> map (\<lambda>(s, l). the (str_get chars s (s + l))) spans)"

lemma words_of_spans:
  obtains spans where "pre_tokenize_smollm chars = Some spans"
    "map (\<lambda>(s, l). str_get chars s (s + l)) spans = map Some (words_of chars)" "concat (words_of chars) = chars"
proof -
  obtain spans words where w: "pre_tokenize_smollm chars = Some spans"
      "map (\<lambda>(s, l). str_get chars s (s + l)) spans = map Some words" "concat words = chars"
    using pre_tokenize_words by blast
  have "words_of chars = map the (map (\<lambda>(s, l). str_get chars s (s + l)) spans)"
    by (simp add: words_of_def w(1) comp_def split_def)
  then have "words_of chars = words" unfolding w(2) by simp
  with w show thesis using that[of spans] by simp
qed

lemma byte_len_concat_mem: "x \<in> set xss \<Longrightarrow> byte_len x \<le> byte_len (concat xss)"
  by (induction xss) auto

lemma byte_len_le_4: "byte_len cs \<le> 4 * length cs"
  by (induction cs) (auto simp: len_utf8_def)

lemma byte_len_byte_encode: "byte_len (byte_encode w) \<le> 4 * byte_len w"
  using byte_len_le_4[of "byte_encode w"] by (simp add: byte_encode_def)

definition word_ids :: "gpt2_tokenizer \<Rightarrow> ustr \<Rightarrow> u32 list" where
  "word_ids tk w = concat (map (piece_ids (tk_token_to_id tk) (tk_byte_fallback tk))
     (bpe_reference (tk_bpe_ranks tk) (map (\<lambda>c. [c]) (byte_encode w))))"

lemma encode_words_eq:
  assumes "map (\<lambda>(s, l). str_get frag s (s + l)) spans = map Some ws" "list_all (\<lambda>w. byte_len w < 2 ^ 62) ws"
  shows "encode_words tk frag spans out = Some (emit_all (concat (map (word_ids tk) ws)) out)"
  using assms
proof (induction tk frag spans out arbitrary: ws rule: encode_words.induct)
  case (2 tk frag s l spans out)
  then obtain w ws' where ws: "ws = w # ws'" "str_get frag s (s + l) = Some w"
      "map (\<lambda>(s, l). str_get frag s (s + l)) spans = map Some ws'" by (cases ws) auto
  have "byte_len (byte_encode w) < 2 ^ 64"
    using byte_len_byte_encode[of w] 2(3) by (simp add: ws(1))
  note enc = bpe_encode_word_pieces[OF this]
  have small: "list_all (\<lambda>w. byte_len w < 2 ^ 62) ws'" using 2(3) ws(1) by simp
  show ?case
  proof (cases "emit_all (word_ids tk w) out")
    case (Inr out')
    from "2.IH"[OF ws(2) enc Inr[unfolded word_ids_def] ws(3) small] Inr enc show ?thesis
      by (simp add: ws(1,2) word_ids_def[symmetric] emit_all_append)
  qed (use enc in \<open>simp add: ws(1,2) word_ids_def[symmetric] emit_all_append\<close>)
qed (simp add: emit_all_def)

section \<open>Parts of the text\<close>

datatype text_part = SpecialPart special | PlainPart ustr

fun part_text :: "text_part \<Rightarrow> ustr" where
  "part_text (SpecialPart sp) = sp_text sp"
| "part_text (PlainPart t) = t"

fun part_ids :: "gpt2_tokenizer \<Rightarrow> text_part \<Rightarrow> u32 list" where
  "part_ids tk (SpecialPart sp) = [sp_id sp]"
| "part_ids tk (PlainPart t) = concat (map (word_ids tk) (words_of t))"

fun denotes :: "ustr \<Rightarrow> fragment \<Rightarrow> text_part \<Rightarrow> bool" where
  "denotes txt (FragToken tok) (SpecialPart sp) \<longleftrightarrow> sp_id sp = tok"
| "denotes txt (FragText s l) (PlainPart t) \<longleftrightarrow> str_get txt s (s + l) = Some t"
| "denotes txt _ _ \<longleftrightarrow> False"

fun part_ok :: "special list \<Rightarrow> text_part \<Rightarrow> bool" where
  "part_ok ss (SpecialPart sp) \<longleftrightarrow> sp \<in> set ss"
| "part_ok ss (PlainPart t) \<longleftrightarrow> t \<noteq> []"

lemma covers_le: "covers ss txt k fs n \<Longrightarrow> k \<le> n"
  by (induction ss "txt" k fs n rule: covers.induct) fastforce+

lemma covers_parts:
  "covers ss txt k fs n \<Longrightarrow> k \<le> length txt \<Longrightarrow>
   \<exists>parts. list_all2 (denotes txt) fs parts \<and> concat (map part_text parts) = seg txt k n \<and> list_all (part_ok ss) parts"
proof (induction ss "txt" k fs n rule: covers.induct)
  case (2 ss cs k s l fs n)
  then obtain m where m: "k < m" "m \<le> length cs" "s = off cs k" "l = off cs m - off cs k" "covers ss cs m fs n" by auto
  from "2.IH"[OF m(5,2)] obtain parts where p: "list_all2 (denotes cs) fs parts"
      "concat (map part_text parts) = seg cs m n" "list_all (part_ok ss) parts" by blast
  have "m \<le> n" using covers_le[OF m(5)] .
  have "denotes cs (FragText s l) (PlainPart (seg cs k m))"
    using m str_get_off[of k m cs] off_mono[of k m cs] by simp
  moreover have "seg cs k m \<noteq> []" using length_seg[of m cs k] m(1,2) by auto
  moreover have "seg cs k m @ seg cs m n = seg cs k n" using seg_append[of k m n cs] m(1) \<open>m \<le> n\<close> by simp
  ultimately show ?case using p by (intro exI[of _ "PlainPart (seg cs k m) # parts"]) simp
next
  case (3 ss cs k tok fs n)
  then obtain m sp where m: "k < m" "m \<le> length cs" "sp \<in> set ss" "sp_id sp = tok" "sp_text sp = seg cs k m"
      "covers ss cs m fs n" by auto
  from "3.IH"[OF m(6,2)] obtain parts where p: "list_all2 (denotes cs) fs parts"
      "concat (map part_text parts) = seg cs m n" "list_all (part_ok ss) parts" by blast
  have "m \<le> n" using covers_le[OF m(6)] .
  then have "sp_text sp @ seg cs m n = seg cs k n" using seg_append[of k m n cs] m(1,5) by simp
  then show ?case using p m by (intro exI[of _ "SpecialPart sp # parts"]) simp
qed (simp add: seg_def)

lemma encode_fragments_eq:
  assumes "list_all2 (denotes txt) fs parts"
    "list_all (\<lambda>p. byte_len (part_text p) < 2 ^ 62) parts"
    "\<forall>sp. SpecialPart sp \<in> set parts \<longrightarrow> unat (sp_id sp) < tk_vocab_size tk"
  shows "encode_fragments tk txt fs out = Some (emit_all (concat (map (part_ids tk) parts)) out)"
  using assms
proof (induction fs parts arbitrary: out rule: list_all2_induct)
  case (Cons f fs p parts)
  have one: "encode_fragment tk txt f out = Some (emit_all (part_ids tk p) out)"
  proof (cases f)
    case (FragToken tok)
    with Cons.hyps(1) obtain sp where p: "p = SpecialPart sp" "sp_id sp = tok" by (cases p) auto
    then have "unat tok < tk_vocab_size tk" using Cons.prems(2) by auto
    then show ?thesis using p FragToken by (auto simp: encode_fragment_def emit_all_def emit_id_def)
  next
    case (FragText s l)
    with Cons.hyps(1) obtain t where p: "p = PlainPart t" "str_get txt s (s + l) = Some t" by (cases p) auto
    obtain spans where spans: "pre_tokenize_smollm t = Some spans"
        "map (\<lambda>(s, l). str_get t s (s + l)) spans = map Some (words_of t)" "concat (words_of t) = t"
      by (rule words_of_spans)
    have "byte_len w < 2 ^ 62" if "w \<in> set (words_of t)" for w
      using byte_len_concat_mem[OF that] Cons.prems(1) p(1) spans(3) by simp
    then have "list_all (\<lambda>w. byte_len w < 2 ^ 62) (words_of t)" by (simp add: list_all_iff)
    from encode_words_eq[OF spans(2) this] show ?thesis
      by (simp add: encode_fragment_def FragText p spans(1))
  qed
  with Cons show ?case by (auto simp: emit_all_append split: sum.split)
qed (simp add: emit_all_def)

section \<open>The tokenizer the constructor accepts\<close>

lemma scan_tokens_nonempty: "scan_tokens i ts m fb = Inr r \<Longrightarrow> t \<in> set ts \<Longrightarrow> t \<noteq> []"
  by (induction i ts m fb arbitrary: r rule: scan_tokens.induct) (auto simp: Let_def split: if_splits)

lemma collect_specials_mem:
  "sp \<in> set (collect_specials i ps) \<Longrightarrow>
   \<exists>k<length ps. sp_text sp = fst (ps ! k) \<and> sp_id sp = word_of_nat (i + k)"
proof (induction i ps rule: collect_specials.induct)
  case (2 i t ttype rest)
  show ?case
  proof (cases "sp \<in> set (collect_specials (i + 1) rest)")
    case True
    then obtain k where "k < length rest" "sp_text sp = fst (rest ! k)" "sp_id sp = word_of_nat (i + 1 + k)"
      using 2 by (auto split: option.splits)
    then show ?thesis by (intro exI[of _ "Suc k"]) auto
  next
    case False
    with 2 show ?thesis by (intro exI[of _ 0]) (auto split: option.splits)
  qed
qed simp

lemma tokenizer_new_facts:
  assumes "tokenizer_new tfs = Inr tk"
  shows "tk_vocab_size tk = 49152"
    and "sp \<in> set (tk_specials tk) \<Longrightarrow> sp_text sp \<in> set (tf_tokens tfs) \<and> sp_text sp \<noteq> [] \<and> unat (sp_id sp) < 49152"
proof -
  have ok: "check_facts tfs = None" using assms by (auto simp: tokenizer_new_def split: option.splits)
  then have len: "length (tf_tokens tfs) = 49152" by (auto simp: check_facts_def expected_vocab_size_def split: if_splits)
  obtain maps where scan: "scan_tokens 0 (tf_tokens tfs) Map.empty (\<lambda>_. - 1) = Inr maps"
    using assms ok by (auto simp: tokenizer_new_def Let_def split: sum.splits)
  have tk: "tk_vocab_size tk = length (tf_tokens tfs)"
      "tk_specials tk = sort_specials (collect_specials 0 (zip (tf_tokens tfs) (tf_token_types tfs)))"
    using assms ok by (auto simp: tokenizer_new_def Let_def split: sum.splits option.splits prod.splits if_splits)
  show "tk_vocab_size tk = 49152" using tk len by simp
  assume "sp \<in> set (tk_specials tk)"
  then have "sp \<in> set (collect_specials 0 (zip (tf_tokens tfs) (tf_token_types tfs)))"
    by (simp add: tk sort_specials_def)
  from collect_specials_mem[OF this] obtain k where k: "k < length (tf_tokens tfs)"
      "sp_text sp = tf_tokens tfs ! k" "sp_id sp = word_of_nat k" by auto
  have "unat (sp_id sp) = k" using k(1,3) len by (simp add: unat_of_nat)
  then show "sp_text sp \<in> set (tf_tokens tfs) \<and> sp_text sp \<noteq> [] \<and> unat (sp_id sp) < 49152"
    using k len scan_tokens_nonempty[OF scan, of "sp_text sp"] by simp
qed


definition example_tokenizer_facts :: tokenizer_facts where
  "example_tokenizer_facts = \<lparr>tf_model = lit ''gpt2'', tf_pre = lit ''smollm'',
     tf_tokens = replicate 49152 (lit ''a''), tf_token_types = replicate 49152 1,
     tf_merges = replicate 48900 (lit ''a b''), tf_scores_present = False, tf_bos_token_id = 1,
     tf_eos_token_id = 2, tf_pad_token_id = 2, tf_unk_token_id = 0, tf_add_bos_token = False,
     tf_add_space_prefix = False\<rparr>"

lemma scan_replicated_tokens: "\<exists>r. scan_tokens i (replicate n (lit ''a'')) m fb = Inr r"
  by (induction n arbitrary: i m fb) (simp_all add: utf8_char_def max_token_string_bytes_def)

lemma scan_replicated_merges: "\<exists>r. scan_merges i (replicate n (lit ''a b'')) m = Inr r"
  by (induction n arbitrary: i m) (simp_all add: utf8_char_def max_merge_string_bytes_def max_token_string_bytes_def)

lemma collect_normal_tokens: "collect_specials i (replicate n (t, 1)) = []"
  by (induction n arbitrary: i) (simp_all add: kind_of_type_def)

lemma example_tokenizer: "\<exists>tk. tokenizer_new example_tokenizer_facts = Inr tk"
proof -
  let ?f = example_tokenizer_facts
  obtain m fb where r: "scan_tokens 0 (tf_tokens ?f) Map.empty (\<lambda>_. - 1) = Inr (m, fb)"
    using scan_replicated_tokens by (fastforce simp: example_tokenizer_facts_def)
  obtain q where q: "scan_merges 0 (tf_merges ?f) Map.empty = Inr q"
    using scan_replicated_merges by (fastforce simp: example_tokenizer_facts_def)
  have "check_facts ?f = None"
    by (simp add: check_facts_def example_tokenizer_facts_def tokenizer_model_def tokenizer_pre_def
        expected_vocab_size_def expected_merges_def)
  moreover have "check_ids (length (tf_tokens ?f))
      [tf_bos_token_id ?f, tf_eos_token_id ?f, tf_pad_token_id ?f, tf_unk_token_id ?f] = None"
    by (simp add: example_tokenizer_facts_def)
  moreover have "collect_specials 0 (zip (tf_tokens ?f) (tf_token_types ?f)) = []"
    by (simp add: example_tokenizer_facts_def collect_normal_tokens del: replicate.simps)
  ultimately show ?thesis
    by (simp add: tokenizer_new_def r q Let_def)
qed


text \<open>The outer loop advances by the length of every replacement, although the right part of one is cut
  again by the next match: with three or more matches in one fragment it skips fragments that follow,
  and a special token there stays plain text.\<close>

lemma partition_skips_fragments:
  "partition_specials True (lit ''xAxAxAxBBxA'')
     [\<lparr>sp_text = lit ''BB'', sp_id = 1, sp_kind = SkControl\<rparr>, \<lparr>sp_text = lit ''A'', sp_id = 2, sp_kind = SkControl\<rparr>]
     [FragText 0 11] =
   Some [FragText 0 1, FragToken 2, FragText 2 1, FragToken 2, FragText 4 1, FragToken 2, FragText 6 1,
     FragToken 1, FragText 9 2]"
  by (simp add: partition_fragments_def utf8_char_def partition_loop.simps split_special.simps find_bytes_def
      replacement_of_def splice_at_def upt_rec)

end
