(* ===== verification/Instans.thy ===== *)
theory Instans
  imports Json "HOL-Library.Signed_Division"
begin

text \<open>
  The points in time of \<open>src/instans.rs\<close>: nanoseconds since the Unix epoch with a declared precision,
  the civil calendar, the RFC3339 wire form and its parser. An \<open>i64\<close> is an integer of its range, an
  unchecked product wraps; the years, months and days are integers, small against their widths. The
  outer \<open>None\<close> of the parser is a panic of a slice, the inner one the \<open>None\<close> it returns.
\<close>

section \<open>Precision and truncation\<close>

definition in_i64 :: "int \<Rightarrow> bool" where
  "in_i64 v \<longleftrightarrow> - (2 ^ 63) \<le> v \<and> v < 2 ^ 63"

definition i64_wrap :: "int \<Rightarrow> int" where
  "i64_wrap v = (v + 2 ^ 63) mod 2 ^ 64 - 2 ^ 63"

definition i64_checked :: "int \<Rightarrow> int option" where
  "i64_checked v = (if in_i64 v then Some v else None)"

definition i64_saturating :: "int \<Rightarrow> int" where
  "i64_saturating v = max (- (2 ^ 63)) (min v (2 ^ 63 - 1))"

definition nanos_per_second :: int where "nanos_per_second = 1000000000"

definition nanos_per_milli :: int where "nanos_per_milli = 1000000"

definition nanos_per_micro :: int where "nanos_per_micro = 1000"

definition seconds_per_minute :: int where "seconds_per_minute = 60"

definition seconds_per_hour :: int where "seconds_per_hour = 3600"

definition nanos_per_day :: int where "nanos_per_day = seconds_per_hour * 24 * nanos_per_second"

datatype instans_praecisio = Secunda | Millisecunda | Microsecunda | Nanosecunda

fun praecisio_rank :: "instans_praecisio \<Rightarrow> nat" where
  "praecisio_rank Secunda = 0"
| "praecisio_rank Millisecunda = 1"
| "praecisio_rank Microsecunda = 2"
| "praecisio_rank Nanosecunda = 3"

fun modulus_nanos :: "instans_praecisio \<Rightarrow> int" where
  "modulus_nanos Secunda = nanos_per_second"
| "modulus_nanos Millisecunda = nanos_per_milli"
| "modulus_nanos Microsecunda = nanos_per_micro"
| "modulus_nanos Nanosecunda = 1"

definition truncate_nanos :: "instans_praecisio \<Rightarrow> int \<Rightarrow> int" where
  "truncate_nanos p nanos = i64_wrap (nanos div modulus_nanos p * modulus_nanos p)"

fun fraction_digits :: "instans_praecisio \<Rightarrow> nat" where
  "fraction_digits Secunda = 0"
| "fraction_digits Millisecunda = 3"
| "fraction_digits Microsecunda = 6"
| "fraction_digits Nanosecunda = 9"

record instans =
  it_nanos :: int
  it_praecisio :: instans_praecisio

definition instans_from_nanos :: "int \<Rightarrow> instans_praecisio \<Rightarrow> instans" where
  "instans_from_nanos nanos p = \<lparr>it_nanos = truncate_nanos p nanos, it_praecisio = p\<rparr>"

definition from_epoch_seconds :: "int \<Rightarrow> instans_praecisio \<Rightarrow> instans" where
  "from_epoch_seconds seconds p = instans_from_nanos (i64_saturating (seconds * nanos_per_second)) p"

definition from_epoch_millis :: "int \<Rightarrow> instans_praecisio \<Rightarrow> instans" where
  "from_epoch_millis millis p = instans_from_nanos (i64_saturating (millis * nanos_per_milli)) p"

definition from_epoch_micros :: "int \<Rightarrow> instans_praecisio \<Rightarrow> instans" where
  "from_epoch_micros micros p = instans_from_nanos (i64_saturating (micros * nanos_per_micro)) p"

fun from_epoch_integer :: "int \<Rightarrow> instans_praecisio \<Rightarrow> instans" where
  "from_epoch_integer epoch Secunda = from_epoch_seconds epoch Secunda"
| "from_epoch_integer epoch Millisecunda = from_epoch_millis epoch Millisecunda"
| "from_epoch_integer epoch Microsecunda = from_epoch_micros epoch Microsecunda"
| "from_epoch_integer epoch Nanosecunda = instans_from_nanos epoch Nanosecunda"

definition ad_praecisionem :: "instans \<Rightarrow> instans_praecisio \<Rightarrow> instans" where
  "ad_praecisionem i p = instans_from_nanos (it_nanos i) p"

definition coarser_praecisio :: "instans_praecisio \<Rightarrow> instans_praecisio \<Rightarrow> instans_praecisio" where
  "coarser_praecisio a b = (if praecisio_rank a \<le> praecisio_rank b then a else b)"

text \<open>\<open>Ordering\<close> as a sign.\<close>

definition cmp_at_coarser :: "instans \<Rightarrow> instans \<Rightarrow> int" where
  "cmp_at_coarser a b =
     (let p = coarser_praecisio (it_praecisio a) (it_praecisio b);
          lhs = truncate_nanos p (it_nanos a); rhs = truncate_nanos p (it_nanos b)
      in if lhs < rhs then - 1 else if lhs = rhs then 0 else 1)"

section \<open>The civil calendar\<close>

text \<open>\<open>/\<close> and \<open>%\<close> of the source truncate toward zero: \<open>sdiv\<close> and \<open>smod\<close>.\<close>

definition is_leap_year :: "int \<Rightarrow> bool" where
  "is_leap_year year \<longleftrightarrow> year smod 4 = 0 \<and> year smod 100 \<noteq> 0 \<or> year smod 400 = 0"

definition month_days :: "int list" where
  "month_days = [31, 28, 31, 30, 31, 30, 31, 31, 30, 31, 30, 31]"

definition days_in_month :: "int \<Rightarrow> int \<Rightarrow> int" where
  "days_in_month year month =
     (let days = month_days ! nat (month - 1)
      in if month = 2 \<and> is_leap_year year then days + 1 else days)"

definition validate_civil_date :: "int \<Rightarrow> int \<Rightarrow> int \<Rightarrow> bool" where
  "validate_civil_date year month day \<longleftrightarrow>
     (if \<not> (1 \<le> month \<and> month \<le> 12) then False
      else let max_day = days_in_month year month in 1 \<le> day \<and> day \<le> max_day)"

definition validate_time_of_day :: "int \<Rightarrow> int \<Rightarrow> int \<Rightarrow> bool" where
  "validate_time_of_day hour minute second \<longleftrightarrow> \<not> (hour > 23 \<or> minute > 59 \<or> second > 59)"

definition days_from_civil :: "int \<Rightarrow> int \<Rightarrow> int \<Rightarrow> int" where
  "days_from_civil year month day =
     (let y = year - (if month \<le> 2 then 1 else 0);
          era = (if y \<ge> 0 then y else y - 399) sdiv 400;
          yoe = y - era * 400;
          doy = (153 * (if month > 2 then month - 3 else month + 9) + 2) sdiv 5 + day - 1;
          doe = yoe * 365 + yoe sdiv 4 - yoe sdiv 100 + doy
      in era * 146097 + doe - 719468)"

definition civil_from_days :: "int \<Rightarrow> int \<times> int \<times> int" where
  "civil_from_days z0 =
     (let z = z0 + 719468;
          era = (if z \<ge> 0 then z else z - 146096) sdiv 146097;
          doe = z - era * 146097;
          yoe = (doe - doe sdiv 1460 + doe sdiv 36524 - doe sdiv 146096) sdiv 365;
          y = yoe + era * 400;
          doy = doe - (365 * yoe + yoe sdiv 4 - yoe sdiv 100);
          mp = (5 * doy + 2) sdiv 153;
          d = doy - (153 * mp + 2) sdiv 5 + 1;
          m = (if mp < 10 then mp + 3 else mp - 9);
          y = (if m \<le> 2 then y + 1 else y)
      in (y, m, d))"

section \<open>The wire form\<close>

text \<open>\<open>{:0w}\<close> of an unsigned and of a signed number.\<close>

definition zero_pad :: "nat \<Rightarrow> nat \<Rightarrow> ustr" where
  "zero_pad w n = replicate (w - length (show_nat n)) 48 @ lit (show_nat n)"

definition zero_pad_int :: "nat \<Rightarrow> int \<Rightarrow> ustr" where
  "zero_pad_int w v = (if v < 0 then 45 # zero_pad (w - 1) (nat (- v)) else zero_pad w (nat v))"

definition format_rfc3339_utc :: "int \<Rightarrow> instans_praecisio \<Rightarrow> ustr" where
  "format_rfc3339_utc nanos p =
     (let truncated = truncate_nanos p nanos;
          day_index = truncated div nanos_per_day;
          nanos_of_day = truncated mod nanos_per_day;
          (year, month, day) = civil_from_days day_index;
          secs_of_day = nanos_of_day div nanos_per_second;
          nanos_remainder = nanos_of_day mod nanos_per_second;
          hour = secs_of_day div seconds_per_hour;
          minute = secs_of_day mod seconds_per_hour div seconds_per_minute;
          second = secs_of_day mod seconds_per_minute;
          out = zero_pad_int 4 year @ [45] @ zero_pad 2 (nat month) @ [45] @ zero_pad 2 (nat day) @ [84] @
            zero_pad 2 (nat hour) @ [58] @ zero_pad 2 (nat minute) @ [58] @ zero_pad 2 (nat second);
          digits = fraction_digits p;
          out = (if digits > 0
                 then out @ [46] @ zero_pad digits (nat (nanos_remainder div 10 ^ (9 - digits)))
                 else out)
      in out @ [90])"

definition to_rfc3339 :: "instans \<Rightarrow> ustr" where
  "to_rfc3339 i = format_rfc3339_utc (it_nanos i) (it_praecisio i)"

definition valor_of_instans :: "instans \<Rightarrow> 'f valor" where
  "valor_of_instans i = InstansText (to_rfc3339 i)"

section \<open>The parser\<close>

text \<open>\<open>str::parse\<close> for unsigned and signed integers below a bound: an optional sign, then digits.\<close>

definition parse_digits :: "ustr \<Rightarrow> nat option" where
  "parse_digits ds = (if ds \<noteq> [] \<and> list_all is_digit ds then Some (digits_value ds) else None)"

definition parse_u32 :: "ustr \<Rightarrow> int option" where
  "parse_u32 s = (case parse_digits (case s of c # ds \<Rightarrow> if c = 43 then ds else s | [] \<Rightarrow> []) of
     None \<Rightarrow> None | Some n \<Rightarrow> if n < 2 ^ 32 then Some (int n) else None)"

definition parse_signed :: "nat \<Rightarrow> ustr \<Rightarrow> int option" where
  "parse_signed w s =
     (let neg = (s \<noteq> [] \<and> hd s = 45)
      in case parse_digits (case s of c # ds \<Rightarrow> if c = 43 \<or> c = 45 then ds else s | [] \<Rightarrow> []) of
           None \<Rightarrow> None
         | Some n \<Rightarrow> let v = (if neg then - int n else int n)
                     in if - (2 ^ (w - 1)) \<le> v \<and> v < 2 ^ (w - 1) then Some v else None)"

definition expect_char :: "ustr \<Rightarrow> nat \<Rightarrow> u8 \<Rightarrow> unit option" where
  "expect_char input index expected =
     (if index < byte_len input \<and> utf8 input ! index = expected then Some () else None)"

definition split_once :: "nat \<Rightarrow> ustr \<Rightarrow> (ustr \<times> ustr) option" where
  "split_once c s =
     (if c \<in> set s then Some (takeWhile (\<lambda>x. x \<noteq> c) s, tl (dropWhile (\<lambda>x. x \<noteq> c) s)) else None)"

definition parse_date :: "ustr \<Rightarrow> (int \<times> int \<times> int) option" where
  "parse_date date =
     (if byte_len date \<noteq> 10 then None
      else Option.bind (str_get date 0 4) (\<lambda>t. Option.bind (parse_signed 32 t) (\<lambda>year.
           Option.bind (expect_char date 4 45) (\<lambda>_.
           Option.bind (str_get date 5 7) (\<lambda>t. Option.bind (parse_u32 t) (\<lambda>month.
           Option.bind (expect_char date 7 45) (\<lambda>_.
           Option.bind (str_get date 8 10) (\<lambda>t. Option.bind (parse_u32 t) (\<lambda>day.
           Some (year, month, day))))))))))"

definition offset_hhmm_minutes :: "int \<Rightarrow> int \<Rightarrow> int option" where
  "offset_hhmm_minutes hour minute = (if hour > 23 \<or> minute > 59 then None else Some (hour * 60 + minute))"

text \<open>The \<open>?\<close> operator on an option, where a slice may panic around it.\<close>

definition orelse_return :: "'a option \<Rightarrow> ('a \<Rightarrow> 'b option option) \<Rightarrow> 'b option option" where
  "orelse_return x f = (case x of None \<Rightarrow> Some None | Some v \<Rightarrow> f v)"

definition parse_numeric_offset :: "ustr \<Rightarrow> int option option" where
  "parse_numeric_offset zone =
     (let with_sign = (\<lambda>sign.
        Option.bind (str_get zone 1 (byte_len zone)) (\<lambda>rest.
          case split_once 58 rest of
            Some (hours, mins) \<Rightarrow>
              orelse_return (parse_u32 hours) (\<lambda>h. orelse_return (parse_u32 mins) (\<lambda>m.
              orelse_return (offset_hhmm_minutes h m) (\<lambda>minutes. Some (Some (sign * minutes)))))
          | None \<Rightarrow>
              if byte_len rest = 4
              then orelse_return (Option.bind (str_get rest 0 2) parse_u32) (\<lambda>h.
                   orelse_return (Option.bind (str_get rest 2 4) parse_u32) (\<lambda>m.
                   orelse_return (offset_hhmm_minutes h m) (\<lambda>minutes. Some (Some (sign * minutes)))))
              else if byte_len rest = 2
              then orelse_return (parse_u32 rest) (\<lambda>h.
                   orelse_return (offset_hhmm_minutes h 0) (\<lambda>minutes. Some (Some (sign * minutes))))
              else Some None))
      in case utf8 zone of
           [] \<Rightarrow> Some None
         | b # _ \<Rightarrow> if b = 43 then with_sign 1 else if b = 45 then with_sign (- 1) else Some None)"

definition parse_offset :: "ustr \<Rightarrow> int option option" where
  "parse_offset zone =
     (if zone = [] then Some None
      else if zone \<in> {lit ''Z'', lit ''z'', lit ''+00:00'', lit ''-00:00''} then Some (Some 0)
      else parse_numeric_offset zone)"

text \<open>\<open>while cursor < rest.len() && rest.as_bytes()[cursor].is_ascii_digit()\<close>.\<close>

function digit_run :: "bytes \<Rightarrow> nat \<Rightarrow> nat" where
  "digit_run bs cursor =
     (if cursor < length bs \<and> 48 \<le> bs ! cursor \<and> bs ! cursor \<le> 57 then digit_run bs (cursor + 1) else cursor)"
  by pat_completeness auto
termination
  by (relation "measure (\<lambda>(bs, cursor). length bs - cursor)") auto

declare digit_run.simps [simp del]

definition parse_fraction :: "ustr \<Rightarrow> (nat \<times> int) option option" where
  "parse_fraction rest =
     (if 8 < byte_len rest \<and> utf8 rest ! 8 = 46
      then let start = 9; cursor = digit_run (utf8 rest) start in
        if start = cursor then Some None
        else Option.bind (str_get rest start cursor) (\<lambda>digits.
          let padded = digits @ replicate (9 - length digits) 48 in
          orelse_return (Option.bind (str_get padded 0 9) (parse_signed 64)) (\<lambda>n. Some (Some (cursor, n))))
      else Some (Some (8, 0)))"

definition parse_time_and_offset :: "ustr \<Rightarrow> (int \<times> int \<times> int \<times> int \<times> int) option option" where
  "parse_time_and_offset rest =
     (if byte_len rest < 8 then Some None
      else orelse_return (Option.bind (str_get rest 0 2) parse_u32) (\<lambda>hour.
           orelse_return (expect_char rest 2 58) (\<lambda>_.
           orelse_return (Option.bind (str_get rest 3 5) parse_u32) (\<lambda>minute.
           orelse_return (expect_char rest 5 58) (\<lambda>_.
           orelse_return (Option.bind (str_get rest 6 8) parse_u32) (\<lambda>second.
           Option.bind (parse_fraction rest) (\<lambda>f. orelse_return f (\<lambda>(cursor, fraction_nanos).
           Option.bind (str_get rest cursor (byte_len rest)) (\<lambda>zone.
           Option.bind (parse_offset zone) (\<lambda>off. orelse_return off (\<lambda>offset_minutes.
           Some (Some (hour, minute, second, fraction_nanos, offset_minutes)))))))))))))"

definition civil_datetime_nanos :: "int \<Rightarrow> int \<Rightarrow> int \<Rightarrow> int \<Rightarrow> int \<Rightarrow> int \<Rightarrow> int \<Rightarrow> int option" where
  "civil_datetime_nanos year month day hour minute second fraction_nanos =
     Option.bind (i64_checked (days_from_civil year month day * nanos_per_day)) (\<lambda>day_nanos.
     Option.bind (i64_checked (hour * seconds_per_hour)) (\<lambda>hs.
     Option.bind (i64_checked (minute * seconds_per_minute)) (\<lambda>ms.
     Option.bind (i64_checked (hs + ms)) (\<lambda>hms.
     Option.bind (i64_checked (hms + second)) (\<lambda>seconds_of_day.
     Option.bind (i64_checked (seconds_of_day * nanos_per_second)) (\<lambda>sn.
     Option.bind (i64_checked (sn + fraction_nanos)) (\<lambda>time_nanos.
     i64_checked (day_nanos + time_nanos))))))))"

definition offset_minutes_to_nanos :: "int \<Rightarrow> int option" where
  "offset_minutes_to_nanos offset_minutes =
     Option.bind (i64_checked (offset_minutes * 60)) (\<lambda>s. i64_checked (s * nanos_per_second))"

definition parse_rfc3339 :: "ustr \<Rightarrow> int option option" where
  "parse_rfc3339 input =
     orelse_return (case split_once 84 input of Some r \<Rightarrow> Some r | None \<Rightarrow> split_once 116 input) (\<lambda>(date, rest).
     orelse_return (parse_date date) (\<lambda>(year, month, day).
     Option.bind (parse_time_and_offset rest) (\<lambda>t. orelse_return t (\<lambda>(hour, minute, second, fraction_nanos, offset_minutes).
     if \<not> validate_civil_date year month day then Some None
     else if \<not> validate_time_of_day hour minute second then Some None
     else orelse_return (civil_datetime_nanos year month day hour minute second fraction_nanos) (\<lambda>local_nanos.
          orelse_return (offset_minutes_to_nanos offset_minutes) (\<lambda>offset_nanos.
          Some (i64_checked (local_nanos - offset_nanos))))))))"

definition from_rfc3339 :: "ustr \<Rightarrow> instans_praecisio \<Rightarrow> instans option option" where
  "from_rfc3339 txt p = Option.bind (parse_rfc3339 txt) (\<lambda>r. orelse_return r (\<lambda>nanos.
     Some (Some (instans_from_nanos nanos p))))"

definition instans_try_from_valor :: "'f valor \<Rightarrow> instans_praecisio \<Rightarrow> instans option option" where
  "instans_try_from_valor v p = (case v of
     InstansText txt \<Rightarrow> Option.bind (parse_rfc3339 txt) (\<lambda>r. orelse_return r (\<lambda>nanos.
       Some (Some (instans_from_nanos nanos p))))
   | Textus txt \<Rightarrow> Option.bind (parse_rfc3339 txt) (\<lambda>r. orelse_return r (\<lambda>nanos.
       Some (Some (instans_from_nanos nanos p))))
   | Numerus epoch \<Rightarrow> Some (Some (from_epoch_integer (sint epoch) p))
   | _ \<Rightarrow> Some None)"

end
