(* ===== verification/InstansProps.thy ===== *)
theory InstansProps
  imports Instans Utf8Code
begin

text \<open>
  The properties of \<open>src/instans.rs\<close>: the calendar is a bijection, the wire form reads back and the parser
  never panics; with the places where truncation, ordering and parsing leave the documented contract.
\<close>

section \<open>The calendar\<close>

lemma sdiv_nonneg: "0 \<le> a \<Longrightarrow> 0 < b \<Longrightarrow> (a :: int) sdiv b = a div b"
  by (cases "a = 0") (simp_all add: signed_divide_int_def)

lemma smod_eq_0: "0 < b \<Longrightarrow> (a :: int) smod b = 0 \<longleftrightarrow> a mod b = 0"
  by (auto simp: signed_modulo_int_def mod_eq_0_iff_dvd sgn_if abs_if)

lemma sdiv_floor:
  assumes "0 < b" "c = b - 1"
  shows "(if a \<ge> 0 then a else a - c) sdiv b = (a :: int) div b"
proof (cases "a \<ge> 0")
  case False
  have "0 < b" by (rule assms(1))
  have "(a - (b - 1)) sdiv b = - ((b - 1 - a) div b)"
    using False \<open>0 < b\<close> by (simp add: signed_divide_int_def sgn_if)
  also have "\<dots> = a div b"
  proof -
    define q where "q = a div b"
    define r where "r = a mod b"
    have a: "a = b * q + r" "0 \<le> r" "r < b" using \<open>0 < b\<close> by (simp_all add: q_def r_def)
    have "(b - 1 - a) div b = - q"
      by (rule int_div_pos_eq[of _ _ _ "b - 1 - r"]) (use a in \<open>simp_all add: algebra_simps\<close>)
    then show ?thesis by (simp add: q_def)
  qed
  finally show ?thesis using False assms(2) by simp
qed (use assms in \<open>simp add: sdiv_nonneg\<close>)

definition year_start :: "int \<Rightarrow> int" where
  "year_start y = 365 * y + y div 4 - y div 100"

definition year_of_day :: "int \<Rightarrow> int" where
  "year_of_day d = (d - d div 1460 + d div 36524 - d div 146096) div 365"

definition leap :: "int \<Rightarrow> bool" where
  "leap y \<longleftrightarrow> y mod 4 = 0 \<and> y mod 100 \<noteq> 0 \<or> y mod 400 = 0"

definition year_length :: "int \<Rightarrow> int" where
  "year_length y = (if leap (y + 1) then 366 else 365)"

lemma year_table: "\<forall>y \<in> set [0..399]. year_of_day (year_start y) = y \<and>
    year_of_day (year_start y + year_length y - 1) = y \<and>
    year_start (y + 1) = year_start y + year_length y - (if y = 399 then 1 else 0)"
  by code_simp

definition month_of_day :: "int \<Rightarrow> int" where
  "month_of_day doy = (5 * doy + 2) div 153"

definition march_month :: "int \<Rightarrow> int" where
  "march_month m = (if m > 2 then m - 3 else m + 9)"

definition month_of :: "int \<Rightarrow> int" where
  "month_of doy = (if month_of_day doy < 10 then month_of_day doy + 3 else month_of_day doy - 9)"

definition day_of :: "int \<Rightarrow> int" where
  "day_of doy = doy - (153 * month_of_day doy + 2) div 5 + 1"

definition day_of_year :: "int \<Rightarrow> int \<Rightarrow> int" where
  "day_of_year m d = (153 * march_month m + 2) div 5 + d - 1"

lemma month_table: "\<forall>doy \<in> set [0..365].
    1 \<le> month_of doy \<and> month_of doy \<le> 12 \<and> 1 \<le> day_of doy \<and>
    day_of doy \<le> (if month_of doy = 2 then 28 + (if doy = 365 then 1 else 0) else month_days ! nat (month_of doy - 1)) \<and>
    (doy = 365 \<longrightarrow> month_of doy = 2) \<and> day_of_year (month_of doy) (day_of doy) = doy"
  by code_simp

lemma day_table: "\<forall>m \<in> set [1..12]. \<forall>d \<in> set [1..(if m = 2 then 29 else month_days ! nat (m - 1))].
    0 \<le> day_of_year m d \<and> day_of_year m d < 366 \<and> (day_of_year m d = 365 \<longleftrightarrow> m = 2 \<and> d = 29) \<and>
    month_of (day_of_year m d) = m \<and> day_of (day_of_year m d) = d"
  by code_simp

lemma year_of_day_mono:
  assumes "0 \<le> a" "a \<le> b" "b < 146096"
  shows "year_of_day a \<le> year_of_day b"
proof -
  have "b div 1460 \<le> (a + (b - a) * 1460) div 1460" using assms by (intro zdiv_mono1) auto
  also have "\<dots> = a div 1460 + (b - a)" by simp
  finally have "a - a div 1460 \<le> b - b div 1460" by simp
  moreover have "a div 36524 \<le> b div 36524" using assms by (intro zdiv_mono1) auto
  moreover have "a div 146096 = 0" "b div 146096 = 0" using assms by auto
  ultimately have "a - a div 1460 + a div 36524 - a div 146096 \<le> b - b div 1460 + b div 36524 - b div 146096" by linarith
  then show ?thesis unfolding year_of_day_def by (rule zdiv_mono1) simp
qed

lemma year_entry:
  assumes "0 \<le> y" "y \<le> 399"
  shows "year_of_day (year_start y) = y" "year_of_day (year_start y + year_length y - 1) = y"
    "year_start (y + 1) = year_start y + year_length y - (if y = 399 then 1 else 0)"
  using year_table assms by auto

lemma year_start_399: "year_start 399 + year_length 399 = 146097" "year_start 0 = 0"
  by (simp_all add: year_start_def year_length_def leap_def)

lemma year_length_cases: "year_length y = 365 \<or> year_length y = 366"
  by (simp add: year_length_def)

lemma year_start_mono: "a \<le> b \<Longrightarrow> 0 \<le> a \<Longrightarrow> b \<le> 400 \<Longrightarrow> year_start a \<le> year_start b"
proof -
  assume "a \<le> b" "0 \<le> a" "b \<le> 400"
  have "b div 100 \<le> (a + (b - a) * 100) div 100" using \<open>a \<le> b\<close> by (intro zdiv_mono1) auto
  also have "\<dots> = a div 100 + (b - a)" by simp
  finally have "b div 100 \<le> a div 100 + (b - a)" .
  moreover have "a div 4 \<le> b div 4" using \<open>a \<le> b\<close> by (intro zdiv_mono1) auto
  ultimately show ?thesis using \<open>a \<le> b\<close> unfolding year_start_def by linarith
qed

lemma year_of_day_eq:
  assumes "0 \<le> y" "y \<le> 399" "0 \<le> doy" "doy < year_length y"
  shows "year_of_day (year_start y + doy) = y"
proof (cases "year_start y + doy = 146096")
  case True
  have "y = 399"
  proof (rule ccontr)
    assume "y \<noteq> 399"
    then have "year_start y + doy < year_start (y + 1)" using year_entry(3)[of y] assms by simp
    also have "\<dots> \<le> year_start 399" using \<open>y \<noteq> 399\<close> assms by (intro year_start_mono) auto
    finally show False using True by (simp add: year_start_def)
  qed
  then show ?thesis unfolding True by (simp add: year_of_day_def)
next
  case False
  let ?d = "year_start y + doy"
  have "0 \<le> year_start y" using year_start_mono[of 0 y] assms by (simp add: year_start_399)
  have "?d < 146096"
  proof (cases "y = 399")
    case True
    then show ?thesis using assms(4) False year_start_399(1) by simp
  next
    case nl: False
    then have "?d < year_start (y + 1)" using year_entry(3)[of y] assms by simp
    also have "\<dots> \<le> year_start 400" using assms nl by (intro year_start_mono) auto
    finally show ?thesis by (simp add: year_start_def)
  qed
  have "year_of_day (year_start y) \<le> year_of_day ?d"
    using \<open>0 \<le> year_start y\<close> assms \<open>?d < 146096\<close> by (intro year_of_day_mono) auto
  moreover have "year_of_day ?d \<le> y"
  proof (cases "year_start y + year_length y - 1 < 146096")
    case True
    then show ?thesis
      using year_of_day_mono[of ?d "year_start y + year_length y - 1"] \<open>0 \<le> year_start y\<close> assms year_entry(2)[of y] by simp
  next
    case no: False
    have "y = 399"
    proof (rule ccontr)
      assume "y \<noteq> 399"
      then have "year_start y + year_length y = year_start (y + 1)" using year_entry(3)[of y] assms by simp
      also have "\<dots> \<le> year_start 399" using \<open>y \<noteq> 399\<close> assms by (intro year_start_mono) auto
      finally show False using no by (simp add: year_start_def)
    qed
    moreover have "year_of_day ?d \<le> year_of_day 146095"
      using \<open>0 \<le> year_start y\<close> assms \<open>?d < 146096\<close> by (intro year_of_day_mono) auto
    ultimately show ?thesis by (simp add: year_of_day_def)
  qed
  ultimately show ?thesis using year_entry(1)[of y] assms by simp
qed

lemma year_of_day_exists:
  assumes "0 \<le> d" "d < 146097"
  shows "\<exists>y doy. d = year_start y + doy \<and> 0 \<le> y \<and> y \<le> 399 \<and> 0 \<le> doy \<and> doy < year_length y"
  using assms
proof (induction d rule: int_ge_induct)
  case base
  show ?case by (rule exI[of _ 0], rule exI[of _ 0]) (simp add: year_start_399 year_length_def)
next
  case (step d)
  then obtain y doy where y: "d = year_start y + doy" "0 \<le> y" "y \<le> 399" "0 \<le> doy" "doy < year_length y" by auto
  show ?case
  proof (cases "doy + 1 < year_length y")
    case True
    with y show ?thesis by (intro exI[of _ y] exI[of _ "doy + 1"]) auto
  next
    case False
    then have doy: "doy + 1 = year_length y" using y by simp
    then have "y \<noteq> 399" using y step.prems year_start_399 by auto
    with y doy year_entry(3)[of y] year_length_cases[of "y + 1"] show ?thesis
      by (intro exI[of _ "y + 1"] exI[of _ 0]) auto
  qed
qed

lemma month_entry:
  assumes "0 \<le> doy" "doy < 366"
  shows "1 \<le> month_of doy" "month_of doy \<le> 12" "1 \<le> day_of doy"
    "day_of doy \<le> (if month_of doy = 2 then 28 + (if doy = 365 then 1 else 0) else month_days ! nat (month_of doy - 1))"
    "doy = 365 \<Longrightarrow> month_of doy = 2" "day_of_year (month_of doy) (day_of doy) = doy"
proof -
  have "doy \<in> set [0..365]" using assms by auto
  note t = bspec[OF month_table this]
  show "1 \<le> month_of doy" "month_of doy \<le> 12" "1 \<le> day_of doy"
    "day_of doy \<le> (if month_of doy = 2 then 28 + (if doy = 365 then 1 else 0) else month_days ! nat (month_of doy - 1))"
    "doy = 365 \<Longrightarrow> month_of doy = 2" "day_of_year (month_of doy) (day_of doy) = doy"
    using t by blast+
qed

lemma day_entry:
  assumes "1 \<le> m" "m \<le> 12" "1 \<le> d" "d \<le> (if m = 2 then 29 else month_days ! nat (m - 1))"
  shows "0 \<le> day_of_year m d" "day_of_year m d < 366" "day_of_year m d = 365 \<longleftrightarrow> m = 2 \<and> d = 29"
    "month_of (day_of_year m d) = m" "day_of (day_of_year m d) = d"
proof -
  have "m \<in> set [1..12]" "d \<in> set [1..(if m = 2 then 29 else month_days ! nat (m - 1))]" using assms by auto
  note t = bspec[OF bspec[OF day_table this(1)] this(2)]
  show "0 \<le> day_of_year m d" "day_of_year m d < 366" "day_of_year m d = 365 \<longleftrightarrow> m = 2 \<and> d = 29"
    "month_of (day_of_year m d) = m" "day_of (day_of_year m d) = d" using t by blast+
qed

lemma leap_cong: "leap (y + 400 * k) = leap y"
proof -
  have "(y + 400 * k) mod n = y mod n" if "n dvd 400" for n
    using that by (metis dvd_mult2 mod_add_right_eq mod_eq_0_iff_dvd add.right_neutral)
  then show ?thesis by (simp add: leap_def)
qed

lemma is_leap_year_eq: "is_leap_year y \<longleftrightarrow> leap y"
  by (simp add: is_leap_year_def leap_def smod_eq_0)

text \<open>A date as an era, a year of it and a day of the year that starts in March.\<close>

definition march_year :: "int \<Rightarrow> int \<Rightarrow> int" where
  "march_year y m = y - (if m \<le> 2 then 1 else 0)"

lemma days_from_civil_eq:
  assumes "1 \<le> m" "m \<le> 12" "1 \<le> d"
  shows "days_from_civil y m d = march_year y m div 400 * 146097 + year_start (march_year y m mod 400)
    + day_of_year m d - 719468"
proof -
  let ?y = "march_year y m"
  have era: "(if ?y \<ge> 0 then ?y else ?y - 399) sdiv 400 = ?y div 400" by (rule sdiv_floor) simp_all
  have yoe: "?y - ?y div 400 * 400 = ?y mod 400" by (simp add: minus_div_mult_eq_mod)
  have "(153 * march_month m + 2) sdiv 5 = (153 * march_month m + 2) div 5"
    using assms by (intro sdiv_nonneg) (auto simp: march_month_def)
  moreover have "(?y mod 400) sdiv 4 = ?y mod 400 div 4" "(?y mod 400) sdiv 100 = ?y mod 400 div 100"
    by (simp_all add: sdiv_nonneg)
  ultimately show ?thesis
    unfolding days_from_civil_def Let_def march_year_def[symmetric] era yoe march_month_def[symmetric]
    by (simp add: year_start_def day_of_year_def)
qed

lemma civil_from_days_eq:
  assumes "z + 719468 = era * 146097 + year_start yoe + doy" "0 \<le> yoe" "yoe \<le> 399" "0 \<le> doy" "doy < year_length yoe"
  shows "civil_from_days z =
    (yoe + era * 400 + (if month_of doy \<le> 2 then 1 else 0), month_of doy, day_of doy)"
proof -
  let ?z = "z + 719468" and ?d = "year_start yoe + doy"
  have d: "0 \<le> ?d" "?d < 146097"
  proof -
    show "0 \<le> ?d" using year_start_mono[of 0 yoe] assms by (simp add: year_start_399)
    have "?d < year_start yoe + year_length yoe" using assms by simp
    also have "\<dots> \<le> 146097"
    proof (cases "yoe = 399")
      case False
      then have "year_start yoe + year_length yoe = year_start (yoe + 1)" using year_entry(3)[of yoe] assms by simp
      also have "\<dots> \<le> year_start 400" using assms False by (intro year_start_mono) auto
      finally show ?thesis by (simp add: year_start_def)
    qed (simp add: year_start_399)
    finally show "?d < 146097" .
  qed
  have "?z = 146097 * era + ?d" using assms(1) by simp
  then have era: "?z div 146097 = era" by (rule int_div_pos_eq) (use d in auto)
  have e: "(if ?z \<ge> 0 then ?z else ?z - 146096) sdiv 146097 = era"
    unfolding era[symmetric] by (rule sdiv_floor) simp_all
  have doe: "?z - era * 146097 = ?d" unfolding assms(1) by simp
  have yoe: "year_of_day ?d = yoe" by (rule year_of_day_eq[OF assms(2-5)])
  have num: "0 \<le> ?d - ?d div 1460 + ?d div 36524 - ?d div 146096"
  proof -
    have "?d div 1460 \<le> ?d" using zdiv_mono2[OF d(1), of 1 1460] by simp
    moreover have "?d div 146096 \<le> ?d div 36524" by (rule zdiv_mono2) (use d in auto)
    ultimately show ?thesis by linarith
  qed
  have y: "(?d - ?d sdiv 1460 + ?d sdiv 36524 - ?d sdiv 146096) sdiv 365 = yoe"
    using d yoe num by (simp add: sdiv_nonneg year_of_day_def)
  have doy: "?d - (365 * yoe + yoe sdiv 4 - yoe sdiv 100) = doy"
    using assms by (simp add: sdiv_nonneg year_start_def)
  have mp: "(5 * doy + 2) sdiv 153 = month_of_day doy" using assms by (simp add: sdiv_nonneg month_of_day_def)
  have "0 \<le> month_of_day doy" using assms by (simp add: month_of_day_def)
  then have dd: "doy - (153 * month_of_day doy + 2) sdiv 5 + 1 = day_of doy" by (simp add: sdiv_nonneg day_of_def)
  show ?thesis
    unfolding civil_from_days_def Let_def e doe y doy mp dd by (simp add: month_of_def)
qed

lemma days_in_month_eq: "1 \<le> m \<Longrightarrow> m \<le> 12 \<Longrightarrow>
    days_in_month y m = (if m = 2 then 28 + (if leap y then 1 else 0) else month_days ! nat (m - 1))"
  by (simp add: days_in_month_def is_leap_year_eq month_days_def)

lemma month_days_le: "1 \<le> m \<Longrightarrow> m \<le> 12 \<Longrightarrow> month_days ! nat (m - 1) \<le> 31"
proof -
  assume "1 \<le> m" "m \<le> 12"
  then have "month_days ! nat (m - 1) \<in> set month_days" by (intro nth_mem) (simp add: month_days_def)
  then show ?thesis by (auto simp: month_days_def)
qed

lemma civil_from_days_inverse:
  assumes "civil_from_days z = (y, m, d)"
  shows "validate_civil_date y m d" "days_from_civil y m d = z"
proof -
  define era where "era = (z + 719468) div 146097"
  obtain yoe doy where doe: "(z + 719468) mod 146097 = year_start yoe + doy" "0 \<le> yoe" "yoe \<le> 399"
      "0 \<le> doy" "doy < year_length yoe"
    using year_of_day_exists[of "(z + 719468) mod 146097"] by auto
  have z: "z + 719468 = era * 146097 + year_start yoe + doy"
    using doe(1) div_mult_mod_eq[of "z + 719468" 146097] by (simp add: era_def)
  have doy: "doy < 366" using doe(5) year_length_cases[of yoe] by auto
  note entry = month_entry[OF doe(4) doy]
  have ymd: "y = yoe + era * 400 + (if m \<le> 2 then 1 else 0)" "m = month_of doy" "d = day_of doy"
    using assms civil_from_days_eq[OF z doe(2-5)] by auto
  have my: "march_year y m = yoe + era * 400" by (simp add: march_year_def ymd(1))
  have "(yoe + era * 400) div 400 = era" "(yoe + era * 400) mod 400 = yoe"
    using doe(2,3) by (simp_all add: div_mult_self3 mod_mult_self3)
  then show "days_from_civil y m d = z"
    using days_from_civil_eq[of m d y] entry z unfolding ymd(2,3) my[unfolded ymd(2)] by simp
  have "d \<le> days_in_month y m"
  proof (cases "m = 2 \<and> doy = 365")
    case True
    then have "leap (yoe + 1)" using doe(5) by (auto simp: year_length_def split: if_splits)
    moreover have "y = yoe + 1 + 400 * era" using ymd(1) True by simp
    ultimately have "leap y" using leap_cong by simp
    have "d \<le> 29" using entry(4) True unfolding ymd(3)[symmetric] ymd(2)[symmetric] by simp
    with \<open>leap y\<close> True show ?thesis by (simp add: days_in_month_eq)
  next
    case False
    have "d \<le> (if m = 2 then 28 + (if doy = 365 then 1 else 0) else month_days ! nat (m - 1))"
      using entry(4) unfolding ymd(2,3) .
    then show ?thesis using entry(1,2,5) False unfolding ymd(2)[symmetric]
      by (auto simp: days_in_month_eq split: if_splits)
  qed
  then show "validate_civil_date y m d"
    using entry(1-3) by (simp add: validate_civil_date_def ymd(2,3))
qed

lemma civil_days_inverse:
  assumes "validate_civil_date y m d"
  shows "civil_from_days (days_from_civil y m d) = (y, m, d)"
proof -
  have v: "1 \<le> m" "m \<le> 12" "1 \<le> d" "d \<le> days_in_month y m"
    using assms by (auto simp: validate_civil_date_def split: if_splits)
  then have "d \<le> (if m = 2 then 29 else month_days ! nat (m - 1))"
    by (auto simp: days_in_month_eq split: if_splits)
  note entry = day_entry[OF v(1-3) this]
  let ?y = "march_year y m"
  have len: "day_of_year m d < year_length (?y mod 400)"
  proof (cases "day_of_year m d = 365")
    case True
    then have "m = 2" "d = 29" using entry(3) by auto
    then have "leap y" using v(4) by (auto simp: days_in_month_eq split: if_splits)
    moreover have "y = ?y mod 400 + 1 + 400 * (?y div 400)"
      using \<open>m = 2\<close> by (simp add: march_year_def)
    ultimately have "leap (?y mod 400 + 1)" using leap_cong by metis
    then show ?thesis using entry(2) by (simp add: year_length_def)
  next
    case False
    then show ?thesis using entry(2) by (auto simp: year_length_def)
  qed
  have z: "days_from_civil y m d + 719468 = ?y div 400 * 146097 + year_start (?y mod 400) + day_of_year m d"
    using days_from_civil_eq[OF v(1-3), of y] by simp
  have "?y mod 400 \<le> 399" using pos_mod_bound[of 400 ?y] by simp
  from civil_from_days_eq[OF z _ this entry(1) len]
  show ?thesis unfolding entry(4,5) by (simp add: march_year_def)
qed


section \<open>Digits of the wire form\<close>

definition digits_n :: "nat \<Rightarrow> ustr \<Rightarrow> bool" where
  "digits_n w ds \<longleftrightarrow> length ds = w \<and> list_all is_digit ds"

lemma digits_value_snoc_bound: "list_all is_digit ds \<Longrightarrow> digits_value ds < 10 ^ length ds"
proof (induction ds rule: rev_induct)
  case (snoc d ds)
  then have "digits_value ds < 10 ^ length ds" "d - 48 \<le> 9" by (auto simp: is_digit_def)
  then show ?case by (simp add: digits_value_append)
qed (simp add: digits_value_def)

lemma digits_value_zeroes: "digits_value (replicate k 48 @ ds) = digits_value ds"
proof (induction k)
  case (Suc k)
  then show ?case by (simp add: digits_value_def)
qed simp

lemma digits_value_pad: "digits_value (ds @ replicate k 48) = digits_value ds * 10 ^ k"
proof (induction k)
  case (Suc k)
  have "digits_value (ds @ replicate (Suc k) 48) = digits_value ((ds @ replicate k 48) @ [48])"
    by (simp add: replicate_append_same)
  then show ?case using Suc by (simp only: digits_value_append) simp
qed simp

lemma length_show_nat_le: "0 < w \<Longrightarrow> n < 10 ^ w \<Longrightarrow> length (show_nat n) \<le> w"
proof (induction n arbitrary: w rule: show_nat.induct)
  case (1 n)
  show ?case
  proof (cases "n < 10")
    case True
    then show ?thesis using 1 by (subst show_nat.simps) simp
  next
    case False
    then obtain v where w: "w = Suc v" "0 < v" using "1.prems" by (cases w; cases "w - 1") auto
    then have "n div 10 < 10 ^ v" using "1.prems"(2) by (simp add: less_mult_imp_div_less mult.commute)
    with "1.IH"[OF False w(2)] False w(1) show ?thesis by (subst show_nat.simps) simp
  qed
qed

lemma zero_pad_digits:
  assumes "0 < w" "n < 10 ^ w"
  shows "digits_n w (zero_pad w n)" "digits_value (zero_pad w n) = n"
proof -
  have "list_all is_digit (lit (show_nat n))" using show_nat_digits[of n] by (simp add: integer_digits_def all_digits_def)
  moreover have "is_digit 48" by (simp add: is_digit_def)
  ultimately show "digits_n w (zero_pad w n)"
    using length_show_nat_le[OF assms] by (auto simp: digits_n_def zero_pad_def list_all_iff)
  show "digits_value (zero_pad w n) = n"
    by (simp add: zero_pad_def digits_value_zeroes digits_value_show_nat)
qed

lemma parse_digits_n: "digits_n w ds \<Longrightarrow> 0 < w \<Longrightarrow> parse_digits ds = Some (digits_value ds)"
  by (auto simp: parse_digits_def digits_n_def)

lemma digits_n_start: "digits_n w ds \<Longrightarrow> 0 < w \<Longrightarrow> ds = c # cs \<Longrightarrow> c \<noteq> 43 \<and> c \<noteq> 45"
  by (auto simp: digits_n_def is_digit_def)

lemma parse_u32_digits:
  assumes "digits_n w ds" "0 < w" "w \<le> 9"
  shows "parse_u32 ds = Some (int (digits_value ds))"
proof -
  have "digits_value ds < 10 ^ w" using digits_value_snoc_bound[of ds] assms(1) by (simp add: digits_n_def)
  also have "\<dots> \<le> 10 ^ 9" using assms(3) by (intro power_increasing) auto
  finally have "digits_value ds < 2 ^ 32" by simp
  then show ?thesis using parse_digits_n[OF assms(1,2)] digits_n_start[OF assms(1,2)]
    by (cases ds) (auto simp: parse_u32_def)
qed

lemma parse_signed_digits:
  assumes "digits_n w ds" "0 < w" "w \<le> 9" "32 \<le> b"
  shows "parse_signed b ds = Some (int (digits_value ds))"
proof -
  have "digits_value ds < 10 ^ w" using digits_value_snoc_bound[of ds] assms(1) by (simp add: digits_n_def)
  also have "\<dots> \<le> 10 ^ 9" using assms(3) by (intro power_increasing) auto
  finally have "digits_value ds < 2 ^ 31" by simp
  moreover have "(2 :: nat) ^ 31 \<le> 2 ^ (b - 1)" using assms(4) by (intro power_increasing) auto
  ultimately have "digits_value ds < 2 ^ (b - 1)" by (rule less_le_trans)
  then have "int (digits_value ds) < 2 ^ (b - 1)" by (metis of_nat_less_iff of_nat_numeral of_nat_power)
  moreover have "- (2 ^ (b - 1)) \<le> int (digits_value ds)"
    by (rule order_trans[of _ 0]) simp_all
  ultimately show ?thesis using parse_digits_n[OF assms(1,2)] digits_n_start[OF assms(1,2)]
    by (cases ds) (auto simp: parse_signed_def Let_def)
qed

lemma digit_char: "is_digit c \<Longrightarrow> len_utf8 c = 1 \<and> utf8_char c = [word_of_nat c]"
  by (simp add: is_digit_def len_utf8_def utf8_char_def)

lemma digits_2: "digits_n 2 ds \<Longrightarrow> \<exists>a b. ds = [a, b] \<and> is_digit a \<and> is_digit b"
  by (auto simp: digits_n_def length_Suc_conv numeral_2_eq_2)

lemma digits_4: "digits_n 4 ds \<Longrightarrow> \<exists>a b c d. ds = [a, b, c, d] \<and> is_digit a \<and> is_digit b \<and> is_digit c \<and> is_digit d"
  by (auto simp: digits_n_def length_Suc_conv eval_nat_numeral)

lemma parse_date_digits:
  assumes "digits_n 4 y" "digits_n 2 m" "digits_n 2 d"
  shows "parse_date (y @ [45] @ m @ [45] @ d) = Some (int (digits_value y), int (digits_value m), int (digits_value d))"
proof -
  obtain y1 y2 y3 y4 where y: "y = [y1, y2, y3, y4]" "is_digit y1" "is_digit y2" "is_digit y3" "is_digit y4"
    using digits_4[OF assms(1)] by blast
  obtain m1 m2 where m: "m = [m1, m2]" "is_digit m1" "is_digit m2" using digits_2[OF assms(2)] by blast
  obtain d1 d2 where d: "d = [d1, d2]" "is_digit d1" "is_digit d2" using digits_2[OF assms(3)] by blast
  note c = digit_char[OF y(2)] digit_char[OF y(3)] digit_char[OF y(4)] digit_char[OF y(5)]
    digit_char[OF m(2)] digit_char[OF m(3)] digit_char[OF d(2)] digit_char[OF d(3)]
  have "parse_signed 32 [y1, y2, y3, y4] = Some (int (digits_value y))"
    using parse_signed_digits[OF assms(1)] by (simp add: y(1))
  moreover have "parse_u32 [m1, m2] = Some (int (digits_value m))" "parse_u32 [d1, d2] = Some (int (digits_value d))"
    using parse_u32_digits[OF assms(2)] parse_u32_digits[OF assms(3)] by (simp_all add: m(1) d(1))
  moreover have "len_utf8 45 = 1" "utf8_char 45 = [45]" by (simp_all add: len_utf8_def utf8_char_def)
  ultimately show ?thesis
    unfolding y(1) m(1) d(1) by (simp add: parse_date_def c str_get_def expect_char_def numeral_eq_Suc)
qed

lemma digit_byte: "is_digit c \<Longrightarrow> (48 :: u8) \<le> word_of_nat c \<and> (word_of_nat c :: u8) \<le> 57"
  by (simp add: is_digit_def word_le_nat_alt unat_of_nat)

lemma digit_run_digits:
  "list_all is_digit ds \<Longrightarrow> \<not> (48 \<le> b \<and> b \<le> 57) \<Longrightarrow>
   digit_run (xs @ map word_of_nat ds @ b # ys) (length xs) = length xs + length ds"
proof (induction ds arbitrary: xs)
  case Nil
  then show ?case by (subst digit_run.simps) auto
next
  case (Cons d ds)
  have "digit_run ((xs @ [word_of_nat d]) @ map word_of_nat ds @ b # ys) (length (xs @ [word_of_nat d])) =
      length (xs @ [word_of_nat d]) + length ds"
    by (rule Cons.IH) (use Cons.prems in auto)
  then show ?case using Cons.prems digit_byte[of d] by (subst digit_run.simps) (simp add: nth_append)
qed

lemma utf8_digits: "list_all is_digit ds \<Longrightarrow> utf8 ds = map word_of_nat ds \<and> byte_len ds = length ds"
  by (induction ds) (auto simp: digit_char)

definition fraction_text :: "ustr \<Rightarrow> bool" where
  "fraction_text F \<longleftrightarrow> F = [] \<or> (\<exists>ds. F = 46 # ds \<and> list_all is_digit ds \<and> ds \<noteq> [] \<and> length ds \<le> 9)"

definition fraction_value :: "ustr \<Rightarrow> nat" where
  "fraction_value F = (if F = [] then 0 else digits_value (tl F) * 10 ^ (9 - length (tl F)))"

lemma parse_fraction_digits:
  assumes hd: "length pre = 8" "byte_len pre = 8" "length (utf8 pre) = 8" and F: "fraction_text F"
  shows "parse_fraction (pre @ F @ [90]) = Some (Some (8 + byte_len F, int (fraction_value F)))"
proof (cases "F = []")
  case True
  have z: "utf8_char 90 = [90]" "len_utf8 90 = 1" by (simp_all add: utf8_char_def len_utf8_def)
  show ?thesis using hd by (simp add: True parse_fraction_def nth_append z fraction_value_def)
next
  case False
  then obtain ds where ds: "F = 46 # ds" "list_all is_digit ds" "ds \<noteq> []" "length ds \<le> 9"
    using F by (auto simp: fraction_text_def)
  have c: "utf8_char 90 = [90]" "utf8_char 46 = [46]" "len_utf8 46 = 1" by (simp_all add: utf8_char_def len_utf8_def)
  define rest where "rest = pre @ F @ [90]"
  have bytes: "utf8 rest = (utf8 pre @ [46]) @ map word_of_nat ds @ 90 # []"
    using utf8_digits[OF ds(2)] by (simp add: ds(1) c rest_def)
  have len: "byte_len F = 1 + length ds" using utf8_digits[OF ds(2)] by (simp add: ds(1) c)
  have run: "digit_run (utf8 rest) 9 = 9 + length ds"
    using digit_run_digits[OF ds(2), of 90 "utf8 pre @ [46]" "[]"] hd unfolding bytes by simp
  have slice: "str_get rest 9 (9 + length ds) = Some ds"
    using str_get_append[of "pre @ [46]" ds "[90]"] hd utf8_digits[OF ds(2)] by (simp add: ds(1) c rest_def)
  have at: "8 < byte_len rest" "utf8 rest ! 8 = 46"
    using hd len by (simp add: rest_def, simp only: bytes, simp add: nth_append)
  let ?p = "ds @ replicate (9 - length ds) 48"
  have p: "digits_n 9 ?p" using ds by (auto simp: digits_n_def is_digit_def list_all_iff)
  then have "byte_len ?p = 9" using utf8_digits[of ?p] by (simp add: digits_n_def del: byte_len_simps)
  then have whole: "str_get ?p 0 9 = Some ?p" using str_get_append[of "[]" ?p "[]"] by simp
  have "parse_signed 64 ?p = Some (int (fraction_value F))"
    using parse_signed_digits[OF p] by (simp add: digits_value_pad fraction_value_def ds(1))
  then show ?thesis
    using ds(3) unfolding rest_def[symmetric] by (simp add: parse_fraction_def at run slice whole len orelse_return_def)
qed

lemma str_get_at: "cs = as @ bs @ ds \<Longrightarrow> i = byte_len as \<Longrightarrow> j = i + byte_len bs \<Longrightarrow> str_get cs i j = Some bs"
  using str_get_append[of as bs ds] by simp

lemma parse_time_digits:
  assumes "digits_n 2 h" "digits_n 2 m" "digits_n 2 s" "fraction_text F"
  shows "parse_time_and_offset (h @ [58] @ m @ [58] @ s @ F @ [90]) =
    Some (Some (int (digits_value h), int (digits_value m), int (digits_value s), int (fraction_value F), 0))"
proof -
  obtain h1 h2 where h: "h = [h1, h2]" "is_digit h1" "is_digit h2" using digits_2[OF assms(1)] by blast
  obtain m1 m2 where m: "m = [m1, m2]" "is_digit m1" "is_digit m2" using digits_2[OF assms(2)] by blast
  obtain s1 s2 where s: "s = [s1, s2]" "is_digit s1" "is_digit s2" using digits_2[OF assms(3)] by blast
  note c = digit_char[OF h(2)] digit_char[OF h(3)] digit_char[OF m(2)] digit_char[OF m(3)]
    digit_char[OF s(2)] digit_char[OF s(3)]
  have k: "len_utf8 58 = 1" "utf8_char 58 = [58]" "len_utf8 90 = 1" by (simp_all add: len_utf8_def utf8_char_def)
  define pre where "pre = h @ [58] @ m @ [58] @ s"
  define rest where "rest = pre @ F @ [90]"
  have pre: "length pre = 8" "byte_len pre = 8" "length (utf8 pre) = 8" by (simp_all add: pre_def h(1) m(1) s(1) c k)
  have len: "byte_len rest = 9 + byte_len F" by (simp add: rest_def pre k)
  have at: "utf8 rest ! 2 = 58" "utf8 rest ! 5 = 58"
    by (simp_all add: rest_def pre_def h(1) m(1) s(1) c k nth_Cons')
  have slices: "str_get rest 0 2 = Some h"
    by (rule str_get_at[of _ "[]" h "[58] @ m @ [58] @ s @ F @ [90]"]) (simp_all add: rest_def pre_def h(1) c)
  have slices': "str_get rest 3 5 = Some m" "str_get rest 6 8 = Some s"
    by (rule str_get_at[of _ "h @ [58]" m "[58] @ s @ F @ [90]"], simp_all add: rest_def pre_def h(1) m(1) c k)
      (rule str_get_at[of _ "h @ [58] @ m @ [58]" s "F @ [90]"], simp_all add: h(1) m(1) s(1) c k)
  have zone: "str_get rest (8 + byte_len F) (9 + byte_len F) = Some [90]"
    using str_get_append[of "pre @ F" "[90]" "[]"] by (simp add: rest_def pre k)
  have "parse_offset [90] = Some (Some 0)" by (simp add: parse_offset_def)
  moreover have "parse_fraction rest = Some (Some (8 + byte_len F, int (fraction_value F)))"
    unfolding rest_def by (rule parse_fraction_digits[OF pre assms(4)])
  moreover have "h @ [58] @ m @ [58] @ s @ F @ [90] = rest" by (simp add: rest_def pre_def)
  ultimately show ?thesis
    using parse_u32_digits[OF assms(1)] parse_u32_digits[OF assms(2)] parse_u32_digits[OF assms(3)]
    by (simp add: parse_time_and_offset_def len at slices slices' zone expect_char_def orelse_return_def)
qed

lemma split_once_append: "c \<notin> set xs \<Longrightarrow> split_once c (xs @ c # ys) = Some (xs, ys)"
  by (simp add: split_once_def takeWhile_append dropWhile_append)

section \<open>The wire round trip\<close>

lemma truncated_idem: "in_i64 v \<Longrightarrow> i64_wrap v = v"
  by (auto simp: in_i64_def i64_wrap_def)

lemma modulus_fraction: "modulus_nanos p = 10 ^ (9 - fraction_digits p)"
  by (cases p) (simp_all add: nanos_per_second_def nanos_per_milli_def nanos_per_micro_def)

lemma civil_year_range:
  assumes "civil_from_days z = (y, m, d)" "- 106752 \<le> z" "z \<le> 106751"
  shows "0 \<le> y \<and> y < 10000"
proof -
  let ?y = "march_year y m"
  note v = civil_from_days_inverse[OF assms(1)]
  then have m: "1 \<le> m" "m \<le> 12" "1 \<le> d" "d \<le> days_in_month y m"
    by (auto simp: validate_civil_date_def split: if_splits)
  then have "d \<le> (if m = 2 then 29 else month_days ! nat (m - 1))"
    by (auto simp: days_in_month_eq split: if_splits)
  note entry = day_entry[OF m(1-3) this]
  have start: "0 \<le> year_start (?y mod 400)" "year_start (?y mod 400) \<le> 146096"
    using year_start_mono[of 0 "?y mod 400"] year_start_mono[of "?y mod 400" 400] pos_mod_bound[of 400 ?y]
    by (simp_all add: year_start_399 year_start_def[of 400])
  have "?y div 400 * 146097 + year_start (?y mod 400) + day_of_year m d = z + 719468"
    using days_from_civil_eq[OF m(1-3), of y] v(2) by simp
  then have "1 \<le> ?y div 400" "?y div 400 \<le> 6" using start entry(1,2) assms(2,3) by linarith+
  then have "400 \<le> ?y" "?y < 2800" by linarith+
  then show ?thesis by (auto simp: march_year_def split: if_splits)
qed

lemma pad_digits_int:
  assumes "0 \<le> v" "v < 10 ^ w" "0 < w"
  shows "digits_n w (zero_pad w (nat v))" "int (digits_value (zero_pad w (nat v))) = v"
proof -
  have "nat v < 10 ^ w" using assms(1,2) by (simp add: nat_less_iff)
  from zero_pad_digits[OF assms(3) this] assms(1)
  show "digits_n w (zero_pad w (nat v))" "int (digits_value (zero_pad w (nat v))) = v" by simp_all
qed

definition fraction_of :: "instans_praecisio \<Rightarrow> int \<Rightarrow> ustr" where
  "fraction_of p r = (if fraction_digits p > 0
     then 46 # zero_pad (fraction_digits p) (nat (r div 10 ^ (9 - fraction_digits p))) else [])"

lemma fraction_of_value:
  assumes "0 \<le> r" "r < nanos_per_second" "r mod modulus_nanos p = 0"
  shows "fraction_text (fraction_of p r)" "int (fraction_value (fraction_of p r)) = r"
proof -
  let ?k = "fraction_digits p"
  have k: "?k \<le> 9" by (cases p) simp_all
  have r: "r div 10 ^ (9 - ?k) * 10 ^ (9 - ?k) = r"
    using assms(3) unfolding modulus_fraction by (metis div_mult_mod_eq add.right_neutral)
  have "fraction_text (fraction_of p r) \<and> int (fraction_value (fraction_of p r)) = r"
  proof (cases "?k = 0")
    case True
    then have "r = 0" using assms by (cases p) (simp_all add: nanos_per_second_def)
    then show ?thesis using True by (simp add: fraction_of_def fraction_text_def fraction_value_def)
  next
    case False
    have "(10 :: int) ^ ?k * 10 ^ (9 - ?k) = 10 ^ 9" using k by (simp flip: power_add)
    then have "r div 10 ^ (9 - ?k) * 10 ^ (9 - ?k) < 10 ^ ?k * 10 ^ (9 - ?k)"
      using assms(2) unfolding r by (simp add: nanos_per_second_def)
    then have "r div 10 ^ (9 - ?k) < 10 ^ ?k" by (rule mult_right_less_imp_less) simp
    moreover have "0 \<le> r div 10 ^ (9 - ?k)" using assms(1) by (simp add: pos_imp_zdiv_nonneg_iff)
    moreover have pos: "0 < ?k" using False by simp
    ultimately have d: "digits_n ?k (zero_pad ?k (nat (r div 10 ^ (9 - ?k))))"
        "int (digits_value (zero_pad ?k (nat (r div 10 ^ (9 - ?k))))) = r div 10 ^ (9 - ?k)"
      using pad_digits_int by blast+
    let ?ds = "zero_pad ?k (nat (r div 10 ^ (9 - ?k)))"
    have "length ?ds = ?k" "?ds \<noteq> []" "list_all is_digit ?ds" using d(1) \<open>0 < ?k\<close> by (auto simp: digits_n_def)
    then show ?thesis using d(2) r k \<open>0 < ?k\<close>
      by (simp add: fraction_of_def fraction_text_def fraction_value_def)
  qed
  then show "fraction_text (fraction_of p r)" "int (fraction_value (fraction_of p r)) = r" by auto
qed

lemma format_wire:
  assumes "in_i64 t" "t mod modulus_nanos p = 0" "civil_from_days (t div nanos_per_day) = (y, m, d)"
  shows "format_rfc3339_utc t p =
    (let r = t mod nanos_per_day; s = r div nanos_per_second in
     (zero_pad_int 4 y @ [45] @ zero_pad 2 (nat m) @ [45] @ zero_pad 2 (nat d)) @ 84 #
     (zero_pad 2 (nat (s div 3600)) @ [58] @ zero_pad 2 (nat (s mod 3600 div 60)) @ [58] @ zero_pad 2 (nat (s mod 60)) @
      fraction_of p (r mod nanos_per_second) @ [90]))"
proof -
  have "truncate_nanos p t = t"
    using assms(1,2) truncated_idem by (simp add: truncate_nanos_def minus_mod_eq_div_mult[symmetric])
  then show ?thesis
    using assms(3) by (simp add: format_rfc3339_utc_def Let_def fraction_of_def seconds_per_hour_def seconds_per_minute_def)
qed

lemma civil_datetime_exact:
  assumes "in_i64 t" "days_from_civil y m d = t div nanos_per_day" "r = t mod nanos_per_day" "s = r div nanos_per_second"
  shows "civil_datetime_nanos y m d (s div 3600) (s mod 3600 div 60) (s mod 60) (r mod nanos_per_second) =
    (if - 106751 * nanos_per_day \<le> t then Some t else None)"
proof -
  have r: "0 \<le> r" "r < 86400000000000" using assms(3) by (simp_all add: nanos_per_day_def seconds_per_hour_def nanos_per_second_def)
  have s: "0 \<le> s" "s < 86400" using r assms(4) by (auto simp: nanos_per_second_def)
  have sod: "s div 3600 * 3600 + s mod 3600 div 60 * 60 + s mod 60 = s"
  proof -
    have "s mod 3600 mod 60 = s mod 60" by (rule mod_mod_cancel) simp
    then show ?thesis using div_mult_mod_eq[of s 3600] div_mult_mod_eq[of "s mod 3600" 60] by linarith
  qed
  have bounds: "0 \<le> s div 3600" "s div 3600 < 24" "0 \<le> s mod 3600 div 60" "s mod 3600 div 60 < 60" using s by auto
  have time: "s * nanos_per_second + r mod nanos_per_second = r" by (simp add: assms(4))
  have nps: "0 \<le> r mod nanos_per_second" "r mod nanos_per_second < 1000000000" by (simp_all add: nanos_per_second_def)
  have t: "t div nanos_per_day * nanos_per_day + r = t" by (simp add: assms(3))
  have "civil_datetime_nanos y m d (s div 3600) (s mod 3600 div 60) (s mod 60) (r mod nanos_per_second) =
      Option.bind (i64_checked (t div nanos_per_day * nanos_per_day)) (\<lambda>day_nanos. i64_checked (day_nanos + r))"
    using bounds s nps r sod time
    by (simp add: civil_datetime_nanos_def assms(2) i64_checked_def in_i64_def seconds_per_hour_def seconds_per_minute_def
        nanos_per_second_def)
  also have "\<dots> = (if - 106751 * nanos_per_day \<le> t then Some t else None)"
  proof (cases "- 106751 * nanos_per_day \<le> t")
    case True
    then have "- 106751 \<le> t div nanos_per_day"
      using zdiv_mono1[OF True, of nanos_per_day] by (simp add: nanos_per_day_def seconds_per_hour_def nanos_per_second_def)
    then have "in_i64 (t div nanos_per_day * nanos_per_day)"
      using assms(1) r t by (auto simp: in_i64_def nanos_per_day_def seconds_per_hour_def nanos_per_second_def)
    then show ?thesis using True assms(1) t by (simp add: i64_checked_def)
  next
    case False
    then have "t div nanos_per_day \<le> - 106752"
      by (simp add: nanos_per_day_def seconds_per_hour_def nanos_per_second_def)
    then have "\<not> in_i64 (t div nanos_per_day * nanos_per_day)"
      by (auto simp: in_i64_def nanos_per_day_def seconds_per_hour_def nanos_per_second_def)
    then show ?thesis using False by (simp add: i64_checked_def)
  qed
  finally show ?thesis .
qed

lemma parse_wire:
  assumes "digits_n 4 Y" "digits_n 2 M" "digits_n 2 D" "digits_n 2 h" "digits_n 2 mi" "digits_n 2 s" "fraction_text F"
    and "validate_civil_date (int (digits_value Y)) (int (digits_value M)) (int (digits_value D))"
    and "digits_value h < 24" "digits_value mi < 60" "digits_value s < 60"
    and "\<And>t. r = Some t \<Longrightarrow> in_i64 t"
    and "civil_datetime_nanos (int (digits_value Y)) (int (digits_value M)) (int (digits_value D))
      (int (digits_value h)) (int (digits_value mi)) (int (digits_value s)) (int (fraction_value F)) = r"
  shows "parse_rfc3339 ((Y @ [45] @ M @ [45] @ D) @ 84 # (h @ [58] @ mi @ [58] @ s @ F @ [90])) = Some r"
proof -
  have no_T: "84 \<notin> set (Y @ [45] @ M @ [45] @ D)"
    using assms(1-3) by (auto simp: digits_n_def list_all_iff is_digit_def)
  have "validate_time_of_day (int (digits_value h)) (int (digits_value mi)) (int (digits_value s))"
    using assms(9-11) by (simp add: validate_time_of_day_def)
  moreover have "offset_minutes_to_nanos 0 = Some 0" by (simp add: offset_minutes_to_nanos_def i64_checked_def in_i64_def)
  ultimately show ?thesis
    unfolding parse_rfc3339_def split_once_append[OF no_T]
    using parse_date_digits[OF assms(1-3)] parse_time_digits[OF assms(4-7)] assms(8,12,13)
    by (simp add: orelse_return_def i64_checked_def split: option.split)
qed

lemma valid_date_range:
  assumes "validate_civil_date y m d"
  shows "0 \<le> m" "m < 10 ^ 2" "0 \<le> d" "d < 10 ^ 2"
proof -
  have m: "1 \<le> m" "m \<le> 12" "1 \<le> d" "d \<le> days_in_month y m"
    using assms by (auto simp: validate_civil_date_def split: if_splits)
  then have "d \<le> 31" using month_days_le[OF m(1,2)] by (auto simp: days_in_month_eq split: if_splits)
  with m show "0 \<le> m" "m < 10 ^ 2" "0 \<le> d" "d < 10 ^ 2" by auto
qed

lemma fraction_aligned: "t mod modulus_nanos p = 0 \<Longrightarrow> t mod nanos_per_day mod nanos_per_second mod modulus_nanos p = 0"
proof -
  have "modulus_nanos p dvd nanos_per_second" "modulus_nanos p dvd nanos_per_day"
    by (cases p; simp add: nanos_per_day_def seconds_per_hour_def nanos_per_second_def nanos_per_milli_def nanos_per_micro_def)+
  then show "t mod modulus_nanos p = 0 \<Longrightarrow> t mod nanos_per_day mod nanos_per_second mod modulus_nanos p = 0"
    by (simp add: mod_mod_cancel)
qed

lemma instans_parse_format:
  assumes "in_i64 t" "t mod modulus_nanos p = 0"
  shows "parse_rfc3339 (format_rfc3339_utc t p) = Some (if - 106751 * nanos_per_day \<le> t then Some t else None)"
proof -
  define z where "z = t div nanos_per_day"
  define r where "r = t mod nanos_per_day"
  define s where "s = r div nanos_per_second"
  obtain y m d where ymd: "civil_from_days z = (y, m, d)" by (cases "civil_from_days z")
  have z: "- 106752 \<le> z" "z \<le> 106751"
    using assms(1) by (auto simp: z_def in_i64_def nanos_per_day_def seconds_per_hour_def nanos_per_second_def)
  have r: "0 \<le> r" "r < 86400000000000" by (simp_all add: r_def nanos_per_day_def seconds_per_hour_def nanos_per_second_def)
  have s: "0 \<le> s" "s < 86400" using r by (auto simp: s_def nanos_per_second_def)
  have year: "0 \<le> y" "y < 10 ^ 4" using civil_year_range[OF ymd z] by auto
  note v = civil_from_days_inverse[OF ymd]
  note md = valid_date_range[OF v(1)]
  have low: "0 \<le> s div 3600" "0 \<le> s mod 3600 div 60" "0 \<le> s mod 60" using s by auto
  have high: "s div 3600 < 24" "s mod 3600 div 60 < 60" "s mod 60 < 60" using s by auto
  have wide: "s div 3600 < 10 ^ 2" "s mod 3600 div 60 < 10 ^ 2" "s mod 60 < 10 ^ 2"
    by (rule order.strict_trans[OF high(1)], simp, rule order.strict_trans[OF high(2)], simp,
        rule order.strict_trans[OF high(3)], simp)
  have rn: "0 \<le> r mod nanos_per_second" "r mod nanos_per_second < nanos_per_second" by (simp_all add: nanos_per_second_def)
  note F = fraction_of_value[OF rn fraction_aligned[OF assms(2), folded r_def]]
  note Y = pad_digits_int[OF year zero_less_numeral] and M = pad_digits_int[OF md(1,2) zero_less_numeral]
    and D = pad_digits_int[OF md(3,4) zero_less_numeral]
  note h = pad_digits_int[OF low(1) wide(1) zero_less_numeral] and mi = pad_digits_int[OF low(2) wide(2) zero_less_numeral]
    and sec = pad_digits_int[OF low(3) wide(3) zero_less_numeral]
  have wire: "format_rfc3339_utc t p =
      (zero_pad 4 (nat y) @ [45] @ zero_pad 2 (nat m) @ [45] @ zero_pad 2 (nat d)) @ 84 #
      (zero_pad 2 (nat (s div 3600)) @ [58] @ zero_pad 2 (nat (s mod 3600 div 60)) @ [58] @ zero_pad 2 (nat (s mod 60)) @
       fraction_of p (r mod nanos_per_second) @ [90])"
    using format_wire[OF assms, folded z_def, OF ymd] year(1)
    unfolding Let_def r_def[symmetric] s_def[symmetric] zero_pad_int_def by (simp only: not_less[symmetric] if_False)
  show ?thesis
    unfolding wire
  proof (rule parse_wire[OF Y(1) M(1) D(1) h(1) mi(1) sec(1) F(1)])
    show "civil_datetime_nanos (int (digits_value (zero_pad 4 (nat y)))) (int (digits_value (zero_pad 2 (nat m))))
        (int (digits_value (zero_pad 2 (nat d)))) (int (digits_value (zero_pad 2 (nat (s div 3600)))))
        (int (digits_value (zero_pad 2 (nat (s mod 3600 div 60))))) (int (digits_value (zero_pad 2 (nat (s mod 60)))))
        (int (fraction_value (fraction_of p (r mod nanos_per_second)))) =
        (if - 106751 * nanos_per_day \<le> t then Some t else None)"
      unfolding Y(2) M(2) D(2) h(2) mi(2) sec(2) F(2)
      by (rule civil_datetime_exact[OF assms(1) _ r_def s_def]) (simp only: v(2) z_def)
  qed (use v(1) high assms(1) h(2) mi(2) sec(2) in \<open>auto simp only: Y(2) M(2) D(2) split: if_splits\<close>)
qed

text \<open>C25: the wire form reads back: for every point in time whose truncation does not overflow, parsing its
  RFC3339 text at its precision, as a dynamic value too, gives exactly the point again; except in the first
  partial day of the range, whose midnight is no longer an i64 and whose text is refused.\<close>

theorem instans_wire_round_trip:
  assumes "in_i64 (nanos div modulus_nanos p * modulus_nanos p)" "i = instans_from_nanos nanos p"
  shows "instans_try_from_valor (valor_of_instans i :: 'f valor) p = Some (if - 106751 * nanos_per_day \<le> it_nanos i then Some i else None) \<and>
    from_rfc3339 (to_rfc3339 i) p = instans_try_from_valor (valor_of_instans i :: 'f valor) p \<and>
    it_nanos i \<le> nanos \<and> nanos < it_nanos i + modulus_nanos p"
proof -
  let ?t = "nanos div modulus_nanos p * modulus_nanos p"
  have m: "0 < modulus_nanos p"
    by (cases p) (simp_all add: nanos_per_second_def nanos_per_milli_def nanos_per_micro_def)
  have t: "it_nanos i = ?t" "it_praecisio i = p"
    using truncated_idem[OF assms(1)] by (simp_all add: assms(2) instans_from_nanos_def truncate_nanos_def)
  have again: "instans_from_nanos ?t p = i"
    using truncated_idem[OF assms(1)] m by (simp add: assms(2) instans_from_nanos_def truncate_nanos_def)
  have "parse_rfc3339 (to_rfc3339 i) = Some (if - 106751 * nanos_per_day \<le> ?t then Some ?t else None)"
    unfolding to_rfc3339_def t by (rule instans_parse_format[OF assms(1)]) simp
  then have "from_rfc3339 (to_rfc3339 i) p = Some (if - 106751 * nanos_per_day \<le> it_nanos i then Some i else None)"
    by (simp add: from_rfc3339_def orelse_return_def t again)
  moreover have "?t \<le> nanos \<and> nanos < ?t + modulus_nanos p"
    using div_mult_mod_eq[of nanos "modulus_nanos p"] pos_mod_bound[OF m, of nanos] pos_mod_sign[OF m, of nanos] by linarith
  ultimately show ?thesis
    by (simp add: instans_try_from_valor_def valor_of_instans_def from_rfc3339_def t(1))
qed

theorem instans_wire_round_trip_witness:
  "instans_try_from_valor (valor_of_instans (instans_from_nanos (- 1) Millisecunda) :: unit valor) Millisecunda =
     Some (Some \<lparr>it_nanos = - 1000000, it_praecisio = Millisecunda\<rparr>)"
proof -
  have "in_i64 (- 1 div modulus_nanos Millisecunda * modulus_nanos Millisecunda)"
    by (simp add: in_i64_def nanos_per_milli_def)
  from instans_wire_round_trip[where 'f = unit, OF this refl] show ?thesis
    by (simp add: instans_from_nanos_def truncate_nanos_def i64_wrap_def nanos_per_milli_def nanos_per_day_def
        seconds_per_hour_def nanos_per_second_def)
qed

section \<open>The parser never panics\<close>

definition boundary :: "ustr \<Rightarrow> nat \<Rightarrow> bool" where
  "boundary cs i \<longleftrightarrow> (\<exists>as ds. cs = as @ ds \<and> byte_len as = i)"

lemma boundary_ends: "boundary cs 0" "boundary cs (byte_len cs)"
  by (force simp: boundary_def)+

lemma slice_between:
  assumes "boundary cs i" "boundary cs j" "i \<le> j" "text_ok cs"
  shows "\<exists>s. str_get cs i j = Some s \<and> text_ok s"
proof -
  obtain as ds bs es where c: "cs = as @ ds" "byte_len as = i" "cs = bs @ es" "byte_len bs = j"
    using assms(1,2) unfolding boundary_def by blast
  have "\<exists>us. bs = as @ us"
  proof (rule ccontr)
    assume no: "\<nexists>us. bs = as @ us"
    then obtain us where "as = bs @ us" using c(1,3) by (auto simp: append_eq_append_conv2)
    with no have "us \<noteq> []" "as = bs @ us" by auto
    then have "byte_len bs < byte_len as" using byte_len_eq_0[of us] by (cases "byte_len us") auto
    then show False using assms(3) c by simp
  qed
  then obtain us where us: "cs = as @ us @ es" "j = i + byte_len us" using c by auto
  then have "str_get cs i j = Some us" using str_get_append[of as us es] c(2) by simp
  moreover have "text_ok us" using assms(4) us(1) by (simp add: text_ok_def)
  ultimately show ?thesis by blast
qed

lemma slice_ends:
  assumes "str_get cs i j = Some s"
  shows "boundary cs i" "boundary cs j"
proof -
  obtain as ds where c: "cs = as @ s @ ds" "i = byte_len as" "j = byte_len as + byte_len s"
    using str_get_SomeD[OF assms] by blast
  then have "cs = (as @ s) @ ds" "byte_len (as @ s) = j" by simp_all
  with c(1,2) show "boundary cs i" "boundary cs j" unfolding boundary_def by blast+
qed

lemma boundary_step:
  assumes "boundary cs i" "i < byte_len cs" "utf8 cs ! i < 0x80" "text_ok cs"
  shows "boundary cs (i + 1)"
proof -
  obtain as ds where c: "cs = as @ ds" "byte_len as = i" using assms(1) by (auto simp: boundary_def)
  then obtain d ds' where ds: "ds = d # ds'" using assms(2) by (cases ds) auto
  have "scalar_ok d" using assms(4) by (simp add: c(1) ds text_ok_def)
  have "length (utf8 as) = i" using c(2) by simp
  then have "utf8 cs ! i = hd (utf8_char d)"
    unfolding c(1) ds by (simp add: nth_append utf8_char_parts)
  then have "(word_of_nat (lead_of d) :: u8) < 0x80" using assms(3) by (simp add: utf8_char_parts)
  then have "lead_of d < 0x80" using lead_range[OF \<open>scalar_ok d\<close>] by (auto simp: word_less_nat_alt unat_of_nat)
  then have "len_utf8 d = 1" using \<open>scalar_ok d\<close> by (auto simp: lead_of_def len_utf8_def scalar_ok_def split: if_splits)
  then show ?thesis unfolding boundary_def c(1) ds
    by (intro exI[of _ "as @ [d]"] exI[of _ ds']) (use c(2) in simp)
qed

lemma digit_run_boundary:
  "boundary cs i \<Longrightarrow> text_ok cs \<Longrightarrow> boundary cs (digit_run (utf8 cs) i) \<and> i \<le> digit_run (utf8 cs) i"
proof (induction "utf8 cs" i rule: digit_run.induct)
  case (1 i)
  show ?case
  proof (cases "i < length (utf8 cs) \<and> 48 \<le> utf8 cs ! i \<and> utf8 cs ! i \<le> 57")
    case True
    then have "utf8 cs ! i < 0x80" by (auto intro: le_less_trans)
    from boundary_step[OF "1.prems"(1) _ this "1.prems"(2)] True
    have "boundary cs (i + 1)" by simp
    with 1 True show ?thesis by (subst (1 2) digit_run.simps) auto
  next
    case False
    with "1.prems" show ?thesis by (subst (1 2) digit_run.simps) auto
  qed
qed

lemma parse_fraction_returns:
  assumes "boundary rest 8" "text_ok rest"
  shows "\<exists>r. parse_fraction rest = Some r \<and> (\<forall>c n. r = Some (c, n) \<longrightarrow> boundary rest c)"
proof (cases "8 < byte_len rest \<and> utf8 rest ! 8 = 46")
  case True
  then have nine: "boundary rest 9" using boundary_step[OF assms(1) _ _ assms(2)] by simp
  note run = digit_run_boundary[OF nine assms(2)]
  from slice_between[OF nine _ _ assms(2)] run obtain ds where
    "str_get rest 9 (digit_run (utf8 rest) 9) = Some ds" by blast
  with True run show ?thesis
    by (auto simp: parse_fraction_def orelse_return_def Let_def split: option.split)
qed (use assms in \<open>auto simp: parse_fraction_def\<close>)

lemma parse_offset_returns: "text_ok zone \<Longrightarrow> \<exists>r. parse_offset zone = Some r"
proof (cases "zone = []")
  case False
  assume ok: "text_ok zone"
  obtain b bs where b: "utf8 zone = b # bs" using False by (cases zone) (auto simp: utf8_char_parts)
  have "\<exists>rest. str_get zone 1 (byte_len zone) = Some rest" if "b = 43 \<or> b = 45"
  proof -
    have "0 < byte_len zone" using False byte_len_eq_0[of zone] by (cases "byte_len zone") auto
    have "boundary zone 1"
      using boundary_step[OF boundary_ends(1) \<open>0 < byte_len zone\<close> _ ok] that b by auto
    from slice_between[OF this boundary_ends(2) _ ok] \<open>0 < byte_len zone\<close> show ?thesis by auto
  qed
  then have "\<exists>r. parse_numeric_offset zone = Some r"
    by (auto simp: parse_numeric_offset_def b Let_def orelse_return_def split: option.split)
  then show ?thesis by (simp add: parse_offset_def)
qed (simp add: parse_offset_def)

lemma parse_time_returns:
  assumes "text_ok rest"
  shows "\<exists>r. parse_time_and_offset rest = Some r"
proof -
  have step: "\<exists>r. Option.bind (parse_fraction rest) (\<lambda>f. orelse_return f (\<lambda>(cursor, fraction_nanos).
      Option.bind (str_get rest cursor (byte_len rest)) (\<lambda>zone.
      Option.bind (parse_offset zone) (\<lambda>off. orelse_return off (\<lambda>offset_minutes.
      Some (Some (k cursor fraction_nanos offset_minutes))))))) = Some r"
    if "str_get rest 6 8 = Some s" for s and k :: "nat \<Rightarrow> int \<Rightarrow> int \<Rightarrow> int \<times> int \<times> int \<times> int \<times> int"
  proof -
    have "boundary rest 8" by (rule slice_ends(2)[OF that])
    then obtain f where f: "parse_fraction rest = Some f" "\<forall>c n. f = Some (c, n) \<longrightarrow> boundary rest c"
      using parse_fraction_returns[OF _ assms] by blast
    show ?thesis
    proof (cases f)
      case (Some cn)
      obtain c n where cn: "cn = (c, n)" by force
      have "boundary rest c" using f(2) Some cn by simp
      moreover have "c \<le> byte_len rest" using calculation by (auto simp: boundary_def)
      ultimately obtain zone where zone: "str_get rest c (byte_len rest) = Some zone" "text_ok zone"
        using slice_between[OF _ boundary_ends(2) _ assms] by blast
      obtain off where "parse_offset zone = Some off" using parse_offset_returns[OF zone(2)] by blast
      then show ?thesis using f(1) Some cn zone(1)
        by (auto simp: orelse_return_def split: option.split)
    qed (use f in \<open>simp add: orelse_return_def\<close>)
  qed
  show ?thesis
  proof (cases "str_get rest 6 8")
    case (Some s)
    from step[OF Some] show ?thesis
      by (auto simp: parse_time_and_offset_def orelse_return_def split: option.split)
  qed (auto simp: parse_time_and_offset_def orelse_return_def split: option.split)
qed

text \<open>The parser never panics: on every text, whatever characters it is made of, each slice it takes
  lies between two characters, and it returns a point in time or the refusal.\<close>

theorem instans_parse_never_panics:
  assumes "text_ok input"
  shows "\<exists>r. parse_rfc3339 input = Some r"
proof -
  have "\<exists>r. parse_time_and_offset rest = Some r" if "split_once c input = Some (date, rest)" for c date rest
  proof (rule parse_time_returns)
    have "set (tl (dropWhile (\<lambda>x. x \<noteq> c) input)) \<subseteq> set input"
      by (simp add: dropWhile_eq_drop tl_drop drop_Suc[symmetric] set_drop_subset)
    then have "set rest \<subseteq> set input" using that by (auto simp: split_once_def split: if_splits)
    then show "text_ok rest" using assms by (auto simp: text_ok_def list_all_iff)
  qed
  then show ?thesis
    unfolding parse_rfc3339_def
    by (fastforce simp: orelse_return_def split: option.split prod.split)
qed

theorem instans_parse_never_panics_witness:
  "\<exists>r. parse_rfc3339 (lit ''1979-05-27T07:32:00.5'' @ [0x20AC] @ lit ''Z'') = Some r"
  by (rule instans_parse_never_panics) (simp add: text_ok_def scalar_ok_def)

section \<open>Where the source leaves its contract\<close>

text \<open>The bucket of the earliest instants starts below the range: the product wraps to a late one.\<close>

lemma truncation_wraps: "it_nanos (from_epoch_seconds (- (2 ^ 63)) Secunda) = 9223372036709551616"
  by (simp add: from_epoch_seconds_def instans_from_nanos_def truncate_nanos_def i64_wrap_def i64_saturating_def
      nanos_per_second_def)

text \<open>Comparing at the coarser precision is not transitive, and instants that compare equal differ.\<close>

lemma comparison_not_transitive:
  "\<exists>a b c. cmp_at_coarser a b = 0 \<and> cmp_at_coarser b c = 0 \<and> cmp_at_coarser a c = - 1 \<and> a \<noteq> b"
  by (rule exI[of _ "instans_from_nanos 1500000000 Millisecunda"], rule exI[of _ "instans_from_nanos 1000000000 Secunda"],
      rule exI[of _ "instans_from_nanos 1700000000 Millisecunda"])
    (simp add: cmp_at_coarser_def instans_from_nanos_def truncate_nanos_def i64_wrap_def coarser_praecisio_def
      nanos_per_second_def nanos_per_milli_def)

text \<open>The integer parser of the library takes a plus sign, so fields that are not two digits are accepted.\<close>

lemma signed_fields_accepted:
  "parse_date (lit ''1979-+5-+7'') = Some (1979, 5, 7)" "parse_offset (lit ''+1:5'') = Some (Some 65)"
  by (simp_all add: parse_date_def parse_offset_def parse_numeric_offset_def str_get_def expect_char_def utf8_char_def
      len_utf8_def parse_signed_def parse_u32_def parse_digits_def is_digit_def digits_value_def split_once_def
      orelse_return_def offset_hhmm_minutes_def Let_def nth_Cons')

end
