(* ===== verification/Conversation.thy ===== *)
theory Conversation
  imports Json
begin

text \<open>
  The in-process conversation of \<open>src/frame.rs\<close>: the frames of both half streams, the response senders
  with their shared lease, the receiving views and the start of a host dispatch. The statuses come
  from a contract crate: those the source names are constructors, any other is \<open>OtherStatus\<close>, and
  \<open>is_terminal\<close> of that crate is the parameter \<open>terminal\<close>, of which the code relies on its documented
  set. Frame ids and clock readings are arguments of the operations that draw them; wakers are names.
\<close>

section \<open>Frames and conversations\<close>

datatype frame_status = StRequest | StItem | StByte | StDone | StError | StCancel | OtherStatus string

definition terminal_statuses :: "(frame_status \<Rightarrow> bool) \<Rightarrow> bool" where
  "terminal_statuses terminal \<longleftrightarrow> (\<forall>s. terminal s \<longleftrightarrow> s = StDone \<or> s = StError \<or> s = StCancel)"

record 'f scrinium =
  sc_id :: string
  sc_parent_id :: "string option"
  sc_call :: string
  sc_status :: frame_status
  sc_data :: "'f valor"
  sc_created_ms :: int
  sc_from :: "string option"
  sc_trace :: "'f valor option"

record 'f sermo_inner =
  cv_conversation_id :: string
  cv_route :: string
  cv_outgoing :: "'f scrinium list"
  cv_incoming :: "'f scrinium list"
  cv_response_generated :: bool
  cv_incoming_drained :: bool
  cv_incoming_terminal :: "frame_status option"
  cv_wake_epoch :: u64
  cv_waiters :: "nat list"
  cv_cancellation :: bool
  cv_host_dispatch :: "nat option"
  cv_detached :: bool
  cv_meus_closed :: bool

definition next_frame_id :: "u64 \<Rightarrow> string \<times> u64" where
  "next_frame_id next = (''frame-'' @ show_nat (unat next), next + 1)"

definition sermo_open :: "string \<Rightarrow> string \<Rightarrow> int \<Rightarrow> 'f sermo_inner" where
  "sermo_open route fid now =
     \<lparr>cv_conversation_id = fid, cv_route = route,
      cv_outgoing = [\<lparr>sc_id = fid, sc_parent_id = None, sc_call = route, sc_status = StRequest, sc_data = Nihil,
        sc_created_ms = now, sc_from = None, sc_trace = None\<rparr>],
      cv_incoming = [], cv_response_generated = False, cv_incoming_drained = False, cv_incoming_terminal = None,
      cv_wake_epoch = 0, cv_waiters = [], cv_cancellation = False, cv_host_dispatch = None, cv_detached = False,
      cv_meus_closed = False\<rparr>"

definition sermo_open_with_dispatch :: "string \<Rightarrow> nat \<Rightarrow> string \<Rightarrow> int \<Rightarrow> 'f sermo_inner" where
  "sermo_open_with_dispatch route dispatch fid now = (sermo_open route fid now)\<lparr>cv_host_dispatch := Some dispatch\<rparr>"

definition sermo_set_opener :: "'f valor \<Rightarrow> 'f sermo_inner \<Rightarrow> 'f sermo_inner" where
  "sermo_set_opener data c = (case cv_outgoing c of
     [] \<Rightarrow> c
   | request # rest \<Rightarrow>
       if sc_status request = StRequest then c\<lparr>cv_outgoing := request\<lparr>sc_data := data\<rparr> # rest\<rparr> else c)"

definition first_outgoing :: "'f sermo_inner \<Rightarrow> 'f scrinium option" where
  "first_outgoing c = (case cv_outgoing c of [] \<Rightarrow> None | request # _ \<Rightarrow> Some request)"

definition request_data :: "'f sermo_inner \<Rightarrow> 'f valor" where
  "request_data c = (case cv_outgoing c of [] \<Rightarrow> Nihil | request # _ \<Rightarrow> sc_data request)"

record 'f sermo_request =
  rq_conversation_id :: string
  rq_route :: string
  rq_opener :: "'f valor"
  rq_target :: "string option"

definition sermo_request_of :: "'f sermo_inner \<Rightarrow> string option \<Rightarrow> 'f sermo_request" where
  "sermo_request_of c target =
     \<lparr>rq_conversation_id = cv_conversation_id c, rq_route = cv_route c, rq_opener = request_data c, rq_target = target\<rparr>"

text \<open>\<open>wake_incoming\<close>: the epoch, and the waiters it wakes.\<close>

definition wake_incoming :: "'f sermo_inner \<Rightarrow> 'f sermo_inner" where
  "wake_incoming c = c\<lparr>cv_wake_epoch := cv_wake_epoch c + 1, cv_waiters := []\<rparr>"

definition push_runtime_frame :: "string \<Rightarrow> int \<Rightarrow> frame_status \<Rightarrow> 'f valor \<Rightarrow> 'f sermo_inner \<Rightarrow> 'f sermo_inner" where
  "push_runtime_frame fid now status data c =
     wake_incoming (c\<lparr>cv_incoming := cv_incoming c @
       [\<lparr>sc_id = fid, sc_parent_id = Some (cv_conversation_id c), sc_call = cv_route c, sc_status = status,
         sc_data = data, sc_created_ms = now, sc_from = Some ''faber-runtime'', sc_trace = None\<rparr>]\<rparr>)"

definition push_incoming :: "'f scrinium \<Rightarrow> 'f sermo_inner \<Rightarrow> 'f sermo_inner" where
  "push_incoming frame c =
     wake_incoming (c\<lparr>cv_response_generated := True, cv_incoming := cv_incoming c @ [frame]\<rparr>)"

definition record_incoming_terminal :: "frame_status \<Rightarrow> 'f sermo_inner \<Rightarrow> 'f sermo_inner" where
  "record_incoming_terminal status c =
     c\<lparr>cv_incoming_terminal := Some status, cv_incoming_drained := True, cv_cancellation := False\<rparr>"

section \<open>The outbound half stream\<close>

record frame_error =
  fe_issue :: string
  fe_message :: string

definition meus_da :: "string \<Rightarrow> int \<Rightarrow> 'f valor \<Rightarrow> 'f sermo_inner \<Rightarrow> (frame_error + unit) \<times> 'f sermo_inner" where
  "meus_da fid now data c =
     (if cv_meus_closed c
      then (Inl \<lparr>fe_issue = ''frame_meus_half_stream_closed'', fe_message = ''meus half-stream is closed''\<rparr>, c)
      else (Inr (), c\<lparr>cv_outgoing := cv_outgoing c @
        [\<lparr>sc_id = fid, sc_parent_id = Some (cv_conversation_id c), sc_call = cv_route c, sc_status = StItem,
          sc_data = data, sc_created_ms = now, sc_from = None, sc_trace = None\<rparr>]\<rparr>))"

definition meus_fini :: "string \<Rightarrow> int \<Rightarrow> 'f sermo_inner \<Rightarrow> frame_status \<times> 'f sermo_inner" where
  "meus_fini fid now c =
     (StDone,
      if cv_meus_closed c then c
      else c\<lparr>cv_outgoing := cv_outgoing c @
        [\<lparr>sc_id = fid, sc_parent_id = Some (cv_conversation_id c), sc_call = cv_route c, sc_status = StDone,
          sc_data = Nihil, sc_created_ms = now, sc_from = None, sc_trace = None\<rparr>], cv_meus_closed := True\<rparr>)"

section \<open>Choosing the dispatch\<close>

text \<open>The installed dispatch is a set-once cell; dispatches are names. A \<open>runtime:\<close> route is always built in.\<close>

definition install_host_dispatch :: "nat \<Rightarrow> nat option \<Rightarrow> (frame_error + unit) \<times> nat option" where
  "install_host_dispatch dispatch installed = (case installed of
     None \<Rightarrow> (Inr (), Some dispatch)
   | Some _ \<Rightarrow> (Inl \<lparr>fe_issue = ''frame_host_dispatch_already_installed'',
       fe_message = ''host dispatch is already installed''\<rparr>, installed))"

datatype dispatch_choice = BuiltinRuntimeDispatch | InstalledDispatch nat

definition start_host_dispatch :: "'f sermo_request \<Rightarrow> nat option \<Rightarrow> nat option \<Rightarrow> dispatch_choice" where
  "start_host_dispatch request override_dispatch installed =
     (if take 8 (rq_route request) = ''runtime:'' then BuiltinRuntimeDispatch
      else (case override_dispatch of
        Some d \<Rightarrow> InstalledDispatch d
      | None \<Rightarrow> (case installed of Some d \<Rightarrow> InstalledDispatch d | None \<Rightarrow> BuiltinRuntimeDispatch)))"

section \<open>The inbound half stream\<close>

text \<open>The first frame and the conversation without it; a terminal frame is recorded.\<close>

definition pop_incoming :: "(frame_status \<Rightarrow> bool) \<Rightarrow> 'f sermo_inner \<Rightarrow> ('f scrinium \<times> 'f sermo_inner) option" where
  "pop_incoming terminal c = (case cv_incoming c of
     [] \<Rightarrow> None
   | frame # rest \<Rightarrow>
       let c = c\<lparr>cv_incoming := rest\<rparr> in
       Some (frame, if terminal (sc_status frame) then record_incoming_terminal (sc_status frame) c else c))"

definition recv_content_frame :: "(frame_status \<Rightarrow> bool) \<Rightarrow> 'f sermo_inner \<Rightarrow> 'f scrinium option \<times> 'f sermo_inner" where
  "recv_content_frame terminal c =
     (if cv_detached c \<or> cv_incoming_drained c then (None, c)
      else (case pop_incoming terminal c of
         None \<Rightarrow> (None, c)
       | Some (frame, c) \<Rightarrow> (if terminal (sc_status frame) then None else Some frame, c)))"

text \<open>\<open>sermo_recv\<close> once the response is started: it waits, or returns.\<close>

datatype 'a recv_result = RecvWaits | RecvReturns 'a

definition sermo_recv :: "(frame_status \<Rightarrow> bool) \<Rightarrow> 'f sermo_inner \<Rightarrow> 'f scrinium option recv_result \<times> 'f sermo_inner" where
  "sermo_recv terminal c =
     (if cv_detached c then (RecvReturns None, c)
      else if cv_incoming c = [] \<and> \<not> cv_detached c \<and> \<not> cv_incoming_drained c then (RecvWaits, c)
      else (case pop_incoming terminal c of
         None \<Rightarrow> (RecvReturns None, c)
       | Some (frame, c) \<Rightarrow> (RecvReturns (Some frame), c)))"

definition sermo_recv_ready :: "(frame_status \<Rightarrow> bool) \<Rightarrow> 'f sermo_inner \<Rightarrow> 'f scrinium option \<times> 'f sermo_inner" where
  "sermo_recv_ready terminal c =
     (if cv_detached c then (None, c)
      else (case pop_incoming terminal c of None \<Rightarrow> (None, c) | Some (frame, c) \<Rightarrow> (Some frame, c)))"

text \<open>\<open>poll\<close> of the receiving future tries \<open>sermo_recv_ready\<close>; when that finds nothing it takes the mutex
  again, and completes, tries once more, or registers its waker.\<close>

datatype poll_check = PollReadyNone | PollTryAgain | PollPending

definition recv_poll_check :: "nat \<Rightarrow> 'f sermo_inner \<Rightarrow> poll_check \<times> 'f sermo_inner" where
  "recv_poll_check waker c =
     (if cv_detached c \<or> cv_incoming_drained c then (PollReadyNone, c)
      else if cv_incoming c \<noteq> [] then (PollTryAgain, c)
      else (PollPending, if waker \<in> set (cv_waiters c) then c else c\<lparr>cv_waiters := cv_waiters c @ [waker]\<rparr>))"

fun pop_to_terminal :: "(frame_status \<Rightarrow> bool) \<Rightarrow> 'f scrinium list \<Rightarrow> frame_status option \<times> 'f scrinium list" where
  "pop_to_terminal terminal [] = (None, [])"
| "pop_to_terminal terminal (frame # rest) =
     (if terminal (sc_status frame) then (Some (sc_status frame), rest) else pop_to_terminal terminal rest)"

text \<open>\<open>tuus_fini\<close> once the response is started.\<close>

definition tuus_fini :: "(frame_status \<Rightarrow> bool) \<Rightarrow> 'f sermo_inner \<Rightarrow> frame_status \<times> 'f sermo_inner" where
  "tuus_fini terminal c =
     (if cv_incoming_drained c then (case cv_incoming_terminal c of Some s \<Rightarrow> s | None \<Rightarrow> StDone, c)
      else (case pop_to_terminal terminal (cv_incoming c) of
         (Some s, rest) \<Rightarrow> (s, record_incoming_terminal s (c\<lparr>cv_incoming := rest\<rparr>))
       | (None, rest) \<Rightarrow> (StDone, record_incoming_terminal StDone (c\<lparr>cv_incoming := rest\<rparr>))))"

end
