(* ===== verification/ConvSteps.thy ===== *)
theory ConvSteps
  imports Conversation
begin

text \<open>
  The threads of a conversation of \<open>src/frame.rs\<close> as a step relation: the caller (thread 0), which starts
  the host dispatch under the conversation's mutex and receives, and the producers that share the
  response lease. A step is what a thread does between two acquisitions of a mutex or two reads of the
  cancellation flag; the mutexes are the ids of their holders.
\<close>

datatype after_push = AfterSend | AfterReject | AfterDrop

text \<open>Where a thread is: \<open>Outside\<close> holds no sender. \<open>Producer\<close> holds one and is in no call. In a \<open>send\<close> it
  has passed the first check (\<open>Checked\<close>), the second (\<open>Ready\<close>), or holds \<open>terminal_sent\<close> and waits for the
  conversation (\<open>Pushing\<close>). \<open>LastDrop\<close> has dropped the last sender. The caller is \<open>Starting\<close> the dispatch,
  \<open>Rejecting\<close> its error or \<open>Finishing\<close>.\<close>

datatype 'f thread =
  Outside
| Producer
| Checked frame_status "'f valor"
| Ready frame_status "'f valor"
| Pushing frame_status "'f valor" after_push
| LastDrop
| Starting
| Rejecting ustr
| Finishing

record 'f conv_system =
  cs_conv :: "'f sermo_inner"
  cs_conv_lock :: "nat option"
  cs_live_senders :: nat
  cs_terminal_sent :: bool
  cs_sent_lock :: "nat option"
  cs_cancelled :: bool
  cs_threads :: "nat \<Rightarrow> 'f thread"
  cs_taken :: "'f scrinium list"

definition set_thread :: "nat \<Rightarrow> 'f thread \<Rightarrow> 'f conv_system \<Rightarrow> 'f conv_system" where
  "set_thread i t s = s\<lparr>cs_threads := (cs_threads s)(i := t)\<rparr>"

text \<open>\<open>send\<close>: the first reading of the flag, the second, and the lease under \<open>terminal_sent\<close>.\<close>

definition send_check :: "(frame_status \<Rightarrow> bool) \<Rightarrow> nat \<Rightarrow> frame_status \<Rightarrow> 'f valor \<Rightarrow> 'f conv_system
    \<Rightarrow> frame_error option \<times> 'f conv_system" where
  "send_check terminal i status data s =
     (if cs_cancelled s \<and> \<not> terminal status
      then (Some \<lparr>fe_issue = ''frame_response_cancelled'',
              fe_message = ''response sender cannot enqueue content after cancellation''\<rparr>, s)
      else (None, set_thread i (Checked status data) s))"

definition send_second_check :: "nat \<Rightarrow> frame_status \<Rightarrow> 'f valor \<Rightarrow> 'f conv_system \<Rightarrow> 'f conv_system" where
  "send_second_check i status data s =
     (if cs_cancelled s \<and> status = StDone then set_thread i (Ready StCancel Nihil) s
      else set_thread i (Ready status data) s)"

definition send_lease :: "(frame_status \<Rightarrow> bool) \<Rightarrow> nat \<Rightarrow> frame_status \<Rightarrow> 'f valor \<Rightarrow> 'f conv_system
    \<Rightarrow> frame_error option \<times> 'f conv_system" where
  "send_lease terminal i status data s =
     (if terminal status
      then if cs_terminal_sent s
        then (Some \<lparr>fe_issue = ''frame_response_terminal_already_sent'',
                fe_message = ''response sender already sent a terminal frame''\<rparr>, set_thread i Producer s)
        else (None, set_thread i (Pushing status data AfterSend) (s\<lparr>cs_terminal_sent := True, cs_sent_lock := Some i\<rparr>))
      else if cs_terminal_sent s
        then (Some \<lparr>fe_issue = ''frame_response_after_terminal'',
                fe_message = ''response sender cannot enqueue content after a terminal frame''\<rparr>, set_thread i Producer s)
        else (None, set_thread i (Pushing status data AfterSend) (s\<lparr>cs_sent_lock := Some i\<rparr>)))"

text \<open>\<open>reject_start_error\<close> and \<open>drop\<close> under \<open>terminal_sent\<close>.\<close>

definition reject_start_error :: "nat \<Rightarrow> ustr \<Rightarrow> 'f conv_system \<Rightarrow> 'f conv_system" where
  "reject_start_error i message s =
     (if cs_terminal_sent s then set_thread i Finishing s
      else set_thread i (Pushing StError (Textus message) AfterReject)
             (s\<lparr>cs_terminal_sent := True, cs_sent_lock := Some i\<rparr>))"

text \<open>A thread leaves its call; the caller releases the conversation with it.\<close>

definition leave :: "nat \<Rightarrow> 'f conv_system \<Rightarrow> 'f conv_system" where
  "leave i s = set_thread i Outside (if i = 0 then s\<lparr>cs_conv_lock := None\<rparr> else s)"

definition sender_dropped :: "nat \<Rightarrow> 'f conv_system \<Rightarrow> 'f conv_system" where
  "sender_dropped i s =
     (let last = (cs_live_senders s = 1); s = s\<lparr>cs_live_senders := cs_live_senders s - 1\<rparr>
      in if \<not> last then leave i s else set_thread i LastDrop s)"

definition last_dropped :: "nat \<Rightarrow> 'f conv_system \<Rightarrow> 'f conv_system" where
  "last_dropped i s =
     (if cs_terminal_sent s then leave i s
      else let s = s\<lparr>cs_terminal_sent := True, cs_sent_lock := Some i\<rparr> in
        if cs_cancelled s then set_thread i (Pushing StCancel Nihil AfterDrop) s
        else set_thread i (Pushing StError (Textus (lit ''response producer dropped before terminal frame'')) AfterDrop) s)"

text \<open>\<open>push_response_frame\<close>, and the release of \<open>terminal_sent\<close>.\<close>

definition after_thread :: "nat \<Rightarrow> after_push \<Rightarrow> 'f conv_system \<Rightarrow> 'f conv_system" where
  "after_thread i k s = (case k of
     AfterSend \<Rightarrow> set_thread i Producer s
   | AfterReject \<Rightarrow> set_thread i Finishing s
   | AfterDrop \<Rightarrow> leave i s)"

definition push_response_frame :: "string \<Rightarrow> int \<Rightarrow> nat \<Rightarrow> frame_status \<Rightarrow> 'f valor \<Rightarrow> after_push \<Rightarrow> 'f conv_system
    \<Rightarrow> 'f conv_system" where
  "push_response_frame fid now i status data k s =
     after_thread i k (s\<lparr>cs_conv := push_runtime_frame fid now status data (cs_conv s), cs_sent_lock := None\<rparr>)"

text \<open>\<open>ensure_runtime_response_started\<close>: the caller keeps the conversation while the dispatch starts.\<close>

definition start_response :: "'f conv_system \<Rightarrow> 'f conv_system" where
  "start_response s =
     set_thread 0 Starting (s\<lparr>cs_conv := (cs_conv s)\<lparr>cv_response_generated := True, cv_cancellation := True\<rparr>,
       cs_conv_lock := Some 0, cs_live_senders := 2, cs_terminal_sent := False, cs_cancelled := False\<rparr>)"

text \<open>\<open>cancel_runtime_response\<close>, which dropping a receiving future that has not completed runs.\<close>

definition cancel_runtime_response :: "'f conv_system \<Rightarrow> 'f conv_system" where
  "cancel_runtime_response s =
     (if cv_cancellation (cs_conv s)
      then s\<lparr>cs_cancelled := True, cs_conv := wake_incoming ((cs_conv s)\<lparr>cv_cancellation := False\<rparr>)\<rparr>
      else s)"

text \<open>A receiving operation under the conversation's mutex; \<open>cs_taken\<close> records what it removes.\<close>

definition received :: "'f sermo_inner \<Rightarrow> 'f conv_system \<Rightarrow> 'f conv_system" where
  "received c s =
     s\<lparr>cs_conv := c, cs_taken := cs_taken s @ take (length (cv_incoming (cs_conv s)) - length (cv_incoming c))
         (cv_incoming (cs_conv s))\<rparr>"

definition conv_init :: "'f sermo_inner \<Rightarrow> 'f conv_system" where
  "conv_init c = \<lparr>cs_conv = c, cs_conv_lock = None, cs_live_senders = 0, cs_terminal_sent = False,
     cs_sent_lock = None, cs_cancelled = False, cs_threads = (\<lambda>_. Outside), cs_taken = []\<rparr>"

inductive conv_step :: "(frame_status \<Rightarrow> bool) \<Rightarrow> 'f conv_system \<Rightarrow> 'f conv_system \<Rightarrow> bool" for terminal where
  start: "cs_conv_lock s = None \<Longrightarrow> \<not> cv_response_generated (cs_conv s) \<Longrightarrow> cs_threads s 0 = Outside \<Longrightarrow>
    conv_step terminal s (start_response s)"
| dispatched: "cs_threads s 0 = Starting \<Longrightarrow> j \<noteq> 0 \<Longrightarrow> cs_threads s j = Outside \<Longrightarrow>
    conv_step terminal s (set_thread j Producer (set_thread 0 Finishing s))"
| refused: "cs_threads s 0 = Starting \<Longrightarrow>
    conv_step terminal s (set_thread 0 (Rejecting message) (s\<lparr>cs_live_senders := cs_live_senders s - 1\<rparr>))"
| refused_sharing: "cs_threads s 0 = Starting \<Longrightarrow> j \<noteq> 0 \<Longrightarrow> cs_threads s j = Outside \<Longrightarrow>
    conv_step terminal s (set_thread j Producer (set_thread 0 (Rejecting message) s))"
| rejected: "cs_threads s i = Rejecting message \<Longrightarrow> cs_sent_lock s = None \<Longrightarrow>
    conv_step terminal s (reject_start_error i message s)"
| cloned: "cs_threads s i = Producer \<Longrightarrow> j \<noteq> 0 \<Longrightarrow> cs_threads s j = Outside \<Longrightarrow>
    conv_step terminal s (set_thread j Producer (s\<lparr>cs_live_senders := cs_live_senders s + 1\<rparr>))"
| checked: "cs_threads s i = Producer \<Longrightarrow> conv_step terminal s (snd (send_check terminal i status data s))"
| rechecked: "cs_threads s i = Checked status data \<Longrightarrow> conv_step terminal s (send_second_check i status data s)"
| leased: "cs_threads s i = Ready status data \<Longrightarrow> cs_sent_lock s = None \<Longrightarrow>
    conv_step terminal s (snd (send_lease terminal i status data s))"
| pushed: "cs_threads s i = Pushing status data k \<Longrightarrow> cs_conv_lock s = None \<Longrightarrow>
    conv_step terminal s (push_response_frame fid now i status data k s)"
| dropped: "cs_threads s i = Producer \<or> cs_threads s i = Finishing \<Longrightarrow> conv_step terminal s (sender_dropped i s)"
| last: "cs_threads s i = LastDrop \<Longrightarrow> cs_sent_lock s = None \<Longrightarrow> conv_step terminal s (last_dropped i s)"
| cancelled: "cs_conv_lock s = None \<Longrightarrow> conv_step terminal s (cancel_runtime_response s)"
| host_cancelled: "conv_step terminal s (s\<lparr>cs_cancelled := True\<rparr>)"
| recv: "cs_conv_lock s = None \<Longrightarrow> cv_response_generated (cs_conv s) \<Longrightarrow>
    conv_step terminal s (received (snd (sermo_recv terminal (cs_conv s))) s)"
| recv_content: "cs_conv_lock s = None \<Longrightarrow> conv_step terminal s (received (snd (recv_content_frame terminal (cs_conv s))) s)"
| recv_ready: "cs_conv_lock s = None \<Longrightarrow> cv_response_generated (cs_conv s) \<Longrightarrow>
    conv_step terminal s (received (snd (sermo_recv_ready terminal (cs_conv s))) s)"
| recv_check: "cs_conv_lock s = None \<Longrightarrow> cv_response_generated (cs_conv s) \<Longrightarrow>
    conv_step terminal s (received (snd (recv_poll_check waker (cs_conv s))) s)"
| fini: "cs_conv_lock s = None \<Longrightarrow> cv_response_generated (cs_conv s) \<Longrightarrow>
    conv_step terminal s (received (snd (tuus_fini terminal (cs_conv s))) s)"
| outbound: "cs_conv_lock s = None \<Longrightarrow> conv_step terminal s (s\<lparr>cs_conv := snd (meus_da fid now data (cs_conv s))\<rparr>)"
| outbound_fini: "cs_conv_lock s = None \<Longrightarrow> conv_step terminal s (s\<lparr>cs_conv := snd (meus_fini fid now (cs_conv s))\<rparr>)"

definition conv_reachable :: "(frame_status \<Rightarrow> bool) \<Rightarrow> 'f sermo_inner \<Rightarrow> 'f conv_system \<Rightarrow> bool" where
  "conv_reachable terminal c s \<longleftrightarrow> (conv_step terminal)\<^sup>*\<^sup>* (conv_init c) s"

section \<open>What a step keeps\<close>

definition stream :: "'f conv_system \<Rightarrow> 'f scrinium list" where
  "stream s = cs_taken s @ cv_incoming (cs_conv s)"

definition content :: "(frame_status \<Rightarrow> bool) \<Rightarrow> 'f scrinium list \<Rightarrow> bool" where
  "content terminal fs \<longleftrightarrow> list_all (\<lambda>f. \<not> terminal (sc_status f)) fs"

definition ended :: "(frame_status \<Rightarrow> bool) \<Rightarrow> 'f scrinium list \<Rightarrow> bool" where
  "ended terminal fs \<longleftrightarrow> (\<exists>cs t. fs = cs @ [t] \<and> content terminal cs \<and> terminal (sc_status t))"

text \<open>Whether a thread holds \<open>terminal_sent\<close>, and whether for a terminal frame.\<close>

fun pushing :: "'f thread \<Rightarrow> bool" where
  "pushing (Pushing st v k) = True"
| "pushing _ = False"

fun pushing_terminal :: "(frame_status \<Rightarrow> bool) \<Rightarrow> 'f thread \<Rightarrow> bool" where
  "pushing_terminal terminal (Pushing st v k) = terminal st"
| "pushing_terminal terminal _ = False"

definition inv_lock :: "'f conv_system \<Rightarrow> bool" where
  "inv_lock s \<longleftrightarrow> (\<forall>i. pushing (cs_threads s i) \<longleftrightarrow> cs_sent_lock s = Some i)"

definition inv_fresh :: "'f conv_system \<Rightarrow> bool" where
  "inv_fresh s \<longleftrightarrow> (\<not> cv_response_generated (cs_conv s) \<longrightarrow>
     (\<forall>i. cs_threads s i = Outside) \<and> stream s = [] \<and> \<not> cs_terminal_sent s)"

definition inv_stream :: "(frame_status \<Rightarrow> bool) \<Rightarrow> 'f conv_system \<Rightarrow> bool" where
  "inv_stream terminal s \<longleftrightarrow>
     (if cs_terminal_sent s
      then ended terminal (stream s) \<and> cs_sent_lock s = None \<or>
           content terminal (stream s) \<and> (\<exists>i. cs_sent_lock s = Some i \<and> pushing_terminal terminal (cs_threads s i))
      else content terminal (stream s) \<and> (\<forall>i. \<not> pushing_terminal terminal (cs_threads s i)))"

text \<open>What a receiving operation does: it takes frames from the front of the queue, and a terminal one
  only if it records that the stream is drained.\<close>

definition takes :: "(frame_status \<Rightarrow> bool) \<Rightarrow> 'f sermo_inner \<Rightarrow> 'f sermo_inner \<Rightarrow> bool" where
  "takes terminal c c' \<longleftrightarrow> cv_response_generated c' = cv_response_generated c \<and>
     (\<exists>ps. cv_incoming c = ps @ cv_incoming c' \<and>
       (\<not> cv_incoming_drained c' \<longrightarrow> \<not> cv_incoming_drained c \<and> content terminal ps))"

lemma content_append: "content terminal (xs @ ys) \<longleftrightarrow> content terminal xs \<and> content terminal ys"
  by (simp add: content_def)

lemma takes_refl: "takes terminal c c"
  by (simp add: takes_def content_def)

lemma takes_pop: "pop_incoming terminal c = Some (f, c') \<Longrightarrow> takes terminal c c'"
  by (auto simp: pop_incoming_def record_incoming_terminal_def takes_def content_def Let_def split: list.splits if_splits)

lemma takes_sermo_recv: "takes terminal c (snd (sermo_recv terminal c))"
  by (auto simp: sermo_recv_def takes_refl dest: takes_pop split: option.split)

lemma takes_recv_content: "takes terminal c (snd (recv_content_frame terminal c))"
  by (auto simp: recv_content_frame_def takes_refl dest: takes_pop split: option.split)

lemma takes_recv_ready: "takes terminal c (snd (sermo_recv_ready terminal c))"
  by (auto simp: sermo_recv_ready_def takes_refl dest: takes_pop split: option.split)

lemma takes_recv_check: "takes terminal c (snd (recv_poll_check w c))"
  by (simp add: recv_poll_check_def takes_def content_def)

lemma pop_to_terminal_takes: "\<exists>ps. fs = ps @ snd (pop_to_terminal terminal fs)"
proof (induction terminal fs rule: pop_to_terminal.induct)
  case (2 terminal frame rest)
  then show ?case by (cases "terminal (sc_status frame)") (auto intro: exI[of _ "frame # ps" for ps])
qed simp

lemma takes_tuus_fini: "takes terminal c (snd (tuus_fini terminal c))"
  using pop_to_terminal_takes[of "cv_incoming c" terminal]
  by (auto simp: tuus_fini_def takes_def record_incoming_terminal_def content_def split: prod.split option.split)

lemmas receive_takes = takes_sermo_recv takes_recv_content takes_recv_ready takes_recv_check takes_tuus_fini

lemma takes_generated: "takes terminal c c' \<Longrightarrow> cv_response_generated c' = cv_response_generated c"
  by (simp add: takes_def)

lemmas receive_keeps_generated = receive_takes[THEN takes_generated]

lemma stream_received: "takes terminal (cs_conv s) c \<Longrightarrow> stream (received c s) = stream s"
  by (auto simp: takes_def stream_def received_def)

lemma received_simps:
  "cs_threads (received c s) = cs_threads s" "cs_sent_lock (received c s) = cs_sent_lock s"
  "cs_terminal_sent (received c s) = cs_terminal_sent s" "cs_conv_lock (received c s) = cs_conv_lock s"
  "cs_live_senders (received c s) = cs_live_senders s" "cs_conv (received c s) = c"
  by (simp_all add: received_def)

lemmas step_defs = start_response_def send_check_def send_second_check_def send_lease_def reject_start_error_def
  leave_def sender_dropped_def last_dropped_def after_thread_def push_response_frame_def set_thread_def
  cancel_runtime_response_def

lemma conv_step_lock: "conv_step terminal s s' \<Longrightarrow> inv_lock s \<Longrightarrow> inv_lock s'"
proof (induction rule: conv_step.induct)
  case (dropped s i)
  then have "\<not> pushing (cs_threads s i)" by auto
  with dropped show ?case by (auto simp: inv_lock_def step_defs Let_def split: if_splits)
next
  case (pushed s i status data k fid now)
  then have "pushing (cs_threads s i)" by simp
  then have "cs_sent_lock s = Some i" using pushed(3) by (simp add: inv_lock_def)
  then have "\<And>j. pushing (cs_threads s j) \<longleftrightarrow> j = i" using pushed(3) by (auto simp: inv_lock_def)
  then show ?case by (auto simp: inv_lock_def step_defs split: after_push.splits)
qed (auto simp: inv_lock_def step_defs received_simps Let_def split: if_splits after_push.splits,
    (metis pushing.simps)+)

lemma push_runtime_frame_simps:
  "cv_incoming (push_runtime_frame fid now st v c) = cv_incoming c @
     [\<lparr>sc_id = fid, sc_parent_id = Some (cv_conversation_id c), sc_call = cv_route c, sc_status = st,
       sc_data = v, sc_created_ms = now, sc_from = Some ''faber-runtime'', sc_trace = None\<rparr>]"
  "cv_response_generated (push_runtime_frame fid now st v c) = cv_response_generated c"
  "cv_incoming_drained (push_runtime_frame fid now st v c) = cv_incoming_drained c"
  by (simp_all add: push_runtime_frame_def wake_incoming_def)

lemma conv_frame_simps:
  "cv_incoming (wake_incoming c) = cv_incoming c"
  "cv_response_generated (wake_incoming c) = cv_response_generated c"
  "cv_incoming_drained (wake_incoming c) = cv_incoming_drained c"
  "cv_incoming (snd (meus_da fid now v c)) = cv_incoming c"
  "cv_response_generated (snd (meus_da fid now v c)) = cv_response_generated c"
  "cv_incoming_drained (snd (meus_da fid now v c)) = cv_incoming_drained c"
  "cv_incoming (snd (meus_fini fid now c)) = cv_incoming c"
  "cv_response_generated (snd (meus_fini fid now c)) = cv_response_generated c"
  "cv_incoming_drained (snd (meus_fini fid now c)) = cv_incoming_drained c"
  by (auto simp: wake_incoming_def meus_da_def meus_fini_def)

lemma conv_step_fresh: "conv_step terminal s s' \<Longrightarrow> inv_fresh s \<Longrightarrow> inv_fresh s'"
proof (induction rule: conv_step.induct)
  case recv
  then show ?case by (simp add: inv_fresh_def received_simps receive_keeps_generated)
next
  case recv_ready
  then show ?case by (simp add: inv_fresh_def received_simps receive_keeps_generated)
next
  case recv_check
  then show ?case by (simp add: inv_fresh_def received_simps receive_keeps_generated)
next
  case fini
  then show ?case by (simp add: inv_fresh_def received_simps receive_keeps_generated)
next
  case recv_content
  then show ?case
    by (simp add: inv_fresh_def received_simps receive_keeps_generated stream_received[OF takes_recv_content])
qed (auto simp: inv_fresh_def step_defs stream_def conv_frame_simps push_runtime_frame_simps Let_def
    split: if_splits after_push.splits)

text \<open>A receiving operation moves frames from the queue to what was taken.\<close>

lemma inv_stream_received:
  "takes terminal (cs_conv s) c \<Longrightarrow> inv_stream terminal (received c s) = inv_stream terminal s"
  by (simp add: inv_stream_def stream_received received_simps)

lemma not_pushing_terminal: "\<not> pushing t \<Longrightarrow> \<not> pushing_terminal terminal t"
  by (cases t) simp_all

lemma after_thread_simps:
  "stream (after_thread i k s) = stream s" "cs_terminal_sent (after_thread i k s) = cs_terminal_sent s"
  "cs_sent_lock (after_thread i k s) = cs_sent_lock s" "j \<noteq> i \<Longrightarrow> cs_threads (after_thread i k s) j = cs_threads s j"
  "\<not> pushing (cs_threads (after_thread i k s) i)"
  by (simp_all add: after_thread_def leave_def set_thread_def stream_def split: after_push.split)

text \<open>A thread that neither holds nor takes \<open>terminal_sent\<close> keeps the invariant; so do the counters.\<close>

lemma inv_stream_set_thread:
  assumes "inv_lock s" "\<not> pushing (cs_threads s i)" "\<not> pushing t"
  shows "inv_stream terminal (set_thread i t s) \<longleftrightarrow> inv_stream terminal s"
proof -
  have "cs_sent_lock s \<noteq> Some i" using assms(1,2) by (auto simp: inv_lock_def)
  then show ?thesis
    using not_pushing_terminal[OF assms(2)] not_pushing_terminal[OF assms(3)]
    by (auto simp: inv_stream_def set_thread_def stream_def) metis
qed

lemma inv_lock_set_thread:
  "inv_lock s \<Longrightarrow> \<not> pushing (cs_threads s i) \<Longrightarrow> \<not> pushing t \<Longrightarrow> inv_lock (set_thread i t s)"
  by (auto simp: inv_lock_def set_thread_def)

lemma set_thread_simps:
  "cs_threads (set_thread i t s) j = (if j = i then t else cs_threads s j)"
  "cs_threads (s\<lparr>cs_live_senders := n\<rparr>) = cs_threads s"
  by (simp_all add: set_thread_def)

lemma inv_stream_counters:
  "inv_stream terminal (s\<lparr>cs_live_senders := n\<rparr>) = inv_stream terminal s"
  "inv_stream terminal (s\<lparr>cs_conv_lock := l\<rparr>) = inv_stream terminal s"
  "inv_stream terminal (s\<lparr>cs_cancelled := b\<rparr>) = inv_stream terminal s"
  "inv_lock (s\<lparr>cs_live_senders := n\<rparr>) = inv_lock s" "inv_lock (s\<lparr>cs_conv_lock := l\<rparr>) = inv_lock s"
  by (simp_all add: inv_stream_def inv_lock_def stream_def)

lemma inv_stream_leave:
  "inv_lock s \<Longrightarrow> \<not> pushing (cs_threads s i) \<Longrightarrow> inv_stream terminal (leave i s) = inv_stream terminal s"
  by (cases "i = 0") (auto simp: leave_def inv_stream_set_thread inv_stream_counters)

lemma inv_stream_takes_lease:
  assumes "inv_lock s" "inv_stream terminal s" "cs_sent_lock s = None" "\<not> cs_terminal_sent s"
  shows "inv_stream terminal (set_thread i (Pushing st v k) (s\<lparr>cs_terminal_sent := terminal st, cs_sent_lock := Some i\<rparr>))"
  using assms by (auto simp: inv_stream_def set_thread_def stream_def)

lemma inv_stream_conv:
  "cv_incoming c = cv_incoming (cs_conv s) \<Longrightarrow> inv_stream terminal (s\<lparr>cs_conv := c\<rparr>) = inv_stream terminal s"
  by (simp add: inv_stream_def stream_def)

lemma conv_step_stream:
  assumes "terminal_statuses terminal"
  shows "conv_step terminal s s' \<Longrightarrow> inv_lock s \<Longrightarrow> inv_fresh s \<Longrightarrow> inv_stream terminal s \<Longrightarrow> inv_stream terminal s'"
proof (induction rule: conv_step.induct)
  case (pushed s i status data k fid now)
  then have lock: "cs_sent_lock s = Some i" by (metis inv_lock_def pushing.simps(1))
  have only: "\<not> pushing_terminal terminal (cs_threads s j)" if "j \<noteq> i" for j
    using pushed(3) lock that not_pushing_terminal by (metis inv_lock_def option.inject)
  let ?s = "push_response_frame fid now i status data k s"
  obtain f where f: "stream ?s = stream s @ [f]" "sc_status f = status"
    by (simp add: push_response_frame_def after_thread_simps) (simp add: stream_def push_runtime_frame_simps)
  have sent: "cs_terminal_sent ?s = cs_terminal_sent s" "cs_sent_lock ?s = None"
    by (simp_all add: push_response_frame_def after_thread_simps)
  have none: "\<not> pushing_terminal terminal (cs_threads ?s j)" for j
    using only[of j] by (cases "j = i") (auto simp: push_response_frame_def after_thread_simps not_pushing_terminal)
  show ?case
  proof (cases "cs_terminal_sent s")
    case True
    then have "content terminal (stream s)" "terminal status"
      using pushed(1,5) lock by (auto simp: inv_stream_def)
    then show ?thesis using True sent f by (auto simp: inv_stream_def ended_def)
  next
    case False
    then have "content terminal (stream s)" "\<not> terminal status"
      using pushed(1,5) by (auto simp: inv_stream_def dest: spec[of _ i])
    then show ?thesis using False sent f none by (simp add: inv_stream_def content_append) (simp add: content_def)
  qed
next
  case (start s)
  then show ?case by (auto simp: inv_stream_def inv_fresh_def start_response_def set_thread_def stream_def content_def)
next
  case (refused_sharing s j message)
  then show ?case by (simp add: inv_stream_set_thread inv_lock_set_thread set_thread_simps)
next
  case (dispatched s j)
  then show ?case by (simp add: inv_stream_set_thread inv_lock_set_thread set_thread_simps)
next
  case (rejected s i message)
  have "terminal StError" using assms by (simp add: terminal_statuses_def)
  with rejected inv_stream_takes_lease[of s terminal i StError] show ?case
    by (simp add: reject_start_error_def inv_stream_set_thread)
next
  case (checked s i status data)
  then show ?case by (simp add: send_check_def inv_stream_set_thread)
next
  case (rechecked s i status data)
  then show ?case by (simp add: send_second_check_def inv_stream_set_thread)
next
  case (leased s i status data)
  show ?case
  proof (cases "terminal status \<or> cs_terminal_sent s")
    case True
    then show ?thesis
      using leased inv_stream_takes_lease[of s terminal i status]
      by (auto simp: send_lease_def inv_stream_set_thread)
  next
    case False
    then show ?thesis
      using leased by (auto simp: send_lease_def inv_stream_def set_thread_def stream_def)
  qed
next
  case (dropped s i)
  then have "\<not> pushing (cs_threads s i)" by auto
  with dropped show ?case
    by (simp add: sender_dropped_def Let_def inv_stream_set_thread inv_stream_leave inv_stream_counters)
next
  case (last s i)
  have "terminal StError" "terminal StCancel" using assms by (simp_all add: terminal_statuses_def)
  with last inv_stream_takes_lease[of s terminal i StError] inv_stream_takes_lease[of s terminal i StCancel] show ?case
    by (auto simp: last_dropped_def Let_def inv_stream_leave)
qed (simp_all add: inv_stream_received receive_takes inv_stream_set_thread inv_stream_counters inv_stream_conv
    conv_frame_simps cancel_runtime_response_def set_thread_simps)

section \<open>Counting the senders\<close>

text \<open>The senders a thread owns; dropping the last one owns none any more.\<close>

fun owned :: "'f thread \<Rightarrow> nat" where
  "owned Outside = 0"
| "owned LastDrop = 0"
| "owned (Pushing st v AfterDrop) = 0"
| "owned Starting = 2"
| "owned _ = 1"

definition total :: "(nat \<Rightarrow> nat) \<Rightarrow> nat" where
  "total f = sum f {i. f i \<noteq> 0}"

lemma total_upd:
  assumes fin: "finite {i. f i \<noteq> 0}"
  shows "total (f(i := x)) + f i = total f + x"
proof -
  let ?A = "{j. f j \<noteq> 0} - {i}"
  have A: "finite ?A" using fin by simp
  have sub: "{j. (f(i := x)) j \<noteq> 0} \<subseteq> insert i ?A" by auto
  have 1: "total (f(i := x)) = sum (f(i := x)) (insert i ?A)"
    unfolding total_def by (rule sum.mono_neutral_left) (use A in auto)
  have 2: "total f = sum f (insert i ?A)"
    unfolding total_def by (rule sum.mono_neutral_left) (use A in auto)
  have 3: "sum (f(i := x)) ?A = sum f ?A" by (rule sum.cong) auto
  have "sum (f(i := x)) (insert i ?A) = x + sum f ?A" "sum f (insert i ?A) = f i + sum f ?A"
    using A 3 by (subst sum.insert; simp)+
  with 1 2 show ?thesis by linarith
qed

definition inv_count :: "'f conv_system \<Rightarrow> bool" where
  "inv_count s \<longleftrightarrow> finite {i. owned (cs_threads s i) \<noteq> 0} \<and> cs_live_senders s = total (\<lambda>i. owned (cs_threads s i))"

definition inv_end :: "'f conv_system \<Rightarrow> bool" where
  "inv_end s \<longleftrightarrow> (cv_response_generated (cs_conv s) \<longrightarrow>
     cs_terminal_sent s \<or> 0 < cs_live_senders s \<or> (\<exists>i. cs_threads s i = LastDrop))"

lemma owned_upd: "(\<lambda>j. owned ((h(i := t)) j)) = (\<lambda>j. owned (h j))(i := owned t)"
  by auto

text \<open>Changing one thread changes the count by what it owned and owns.\<close>

lemma inv_count_upd:
  assumes "inv_count s" "cs_threads s' = (cs_threads s)(i := t)"
    "cs_live_senders s' + owned (cs_threads s i) = cs_live_senders s + owned t"
  shows "inv_count s'"
proof -
  have fin: "finite {j. owned (cs_threads s j) \<noteq> 0}" using assms(1) by (simp add: inv_count_def)
  have "{j. owned (cs_threads s' j) \<noteq> 0} \<subseteq> insert i {j. owned (cs_threads s j) \<noteq> 0}" using assms(2) by auto
  then have "finite {j. owned (cs_threads s' j) \<noteq> 0}" by (rule finite_subset) (use fin in simp)
  moreover have "total (\<lambda>j. owned (cs_threads s' j)) + owned (cs_threads s i)
      = total (\<lambda>j. owned (cs_threads s j)) + owned t"
    unfolding assms(2) owned_upd by (rule total_upd[OF fin, of i])
  ultimately show ?thesis using assms(1,3) by (simp add: inv_count_def)
qed

lemma owned_le_live: "inv_count s \<Longrightarrow> owned (cs_threads s i) \<le> cs_live_senders s"
  using total_upd[of "\<lambda>i. owned (cs_threads s i)" i 0] by (simp add: inv_count_def)

lemma inv_count_same:
  "inv_count s \<Longrightarrow> cs_threads s' = cs_threads s \<Longrightarrow> cs_live_senders s' = cs_live_senders s \<Longrightarrow> inv_count s'"
  by (simp add: inv_count_def)

text \<open>Every thread of a step but the caller that starts is \<open>Outside\<close> the code at first.\<close>

lemma conv_step_count:
  assumes "terminal_statuses terminal"
  shows "conv_step terminal s s' \<Longrightarrow> inv_fresh s \<Longrightarrow> inv_count s \<Longrightarrow> inv_count s'"
proof (induction rule: conv_step.induct)
  case (start s)
  then have out: "\<And>i. cs_threads s i = Outside" by (simp add: inv_fresh_def)
  then have 0: "cs_live_senders s = 0" using start(5) by (simp add: inv_count_def total_def)
  show ?case
    by (rule inv_count_upd[OF start(5), of _ 0 Starting]) (simp_all add: start_response_def set_thread_def out 0)
next
  case (dispatched s j)
  have 1: "inv_count (set_thread j Producer (s\<lparr>cs_live_senders := cs_live_senders s + 1\<rparr>))"
    by (rule inv_count_upd[OF dispatched(5), of _ j Producer]) (use dispatched in \<open>simp_all add: set_thread_def\<close>)
  show ?case
    by (rule inv_count_upd[OF 1, of _ 0 Finishing])
      (use dispatched in \<open>auto simp: set_thread_def fun_upd_twist\<close>)
next
  case (refused_sharing s j message)
  have 1: "inv_count (set_thread j Producer (s\<lparr>cs_live_senders := cs_live_senders s + 1\<rparr>))"
    by (rule inv_count_upd[OF refused_sharing(5), of _ j Producer]) (use refused_sharing in \<open>simp_all add: set_thread_def\<close>)
  show ?case
    by (rule inv_count_upd[OF 1, of _ 0 "Rejecting message"])
      (use refused_sharing in \<open>auto simp: set_thread_def fun_upd_twist\<close>)
next
  case (refused s message)
  then have "2 \<le> cs_live_senders s" using owned_le_live[OF refused(3), of 0] by simp
  then show ?case
    by (intro inv_count_upd[OF refused(3), of _ 0 "Rejecting message"]) (use refused in \<open>simp_all add: set_thread_def\<close>)
next
  case (rejected s i message)
  show ?case
    by (rule inv_count_upd[OF rejected(4), of _ i "cs_threads (reject_start_error i message s) i"])
      (use rejected in \<open>auto simp: reject_start_error_def set_thread_def\<close>)
next
  case (cloned s i j)
  then show ?case
    by (intro inv_count_upd[OF cloned(5), of _ j Producer]) (simp_all add: set_thread_def)
next
  case (checked s i status data)
  show ?case
    by (rule inv_count_upd[OF checked(3), of _ i "cs_threads (snd (send_check terminal i status data s)) i"])
      (use checked in \<open>auto simp: send_check_def set_thread_def\<close>)
next
  case (rechecked s i status data)
  show ?case
    by (rule inv_count_upd[OF rechecked(3), of _ i "cs_threads (send_second_check i status data s) i"])
      (use rechecked in \<open>auto simp: send_second_check_def set_thread_def\<close>)
next
  case (leased s i status data)
  show ?case
    by (rule inv_count_upd[OF leased(4), of _ i "cs_threads (snd (send_lease terminal i status data s)) i"])
      (use leased in \<open>auto simp: send_lease_def set_thread_def\<close>)
next
  case (pushed s i status data k fid now)
  show ?case
    by (rule inv_count_upd[OF pushed(4), of _ i "cs_threads (push_response_frame fid now i status data k s) i"])
      (use pushed in \<open>auto simp: push_response_frame_def after_thread_def leave_def set_thread_def split: after_push.splits\<close>)
next
  case (dropped s i)
  then have "1 \<le> cs_live_senders s" using owned_le_live[OF dropped(3), of i] by auto
  then show ?case
    by (intro inv_count_upd[OF dropped(3), of _ i "cs_threads (sender_dropped i s) i"])
      (use dropped in \<open>auto simp: sender_dropped_def leave_def set_thread_def Let_def\<close>)
next
  case (last s i)
  show ?case
    by (rule inv_count_upd[OF last(4), of _ i "cs_threads (last_dropped i s) i"])
      (use last in \<open>auto simp: last_dropped_def leave_def set_thread_def Let_def\<close>)
qed (auto elim!: inv_count_same simp: received_simps cancel_runtime_response_def)

lemma inv_end_keep:
  "inv_end s \<Longrightarrow> cv_response_generated (cs_conv s') \<longrightarrow> cv_response_generated (cs_conv s) \<Longrightarrow>
   cs_terminal_sent s \<longrightarrow> cs_terminal_sent s' \<Longrightarrow> cs_live_senders s \<le> cs_live_senders s' \<Longrightarrow>
   \<forall>i. cs_threads s i = LastDrop \<longrightarrow> cs_threads s' i = LastDrop \<or> cs_terminal_sent s' \<Longrightarrow> inv_end s'"
  by (auto simp: inv_end_def)

lemma conv_step_end: "conv_step terminal s s' \<Longrightarrow> inv_count s \<Longrightarrow> inv_end s \<Longrightarrow> inv_end s'"
proof (induction rule: conv_step.induct)
  case (start s)
  show ?case by (simp add: inv_end_def start_response_def set_thread_def)
next
  case (refused s message)
  then have "2 \<le> cs_live_senders s" using owned_le_live[OF refused(2), of 0] by simp
  then show ?case by (simp add: inv_end_def set_thread_def)
next
  case (dropped s i)
  then have "1 \<le> cs_live_senders s" using owned_le_live[OF dropped(2), of i] by auto
  then show ?case by (auto simp: inv_end_def sender_dropped_def leave_def set_thread_def Let_def)
qed (erule inv_end_keep; auto simp: step_defs received_simps receive_keeps_generated conv_frame_simps
    push_runtime_frame_simps Let_def split: after_push.splits; fail)+

section \<open>What was taken\<close>

definition inv_taken :: "(frame_status \<Rightarrow> bool) \<Rightarrow> 'f conv_system \<Rightarrow> bool" where
  "inv_taken terminal s \<longleftrightarrow> (\<not> cv_incoming_drained (cs_conv s) \<longrightarrow> content terminal (cs_taken s))"

lemma inv_taken_received: "takes terminal (cs_conv s) c \<Longrightarrow> inv_taken terminal s \<Longrightarrow> inv_taken terminal (received c s)"
  by (auto simp: inv_taken_def takes_def received_def content_append)

lemma conv_step_taken: "conv_step terminal s s' \<Longrightarrow> inv_taken terminal s \<Longrightarrow> inv_taken terminal s'"
  by (induction rule: conv_step.induct)
    (simp_all add: inv_taken_received receive_takes,
     auto simp: inv_taken_def step_defs conv_frame_simps push_runtime_frame_simps Let_def split: after_push.split)

definition conv_inv :: "(frame_status \<Rightarrow> bool) \<Rightarrow> 'f conv_system \<Rightarrow> bool" where
  "conv_inv terminal s \<longleftrightarrow> inv_lock s \<and> inv_fresh s \<and> inv_stream terminal s \<and> inv_count s \<and> inv_end s \<and> inv_taken terminal s"

lemma conv_inv_init: "cv_incoming c = [] \<Longrightarrow> \<not> cv_response_generated c \<Longrightarrow> conv_inv terminal (conv_init c)"
  by (simp add: conv_inv_def conv_init_def inv_lock_def inv_fresh_def inv_stream_def inv_count_def inv_end_def
      inv_taken_def stream_def content_def total_def)

lemma conv_inv_reachable:
  assumes "terminal_statuses terminal" "cv_incoming c = []" "\<not> cv_response_generated c" "conv_reachable terminal c s"
  shows "conv_inv terminal s"
  using assms(4) unfolding conv_reachable_def
proof (induction rule: rtranclp_induct)
  case base
  show ?case by (rule conv_inv_init) (fact assms)+
next
  case (step s1 s2)
  then show ?case
    using conv_step_lock conv_step_fresh conv_step_stream[OF assms(1)] conv_step_count[OF assms(1)] conv_step_end
      conv_step_taken
    by (simp add: conv_inv_def) blast
qed

end
