(* ===== verification/ConvProps.thy ===== *)
theory ConvProps
  imports ConvSteps
begin

text \<open>
  What the conversation of \<open>src/frame.rs\<close> guarantees under every interleaving of its threads: one terminal
  frame at most and nothing after it, a terminal frame once every sender is dropped, and the refused
  start, which never returns.
\<close>

text \<open>C26: in every state the threads of a conversation can reach, whatever the interleaving of sends,
  clones, drops, cancellation and receives, the response stream (the frames already taken and those still
  queued) is content only, or content followed by exactly one terminal frame: no two producers both
  send a terminal frame, and nothing follows it.\<close>

theorem response_stream_has_one_terminal:
  assumes "terminal_statuses terminal" "conv_reachable terminal (sermo_open route fid now) s"
  shows "content terminal (stream s) \<or> ended terminal (stream s)"
proof -
  have "conv_inv terminal s"
    by (rule conv_inv_reachable[OF assms(1) _ _ assms(2)]) (simp_all add: sermo_open_def)
  then show ?thesis by (auto simp: conv_inv_def inv_stream_def split: if_splits)
qed

definition demo_terminal :: "frame_status \<Rightarrow> bool" where
  "demo_terminal s \<longleftrightarrow> s = StDone \<or> s = StError \<or> s = StCancel"

lemma demo_terminal_ok: "terminal_statuses demo_terminal"
  by (simp add: terminal_statuses_def demo_terminal_def)

text \<open>A run: the dispatch starts with one producer, which sends an item and is dropped.\<close>

definition demo_open :: "int sermo_inner" where
  "demo_open = sermo_open ''runtime:echo'' ''frame-1'' 0"

definition demo_started :: "int conv_system" where
  "demo_started = set_thread 1 Producer (set_thread 0 Finishing (start_response (conv_init demo_open)))"

definition demo_sent :: "int conv_system" where
  "demo_sent = push_response_frame ''frame-2'' 1 1 StItem Nihil AfterSend
     (snd (send_lease demo_terminal 1 StItem Nihil (send_second_check 1 StItem Nihil
       (snd (send_check demo_terminal 1 StItem Nihil (sender_dropped 0 demo_started))))))"

definition demo_done :: "int conv_system" where
  "demo_done = push_response_frame ''frame-3'' 2 1 StError
     (Textus (lit ''response producer dropped before terminal frame'')) AfterDrop
     (last_dropped 1 (sender_dropped 1 demo_sent))"

lemmas demo_defs = demo_open_def demo_started_def demo_sent_def demo_done_def sermo_open_def conv_init_def
  step_defs push_runtime_frame_def wake_incoming_def demo_terminal_def

lemma demo_run: "conv_reachable demo_terminal demo_open demo_done"
proof -
  let ?S = "conv_step demo_terminal"
  let ?s0 = "start_response (conv_init demo_open)"
  let ?s1 = "sender_dropped 0 demo_started"
  let ?s2 = "snd (send_check demo_terminal 1 StItem Nihil ?s1)"
  let ?s3 = "send_second_check 1 StItem Nihil ?s2"
  let ?s4 = "snd (send_lease demo_terminal 1 StItem Nihil ?s3)"
  let ?s5 = "sender_dropped 1 demo_sent"
  let ?s6 = "last_dropped 1 ?s5"
  have "?S (conv_init demo_open) ?s0" by (rule conv_step.start) (simp_all add: demo_defs)
  moreover have "?S ?s0 demo_started" unfolding demo_started_def by (rule conv_step.dispatched) (simp_all add: demo_defs)
  moreover have "?S demo_started ?s1" by (rule conv_step.dropped) (simp add: demo_defs)
  moreover have "?S ?s1 ?s2" by (rule conv_step.checked) (simp add: demo_defs)
  moreover have "?S ?s2 ?s3" by (rule conv_step.rechecked) (simp add: demo_defs)
  moreover have "?S ?s3 ?s4" by (rule conv_step.leased) (simp_all add: demo_defs)
  moreover have "?S ?s4 demo_sent" unfolding demo_sent_def by (rule conv_step.pushed) (simp_all add: demo_defs)
  moreover have "?S demo_sent ?s5" by (rule conv_step.dropped) (simp add: demo_defs)
  moreover have "?S ?s5 ?s6" by (rule conv_step.last) (simp_all add: demo_defs Let_def)
  moreover have "?S ?s6 demo_done" unfolding demo_done_def by (rule conv_step.pushed) (simp_all add: demo_defs Let_def)
  ultimately show ?thesis
    unfolding conv_reachable_def by (meson rtranclp.rtrancl_refl converse_rtranclp_into_rtranclp)
qed

lemma response_stream_has_one_terminal_witness:
  "conv_reachable demo_terminal (sermo_open ''runtime:echo'' ''frame-1'' 0) demo_done \<and>
   length (stream demo_done) = 2 \<and> (content demo_terminal (stream demo_done) \<or> ended demo_terminal (stream demo_done))"
proof (intro conjI)
  show run: "conv_reachable demo_terminal (sermo_open ''runtime:echo'' ''frame-1'' 0) demo_done"
    using demo_run by (simp only: demo_open_def)
  show "length (stream demo_done) = 2" by (simp add: demo_defs stream_def Let_def)
  show "content demo_terminal (stream demo_done) \<or> ended demo_terminal (stream demo_done)"
    by (rule response_stream_has_one_terminal[OF demo_terminal_ok run])
qed

text \<open>C27: once the response was started and every thread has dropped its senders and left its calls, the
  stream has ended with a terminal frame, whatever the producers did (a producer dropped without a
  terminal frame included), and a blocking receive does not wait.\<close>

theorem response_ends_when_senders_drop:
  assumes "terminal_statuses terminal" "conv_reachable terminal (sermo_open route fid now) s"
    "cv_response_generated (cs_conv s)" "\<forall>i. cs_threads s i = Outside"
  shows "ended terminal (stream s) \<and> fst (sermo_recv terminal (cs_conv s)) \<noteq> RecvWaits"
proof -
  have inv: "conv_inv terminal s"
    by (rule conv_inv_reachable[OF assms(1) _ _ assms(2)]) (simp_all add: sermo_open_def)
  have "cs_live_senders s = 0" using inv assms(4) by (simp add: conv_inv_def inv_count_def total_def)
  then have "cs_terminal_sent s" using inv assms(3,4) by (simp add: conv_inv_def inv_end_def)
  then have ended: "ended terminal (stream s)"
    using inv assms(4) by (auto simp: conv_inv_def inv_stream_def)
  have "cv_incoming_drained (cs_conv s) \<or> cv_incoming (cs_conv s) \<noteq> []"
    using ended inv by (auto simp: ended_def stream_def conv_inv_def inv_taken_def content_def)
  then show ?thesis using ended by (auto simp: sermo_recv_def split: option.split)
qed

lemma response_ends_when_senders_drop_witness:
  "ended demo_terminal (stream demo_done) \<and> fst (sermo_recv demo_terminal (cs_conv demo_done)) \<noteq> RecvWaits"
  by (rule response_ends_when_senders_drop[OF demo_terminal_ok demo_run[unfolded demo_open_def]])
    (simp_all add: demo_defs Let_def)

section \<open>A refused start\<close>

definition inv_caller :: "'f conv_system \<Rightarrow> bool" where
  "inv_caller s \<longleftrightarrow> (cs_threads s 0 = Starting \<or> (\<exists>m. cs_threads s 0 = Rejecting m) \<longrightarrow>
     cs_conv_lock s = Some 0 \<and> (cs_terminal_sent s \<longrightarrow> cs_sent_lock s \<noteq> None))"

lemma conv_step_caller: "conv_step terminal s s' \<Longrightarrow> inv_caller s \<Longrightarrow> inv_caller s'"
  by (induction rule: conv_step.induct)
    (auto simp: inv_caller_def step_defs received_simps Let_def split: if_splits after_push.splits)

definition stuck :: "'f conv_system \<Rightarrow> bool" where
  "stuck s \<longleftrightarrow> cs_conv_lock s = Some 0 \<and>
     (pushing (cs_threads s 0) \<or> (\<exists>m. cs_threads s 0 = Rejecting m) \<and> (cs_terminal_sent s \<longrightarrow> cs_sent_lock s \<noteq> None))"

lemma conv_step_stuck: "conv_step terminal s s' \<Longrightarrow> stuck s \<Longrightarrow> stuck s'"
proof (induction rule: conv_step.induct)
  case (dropped s i)
  then have "i \<noteq> 0" by (cases "i = 0") (auto simp: stuck_def)
  with dropped show ?case by (auto simp: stuck_def step_defs Let_def)
qed (auto simp: stuck_def step_defs received_simps Let_def split: if_splits after_push.splits)

text \<open>When the host dispatch refuses to start, the caller keeps the conversation's mutex for ever: to
  reject the start it pushes a frame, for which it has to take the mutex it already holds.\<close>

theorem refused_start_never_returns:
  assumes "conv_reachable terminal (sermo_open route fid now) s" "cs_threads s 0 = Rejecting message"
    "(conv_step terminal)\<^sup>*\<^sup>* s s'"
  shows "cs_conv_lock s' = Some 0 \<and> cs_threads s' 0 \<noteq> Outside"
proof -
  have "inv_caller s"
    using assms(1) unfolding conv_reachable_def
    by (induction rule: rtranclp_induct) (simp add: inv_caller_def conv_init_def, rule conv_step_caller)
  then have "stuck s" using assms(2) by (auto simp: inv_caller_def stuck_def)
  with assms(3) have "stuck s'" by (induction rule: rtranclp_induct) (auto intro: conv_step_stuck)
  then show ?thesis by (auto simp: stuck_def)
qed

end
