(* ===== verification/Valores.thy ===== *)
theory Valores
  imports Instans
begin

text \<open>
  The conversions between the dynamic value and the types of the generated code (\<open>src/valor.rs\<close>,
  \<open>src/ascii.rs\<close>): one \<open>from_valor\<close> and one \<open>into_valor\<close> per implementation of the two traits, the
  collections parametric in that of their elements. A \<open>HashMap\<close> is a map; a \<open>BTreeMap\<close>, as in the
  documents, the list of its entries in key order.
\<close>

section \<open>ASCII text\<close>

datatype ascii = Ascii ustr

definition ascii_is_ascii :: "nat list \<Rightarrow> bool" where
  "ascii_is_ascii text \<longleftrightarrow> list_all (\<lambda>c. c < 128) text"

definition ascii_try_from_textus :: "ustr \<Rightarrow> ascii option" where
  "ascii_try_from_textus text = (if ascii_is_ascii text then Some (Ascii text) else None)"

definition ascii_try_from_bytes :: "bytes \<Rightarrow> ascii option" where
  "ascii_try_from_bytes bs = (if ascii_is_ascii (map unat bs) then Some (Ascii (map unat bs)) else None)"

fun ascii_to_textus :: "ascii \<Rightarrow> ustr" where
  "ascii_to_textus (Ascii text) = text"

section \<open>Extraction\<close>

definition valor_is_nihil :: "'f valor \<Rightarrow> bool" where
  "valor_is_nihil v \<longleftrightarrow> (case v of Nihil \<Rightarrow> True | _ \<Rightarrow> False)"

definition from_valor_unit :: "'f valor \<Rightarrow> unit option" where
  "from_valor_unit v = (case v of Nihil \<Rightarrow> Some () | _ \<Rightarrow> None)"

definition from_valor_bivalens :: "'f valor \<Rightarrow> bool option" where
  "from_valor_bivalens v = (case v of Bivalens b \<Rightarrow> Some b | _ \<Rightarrow> None)"

definition from_valor_numerus :: "'f valor \<Rightarrow> i64 option" where
  "from_valor_numerus v = (case v of Numerus n \<Rightarrow> Some n | _ \<Rightarrow> None)"

definition u8_try_from :: "i64 \<Rightarrow> u8 option" where
  "u8_try_from n = (if 0 \<le> sint n \<and> sint n \<le> 255 then Some (ucast n) else None)"

definition from_valor_u8 :: "'f valor \<Rightarrow> u8 option" where
  "from_valor_u8 v = (case v of Numerus n \<Rightarrow> u8_try_from n | _ \<Rightarrow> None)"

text \<open>\<open>as f64\<close> is an argument.\<close>

definition from_valor_fractus :: "(i64 \<Rightarrow> 'f) \<Rightarrow> 'f valor \<Rightarrow> 'f option" where
  "from_valor_fractus as_f64 v = (case v of Fractus f \<Rightarrow> Some f | Numerus n \<Rightarrow> Some (as_f64 n) | _ \<Rightarrow> None)"

definition from_valor_textus :: "'f valor \<Rightarrow> ustr option" where
  "from_valor_textus v = (case v of Textus s \<Rightarrow> Some s | InstansText s \<Rightarrow> Some s | _ \<Rightarrow> None)"

definition from_valor_ascii :: "'f valor \<Rightarrow> ascii option" where
  "from_valor_ascii v = (case from_valor_textus v of None \<Rightarrow> None | Some text \<Rightarrow> ascii_try_from_textus text)"

definition from_valor_valor :: "'f valor \<Rightarrow> 'f valor option" where
  "from_valor_valor v = Some v"

text \<open>The outer \<open>None\<close> is the panic of \<open>instans_try_from_valor\<close>.\<close>

definition from_valor_instans :: "'f valor \<Rightarrow> instans option option" where
  "from_valor_instans v = instans_try_from_valor v Secunda"

definition from_valor_lista :: "('f valor \<Rightarrow> 'a option) \<Rightarrow> 'f valor \<Rightarrow> 'a list option" where
  "from_valor_lista from v = (case v of Lista items \<Rightarrow> those (map from items) | _ \<Rightarrow> None)"

text \<open>Collecting the pairs into the hash map: a later pair of a key replaces an earlier one.\<close>

definition from_valor_tabula :: "('f valor \<Rightarrow> 'a option) \<Rightarrow> 'f valor \<Rightarrow> (ustr \<rightharpoonup> 'a) option" where
  "from_valor_tabula from v = (case v of
     Tabula tab \<Rightarrow> map_option (\<lambda>ps. map_of (rev ps)) (those (map (\<lambda>(key, value). map_option (Pair key) (from value)) tab))
   | _ \<Rightarrow> None)"

section \<open>Injection\<close>

definition valor_of_option :: "'f valor option \<Rightarrow> 'f valor" where
  "valor_of_option v = (case v of Some v \<Rightarrow> v | None \<Rightarrow> Nihil)"

definition valor_of_unit :: "unit \<Rightarrow> 'f valor" where
  "valor_of_unit _ = Nihil"

definition valor_of_ascii :: "ascii \<Rightarrow> 'f valor" where
  "valor_of_ascii a = Textus (ascii_to_textus a)"

definition valor_of_lista :: "('a \<Rightarrow> 'f valor) \<Rightarrow> 'a list \<Rightarrow> 'f valor" where
  "valor_of_lista into xs = Lista (map into xs)"

definition valor_of_tabula :: "('a \<Rightarrow> 'f valor) \<Rightarrow> (ustr \<times> 'a) list \<Rightarrow> 'f valor" where
  "valor_of_tabula into tab = Tabula (map (\<lambda>(key, value). (key, into value)) tab)"

section \<open>The contract of a conversion\<close>

locale valor_codec =
  fixes into :: "'a \<Rightarrow> 'f valor" and from_valor :: "'f valor \<Rightarrow> 'a option" and valid :: "'a \<Rightarrow> bool"
  assumes from_into: "valid x \<Longrightarrow> from_valor (into x) = Some x"
begin

lemma those_from_into: "list_all valid xs \<Longrightarrow> those (map from_valor (map into xs)) = Some xs"
  by (induction xs) (simp_all add: from_into)

lemma into_inj: "valid x \<Longrightarrow> valid y \<Longrightarrow> into x = into y \<Longrightarrow> x = y"
  by (metis from_into option.inject)

lemma lista_codec: "list_all valid xs \<Longrightarrow> from_valor_lista from_valor (valor_of_lista into xs) = Some xs"
  using those_from_into by (simp add: from_valor_lista_def valor_of_lista_def)

lemma those_pairs:
  "list_all (\<lambda>p. valid (snd p)) ps \<Longrightarrow>
   those (map ((\<lambda>(key, value). map_option (Pair key) (from_valor value)) \<circ> (\<lambda>(key, value). (key, into value))) ps) = Some ps"
  by (induction ps) (auto simp: from_into)

lemma tabula_codec:
  "list_all (\<lambda>p. valid (snd p)) ps \<Longrightarrow> distinct (map fst ps) \<Longrightarrow>
   from_valor_tabula from_valor (valor_of_tabula into ps) = Some (map_of ps)"
  by (simp add: from_valor_tabula_def valor_of_tabula_def those_pairs map_of_inject_set rev_map[symmetric])

end

lemmas from_valor_defs = from_valor_unit_def from_valor_bivalens_def from_valor_numerus_def from_valor_textus_def
  from_valor_valor_def from_valor_ascii_def valor_of_unit_def valor_of_ascii_def

interpretation unit_codec: valor_codec valor_of_unit from_valor_unit "\<lambda>_. True"
  by unfold_locales (simp add: from_valor_defs)

interpretation bivalens_codec: valor_codec Bivalens from_valor_bivalens "\<lambda>_. True"
  by unfold_locales (simp add: from_valor_defs)

interpretation numerus_codec: valor_codec Numerus from_valor_numerus "\<lambda>_. True"
  by unfold_locales (simp add: from_valor_defs)

interpretation textus_codec: valor_codec Textus from_valor_textus "\<lambda>_. True"
  by unfold_locales (simp add: from_valor_defs)

interpretation ascii_codec: valor_codec valor_of_ascii from_valor_ascii "\<lambda>a. ascii_is_ascii (ascii_to_textus a)"
proof unfold_locales
  fix a assume "ascii_is_ascii (ascii_to_textus a)"
  then show "from_valor_ascii (valor_of_ascii a) = Some a"
    by (cases a) (simp add: from_valor_defs ascii_try_from_textus_def)
qed

text \<open>Every ASCII value that can be built holds ASCII text.\<close>

lemma ascii_built_is_ascii:
  "ascii_try_from_textus text = Some a \<Longrightarrow> ascii_is_ascii (ascii_to_textus a)"
  "ascii_try_from_bytes bs = Some a \<Longrightarrow> ascii_is_ascii (ascii_to_textus a)"
  by (auto simp: ascii_try_from_textus_def ascii_try_from_bytes_def split: if_splits)

text \<open>The collections are codecs of their elements' codecs, at any depth.\<close>

interpretation lista_textus_codec: valor_codec "valor_of_lista Textus" "from_valor_lista from_valor_textus" "\<lambda>_. True"
  by unfold_locales (rule textus_codec.lista_codec, simp add: list_all_iff)

interpretation lista_numerus_codec: valor_codec "valor_of_lista Numerus" "from_valor_lista from_valor_numerus" "\<lambda>_. True"
  by unfold_locales (rule numerus_codec.lista_codec, simp add: list_all_iff)

lemma those_None: "those xs = None \<longleftrightarrow> None \<in> set xs"
  by (induction xs) (auto split: option.split)

lemma those_Some: "those xs = Some vs \<longleftrightarrow> xs = map Some vs"
proof (induction xs arbitrary: vs)
  case (Cons x xs)
  then show ?case by (cases vs; cases x) (auto simp: map_option_case those_None split: option.splits)
qed auto

text \<open>Extraction of a list is atomic: one failed element fails it.\<close>

lemma from_valor_lista_atomic:
  "from_valor_lista from (Lista items) = None \<longleftrightarrow> (\<exists>v\<in>set items. from v = None)"
  by (simp add: from_valor_lista_def those_None image_iff) (metis)

end
