(* ===== verification/Materialize.thy ===== *)
theory Materialize
  imports ConvProps Valores
begin

text \<open>
  The materializers of \<open>src/frame.rs\<close>: what a response becomes. The frames that the successive
  \<open>sermo_recv\<close> answers before its first \<open>None\<close> are a list; a materializer returns its result and the
  frames it left. The debug rendering of a dynamic value is the argument \<open>debug\<close>. Starting the
  response for a target is the start of the conversation's steps.
\<close>

text \<open>The arrow of the messages, in UTF-8.\<close>

definition sermo_arrow :: string where
  "sermo_arrow = ''sermo '' @ [CHR 0xE2, CHR 0x86, CHR 0xA6] @ '' ''"

type_synonym ('f, 'a) materialized = "(frame_error + 'a) \<times> 'f scrinium list"

definition terminal_error :: "('f valor \<Rightarrow> string) \<Rightarrow> 'f scrinium \<Rightarrow> frame_error option" where
  "terminal_error debug frame = (case sc_status frame of
     StError \<Rightarrow> Some \<lparr>fe_issue = ''frame_materialization_terminal_error'',
       fe_message = ''sermo materialization terminal error: '' @ debug (sc_data frame)\<rparr>
   | StCancel \<Rightarrow> Some \<lparr>fe_issue = ''frame_materialization_cancelled'', fe_message = ''sermo materialization cancelled''\<rparr>
   | _ \<Rightarrow> None)"

fun drain_incoming_to_terminal :: "(frame_status \<Rightarrow> bool) \<Rightarrow> 'f scrinium list \<Rightarrow> 'f scrinium list" where
  "drain_incoming_to_terminal terminal [] = []"
| "drain_incoming_to_terminal terminal (frame # rest) =
     (if terminal (sc_status frame) then rest else drain_incoming_to_terminal terminal rest)"

definition drain_remaining_then_err :: "(frame_status \<Rightarrow> bool) \<Rightarrow> frame_error \<Rightarrow> 'f scrinium list \<Rightarrow> ('f, 'a) materialized" where
  "drain_remaining_then_err terminal error frames = (Inl error, drain_incoming_to_terminal terminal frames)"

fun sermo_tuus_frames :: "(frame_status \<Rightarrow> bool) \<Rightarrow> 'f scrinium list \<Rightarrow> 'f scrinium list \<times> 'f scrinium list" where
  "sermo_tuus_frames terminal [] = ([], [])"
| "sermo_tuus_frames terminal (frame # rest) =
     (if terminal (sc_status frame) then ([], rest)
      else let (frames, rest) = sermo_tuus_frames terminal rest in (frame # frames, rest))"

section \<open>The loops\<close>

fun try_sermo_materialize_vacuum :: "(frame_status \<Rightarrow> bool) \<Rightarrow> ('f valor \<Rightarrow> string) \<Rightarrow> 'f scrinium list \<Rightarrow> ('f, unit) materialized" where
  "try_sermo_materialize_vacuum terminal debug [] = (Inr (), [])"
| "try_sermo_materialize_vacuum terminal debug (frame # rest) =
     (case terminal_error debug frame of
        Some message \<Rightarrow> (Inl message, rest)
      | None \<Rightarrow> if terminal (sc_status frame) then (Inr (), rest) else try_sermo_materialize_vacuum terminal debug rest)"

definition textus_payload_error :: frame_error where
  "textus_payload_error = \<lparr>fe_issue = ''frame_textus_payload_not_textus'',
     fe_message = sermo_arrow @ ''textus: content frame payload was not textus''\<rparr>"

fun materialize_textus_loop :: "(frame_status \<Rightarrow> bool) \<Rightarrow> ('f valor \<Rightarrow> string) \<Rightarrow> ustr \<Rightarrow> 'f scrinium list \<Rightarrow> ('f, ustr) materialized" where
  "materialize_textus_loop terminal debug out [] = (Inr out, [])"
| "materialize_textus_loop terminal debug out (frame # rest) =
     (case terminal_error debug frame of
        Some message \<Rightarrow> (Inl message, rest)
      | None \<Rightarrow>
          if terminal (sc_status frame) then (Inr out, rest)
          else (case sc_data frame of
             Textus s \<Rightarrow> materialize_textus_loop terminal debug (out @ s) rest
           | _ \<Rightarrow> drain_remaining_then_err terminal textus_payload_error rest))"

definition try_sermo_materialize_textus :: "(frame_status \<Rightarrow> bool) \<Rightarrow> ('f valor \<Rightarrow> string) \<Rightarrow> 'f scrinium list \<Rightarrow> ('f, ustr) materialized" where
  "try_sermo_materialize_textus terminal debug frames = materialize_textus_loop terminal debug [] frames"

fun octeti_lista :: "'f valor list \<Rightarrow> frame_error + bytes" where
  "octeti_lista [] = Inr []"
| "octeti_lista (v # vs) = (case v of
     Numerus n \<Rightarrow> (case u8_try_from n of
         Some byte \<Rightarrow> (case octeti_lista vs of Inl e \<Rightarrow> Inl e | Inr bs \<Rightarrow> Inr (byte # bs))
       | None \<Rightarrow> Inl \<lparr>fe_issue = ''frame_octeti_byte_out_of_range'',
           fe_message = sermo_arrow @ ''octeti: byte payload value was outside 0..255''\<rparr>)
   | _ \<Rightarrow> Inl \<lparr>fe_issue = ''frame_octeti_byte_not_numerus'',
       fe_message = sermo_arrow @ ''octeti: byte payload contained a non-numerus value''\<rparr>)"

definition octeti_payload :: "'f valor \<Rightarrow> frame_error + bytes" where
  "octeti_payload data = (case data of
     Octeti bytes \<Rightarrow> Inr bytes
   | Lista vs \<Rightarrow> octeti_lista vs
   | _ \<Rightarrow> Inl \<lparr>fe_issue = ''frame_octeti_payload_not_bytes'',
       fe_message = sermo_arrow @ ''octeti: content frame payload was not octeti or byte lista''\<rparr>)"

fun materialize_octeti_loop :: "(frame_status \<Rightarrow> bool) \<Rightarrow> ('f valor \<Rightarrow> string) \<Rightarrow> bytes \<Rightarrow> 'f scrinium list \<Rightarrow> ('f, bytes) materialized" where
  "materialize_octeti_loop terminal debug out [] = (Inr out, [])"
| "materialize_octeti_loop terminal debug out (frame # rest) =
     (case terminal_error debug frame of
        Some message \<Rightarrow> (Inl message, rest)
      | None \<Rightarrow>
          if terminal (sc_status frame) then (Inr out, rest)
          else (case octeti_payload (sc_data frame) of
             Inr bytes \<Rightarrow> materialize_octeti_loop terminal debug (out @ bytes) rest
           | Inl e \<Rightarrow> drain_remaining_then_err terminal e rest))"

definition try_sermo_materialize_octeti :: "(frame_status \<Rightarrow> bool) \<Rightarrow> ('f valor \<Rightarrow> string) \<Rightarrow> 'f scrinium list \<Rightarrow> ('f, bytes) materialized" where
  "try_sermo_materialize_octeti terminal debug frames = materialize_octeti_loop terminal debug [] frames"

fun materialize_valor_loop :: "(frame_status \<Rightarrow> bool) \<Rightarrow> ('f valor \<Rightarrow> string) \<Rightarrow> 'f valor option \<Rightarrow> 'f scrinium list \<Rightarrow> ('f, 'f valor) materialized" where
  "materialize_valor_loop terminal debug captured [] = (Inr (case captured of Some v \<Rightarrow> v | None \<Rightarrow> Nihil), [])"
| "materialize_valor_loop terminal debug captured (frame # rest) =
     (case terminal_error debug frame of
        Some message \<Rightarrow> (Inl message, rest)
      | None \<Rightarrow>
          if terminal (sc_status frame) then (Inr (case captured of Some v \<Rightarrow> v | None \<Rightarrow> Nihil), rest)
          else materialize_valor_loop terminal debug
                 (case captured of Some v \<Rightarrow> Some v | None \<Rightarrow> Some (sc_data frame)) rest)"

definition try_sermo_materialize_valor :: "(frame_status \<Rightarrow> bool) \<Rightarrow> ('f valor \<Rightarrow> string) \<Rightarrow> 'f scrinium list \<Rightarrow> ('f, 'f valor) materialized" where
  "try_sermo_materialize_valor terminal debug frames = materialize_valor_loop terminal debug None frames"

definition lista_payload_error :: frame_error where
  "lista_payload_error = \<lparr>fe_issue = ''frame_lista_payload_element_type_mismatch'',
     fe_message = sermo_arrow @ ''lista<T>: content frame payload did not match element type''\<rparr>"

fun materialize_lista_loop :: "(frame_status \<Rightarrow> bool) \<Rightarrow> ('f valor \<Rightarrow> string) \<Rightarrow> ('f valor \<Rightarrow> 'a option) \<Rightarrow> 'a list
    \<Rightarrow> 'f scrinium list \<Rightarrow> ('f, 'a list) materialized" where
  "materialize_lista_loop terminal debug from out [] = (Inr out, [])"
| "materialize_lista_loop terminal debug from out (frame # rest) =
     (case terminal_error debug frame of
        Some message \<Rightarrow> (Inl message, rest)
      | None \<Rightarrow>
          if terminal (sc_status frame) then (Inr out, rest)
          else (case from (sc_data frame) of
             Some v \<Rightarrow> materialize_lista_loop terminal debug from (out @ [v]) rest
           | None \<Rightarrow> drain_remaining_then_err terminal lista_payload_error rest))"

definition try_sermo_materialize_lista :: "(frame_status \<Rightarrow> bool) \<Rightarrow> ('f valor \<Rightarrow> string) \<Rightarrow> ('f valor \<Rightarrow> 'a option)
    \<Rightarrow> 'f scrinium list \<Rightarrow> ('f, 'a list) materialized" where
  "try_sermo_materialize_lista terminal debug from frames = materialize_lista_loop terminal debug from [] frames"

text \<open>The scalar materializers count the content frames in a \<open>u32\<close>.\<close>

fun materialize_scalar_loop :: "(frame_status \<Rightarrow> bool) \<Rightarrow> ('f valor \<Rightarrow> string) \<Rightarrow> ('f valor \<Rightarrow> 'a option) \<Rightarrow> 'a option \<Rightarrow> u32
    \<Rightarrow> 'f scrinium list \<Rightarrow> (frame_error + 'a option \<times> u32) \<times> 'f scrinium list" where
  "materialize_scalar_loop terminal debug from extracted content_count [] = (Inr (extracted, content_count), [])"
| "materialize_scalar_loop terminal debug from extracted content_count (frame # rest) =
     (case terminal_error debug frame of
        Some message \<Rightarrow> (Inl message, rest)
      | None \<Rightarrow>
          if terminal (sc_status frame) then (Inr (extracted, content_count), rest)
          else materialize_scalar_loop terminal debug from
                 (case extracted of Some v \<Rightarrow> Some v | None \<Rightarrow> from (sc_data frame)) (content_count + 1) rest)"

definition scalar_result :: "string \<Rightarrow> string \<Rightarrow> 'a option \<Rightarrow> u32 \<Rightarrow> frame_error + 'a" where
  "scalar_result issue target extracted content_count =
     (if content_count = 0
      then Inl \<lparr>fe_issue = issue @ ''_no_content_frame'',
             fe_message = sermo_arrow @ target @ '': no content frame before terminal''\<rparr>
      else if 1 < content_count
      then Inl \<lparr>fe_issue = issue @ ''_multiple_content_frames'',
             fe_message = sermo_arrow @ target @ '': more than one content frame (found '' @ show_nat (unat content_count) @ '')''\<rparr>
      else (case extracted of
         Some v \<Rightarrow> Inr v
       | None \<Rightarrow> Inl \<lparr>fe_issue = issue @ ''_payload_target_type_mismatch'',
             fe_message = sermo_arrow @ target @ '': content frame payload did not match target type''\<rparr>))"

definition try_sermo_materialize_scalar :: "(frame_status \<Rightarrow> bool) \<Rightarrow> ('f valor \<Rightarrow> string) \<Rightarrow> ('f valor \<Rightarrow> 'a option)
    \<Rightarrow> 'f scrinium list \<Rightarrow> ('f, 'a) materialized" where
  "try_sermo_materialize_scalar terminal debug from frames =
     (case materialize_scalar_loop terminal debug from None 0 frames of
        (Inl e, rest) \<Rightarrow> (Inl e, rest)
      | (Inr (extracted, content_count), rest) \<Rightarrow>
          (scalar_result ''frame_scalar'' ''T scalar'' extracted content_count, rest))"

text \<open>\<open>Instans::try_from_valor\<close> does not panic; a panic would be the outer \<open>None\<close>.\<close>

definition instans_extract :: "instans_praecisio \<Rightarrow> 'f valor \<Rightarrow> instans option" where
  "instans_extract precision v = (case instans_try_from_valor v precision of Some r \<Rightarrow> r | None \<Rightarrow> None)"

definition try_sermo_materialize_instans :: "(frame_status \<Rightarrow> bool) \<Rightarrow> ('f valor \<Rightarrow> string) \<Rightarrow> instans_praecisio
    \<Rightarrow> 'f scrinium list \<Rightarrow> ('f, instans) materialized" where
  "try_sermo_materialize_instans terminal debug precision frames =
     (case materialize_scalar_loop terminal debug (instans_extract precision) None 0 frames of
        (Inl e, rest) \<Rightarrow> (Inl e, rest)
      | (Inr (extracted, content_count), rest) \<Rightarrow>
          (scalar_result ''frame_instans'' ''instans'' extracted content_count, rest))"

text \<open>The dispatch on the type a generic body was instantiated with.\<close>

datatype target_type = VecString | VecU8 | StringType | OtherType

datatype 'a auto_value = AutoTexts "ustr list" | AutoBytes bytes | AutoText ustr | AutoScalar 'a

definition map_materialized :: "('a \<Rightarrow> 'b) \<Rightarrow> ('f, 'a) materialized \<Rightarrow> ('f, 'b) materialized" where
  "map_materialized g m = (case m of (Inl e, rest) \<Rightarrow> (Inl e, rest) | (Inr v, rest) \<Rightarrow> (Inr (g v), rest))"

definition try_sermo_materialize_auto :: "(frame_status \<Rightarrow> bool) \<Rightarrow> ('f valor \<Rightarrow> string) \<Rightarrow> target_type \<Rightarrow> ('f valor \<Rightarrow> 'a option)
    \<Rightarrow> 'f scrinium list \<Rightarrow> ('f, 'a auto_value) materialized" where
  "try_sermo_materialize_auto terminal debug t from frames =
     (case t of
        VecString \<Rightarrow> map_materialized AutoTexts (try_sermo_materialize_lista terminal debug from_valor_textus frames)
      | VecU8 \<Rightarrow> map_materialized AutoBytes (try_sermo_materialize_octeti terminal debug frames)
      | StringType \<Rightarrow> map_materialized AutoText (try_sermo_materialize_textus terminal debug frames)
      | OtherType \<Rightarrow> map_materialized AutoScalar (try_sermo_materialize_scalar terminal debug from frames))"

section \<open>What a materializer makes of a response\<close>

lemma terminal_error_content:
  "terminal_statuses terminal \<Longrightarrow> \<not> terminal (sc_status f) \<Longrightarrow> terminal_error debug f = None"
  by (cases "sc_status f") (simp_all add: terminal_statuses_def terminal_error_def)

lemma terminal_error_done:
  "terminal_statuses terminal \<Longrightarrow> terminal (sc_status f) \<Longrightarrow> terminal_error debug f = None \<longleftrightarrow> sc_status f = StDone"
  by (cases "sc_status f") (simp_all add: terminal_statuses_def terminal_error_def)

lemma content_Cons: "content terminal (f # fs) \<longleftrightarrow> \<not> terminal (sc_status f) \<and> content terminal fs"
  by (simp add: content_def)

lemma drain_response:
  "content terminal cs \<Longrightarrow> terminal (sc_status t) \<Longrightarrow> drain_incoming_to_terminal terminal (cs @ [t]) = []"
  by (induction cs) (simp_all add: content_Cons)

text \<open>Each materializer on a whole response, content frames and then a terminal one.\<close>

definition end_of_response :: "('f valor \<Rightarrow> string) \<Rightarrow> 'f scrinium \<Rightarrow> 'a \<Rightarrow> frame_error + 'a" where
  "end_of_response debug t v = (case terminal_error debug t of Some e \<Rightarrow> Inl e | None \<Rightarrow> Inr v)"

lemma vacuum_response:
  "terminal_statuses terminal \<Longrightarrow> terminal (sc_status t) \<Longrightarrow> content terminal cs \<Longrightarrow>
   try_sermo_materialize_vacuum terminal debug (cs @ [t]) = (end_of_response debug t (), [])"
  by (induction cs) (simp_all add: content_Cons terminal_error_content end_of_response_def split: option.split)

fun textus_of :: "'f scrinium list \<Rightarrow> ustr option" where
  "textus_of [] = Some []"
| "textus_of (f # fs) = (case sc_data f of Textus s \<Rightarrow> map_option ((@) s) (textus_of fs) | _ \<Rightarrow> None)"

lemma textus_response:
  "terminal_statuses terminal \<Longrightarrow> terminal (sc_status t) \<Longrightarrow> content terminal cs \<Longrightarrow>
   materialize_textus_loop terminal debug out (cs @ [t]) =
     (case textus_of cs of Some s \<Rightarrow> end_of_response debug t (out @ s) | None \<Rightarrow> Inl textus_payload_error, [])"
proof (induction cs arbitrary: out)
  case (Cons f cs)
  then show ?case
    by (cases "sc_data f")
      (simp_all add: content_Cons terminal_error_content drain_remaining_then_err_def drain_response split: option.split)
qed (simp add: end_of_response_def split: option.split)

lemma octeti_response:
  "terminal_statuses terminal \<Longrightarrow> terminal (sc_status t) \<Longrightarrow> content terminal cs \<Longrightarrow>
   snd (materialize_octeti_loop terminal debug out (cs @ [t])) = []"
  by (induction cs arbitrary: out)
    (simp_all add: content_Cons terminal_error_content drain_remaining_then_err_def drain_response split: option.split sum.split)

lemma valor_response:
  "terminal_statuses terminal \<Longrightarrow> terminal (sc_status t) \<Longrightarrow> content terminal cs \<Longrightarrow>
   materialize_valor_loop terminal debug captured (cs @ [t]) =
     (end_of_response debug t (case captured of Some v \<Rightarrow> v | None \<Rightarrow> (case cs of [] \<Rightarrow> Nihil | f # _ \<Rightarrow> sc_data f)), [])"
  by (induction cs arbitrary: captured)
    (simp_all add: content_Cons terminal_error_content end_of_response_def split: option.split)

lemma lista_response:
  "terminal_statuses terminal \<Longrightarrow> terminal (sc_status t) \<Longrightarrow> content terminal cs \<Longrightarrow>
   materialize_lista_loop terminal debug from out (cs @ [t]) =
     (case those (map (from \<circ> sc_data) cs) of
        Some vs \<Rightarrow> end_of_response debug t (out @ vs) | None \<Rightarrow> Inl lista_payload_error, [])"
proof (induction cs arbitrary: out)
  case (Cons f cs)
  then show ?case
    by (cases "from (sc_data f)")
      (simp_all add: content_Cons terminal_error_content drain_remaining_then_err_def drain_response split: option.split)
qed (simp add: end_of_response_def split: option.split)

fun first_match :: "('f valor \<Rightarrow> 'a option) \<Rightarrow> 'f scrinium list \<Rightarrow> 'a option" where
  "first_match from [] = None"
| "first_match from (f # fs) = (case from (sc_data f) of Some v \<Rightarrow> Some v | None \<Rightarrow> first_match from fs)"

lemma scalar_response:
  "terminal_statuses terminal \<Longrightarrow> terminal (sc_status t) \<Longrightarrow> content terminal cs \<Longrightarrow>
   materialize_scalar_loop terminal debug from extracted n (cs @ [t]) =
     (end_of_response debug t
        (case extracted of Some v \<Rightarrow> Some v | None \<Rightarrow> first_match from cs, n + of_nat (length cs)), [])"
  by (induction cs arbitrary: extracted n)
    (simp_all add: content_Cons terminal_error_content end_of_response_def ac_simps split: option.split)

lemma terminal_error_end: "end_of_response debug t v = Inr w \<longleftrightarrow> terminal_error debug t = None \<and> v = w"
  by (auto simp: end_of_response_def split: option.split)

lemma map_materialized_snd: "snd (map_materialized g m) = snd m"
  by (auto simp: map_materialized_def split: prod.split sum.split)

lemma scalar_snd:
  assumes "terminal_statuses terminal" "ended terminal frames"
  shows "snd (materialize_scalar_loop terminal debug from e n frames) = []"
  using assms by (auto simp: ended_def scalar_response)

text \<open>Given a response that ended with its terminal frame, every materializer (of nothing, of text, of
  bytes, of a value, of a list, of a scalar, of a point in time, and the dispatch between them) takes
  all of it: also when it fails on a payload it leaves no frame for a later receive to find.\<close>

theorem materializers_consume_response:
  assumes "terminal_statuses terminal" "ended terminal frames"
  shows "snd (try_sermo_materialize_vacuum terminal debug frames) = [] \<and>
    snd (try_sermo_materialize_textus terminal debug frames) = [] \<and>
    snd (try_sermo_materialize_octeti terminal debug frames) = [] \<and>
    snd (try_sermo_materialize_valor terminal debug frames) = [] \<and>
    snd (try_sermo_materialize_lista terminal debug from frames) = [] \<and>
    snd (try_sermo_materialize_scalar terminal debug from frames) = [] \<and>
    snd (try_sermo_materialize_instans terminal debug p frames) = [] \<and>
    snd (try_sermo_materialize_auto terminal debug target from frames) = []"
proof (intro conjI)
  obtain cs t where f: "frames = cs @ [t]" "content terminal cs" "terminal (sc_status t)"
    using assms(2) by (auto simp: ended_def)
  show "snd (try_sermo_materialize_vacuum terminal debug frames) = []"
    by (simp add: f vacuum_response assms(1))
  show t: "snd (try_sermo_materialize_textus terminal debug frames) = []"
    by (simp add: f textus_response assms(1) try_sermo_materialize_textus_def)
  show o: "snd (try_sermo_materialize_octeti terminal debug frames) = []"
    by (simp add: f octeti_response assms(1) try_sermo_materialize_octeti_def)
  show "snd (try_sermo_materialize_valor terminal debug frames) = []"
    by (simp add: f valor_response assms(1) try_sermo_materialize_valor_def)
  show "snd (try_sermo_materialize_lista terminal debug from frames) = []"
    by (simp add: f lista_response assms(1) try_sermo_materialize_lista_def)
  have l2: "snd (try_sermo_materialize_lista terminal debug from_valor_textus frames) = []"
    by (simp add: f lista_response assms(1) try_sermo_materialize_lista_def)
  show s: "snd (try_sermo_materialize_scalar terminal debug from frames) = []"
    using scalar_snd[OF assms, of debug "from"]
    by (simp add: try_sermo_materialize_scalar_def split: prod.split sum.split) (metis snd_conv)
  show "snd (try_sermo_materialize_instans terminal debug p frames) = []"
    using scalar_snd[OF assms, of debug "instans_extract p"]
    by (simp add: try_sermo_materialize_instans_def split: prod.split sum.split) (metis snd_conv)
  show "snd (try_sermo_materialize_auto terminal debug target from frames) = []"
    using t o l2 s by (simp add: try_sermo_materialize_auto_def map_materialized_snd split: target_type.split)
qed

lemma materializers_consume_response_witness:
  "snd (try_sermo_materialize_auto demo_terminal (\<lambda>_. []) VecU8 from_valor_numerus (stream demo_done)) = []"
proof -
  have "ended demo_terminal (stream demo_done)"
    by (auto simp: ended_def demo_defs stream_def content_def Let_def)
  from materializers_consume_response[OF demo_terminal_ok this] show ?thesis by blast
qed

text \<open>C28: a materializer succeeds exactly when the response is of its shape and ends with \<open>Done\<close>: a text is
  the concatenation of text frames, a list has one matching element per frame, in order, and a scalar
  is the value of the only content frame, so that a second frame or none is refused.\<close>

theorem materializers_succeed_exactly:
  assumes "terminal_statuses terminal" "content terminal cs" "terminal (sc_status t)" "length cs < 2 ^ 32"
  shows "(fst (try_sermo_materialize_textus terminal debug (cs @ [t])) = Inr txt' \<longleftrightarrow>
            sc_status t = StDone \<and> textus_of cs = Some txt') \<and>
         (fst (try_sermo_materialize_lista terminal debug from (cs @ [t])) = Inr vs \<longleftrightarrow>
            sc_status t = StDone \<and> map (from \<circ> sc_data) cs = map Some vs) \<and>
         (fst (try_sermo_materialize_scalar terminal debug from (cs @ [t])) = Inr v \<longleftrightarrow>
            sc_status t = StDone \<and> (\<exists>f. cs = [f] \<and> from (sc_data f) = Some v))"
proof (intro conjI)
  note don = terminal_error_done[OF assms(1,3), of debug]
  show "fst (try_sermo_materialize_textus terminal debug (cs @ [t])) = Inr txt' \<longleftrightarrow>
      sc_status t = StDone \<and> textus_of cs = Some txt'"
    using don by (auto simp: try_sermo_materialize_textus_def textus_response assms terminal_error_end split: option.split)
  show "fst (try_sermo_materialize_lista terminal debug from (cs @ [t])) = Inr vs \<longleftrightarrow>
      sc_status t = StDone \<and> map (from \<circ> sc_data) cs = map Some vs"
    using don by (auto simp: try_sermo_materialize_lista_def lista_response assms terminal_error_end those_Some[symmetric] split: option.split)
  have len: "unat (word_of_nat (length cs) :: u32) = length cs"
    using assms(4) by (simp add: unat_of_nat)
  have zero: "(word_of_nat (length cs) :: u32) = 0 \<longleftrightarrow> cs = []" and one: "1 < (word_of_nat (length cs) :: u32) \<longleftrightarrow> 1 < length cs"
    using len by (metis length_0_conv unat_eq_zero, simp add: word_less_nat_alt)
  show "fst (try_sermo_materialize_scalar terminal debug from (cs @ [t])) = Inr v \<longleftrightarrow>
      sc_status t = StDone \<and> (\<exists>f. cs = [f] \<and> from (sc_data f) = Some v)"
  proof (cases "terminal_error debug t")
    case None
    have "fst (try_sermo_materialize_scalar terminal debug from (cs @ [t])) =
        scalar_result ''frame_scalar'' ''T scalar'' (first_match from cs) (word_of_nat (length cs))"
      by (simp add: try_sermo_materialize_scalar_def scalar_response assms end_of_response_def None del: append.simps)
    moreover have "scalar_result ''frame_scalar'' ''T scalar'' (first_match from cs) (word_of_nat (length cs)) = Inr v \<longleftrightarrow>
        cs \<noteq> [] \<and> \<not> 1 < length cs \<and> first_match from cs = Some v"
      by (auto simp: scalar_result_def zero one split: option.split)
    ultimately show ?thesis
      using don None by (cases cs rule: remdups_adj.cases) (auto split: option.split)
  next
    case (Some e)
    have "fst (try_sermo_materialize_scalar terminal debug from (cs @ [t])) = Inl e"
      by (simp add: try_sermo_materialize_scalar_def scalar_response assms end_of_response_def Some)
    then show ?thesis using don Some by simp
  qed
qed

definition demo_frame :: "frame_status \<Rightarrow> int valor \<Rightarrow> int scrinium" where
  "demo_frame status data = \<lparr>sc_id = ''frame-2'', sc_parent_id = None, sc_call = ''runtime:echo'', sc_status = status,
     sc_data = data, sc_created_ms = 0, sc_from = None, sc_trace = None\<rparr>"

lemma materializers_succeed_exactly_witness:
  "fst (try_sermo_materialize_scalar demo_terminal (\<lambda>_. []) from_valor_numerus
     ([demo_frame StItem (Numerus 7)] @ [demo_frame StDone Nihil])) = Inr 7"
proof -
  have c: "content demo_terminal [demo_frame StItem (Numerus 7)]" "demo_terminal (sc_status (demo_frame StDone Nihil))"
    by (simp_all add: content_def demo_frame_def demo_terminal_def)
  show ?thesis
    using materializers_succeed_exactly[OF demo_terminal_ok c, of "\<lambda>_. []" "[]" from_valor_numerus "[]" 7]
    by (simp add: demo_frame_def from_valor_numerus_def)
qed

end
