(* ===== verification/Routes.thy ===== *)
theory Routes
  imports Materialize Utf8
begin

text \<open>
  The built-in routes of \<open>src/frame.rs\<close>: how an opener is read and which frames answer it. What the
  operating system and the path queries of the standard library answer is the record \<open>os_calls\<close>, with an
  error as its displayed text; the frames of a route are a function of its request and of those answers.
\<close>

section \<open>Reading an opener\<close>

definition valor_text :: "'f valor \<Rightarrow> ustr option" where
  "valor_text data = (case data of Textus txt \<Rightarrow> Some txt | _ \<Rightarrow> None)"

definition valor_text_list :: "'f valor \<Rightarrow> ustr list option" where
  "valor_text_list data = (case data of Lista items \<Rightarrow> those (map valor_text items) | _ \<Rightarrow> None)"

definition valor_numerus :: "'f valor \<Rightarrow> i64 option" where
  "valor_numerus data = (case data of Numerus n \<Rightarrow> Some n | _ \<Rightarrow> None)"

definition valor_text_pair :: "'f valor \<Rightarrow> ustr + ustr \<times> ustr" where
  "valor_text_pair data = (case data of
     Lista [Textus path, Textus value] \<Rightarrow> Inr (path, value)
   | _ \<Rightarrow> Inl (lit ''route opener must be [textus, textus]''))"

definition valor_text_range :: "'f valor \<Rightarrow> ustr + ustr \<times> i64 \<times> i64" where
  "valor_text_range data = (case data of
     Lista [Textus path, Numerus start, Numerus len] \<Rightarrow> Inr (path, start, len)
   | _ \<Rightarrow> Inl (lit ''route opener must be [textus, numerus, numerus]''))"

definition valor_text_pattern_range :: "'f valor \<Rightarrow> ustr + ustr \<times> ustr \<times> i64 \<times> i64" where
  "valor_text_pattern_range data = (case data of
     Lista [Textus path, Textus pattern, Numerus start, Numerus len] \<Rightarrow> Inr (path, pattern, start, len)
   | _ \<Rightarrow> Inl (lit ''route opener must be [textus, textus, numerus, numerus]''))"

definition valor_text_numerus_pair :: "'f valor \<Rightarrow> ustr + ustr \<times> i64" where
  "valor_text_numerus_pair data = (case data of
     Lista items \<Rightarrow>
       if length items \<noteq> 2 then Inl (lit ''expected [textus, numerus]'')
       else (case valor_text (items ! 0) of
           None \<Rightarrow> Inl (lit ''path must be textus'')
         | Some path \<Rightarrow> (case valor_numerus (items ! 1) of
               None \<Rightarrow> Inl (lit ''mode must be numerus'')
             | Some mode \<Rightarrow> Inr (path, mode)))
   | _ \<Rightarrow> Inl (lit ''expected lista''))"

fun byte_list :: "ustr \<Rightarrow> ustr \<Rightarrow> 'f valor list \<Rightarrow> ustr + bytes" where
  "byte_list not_numerus out_of_range [] = Inr []"
| "byte_list not_numerus out_of_range (v # vs) = (case v of
     Numerus byte \<Rightarrow>
       if \<not> (0 \<le> sint byte \<and> sint byte \<le> 255) then Inl out_of_range
       else (case byte_list not_numerus out_of_range vs of Inl e \<Rightarrow> Inl e | Inr out \<Rightarrow> Inr (ucast byte # out))
   | _ \<Rightarrow> Inl not_numerus)"

definition valor_path_bytes :: "'f valor \<Rightarrow> ustr + ustr \<times> bytes" where
  "valor_path_bytes data = (case data of
     Lista items \<Rightarrow>
       if length items \<noteq> 2 then Inl (lit ''expected [path, bytes]'')
       else (case valor_text (items ! 0) of
           None \<Rightarrow> Inl (lit ''path must be textus'')
         | Some path \<Rightarrow> (case items ! 1 of
               Octeti bytes \<Rightarrow> Inr (path, bytes)
             | Lista values \<Rightarrow> (case byte_list (lit ''byte list must be numerus'') (lit ''byte out of range'') values of
                   Inl e \<Rightarrow> Inl e
                 | Inr out \<Rightarrow> Inr (path, out))
             | _ \<Rightarrow> Inl (lit ''bytes must be octeti or lista<numerus>'')))
   | _ \<Rightarrow> Inl (lit ''expected lista''))"

section \<open>Frames\<close>

type_synonym 'f frames = "(frame_status \<times> 'f valor) list"

definition item_done_frames :: "'f valor \<Rightarrow> 'f frames" where
  "item_done_frames data = [(StItem, data), (StDone, Nihil)]"

definition bytes_done_frames :: "bytes \<Rightarrow> 'f frames" where
  "bytes_done_frames bytes = [(StByte, Octeti bytes), (StDone, Nihil)]"

definition done_frames :: "'f frames" where
  "done_frames = [(StDone, Nihil)]"

definition error_frames :: "ustr \<Rightarrow> 'f frames" where
  "error_frames message = [(StError, Textus message)]"

section \<open>What the system answers\<close>

text \<open>\<open>std::any::type_name\<close> of the targets.\<close>

definition type_name_string :: string where "type_name_string = ''alloc::string::String''"
definition type_name_vec_string :: string where "type_name_vec_string = ''alloc::vec::Vec<alloc::string::String>''"
definition type_name_vec_u8 :: string where "type_name_vec_u8 = ''alloc::vec::Vec<u8>''"
definition type_name_i64 :: string where "type_name_i64 = ''i64''"
definition type_name_bool :: string where "type_name_bool = ''bool''"

datatype consolum_stream = Stdin | Stdout | Stderr

record dir_listing =
  dl_names :: "(ustr + ustr) list"

record os_calls =
  os_open_append :: "ustr \<Rightarrow> ustr option"
  os_append :: "ustr \<Rightarrow> bytes \<Rightarrow> ustr option"
  os_write :: "ustr \<Rightarrow> bytes \<Rightarrow> ustr option"
  os_read :: "ustr \<Rightarrow> ustr + bytes"
  os_read_to_string :: "ustr \<Rightarrow> ustr + ustr"
  os_open :: "ustr \<Rightarrow> ustr option"
  os_seek :: "ustr \<Rightarrow> u64 \<Rightarrow> ustr option"
  os_read_at :: "ustr \<Rightarrow> u64 \<Rightarrow> nat \<Rightarrow> ustr + bytes"
  os_remove_file :: "ustr \<Rightarrow> (bool \<times> ustr) option"
  os_create_dir_all :: "ustr \<Rightarrow> ustr option"
  os_read_dir :: "ustr \<Rightarrow> ustr + dir_listing"
  os_remove_dir_all :: "ustr \<Rightarrow> ustr option"
  os_copy :: "ustr \<Rightarrow> ustr \<Rightarrow> ustr option"
  os_rename :: "ustr \<Rightarrow> ustr \<Rightarrow> ustr option"
  os_touch :: "ustr \<Rightarrow> ustr option"
  os_read_link :: "ustr \<Rightarrow> ustr + ustr"
  os_symlink :: "ustr \<Rightarrow> ustr \<Rightarrow> ustr option"
  os_set_permissions :: "ustr \<Rightarrow> u32 \<Rightarrow> ustr option"
  os_mode :: "ustr \<Rightarrow> ustr + u32"
  os_len :: "ustr \<Rightarrow> ustr + u64"
  os_exists :: "ustr \<Rightarrow> bool"
  os_is_dir :: "ustr \<Rightarrow> bool"
  os_is_file :: "ustr \<Rightarrow> bool"
  os_is_symlink :: "ustr \<Rightarrow> bool"
  os_canonicalize :: "ustr \<Rightarrow> ustr + ustr"
  os_parent :: "ustr \<Rightarrow> ustr option"
  os_file_name :: "ustr \<Rightarrow> ustr option"
  os_extension :: "ustr \<Rightarrow> ustr option"
  os_temp_dir :: ustr
  os_var :: "ustr \<Rightarrow> ustr option"
  os_current_dir :: "ustr + ustr"
  os_set_current_dir :: "ustr \<Rightarrow> ustr option"
  os_pid :: u32
  os_args :: "ustr list"
  os_shell :: "ustr \<Rightarrow> ustr + i64 option \<times> ustr \<times> ustr"
  os_command :: "ustr \<Rightarrow> ustr list \<Rightarrow> ustr + i64 option \<times> ustr \<times> ustr"
  os_spawn :: "ustr \<Rightarrow> ustr list \<Rightarrow> ustr + u32"
  os_write_stdout :: "bytes \<Rightarrow> ustr option"
  os_write_stderr :: "bytes \<Rightarrow> ustr option"
  os_read_line :: "ustr + ustr"
  os_read_stdin :: "nat \<Rightarrow> ustr + bytes"
  os_is_terminal :: "consolum_stream \<Rightarrow> bool"
  os_urandom :: "nat \<Rightarrow> ustr + bytes"
  os_epoch_nanos :: int
  os_elapsed_nanos :: i64

definition done_or_error :: "ustr \<Rightarrow> ustr option \<Rightarrow> 'f frames" where
  "done_or_error prefix r = (case r of None \<Rightarrow> done_frames | Some err \<Rightarrow> error_frames (prefix @ err))"

definition item_or_error :: "('a \<Rightarrow> 'f valor) \<Rightarrow> ustr \<Rightarrow> ustr + 'a \<Rightarrow> 'f frames" where
  "item_or_error into prefix r = (case r of Inr v \<Rightarrow> item_done_frames (into v) | Inl err \<Rightarrow> error_frames (prefix @ err))"

section \<open>Files\<close>

definition solum_write_text_frames :: "os_calls \<Rightarrow> string \<Rightarrow> 'f valor \<Rightarrow> 'f frames" where
  "solum_write_text_frames os route data = (case valor_text_pair data of
     Inl message \<Rightarrow> error_frames message
   | Inr (path, value) \<Rightarrow>
       if route \<in> {''solum:appone'', ''solum:apponet''} then
         (case os_open_append os path of
            Some err \<Rightarrow> error_frames (lit ''failed to open file for append: '' @ err)
          | None \<Rightarrow> done_or_error (lit ''failed to append to file: '') (os_append os path (utf8 value)))
       else done_or_error (lit ''failed to write file: '') (os_write os path (utf8 value)))"

definition solum_parent_frames :: "os_calls \<Rightarrow> 'f valor \<Rightarrow> 'f frames" where
  "solum_parent_frames os data = (case valor_text data of
     None \<Rightarrow> error_frames (lit ''solum:parens opener must be textus'')
   | Some path \<Rightarrow> item_done_frames (Textus (case os_parent os path of Some p \<Rightarrow> p | None \<Rightarrow> [])))"

definition solum_home_value :: "ustr option \<Rightarrow> ustr option \<Rightarrow> ustr + ustr" where
  "solum_home_value home userprofile = (case home of
     Some h \<Rightarrow> Inr h
   | None \<Rightarrow> (case userprofile of Some u \<Rightarrow> Inr u | None \<Rightarrow> Inl (lit ''no home directory environment variable'')))"

definition solum_domus_frames :: "os_calls \<Rightarrow> 'f frames" where
  "solum_domus_frames os =
     item_or_error Textus (lit ''solum:domus failed: '')
       (solum_home_value (os_var os (lit ''HOME'')) (os_var os (lit ''USERPROFILE'')))"

definition solum_delete_frames :: "os_calls \<Rightarrow> 'f valor \<Rightarrow> 'f frames" where
  "solum_delete_frames os data = (case valor_text data of
     None \<Rightarrow> error_frames (lit ''solum:dele opener must be textus'')
   | Some path \<Rightarrow> (case os_remove_file os path of
         None \<Rightarrow> done_frames
       | Some (not_found, err) \<Rightarrow>
           if not_found then done_frames else error_frames (lit ''solum.dele failed for '' @ path @ lit '': '' @ err)))"

definition solum_hauri_frames :: "os_calls \<Rightarrow> 'f valor \<Rightarrow> 'f frames" where
  "solum_hauri_frames os data = (case valor_text data of
     None \<Rightarrow> error_frames (lit ''solum:hauri opener must be textus'')
   | Some path \<Rightarrow> (case os_read os path of
         Inr bytes \<Rightarrow> bytes_done_frames bytes
       | Inl err \<Rightarrow> error_frames (lit ''solum:hauri failed for '' @ path @ lit '': '' @ err)))"

definition solum_write_bytes_frames :: "os_calls \<Rightarrow> 'f valor \<Rightarrow> 'f frames" where
  "solum_write_bytes_frames os data = (case valor_path_bytes data of
     Inl _ \<Rightarrow> error_frames (lit ''solum:funde opener must be [textus, octeti]'')
   | Inr (path, bytes) \<Rightarrow>
       done_or_error (lit ''solum:funde failed for '' @ path @ lit '': '') (os_write os path bytes))"

definition solum_create_dir_frames :: "os_calls \<Rightarrow> 'f valor \<Rightarrow> 'f frames" where
  "solum_create_dir_frames os data = (case valor_text data of
     None \<Rightarrow> error_frames (lit ''solum:crea opener must be textus'')
   | Some path \<Rightarrow> done_or_error (lit ''solum:crea failed for '' @ path @ lit '': '') (os_create_dir_all os path))"

text \<open>The entries up to the first failing one, and its error.\<close>

fun dir_entries :: "(ustr + ustr) list \<Rightarrow> ustr + ustr list" where
  "dir_entries [] = Inr []"
| "dir_entries (entry # entries) = (case entry of
     Inl err \<Rightarrow> Inl err
   | Inr name \<Rightarrow> (case dir_entries entries of Inl err \<Rightarrow> Inl err | Inr names \<Rightarrow> Inr (name # names)))"

text \<open>\<open>sort\<close> of strings: the order of their bytes, which is that of their code points.\<close>

definition sort_names :: "ustr list \<Rightarrow> ustr list" where
  "sort_names names = sort_key utf8 names"

definition solum_list_dir_frames :: "os_calls \<Rightarrow> 'f valor \<Rightarrow> 'f frames" where
  "solum_list_dir_frames os data = (case valor_text data of
     None \<Rightarrow> error_frames (lit ''solum:enumera opener must be textus'')
   | Some path \<Rightarrow> (case os_read_dir os path of
         Inl err \<Rightarrow> error_frames (lit ''solum:enumera failed for '' @ path @ lit '': '' @ err)
       | Inr entries \<Rightarrow> (case dir_entries (dl_names entries) of
             Inl err \<Rightarrow> error_frames (lit ''solum:enumera entry failed for '' @ path @ lit '': '' @ err)
           | Inr names \<Rightarrow> map (\<lambda>name. (StItem, Textus name)) (sort_names names) @ [(StDone, Nihil)])))"

definition solum_remove_dir_frames :: "os_calls \<Rightarrow> 'f valor \<Rightarrow> 'f frames" where
  "solum_remove_dir_frames os data = (case valor_text data of
     None \<Rightarrow> error_frames (lit ''solum:amputa opener must be textus'')
   | Some path \<Rightarrow> done_or_error (lit ''solum:amputa failed for '' @ path @ lit '': '') (os_remove_dir_all os path))"

definition solum_copy_frames :: "os_calls \<Rightarrow> 'f valor \<Rightarrow> 'f frames" where
  "solum_copy_frames os data = (case valor_text_pair data of
     Inl _ \<Rightarrow> error_frames (lit ''solum:exscribe opener must be [textus, textus]'')
   | Inr (source, destination) \<Rightarrow> done_or_error (lit ''solum:exscribe failed: '') (os_copy os source destination))"

definition solum_rename_frames :: "os_calls \<Rightarrow> 'f valor \<Rightarrow> 'f frames" where
  "solum_rename_frames os data = (case valor_text_pair data of
     Inl _ \<Rightarrow> error_frames (lit ''solum:renomina opener must be [textus, textus]'')
   | Inr (source, destination) \<Rightarrow> done_or_error (lit ''solum:renomina failed: '') (os_rename os source destination))"

definition solum_touch_frames :: "os_calls \<Rightarrow> 'f valor \<Rightarrow> 'f frames" where
  "solum_touch_frames os data = (case valor_text data of
     None \<Rightarrow> error_frames (lit ''solum:tange opener must be textus'')
   | Some path \<Rightarrow> done_or_error (lit ''solum:tange failed for '' @ path @ lit '': '') (os_touch os path))"

definition solum_follow_symlink_frames :: "os_calls \<Rightarrow> 'f valor \<Rightarrow> 'f frames" where
  "solum_follow_symlink_frames os data = (case valor_text data of
     None \<Rightarrow> error_frames (lit ''solum:sequere opener must be textus'')
   | Some path \<Rightarrow> item_or_error Textus (lit ''solum:sequere failed for '' @ path @ lit '': '') (os_read_link os path))"

definition solum_create_symlink_frames :: "os_calls \<Rightarrow> 'f valor \<Rightarrow> 'f frames" where
  "solum_create_symlink_frames os data = (case valor_text_pair data of
     Inl _ \<Rightarrow> error_frames (lit ''solum:vincula opener must be [textus, textus]'')
   | Inr (source, destination) \<Rightarrow> done_or_error (lit ''solum:vincula failed: '') (os_symlink os source destination))"

text \<open>\<open>0..=0o7777\<close>.\<close>

definition solum_set_mode_frames :: "os_calls \<Rightarrow> 'f valor \<Rightarrow> 'f frames" where
  "solum_set_mode_frames os data = (case valor_text_numerus_pair data of
     Inl _ \<Rightarrow> error_frames (lit ''solum:modum opener must be [textus, numerus]'')
   | Inr (path, mode) \<Rightarrow>
       if \<not> (0 \<le> sint mode \<and> sint mode \<le> 4095)
       then error_frames (lit ''solum:modum modus must be between 0 and 0o7777'')
       else done_or_error (lit ''solum:modum failed for '' @ path @ lit '': '') (os_set_permissions os path (ucast mode)))"

definition solum_get_mode_frames :: "os_calls \<Rightarrow> 'f valor \<Rightarrow> 'f frames" where
  "solum_get_mode_frames os data = (case valor_text data of
     None \<Rightarrow> error_frames (lit ''solum:modus opener must be textus'')
   | Some path \<Rightarrow> item_or_error (\<lambda>mode. Numerus (ucast mode)) (lit ''solum:modus failed for '' @ path @ lit '': '') (os_mode os path))"

definition solum_file_name_frames :: "os_calls \<Rightarrow> 'f valor \<Rightarrow> 'f frames" where
  "solum_file_name_frames os data = (case valor_text data of
     None \<Rightarrow> error_frames (lit ''solum:nomen opener must be textus'')
   | Some path \<Rightarrow> item_done_frames (Textus (case os_file_name os path of Some name \<Rightarrow> name | None \<Rightarrow> [])))"

definition solum_extension_frames :: "os_calls \<Rightarrow> 'f valor \<Rightarrow> 'f frames" where
  "solum_extension_frames os data = (case valor_text data of
     None \<Rightarrow> error_frames (lit ''solum:suffixum opener must be textus'')
   | Some path \<Rightarrow> item_done_frames (Textus (case os_extension os path of Some extension \<Rightarrow> lit ''.'' @ extension | None \<Rightarrow> [])))"

fun join_with :: "ustr \<Rightarrow> ustr list \<Rightarrow> ustr" where
  "join_with sep [] = []"
| "join_with sep [p] = p"
| "join_with sep (p # ps) = p @ sep @ join_with sep ps"

definition solum_join_frames :: "'f valor \<Rightarrow> 'f frames" where
  "solum_join_frames data = (case valor_text_list data of
     None \<Rightarrow> error_frames (lit ''solum:iunge opener must be lista<textus>'')
   | Some parts \<Rightarrow> item_done_frames (Textus (join_with (lit ''/'') parts)))"

definition solum_canonicalize_frames :: "os_calls \<Rightarrow> 'f valor \<Rightarrow> 'f frames" where
  "solum_canonicalize_frames os data = (case valor_text data of
     None \<Rightarrow> error_frames (lit ''solum:absolve opener must be textus'')
   | Some path \<Rightarrow> item_or_error Textus (lit ''solum:absolve failed for '' @ path @ lit '': '') (os_canonicalize os path))"

text \<open>\<open>str::lines\<close>: the pieces between line feeds, a last empty one left out, each without a trailing
  carriage return.\<close>

definition strip_cr :: "ustr \<Rightarrow> ustr" where
  "strip_cr line = (if line \<noteq> [] \<and> last line = 13 then butlast line else line)"

fun text_lines :: "ustr \<Rightarrow> ustr \<Rightarrow> ustr list" where
  "text_lines line [] = (if line = [] then [] else [line])"
| "text_lines line (c # cs) = (if c = 10 then strip_cr line # text_lines [] cs else text_lines (line @ [c]) cs)"

definition solum_line_item_frames :: "os_calls \<Rightarrow> ustr \<Rightarrow> ustr \<Rightarrow> 'f frames" where
  "solum_line_item_frames os path read_err_prefix = (case os_read_to_string os path of
     Inr txt \<Rightarrow> map (\<lambda>line. (StItem, Textus line)) (text_lines [] txt) @ [(StDone, Nihil)]
   | Inl err \<Rightarrow> error_frames (read_err_prefix @ lit '': '' @ err))"

definition solum_carpe_frames :: "os_calls \<Rightarrow> 'f valor \<Rightarrow> 'f frames" where
  "solum_carpe_frames os data = (case valor_text data of
     None \<Rightarrow> error_frames (lit ''solum:carpe opener must be textus'')
   | Some path \<Rightarrow> solum_line_item_frames os path (lit ''solum:carpe failed for '' @ path))"

definition solum_lege_frames :: "os_calls \<Rightarrow> 'f valor \<Rightarrow> string option \<Rightarrow> 'f frames" where
  "solum_lege_frames os data target = (case valor_text data of
     None \<Rightarrow> error_frames (lit ''solum:lege opener must be textus'')
   | Some path \<Rightarrow> (case target of
         None \<Rightarrow> error_frames (lit ''solum:lege requires a materialization target'')
       | Some target \<Rightarrow>
           if target = type_name_string
           then item_or_error Textus (lit ''failed to read file: '') (os_read_to_string os path)
           else if target = type_name_vec_string then solum_line_item_frames os path (lit ''failed to read file'')
           else if target = type_name_vec_u8
           then item_or_error (\<lambda>bytes. Lista (map (\<lambda>byte. Numerus (ucast byte)) bytes)) (lit ''failed to read file: '') (os_read os path)
           else error_frames (lit ''solum:lege target `'' @ lit target @ lit ''` is not supported'')))"

definition target_or_unknown :: "string option \<Rightarrow> ustr" where
  "target_or_unknown target = lit (case target of Some t \<Rightarrow> t | None \<Rightarrow> ''<unknown>'')"

text \<open>Opening a file, seeking in it and reading once into a buffer.\<close>

definition read_range :: "os_calls \<Rightarrow> ustr \<Rightarrow> u64 \<Rightarrow> nat \<Rightarrow> ustr + bytes" where
  "read_range os path start len = (case os_open os path of
     Some err \<Rightarrow> Inl (lit ''failed to open file: '' @ err)
   | None \<Rightarrow> (case os_seek os path start of
         Some err \<Rightarrow> Inl (lit ''failed to seek file: '' @ err)
       | None \<Rightarrow> (case os_read_at os path start len of
             Inr bytes \<Rightarrow> Inr bytes
           | Inl err \<Rightarrow> Inl (lit ''failed to read file: '' @ err))))"

definition solum_partem_frames :: "os_calls \<Rightarrow> 'f valor \<Rightarrow> string option \<Rightarrow> 'f frames" where
  "solum_partem_frames os data target = (case valor_text_range data of
     Inl _ \<Rightarrow> error_frames (lit ''solum:partem opener must be [textus, numerus, numerus]'')
   | Inr (path, start, len) \<Rightarrow>
       if (case target of Some name \<Rightarrow> name \<noteq> type_name_vec_u8 | None \<Rightarrow> False)
       then error_frames (lit ''solum:partem target `'' @ target_or_unknown target @ lit ''` is not supported'')
       else if sint start < 0 then error_frames (lit ''solum:partem start must be non-negative'')
       else if sint len < 0 then error_frames (lit ''solum:partem length must be non-negative'')
       else (case read_range os path start (unat len) of
           Inr bytes \<Rightarrow> bytes_done_frames bytes
         | Inl message \<Rightarrow> error_frames message))"

definition solum_mensura_frames :: "os_calls \<Rightarrow> 'f valor \<Rightarrow> string option \<Rightarrow> 'f frames" where
  "solum_mensura_frames os data target = (case valor_text data of
     None \<Rightarrow> error_frames (lit ''solum:mensura opener must be textus'')
   | Some path \<Rightarrow>
       if target \<noteq> Some type_name_i64
       then error_frames (lit ''solum:mensura target `'' @ target_or_unknown target @ lit ''` is not supported'')
       else (case os_len os path of
           Inr len \<Rightarrow>
             if uint len < 2 ^ 63 then item_done_frames (Numerus len)
             else error_frames (lit ''file size exceeds numerus range'')
         | Inl err \<Rightarrow> error_frames (lit ''failed to read file metadata: '' @ err)))"

text \<open>\<open>windows(..).position(..)\<close>, for a pattern that is not empty.\<close>

fun window_position :: "bytes \<Rightarrow> bytes \<Rightarrow> nat \<Rightarrow> nat option" where
  "window_position pattern [] i = None"
| "window_position pattern (b # bs) i =
     (if length pattern \<le> length (b # bs) then
        if take (length pattern) (b # bs) = pattern then Some i else window_position pattern bs (i + 1)
      else None)"

definition found_at :: "u64 \<Rightarrow> nat option \<Rightarrow> i64" where
  "found_at start position = (case position of
     None \<Rightarrow> - 1
   | Some offset \<Rightarrow>
       let at = min (uint start + int offset) (2 ^ 64 - 1) in
       if at < 2 ^ 63 then word_of_int at else - 1)"

definition solum_inveni_frames :: "os_calls \<Rightarrow> 'f valor \<Rightarrow> string option \<Rightarrow> 'f frames" where
  "solum_inveni_frames os data target = (case valor_text_pattern_range data of
     Inl _ \<Rightarrow> error_frames (lit ''solum:inveni opener must be [textus, textus, numerus, numerus]'')
   | Inr (path, pattern, start, len) \<Rightarrow>
       if target \<noteq> Some type_name_i64
       then error_frames (lit ''solum:inveni target `'' @ target_or_unknown target @ lit ''` is not supported'')
       else if sint start < 0 then error_frames (lit ''solum:inveni start must be non-negative'')
       else if sint len < 0 then error_frames (lit ''solum:inveni length must be non-negative'')
       else if utf8 pattern = [] then item_done_frames (Numerus start)
       else (case read_range os path start (unat len) of
           Inr bytes \<Rightarrow> item_done_frames (Numerus (found_at start (window_position (utf8 pattern) bytes 0)))
         | Inl message \<Rightarrow> error_frames message))"

definition solum_path_bool_frames :: "os_calls \<Rightarrow> string \<Rightarrow> 'f valor \<Rightarrow> string option \<Rightarrow> 'f frames" where
  "solum_path_bool_frames os route data target = (case valor_text data of
     None \<Rightarrow> error_frames (lit route @ lit '' opener must be textus'')
   | Some path \<Rightarrow>
       if (case target of Some name \<Rightarrow> name \<noteq> type_name_bool | None \<Rightarrow> False)
       then error_frames (lit route @ lit '' target `'' @ target_or_unknown target @ lit ''` is not supported'')
       else item_done_frames (Bivalens
         (if route \<in> {''solum:exstat'', ''solum:exstabit''} then os_exists os path
          else if route = ''solum:directoriumne'' then os_is_dir os path
          else if route = ''solum:regularene'' then os_is_file os path
          else if route = ''solum:legibilene'' then os_is_file os path \<and> os_open os path = None
          else if route = ''solum:vinculumne'' then os_is_symlink os path
          else False)))"

section \<open>Random numbers\<close>

text \<open>The xorshift generator; \<open>seed\<close> is the default seed of the moment. A draw returns the number and the
  state it leaves.\<close>

definition aleator_next :: "u64 \<Rightarrow> u64 \<Rightarrow> u64 \<times> u64" where
  "aleator_next seed state =
     (let x = (if state = 0 then seed else state);
          x = xor x (push_bit 13 x);
          x = xor x (drop_bit 7 x);
          x = xor x (push_bit 17 x)
      in (x, x))"

text \<open>\<open>to_f64\<close> is the conversion of the 53 bits to a fraction.\<close>

definition aleator_fractum_frames :: "(u64 \<Rightarrow> 'f) \<Rightarrow> u64 \<Rightarrow> u64 \<Rightarrow> 'f frames \<times> u64" where
  "aleator_fractum_frames to_f64 seed state =
     (let (r, state) = aleator_next seed state in (item_done_frames (Fractus (to_f64 (drop_bit 11 r))), state))"

definition aleator_sortire_frames :: "u64 \<Rightarrow> 'f valor \<Rightarrow> u64 \<Rightarrow> 'f frames \<times> u64" where
  "aleator_sortire_frames seed data state = (case data of
     Lista (a # b # _) \<Rightarrow>
       (case (valor_numerus a, valor_numerus b) of
          (Some mn, Some mx) \<Rightarrow>
            let (lo, hi) = (if sint mn \<le> sint mx then (mn, mx) else (mx, mn));
                span = sint hi - sint lo + 1
            in if span = 0 then (error_frames (lit ''aleator:sortire empty range''), state)
               else let (r, state) = aleator_next seed state;
                        offset = uint r mod span
                    in (item_done_frames (Numerus (word_of_int (sint lo + offset))), state)
        | _ \<Rightarrow> (error_frames (lit ''aleator:sortire opener must be [numerus, numerus]''), state))
   | _ \<Rightarrow> (error_frames (lit ''aleator:sortire opener must be [numerus, numerus]''), state))"

definition aleator_octetos_frames :: "os_calls \<Rightarrow> 'f valor \<Rightarrow> 'f frames" where
  "aleator_octetos_frames os data = (case valor_numerus data of
     None \<Rightarrow> error_frames (lit ''aleator:octetos opener must be numerus'')
   | Some n \<Rightarrow>
       let len = nat (max (sint n) 0) in
       if len = 0 then bytes_done_frames []
       else (case os_urandom os len of
           Inl err \<Rightarrow> error_frames (lit ''aleator:octetos failed: '' @ err)
         | Inr bytes \<Rightarrow> bytes_done_frames bytes))"

definition uuid_text :: "bytes \<Rightarrow> ustr" where
  "uuid_text bytes =
     (let bytes = bytes[6 := or (and (bytes ! 6) 0x0f) 0x40];
          bytes = bytes[8 := or (and (bytes ! 8) 0x3f) 0x80];
          hex = (\<lambda>i n. lit (hex_lower (take n (drop i bytes))))
      in hex 0 4 @ lit ''-'' @ hex 4 2 @ lit ''-'' @ hex 6 2 @ lit ''-'' @ hex 8 2 @ lit ''-'' @ hex 10 6)"

definition aleator_uuid_frames :: "os_calls \<Rightarrow> 'f frames" where
  "aleator_uuid_frames os = (case os_urandom os 16 of
     Inl err \<Rightarrow> error_frames (lit ''aleator:uuid failed: '' @ err)
   | Inr bytes \<Rightarrow> item_done_frames (Textus (uuid_text bytes)))"

definition aleator_semina_frames :: "u64 \<Rightarrow> 'f valor \<Rightarrow> u64 \<Rightarrow> 'f frames \<times> u64" where
  "aleator_semina_frames seed data state = (case valor_numerus data of
     None \<Rightarrow> (error_frames (lit ''aleator:semina opener must be numerus''), state)
   | Some n \<Rightarrow> (done_frames, if 0 < sint n then n else seed))"

section \<open>Processes and the console\<close>

definition processus_exsequi_frames :: "os_calls \<Rightarrow> 'f valor \<Rightarrow> 'f frames" where
  "processus_exsequi_frames os data = (case valor_text data of
     None \<Rightarrow> error_frames (lit ''processus:exsequi opener must be textus'')
   | Some command \<Rightarrow> (case os_shell os command of
         Inl err \<Rightarrow> error_frames (lit ''processus.exsequi failed: '' @ err)
       | Inr (code, stdout, stderr) \<Rightarrow>
           if code = Some 0 then item_done_frames (Textus stdout)
           else let status = (case code of
                    None \<Rightarrow> lit ''terminated without exit code''
                  | Some code \<Rightarrow> lit ''exit status '' @ show_i64 code)
                in if stderr = [] then error_frames (lit ''processus:exsequi failed with '' @ status)
                   else error_frames (lit ''processus:exsequi failed with '' @ status @ lit '': stderr: '' @ stderr)))"

text \<open>The map of the three fields, in the order of their names.\<close>

definition processus_captura_frames :: "os_calls \<Rightarrow> 'f valor \<Rightarrow> 'f frames" where
  "processus_captura_frames os data = (case valor_text_list data of
     None \<Rightarrow> error_frames (lit ''processus:captura opener must be lista<textus>'')
   | Some [] \<Rightarrow> error_frames (lit ''processus:captura requires a non-empty args list'')
   | Some (program # args) \<Rightarrow> (case os_command os program args of
         Inl err \<Rightarrow> error_frames (lit ''processus.captura failed: '' @ err)
       | Inr (code, stdout, stderr) \<Rightarrow> item_done_frames (Tabula
           [(lit ''status'', Numerus (case code of Some c \<Rightarrow> c | None \<Rightarrow> - 1)),
            (lit ''stderr'', Textus stderr), (lit ''stdout'', Textus stdout)])))"

definition processus_dimitte_frames :: "os_calls \<Rightarrow> 'f valor \<Rightarrow> 'f frames" where
  "processus_dimitte_frames os data = (case valor_text_list data of
     None \<Rightarrow> error_frames (lit ''processus:dimitte opener must be lista<textus>'')
   | Some [] \<Rightarrow> error_frames (lit ''processus:dimitte requires a non-empty args list'')
   | Some (program # args) \<Rightarrow>
       item_or_error (\<lambda>pid. Numerus (ucast pid)) (lit ''processus:dimitte failed: '') (os_spawn os program args))"

definition processus_lege_frames :: "os_calls \<Rightarrow> 'f valor \<Rightarrow> 'f frames" where
  "processus_lege_frames os data = (case valor_text data of
     None \<Rightarrow> error_frames (lit ''processus:lege opener must be textus'')
   | Some name \<Rightarrow> (case os_var os name of
         Some value \<Rightarrow> item_done_frames (Textus value)
       | None \<Rightarrow> error_frames (lit ''processus:lege: environment variable `'' @ name @ lit ''` is not set'')))"

definition processus_scribe_frames :: "'f valor \<Rightarrow> 'f frames" where
  "processus_scribe_frames data = (case valor_text_pair data of
     Inl _ \<Rightarrow> error_frames (lit ''processus:scribe opener must be [textus, textus]'')
   | Inr _ \<Rightarrow> done_frames)"

definition processus_sedes_frames :: "os_calls \<Rightarrow> 'f frames" where
  "processus_sedes_frames os = item_or_error Textus (lit ''processus:sedes failed: '') (os_current_dir os)"

definition processus_muta_frames :: "os_calls \<Rightarrow> 'f valor \<Rightarrow> 'f frames" where
  "processus_muta_frames os data = (case valor_text data of
     None \<Rightarrow> error_frames (lit ''processus:muta opener must be textus'')
   | Some path \<Rightarrow> done_or_error (lit ''processus:muta failed: '') (os_set_current_dir os path))"

definition processus_identitas_frames :: "os_calls \<Rightarrow> 'f frames" where
  "processus_identitas_frames os = item_done_frames (Numerus (ucast (os_pid os)))"

definition processus_argumenta_frames :: "os_calls \<Rightarrow> 'f frames" where
  "processus_argumenta_frames os = map (\<lambda>arg. (StItem, Textus arg)) (drop 1 (os_args os)) @ [(StDone, Nihil)]"

text \<open>A process that exits answers no frames: \<open>None\<close>.\<close>

definition processus_exi_frames :: "'f valor \<Rightarrow> 'f frames option" where
  "processus_exi_frames data = (case valor_numerus data of
     None \<Rightarrow> Some (error_frames (lit ''processus:exi opener must be numerus''))
   | Some code \<Rightarrow> None)"

definition consolum_write_stdout_frames :: "os_calls \<Rightarrow> 'f valor \<Rightarrow> bool \<Rightarrow> 'f frames" where
  "consolum_write_stdout_frames os data with_newline = (case valor_text data of
     None \<Rightarrow> error_frames (lit ''consolum write opener must be textus'')
   | Some message \<Rightarrow> done_or_error (lit ''consolum stdout write failed: '')
       (os_write_stdout os (utf8 (if with_newline then message @ [10] else message))))"

definition consolum_write_stderr_line_frames :: "os_calls \<Rightarrow> 'f valor \<Rightarrow> 'f frames" where
  "consolum_write_stderr_line_frames os data = (case valor_text data of
     None \<Rightarrow> error_frames (lit ''consolum stderr opener must be textus'')
   | Some message \<Rightarrow> done_or_error (lit ''consolum stderr write failed: '') (os_write_stderr os (utf8 (message @ [10]))))"

definition consolum_write_stdout_bytes_frames :: "os_calls \<Rightarrow> 'f valor \<Rightarrow> 'f frames" where
  "consolum_write_stdout_bytes_frames os data = (case
       (case data of
          Octeti bytes \<Rightarrow> Inr bytes
        | Lista values \<Rightarrow> byte_list (lit ''consolum:funde opener must be octeti'') (lit ''consolum:funde byte out of range'') values
        | _ \<Rightarrow> Inl (lit ''consolum:funde opener must be octeti'')) of
     Inl message \<Rightarrow> error_frames message
   | Inr bytes \<Rightarrow> done_or_error (lit ''consolum:funde failed: '') (os_write_stdout os bytes))"

definition strip_newline :: "ustr \<Rightarrow> ustr" where
  "strip_newline line =
     (if length line \<ge> 2 \<and> drop (length line - 2) line = [13, 10] then take (length line - 2) line
      else if line \<noteq> [] \<and> last line = 10 then take (length line - 1) line
      else line)"

definition consolum_read_line_frames :: "os_calls \<Rightarrow> 'f frames" where
  "consolum_read_line_frames os = (case os_read_line os of
     Inr line \<Rightarrow> item_done_frames (Textus (strip_newline line))
   | Inl err \<Rightarrow> error_frames (lit ''consolum:lege failed: '' @ err))"

definition consolum_read_stdin_frames :: "os_calls \<Rightarrow> 'f valor \<Rightarrow> 'f frames" where
  "consolum_read_stdin_frames os data = (case valor_numerus data of
     None \<Rightarrow> error_frames (lit ''consolum:hauri opener must be numerus'')
   | Some magnitude \<Rightarrow> (case os_read_stdin os (nat (max (sint magnitude) 0)) of
         Inr bytes \<Rightarrow> bytes_done_frames bytes
       | Inl err \<Rightarrow> error_frames (lit ''consolum:hauri failed: '' @ err)))"

definition consolum_is_terminal_frames :: "os_calls \<Rightarrow> consolum_stream \<Rightarrow> 'f frames" where
  "consolum_is_terminal_frames os s = item_done_frames (Bivalens (os_is_terminal os s))"

section \<open>The table of routes\<close>

definition tempus_dormiet_frames :: "'f valor \<Rightarrow> 'f frames" where
  "tempus_dormiet_frames data = (case valor_numerus data of
     None \<Rightarrow> error_frames (lit ''tempus:dormiet opener must be numerus'')
   | Some ms \<Rightarrow> if sint ms < 0 then error_frames (lit ''tempus:dormiet ms must be non-negative'') else done_frames)"

text \<open>The frames of a request and the state of the generator after it; the outer \<open>None\<close> is the exit.\<close>

definition builtin_route_frames :: "os_calls \<Rightarrow> (u64 \<Rightarrow> 'f) \<Rightarrow> u64 \<Rightarrow> 'f sermo_request \<Rightarrow> u64 \<Rightarrow> ('f frames \<times> u64) option" where
  "builtin_route_frames os to_f64 seed rq state =
     (let route = rq_route rq; opener = rq_opener rq; target = rq_target rq;
          answer = (\<lambda>frames. Some (frames, state))
      in
      if route = ''runtime:echo'' then answer (item_done_frames opener)
      else if route = ''tempus:nunc'' then
        answer (item_done_frames (InstansText (to_rfc3339 (instans_from_nanos (os_epoch_nanos os) Nanosecunda))))
      else if route \<in> {''tempus:monotonicum'', ''tempus:activum''} then answer (item_done_frames (Numerus (os_elapsed_nanos os)))
      else if route \<in> {''tempus:dormiet'', ''tempus:expectet''} then answer (tempus_dormiet_frames opener)
      else if route \<in> {''solum:scribe'', ''solum:scribet'', ''solum:appone'', ''solum:apponet''}
        then answer (solum_write_text_frames os route opener)
      else if route = ''solum:funde'' then answer (solum_write_bytes_frames os opener)
      else if route \<in> {''solum:dele'', ''solum:delet''} then answer (solum_delete_frames os opener)
      else if route = ''solum:parens'' then answer (solum_parent_frames os opener)
      else if route = ''solum:nomen'' then answer (solum_file_name_frames os opener)
      else if route = ''solum:suffixum'' then answer (solum_extension_frames os opener)
      else if route = ''solum:iunge'' then answer (solum_join_frames opener)
      else if route = ''solum:absolve'' then answer (solum_canonicalize_frames os opener)
      else if route = ''solum:temporarium'' then answer (item_done_frames (Textus (os_temp_dir os)))
      else if route = ''solum:domus'' then answer (solum_domus_frames os)
      else if route = ''solum:partem'' then answer (solum_partem_frames os opener target)
      else if route \<in> {''processus:exsequi'', ''processus:exsequetur''} then answer (processus_exsequi_frames os opener)
      else if route = ''processus:captura'' then answer (processus_captura_frames os opener)
      else if route = ''processus:dimitte'' then answer (processus_dimitte_frames os opener)
      else if route = ''processus:lege'' then answer (processus_lege_frames os opener)
      else if route = ''processus:scribe'' then answer (processus_scribe_frames opener)
      else if route = ''processus:sedes'' then answer (processus_sedes_frames os)
      else if route = ''processus:muta'' then answer (processus_muta_frames os opener)
      else if route = ''processus:identitas'' then answer (processus_identitas_frames os)
      else if route = ''processus:argumenta'' then answer (processus_argumenta_frames os)
      else if route = ''processus:exi'' then map_option (\<lambda>frames. (frames, state)) (processus_exi_frames opener)
      else if route \<in> {''consolum:dic'', ''consolum:dicet''} then answer (consolum_write_stdout_frames os opener False)
      else if route \<in> {''consolum:scribe'', ''consolum:scribet''} then answer (consolum_write_stdout_frames os opener True)
      else if route \<in> {''consolum:mone'', ''consolum:monet'', ''consolum:vide'', ''consolum:videbit''}
        then answer (consolum_write_stderr_line_frames os opener)
      else if route \<in> {''consolum:lege'', ''consolum:leget''} then answer (consolum_read_line_frames os)
      else if route \<in> {''consolum:hauri'', ''consolum:hauriet''} then answer (consolum_read_stdin_frames os opener)
      else if route = ''consolum:funde'' then answer (consolum_write_stdout_bytes_frames os opener)
      else if route = ''consolum:audit'' then answer (consolum_is_terminal_frames os Stdin)
      else if route = ''consolum:loquitur'' then answer (consolum_is_terminal_frames os Stdout)
      else if route = ''consolum:admonet'' then answer (consolum_is_terminal_frames os Stderr)
      else if route = ''solum:lege'' then answer (solum_lege_frames os opener target)
      else if route \<in> {''solum:hauri'', ''solum:hauriet''} then answer (solum_hauri_frames os opener)
      else if route \<in> {''solum:carpe'', ''solum:carpiet''} then answer (solum_carpe_frames os opener)
      else if route = ''solum:mensura'' then answer (solum_mensura_frames os opener target)
      else if route = ''solum:inveni'' then answer (solum_inveni_frames os opener target)
      else if route \<in> {''solum:crea'', ''solum:creabit''} then answer (solum_create_dir_frames os opener)
      else if route \<in> {''solum:enumera'', ''solum:enumerabit''} then answer (solum_list_dir_frames os opener)
      else if route \<in> {''solum:amputa'', ''solum:amputabit''} then answer (solum_remove_dir_frames os opener)
      else if route \<in> {''solum:exscribe'', ''solum:exscribet''} then answer (solum_copy_frames os opener)
      else if route \<in> {''solum:renomina'', ''solum:renominabit''} then answer (solum_rename_frames os opener)
      else if route \<in> {''solum:tange'', ''solum:tanget''} then answer (solum_touch_frames os opener)
      else if route \<in> {''solum:sequere'', ''solum:sequetur''} then answer (solum_follow_symlink_frames os opener)
      else if route = ''solum:vincula'' then answer (solum_create_symlink_frames os opener)
      else if route = ''solum:modum'' then answer (solum_set_mode_frames os opener)
      else if route = ''solum:modus'' then answer (solum_get_mode_frames os opener)
      else if route \<in> {''solum:exstat'', ''solum:exstabit'', ''solum:directoriumne'', ''solum:regularene'', ''solum:legibilene'',
          ''solum:vinculumne''} then answer (solum_path_bool_frames os route opener target)
      else if route = ''aleator:fractum'' then Some (aleator_fractum_frames to_f64 seed state)
      else if route = ''aleator:sortire'' then Some (aleator_sortire_frames seed opener state)
      else if route = ''aleator:octetos'' then answer (aleator_octetos_frames os opener)
      else if route = ''aleator:uuid'' then answer (aleator_uuid_frames os)
      else if route = ''aleator:semina'' then Some (aleator_semina_frames seed opener state)
      else answer (error_frames (lit ''unsupported ad route `'' @ lit route @ lit ''`'')))"

end
