(* ===== verification/RouteProps.thy ===== *)
theory RouteProps
  imports Routes
begin

text \<open>
  What the built-in routes of \<open>src/frame.rs\<close> guarantee: every answer is a response, a drawn number lies in
  its range, and what a file holds is what the materializer of its target reads.
\<close>

section \<open>Every answer is a response\<close>

definition response :: "'f frames \<Rightarrow> bool" where
  "response frames \<longleftrightarrow> (\<exists>cs t. frames = cs @ [t] \<and> list_all (\<lambda>f. fst f = StItem \<or> fst f = StByte) cs \<and>
     (fst t = StDone \<or> fst t = StError))"

named_theorems answers

lemma response_simple [answers]:
  "response (item_done_frames v)" "response (bytes_done_frames bs)" "response done_frames" "response (error_frames m)"
  by (force simp: response_def item_done_frames_def bytes_done_frames_def done_frames_def error_frames_def
      append_eq_Cons_conv intro: exI[of _ "[]"])+

lemma response_items [answers]: "response (map (\<lambda>x. (StItem, g x)) xs @ [(StDone, Nihil)])"
  unfolding response_def by (intro exI conjI; (rule refl)?) (simp_all add: list_all_iff)

lemma response_results [answers]: "response (done_or_error m r)" "response (item_or_error into m q)"
  by (auto simp: done_or_error_def item_or_error_def answers split: option.split sum.split)

lemma response_files [answers]:
  "response (solum_write_text_frames os route data)" "response (solum_parent_frames os data)"
  "response (solum_domus_frames os)" "response (solum_delete_frames os data)" "response (solum_hauri_frames os data)"
  "response (solum_write_bytes_frames os data)" "response (solum_create_dir_frames os data)"
  "response (solum_list_dir_frames os data)" "response (solum_remove_dir_frames os data)"
  by (auto simp: solum_write_text_frames_def solum_parent_frames_def solum_domus_frames_def solum_delete_frames_def
      solum_hauri_frames_def solum_write_bytes_frames_def solum_create_dir_frames_def solum_list_dir_frames_def
      solum_remove_dir_frames_def answers split: option.split sum.split prod.split)

lemma response_paths [answers]:
  "response (solum_copy_frames os data)" "response (solum_rename_frames os data)" "response (solum_touch_frames os data)"
  "response (solum_follow_symlink_frames os data)" "response (solum_create_symlink_frames os data)"
  "response (solum_set_mode_frames os data)" "response (solum_get_mode_frames os data)"
  "response (solum_file_name_frames os data)" "response (solum_extension_frames os data)" "response (solum_join_frames data)"
  "response (solum_canonicalize_frames os data)" "response (solum_path_bool_frames os route data target)"
  by (auto simp: solum_copy_frames_def solum_rename_frames_def solum_touch_frames_def solum_follow_symlink_frames_def
      solum_create_symlink_frames_def solum_set_mode_frames_def solum_get_mode_frames_def solum_file_name_frames_def
      solum_extension_frames_def solum_join_frames_def solum_canonicalize_frames_def solum_path_bool_frames_def
      answers split: option.split sum.split prod.split)

lemma response_lines [answers]: "response (solum_line_item_frames os path prefix)"
  by (auto simp: solum_line_item_frames_def answers split: sum.split)

lemma response_reads [answers]:
  "response (solum_carpe_frames os data)" "response (solum_lege_frames os data target)"
  "response (solum_partem_frames os data target)" "response (solum_mensura_frames os data target)"
  "response (solum_inveni_frames os data target)"
  by (auto simp: solum_carpe_frames_def solum_lege_frames_def solum_partem_frames_def solum_mensura_frames_def
      solum_inveni_frames_def answers split: option.split sum.split prod.split)

lemma response_processes [answers]:
  "response (processus_exsequi_frames os data)" "response (processus_captura_frames os data)"
  "response (processus_dimitte_frames os data)" "response (processus_lege_frames os data)"
  "response (processus_scribe_frames data)" "response (processus_sedes_frames os)" "response (processus_muta_frames os data)"
  "response (processus_identitas_frames os)" "response (processus_argumenta_frames os)" "response (tempus_dormiet_frames data)"
  by (auto simp: processus_exsequi_frames_def processus_captura_frames_def processus_dimitte_frames_def
      processus_lege_frames_def processus_scribe_frames_def processus_sedes_frames_def processus_muta_frames_def
      processus_identitas_frames_def processus_argumenta_frames_def tempus_dormiet_frames_def Let_def answers
      split: option.split sum.split prod.split list.split)

lemma response_console [answers]:
  "response (consolum_write_stdout_frames os data nl)" "response (consolum_write_stderr_line_frames os data)"
  "response (consolum_write_stdout_bytes_frames os data)" "response (consolum_read_line_frames os)"
  "response (consolum_read_stdin_frames os data)" "response (consolum_is_terminal_frames os h)"
  by (auto simp: consolum_write_stdout_frames_def consolum_write_stderr_line_frames_def
      consolum_write_stdout_bytes_frames_def consolum_read_line_frames_def consolum_read_stdin_frames_def
      consolum_is_terminal_frames_def answers split: option.split sum.split)

lemma response_aleator [answers]:
  "response (fst (aleator_fractum_frames to_f64 seed state))" "response (fst (aleator_sortire_frames seed data state))"
  "response (aleator_octetos_frames os data)" "response (aleator_uuid_frames os)"
  "response (fst (aleator_semina_frames seed data state))"
  by (auto simp: aleator_fractum_frames_def aleator_sortire_frames_def aleator_octetos_frames_def aleator_uuid_frames_def
      aleator_semina_frames_def Let_def answers split: option.split sum.split prod.split valor.split list.split)

text \<open>Whatever the route, the opener and the answers of the system, the frames are content and then one
  terminal frame: a producer that sends them completes its response.\<close>

definition answered :: "('f frames \<times> u64) option \<Rightarrow> bool" where
  "answered r \<longleftrightarrow> (\<forall>p. r = Some p \<longrightarrow> response (fst p))"

lemma answered_if: "answered x \<Longrightarrow> answered y \<Longrightarrow> answered (if b then x else y)"
  by simp

lemma answered_Some: "answered (Some p) = response (fst p)"
  by (simp add: answered_def)

lemma answered_exi: "answered (map_option (\<lambda>frames. (frames, state)) (processus_exi_frames data))"
  by (auto simp: answered_def processus_exi_frames_def answers split: option.splits)

lemma builtin_routes_answer: "answered (builtin_route_frames os to_f64 seed rq state)"
  unfolding builtin_route_frames_def Let_def
  by (intro answered_if; simp only: answered_exi answered_Some fst_conv answers)

section \<open>A number in its range\<close>

lemma sint_word_of_int_i64: "- (2 ^ 63) \<le> k \<Longrightarrow> k < 2 ^ 63 \<Longrightarrow> sint (word_of_int k :: i64) = k"
  by (simp add: signed_of_int signed_take_bit_int_eq_self)

lemma sortire_in_range:
  fixes a b :: i64
  defines "lo \<equiv> min (sint a) (sint b)" and "hi \<equiv> max (sint a) (sint b)"
  shows "\<exists>v. fst (aleator_sortire_frames seed (Lista (Numerus a # Numerus b # others)) state) = item_done_frames (Numerus v) \<and>
           lo \<le> sint v \<and> sint v \<le> hi"
proof -
  define r where "r = fst (aleator_next seed state)"
  define v :: i64 where "v = word_of_int (lo + uint r mod (hi - lo + 1))"
  have span: "0 < hi - lo + 1" by (simp add: lo_def hi_def)
  have bounds: "0 \<le> uint r mod (hi - lo + 1)" "uint r mod (hi - lo + 1) < hi - lo + 1" 
    using span by (simp, rule pos_mod_bound)
  have low: "- (2 ^ 63) \<le> lo" and high: "hi < 2 ^ 63"
    using sint_greater_eq[of a] sint_greater_eq[of b] sint_less[of a] sint_less[of b] by (simp_all add: lo_def hi_def)
  have "- (2 ^ 63) \<le> lo + uint r mod (hi - lo + 1)" "lo + uint r mod (hi - lo + 1) < 2 ^ 63"
    using bounds low high by linarith+
  then have v: "sint v = lo + uint r mod (hi - lo + 1)"
    unfolding v_def using sint_word_of_int_i64 by blast
  have "fst (aleator_sortire_frames seed (Lista (Numerus a # Numerus b # others)) state) = item_done_frames (Numerus v)"
    using span
    by (cases "sint a \<le> sint b")
      (simp_all add: aleator_sortire_frames_def valor_numerus_def Let_def v_def r_def lo_def hi_def min_def max_def split: prod.split)
  with v bounds show ?thesis by auto
qed

section \<open>Reading a file for a target\<close>

lemma u8_of_ucast: "u8_try_from (ucast (b :: u8)) = Some b"
proof -
  have b: "uint b < 256" using uint_lt2p[of b] by simp
  have "sint (ucast b :: i64) = uint b"
    by (subst signed_ucast_eq, subst signed_take_bit_int_eq_self)
      (use b order_trans[OF _ uint_ge_0[of b], of "- (2 ^ 63)"] in simp_all)
  moreover have "ucast (ucast b :: i64) = b" by (rule bit_word_eqI) (simp add: bit_simps)
  ultimately show ?thesis using b by (simp add: u8_try_from_def)
qed

lemma octeti_lista_bytes: "octeti_lista (map (\<lambda>b. Numerus (ucast b)) bs) = Inr (bs :: bytes)"
  by (induction bs) (simp_all add: u8_of_ucast)

text \<open>A file of items, and a single item, before the terminal frame.\<close>

lemma lista_loop_items:
  "terminal_statuses terminal \<Longrightarrow>
   map (\<lambda>f. (sc_status f, sc_data f)) fs = map (\<lambda>x. (StItem, Textus x)) xs @ [(StDone, Nihil)] \<Longrightarrow>
   materialize_lista_loop terminal debug from_valor_textus out fs = (Inr (out @ xs), [])"
proof (induction xs arbitrary: fs out)
  case Nil
  then obtain f where f: "fs = [f]" "sc_status f = StDone" by auto
  have "terminal StDone" using Nil(1) by (simp add: terminal_statuses_def)
  with f show ?case by (simp add: terminal_error_def)
next
  case (Cons x xs)
  then obtain f fs' where f: "fs = f # fs'" "sc_status f = StItem" "sc_data f = Textus x" by (cases fs) auto
  have "\<not> terminal StItem" using Cons.prems(1) by (simp add: terminal_statuses_def)
  with f Cons.prems Cons.IH[of fs'] show ?case by (simp add: terminal_error_def from_valor_textus_def)
qed

lemma single_item:
  assumes "terminal_statuses terminal" "map (\<lambda>f. (sc_status f, sc_data f)) fs = item_done_frames v"
  obtains f t where "fs = [f, t]" "sc_data f = v" "terminal_error debug f = None" "\<not> terminal (sc_status f)"
    "terminal_error debug t = None" "terminal (sc_status t)"
proof -
  obtain f t where f: "fs = [f, t]" "sc_data f = v" "sc_status f = StItem" "sc_status t = StDone"
    using assms(2) by (auto simp: item_done_frames_def)
  have "\<not> terminal StItem" "terminal StDone" using assms(1) by (simp_all add: terminal_statuses_def)
  then show ?thesis by (intro that[OF f(1,2)]) (simp_all add: terminal_error_def f(3,4))
qed

definition lege_request :: "'f sermo_request \<Rightarrow> ustr \<Rightarrow> string \<Rightarrow> bool" where
  "lege_request rq path target \<longleftrightarrow> rq_route rq = ''solum:lege'' \<and> rq_opener rq = Textus path \<and> rq_target rq = Some target"

lemma lege_answer:
  "lege_request rq path target \<Longrightarrow>
   builtin_route_frames os to_f64 seed rq state = Some (solum_lege_frames os (Textus path) (Some target), state)"
  by (simp add: builtin_route_frames_def lege_request_def Let_def)

text \<open>C29: reading a file through the \<open>solum:lege\<close> route gives what the file holds, in the form the caller's
  type asks for: the frames the route answers for a text, a list of lines or a list of bytes are those
  from which the materializer of that type rebuilds the text, its lines and its bytes.\<close>

theorem file_read_reaches_target:
  assumes "terminal_statuses terminal" "lege_request rq path target"
    "builtin_route_frames os to_f64 seed rq state = Some (frames, state')"
    "map (\<lambda>f. (sc_status f, sc_data f)) fs = frames"
  shows "(target = type_name_string \<longrightarrow> os_read_to_string os path = Inr txt' \<longrightarrow>
            fst (try_sermo_materialize_auto terminal debug StringType from fs) = Inr (AutoText txt')) \<and>
         (target = type_name_vec_string \<longrightarrow> os_read_to_string os path = Inr txt' \<longrightarrow>
            fst (try_sermo_materialize_auto terminal debug VecString from fs) = Inr (AutoTexts (text_lines [] txt'))) \<and>
         (target = type_name_vec_u8 \<longrightarrow> os_read os path = Inr bs \<longrightarrow>
            fst (try_sermo_materialize_auto terminal debug VecU8 from fs) = Inr (AutoBytes bs))"
proof (intro conjI impI)
  have frames: "map (\<lambda>f. (sc_status f, sc_data f)) fs = solum_lege_frames os (Textus path) (Some target)"
    using assms(3,4) lege_answer[OF assms(2), of os to_f64 seed state] by simp
  note names = type_name_string_def type_name_vec_string_def type_name_vec_u8_def
  show "fst (try_sermo_materialize_auto terminal debug StringType from fs) = Inr (AutoText txt')"
    if t: "target = type_name_string" "os_read_to_string os path = Inr txt'"
  proof -
    have item: "map (\<lambda>f. (sc_status f, sc_data f)) fs = item_done_frames (Textus txt')"
      using frames t by (simp add: solum_lege_frames_def valor_text_def item_or_error_def)
    show ?thesis
      by (rule single_item[OF assms(1) item, of debug])
        (simp add: try_sermo_materialize_auto_def try_sermo_materialize_textus_def map_materialized_def)
  qed
  show "fst (try_sermo_materialize_auto terminal debug VecString from fs) = Inr (AutoTexts (text_lines [] txt'))"
    if t: "target = type_name_vec_string" "os_read_to_string os path = Inr txt'"
  proof -
    have "map (\<lambda>f. (sc_status f, sc_data f)) fs = map (\<lambda>x. (StItem, Textus x)) (text_lines [] txt') @ [(StDone, Nihil)]"
      using frames t by (simp add: solum_lege_frames_def valor_text_def solum_line_item_frames_def names)
    from lista_loop_items[OF assms(1) this] show ?thesis
      by (simp add: try_sermo_materialize_auto_def try_sermo_materialize_lista_def map_materialized_def)
  qed
  show "fst (try_sermo_materialize_auto terminal debug VecU8 from fs) = Inr (AutoBytes bs)"
    if t: "target = type_name_vec_u8" "os_read os path = Inr bs"
  proof -
    have item: "map (\<lambda>f. (sc_status f, sc_data f)) fs = item_done_frames (Lista (map (\<lambda>byte. Numerus (ucast byte)) bs))"
      using frames t by (simp add: solum_lege_frames_def valor_text_def item_or_error_def names)
    show ?thesis
      by (rule single_item[OF assms(1) item, of debug])
        (simp add: try_sermo_materialize_auto_def try_sermo_materialize_octeti_def map_materialized_def
          octeti_payload_def octeti_lista_bytes)
  qed
qed

definition demo_os :: os_calls where
  "demo_os = \<lparr>os_open_append = (\<lambda>_. None), os_append = (\<lambda>_ _. None), os_write = (\<lambda>_ _. None), os_read = (\<lambda>_. Inr [104, 105, 10]),
     os_read_to_string = (\<lambda>_. Inr (lit ''hi'' @ [10])), os_open = (\<lambda>_. None), os_seek = (\<lambda>_ _. None),
     os_read_at = (\<lambda>_ _ _. Inr []), os_remove_file = (\<lambda>_. None), os_create_dir_all = (\<lambda>_. None),
     os_read_dir = (\<lambda>_. Inr \<lparr>dl_names = []\<rparr>), os_remove_dir_all = (\<lambda>_. None), os_copy = (\<lambda>_ _. None),
     os_rename = (\<lambda>_ _. None), os_touch = (\<lambda>_. None), os_read_link = (\<lambda>p. Inr p), os_symlink = (\<lambda>_ _. None),
     os_set_permissions = (\<lambda>_ _. None), os_mode = (\<lambda>_. Inr 420), os_len = (\<lambda>_. Inr 3), os_exists = (\<lambda>_. True),
     os_is_dir = (\<lambda>_. False), os_is_file = (\<lambda>_. True), os_is_symlink = (\<lambda>_. False), os_canonicalize = (\<lambda>p. Inr p),
     os_parent = (\<lambda>_. None), os_file_name = (\<lambda>p. Some p), os_extension = (\<lambda>_. None), os_temp_dir = lit ''/tmp'',
     os_var = (\<lambda>_. None), os_current_dir = Inr (lit ''/''), os_set_current_dir = (\<lambda>_. None), os_pid = 1, os_args = [],
     os_shell = (\<lambda>_. Inr (Some 0, [], [])), os_command = (\<lambda>_ _. Inr (Some 0, [], [])), os_spawn = (\<lambda>_ _. Inr 2),
     os_write_stdout = (\<lambda>_. None), os_write_stderr = (\<lambda>_. None), os_read_line = Inr [], os_read_stdin = (\<lambda>_. Inr []),
     os_is_terminal = (\<lambda>_. False), os_urandom = (\<lambda>n. Inr (replicate n 0)), os_epoch_nanos = 0, os_elapsed_nanos = 0\<rparr>"

lemma file_read_reaches_target_witness:
  "fst (try_sermo_materialize_auto demo_terminal (\<lambda>_. []) VecU8 from_valor_numerus
     [demo_frame StItem (Lista [Numerus 104, Numerus 105, Numerus 10]), demo_frame StDone Nihil]) = Inr (AutoBytes [104, 105, 10])"
proof -
  define rq :: "int sermo_request" where
    "rq = \<lparr>rq_conversation_id = ''frame-1'', rq_route = ''solum:lege'', rq_opener = Textus (lit ''a''),
       rq_target = Some type_name_vec_u8\<rparr>"
  have rq: "lege_request rq (lit ''a'') type_name_vec_u8" by (simp add: lege_request_def rq_def)
  have sent: "map (\<lambda>f. (sc_status f, sc_data f))
      [demo_frame StItem (Lista [Numerus 104, Numerus 105, Numerus 10]), demo_frame StDone Nihil] =
    solum_lege_frames demo_os (Textus (lit ''a'')) (Some type_name_vec_u8)"
    by (simp add: solum_lege_frames_def valor_text_def item_or_error_def item_done_frames_def demo_frame_def demo_os_def
        type_name_string_def type_name_vec_string_def type_name_vec_u8_def)
  have "os_read demo_os (lit ''a'') = Inr [104, 105, 10]" by (simp add: demo_os_def)
  with file_read_reaches_target[OF demo_terminal_ok rq lege_answer[OF rq, of demo_os "\<lambda>_. 0" 0 0] sent,
      of "[]" "\<lambda>_. []" from_valor_numerus "[104, 105, 10]"]
  show ?thesis by simp
qed

end
