(* ===== verification/Gguf.thy ===== *)
theory Gguf
  imports Tokenizer Utf8Code Sha256
begin

text \<open>
  The admission of the pinned model file (\<open>src/gguf.rs\<close>): the cursor and its readers, the contract of
  the 37 metadata keys, the tensor table with its byte ranges, the aggregate facts and the identity of the
  file. A parser returns a typed error or a value and the cursor after it; its outer \<open>None\<close> is a panic.
  An \<open>f32\<close> is its bit pattern, and an error carries what its message shows in place of the text.
\<close>

section \<open>Tensor types\<close>

datatype ggml_type = F32 | Q5_0 | Q8_0 | Q4_K | Q6_K

definition ggml_from_id :: "u32 \<Rightarrow> ggml_type option" where
  "ggml_from_id i = (if i = 0 then Some F32 else if i = 6 then Some Q5_0 else if i = 8 then Some Q8_0
     else if i = 12 then Some Q4_K else if i = 14 then Some Q6_K else None)"

fun ggml_id :: "ggml_type \<Rightarrow> u32" where
  "ggml_id F32 = 0" | "ggml_id Q5_0 = 6" | "ggml_id Q8_0 = 8" | "ggml_id Q4_K = 12" | "ggml_id Q6_K = 14"

fun ggml_name :: "ggml_type \<Rightarrow> string" where
  "ggml_name F32 = ''F32''" | "ggml_name Q5_0 = ''Q5_0''" | "ggml_name Q8_0 = ''Q8_0''"
| "ggml_name Q4_K = ''Q4_K''" | "ggml_name Q6_K = ''Q6_K''"

fun block_elements :: "ggml_type \<Rightarrow> u64" where
  "block_elements F32 = 1" | "block_elements Q5_0 = 32" | "block_elements Q8_0 = 32"
| "block_elements Q4_K = 256" | "block_elements Q6_K = 256"

fun block_bytes :: "ggml_type \<Rightarrow> u64" where
  "block_bytes F32 = 4" | "block_bytes Q5_0 = 22" | "block_bytes Q8_0 = 34"
| "block_bytes Q4_K = 144" | "block_bytes Q6_K = 210"

fun ggml_index :: "ggml_type \<Rightarrow> nat" where
  "ggml_index F32 = 0" | "ggml_index Q5_0 = 1" | "ggml_index Q8_0 = 2" | "ggml_index Q4_K = 3" | "ggml_index Q6_K = 4"

definition expected_tensor_count_per_type :: "(ggml_type \<times> u64) list" where
  "expected_tensor_count_per_type = [(F32, 65), (Q4_K, 16), (Q5_0, 176), (Q6_K, 16), (Q8_0, 17)]"

definition expected_elements_per_type :: "(ggml_type \<times> u64) list" where
  "expected_elements_per_type =
     [(F32, 62400), (Q4_K, 39321600), (Q5_0, 231014400), (Q6_K, 39321600), (Q8_0, 52101120)]"

section \<open>The pinned row\<close>

definition pinned_file_size :: u64 where "pinned_file_size = 270590880"
definition gguf_magic :: u32 where "gguf_magic = 0x46554747"
definition gguf_version :: u32 where "gguf_version = 3"
definition gguf_alignment :: u64 where "gguf_alignment = 32"
definition max_string_bytes :: u64 where "max_string_bytes = 4096"
definition max_key_bytes :: u64 where "max_key_bytes = 128"
definition max_tensor_name_bytes :: u64 where "max_tensor_name_bytes = 128"
definition max_tensor_dims :: u32 where "max_tensor_dims = 2"
definition max_dim :: u64 where "max_dim = 65536"
definition expected_kv_count :: u64 where "expected_kv_count = 37"
definition expected_tensor_count :: u64 where "expected_tensor_count = 290"
definition expected_total_elements :: u64 where "expected_total_elements = 361821120"
definition expected_tokens :: u64 where "expected_tokens = 49152"
definition expected_token_type :: u64 where "expected_token_type = 49152"
definition expected_merges :: u64 where "expected_merges = 48900"

definition contract_schema :: string where "contract_schema = ''gi0-model-contract v1.0.0''"

definition pinned_sha256 :: bytes where
  "pinned_sha256 =
     [0x2f, 0xa3, 0xf0, 0x13, 0xdc, 0xdd, 0x7b, 0x99, 0xf9, 0xb2, 0x37, 0x71, 0x7f, 0xa0, 0xb1, 0x2d,
      0x75, 0xbb, 0xb8, 0x99, 0x84, 0xcc, 0x12, 0x74, 0xbe, 0x14, 0x71, 0xa4, 0x65, 0xba, 0xc9, 0xc2]"

definition admitted_keys :: "string list" where
  "admitted_keys =
    [''general.architecture'',
     ''general.basename'',
     ''general.file_type'',
     ''general.finetune'',
     ''general.languages'',
     ''general.license'',
     ''general.name'',
     ''general.organization'',
     ''general.quantization_version'',
     ''general.size_label'',
     ''general.type'',
     ''llama.attention.head_count'',
     ''llama.attention.head_count_kv'',
     ''llama.attention.layer_norm_rms_epsilon'',
     ''llama.block_count'',
     ''llama.context_length'',
     ''llama.embedding_length'',
     ''llama.feed_forward_length'',
     ''llama.rope.dimension_count'',
     ''llama.rope.freq_base'',
     ''llama.vocab_size'',
     ''quantize.imatrix.chunks_count'',
     ''quantize.imatrix.dataset'',
     ''quantize.imatrix.entries_count'',
     ''quantize.imatrix.file'',
     ''tokenizer.chat_template'',
     ''tokenizer.ggml.add_bos_token'',
     ''tokenizer.ggml.add_space_prefix'',
     ''tokenizer.ggml.bos_token_id'',
     ''tokenizer.ggml.eos_token_id'',
     ''tokenizer.ggml.merges'',
     ''tokenizer.ggml.model'',
     ''tokenizer.ggml.padding_token_id'',
     ''tokenizer.ggml.pre'',
     ''tokenizer.ggml.token_type'',
     ''tokenizer.ggml.tokens'',
     ''tokenizer.ggml.unknown_token_id'']"

text \<open>The chat template, with a backquote for each quote and a tilde for each line feed.\<close>

definition chat_template :: string where
  "chat_template = map (\<lambda>c. if c = CHR 0x60 then CHR 0x27 else if c = CHR 0x7E then CHR 0x0A else c)
     (''{% for message in messages %}{% if loop.first and messages[0][`role`] != `system` %}{{ `<|'' @
      ''im_start|>system~You are a helpful AI assistant named SmolLM, trained by Hugging Face<|im_'' @
      ''end|>~` }}{% endif %}{{`<|im_start|>` + message[`role`] + `~` + message[`content`] + `<|im'' @
      ''_end|>` + `~`}}{% endfor %}{% if add_generation_prompt %}{{ `<|im_start|>assistant~` }}{% '' @
      ''endif %}'')"

datatype expected_value =
  StringValue ustr
| Uint32Value u32
| Int32Value "32 word"
| Float32Value u32
| BoolValue bool
| StringArrayValue "ustr list"
| StringArrayLen u64
| Int32ArrayLen u64

fun expected_tag :: "expected_value \<Rightarrow> u32" where
  "expected_tag (StringValue _) = 8"
| "expected_tag (Uint32Value _) = 4"
| "expected_tag (Int32Value _) = 5"
| "expected_tag (Float32Value _) = 6"
| "expected_tag (BoolValue _) = 7"
| "expected_tag (StringArrayValue _) = 9"
| "expected_tag (StringArrayLen _) = 9"
| "expected_tag (Int32ArrayLen _) = 9"

definition contract_rows :: "(string \<times> expected_value) list" where
  "contract_rows =
    [(''general.architecture'', StringValue (lit ''llama'')),
     (''general.type'', StringValue (lit ''model'')),
     (''general.name'', StringValue (lit ''Smollm2 360M 8k Lc100K Mix1 Ep2'')),
     (''general.organization'', StringValue (lit ''Loubnabnl'')),
     (''general.finetune'', StringValue (lit ''8k-lc100k-mix1-ep2'')),
     (''general.basename'', StringValue (lit ''smollm2'')),
     (''general.size_label'', StringValue (lit ''360M'')),
     (''general.license'', StringValue (lit ''apache-2.0'')),
     (''general.languages'', StringArrayValue [lit ''en'']),
     (''llama.block_count'', Uint32Value 32),
     (''llama.context_length'', Uint32Value 8192),
     (''llama.embedding_length'', Uint32Value 960),
     (''llama.feed_forward_length'', Uint32Value 2560),
     (''llama.attention.head_count'', Uint32Value 15),
     (''llama.attention.head_count_kv'', Uint32Value 5),
     (''llama.rope.freq_base'', Float32Value 0x47C35000),
     (''llama.attention.layer_norm_rms_epsilon'', Float32Value 0x3727C5AC),
     (''general.file_type'', Uint32Value 15),
     (''llama.vocab_size'', Uint32Value 49152),
     (''llama.rope.dimension_count'', Uint32Value 64),
     (''tokenizer.ggml.add_space_prefix'', BoolValue False),
     (''tokenizer.ggml.add_bos_token'', BoolValue False),
     (''tokenizer.ggml.model'', StringValue (lit ''gpt2'')),
     (''tokenizer.ggml.pre'', StringValue (lit ''smollm'')),
     (''tokenizer.ggml.tokens'', StringArrayLen expected_tokens),
     (''tokenizer.ggml.token_type'', Int32ArrayLen expected_token_type),
     (''tokenizer.ggml.merges'', StringArrayLen expected_merges),
     (''tokenizer.ggml.bos_token_id'', Uint32Value 1),
     (''tokenizer.ggml.eos_token_id'', Uint32Value 2),
     (''tokenizer.ggml.unknown_token_id'', Uint32Value 0),
     (''tokenizer.ggml.padding_token_id'', Uint32Value 2),
     (''tokenizer.chat_template'', StringValue (lit chat_template)),
     (''general.quantization_version'', Uint32Value 2),
     (''quantize.imatrix.file'', StringValue (lit ''/models_out/SmolLM2-360M-Instruct-GGUF/SmolLM2-360M-Instruct.imatrix'')),
     (''quantize.imatrix.dataset'', StringValue (lit ''/training_dir/calibration_datav3.txt'')),
     (''quantize.imatrix.entries_count'', Int32Value 224),
     (''quantize.imatrix.chunks_count'', Int32Value 141)]"

text \<open>\<open>None\<close> is the \<open>unreachable!\<close>.\<close>

definition expected_for_key :: "string \<Rightarrow> expected_value option" where
  "expected_for_key key = map_of contract_rows key"

section \<open>Errors and descriptors\<close>

datatype shown =
  ValueTag u32 | ElementTag u32 | ArrayOfI32 | ArrayOfString | ShownString ustr | ShownUint32 u32
| ShownInt32 "32 word" | ShownFloat32 u32 | ShownBool bool | ShownArray "ustr list"

datatype admission_error =
  InvalidMagic u32
| UnsupportedVersion u32
| TensorCountMismatch u64 u64
| MetadataKvCountMismatch u64 u64
| TruncatedFile u64 u64
| KeyTooLong u64 u64
| StringTooLong string u64 u64
| UnknownMetadataKey ustr
| DuplicateMetadataKey string
| ArchitectureMismatch ustr
| MetadataValueMismatch string shown shown
| TokenizerArrayCountMismatch string u64 u64
| MalformedBool u8
| TensorNameTooLong u64 u64
| DuplicateTensorName ustr
| TensorDimCountMismatch ustr u32
| TensorDimTooLarge ustr u64
| UnknownDtype ustr u32
| MisalignedTensorOffset ustr u64
| TensorElementsNotBlockAligned ustr u64 u64
| AdmissionOverflow ustr
| OverlappingTensorRanges ustr u64 u64
| NonSequentialTensorOffsets ustr u64 u64
| TruncatedTensorData u64 u64
| PerTypeTensorCountMismatch ggml_type u64 u64
| PerTypeElementCountMismatch ggml_type u64 u64
| TotalElementsMismatch u64 u64
| FileSizeMismatch u64 u64
| Sha256Mismatch string string
| InvalidUtf8 ustr
| Io ustr

record tensor_descriptor =
  td_name :: ustr
  td_ggml_type :: ggml_type
  td_dims :: "u64 list"
  td_element_count :: u64
  td_blocks :: u64
  td_byte_len :: u64
  td_offset_in_data :: u64
  td_absolute_offset :: u64

record gguf_admission =
  ga_schema :: string
  ga_file_size :: u64
  ga_sha256_hex :: string
  ga_metadata :: "u32 metadata_kv list"
  ga_tensors :: "tensor_descriptor list"
  ga_data_offset :: u64
  ga_data_len :: u64

section \<open>The cursor\<close>

record cursor =
  cu_bytes :: bytes
  cu_pos :: u64

type_synonym 'a parser = "cursor \<Rightarrow> (admission_error + 'a \<times> cursor) option"

definition then_parse :: "'a parser \<Rightarrow> ('a \<Rightarrow> 'b parser) \<Rightarrow> 'b parser" where
  "then_parse p f cur = (case p cur of
     None \<Rightarrow> None
   | Some (Inl e) \<Rightarrow> Some (Inl e)
   | Some (Inr (x, cur)) \<Rightarrow> f x cur)"

definition parsed :: "'a \<Rightarrow> 'a parser" where
  "parsed x cur = Some (Inr (x, cur))"

definition refused :: "admission_error \<Rightarrow> 'a parser" where
  "refused e cur = Some (Inl e)"

text \<open>\<open>take\<close>; the length of the input is below \<open>2\<^sup>6\<^sup>4\<close>, as the length of a slice is.\<close>

definition take_n :: "u64 \<Rightarrow> bytes parser" where
  "take_n n cur = (case checked_add (cu_pos cur) n of
     None \<Rightarrow> Some (Inl (AdmissionOverflow (lit ''cursor advance'')))
   | Some end' \<Rightarrow>
       if of_nat (length (cu_bytes cur)) < end'
       then Some (Inl (TruncatedFile end' (of_nat (length (cu_bytes cur)))))
       else Some (Inr (take (unat n) (drop (unat (cu_pos cur)) (cu_bytes cur)), cur\<lparr>cu_pos := end'\<rparr>)))"

fun from_le_bytes :: "bytes \<Rightarrow> nat" where
  "from_le_bytes [] = 0"
| "from_le_bytes (b # bs) = unat b + 256 * from_le_bytes bs"

definition read_u8 :: "u8 parser" where
  "read_u8 = then_parse (take_n 1) (\<lambda>b. parsed (hd b))"

definition u32_le :: "u32 parser" where
  "u32_le = then_parse (take_n 4) (\<lambda>b. parsed (of_nat (from_le_bytes b)))"

definition u64_le :: "u64 parser" where
  "u64_le = then_parse (take_n 8) (\<lambda>b. parsed (of_nat (from_le_bytes b)))"

text \<open>\<open>String::from_utf8\<close>: the text whose encoding the bytes are.\<close>

definition char_at :: "bytes \<Rightarrow> nat \<Rightarrow> nat" where
  "char_at bs n = (let b = (\<lambda>i. unat (bs ! i)) in
     if n = 1 then b 0
     else if n = 2 then b 0 mod 32 * 64 + b 1 mod 64
     else if n = 3 then b 0 mod 16 * 4096 + b 1 mod 64 * 64 + b 2 mod 64
     else b 0 mod 8 * 262144 + b 1 mod 64 * 4096 + b 2 mod 64 * 64 + b 3 mod 64)"

definition is_scalar :: "nat \<Rightarrow> bool" where
  "is_scalar c \<longleftrightarrow> c < 0x110000 \<and> \<not> (0xD800 \<le> c \<and> c < 0xE000)"

definition lead_length :: "u8 \<Rightarrow> nat" where
  "lead_length b = (if b < 0x80 then 1 else if b < 0xE0 then 2 else if b < 0xF0 then 3 else 4)"

function from_utf8 :: "bytes \<Rightarrow> ustr option" where
  "from_utf8 [] = Some []"
| "from_utf8 (b # bs) =
     (let n = lead_length b; c = char_at (b # bs) n in
      if n \<le> length (b # bs) \<and> is_scalar c \<and> utf8_char c = take n (b # bs)
      then map_option ((#) c) (from_utf8 (drop n (b # bs))) else None)"
  by pat_completeness auto

termination
  by (relation "measure length") (auto simp: lead_length_def)

definition text_of :: "ustr \<Rightarrow> bytes \<Rightarrow> ustr parser" where
  "text_of context bs = (case from_utf8 bs of None \<Rightarrow> refused (InvalidUtf8 context) | Some txt \<Rightarrow> parsed txt)"

definition read_key :: "ustr parser" where
  "read_key = then_parse u64_le (\<lambda>len.
     if max_key_bytes < len then refused (KeyTooLong max_key_bytes len)
     else then_parse (take_n len) (text_of (lit ''metadata key'')))"

definition read_string :: "string \<Rightarrow> ustr parser" where
  "read_string key = then_parse u64_le (\<lambda>len.
     if max_string_bytes < len then refused (StringTooLong key max_string_bytes len)
     else then_parse (take_n len) (text_of (lit ''value of '' @ lit key)))"

definition read_tensor_name :: "ustr parser" where
  "read_tensor_name = then_parse u64_le (\<lambda>len.
     if max_tensor_name_bytes < len then refused (TensorNameTooLong max_tensor_name_bytes len)
     else then_parse (take_n len) (text_of (lit ''tensor name'')))"

section \<open>Metadata\<close>

fun repeat_parse :: "nat \<Rightarrow> 'a parser \<Rightarrow> 'a list parser" where
  "repeat_parse 0 p = parsed []"
| "repeat_parse (Suc n) p = then_parse p (\<lambda>x. then_parse (repeat_parse n p) (\<lambda>xs. parsed (x # xs)))"

definition parse_string_array :: "string \<Rightarrow> u64 \<Rightarrow> ustr list parser" where
  "parse_string_array key len = then_parse u32_le (\<lambda>elem_tag.
     if elem_tag \<noteq> 8 then refused (MetadataValueMismatch key ArrayOfString (ElementTag elem_tag))
     else then_parse u64_le (\<lambda>n.
       if n \<noteq> len then refused (TokenizerArrayCountMismatch key len n)
       else repeat_parse (unat len) (read_string key)))"

definition parse_int32_array :: "string \<Rightarrow> u64 \<Rightarrow> 32 word list parser" where
  "parse_int32_array key len = then_parse u32_le (\<lambda>elem_tag.
     if elem_tag \<noteq> 5 then refused (MetadataValueMismatch key ArrayOfI32 (ElementTag elem_tag))
     else then_parse u64_le (\<lambda>n.
       if n \<noteq> len then refused (TokenizerArrayCountMismatch key len n)
       else repeat_parse (unat len) u32_le))"

definition parse_kv_value :: "string \<Rightarrow> expected_value \<Rightarrow> u32 metadata_value parser" where
  "parse_kv_value key expected = then_parse u32_le (\<lambda>tag.
     if tag \<noteq> expected_tag expected
     then refused (MetadataValueMismatch key (ValueTag (expected_tag expected)) (ValueTag tag))
     else (case expected of
       StringValue _ \<Rightarrow> then_parse (read_string key) (\<lambda>s. parsed (MvString s))
     | Uint32Value _ \<Rightarrow> then_parse u32_le (\<lambda>n. parsed (MvUint32 n))
     | Int32Value _ \<Rightarrow> then_parse u32_le (\<lambda>n. parsed (MvInt32 n))
     | Float32Value _ \<Rightarrow> then_parse u32_le (\<lambda>n. parsed (MvFloat32 n))
     | BoolValue _ \<Rightarrow> then_parse read_u8 (\<lambda>b.
         if b = 0 then parsed (MvBool False) else if b = 1 then parsed (MvBool True) else refused (MalformedBool b))
     | StringArrayValue items \<Rightarrow> then_parse (parse_string_array key (of_nat (length items))) (\<lambda>ss. parsed (MvStringArray ss))
     | StringArrayLen len \<Rightarrow> then_parse (parse_string_array key len) (\<lambda>ss. parsed (MvStringArray ss))
     | Int32ArrayLen len \<Rightarrow> then_parse (parse_int32_array key len) (\<lambda>ns. parsed (MvInt32Array ns))))"

text \<open>The inner value is the error, the outer \<open>None\<close> the \<open>unreachable!\<close>.\<close>

definition validate_kv_value :: "string \<Rightarrow> expected_value \<Rightarrow> u32 metadata_value \<Rightarrow> admission_error option option" where
  "validate_kv_value key expected value = (case (expected, value) of
     (StringValue exp, MvString act) \<Rightarrow> Some
       (if exp = act then None
        else if key = ''general.architecture'' then Some (ArchitectureMismatch act)
        else Some (MetadataValueMismatch key (ShownString exp) (ShownString act)))
   | (Uint32Value exp, MvUint32 act) \<Rightarrow> Some
       (if exp = act then None else Some (MetadataValueMismatch key (ShownUint32 exp) (ShownUint32 act)))
   | (Int32Value exp, MvInt32 act) \<Rightarrow> Some
       (if exp = act then None else Some (MetadataValueMismatch key (ShownInt32 exp) (ShownInt32 act)))
   | (Float32Value exp, MvFloat32 act) \<Rightarrow> Some
       (if exp = act then None else Some (MetadataValueMismatch key (ShownFloat32 exp) (ShownFloat32 act)))
   | (BoolValue exp, MvBool act) \<Rightarrow> Some
       (if exp = act then None else Some (MetadataValueMismatch key (ShownBool exp) (ShownBool act)))
   | (StringArrayValue exp, MvStringArray act) \<Rightarrow> Some
       (if exp = act then None else Some (MetadataValueMismatch key (ShownArray exp) (ShownArray act)))
   | (StringArrayLen _, MvStringArray _) \<Rightarrow> Some None
   | (Int32ArrayLen _, MvInt32Array _) \<Rightarrow> Some None
   | _ \<Rightarrow> None)"

text \<open>One key and its value, with the keys seen before; the keys admitted are ASCII.\<close>

definition read_kv :: "string list \<Rightarrow> u32 metadata_kv parser" where
  "read_kv seen = then_parse read_key (\<lambda>txt. case find (\<lambda>k. lit k = txt) admitted_keys of
     None \<Rightarrow> refused (UnknownMetadataKey txt)
   | Some key \<Rightarrow>
       if key \<in> set seen then refused (DuplicateMetadataKey key)
       else (case expected_for_key key of
           None \<Rightarrow> (\<lambda>cur. None)
         | Some expected \<Rightarrow> then_parse (parse_kv_value key expected) (\<lambda>value.
             case validate_kv_value key expected value of
               None \<Rightarrow> (\<lambda>cur. None)
             | Some (Some e) \<Rightarrow> refused e
             | Some None \<Rightarrow> parsed \<lparr>kv_key = key, kv_value = value\<rparr>)))"

fun read_metadata :: "nat \<Rightarrow> u32 metadata_kv list \<Rightarrow> u32 metadata_kv list parser" where
  "read_metadata 0 metadata = parsed metadata"
| "read_metadata (Suc n) metadata =
     then_parse (read_kv (map kv_key metadata)) (\<lambda>kv. read_metadata n (metadata @ [kv]))"

section \<open>The tensor table\<close>

definition align_up :: "u64 \<Rightarrow> u64 \<Rightarrow> u64" where
  "align_up v align = and (v + (align - 1)) (not (align - 1))"

record tensor_table =
  tt_tensors :: "tensor_descriptor list"
  tt_per_type_count :: "u64 list"
  tt_per_type_elements :: "u64 list"
  tt_total_data_len :: u64
  tt_prev_end :: u64

definition empty_table :: tensor_table where
  "empty_table = \<lparr>tt_tensors = [], tt_per_type_count = [0, 0, 0, 0, 0], tt_per_type_elements = [0, 0, 0, 0, 0],
     tt_total_data_len = 0, tt_prev_end = 0\<rparr>"

fun read_dims :: "ustr \<Rightarrow> nat \<Rightarrow> u64 list \<Rightarrow> u64 \<Rightarrow> (u64 list \<times> u64) parser" where
  "read_dims name 0 dims elements = parsed (dims, elements)"
| "read_dims name (Suc n) dims elements = then_parse u64_le (\<lambda>dim.
     if max_dim < dim then refused (TensorDimTooLarge name dim)
     else (case checked_mul elements dim of
         None \<Rightarrow> refused (AdmissionOverflow (lit ''dimensions of '' @ name))
       | Some elements \<Rightarrow> read_dims name n (dims @ [dim]) elements))"

text \<open>The byte range of a tensor, and its entry in the table.\<close>

definition add_tensor :: "ustr \<Rightarrow> ggml_type \<Rightarrow> u64 list \<Rightarrow> u64 \<Rightarrow> u64 \<Rightarrow> tensor_table \<Rightarrow> admission_error + tensor_table" where
  "add_tensor name ty dims elements offset tb =
     (if offset mod gguf_alignment \<noteq> 0 then Inl (MisalignedTensorOffset name offset)
      else if elements mod block_elements ty \<noteq> 0
      then Inl (TensorElementsNotBlockAligned name elements (block_elements ty))
      else let blocks = elements div block_elements ty in (case checked_mul blocks (block_bytes ty) of
        None \<Rightarrow> Inl (AdmissionOverflow (lit ''byte length of '' @ name))
      | Some nbytes \<Rightarrow> (case checked_add offset nbytes of
        None \<Rightarrow> Inl (AdmissionOverflow (lit ''byte-range end of '' @ name))
      | Some end' \<Rightarrow>
        if offset < tt_prev_end tb then Inl (OverlappingTensorRanges name offset (tt_prev_end tb))
        else if offset \<noteq> align_up (tt_prev_end tb) gguf_alignment
        then Inl (NonSequentialTensorOffsets name offset (align_up (tt_prev_end tb) gguf_alignment))
        else (case checked_add (tt_total_data_len tb) nbytes of
          None \<Rightarrow> Inl (AdmissionOverflow (lit ''total tensor-data length''))
        | Some total_len \<Rightarrow> (case checked_add (tt_per_type_elements tb ! ggml_index ty) elements of
          None \<Rightarrow> Inl (AdmissionOverflow (lit ''element total of '' @ name))
        | Some elems \<Rightarrow> Inr (tb\<lparr>tt_prev_end := end', tt_total_data_len := total_len,
            tt_per_type_count := (tt_per_type_count tb)[ggml_index ty := tt_per_type_count tb ! ggml_index ty + 1],
            tt_per_type_elements := (tt_per_type_elements tb)[ggml_index ty := elems],
            tt_tensors := tt_tensors tb @ [\<lparr>td_name = name, td_ggml_type = ty, td_dims = dims,
              td_element_count = elements, td_blocks = blocks, td_byte_len = nbytes,
              td_offset_in_data = offset, td_absolute_offset = 0\<rparr>]\<rparr>))))))"

definition read_tensor :: "tensor_table \<Rightarrow> tensor_table parser" where
  "read_tensor tb = then_parse read_tensor_name (\<lambda>name.
     if name \<in> set (map td_name (tt_tensors tb)) then refused (DuplicateTensorName name)
     else then_parse u32_le (\<lambda>n_dims.
       if n_dims = 0 \<or> max_tensor_dims < n_dims then refused (TensorDimCountMismatch name n_dims)
       else then_parse (read_dims name (unat n_dims) [] 1) (\<lambda>(dims, elements).
         then_parse u32_le (\<lambda>dtype_id. case ggml_from_id dtype_id of
           None \<Rightarrow> refused (UnknownDtype name dtype_id)
         | Some ty \<Rightarrow> then_parse u64_le (\<lambda>offset. case add_tensor name ty dims elements offset tb of
             Inl e \<Rightarrow> refused e
           | Inr tb \<Rightarrow> parsed tb)))))"

fun read_tensors :: "nat \<Rightarrow> tensor_table \<Rightarrow> tensor_table parser" where
  "read_tensors 0 tb = parsed tb"
| "read_tensors (Suc n) tb = then_parse (read_tensor tb) (read_tensors n)"

text \<open>The data region, and the absolute offsets.\<close>

definition place_tensors :: "u64 \<Rightarrow> u64 \<Rightarrow> tensor_table \<Rightarrow> admission_error + u64 \<times> tensor_descriptor list" where
  "place_tensors file_size pos tb =
     (let data_offset = align_up pos gguf_alignment in (case checked_add data_offset (tt_total_data_len tb) of
        None \<Rightarrow> Inl (AdmissionOverflow (lit ''tensor-data region end''))
      | Some data_end \<Rightarrow>
          if file_size < data_end then Inl (TruncatedTensorData data_end file_size)
          else Inr (data_offset,
            map (\<lambda>t. t\<lparr>td_absolute_offset := data_offset + td_offset_in_data t\<rparr>) (tt_tensors tb))))"

section \<open>Admission\<close>

fun check_per_type :: "(ggml_type \<Rightarrow> u64 \<Rightarrow> u64 \<Rightarrow> admission_error) \<Rightarrow> (ggml_type \<times> u64) list \<Rightarrow> u64 list
    \<Rightarrow> admission_error option" where
  "check_per_type err [] actuals = None"
| "check_per_type err ((ty, expected) # rows) actuals =
     (if actuals ! ggml_index ty \<noteq> expected then Some (err ty expected (actuals ! ggml_index ty))
      else check_per_type err rows actuals)"

definition check_identity :: "bytes \<Rightarrow> tensor_table \<Rightarrow> admission_error option" where
  "check_identity bytes tb =
     (case check_per_type PerTypeTensorCountMismatch expected_tensor_count_per_type (tt_per_type_count tb) of
        Some e \<Rightarrow> Some e
      | None \<Rightarrow> (case check_per_type PerTypeElementCountMismatch expected_elements_per_type (tt_per_type_elements tb) of
        Some e \<Rightarrow> Some e
      | None \<Rightarrow>
        if sum_list (tt_per_type_elements tb) \<noteq> expected_total_elements
        then Some (TotalElementsMismatch expected_total_elements (sum_list (tt_per_type_elements tb)))
        else if of_nat (length bytes) \<noteq> pinned_file_size
        then Some (FileSizeMismatch pinned_file_size (of_nat (length bytes)))
        else let digest = gguf_sha256 bytes in
          if digest \<noteq> pinned_sha256 then Some (Sha256Mismatch (hex_lower pinned_sha256) (hex_lower digest)) else None))"

definition admit_end :: "bytes \<Rightarrow> u32 metadata_kv list \<Rightarrow> tensor_table \<Rightarrow> gguf_admission parser" where
  "admit_end bytes metadata tb cur = (case place_tensors (of_nat (length bytes)) (cu_pos cur) tb of
     Inl e \<Rightarrow> Some (Inl e)
   | Inr (data_offset, tensors) \<Rightarrow> (case check_identity bytes tb of
       Some e \<Rightarrow> Some (Inl e)
     | None \<Rightarrow> Some (Inr (\<lparr>ga_schema = contract_schema, ga_file_size = of_nat (length bytes),
         ga_sha256_hex = hex_lower pinned_sha256, ga_metadata = metadata, ga_tensors = tensors,
         ga_data_offset = data_offset, ga_data_len = tt_total_data_len tb\<rparr>, cur))))"

definition admit_body :: "bytes \<Rightarrow> gguf_admission parser" where
  "admit_body bytes =
     then_parse u32_le (\<lambda>magic. if magic \<noteq> gguf_magic then refused (InvalidMagic magic) else
     then_parse u32_le (\<lambda>version. if version \<noteq> gguf_version then refused (UnsupportedVersion version) else
     then_parse u64_le (\<lambda>tensor_count.
       if tensor_count \<noteq> expected_tensor_count then refused (TensorCountMismatch expected_tensor_count tensor_count) else
     then_parse u64_le (\<lambda>kv_count.
       if kv_count \<noteq> expected_kv_count then refused (MetadataKvCountMismatch expected_kv_count kv_count) else
     then_parse (read_metadata (unat kv_count) []) (\<lambda>metadata.
     then_parse (read_tensors (unat tensor_count) empty_table) (\<lambda>tb.
     admit_end bytes metadata tb))))))"

definition admit_gguf :: "bytes \<Rightarrow> (admission_error + gguf_admission) option" where
  "admit_gguf bytes = (case admit_body bytes \<lparr>cu_bytes = bytes, cu_pos = 0\<rparr> of
     None \<Rightarrow> None
   | Some (Inl e) \<Rightarrow> Some (Inl e)
   | Some (Inr (admission, cur)) \<Rightarrow> Some (Inr admission))"

text \<open>The size the file system reports and what reading the file gives are arguments.\<close>

definition admit_file :: "ustr + u64 \<Rightarrow> ustr + bytes \<Rightarrow> (admission_error + gguf_admission) option" where
  "admit_file len content = (case len of
     Inl err \<Rightarrow> Some (Inl (Io err))
   | Inr len \<Rightarrow>
       if len \<noteq> pinned_file_size then Some (Inl (FileSizeMismatch pinned_file_size len))
       else (case content of Inl err \<Rightarrow> Some (Inl (Io err)) | Inr bytes \<Rightarrow> admit_gguf bytes))"

end
