(* ===== verification/GgufProps.thy ===== *)
theory GgufProps
  imports Gguf
begin

text \<open>
  What the admission of \<open>src/gguf.rs\<close> guarantees: it never panics, its metadata are exactly the contract's,
  from which the tokenizer finds every fact it asks for, and its tensor ranges are aligned, in order and
  disjoint.
\<close>

named_theorems parse_simps

lemmas [parse_simps] = then_parse_def parsed_def refused_def

section \<open>No panic\<close>

definition no_panic :: "'a parser \<Rightarrow> bool" where
  "no_panic p \<longleftrightarrow> (\<forall>cur. p cur \<noteq> None)"

named_theorems calm

lemma no_panic_then: "no_panic p \<Longrightarrow> (\<And>x. no_panic (f x)) \<Longrightarrow> no_panic (then_parse p f)"
  by (auto simp: no_panic_def parse_simps split: option.split sum.split)

lemma no_panic_basic [calm]: "no_panic (parsed x)" "no_panic (refused e)" "no_panic (take_n n)"
  by (auto simp: no_panic_def parsed_def refused_def take_n_def split: option.split)

lemma no_panic_if [calm]: "no_panic p \<Longrightarrow> no_panic q \<Longrightarrow> no_panic (if b then p else q)"
  by simp

lemma no_panic_readers [calm]: "no_panic read_u8" "no_panic u32_le" "no_panic u64_le" "no_panic (text_of c bs)"
  by (auto simp: read_u8_def u32_le_def u64_le_def text_of_def intro!: no_panic_then calm split: option.split)

lemma no_panic_strings [calm]: "no_panic read_key" "no_panic (read_string k)" "no_panic read_tensor_name"
  by (auto simp: read_key_def read_string_def read_tensor_name_def intro!: no_panic_then calm)

lemma no_panic_repeat [calm]: "no_panic p \<Longrightarrow> no_panic (repeat_parse n p)"
  by (induction n) (auto intro!: no_panic_then calm)

lemma no_panic_arrays [calm]: "no_panic (parse_string_array k n)" "no_panic (parse_int32_array k n)"
  by (auto simp: parse_string_array_def parse_int32_array_def intro!: no_panic_then calm)

lemma no_panic_value [calm]: "no_panic (parse_kv_value k e)"
  by (auto simp: parse_kv_value_def intro!: no_panic_then calm split: expected_value.split)

section \<open>Decoding a text\<close>

lemma from_utf8_sound: "from_utf8 bs = Some cs \<Longrightarrow> utf8 cs = bs \<and> list_all is_scalar cs"
proof (induction bs arbitrary: cs rule: from_utf8.induct)
  case (2 b bs)
  let ?n = "lead_length b"
  from 2(2) obtain c ds where "c = char_at (b # bs) ?n" "is_scalar c" "utf8_char c = take ?n (b # bs)"
    "?n \<le> length (b # bs)" "from_utf8 (drop ?n (b # bs)) = Some ds" "cs = c # ds"
    by (auto simp: Let_def split: if_splits)
  with 2(1)[OF refl refl, of ds] show ?case by auto
qed simp

section \<open>A value and its contract\<close>

fun meets :: "expected_value \<Rightarrow> u32 metadata_value \<Rightarrow> bool" where
  "meets (StringValue s) v \<longleftrightarrow> v = MvString s"
| "meets (Uint32Value n) v \<longleftrightarrow> v = MvUint32 n"
| "meets (Int32Value n) v \<longleftrightarrow> v = MvInt32 n"
| "meets (Float32Value n) v \<longleftrightarrow> v = MvFloat32 n"
| "meets (BoolValue b) v \<longleftrightarrow> v = MvBool b"
| "meets (StringArrayValue ss) v \<longleftrightarrow> v = MvStringArray ss"
| "meets (StringArrayLen n) v \<longleftrightarrow> (\<exists>ss. v = MvStringArray ss \<and> length ss = unat n)"
| "meets (Int32ArrayLen n) v \<longleftrightarrow> (\<exists>ns. v = MvInt32Array ns \<and> length ns = unat n)"

lemma then_parse_Some:
  "then_parse p f cur = Some (Inr r) \<longleftrightarrow> (\<exists>x cur'. p cur = Some (Inr (x, cur')) \<and> f x cur' = Some (Inr r))"
  by (auto simp: then_parse_def split: option.split sum.split)

lemma parsed_Some: "parsed x cur = Some (Inr r) \<longleftrightarrow> r = (x, cur)"
  by (auto simp: parsed_def)

lemma refused_Some: "refused e cur \<noteq> Some (Inr r)" "(refused e cur = Some (Inr r)) = False"
  by (simp_all add: refused_def)

lemmas parse_iff = then_parse_Some parsed_Some refused_Some

lemma repeat_parse_length: "repeat_parse n p cur = Some (Inr (xs, cur')) \<Longrightarrow> length xs = n"
  by (induction n arbitrary: cur xs cur') (auto simp: parse_iff)

lemma string_array_length: "parse_string_array k n cur = Some (Inr (ss, cur')) \<Longrightarrow> length ss = unat n"
  by (auto simp: parse_string_array_def parse_iff refused_def dest: repeat_parse_length split: if_splits)

lemma int32_array_length: "parse_int32_array k n cur = Some (Inr (ss, cur')) \<Longrightarrow> length ss = unat n"
  by (auto simp: parse_int32_array_def parse_iff refused_def dest: repeat_parse_length split: if_splits)

text \<open>The parse-time tag fixes the shape that validation distinguishes.\<close>

lemma parsed_value_validates:
  assumes "parse_kv_value k e cur = Some (Inr (v, cur'))"
  shows "validate_kv_value k e v \<noteq> None" "validate_kv_value k e v = Some None \<Longrightarrow> meets e v"
  using assms
  by (cases e; auto simp: parse_kv_value_def parse_iff refused_def validate_kv_value_def
      dest: string_array_length int32_array_length split: if_splits)+

lemma contract_covers_keys: "list_all (\<lambda>k. k \<in> set (map fst contract_rows)) admitted_keys"
  by (simp add: admitted_keys_def contract_rows_def)

lemma expected_for_admitted: "k \<in> set admitted_keys \<Longrightarrow> expected_for_key k \<noteq> None"
  using contract_covers_keys by (auto simp: list_all_iff expected_for_key_def map_of_eq_None_iff)

lemma find_admitted: "find P xs = Some x \<Longrightarrow> P x \<and> x \<in> set xs"
  by (metis find_Some_iff nth_mem)

lemma no_panic_kv [calm]: "no_panic (read_kv seen)"
proof -
  have "(then_parse (parse_kv_value k e) (\<lambda>value. case validate_kv_value k e value of
      None \<Rightarrow> \<lambda>cur. None | Some None \<Rightarrow> parsed \<lparr>kv_key = k, kv_value = value\<rparr> | Some (Some x) \<Rightarrow> refused x)) cur \<noteq> None" for k e cur
    using no_panic_value[of k e] parsed_value_validates(1)[of k e cur]
    by (auto simp: then_parse_def parsed_def refused_def no_panic_def split: option.splits sum.splits)
  then show ?thesis
    unfolding read_kv_def
    by (intro no_panic_then calm) (auto simp: no_panic_def refused_def parsed_def dest!: find_admitted dest: expected_for_admitted
        split: option.split)
qed

lemma no_panic_metadata [calm]: "no_panic (read_metadata n kvs)"
  by (induction n arbitrary: kvs) (auto intro!: no_panic_then calm)

lemma no_panic_dims [calm]: "no_panic (read_dims name n dims elements)"
  by (induction n arbitrary: dims elements) (auto intro!: no_panic_then calm split: option.split)

lemma no_panic_tensor [calm]: "no_panic (read_tensor tb)"
  by (auto simp: read_tensor_def intro!: no_panic_then calm split: option.split sum.split)

lemma no_panic_tensors [calm]: "no_panic (read_tensors n tb)"
  by (induction n arbitrary: tb) (auto intro!: no_panic_then calm)

lemma no_panic_end [calm]: "no_panic (admit_end bytes metadata tb)"
  by (auto simp: no_panic_def admit_end_def split: sum.split option.split prod.split)

text \<open>C30: on every byte string the admission returns, with an admission or with a typed error: no slice,
  no lookup of a contracted value and no comparison of a value with its contract can panic.\<close>

theorem admission_never_panics: "admit_gguf bytes \<noteq> None"
proof -
  have "no_panic (admit_body bytes)"
    unfolding admit_body_def by (intro no_panic_then calm)
  then show ?thesis
    by (auto simp: admit_gguf_def no_panic_def split: option.split sum.split)
qed

section \<open>The metadata of an admitted file\<close>

definition contracted :: "u32 metadata_kv \<Rightarrow> bool" where
  "contracted kv \<longleftrightarrow> kv_key kv \<in> set admitted_keys \<and>
     (\<exists>e. expected_for_key (kv_key kv) = Some e \<and> meets e (kv_value kv))"

lemma read_kv_contracted:
  assumes "read_kv seen cur = Some (Inr (kv, cur'))"
  shows "contracted kv \<and> kv_key kv \<notin> set seen"
proof -
  let ?rest = "\<lambda>key e. then_parse (parse_kv_value key e) (\<lambda>value. case validate_kv_value key e value of
      None \<Rightarrow> \<lambda>cur. None | Some None \<Rightarrow> parsed \<lparr>kv_key = key, kv_value = value\<rparr> | Some (Some x) \<Rightarrow> refused x)"
  obtain "txt" cur1 where step: "(case find (\<lambda>k. lit k = txt) admitted_keys of None \<Rightarrow> refused (UnknownMetadataKey txt)
      | Some key \<Rightarrow> if key \<in> set seen then refused (DuplicateMetadataKey key)
          else case expected_for_key key of None \<Rightarrow> \<lambda>cur. None | Some e \<Rightarrow> ?rest key e) cur1 = Some (Inr (kv, cur'))"
    using assms unfolding read_kv_def then_parse_Some by blast
  obtain key where key: "find (\<lambda>k. lit k = txt) admitted_keys = Some key"
    using step by (cases "find (\<lambda>k. lit k = txt) admitted_keys") (simp_all add: refused_def)
  then have mem: "key \<in> set admitted_keys" using find_admitted by fast
  have unseen: "key \<notin> set seen" using step key by (auto simp: refused_def split: if_splits)
  obtain e where e: "expected_for_key key = Some e"
    using expected_for_admitted[OF mem] by blast
  have "?rest key e cur1 = Some (Inr (kv, cur'))" using step key unseen e by simp
  then obtain v cur2 where v: "parse_kv_value key e cur1 = Some (Inr (v, cur2))"
    "(case validate_kv_value key e v of None \<Rightarrow> \<lambda>cur. None | Some None \<Rightarrow> parsed \<lparr>kv_key = key, kv_value = v\<rparr>
      | Some (Some x) \<Rightarrow> refused x) cur2 = Some (Inr (kv, cur'))"
    unfolding then_parse_Some by blast
  then have "validate_kv_value key e v = Some None" "kv = \<lparr>kv_key = key, kv_value = v\<rparr>"
    by (auto simp: refused_def parsed_def split: option.splits)
  with parsed_value_validates(2)[OF v(1)] mem unseen e show ?thesis by (auto simp: contracted_def)
qed

lemma read_metadata_contracted:
  assumes "read_metadata n kvs cur = Some (Inr (kvs', cur'))" "distinct (map kv_key kvs)" "list_all contracted kvs"
  shows "length kvs' = length kvs + n \<and> distinct (map kv_key kvs') \<and> list_all contracted kvs'"
  using assms
proof (induction n arbitrary: kvs cur)
  case (Suc n)
  then obtain kv cur1 where "read_kv (map kv_key kvs) cur = Some (Inr (kv, cur1))"
    "read_metadata n (kvs @ [kv]) cur1 = Some (Inr (kvs', cur'))" by (auto simp: parse_iff)
  with Suc read_kv_contracted[of "map kv_key kvs" cur kv cur1] show ?case by fastforce
qed (auto simp: parse_iff)

definition contract_metadata :: "u32 metadata_kv list \<Rightarrow> bool" where
  "contract_metadata kvs \<longleftrightarrow> distinct (map kv_key kvs) \<and> set (map kv_key kvs) = set admitted_keys \<and> list_all contracted kvs"

lemma distinct_admitted_keys: "distinct admitted_keys"
  by (simp add: admitted_keys_def)

text \<open>Thirty-seven distinct admitted keys are all of them.\<close>

lemma admitted_metadata:
  assumes "read_metadata (unat expected_kv_count) [] cur = Some (Inr (kvs, cur'))"
  shows "contract_metadata kvs"
proof -
  have kvs: "length kvs = 37" "distinct (map kv_key kvs)" "list_all contracted kvs"
    using read_metadata_contracted[OF assms] by (simp_all add: expected_kv_count_def)
  have "set (map kv_key kvs) \<subseteq> set admitted_keys" using kvs(3) by (auto simp: list_all_iff contracted_def)
  moreover have "card (set (map kv_key kvs)) = card (set admitted_keys)"
    using kvs(1) distinct_card[OF kvs(2)] distinct_card[OF distinct_admitted_keys] by (simp add: admitted_keys_def)
  ultimately have "set (map kv_key kvs) = set admitted_keys" by (intro card_subset_eq) simp_all
  with kvs show ?thesis by (simp add: contract_metadata_def)
qed

lemma admit_end_Some:
  "admit_end bytes metadata tb cur = Some (Inr (A, cur')) \<Longrightarrow>
   ga_metadata A = metadata \<and> ga_data_len A = tt_total_data_len tb \<and> check_identity bytes tb = None \<and>
   place_tensors (of_nat (length bytes)) (cu_pos cur) tb = Inr (ga_data_offset A, ga_tensors A)"
  by (auto simp: admit_end_def split: sum.splits option.splits prod.splits)

text \<open>The stages of an admission.\<close>

lemma admission_stages:
  assumes "admit_gguf bytes = Some (Inr A)"
  obtains cur1 cur2 tb cur3 where
    "read_metadata (unat expected_kv_count) [] cur1 = Some (Inr (ga_metadata A, cur2))"
    "read_tensors (unat expected_tensor_count) empty_table cur2 = Some (Inr (tb, cur3))"
    "check_identity bytes tb = None" "ga_data_len A = tt_total_data_len tb"
    "place_tensors (of_nat (length bytes)) (cu_pos cur3) tb = Inr (ga_data_offset A, ga_tensors A)"
proof -
  obtain A' where "admit_body bytes \<lparr>cu_bytes = bytes, cu_pos = 0\<rparr> = Some (Inr (A, A'))"
    using assms by (auto simp: admit_gguf_def split: option.splits sum.splits)
  then show ?thesis
    using that
    by (auto simp: admit_body_def then_parse_Some refused_def dest!: admit_end_Some split: if_splits)
qed

section \<open>The tokenizer of an admitted file\<close>

lemma last_value_contract:
  assumes "contract_metadata kvs" "k \<in> set admitted_keys"
  shows "\<exists>v e. last_value k kvs = Some v \<and> expected_for_key k = Some e \<and> meets e v"
proof -
  have found: "last_value k xs \<noteq> None" if "k \<in> set (map kv_key xs)" for xs :: "u32 metadata_kv list"
    using that by (induction xs) (auto split: option.split)
  have meets: "last_value k xs = Some v \<Longrightarrow> list_all contracted xs \<Longrightarrow> \<exists>e. expected_for_key k = Some e \<and> meets e v"
    for xs :: "u32 metadata_kv list" and v
    by (induction xs) (auto simp: contracted_def split: option.splits if_splits)
  show ?thesis using found[of kvs] meets[of kvs] assms by (auto simp: contract_metadata_def)
qed

lemma last_value_absent: "contract_metadata kvs \<Longrightarrow> k \<notin> set admitted_keys \<Longrightarrow> last_value k kvs = None"
proof -
  assume "contract_metadata kvs" "k \<notin> set admitted_keys"
  then have "k \<notin> set (map kv_key kvs)" by (simp add: contract_metadata_def)
  then show ?thesis by (induction kvs) auto
qed

text \<open>The rows the tokenizer reads.\<close>

lemma tokenizer_rows:
  "expected_for_key ''tokenizer.ggml.model'' = Some (StringValue (lit ''gpt2''))"
  "expected_for_key ''tokenizer.ggml.pre'' = Some (StringValue (lit ''smollm''))"
  "expected_for_key ''tokenizer.ggml.tokens'' = Some (StringArrayLen expected_tokens)"
  "expected_for_key ''tokenizer.ggml.token_type'' = Some (Int32ArrayLen expected_token_type)"
  "expected_for_key ''tokenizer.ggml.merges'' = Some (StringArrayLen expected_merges)"
  "expected_for_key ''tokenizer.ggml.bos_token_id'' = Some (Uint32Value 1)"
  "expected_for_key ''tokenizer.ggml.eos_token_id'' = Some (Uint32Value 2)"
  "expected_for_key ''tokenizer.ggml.padding_token_id'' = Some (Uint32Value 2)"
  "expected_for_key ''tokenizer.ggml.unknown_token_id'' = Some (Uint32Value 0)"
  "expected_for_key ''tokenizer.ggml.add_bos_token'' = Some (BoolValue False)"
  "expected_for_key ''tokenizer.ggml.add_space_prefix'' = Some (BoolValue False)"
  by (simp_all add: expected_for_key_def contract_rows_def)

lemma tokenizer_keys:
  "list_all (\<lambda>k. k \<in> set admitted_keys)
     [''tokenizer.ggml.model'', ''tokenizer.ggml.pre'', ''tokenizer.ggml.tokens'', ''tokenizer.ggml.token_type'',
      ''tokenizer.ggml.merges'', ''tokenizer.ggml.bos_token_id'', ''tokenizer.ggml.eos_token_id'',
      ''tokenizer.ggml.padding_token_id'', ''tokenizer.ggml.unknown_token_id'', ''tokenizer.ggml.add_bos_token'',
      ''tokenizer.ggml.add_space_prefix''] \<and> ''tokenizer.ggml.scores'' \<notin> set admitted_keys"
  by (simp add: admitted_keys_def)

lemma required_contract:
  assumes "contract_metadata kvs" "k \<in> set admitted_keys" "expected_for_key k = Some e"
    "\<forall>v. meets e v \<longrightarrow> read v \<noteq> None"
  shows "\<exists>v x. required read k kvs = Inr x \<and> meets e v \<and> read v = Some x"
  using last_value_contract[OF assms(1,2)] assms(3,4) by (fastforce simp: required_def split: option.split)

lemma scan_tokens_error: "scan_tokens i ts m f = Inl e \<Longrightarrow> \<exists>j t. e = ByteBoundaryViolation j t"
  by (induction i ts m f rule: scan_tokens.induct) (auto simp: Let_def split: if_splits)

lemma scan_merges_error: "scan_merges i ms m = Inl e \<Longrightarrow> \<exists>j t. e = MalformedMergeString j t"
  by (induction i ms m rule: scan_merges.induct) (auto simp: Let_def split: if_splits option.splits)

text \<open>The facts an admission hands to the tokenizer.\<close>

lemma contract_facts:
  assumes "contract_metadata kvs"
  shows "\<exists>tfs. tokenizer_from_admission kvs = tokenizer_new tfs \<and> check_facts tfs = None \<and>
    length (tf_tokens tfs) = 49152 \<and> tf_bos_token_id tfs = 1 \<and> tf_eos_token_id tfs = 2 \<and>
    tf_pad_token_id tfs = 2 \<and> tf_unk_token_id tfs = 0"
proof -
  note rows = tokenizer_rows
  have key: "k \<in> set admitted_keys" if "k \<in> set [''tokenizer.ggml.model'', ''tokenizer.ggml.pre'',
      ''tokenizer.ggml.tokens'', ''tokenizer.ggml.token_type'', ''tokenizer.ggml.merges'', ''tokenizer.ggml.bos_token_id'',
      ''tokenizer.ggml.eos_token_id'', ''tokenizer.ggml.padding_token_id'', ''tokenizer.ggml.unknown_token_id'',
      ''tokenizer.ggml.add_bos_token'', ''tokenizer.ggml.add_space_prefix'']" for k
    using that tokenizer_keys by (auto simp: list_all_iff)
  note req = required_contract[OF assms key]
  have 1: "required str_of ''tokenizer.ggml.model'' kvs = Inr (lit ''gpt2'')"
    using req[OF _ rows(1), of str_of] by (auto simp: str_of_def)
  have 2: "required str_of ''tokenizer.ggml.pre'' kvs = Inr (lit ''smollm'')"
    using req[OF _ rows(2), of str_of] by (auto simp: str_of_def)
  have "\<exists>v x. required strings_of ''tokenizer.ggml.tokens'' kvs = Inr x \<and> meets (StringArrayLen expected_tokens) v \<and> strings_of v = Some x"
    by (rule req[OF _ rows(3)]) (auto simp: strings_of_def)
  then obtain tokens where 3: "required strings_of ''tokenizer.ggml.tokens'' kvs = Inr tokens" "length tokens = 49152"
    by (auto simp: strings_of_def expected_tokens_def)
  have "\<exists>v x. required int32s_of ''tokenizer.ggml.token_type'' kvs = Inr x \<and> meets (Int32ArrayLen expected_token_type) v \<and> int32s_of v = Some x"
    by (rule req[OF _ rows(4)]) (auto simp: int32s_of_def)
  then obtain types where 4: "required int32s_of ''tokenizer.ggml.token_type'' kvs = Inr types" "length types = 49152"
    by (auto simp: int32s_of_def expected_token_type_def)
  have "\<exists>v x. required strings_of ''tokenizer.ggml.merges'' kvs = Inr x \<and> meets (StringArrayLen Gguf.expected_merges) v \<and> strings_of v = Some x"
    by (rule req[OF _ rows(5)]) (auto simp: strings_of_def)
  then obtain merges where 5: "required strings_of ''tokenizer.ggml.merges'' kvs = Inr merges" "length merges = 48900"
    by (auto simp: strings_of_def Gguf.expected_merges_def)
  have 6: "required u32_of ''tokenizer.ggml.bos_token_id'' kvs = Inr 1"
    using req[OF _ rows(6), of u32_of] by (auto simp: u32_of_def)
  have 7: "required u32_of ''tokenizer.ggml.eos_token_id'' kvs = Inr 2"
    using req[OF _ rows(7), of u32_of] by (auto simp: u32_of_def)
  have 8: "required u32_of ''tokenizer.ggml.padding_token_id'' kvs = Inr 2"
    using req[OF _ rows(8), of u32_of] by (auto simp: u32_of_def)
  have 9: "required u32_of ''tokenizer.ggml.unknown_token_id'' kvs = Inr 0"
    using req[OF _ rows(9), of u32_of] by (auto simp: u32_of_def)
  have 10: "required bool_of ''tokenizer.ggml.add_bos_token'' kvs = Inr False"
    using req[OF _ rows(10), of bool_of] by (auto simp: bool_of_def)
  have 11: "required bool_of ''tokenizer.ggml.add_space_prefix'' kvs = Inr False"
    using req[OF _ rows(11), of bool_of] by (auto simp: bool_of_def)
  have scores: "last_value ''tokenizer.ggml.scores'' kvs = None"
    using last_value_absent[OF assms] tokenizer_keys by simp
  show ?thesis
    unfolding tokenizer_from_admission_def try_then_def 1 2 3(1) 4(1) 5(1) 6 7 8 9 10 11 sum.case scores
    by (intro exI conjI; (rule refl)?)
      (simp_all add: check_facts_def tokenizer_model_def tokenizer_pre_def 3 4 5 expected_vocab_size_def Tokenizer.expected_merges_def)
qed

text \<open>C32: the tokenizer built from the metadata of an admitted file finds every key it requires with the type
  it requires, and accepts the model, the pre-tokenizer, the counts and the special ids: it can only
  refuse a token or a merge by its own text, or a file with too many special tokens.\<close>

theorem admitted_metadata_suits_tokenizer:
  assumes "contract_metadata kvs"
  shows "(\<exists>tk. tokenizer_from_admission kvs = Inr tk) \<or>
    (\<exists>i t. tokenizer_from_admission kvs = Inl (ByteBoundaryViolation i t)) \<or>
    (\<exists>i t. tokenizer_from_admission kvs = Inl (MalformedMergeString i t)) \<or>
    tokenizer_from_admission kvs = Inl (ArithmeticOverflow ''special token cache ceiling'')"
proof -
  obtain tfs where tfs: "tokenizer_from_admission kvs = tokenizer_new tfs" "check_facts tfs = None"
    "length (tf_tokens tfs) = 49152" "tf_bos_token_id tfs = 1" "tf_eos_token_id tfs = 2" "tf_pad_token_id tfs = 2"
    "tf_unk_token_id tfs = 0" using contract_facts[OF assms] by blast
  have ids: "check_ids (length (tf_tokens tfs)) [tf_bos_token_id tfs, tf_eos_token_id tfs, tf_pad_token_id tfs,
      tf_unk_token_id tfs] = None"
    by (simp add: tfs)
  show ?thesis
    unfolding tfs(1) tokenizer_new_def tfs(2) Let_def ids
    by (auto dest: scan_tokens_error scan_merges_error split: sum.split prod.split)
qed

text \<open>Metadata that meet the contract, with the arrays at their contracted lengths.\<close>

fun sample_value :: "expected_value \<Rightarrow> u32 metadata_value" where
  "sample_value (StringValue s) = MvString s"
| "sample_value (Uint32Value n) = MvUint32 n"
| "sample_value (Int32Value n) = MvInt32 n"
| "sample_value (Float32Value n) = MvFloat32 n"
| "sample_value (BoolValue b) = MvBool b"
| "sample_value (StringArrayValue ss) = MvStringArray ss"
| "sample_value (StringArrayLen n) = MvStringArray (replicate (unat n) (lit ''a''))"
| "sample_value (Int32ArrayLen n) = MvInt32Array (replicate (unat n) 1)"

lemma sample_meets: "meets e (sample_value e)"
  by (cases e) auto

definition sample_metadata :: "u32 metadata_kv list" where
  "sample_metadata = map (\<lambda>k. \<lparr>kv_key = k, kv_value = sample_value (the (expected_for_key k))\<rparr>) admitted_keys"

lemma sample_contract: "contract_metadata sample_metadata"
  using expected_for_admitted distinct_admitted_keys
  by (fastforce simp: contract_metadata_def sample_metadata_def contracted_def comp_def list_all_iff sample_meets)

lemma admitted_metadata_suits_tokenizer_witness:
  "(\<exists>tk. tokenizer_from_admission sample_metadata = Inr tk) \<or>
   (\<exists>i t. tokenizer_from_admission sample_metadata = Inl (ByteBoundaryViolation i t)) \<or>
   (\<exists>i t. tokenizer_from_admission sample_metadata = Inl (MalformedMergeString i t)) \<or>
   tokenizer_from_admission sample_metadata = Inl (ArithmeticOverflow ''special token cache ceiling'')"
  by (rule admitted_metadata_suits_tokenizer[OF sample_contract])

section \<open>The tensor table\<close>

definition td_end :: "tensor_descriptor \<Rightarrow> nat" where
  "td_end t = unat (td_offset_in_data t) + unat (td_byte_len t)"

definition tensor_ok :: "tensor_descriptor \<Rightarrow> bool" where
  "tensor_ok t \<longleftrightarrow>
     td_dims t \<noteq> [] \<and> length (td_dims t) \<le> 2 \<and> list_all (\<lambda>d. d \<le> max_dim) (td_dims t) \<and>
     unat (td_element_count t) = prod_list (map unat (td_dims t)) \<and>
     unat (td_element_count t) = unat (td_blocks t) * unat (block_elements (td_ggml_type t)) \<and>
     unat (td_byte_len t) = unat (td_blocks t) * unat (block_bytes (td_ggml_type t)) \<and>
     32 dvd unat (td_offset_in_data t) \<and> td_end t < 2 ^ 64"

text \<open>Each range starts less than 32 bytes after the end of the one before, the first at 0.\<close>

fun ranges_follow :: "nat \<Rightarrow> tensor_descriptor list \<Rightarrow> bool" where
  "ranges_follow e [] \<longleftrightarrow> True"
| "ranges_follow e (t # ts) \<longleftrightarrow>
     e \<le> unat (td_offset_in_data t) \<and> unat (td_offset_in_data t) < e + 32 \<and> ranges_follow (td_end t) ts"

definition last_end :: "nat \<Rightarrow> tensor_descriptor list \<Rightarrow> nat" where
  "last_end e ts = (if ts = [] then e else td_end (last ts))"

lemma ranges_follow_snoc:
  "ranges_follow e (ts @ [t]) \<longleftrightarrow> ranges_follow e ts \<and> last_end e ts \<le> unat (td_offset_in_data t) \<and>
     unat (td_offset_in_data t) < last_end e ts + 32"
  by (induction e ts rule: ranges_follow.induct) (auto simp: last_end_def)

lemma ranges_follow_bound: "ranges_follow e ts \<Longrightarrow> t \<in> set ts \<Longrightarrow> e \<le> unat (td_offset_in_data t)"
  by (induction e ts rule: ranges_follow.induct) (force simp: td_end_def)+

lemma ranges_follow_disjoint:
  "ranges_follow e ts \<Longrightarrow> i < j \<Longrightarrow> j < length ts \<Longrightarrow> td_end (ts ! i) \<le> unat (td_offset_in_data (ts ! j))"
proof (induction e ts arbitrary: i j rule: ranges_follow.induct)
  case (2 e t ts)
  show ?case
  proof (cases i)
    case 0
    then show ?thesis using 2 ranges_follow_bound[of "td_end t" ts "ts ! (j - 1)"] by (cases j) auto
  next
    case (Suc i')
    then show ?thesis using 2 by (cases j) auto
  qed
qed simp

definition of_type :: "ggml_type \<Rightarrow> tensor_descriptor list \<Rightarrow> tensor_descriptor list" where
  "of_type ty ts = filter (\<lambda>t. td_ggml_type t = ty) ts"

definition table_ok :: "tensor_table \<Rightarrow> bool" where
  "table_ok tb \<longleftrightarrow> (let ts = tt_tensors tb in
     distinct (map td_name ts) \<and> list_all tensor_ok ts \<and> ranges_follow 0 ts \<and> unat (tt_prev_end tb) = last_end 0 ts \<and>
     unat (tt_total_data_len tb) = sum_list (map (\<lambda>t. unat (td_byte_len t)) ts) \<and>
     length (tt_per_type_count tb) = 5 \<and> length (tt_per_type_elements tb) = 5 \<and>
     (\<forall>ty. tt_per_type_count tb ! ggml_index ty = of_nat (length (of_type ty ts))) \<and>
     (\<forall>ty. unat (tt_per_type_elements tb ! ggml_index ty) = sum_list (map (\<lambda>t. unat (td_element_count t)) (of_type ty ts))))"

lemma ggml_index_less: "ggml_index ty < 5"
  by (cases ty) simp_all

lemma ggml_index_inj: "ggml_index ty = ggml_index ty' \<longleftrightarrow> ty = ty'"
  by (cases ty; cases ty') simp_all

lemma align_up_le:
  assumes "unat v \<le> unat (align_up v 32)"
  shows "unat (align_up v 32) < unat v + 32"
proof -
  have le: "align_up v 32 \<le> v + 31" by (simp add: align_up_def word_and_le2)
  show ?thesis
  proof (cases "unat v + 31 < 2 ^ 64")
    case True
    then have "unat (v + 31) = unat v + 31" by (simp add: unat_word_ariths)
    with le show ?thesis by (simp add: word_le_nat_alt)
  next
    case False
    have "unat v < 2 ^ 64" using unsigned_less[of v] by simp
    with False have "unat (v + 31) = unat v + 31 - 2 ^ 64"
      by (simp add: unat_word_ariths mod_if)
    with le assms False \<open>unat v < 2 ^ 64\<close> show ?thesis by (simp add: word_le_nat_alt)
  qed
qed

lemma of_type_snoc: "of_type ty (ts @ [t]) = of_type ty ts @ (if td_ggml_type t = ty then [t] else [])"
  by (simp add: of_type_def)

lemma last_end_snoc: "last_end e (ts @ [t]) = td_end t"
  by (simp add: last_end_def)

text \<open>What an accepted entry adds to the table.\<close>

lemma add_tensor_Inr:
  assumes "add_tensor name ty dims elements offset tb = Inr tb'"
  obtains t where "tt_tensors tb' = tt_tensors tb @ [t]" "td_name t = name" "td_ggml_type t = ty" "td_dims t = dims"
    "td_element_count t = elements" "td_offset_in_data t = offset" "td_blocks t = elements div block_elements ty"
    "checked_mul (elements div block_elements ty) (block_bytes ty) = Some (td_byte_len t)"
    "checked_add offset (td_byte_len t) = Some (tt_prev_end tb')"
    "checked_add (tt_total_data_len tb) (td_byte_len t) = Some (tt_total_data_len tb')"
    "offset mod 32 = 0" "elements mod block_elements ty = 0"
    "tt_prev_end tb \<le> offset" "offset = align_up (tt_prev_end tb) 32"
    "tt_per_type_count tb' = (tt_per_type_count tb)[ggml_index ty := tt_per_type_count tb ! ggml_index ty + 1]"
    "\<exists>x. checked_add (tt_per_type_elements tb ! ggml_index ty) elements = Some x \<and>
      tt_per_type_elements tb' = (tt_per_type_elements tb)[ggml_index ty := x]"
proof -
  obtain nbytes end' total' elems where
    "checked_mul (elements div block_elements ty) (block_bytes ty) = Some nbytes"
    "checked_add offset nbytes = Some end'" "checked_add (tt_total_data_len tb) nbytes = Some total'"
    "checked_add (tt_per_type_elements tb ! ggml_index ty) elements = Some elems"
    "offset mod 32 = 0" "elements mod block_elements ty = 0" "\<not> offset < tt_prev_end tb"
    "offset = align_up (tt_prev_end tb) 32"
    "tb' = tb\<lparr>tt_prev_end := end', tt_total_data_len := total',
            tt_per_type_count := (tt_per_type_count tb)[ggml_index ty := tt_per_type_count tb ! ggml_index ty + 1],
            tt_per_type_elements := (tt_per_type_elements tb)[ggml_index ty := elems],
            tt_tensors := tt_tensors tb @ [\<lparr>td_name = name, td_ggml_type = ty, td_dims = dims,
              td_element_count = elements, td_blocks = elements div block_elements ty, td_byte_len = nbytes,
              td_offset_in_data = offset, td_absolute_offset = 0\<rparr>]\<rparr>"
    using assms by (auto simp: add_tensor_def Let_def gguf_alignment_def split: if_splits option.splits)
  then show ?thesis by (intro that) auto
qed

lemma add_tensor_ok:
  assumes "add_tensor name ty dims elements offset tb = Inr tb'" "table_ok tb" "name \<notin> td_name ` set (tt_tensors tb)"
    "dims \<noteq> []" "length dims \<le> 2" "list_all (\<lambda>d. d \<le> max_dim) dims" "unat elements = prod_list (map unat dims)"
  shows "table_ok tb' \<and> length (tt_tensors tb') = Suc (length (tt_tensors tb))"
proof -
  obtain t where t: "tt_tensors tb' = tt_tensors tb @ [t]" "td_name t = name" "td_ggml_type t = ty" "td_dims t = dims"
    "td_element_count t = elements" "td_offset_in_data t = offset" "td_blocks t = elements div block_elements ty"
    and len: "checked_mul (elements div block_elements ty) (block_bytes ty) = Some (td_byte_len t)"
    and end': "checked_add offset (td_byte_len t) = Some (tt_prev_end tb')"
    and sum: "checked_add (tt_total_data_len tb) (td_byte_len t) = Some (tt_total_data_len tb')"
    and align: "offset mod 32 = 0" "elements mod block_elements ty = 0"
    and follow: "tt_prev_end tb \<le> offset" "offset = align_up (tt_prev_end tb) 32"
    and count': "tt_per_type_count tb' = (tt_per_type_count tb)[ggml_index ty := tt_per_type_count tb ! ggml_index ty + 1]"
    and elems: "\<exists>x. checked_add (tt_per_type_elements tb ! ggml_index ty) elements = Some x \<and>
      tt_per_type_elements tb' = (tt_per_type_elements tb)[ggml_index ty := x]"
    by (rule add_tensor_Inr[OF assms(1)])
  have "unat (offset mod 32) = 0" using align(1) by simp
  then have a: "32 dvd unat offset" by (simp add: unat_mod_distrib mod_eq_0_iff_dvd)
  have "unat elements mod unat (block_elements ty) = 0" using align(2) by (simp flip: unat_mod_distrib)
  then have b: "unat elements = unat (elements div block_elements ty) * unat (block_elements ty)"
    by (simp add: unat_div_distrib mod_eq_0_iff_dvd)
  have prev: "unat (tt_prev_end tb') < 2 ^ 64" using unsigned_less[of "tt_prev_end tb'"] by simp
  have e: "td_end t = unat (tt_prev_end tb')" "td_end t < 2 ^ 64"
    using end' t(6) prev by (auto simp: td_end_def checked_add_Some_iff)
  have c: "unat (td_byte_len t) = unat (elements div block_elements ty) * unat (block_bytes ty)"
    using len by (auto simp: checked_mul_Some_iff)
  have ok: "tensor_ok t"
    using assms(4-7) a b c e t by (simp add: tensor_ok_def)
  have pe: "unat (tt_prev_end tb) \<le> unat offset" using follow(1) by (simp add: word_le_nat_alt)
  then have near: "unat offset < unat (tt_prev_end tb) + 32"
    using align_up_le[of "tt_prev_end tb"] follow(2) by simp
  have tot: "unat (tt_total_data_len tb') = unat (tt_total_data_len tb) + unat (td_byte_len t)"
    using sum by (auto simp: checked_add_Some_iff)
  obtain x where x: "checked_add (tt_per_type_elements tb ! ggml_index ty) elements = Some x"
    "tt_per_type_elements tb' = (tt_per_type_elements tb)[ggml_index ty := x]" using elems by blast
  then have x2: "unat x = unat (tt_per_type_elements tb ! ggml_index ty) + unat elements"
    by (auto simp: checked_add_Some_iff)
  have counts: "tt_per_type_count tb' ! ggml_index ty' = of_nat (length (of_type ty' (tt_tensors tb')))" for ty'
    using assms(2) t(1,3) by (auto simp: table_ok_def Let_def count' of_type_snoc nth_list_update ggml_index_less ggml_index_inj)
  have elements: "unat (tt_per_type_elements tb' ! ggml_index ty') =
      sum_list (map (\<lambda>t. unat (td_element_count t)) (of_type ty' (tt_tensors tb')))" for ty'
    using assms(2) t(1,3,5) x2
    by (auto simp: table_ok_def Let_def x(2) of_type_snoc nth_list_update ggml_index_less ggml_index_inj)
  show ?thesis
    unfolding table_ok_def Let_def
  proof (intro conjI allI)
    show "distinct (map td_name (tt_tensors tb'))" using assms(2,3) t(1,2) by (auto simp: table_ok_def Let_def)
    show "list_all tensor_ok (tt_tensors tb')" using assms(2) t(1) ok by (simp add: table_ok_def Let_def)
    show "ranges_follow 0 (tt_tensors tb')"
      using assms(2) t(1,6) pe near by (simp add: table_ok_def Let_def ranges_follow_snoc)
    show "unat (tt_prev_end tb') = last_end 0 (tt_tensors tb')" using e t(1) by (simp add: last_end_snoc)
    show "unat (tt_total_data_len tb') = sum_list (map (\<lambda>t. unat (td_byte_len t)) (tt_tensors tb'))"
      using assms(2) tot t(1) by (simp add: table_ok_def Let_def)
    show "length (tt_per_type_count tb') = 5" "length (tt_per_type_elements tb') = 5"
      using assms(2) count' x(2) by (simp_all add: table_ok_def Let_def)
  qed (simp_all add: counts elements t(1))
qed

lemma empty_table_ok: "table_ok empty_table"
proof -
  have "[0, 0, 0, 0, 0 :: u64] ! ggml_index ty = 0" for ty by (cases ty) simp_all
  then show ?thesis by (simp add: table_ok_def empty_table_def last_end_def of_type_def)
qed

lemma read_dims_ok:
  assumes "read_dims name n dims elements cur = Some (Inr ((dims', elements'), cur'))"
    "list_all (\<lambda>d. d \<le> max_dim) dims" "unat elements = prod_list (map unat dims)"
  shows "length dims' = length dims + n \<and> list_all (\<lambda>d. d \<le> max_dim) dims' \<and> unat elements' = prod_list (map unat dims')"
  using assms
proof (induction n arbitrary: dims elements cur)
  case (Suc n)
  then obtain dim e cur1 where "dim \<le> max_dim" "checked_mul elements dim = Some e"
    "read_dims name n (dims @ [dim]) e cur1 = Some (Inr ((dims', elements'), cur'))"
    by (auto simp: parse_iff refused_def not_less split: if_splits option.splits)
  with Suc.IH[of "dims @ [dim]" e cur1] Suc.prems(2,3) show ?case
    by (auto simp: checked_mul_Some_iff)
qed (auto simp: parse_iff)

lemma sum_parse_iff:
  "(case r of Inl e \<Rightarrow> refused e | Inr x \<Rightarrow> parsed x) cur = Some (Inr y) \<longleftrightarrow> (\<exists>x. r = Inr x \<and> y = (x, cur))"
  by (auto simp: refused_def parsed_def split: sum.split)

lemma read_tensor_ok:
  assumes "read_tensor tb cur = Some (Inr (tb', cur'))" "table_ok tb"
  shows "table_ok tb' \<and> length (tt_tensors tb') = Suc (length (tt_tensors tb))"
proof -
  obtain name n_dims dims elements ty offset cur1 cur2 where
    "name \<notin> td_name ` set (tt_tensors tb)" "n_dims \<noteq> 0" "n_dims \<le> max_tensor_dims"
    "read_dims name (unat n_dims) [] 1 cur1 = Some (Inr ((dims, elements), cur2))"
    "add_tensor name ty dims elements offset tb = Inr tb'"
    using assms(1)
    by (auto simp: read_tensor_def parse_iff sum_parse_iff refused_def not_less split: if_splits option.splits)
  moreover from this have "length dims = unat n_dims" "list_all (\<lambda>d. d \<le> max_dim) dims" "unat elements = prod_list (map unat dims)"
    using read_dims_ok[of name "unat n_dims" "[]" 1 cur1 dims elements cur2] by auto
  moreover have "unat n_dims \<le> 2" using \<open>n_dims \<le> max_tensor_dims\<close> by (simp add: max_tensor_dims_def word_le_nat_alt)
  moreover have "dims \<noteq> []" using \<open>n_dims \<noteq> 0\<close> \<open>length dims = unat n_dims\<close> by (auto simp: unat_eq_0)
  ultimately show ?thesis using add_tensor_ok[of name ty dims elements offset tb tb'] assms(2) by auto
qed

lemma read_tensors_ok:
  "read_tensors n tb cur = Some (Inr (tb', cur')) \<Longrightarrow> table_ok tb \<Longrightarrow>
   table_ok tb' \<and> length (tt_tensors tb') = length (tt_tensors tb) + n"
proof (induction n arbitrary: tb cur)
  case (Suc n)
  then obtain tb1 cur1 where 1: "read_tensor tb cur = Some (Inr (tb1, cur1))"
    "read_tensors n tb1 cur1 = Some (Inr (tb', cur'))" by (auto simp: parse_iff)
  from read_tensor_ok[OF 1(1) Suc.prems(2)] Suc.IH[OF 1(2)] show ?case by simp
qed (auto simp: parse_iff)

text \<open>C31: in a tensor table that was read without an error the tensors have distinct names, each has one or
  two dimensions below the ceiling whose product is its element count, a whole number of blocks and the
  byte length of those blocks, and the byte ranges are aligned, in table order and disjoint, with fewer
  than 32 bytes between neighbours; the totals are the sums over the table.\<close>

theorem tensor_table_sound:
  assumes "read_tensors n empty_table cur = Some (Inr (tb, cur'))"
  shows "length (tt_tensors tb) = n \<and> distinct (map td_name (tt_tensors tb)) \<and> list_all tensor_ok (tt_tensors tb) \<and>
    ranges_follow 0 (tt_tensors tb) \<and>
    (\<forall>i j. i < j \<and> j < n \<longrightarrow> td_end (tt_tensors tb ! i) \<le> unat (td_offset_in_data (tt_tensors tb ! j))) \<and>
    unat (tt_total_data_len tb) = sum_list (map (\<lambda>t. unat (td_byte_len t)) (tt_tensors tb)) \<and>
    (\<forall>ty. unat (tt_per_type_elements tb ! ggml_index ty) =
       sum_list (map (\<lambda>t. unat (td_element_count t)) (of_type ty (tt_tensors tb))))"
proof -
  have "table_ok tb" "length (tt_tensors tb) = n"
    using read_tensors_ok[OF assms empty_table_ok] by (simp_all add: empty_table_def)
  then show ?thesis using ranges_follow_disjoint by (auto simp: table_ok_def Let_def)
qed

text \<open>Two tensors of one \<open>f32\<close> element each: the second starts at 32, so the region takes 36 bytes.\<close>

definition sample_table_bytes :: bytes where
  "sample_table_bytes =
     [1, 0, 0, 0, 0, 0, 0, 0, 97, 1, 0, 0, 0, 1, 0, 0, 0, 0, 0, 0, 0, 0, 0, 0, 0, 0, 0, 0, 0, 0, 0, 0, 0,
      1, 0, 0, 0, 0, 0, 0, 0, 98, 1, 0, 0, 0, 1, 0, 0, 0, 0, 0, 0, 0, 0, 0, 0, 0, 32, 0, 0, 0, 0, 0, 0, 0]"

definition sample_tensor :: "nat \<Rightarrow> u64 \<Rightarrow> tensor_descriptor" where
  "sample_tensor name offset = \<lparr>td_name = [name], td_ggml_type = F32, td_dims = [1], td_element_count = 1, td_blocks = 1,
     td_byte_len = 4, td_offset_in_data = offset, td_absolute_offset = 0\<rparr>"

definition sample_table :: tensor_table where
  "sample_table = \<lparr>tt_tensors = [sample_tensor 97 0, sample_tensor 98 32], tt_per_type_count = [2, 0, 0, 0, 0],
     tt_per_type_elements = [2, 0, 0, 0, 0], tt_total_data_len = 8, tt_prev_end = 36\<rparr>"

definition first_table :: tensor_table where
  "first_table = \<lparr>tt_tensors = [sample_tensor 97 0], tt_per_type_count = [1, 0, 0, 0, 0],
     tt_per_type_elements = [1, 0, 0, 0, 0], tt_total_data_len = 4, tt_prev_end = 4\<rparr>"

lemma sample_adds:
  "add_tensor [97] F32 [1] 1 0 empty_table = Inr first_table"
  "add_tensor [98] F32 [1] 1 32 first_table = Inr sample_table"
  by (simp_all add: add_tensor_def gguf_alignment_def checked_add_def checked_mul_def align_up_def first_table_def
      sample_table_def sample_tensor_def empty_table_def Let_def)

lemma sample_texts: "text_of c [97] cur = Some (Inr ([97], cur))" "text_of c [98] cur = Some (Inr ([98], cur))"
  by (simp_all add: text_of_def parsed_def char_at_def lead_length_def is_scalar_def utf8_char_def Let_def)

lemmas sample_readers = u32_le_def u64_le_def parse_simps take_n_def checked_add_def sample_table_bytes_def

definition at :: "u64 \<Rightarrow> cursor" where
  "at n = \<lparr>cu_bytes = sample_table_bytes, cu_pos = n\<rparr>"

lemma sample_ints:
  "u64_le (at 0) = Some (Inr (1, at 8))" "u32_le (at 9) = Some (Inr (1, at 13))" "u64_le (at 13) = Some (Inr (1, at 21))"
  "u32_le (at 21) = Some (Inr (0, at 25))" "u64_le (at 25) = Some (Inr (0, at 33))" "u64_le (at 33) = Some (Inr (1, at 41))"
  "u32_le (at 42) = Some (Inr (1, at 46))" "u64_le (at 46) = Some (Inr (1, at 54))" "u32_le (at 54) = Some (Inr (0, at 58))"
  "u64_le (at 58) = Some (Inr (32, at 66))"
  "take_n 1 (at 8) = Some (Inr ([97], at 9))" "take_n 1 (at 41) = Some (Inr ([98], at 42))"
  by (simp_all add: at_def sample_readers)

lemma sample_table_read: "read_tensors 2 empty_table (at 0) = Some (Inr (sample_table, at 66))"
proof -
  have dims: "read_dims name (Suc 0) [] 1 cur = Some (Inr (([1], 1), cur'))" if "u64_le cur = Some (Inr (1, cur'))" for name cur cur'
    using that by (simp add: then_parse_def max_dim_def checked_mul_def parsed_def)
  have 1: "read_tensor empty_table (at 0) = Some (Inr (first_table, at 33))"
    by (simp add: read_tensor_def read_tensor_name_def then_parse_def parsed_def max_tensor_name_bytes_def max_tensor_dims_def
        sample_ints sample_texts dims ggml_from_id_def sample_adds empty_table_def del: read_dims.simps)
      (simp add: empty_table_def[symmetric] sample_adds parsed_def)
  have 2: "read_tensor first_table (at 33) = Some (Inr (sample_table, at 66))"
    by (simp add: read_tensor_def read_tensor_name_def then_parse_def parsed_def max_tensor_name_bytes_def max_tensor_dims_def
        sample_ints sample_texts dims ggml_from_id_def sample_adds del: read_dims.simps)
      (simp add: first_table_def sample_tensor_def)
  show ?thesis by (simp add: numeral_2_eq_2 then_parse_def 1 2 parsed_def)
qed

lemma tensor_table_sound_witness:
  "distinct (map td_name (tt_tensors sample_table)) \<and> ranges_follow 0 (tt_tensors sample_table)"
  using tensor_table_sound[OF sample_table_read] by blast

text \<open>The bounds check of the region adds up the byte lengths and leaves out the padding between the ranges:
  it accepts a file that ends before the last tensor does. Only the digest of the pinned file excludes it.\<close>

lemma bounds_check_ignores_padding:
  "case place_tensors 128 96 sample_table of Inl e \<Rightarrow> False
   | Inr (data_offset, ts) \<Rightarrow> data_offset = 96 \<and> td_absolute_offset (ts ! 1) = 128 \<and> td_byte_len (ts ! 1) = 4"
  by (simp add: place_tensors_def gguf_alignment_def checked_add_def align_up_def sample_table_def sample_tensor_def Let_def)

end
