(* ===== verification/Tensors.thy ===== *)
theory Tensors
  imports Prelude
begin

text \<open>
  The dense tensor of \<open>src/tensor.rs\<close>: a shared buffer behind an \<open>Arc\<close>, a shape, the row-major strides and
  an offset. The buffers live in an explicit store, a list indexed by address, so that a slice and the tensor
  it was taken from, or a tensor and its shallow clone, name the same address; every operation that allocates
  returns the store with one more buffer. \<open>usize\<close> is a natural number with its checked, saturating and
  wrapping arithmetic written out; an \<open>i64\<close> argument is a word. The outer \<open>None\<close> of a result is a panic. The
  element type, its default, its arithmetic and its size are arguments, as is the element count of the
  external contract crate.
\<close>

section \<open>Sizes\<close>

definition usize_range :: nat where
  "usize_range = 2 ^ 64"

definition usize_checked_mul :: "nat \<Rightarrow> nat \<Rightarrow> nat option" where
  "usize_checked_mul a b = (if a * b < usize_range then Some (a * b) else None)"

definition usize_checked_add :: "nat \<Rightarrow> nat \<Rightarrow> nat option" where
  "usize_checked_add a b = (if a + b < usize_range then Some (a + b) else None)"

definition usize_saturating_mul :: "nat \<Rightarrow> nat \<Rightarrow> nat" where
  "usize_saturating_mul a b = min (a * b) (usize_range - 1)"

datatype tensor_error =
    NegativeDim | NegativeIndex | NegativeSlice | InvalidSliceRange | IndexOutOfBounds
  | ElementCountOverflow | StructaElementCount | FormaReshapeCount
  | TransposeRank | PermuteRank | PermuteNegativeAxis | PermuteAxisOutOfRange | PermuteDuplicateAxis
  | BroadcastShape | MatmulReceiverRank | MatmulArgumentRank | MatmulInnerDimension

definition parse_non_negative :: "i64 \<Rightarrow> tensor_error \<Rightarrow> tensor_error + nat" where
  "parse_non_negative value message = (if sint value < 0 then Inl message else Inr (unat value))"

fun parse_all :: "tensor_error \<Rightarrow> i64 list \<Rightarrow> tensor_error + nat list" where
  "parse_all message [] = Inr []"
| "parse_all message (v # vs) = (case parse_non_negative v message of
     Inl e \<Rightarrow> Inl e
   | Inr n \<Rightarrow> (case parse_all message vs of Inl e \<Rightarrow> Inl e | Inr ns \<Rightarrow> Inr (n # ns)))"

definition shape_dims :: "i64 list \<Rightarrow> tensor_error + nat list" where
  "shape_dims shape = parse_all NegativeDim shape"

definition index_dims :: "i64 list \<Rightarrow> tensor_error + nat list" where
  "index_dims indices = parse_all NegativeIndex indices"

definition slice_bounds :: "i64 \<Rightarrow> i64 \<Rightarrow> tensor_error + nat \<times> nat" where
  "slice_bounds start end' = (case parse_non_negative start NegativeSlice of
     Inl e \<Rightarrow> Inl e
   | Inr a \<Rightarrow> (case parse_non_negative end' NegativeSlice of
       Inl e \<Rightarrow> Inl e
     | Inr b \<Rightarrow> if b < a then Inl InvalidSliceRange else Inr (a, b)))"

fun checked_count_from :: "nat \<Rightarrow> nat list \<Rightarrow> nat option" where
  "checked_count_from acc [] = Some acc"
| "checked_count_from acc (dim # dims) = (case usize_checked_mul acc dim of
     None \<Rightarrow> None
   | Some acc \<Rightarrow> checked_count_from acc dims)"

definition checked_element_count_usize :: "nat list \<Rightarrow> nat option" where
  "checked_element_count_usize shape = checked_count_from 1 shape"

definition checked_allocation_count :: "nat \<Rightarrow> nat list \<Rightarrow> tensor_error + nat" where
  "checked_allocation_count element_size shape = (case checked_element_count_usize shape of
     None \<Rightarrow> Inl ElementCountOverflow
   | Some n \<Rightarrow>
       if element_size \<noteq> 0 \<and> n > (2 ^ 63 - 1) div element_size then Inl ElementCountOverflow else Inr n)"

definition shape_dims_and_count :: "nat \<Rightarrow> i64 list \<Rightarrow> tensor_error + nat list \<times> nat" where
  "shape_dims_and_count element_size shape = (case shape_dims shape of
     Inl e \<Rightarrow> Inl e
   | Inr dims \<Rightarrow> (case checked_allocation_count element_size dims of Inl e \<Rightarrow> Inl e | Inr n \<Rightarrow> Inr (dims, n)))"

text \<open>The loops over \<open>shape.iter().enumerate().rev()\<close>: the state is the running product, or what is left of
  the ordinal; the list is filled from its last entry.\<close>

definition row_major_strides :: "nat list \<Rightarrow> nat list" where
  "row_major_strides shape =
     fst (foldr (\<lambda>dim (strides, next). (next # strides, usize_saturating_mul next dim)) shape ([], 1))"

text \<open>\<open>ordinal % dim\<close> panics for an empty axis.\<close>

definition unravel_index :: "nat \<Rightarrow> nat list \<Rightarrow> nat list option" where
  "unravel_index ordinal shape =
     (if 0 \<in> set shape then None
      else Some (fst (foldr (\<lambda>dim (index, ordinal). (ordinal mod dim # index, ordinal div dim)) shape ([], ordinal))))"

section \<open>The tensor\<close>

type_synonym 'a buffers = "'a list list"

record tensor =
  tn_data :: nat
  tn_shape :: "nat list"
  tn_strides :: "nat list"
  tn_offset :: nat
  tn_view :: bool

definition from_contiguous :: "'a list \<Rightarrow> nat list \<Rightarrow> 'a buffers \<Rightarrow> tensor \<times> 'a buffers" where
  "from_contiguous data shape bufs =
     (\<lparr>tn_data = length bufs, tn_shape = shape, tn_strides = row_major_strides shape, tn_offset = 0, tn_view = False\<rparr>,
      bufs @ [data])"

definition is_view :: "tensor \<Rightarrow> bool" where
  "is_view t = tn_view t"

definition linea :: "'a list \<Rightarrow> 'a buffers \<Rightarrow> tensor \<times> 'a buffers" where
  "linea data bufs = from_contiguous data [length data] bufs"

definition vacua :: "'a \<Rightarrow> 'a buffers \<Rightarrow> tensor \<times> 'a buffers" where
  "vacua dflt bufs = from_contiguous [dflt] [] bufs"

definition longitudo :: "tensor \<Rightarrow> i64" where
  "longitudo t = of_nat (length (tn_shape t))"

definition magnitudines :: "tensor \<Rightarrow> i64 list" where
  "magnitudines t = map of_nat (tn_shape t)"

text \<open>\<open>expect\<close>: \<open>None\<close> is the panic.\<close>

definition element_count :: "tensor \<Rightarrow> nat option" where
  "element_count t = checked_element_count_usize (tn_shape t)"

definition crea :: "nat \<Rightarrow> i64 list \<Rightarrow> 'a \<Rightarrow> 'a buffers \<Rightarrow> tensor_error + tensor \<times> 'a buffers" where
  "crea element_size shape fill bufs = (case shape_dims_and_count element_size shape of
     Inl e \<Rightarrow> Inl e
   | Inr (dims, n) \<Rightarrow> Inr (from_contiguous (replicate n fill) dims bufs))"

type_synonym shape_count = "i64 list \<Rightarrow> nat option"

definition tensor_shape_has_element_count :: "shape_count \<Rightarrow> i64 list \<Rightarrow> nat \<Rightarrow> bool" where
  "tensor_shape_has_element_count count_of shape actual \<longleftrightarrow> count_of shape = Some actual"

definition structa :: "shape_count \<Rightarrow> 'a list \<Rightarrow> i64 list \<Rightarrow> 'a buffers \<Rightarrow> tensor_error + tensor \<times> 'a buffers" where
  "structa count_of data shape bufs = (case shape_dims shape of
     Inl e \<Rightarrow> Inl e
   | Inr dims \<Rightarrow>
       if \<not> tensor_shape_has_element_count count_of shape (length data) then Inl StructaElementCount
       else Inr (from_contiguous data dims bufs))"

section \<open>Addressing\<close>

fun offset_from :: "nat \<Rightarrow> nat list \<Rightarrow> nat list \<Rightarrow> nat list \<Rightarrow> nat option" where
  "offset_from offset (idx # index) (dim # dims) (stride # strides) =
     (if dim \<le> idx then None
      else case usize_checked_mul idx stride of
        None \<Rightarrow> None
      | Some step \<Rightarrow> (case usize_checked_add offset step of
          None \<Rightarrow> None
        | Some offset \<Rightarrow> offset_from offset index dims strides))"
| "offset_from offset _ _ _ = Some offset"

definition offset_for_index :: "tensor \<Rightarrow> nat list \<Rightarrow> nat option" where
  "offset_for_index t index =
     (if length index \<noteq> length (tn_shape t) then None
      else offset_from (tn_offset t) index (tn_shape t) (tn_strides t))"

text \<open>The unchecked sum; a release build wraps.\<close>

definition logical_offset_for_index :: "tensor \<Rightarrow> nat list \<Rightarrow> nat" where
  "logical_offset_for_index t index =
     (tn_offset t + sum_list (map2 (*) index (tn_strides t))) mod usize_range"

definition logical_offsets :: "tensor \<Rightarrow> nat list option" where
  "logical_offsets t = (case element_count t of
     None \<Rightarrow> None
   | Some n \<Rightarrow>
       those (map (\<lambda>ordinal. map_option (logical_offset_for_index t) (unravel_index ordinal (tn_shape t))) [0..<n]))"

text \<open>\<open>data[offset]\<close> and \<open>data[offset] = value\<close>.\<close>

definition at_index :: "'a list \<Rightarrow> nat \<Rightarrow> 'a option" where
  "at_index data offset = (if offset < length data then Some (data ! offset) else None)"

definition tensor_data :: "'a buffers \<Rightarrow> tensor \<Rightarrow> 'a list" where
  "tensor_data bufs t = bufs ! tn_data t"

definition value_at_logical :: "'a buffers \<Rightarrow> tensor \<Rightarrow> nat list \<Rightarrow> 'a option" where
  "value_at_logical bufs t index = at_index (tensor_data bufs t) (logical_offset_for_index t index)"

definition planata :: "'a buffers \<Rightarrow> tensor \<Rightarrow> 'a list option" where
  "planata bufs t = (case logical_offsets t of
     None \<Rightarrow> None
   | Some offsets \<Rightarrow> those (map (at_index (tensor_data bufs t)) offsets))"

definition accipe :: "'a buffers \<Rightarrow> tensor \<Rightarrow> i64 list \<Rightarrow> tensor_error + 'a option" where
  "accipe bufs t indices = (case index_dims indices of
     Inl e \<Rightarrow> Inl e
   | Inr index \<Rightarrow> (case offset_for_index t index of
       None \<Rightarrow> Inr None
     | Some offset \<Rightarrow> Inr (at_index (tensor_data bufs t) offset)))"

definition ponde :: "tensor \<Rightarrow> i64 list \<Rightarrow> 'a \<Rightarrow> 'a buffers \<Rightarrow> (tensor_error + 'a buffers) option" where
  "ponde t indices value bufs = (case index_dims indices of
     Inl e \<Rightarrow> Some (Inl e)
   | Inr index \<Rightarrow> (case offset_for_index t index of
       None \<Rightarrow> Some (Inl IndexOutOfBounds)
     | Some offset \<Rightarrow>
         if offset < length (tensor_data bufs t)
         then Some (Inr (bufs[tn_data t := (tensor_data bufs t)[offset := value]]))
         else None))"

fun fill_offsets :: "nat list \<Rightarrow> 'a \<Rightarrow> 'a list \<Rightarrow> 'a list option" where
  "fill_offsets [] value data = Some data"
| "fill_offsets (offset # offsets) value data =
     (if offset < length data then fill_offsets offsets value (data[offset := value]) else None)"

definition reple :: "tensor \<Rightarrow> 'a \<Rightarrow> 'a buffers \<Rightarrow> 'a buffers option" where
  "reple t value bufs = (case logical_offsets t of
     None \<Rightarrow> None
   | Some offsets \<Rightarrow>
       map_option (\<lambda>data. bufs[tn_data t := data]) (fill_offsets offsets value (tensor_data bufs t)))"

section \<open>Reshaping\<close>

definition forma :: "shape_count \<Rightarrow> tensor \<Rightarrow> i64 list \<Rightarrow> 'a buffers \<Rightarrow> (tensor_error + tensor \<times> 'a buffers) option" where
  "forma count_of t shape bufs = (case shape_dims shape of
     Inl e \<Rightarrow> Some (Inl e)
   | Inr dims \<Rightarrow> (case element_count t of
       None \<Rightarrow> None
     | Some n \<Rightarrow>
         if \<not> tensor_shape_has_element_count count_of shape n then Some (Inl FormaReshapeCount)
         else map_option (\<lambda>data. Inr (from_contiguous data dims bufs)) (planata bufs t)))"

text \<open>The elements of the result may have another type, so it lives in another store.\<close>

definition convert_elements :: "('a \<Rightarrow> 'b) \<Rightarrow> 'a buffers \<Rightarrow> tensor \<Rightarrow> 'b buffers \<Rightarrow> (tensor \<times> 'b buffers) option" where
  "convert_elements f bufs t bufs' = map_option (\<lambda>data. from_contiguous (map f data) (tn_shape t) bufs') (planata bufs t)"

definition sectio :: "tensor \<Rightarrow> i64 \<Rightarrow> i64 \<Rightarrow> (tensor_error + tensor) option" where
  "sectio t start end' = (case slice_bounds start end' of
     Inl e \<Rightarrow> Some (Inl e)
   | Inr (a, b) \<Rightarrow>
       if tn_shape t = [] \<or> b > tn_shape t ! 0 then Some (Inl IndexOutOfBounds)
       else if tn_strides t = [] then None
       else Some (Inr (t\<lparr>tn_shape := (tn_shape t)[0 := b - a],
              tn_offset := (tn_offset t + a * tn_strides t ! 0) mod usize_range, tn_view := True\<rparr>)))"

definition materialize :: "tensor \<Rightarrow> 'a buffers \<Rightarrow> (tensor \<times> 'a buffers) option" where
  "materialize t bufs = map_option (\<lambda>data. from_contiguous data (tn_shape t) bufs) (planata bufs t)"

definition transpose_rank2 :: "nat \<Rightarrow> tensor \<Rightarrow> 'a buffers \<Rightarrow> (tensor_error + tensor \<times> 'a buffers) option" where
  "transpose_rank2 element_size t bufs =
     (if length (tn_shape t) \<noteq> 2 then Some (Inl TransposeRank)
      else let rows = tn_shape t ! 0; cols = tn_shape t ! 1 in
        case checked_allocation_count element_size [cols, rows] of
          Inl e \<Rightarrow> Some (Inl e)
        | Inr _ \<Rightarrow>
            map_option (\<lambda>data. Inr (from_contiguous data [cols, rows] bufs))
              (those (concat (map (\<lambda>col. map (\<lambda>row. value_at_logical bufs t [row, col]) [0..<rows]) [0..<cols]))))"

fun permute_axes_loop :: "nat \<Rightarrow> i64 list \<Rightarrow> bool list \<Rightarrow> nat list \<Rightarrow> tensor_error + nat list" where
  "permute_axes_loop rank [] seen parsed = Inr parsed"
| "permute_axes_loop rank (axis # axes) seen parsed = (case parse_non_negative axis PermuteNegativeAxis of
     Inl e \<Rightarrow> Inl e
   | Inr a \<Rightarrow>
       if rank \<le> a then Inl PermuteAxisOutOfRange
       else if seen ! a then Inl PermuteDuplicateAxis
       else permute_axes_loop rank axes (seen[a := True]) (parsed @ [a]))"

definition permute_axes :: "i64 list \<Rightarrow> nat \<Rightarrow> tensor_error + nat list" where
  "permute_axes axes rank =
     (if length axes \<noteq> rank then Inl PermuteRank else permute_axes_loop rank axes (replicate rank False) [])"

definition permuted_index :: "nat list \<Rightarrow> nat \<Rightarrow> nat list \<Rightarrow> nat list" where
  "permuted_index axes rank output_index =
     foldl (\<lambda>input_index (output_axis, input_axis). input_index[input_axis := output_index ! output_axis])
       (replicate rank 0) (enumerate 0 axes)"

definition permute :: "nat \<Rightarrow> tensor \<Rightarrow> i64 list \<Rightarrow> 'a buffers \<Rightarrow> (tensor_error + tensor \<times> 'a buffers) option" where
  "permute element_size t axes bufs = (case permute_axes axes (length (tn_shape t)) of
     Inl e \<Rightarrow> Some (Inl e)
   | Inr axes \<Rightarrow>
       let shape = map (\<lambda>axis. tn_shape t ! axis) axes in
       case checked_allocation_count element_size shape of
         Inl e \<Rightarrow> Some (Inl e)
       | Inr n \<Rightarrow>
           map_option (\<lambda>data. Inr (from_contiguous data shape bufs))
             (those (map (\<lambda>ordinal. case unravel_index ordinal shape of
                 None \<Rightarrow> None
               | Some output_index \<Rightarrow>
                   value_at_logical bufs t (permuted_index axes (length (tn_shape t)) output_index)) [0..<n])))"

section \<open>Arithmetic\<close>

definition broadcast_dim :: "nat list \<Rightarrow> nat \<Rightarrow> nat \<Rightarrow> nat" where
  "broadcast_dim shape rank axis =
     (let pad = rank - length shape in if axis < pad then 1 else shape ! (axis - pad))"

fun broadcast_axes :: "nat list \<Rightarrow> nat list \<Rightarrow> nat \<Rightarrow> nat list \<Rightarrow> tensor_error + nat list" where
  "broadcast_axes lhs rhs rank [] = Inr []"
| "broadcast_axes lhs rhs rank (axis # axes) =
     (let lhs_dim = broadcast_dim lhs rank axis; rhs_dim = broadcast_dim rhs rank axis in
      case (if lhs_dim = rhs_dim then Some lhs_dim
            else if lhs_dim = 1 then Some rhs_dim
            else if rhs_dim = 1 then Some lhs_dim
            else None) of
        None \<Rightarrow> Inl BroadcastShape
      | Some dim \<Rightarrow> (case broadcast_axes lhs rhs rank axes of Inl e \<Rightarrow> Inl e | Inr shape \<Rightarrow> Inr (dim # shape)))"

definition broadcast_shape :: "nat list \<Rightarrow> nat list \<Rightarrow> tensor_error + nat list" where
  "broadcast_shape lhs rhs =
     (let rank = max (length lhs) (length rhs) in broadcast_axes lhs rhs rank [0..<rank])"

definition broadcast_index :: "nat list \<Rightarrow> nat list \<Rightarrow> nat list" where
  "broadcast_index index shape =
     (let pad = length index - length shape in
      map (\<lambda>axis. if shape ! axis = 1 then 0 else index ! (axis + pad)) [0..<length shape])"

definition tensor_elementwise ::
  "nat \<Rightarrow> ('a \<Rightarrow> 'a \<Rightarrow> 'a) \<Rightarrow> tensor \<Rightarrow> tensor \<Rightarrow> 'a buffers \<Rightarrow> (tensor_error + tensor \<times> 'a buffers) option" where
  "tensor_elementwise element_size f lhs rhs bufs = (case broadcast_shape (tn_shape lhs) (tn_shape rhs) of
     Inl e \<Rightarrow> Some (Inl e)
   | Inr shape \<Rightarrow> (case checked_allocation_count element_size shape of
       Inl e \<Rightarrow> Some (Inl e)
     | Inr n \<Rightarrow>
         map_option (\<lambda>data. Inr (from_contiguous data shape bufs))
           (those (map (\<lambda>ordinal. case unravel_index ordinal shape of
               None \<Rightarrow> None
             | Some index \<Rightarrow>
                 (case value_at_logical bufs lhs (broadcast_index index (tn_shape lhs)) of
                    None \<Rightarrow> None
                  | Some a \<Rightarrow>
                      map_option (f a) (value_at_logical bufs rhs (broadcast_index index (tn_shape rhs))))) [0..<n]))))"

text \<open>\<open>+\<close>, \<open>-\<close> and \<open>*\<close> of the element type are arguments.\<close>

definition addita ::
  "nat \<Rightarrow> ('a \<Rightarrow> 'a \<Rightarrow> 'a) \<Rightarrow> tensor \<Rightarrow> tensor \<Rightarrow> 'a buffers \<Rightarrow> (tensor_error + tensor \<times> 'a buffers) option" where
  "addita element_size add lhs rhs bufs = tensor_elementwise element_size (\<lambda>lhs rhs. add lhs rhs) lhs rhs bufs"

definition subtrahe ::
  "nat \<Rightarrow> ('a \<Rightarrow> 'a \<Rightarrow> 'a) \<Rightarrow> tensor \<Rightarrow> tensor \<Rightarrow> 'a buffers \<Rightarrow> (tensor_error + tensor \<times> 'a buffers) option" where
  "subtrahe element_size sub lhs rhs bufs = tensor_elementwise element_size (\<lambda>lhs rhs. sub lhs rhs) lhs rhs bufs"

definition multiplica ::
  "nat \<Rightarrow> ('a \<Rightarrow> 'a \<Rightarrow> 'a) \<Rightarrow> tensor \<Rightarrow> tensor \<Rightarrow> 'a buffers \<Rightarrow> (tensor_error + tensor \<times> 'a buffers) option" where
  "multiplica element_size mul lhs rhs bufs = tensor_elementwise element_size (\<lambda>lhs rhs. mul lhs rhs) lhs rhs bufs"

definition summa :: "('a \<Rightarrow> 'a \<Rightarrow> 'a) \<Rightarrow> 'a \<Rightarrow> 'a buffers \<Rightarrow> tensor \<Rightarrow> 'a option" where
  "summa add dflt bufs t = map_option (foldl add dflt) (planata bufs t)"

fun contract_loop ::
  "('a \<Rightarrow> 'a \<Rightarrow> 'a) \<Rightarrow> ('a \<Rightarrow> 'a \<Rightarrow> 'a) \<Rightarrow> 'a buffers \<Rightarrow> tensor \<Rightarrow> tensor \<Rightarrow> nat \<Rightarrow> nat \<Rightarrow> 'a \<Rightarrow> nat list \<Rightarrow> 'a option" where
  "contract_loop add mul bufs lhs rhs i j acc [] = Some acc"
| "contract_loop add mul bufs lhs rhs i j acc (k # ks) = (case value_at_logical bufs lhs [i, k] of
     None \<Rightarrow> None
   | Some a \<Rightarrow> (case value_at_logical bufs rhs [k, j] of
       None \<Rightarrow> None
     | Some b \<Rightarrow> contract_loop add mul bufs lhs rhs i j (add acc (mul a b)) ks))"

definition matmul ::
  "nat \<Rightarrow> ('a \<Rightarrow> 'a \<Rightarrow> 'a) \<Rightarrow> ('a \<Rightarrow> 'a \<Rightarrow> 'a) \<Rightarrow> 'a \<Rightarrow> tensor \<Rightarrow> tensor \<Rightarrow> 'a buffers \<Rightarrow>
   (tensor_error + tensor \<times> 'a buffers) option" where
  "matmul element_size add mul dflt lhs rhs bufs =
     (if length (tn_shape lhs) \<noteq> 2 then Some (Inl MatmulReceiverRank)
      else if length (tn_shape rhs) \<noteq> 2 then Some (Inl MatmulArgumentRank)
      else let m = tn_shape lhs ! 0; k1 = tn_shape lhs ! 1; k2 = tn_shape rhs ! 0; n = tn_shape rhs ! 1 in
        if k1 \<noteq> k2 then Some (Inl MatmulInnerDimension)
        else case checked_allocation_count element_size [m, n] of
          Inl e \<Rightarrow> Some (Inl e)
        | Inr _ \<Rightarrow>
            map_option (\<lambda>data. Inr (from_contiguous data [m, n] bufs))
              (those (concat (map (\<lambda>i. map (\<lambda>j. contract_loop add mul bufs lhs rhs i j dflt [0..<k1]) [0..<n]) [0..<m]))))"

end
