(* ===== verification/TensorLemmas.thy ===== *)
theory TensorLemmas
  imports Tensors
begin

text \<open>
  The arithmetic behind the tensors: the row-major number of an index and its inverse, the strides without
  their saturation, the window of the buffer that a tensor reads and writes, and what the basic operations do
  to it. Every tensor of a program is such a window, slices included, so that each operation becomes one on
  lists of elements.
\<close>

section \<open>Row-major numbering\<close>

fun flat_index :: "nat list \<Rightarrow> nat list \<Rightarrow> nat" where
  "flat_index (dim # dims) (i # is) = i * prod_list dims + flat_index dims is"
| "flat_index _ _ = 0"

fun coords :: "nat list \<Rightarrow> nat \<Rightarrow> nat list" where
  "coords [] n = []"
| "coords (dim # dims) n = (n div prod_list dims) mod dim # coords dims n"

definition index_in :: "nat list \<Rightarrow> nat list \<Rightarrow> bool" where
  "index_in shape index \<longleftrightarrow> list_all2 (<) index shape"

lemma index_in_simps [simp]:
  "index_in [] index \<longleftrightarrow> index = []"
  "index_in (dim # dims) index \<longleftrightarrow> (\<exists>i is. index = i # is \<and> i < dim \<and> index_in dims is)"
  by (auto simp: index_in_def list_all2_Cons2)

lemma index_in_length: "index_in shape index \<Longrightarrow> length index = length shape"
  by (simp add: index_in_def list_all2_lengthD)

lemma index_in_nth: "index_in shape index \<longleftrightarrow> length index = length shape \<and> (\<forall>k < length shape. index ! k < shape ! k)"
  by (auto simp: index_in_def list_all2_conv_all_nth)

lemma index_in_pos: "index_in shape index \<Longrightarrow> 0 \<notin> set shape"
  by (auto simp: index_in_nth in_set_conv_nth)

lemma factor_less: "a * b < n \<Longrightarrow> 0 < a \<Longrightarrow> b < n" for a b n :: nat
  by (rule le_less_trans[of b "a * b"]) simp_all

lemma prod_list_pos: "0 \<notin> set shape \<Longrightarrow> 0 < prod_list shape" for shape :: "nat list"
  by (induction shape) auto

lemma flat_index_less: "index_in shape index \<Longrightarrow> flat_index shape index < prod_list shape"
proof (induction shape arbitrary: index)
  case (Cons dim dims)
  then obtain i "is" where is_: "index = i # is" "i < dim" "index_in dims is" by auto
  have "i * prod_list dims + flat_index dims is < Suc i * prod_list dims" using Cons.IH[OF is_(3)] by simp
  also have "\<dots> \<le> dim * prod_list dims" using is_(2) by (intro mult_le_mono1) simp
  finally show ?case using is_ by simp
qed simp

lemma length_coords [simp]: "length (coords shape n) = length shape"
  by (induction shape) simp_all

lemma index_in_coords: "0 \<notin> set shape \<Longrightarrow> index_in shape (coords shape n)"
  by (induction shape) auto

lemma flat_index_coords: "flat_index shape (coords shape n) = n mod prod_list shape"
proof (induction shape)
  case (Cons dim dims)
  then show ?case using mod_mult2_eq[of n "prod_list dims" dim] by (simp add: mult.commute)
qed simp

lemma coords_add: "coords shape (n + k * prod_list shape) = coords shape n"
proof (induction shape arbitrary: k)
  case (Cons dim dims)
  have "coords dims (n + k * (dim * prod_list dims)) = coords dims n"
    using Cons[of "k * dim"] by (simp add: mult.assoc)
  moreover have "(n + k * (dim * prod_list dims)) div prod_list dims mod dim = n div prod_list dims mod dim"
  proof (cases "prod_list dims = 0")
    case False
    have "(n + k * (dim * prod_list dims)) div prod_list dims = n div prod_list dims + k * dim"
      using False div_mult_self1[of "prod_list dims" n "k * dim"] by (simp add: mult.assoc)
    then show ?thesis by simp
  qed simp
  ultimately show ?case by simp
qed simp

lemma coords_flat_index: "index_in shape index \<Longrightarrow> coords shape (flat_index shape index) = index"
proof (induction shape arbitrary: index)
  case (Cons dim dims)
  then obtain i "is" where is_: "index = i # is" "i < dim" "index_in dims is" by auto
  have f: "flat_index dims is < prod_list dims" using is_(3) by (rule flat_index_less)
  then have "(i * prod_list dims + flat_index dims is) div prod_list dims = i" by simp
  moreover have "coords dims (i * prod_list dims + flat_index dims is) = is"
    using Cons.IH[OF is_(3)] coords_add[of dims "flat_index dims is" i] by (simp add: add.commute)
  ultimately show ?case using is_ by simp
qed simp

lemma flat_index_inj:
  "index_in shape a \<Longrightarrow> index_in shape b \<Longrightarrow> flat_index shape a = flat_index shape b \<longleftrightarrow> a = b"
  by (metis coords_flat_index)

text \<open>The elements of a box in row-major order are a function of the index.\<close>

lemma flat_cases:
  assumes "k < prod_list shape"
  obtains index where "index_in shape index" "flat_index shape index = k" "coords shape k = index"
proof -
  have "0 \<notin> set shape" using assms prod_list_zero_iff[of shape] by (metis not_less_zero)
  then have "index_in shape (coords shape k)" by (rule index_in_coords)
  moreover have "flat_index shape (coords shape k) = k" using assms by (simp add: flat_index_coords)
  ultimately show ?thesis using that by blast
qed

lemma unravel_index_coords: "unravel_index n shape = (if 0 \<in> set shape then None else Some (coords shape n))"
proof -
  have "foldr (\<lambda>dim (index, ordinal). (ordinal mod dim # index, ordinal div dim)) shape ([], n) =
    (coords shape n, n div prod_list shape)"
    by (induction shape) (simp_all add: div_mult2_eq[symmetric] mult.commute)
  then show ?thesis by (simp add: unravel_index_def)
qed

section \<open>Counts and strides\<close>

lemma checked_count_from_Some: "checked_count_from acc dims = Some n \<Longrightarrow> n = acc * prod_list dims"
  proof (induction dims arbitrary: acc)
  case (Cons dim dims)
  then have "n = acc * dim * prod_list dims" by (auto simp: usize_checked_mul_def split: if_splits)
  then show ?case by (simp add: mult.assoc)
qed simp

lemma checked_count_Some: "checked_element_count_usize shape = Some n \<Longrightarrow> n = prod_list shape"
  using checked_count_from_Some[of 1 shape n] by (simp add: checked_element_count_usize_def)

lemma checked_count_from_less:
  "checked_count_from acc dims = Some n \<Longrightarrow> acc < usize_range \<Longrightarrow> n < usize_range"
  by (induction dims arbitrary: acc) (auto simp: usize_checked_mul_def split: if_splits)

lemma checked_count_less: "checked_element_count_usize shape = Some n \<Longrightarrow> n < usize_range"
  unfolding checked_element_count_usize_def
  by (erule checked_count_from_less) (simp add: usize_range_def)

text \<open>The count of a shape without empty axes never overflows when the product does not; a shape that begins
  with a shorter first axis has a count when the longer one has.\<close>

lemma checked_count_from_mono:
  "checked_count_from acc dims = Some n \<Longrightarrow> acc' \<le> acc \<Longrightarrow> \<exists>n'. checked_count_from acc' dims = Some n'"
proof (induction dims arbitrary: acc acc')
  case (Cons dim dims)
  then have fits: "acc * dim < usize_range" and rest: "checked_count_from (acc * dim) dims = Some n"
    by (auto simp: usize_checked_mul_def split: if_splits)
  have le: "acc' * dim \<le> acc * dim" using Cons.prems(2) by simp
  have "acc' * dim < usize_range" using fits le by (rule le_less_trans[rotated])
  with Cons.IH[OF rest le] show ?case by (simp add: usize_checked_mul_def)
qed simp

lemma checked_count_first_axis:
  assumes "checked_element_count_usize (dim # dims) = Some n" "dim' \<le> dim"
  shows "\<exists>n'. checked_element_count_usize (dim' # dims) = Some n'"
proof -
  have "dim < usize_range" "checked_count_from dim dims = Some n"
    using assms(1) by (auto simp: checked_element_count_usize_def usize_checked_mul_def split: if_splits)
  with checked_count_from_mono[of dim dims n dim'] assms(2) show ?thesis
    by (auto simp: checked_element_count_usize_def usize_checked_mul_def)
qed

lemma checked_count_pos:
  assumes "0 \<notin> set shape" "prod_list shape < usize_range"
  shows "checked_element_count_usize shape = Some (prod_list shape)"
proof -
  have "checked_count_from acc shape = Some (acc * prod_list shape)" if "acc * prod_list shape < usize_range" for acc
    using assms(1) that
  proof (induction shape arbitrary: acc)
    case (Cons dim dims)
    have "0 < prod_list dims" using Cons.prems(1) prod_list_pos[of dims] by simp
    then have "acc * dim < usize_range"
      using Cons.prems(2) factor_less[of "prod_list dims" "acc * dim"] by (simp add: ac_simps)
    with Cons show ?case by (simp add: usize_checked_mul_def mult.assoc)
  qed simp
  from this[of 1] assms(2) show ?thesis by (simp add: checked_element_count_usize_def)
qed

definition saturated_product :: "nat list \<Rightarrow> nat" where
  "saturated_product shape = foldr (\<lambda>dim next. usize_saturating_mul next dim) shape 1"

lemma row_major_strides_simps [simp]:
  "row_major_strides [] = []"
  "row_major_strides (dim # dims) = saturated_product dims # row_major_strides dims"
proof -
  have "snd (foldr (\<lambda>dim (strides, next). (next # strides, usize_saturating_mul next dim)) dims ([], 1)) =
    saturated_product dims"
    by (induction dims) (simp_all add: saturated_product_def case_prod_unfold)
  then show "row_major_strides (dim # dims) = saturated_product dims # row_major_strides dims"
    by (simp add: row_major_strides_def case_prod_unfold)
qed (simp add: row_major_strides_def)

lemma length_row_major_strides [simp]: "length (row_major_strides shape) = length shape"
  by (induction shape) simp_all

lemma saturated_product_zero: "0 \<in> set shape \<Longrightarrow> saturated_product shape = 0"
  by (induction shape) (auto simp: saturated_product_def usize_saturating_mul_def)

lemma saturated_product_exact:
  "0 \<notin> set shape \<Longrightarrow> prod_list shape < usize_range \<Longrightarrow> saturated_product shape = prod_list shape"
proof (induction shape)
  case (Cons dim dims)
  have "prod_list dims < usize_range" using Cons.prems factor_less[of dim "prod_list dims"] by simp
  with Cons have "saturated_product dims = prod_list dims" by simp
  with Cons.prems(2) show ?case
    by (simp add: saturated_product_def usize_saturating_mul_def mult.commute[of _ dim] usize_range_def)
qed (simp add: saturated_product_def)

text \<open>Advancing the first axis never leaves the box.\<close>

lemma first_stride_bound:
  assumes "checked_element_count_usize (dim # dims) = Some n" "a \<le> dim"
  shows "a * saturated_product dims = a * prod_list dims"
proof (cases "a = 0 \<or> 0 \<in> set dims")
  case True
  then show ?thesis by (auto simp: saturated_product_zero prod_list_zero_iff)
next
  case False
  have "dim * prod_list dims < usize_range"
    using checked_count_Some[OF assms(1)] checked_count_less[OF assms(1)] by simp
  then have "prod_list dims < usize_range" using False assms(2) factor_less[of dim "prod_list dims"] by simp
  then show ?thesis using False by (simp add: saturated_product_exact)
qed

lemma strides_flat_index:
  "index_in shape index \<Longrightarrow> prod_list shape < usize_range \<Longrightarrow>
   sum_list (map2 (*) index (row_major_strides shape)) = flat_index shape index"
proof (induction shape arbitrary: index)
  case (Cons dim dims)
  then obtain i "is" where is_: "index = i # is" "i < dim" "index_in dims is" by auto
  have "prod_list dims < usize_range" using Cons.prems(2) is_(2) factor_less[of dim "prod_list dims"] by simp
  with Cons.IH[OF is_(3)] is_ index_in_pos[OF is_(3)] show ?case by (simp add: saturated_product_exact)
qed simp

section \<open>Windows\<close>

definition store_ok :: "'a buffers \<Rightarrow> bool" where
  "store_ok bufs \<longleftrightarrow> (\<forall>b \<in> set bufs. length b < usize_range)"

definition tensor_ok :: "'a buffers \<Rightarrow> tensor \<Rightarrow> bool" where
  "tensor_ok bufs t \<longleftrightarrow> tn_data t < length bufs \<and> tn_strides t = row_major_strides (tn_shape t) \<and>
     (\<exists>n. checked_element_count_usize (tn_shape t) = Some n) \<and>
     tn_offset t + prod_list (tn_shape t) \<le> length (tensor_data bufs t)"

definition elements :: "'a buffers \<Rightarrow> tensor \<Rightarrow> 'a list" where
  "elements bufs t = take (prod_list (tn_shape t)) (drop (tn_offset t) (tensor_data bufs t))"

lemma tensor_ok_count:
  "tensor_ok bufs t \<Longrightarrow> element_count t = Some (prod_list (tn_shape t)) \<and> prod_list (tn_shape t) < usize_range"
  using checked_count_Some checked_count_less by (fastforce simp: tensor_ok_def element_count_def)

lemma length_elements: "tensor_ok bufs t \<Longrightarrow> length (elements bufs t) = prod_list (tn_shape t)"
  by (auto simp: tensor_ok_def elements_def)

lemma store_okD: "store_ok bufs \<Longrightarrow> tensor_ok bufs t \<Longrightarrow> length (tensor_data bufs t) < usize_range"
  by (auto simp: store_ok_def tensor_ok_def tensor_data_def)

lemma elements_nth:
  "tensor_ok bufs t \<Longrightarrow> k < prod_list (tn_shape t) \<Longrightarrow>
   elements bufs t ! k = tensor_data bufs t ! (tn_offset t + k) \<and> tn_offset t + k < length (tensor_data bufs t)"
  by (auto simp: tensor_ok_def elements_def)

lemma logical_offset_in:
  assumes "store_ok bufs" "tensor_ok bufs t" "index_in (tn_shape t) index"
  shows "logical_offset_for_index t index = tn_offset t + flat_index (tn_shape t) index"
proof -
  have "tn_offset t + flat_index (tn_shape t) index < length (tensor_data bufs t)"
    using elements_nth[OF assms(2) flat_index_less[OF assms(3)]] by simp
  then have "tn_offset t + flat_index (tn_shape t) index < usize_range" using store_okD[OF assms(1,2)] by simp
  then show ?thesis
    using assms(2,3) tensor_ok_count[OF assms(2)] strides_flat_index[OF assms(3)]
    by (simp add: logical_offset_for_index_def tensor_ok_def)
qed

lemma value_at_in:
  assumes "store_ok bufs" "tensor_ok bufs t" "index_in (tn_shape t) index"
  shows "value_at_logical bufs t index = Some (elements bufs t ! flat_index (tn_shape t) index)"
  using elements_nth[OF assms(2) flat_index_less[OF assms(3)]]
  by (simp add: value_at_logical_def logical_offset_in[OF assms] at_index_def)

lemma those_map: "\<forall>x \<in> set xs. f x = Some (g x) \<Longrightarrow> those (map f xs) = Some (map g xs)"
  by (induction xs) auto

lemma unravel_index_in: "n < prod_list shape \<Longrightarrow> unravel_index n shape = Some (coords shape n)"
  using prod_list_zero_iff[of shape] by (auto simp: unravel_index_coords)

lemma logical_offsets_ok:
  assumes "store_ok bufs" "tensor_ok bufs t"
  shows "logical_offsets t = Some (map ((+) (tn_offset t)) [0..<prod_list (tn_shape t)])"
proof -
  have "map_option (logical_offset_for_index t) (unravel_index k (tn_shape t)) = Some (tn_offset t + k)"
    if "k < prod_list (tn_shape t)" for k
    using that logical_offset_in[OF assms] by (auto elim!: flat_cases simp: unravel_index_in)
  then show ?thesis
    using tensor_ok_count[OF assms(2)] by (simp add: logical_offsets_def those_map[where g = "(+) (tn_offset t)"])
qed

lemma planata_ok:
  assumes "store_ok bufs" "tensor_ok bufs t"
  shows "planata bufs t = Some (elements bufs t)"
proof -
  have "those (map (at_index (tensor_data bufs t)) (map ((+) (tn_offset t)) [0..<prod_list (tn_shape t)])) =
    Some (map ((!) (elements bufs t)) [0..<prod_list (tn_shape t)])"
    using elements_nth[OF assms(2)] by (simp add: those_map at_index_def comp_def)
  also have "map ((!) (elements bufs t)) [0..<prod_list (tn_shape t)] = elements bufs t"
    using length_elements[OF assms(2)] by (metis map_nth)
  finally show ?thesis by (simp add: planata_def logical_offsets_ok[OF assms])
qed

text \<open>Checked addressing: the offset of an index of the box, \<open>None\<close> outside it.\<close>

lemma offset_from_in:
  "index_in shape index \<Longrightarrow> offset + flat_index shape index < usize_range \<Longrightarrow> prod_list shape < usize_range \<Longrightarrow>
   offset_from offset index shape (row_major_strides shape) = Some (offset + flat_index shape index)"
proof (induction shape arbitrary: index offset)
  case (Cons dim dims)
  then obtain i "is" where is_: "index = i # is" "i < dim" "index_in dims is" by auto
  have p: "prod_list dims < usize_range" using Cons.prems(3) is_(2) factor_less[of dim "prod_list dims"] by simp
  with index_in_pos[OF is_(3)] have "saturated_product dims = prod_list dims" by (simp add: saturated_product_exact)
  with Cons.IH[OF is_(3) _ p, of "offset + i * prod_list dims"] Cons.prems(2) is_ show ?case
    by (simp add: usize_checked_mul_def usize_checked_add_def)
qed simp

lemma offset_from_out:
  "length index = length shape \<Longrightarrow> \<not> index_in shape index \<Longrightarrow>
   offset_from offset index shape (row_major_strides shape) = None"
proof (induction shape arbitrary: index offset)
  case (Cons dim dims)
  then obtain i "is" where "index = i # is" "length is = length dims" by (cases index) auto
  with Cons show ?case by (auto split: option.split)
qed simp

lemma offset_for_index_ok:
  assumes "store_ok bufs" "tensor_ok bufs t"
  shows "offset_for_index t index =
    (if index_in (tn_shape t) index then Some (tn_offset t + flat_index (tn_shape t) index) else None)"
proof (cases "index_in (tn_shape t) index")
  case True
  have "tn_offset t + flat_index (tn_shape t) index < usize_range"
    using elements_nth[OF assms(2) flat_index_less[OF True]] store_okD[OF assms] by simp
  with True assms(2) tensor_ok_count[OF assms(2)] show ?thesis
    by (simp add: offset_for_index_def index_in_length tensor_ok_def offset_from_in)
next
  case False
  with assms(2) show ?thesis by (simp add: offset_for_index_def tensor_ok_def offset_from_out)
qed

section \<open>Allocation\<close>

definition extends :: "'a buffers \<Rightarrow> 'a buffers \<Rightarrow> bool" where
  "extends bufs bufs' \<longleftrightarrow> (\<exists>new. bufs' = bufs @ new)"

lemma extends_tensor:
  assumes "extends bufs bufs'" "tensor_ok bufs t"
  shows "tensor_ok bufs' t \<and> elements bufs' t = elements bufs t"
  using assms by (auto simp: extends_def tensor_ok_def elements_def tensor_data_def nth_append)

text \<open>A fresh buffer with as many elements as its shape holds.\<close>

definition fresh_tensor :: "'a buffers \<Rightarrow> 'a list \<Rightarrow> nat list \<Rightarrow> tensor \<Rightarrow> 'a buffers \<Rightarrow> bool" where
  "fresh_tensor bufs data shape t bufs' \<longleftrightarrow> extends bufs bufs' \<and> tensor_ok bufs' t \<and> store_ok bufs' \<and>
     tn_shape t = shape \<and> elements bufs' t = data \<and> tn_data t = length bufs \<and> \<not> tn_view t"

lemma from_contiguous_fresh:
  assumes "store_ok bufs" "checked_element_count_usize shape = Some (length data)"
    "from_contiguous data shape bufs = (t, bufs')"
  shows "fresh_tensor bufs data shape t bufs'"
  using assms checked_count_Some[OF assms(2)] checked_count_less[OF assms(2)]
  by (auto simp: from_contiguous_def fresh_tensor_def extends_def tensor_ok_def elements_def tensor_data_def store_ok_def)

end
