(* ===== verification/TensorProps.thy ===== *)
theory TensorProps
  imports TensorLemmas
begin

text \<open>
  What the tensor operations compute, as functions from indices to elements: reading and writing through
  aliases, permuting, broadcasting, contracting; and that no program of tensor operations panics.
\<close>

section \<open>Tensors as functions of the index\<close>

definition tabulate :: "nat list \<Rightarrow> (nat list \<Rightarrow> 'a) \<Rightarrow> 'a list" where
  "tabulate shape f = map (\<lambda>k. f (coords shape k)) [0..<prod_list shape]"

definition entry :: "'a buffers \<Rightarrow> tensor \<Rightarrow> nat list \<Rightarrow> 'a" where
  "entry bufs t index = elements bufs t ! flat_index (tn_shape t) index"

lemma length_tabulate [simp]: "length (tabulate shape f) = prod_list shape"
  by (simp add: tabulate_def)

lemma tabulate_nth: "index_in shape index \<Longrightarrow> tabulate shape f ! flat_index shape index = f index"
  using flat_index_less[of shape index] by (simp add: tabulate_def coords_flat_index)

lemma tabulate_cong: "(\<And>index. index_in shape index \<Longrightarrow> f index = g index) \<Longrightarrow> tabulate shape f = tabulate shape g"
  by (auto simp: tabulate_def elim!: flat_cases)

lemma elements_tabulate: "tensor_ok bufs t \<Longrightarrow> elements bufs t = tabulate (tn_shape t) (entry bufs t)"
  by (rule nth_equalityI) (auto simp: length_elements tabulate_def entry_def flat_index_coords)

lemma value_at_entry:
  "store_ok bufs \<Longrightarrow> tensor_ok bufs t \<Longrightarrow> index_in (tn_shape t) index \<Longrightarrow>
   value_at_logical bufs t index = Some (entry bufs t index)"
  by (simp add: value_at_in entry_def)

lemma coords_Cons:
  "i < dim \<Longrightarrow> k < prod_list dims \<Longrightarrow> coords (dim # dims) (i * prod_list dims + k) = i # coords dims k"
  using coords_add[of dims k i] by (simp add: add.commute)

lemma upt_blocks: "[0..<m * n] = concat (map (\<lambda>i. map ((+) (i * n)) [0..<n]) [0..<m])"
proof (induction m)
  case (Suc m)
  have "[0..<Suc m * n] = [0..<m * n] @ [m * n..<m * n + n]" using upt_add_eq_append[of 0 "m * n" n] by (simp add: add.commute)
  also have "[m * n..<m * n + n] = map ((+) (m * n)) [0..<n]" by (rule nth_equalityI) simp_all
  finally show ?case using Suc by simp
qed simp

lemma tabulate_Cons:
  "tabulate (dim # dims) f = concat (map (\<lambda>i. tabulate dims (\<lambda>is. f (i # is))) [0..<dim])"
proof -
  have "tabulate (dim # dims) f =
    concat (map (\<lambda>i. map (\<lambda>k. f (coords (dim # dims) (i * prod_list dims + k))) [0..<prod_list dims]) [0..<dim])"
    unfolding tabulate_def prod_list.Cons upt_blocks[of dim] by (simp add: map_concat comp_def del: coords.simps)
  also have "\<dots> = concat (map (\<lambda>i. tabulate dims (\<lambda>is. f (i # is))) [0..<dim])"
    unfolding tabulate_def by (intro arg_cong[where f = concat] map_cong refl) (simp add: coords_Cons del: coords.simps)
  finally show ?thesis .
qed

lemma tabulate_matrix: "tabulate [m, n] f = concat (map (\<lambda>i. map (\<lambda>j. f [i, j]) [0..<n]) [0..<m])"
  by (simp add: tabulate_Cons[of m] tabulate_Cons[of n] tabulate_def[of "[]"])

lemma those_append: "those (xs @ ys) = (case those xs of None \<Rightarrow> None | Some a \<Rightarrow> map_option ((@) a) (those ys))"
  by (cases "those ys"; induction xs) (auto split: option.splits)

lemma those_matrix:
  assumes "\<And>i j. i < m \<Longrightarrow> j < n \<Longrightarrow> f i j = Some (g [i, j])"
  shows "those (concat (map (\<lambda>i. map (f i) [0..<n]) [0..<m])) = Some (tabulate [m, n] g)"
proof -
  have "those (concat (map (\<lambda>i. map (f i) [0..<n]) [0..<k])) = Some (concat (map (\<lambda>i. map (\<lambda>j. g [i, j]) [0..<n]) [0..<k]))"
    if "k \<le> m" for k
    using that
  proof (induction k)
    case (Suc k)
    have "those (map (f k) [0..<n]) = Some (map (\<lambda>j. g [k, j]) [0..<n])"
      using Suc.prems assms by (intro those_map) auto
    with Suc show ?case by (simp add: those_append)
  qed simp
  from this[of m] show ?thesis by (simp add: tabulate_matrix)
qed

lemma those_tabulate:
  assumes "\<And>index. index_in shape index \<Longrightarrow> g (Some index) = Some (f index)" "n = prod_list shape"
  shows "those (map (\<lambda>k. g (unravel_index k shape)) [0..<n]) = Some (tabulate shape f)"
  unfolding tabulate_def assms(2)
  by (rule those_map) (auto elim!: flat_cases simp: unravel_index_in assms(1))

text \<open>A fresh tensor holds the tabulated function.\<close>

lemma fresh_entry:
  assumes "fresh_tensor bufs (tabulate shape f) shape t bufs'"
  shows "tensor_ok bufs' t \<and> store_ok bufs' \<and> tn_shape t = shape \<and>
    (\<forall>index. index_in shape index \<longrightarrow> entry bufs' t index = f index) \<and>
    (\<forall>u. tensor_ok bufs u \<longrightarrow> tensor_ok bufs' u \<and> elements bufs' u = elements bufs u)"
  using assms extends_tensor by (fastforce simp: fresh_tensor_def entry_def tabulate_nth)

section \<open>Creation and slices\<close>

lemma allocation_count_Inr:
  "checked_allocation_count element_size shape = Inr n \<longleftrightarrow>
   checked_element_count_usize shape = Some n \<and> (element_size = 0 \<or> n \<le> (2 ^ 63 - 1) div element_size)"
  by (auto simp: checked_allocation_count_def split: option.splits)

lemma fresh_from_contiguous:
  assumes "store_ok bufs" "checked_element_count_usize shape = Some n" "length data = n"
  shows "fresh_tensor bufs data shape (fst (from_contiguous data shape bufs)) (snd (from_contiguous data shape bufs))"
  using from_contiguous_fresh[of bufs shape data] assms by simp

lemma fresh_tabulate:
  assumes "store_ok bufs" "checked_element_count_usize shape = Some n"
  shows "fresh_tensor bufs (tabulate shape f) shape (fst (from_contiguous (tabulate shape f) shape bufs))
    (snd (from_contiguous (tabulate shape f) shape bufs))"
  using assms checked_count_Some[OF assms(2)] by (intro fresh_from_contiguous) simp_all

text \<open>The element count of the contract crate: the product of the dimensions, \<open>None\<close> on overflow.\<close>

definition counts_shapes :: "shape_count \<Rightarrow> bool" where
  "counts_shapes count_of \<longleftrightarrow>
     (\<forall>shape. (\<forall>d \<in> set shape. 0 \<le> sint d) \<longrightarrow> count_of shape = checked_element_count_usize (map unat shape))"

lemma parse_all_eq:
  "parse_all message vs = (if \<exists>v \<in> set vs. sint v < 0 then Inl message else Inr (map unat vs))"
  by (induction vs) (auto simp: parse_non_negative_def)

lemma parse_all_Inr:
  "parse_all message vs = Inr ns \<longleftrightarrow> (\<forall>v \<in> set vs. 0 \<le> sint v) \<and> ns = map unat vs"
  by (auto simp: parse_all_eq linorder_not_le[symmetric])

lemma slice_bounds_Inr:
  "slice_bounds start end' = Inr (a, b) \<longleftrightarrow> 0 \<le> sint start \<and> 0 \<le> sint end' \<and> a = unat start \<and> b = unat end' \<and> a \<le> b"
  by (auto simp: slice_bounds_def parse_non_negative_def not_less split: sum.splits if_splits)

text \<open>A slice is the window of the rows it names, over the same buffer.\<close>

lemma sectio_window:
  assumes "store_ok bufs" "tensor_ok bufs t" "tn_shape t = dim # dims" "slice_bounds start end' = Inr (a, b)" "b \<le> dim"
  obtains u where "sectio t start end' = Some (Inr u)" "tensor_ok bufs u" "tn_data u = tn_data t"
    "tn_shape u = (b - a) # dims" "tn_offset u = tn_offset t + a * prod_list dims" "tn_view u"
proof -
  have ab: "a \<le> b" using assms(4) by (simp add: slice_bounds_Inr)
  obtain n where n: "checked_element_count_usize (dim # dims) = Some n"
    using assms(2,3) by (auto simp: tensor_ok_def)
  have stride: "a * saturated_product dims = a * prod_list dims"
    using ab assms(5) by (intro first_stride_bound[OF n]) simp
  have le: "a * prod_list dims + (b - a) * prod_list dims \<le> dim * prod_list dims"
    using ab assms(5) by (simp add: add_mult_distrib[symmetric])
  have fits: "tn_offset t + a * prod_list dims + (b - a) * prod_list dims \<le> length (tensor_data bufs t)"
    using assms(2,3) le by (auto simp: tensor_ok_def)
  then have less: "tn_offset t + a * prod_list dims < usize_range"
    using store_okD[OF assms(1,2)] by simp
  define u where "u = t\<lparr>tn_shape := (b - a) # dims, tn_offset := tn_offset t + a * prod_list dims, tn_view := True\<rparr>"
  have "(tn_offset t + a * saturated_product dims) mod usize_range = tn_offset t + a * prod_list dims"
    using less by (simp only: stride mod_less)
  moreover have "tn_strides t = saturated_product dims # row_major_strides dims"
    using assms(2,3) by (simp add: tensor_ok_def)
  ultimately have "sectio t start end' = Some (Inr u)"
    using assms(3,4,5) by (simp add: sectio_def u_def)
  moreover have "tensor_ok bufs u"
    using assms(2,3) fits checked_count_first_axis[OF n, of "b - a"] assms(5)
    by (auto simp: tensor_ok_def u_def tensor_data_def)
  ultimately show ?thesis by (rule that) (simp_all add: u_def)
qed

section \<open>Writing\<close>

definition cell :: "tensor \<Rightarrow> nat list \<Rightarrow> nat \<times> nat" where
  "cell t index = (tn_data t, tn_offset t + flat_index (tn_shape t) index)"

lemma ponde_cases:
  assumes "store_ok bufs" "tensor_ok bufs t"
  shows "ponde t indices value bufs =
    (if \<exists>i \<in> set indices. sint i < 0 then Some (Inl NegativeIndex)
     else if index_in (tn_shape t) (map unat indices)
     then Some (Inr (bufs[tn_data t := (tensor_data bufs t)[snd (cell t (map unat indices)) := value]]))
     else Some (Inl IndexOutOfBounds))"
proof (cases "\<exists>i \<in> set indices. sint i < 0")
  case True
  then show ?thesis by (simp add: ponde_def index_dims_def parse_all_eq)
next
  case False
  then have "index_dims indices = Inr (map unat indices)" by (simp add: index_dims_def parse_all_eq)
  with False elements_nth[OF assms(2) flat_index_less, of "map unat indices"] show ?thesis
    by (auto simp: ponde_def offset_for_index_ok[OF assms] cell_def)
qed

text \<open>A write replaces the buffer by one of the same length, so every tensor stays a window.\<close>

lemma update_keeps:
  assumes "store_ok bufs" "tensor_ok bufs t" "length data = length (tensor_data bufs t)"
  shows "store_ok (bufs[tn_data t := data]) \<and> (\<forall>u. tensor_ok bufs u \<longrightarrow> tensor_ok (bufs[tn_data t := data]) u)"
proof -
  have "length (tensor_data (bufs[tn_data t := data]) u) = length (tensor_data bufs u)" for u
    using assms(2,3) by (cases "tn_data u = tn_data t") (auto simp: tensor_data_def tensor_ok_def)
  moreover have "store_ok (bufs[tn_data t := data])"
    using assms store_okD[OF assms(1,2)] by (auto simp: store_ok_def dest!: subsetD[OF set_update_subset_insert])
  ultimately show ?thesis by (auto simp: tensor_ok_def)
qed

lemma write_entry:
  assumes "tensor_ok bufs t" "tensor_ok bufs u" "index_in (tn_shape t) index" "index_in (tn_shape u) index'"
  shows "entry (bufs[tn_data t := (tensor_data bufs t)[snd (cell t index) := value]]) u index' =
    (if cell u index' = cell t index then value else entry bufs u index')"
proof -
  have t: "tn_offset t + flat_index (tn_shape t) index < length (bufs ! tn_data t)" "tn_data t < length bufs"
    using elements_nth[OF assms(1) flat_index_less[OF assms(3)]] assms(1) by (auto simp: tensor_data_def tensor_ok_def)
  have u: "flat_index (tn_shape u) index' < prod_list (tn_shape u)" by (rule flat_index_less[OF assms(4)])
  have read: "entry bs u index' = bs ! tn_data u ! (tn_offset u + flat_index (tn_shape u) index')"
    if "length (bs ! tn_data u) = length (bufs ! tn_data u)" for bs :: "'a buffers"
    using u assms(2) that by (auto simp: entry_def elements_def tensor_data_def tensor_ok_def)
  show ?thesis
  proof (cases "tn_data u = tn_data t")
    case True
    with t show ?thesis by (simp add: read cell_def tensor_data_def nth_list_update)
  next
    case False
    with t show ?thesis by (simp add: read cell_def tensor_data_def)
  qed
qed

lemma fill_offsets_ok:
  "\<forall>k \<in> set offsets. k < length data \<Longrightarrow>
   \<exists>data'. fill_offsets offsets value data = Some data' \<and> length data' = length data \<and>
     (\<forall>k < length data. data' ! k = (if k \<in> set offsets then value else data ! k))"
proof (induction offsets arbitrary: data)
  case (Cons k offsets)
  from Cons.IH[of "data[k := value]"] Cons.prems show ?case by (auto simp: nth_list_update split: if_splits)
qed simp

lemma reple_ok:
  assumes "store_ok bufs" "tensor_ok bufs t"
  obtains data where "reple t v bufs = Some (bufs[tn_data t := data])" "length data = length (tensor_data bufs t)"
    "\<forall>k < length data. data ! k = (if tn_offset t \<le> k \<and> k < tn_offset t + prod_list (tn_shape t) then v
       else tensor_data bufs t ! k)"
proof -
  have offsets: "set (map ((+) (tn_offset t)) [0..<prod_list (tn_shape t)]) =
    {k. tn_offset t \<le> k \<and> k < tn_offset t + prod_list (tn_shape t)}"
    by (auto simp: image_iff)
  then have "\<forall>k \<in> set (map ((+) (tn_offset t)) [0..<prod_list (tn_shape t)]). k < length (tensor_data bufs t)"
    using assms(2) by (auto simp: tensor_ok_def)
  from fill_offsets_ok[OF this, of v] show ?thesis
    using that by (auto simp: reple_def logical_offsets_ok[OF assms] offsets)
qed

section \<open>Permutation\<close>

definition axes_of :: "i64 list \<Rightarrow> nat \<Rightarrow> bool" where
  "axes_of axes rank \<longleftrightarrow> length axes = rank \<and> (\<forall>a \<in> set axes. 0 \<le> sint a \<and> unat a < rank) \<and> distinct (map unat axes)"

lemma permute_axes_loop_Inr:
  "length seen = rank \<Longrightarrow> \<forall>a < rank. seen ! a \<longleftrightarrow> a \<in> set parsed \<Longrightarrow> distinct parsed \<Longrightarrow>
   permute_axes_loop rank axes seen parsed = Inr ax \<longleftrightarrow>
   ax = parsed @ map unat axes \<and> (\<forall>a \<in> set axes. 0 \<le> sint a \<and> unat a < rank) \<and> distinct ax"
proof (induction axes arbitrary: seen parsed)
  case (Cons axis axes)
  show ?case
  proof (cases "0 \<le> sint axis \<and> unat axis < rank \<and> unat axis \<notin> set parsed")
    case True
    then have "permute_axes_loop rank (axis # axes) seen parsed =
      permute_axes_loop rank axes (seen[unat axis := True]) (parsed @ [unat axis])"
      using Cons.prems by (simp add: parse_non_negative_def)
    with Cons.IH[of "seen[unat axis := True]" "parsed @ [unat axis]"] Cons.prems True show ?thesis
      by (auto simp: nth_list_update)
  next
    case False
    with Cons.prems show ?thesis by (auto simp: parse_non_negative_def split: if_splits)
  qed
qed auto

lemma permute_axes_Inr: "permute_axes axes rank = Inr ax \<longleftrightarrow> axes_of axes rank \<and> ax = map unat axes"
  using permute_axes_loop_Inr[of "replicate rank False" rank "[]" axes ax]
  by (auto simp: permute_axes_def axes_of_def)

lemma axes_of_set:
  assumes "axes_of axes rank"
  shows "set (map unat axes) = {..<rank}"
proof (rule card_subset_eq)
  show "card (set (map unat axes)) = card {..<rank}"
    using assms by (metis axes_of_def card_lessThan distinct_card length_map)
qed (use assms in \<open>auto simp: axes_of_def\<close>)

lemma scatter:
  assumes "distinct axes" "\<forall>a \<in> set axes. a < length inp"
  shows "length (foldl (\<lambda>inp (k, a). inp[a := out ! k]) inp (enumerate n axes)) = length inp \<and>
    (\<forall>k < length axes. foldl (\<lambda>inp (k, a). inp[a := out ! k]) inp (enumerate n axes) ! (axes ! k) = out ! (n + k)) \<and>
    (\<forall>a. a \<notin> set axes \<longrightarrow> foldl (\<lambda>inp (k, a). inp[a := out ! k]) inp (enumerate n axes) ! a = inp ! a)"
  using assms
proof (induction axes arbitrary: n inp)
  case (Cons b axes)
  from Cons.IH[of "inp[b := out ! n]" "Suc n"] Cons.prems show ?case
    by (auto simp: nth_Cons split: nat.split)
qed simp

lemma permuted_index_eq:
  assumes "axes_of axes rank" "length inp = rank"
  shows "permuted_index (map unat axes) rank (map (\<lambda>a. inp ! unat a) axes) = inp"
proof (rule nth_equalityI)
  let ?ax = "map unat axes" and ?out = "map (\<lambda>a. inp ! unat a) axes"
  have sc: "length (permuted_index ?ax rank ?out) = rank"
    "\<forall>k < length ?ax. permuted_index ?ax rank ?out ! (?ax ! k) = ?out ! (0 + k)"
    using scatter[of ?ax "replicate rank 0" ?out 0] assms(1) by (auto simp: permuted_index_def axes_of_def)
  show "length (permuted_index ?ax rank ?out) = length inp" using sc(1) assms(2) by simp
  fix i assume "i < length (permuted_index ?ax rank ?out)"
  then have "i \<in> set ?ax" using axes_of_set[OF assms(1)] sc(1) by simp
  then obtain k where k: "k < length ?ax" "?ax ! k = i" by (auto simp: in_set_conv_nth)
  with sc(2) show "permuted_index ?ax rank ?out ! i = inp ! i" by fastforce
qed

text \<open>Every index of the permuted box is the rearrangement of one of the box.\<close>

lemma rearranged_index:
  assumes "axes_of axes (length shape)" "index_in (map (\<lambda>a. shape ! unat a) axes) out"
  obtains inp where "index_in shape inp" "out = map (\<lambda>a. inp ! unat a) axes"
proof -
  let ?ax = "map unat axes" and ?n = "length shape"
  define inp where "inp = permuted_index ?ax ?n out"
  have sc: "length inp = ?n" "\<forall>k < length ?ax. inp ! (?ax ! k) = out ! k"
    using scatter[of ?ax "replicate ?n 0" out 0] assms(1) by (auto simp: permuted_index_def inp_def axes_of_def)
  have len: "length out = length axes" using index_in_length[OF assms(2)] by simp
  have "out = map (\<lambda>a. inp ! unat a) axes" using sc(2) len by (intro nth_equalityI) auto
  moreover have "index_in shape inp"
    unfolding index_in_nth
  proof (intro conjI allI impI)
    fix i assume "i < length shape"
    then have "i \<in> set ?ax" using axes_of_set[OF assms(1)] by simp
    then obtain k where k: "k < length axes" "unat (axes ! k) = i" by (auto simp: in_set_conv_nth)
    with assms(2) have "out ! k < shape ! i" by (auto simp: index_in_nth)
    with sc(2) k show "inp ! i < shape ! i" by fastforce
  qed (rule sc(1))
  ultimately show ?thesis using that by blast
qed

lemma index_in_rearranged:
  "axes_of axes (length shape) \<Longrightarrow> index_in shape inp \<Longrightarrow>
   index_in (map (\<lambda>a. shape ! unat a) axes) (map (\<lambda>a. inp ! unat a) axes)"
  by (auto simp: index_in_nth axes_of_def)

lemma permute_ok:
  assumes "store_ok bufs" "tensor_ok bufs t"
  shows "permute element_size t axes bufs =
    (case permute_axes axes (length (tn_shape t)) of
       Inl e \<Rightarrow> Some (Inl e)
     | Inr ax \<Rightarrow> (case checked_allocation_count element_size (map ((!) (tn_shape t)) ax) of
         Inl e \<Rightarrow> Some (Inl e)
       | Inr _ \<Rightarrow> Some (Inr (from_contiguous (tabulate (map ((!) (tn_shape t)) ax)
            (\<lambda>out. entry bufs t (permuted_index ax (length (tn_shape t)) out))) (map ((!) (tn_shape t)) ax) bufs))))"
proof (cases "permute_axes axes (length (tn_shape t))")
  case (Inr ax)
  then have ax: "axes_of axes (length (tn_shape t))" "ax = map unat axes" by (simp_all add: permute_axes_Inr)
  let ?shape = "map ((!) (tn_shape t)) ax" and ?n = "length (tn_shape t)"
  show ?thesis
  proof (cases "checked_allocation_count element_size ?shape")
    case Inr': (Inr n)
    then have n: "n = prod_list ?shape" by (auto simp: allocation_count_Inr dest: checked_count_Some)
    have shape: "?shape = map (\<lambda>a. tn_shape t ! unat a) axes" by (simp add: ax(2))
    have "value_at_logical bufs t (permuted_index ax ?n out) = Some (entry bufs t (permuted_index ax ?n out))"
      if out: "index_in ?shape out" for out
    proof -
      obtain inp where "index_in (tn_shape t) inp" "out = map (\<lambda>a. inp ! unat a) axes"
        using rearranged_index[OF ax(1) out[unfolded shape]] by blast
      with permuted_index_eq[OF ax(1)] show ?thesis
        using value_at_entry[OF assms] by (simp add: ax(2) index_in_length)
    qed
    with Inr Inr' n show ?thesis
      by (simp add: permute_def Let_def those_tabulate[where f = "\<lambda>out. entry bufs t (permuted_index ax ?n out)"
            and g = "\<lambda>i. case i of None \<Rightarrow> None | Some out \<Rightarrow> value_at_logical bufs t (permuted_index ax ?n out)"])
  qed (simp add: Inr permute_def)
qed (simp add: permute_def)

section \<open>Broadcasting\<close>

definition joined_dim :: "nat list \<Rightarrow> nat list \<Rightarrow> nat \<Rightarrow> nat \<Rightarrow> nat" where
  "joined_dim lhs rhs rank a = (if broadcast_dim lhs rank a = 1 then broadcast_dim rhs rank a else broadcast_dim lhs rank a)"

definition joinable :: "nat list \<Rightarrow> nat list \<Rightarrow> nat \<Rightarrow> nat \<Rightarrow> bool" where
  "joinable lhs rhs rank a \<longleftrightarrow>
     broadcast_dim lhs rank a = broadcast_dim rhs rank a \<or> broadcast_dim lhs rank a = 1 \<or> broadcast_dim rhs rank a = 1"

definition broadcastable :: "nat list \<Rightarrow> nat list \<Rightarrow> bool" where
  "broadcastable lhs rhs \<longleftrightarrow> (\<forall>a < max (length lhs) (length rhs). joinable lhs rhs (max (length lhs) (length rhs)) a)"

lemma broadcast_axes_eq:
  "broadcast_axes lhs rhs rank axes =
   (if \<forall>a \<in> set axes. joinable lhs rhs rank a then Inr (map (joined_dim lhs rhs rank) axes) else Inl BroadcastShape)"
  by (induction axes) (auto simp: Let_def joinable_def joined_dim_def)

lemma broadcast_shape_eq:
  "broadcast_shape lhs rhs =
   (if broadcastable lhs rhs
    then Inr (map (joined_dim lhs rhs (max (length lhs) (length rhs))) [0..<max (length lhs) (length rhs)])
    else Inl BroadcastShape)"
  by (auto simp: broadcast_shape_def broadcast_axes_eq broadcastable_def Let_def)

lemma index_in_broadcast:
  assumes "index_in shape index" "length side \<le> length shape"
    "\<forall>a < length shape. broadcast_dim side (length shape) a = 1 \<or> broadcast_dim side (length shape) a = shape ! a"
  shows "index_in side (broadcast_index index side)"
  unfolding index_in_nth
proof (intro conjI allI impI)
  fix k assume k: "k < length side"
  let ?a = "k + (length shape - length side)"
  have "broadcast_dim side (length shape) ?a = side ! k" by (simp add: broadcast_dim_def Let_def)
  moreover have "?a < length shape" using k assms(2) by linarith
  ultimately show "broadcast_index index side ! k < side ! k"
    using assms(1,3) k by (fastforce simp: broadcast_index_def index_in_nth)
qed (simp add: broadcast_index_def)

lemma broadcast_sides:
  assumes "broadcast_shape lhs rhs = Inr shape" "index_in shape index"
  shows "index_in lhs (broadcast_index index lhs) \<and> index_in rhs (broadcast_index index rhs)"
proof -
  let ?n = "max (length lhs) (length rhs)"
  have "broadcastable lhs rhs" and shape: "shape = map (joined_dim lhs rhs ?n) [0..<?n]"
    using assms(1) by (simp_all add: broadcast_shape_eq split: if_splits)
  then have "(broadcast_dim lhs ?n a = 1 \<or> broadcast_dim lhs ?n a = shape ! a) \<and>
    (broadcast_dim rhs ?n a = 1 \<or> broadcast_dim rhs ?n a = shape ! a)" if "a < ?n" for a
    using that by (auto simp: broadcastable_def joinable_def joined_dim_def)
  moreover have "length shape = ?n" using shape by simp
  ultimately show ?thesis by (intro conjI index_in_broadcast[OF assms(2)]) simp_all
qed

lemma elementwise_ok:
  assumes "store_ok bufs" "tensor_ok bufs lhs" "tensor_ok bufs rhs"
  shows "tensor_elementwise element_size f lhs rhs bufs =
    (case broadcast_shape (tn_shape lhs) (tn_shape rhs) of
       Inl e \<Rightarrow> Some (Inl e)
     | Inr shape \<Rightarrow> (case checked_allocation_count element_size shape of
         Inl e \<Rightarrow> Some (Inl e)
       | Inr _ \<Rightarrow> Some (Inr (from_contiguous (tabulate shape (\<lambda>index.
           f (entry bufs lhs (broadcast_index index (tn_shape lhs))) (entry bufs rhs (broadcast_index index (tn_shape rhs)))))
           shape bufs))))"
proof (cases "broadcast_shape (tn_shape lhs) (tn_shape rhs)")
  case (Inr shape)
  show ?thesis
  proof (cases "checked_allocation_count element_size shape")
    case Inr': (Inr n)
    let ?f = "\<lambda>index. f (entry bufs lhs (broadcast_index index (tn_shape lhs))) (entry bufs rhs (broadcast_index index (tn_shape rhs)))"
    let ?g = "\<lambda>i. case i of None \<Rightarrow> None | Some index \<Rightarrow>
      (case value_at_logical bufs lhs (broadcast_index index (tn_shape lhs)) of None \<Rightarrow> None
       | Some a \<Rightarrow> map_option (f a) (value_at_logical bufs rhs (broadcast_index index (tn_shape rhs))))"
    have "those (map (\<lambda>k. ?g (unravel_index k shape)) [0..<n]) = Some (tabulate shape ?f)"
      using Inr' broadcast_sides[OF Inr] value_at_entry[OF assms(1,2)] value_at_entry[OF assms(1,3)]
      by (intro those_tabulate) (auto simp: allocation_count_Inr dest: checked_count_Some)
    with Inr Inr' show ?thesis by (simp add: tensor_elementwise_def)
  qed (simp add: Inr tensor_elementwise_def)
qed (simp add: tensor_elementwise_def)

section \<open>Contraction\<close>

lemma contract_loop_ok:
  assumes "store_ok bufs" "tensor_ok bufs lhs" "tensor_ok bufs rhs" "tn_shape lhs = [m, k1]" "tn_shape rhs = [k1, n]"
    "i < m" "j < n" "\<forall>k \<in> set ks. k < k1"
  shows "contract_loop add mul bufs lhs rhs i j acc ks =
    Some (foldl add acc (map (\<lambda>k. mul (entry bufs lhs [i, k]) (entry bufs rhs [k, j])) ks))"
  using assms(8)
proof (induction ks arbitrary: acc)
  case (Cons k ks)
  have "value_at_logical bufs lhs [i, k] = Some (entry bufs lhs [i, k])"
    "value_at_logical bufs rhs [k, j] = Some (entry bufs rhs [k, j])"
    using Cons.prems assms(4-7) by (simp_all add: value_at_entry[OF assms(1,2)] value_at_entry[OF assms(1,3)])
  with Cons show ?case by simp
qed simp

definition contraction :: "('a \<Rightarrow> 'a \<Rightarrow> 'a) \<Rightarrow> ('a \<Rightarrow> 'a \<Rightarrow> 'a) \<Rightarrow> 'a \<Rightarrow> 'a buffers \<Rightarrow> tensor \<Rightarrow> tensor \<Rightarrow> nat \<Rightarrow> nat list \<Rightarrow> 'a" where
  "contraction add mul dflt bufs lhs rhs k1 index =
     foldl add dflt (map (\<lambda>k. mul (entry bufs lhs [index ! 0, k]) (entry bufs rhs [k, index ! 1])) [0..<k1])"

lemma two_axes: "length xs = 2 \<longleftrightarrow> xs = [xs ! 0, xs ! 1]" for xs :: "'a list"
  by (auto simp: numeral_2_eq_2 length_Suc_conv)

lemma matmul_ok:
  assumes "store_ok bufs" "tensor_ok bufs lhs" "tensor_ok bufs rhs" "tn_shape lhs = [m, k1]" "tn_shape rhs = [k1, n]"
  shows "matmul element_size add mul dflt lhs rhs bufs =
    (case checked_allocation_count element_size [m, n] of
       Inl e \<Rightarrow> Some (Inl e)
     | Inr _ \<Rightarrow> Some (Inr (from_contiguous (tabulate [m, n] (contraction add mul dflt bufs lhs rhs k1)) [m, n] bufs)))"
  using assms(4,5)
  by (simp add: matmul_def those_matrix[where g = "contraction add mul dflt bufs lhs rhs k1"]
      contract_loop_ok[OF assms] contraction_def split: sum.split)

lemma transpose_ok:
  assumes "store_ok bufs" "tensor_ok bufs t" "tn_shape t = [rows, cols]"
  shows "transpose_rank2 element_size t bufs =
    (case checked_allocation_count element_size [cols, rows] of
       Inl e \<Rightarrow> Some (Inl e)
     | Inr _ \<Rightarrow> Some (Inr (from_contiguous (tabulate [cols, rows] (\<lambda>index. entry bufs t [index ! 1, index ! 0])) [cols, rows] bufs)))"
  using assms(3)
  by (simp add: transpose_rank2_def those_matrix[where g = "\<lambda>index. entry bufs t [index ! 1, index ! 0]"]
      value_at_entry[OF assms(1,2)] split: sum.split)

end
