(* ===== verification/TensorRuns.thy ===== *)
theory TensorRuns
  imports TensorProps
begin

text \<open>
  Programs of tensor operations over one store, in which every tensor made so far can be an operand, views and
  shallow clones included; and the statements about the operations themselves.
\<close>

section \<open>Programs\<close>

text \<open>What the generic code asks of its element type.\<close>

record 'a element_type =
  et_size :: nat
  et_default :: 'a
  et_add :: "'a \<Rightarrow> 'a \<Rightarrow> 'a"
  et_sub :: "'a \<Rightarrow> 'a \<Rightarrow> 'a"
  et_mul :: "'a \<Rightarrow> 'a \<Rightarrow> 'a"

datatype 'a tensor_op =
    OpLinea "'a list" | OpVacua | OpCrea "i64 list" 'a | OpStructa "'a list" "i64 list"
  | OpForma nat "i64 list" | OpConvert nat "'a \<Rightarrow> 'a" | OpSectio nat i64 i64 | OpMaterialize nat | OpClone nat
  | OpTranspose nat | OpPermute nat "i64 list" | OpAddita nat nat | OpSubtrahe nat nat | OpMultiplica nat nat
  | OpMatmul nat nat | OpPonde nat "i64 list" 'a | OpReple nat 'a | OpPlanata nat | OpSumma nat

type_synonym 'a tensor_state = "'a buffers \<times> tensor list"

definition with_tensor :: "nat \<Rightarrow> 'a tensor_state \<Rightarrow> (tensor \<Rightarrow> 'a tensor_state option) \<Rightarrow> 'a tensor_state option" where
  "with_tensor k s f = (if k < length (snd s) then f (snd s ! k) else Some s)"

definition keep_made :: "'a tensor_state \<Rightarrow> (tensor_error + tensor \<times> 'a buffers) option \<Rightarrow> 'a tensor_state option" where
  "keep_made s r = (case r of
     None \<Rightarrow> None
   | Some (Inl e) \<Rightarrow> Some s
   | Some (Inr (t, bufs)) \<Rightarrow> Some (bufs, snd s @ [t]))"

definition keep_written :: "'a tensor_state \<Rightarrow> (tensor_error + 'a buffers) option \<Rightarrow> 'a tensor_state option" where
  "keep_written s r = (case r of None \<Rightarrow> None | Some (Inl e) \<Rightarrow> Some s | Some (Inr bufs) \<Rightarrow> Some (bufs, snd s))"

fun tensor_step :: "shape_count \<Rightarrow> 'a element_type \<Rightarrow> 'a tensor_op \<Rightarrow> 'a tensor_state \<Rightarrow> 'a tensor_state option" where
  "tensor_step count_of el (OpLinea data) s = keep_made s (Some (Inr (linea data (fst s))))"
| "tensor_step count_of el OpVacua s = keep_made s (Some (Inr (vacua (et_default el) (fst s))))"
| "tensor_step count_of el (OpCrea shape fill) s = keep_made s (Some (crea (et_size el) shape fill (fst s)))"
| "tensor_step count_of el (OpStructa data shape) s = keep_made s (Some (structa count_of data shape (fst s)))"
| "tensor_step count_of el (OpForma k shape) s = with_tensor k s (\<lambda>t. keep_made s (forma count_of t shape (fst s)))"
| "tensor_step count_of el (OpConvert k f) s =
     with_tensor k s (\<lambda>t. keep_made s (map_option Inr (convert_elements f (fst s) t (fst s))))"
| "tensor_step count_of el (OpSectio k start end') s = with_tensor k s (\<lambda>t.
     keep_made s (map_option (map_sum (\<lambda>e. e) (\<lambda>u. (u, fst s))) (sectio t start end')))"
| "tensor_step count_of el (OpMaterialize k) s =
     with_tensor k s (\<lambda>t. keep_made s (map_option Inr (materialize t (fst s))))"
| "tensor_step count_of el (OpClone k) s = with_tensor k s (\<lambda>t. keep_made s (Some (Inr (t, fst s))))"
| "tensor_step count_of el (OpTranspose k) s = with_tensor k s (\<lambda>t. keep_made s (transpose_rank2 (et_size el) t (fst s)))"
| "tensor_step count_of el (OpPermute k axes) s = with_tensor k s (\<lambda>t. keep_made s (permute (et_size el) t axes (fst s)))"
| "tensor_step count_of el (OpAddita j k) s = with_tensor j s (\<lambda>t. with_tensor k s (\<lambda>u.
     keep_made s (addita (et_size el) (et_add el) t u (fst s))))"
| "tensor_step count_of el (OpSubtrahe j k) s = with_tensor j s (\<lambda>t. with_tensor k s (\<lambda>u.
     keep_made s (subtrahe (et_size el) (et_sub el) t u (fst s))))"
| "tensor_step count_of el (OpMultiplica j k) s = with_tensor j s (\<lambda>t. with_tensor k s (\<lambda>u.
     keep_made s (multiplica (et_size el) (et_mul el) t u (fst s))))"
| "tensor_step count_of el (OpMatmul j k) s = with_tensor j s (\<lambda>t. with_tensor k s (\<lambda>u.
     keep_made s (matmul (et_size el) (et_add el) (et_mul el) (et_default el) t u (fst s))))"
| "tensor_step count_of el (OpPonde k indices v) s = with_tensor k s (\<lambda>t. keep_written s (ponde t indices v (fst s)))"
| "tensor_step count_of el (OpReple k v) s =
     with_tensor k s (\<lambda>t. keep_written s (map_option Inr (reple t v (fst s))))"
| "tensor_step count_of el (OpPlanata k) s = with_tensor k s (\<lambda>t. map_option (\<lambda>_. s) (planata (fst s) t))"
| "tensor_step count_of el (OpSumma k) s =
     with_tensor k s (\<lambda>t. map_option (\<lambda>_. s) (summa (et_add el) (et_default el) (fst s) t))"

fun tensor_run :: "shape_count \<Rightarrow> 'a element_type \<Rightarrow> 'a tensor_op list \<Rightarrow> 'a tensor_state \<Rightarrow> 'a tensor_state option" where
  "tensor_run count_of el [] s = Some s"
| "tensor_run count_of el (op # ops) s = (case tensor_step count_of el op s of
     None \<Rightarrow> None
   | Some s \<Rightarrow> tensor_run count_of el ops s)"

text \<open>A \<open>Vec\<close> holds fewer than $2^{64}$ elements.\<close>

fun op_fits :: "'a tensor_op \<Rightarrow> bool" where
  "op_fits (OpLinea data) \<longleftrightarrow> length data < usize_range"
| "op_fits _ \<longleftrightarrow> True"

definition state_ok :: "'a tensor_state \<Rightarrow> bool" where
  "state_ok s \<longleftrightarrow> store_ok (fst s) \<and> (\<forall>t \<in> set (snd s). tensor_ok (fst s) t)"

definition step_ok :: "'a tensor_state option \<Rightarrow> bool" where
  "step_ok r \<longleftrightarrow> (\<exists>s. r = Some s \<and> state_ok s)"

lemma step_ok_Some [simp]: "step_ok (Some s) \<longleftrightarrow> state_ok s"
  by (simp add: step_ok_def)

definition made_ok :: "'a buffers \<Rightarrow> (tensor_error + tensor \<times> 'a buffers) option \<Rightarrow> bool" where
  "made_ok bufs r \<longleftrightarrow> (\<exists>e. r = Some (Inl e)) \<or>
     (\<exists>t bufs'. r = Some (Inr (t, bufs')) \<and> extends bufs bufs' \<and> store_ok bufs' \<and> tensor_ok bufs' t)"

lemma keep_made_ok:
  assumes "state_ok s" "made_ok (fst s) r"
  shows "step_ok (keep_made s r)"
proof -
  have "step_ok (Some (bufs', snd s @ [t]))" if "extends (fst s) bufs'" "store_ok bufs'" "tensor_ok bufs' t" for t bufs'
    using assms(1) that extends_tensor[OF that(1)] by (auto simp: state_ok_def)
  with assms show ?thesis by (auto simp: made_ok_def keep_made_def)
qed

lemma with_tensor_ok:
  assumes "state_ok s" "\<And>t. tensor_ok (fst s) t \<Longrightarrow> step_ok (f t)"
  shows "step_ok (with_tensor k s f)"
  using assms by (cases "k < length (snd s)") (simp_all add: with_tensor_def state_ok_def step_ok_def)

lemma made_from_contiguous:
  assumes "store_ok bufs" "checked_element_count_usize shape = Some (length data)"
  shows "made_ok bufs (Some (Inr (from_contiguous data shape bufs)))"
  using from_contiguous_fresh[OF assms prod.collapse[symmetric]]
  by (cases "from_contiguous data shape bufs") (auto simp: made_ok_def fresh_tensor_def)

lemma count_single: "n < usize_range \<Longrightarrow> checked_element_count_usize [n] = Some n"
  by (simp add: checked_element_count_usize_def usize_checked_mul_def)

lemma count_empty: "checked_element_count_usize [] = Some 1"
  by (simp add: checked_element_count_usize_def)

lemma made_error [simp]: "made_ok bufs (Some (Inl e))"
  by (simp add: made_ok_def)

lemma made_tabulate:
  assumes "store_ok bufs" "checked_allocation_count element_size shape = Inr n"
  shows "made_ok bufs (Some (Inr (from_contiguous (tabulate shape f) shape bufs)))"
  using assms checked_count_Some[of shape n] by (intro made_from_contiguous) (auto simp: allocation_count_Inr)

lemma made_creation:
  assumes "store_ok bufs"
  shows "length data < usize_range \<Longrightarrow> made_ok bufs (Some (Inr (linea data bufs)))"
    "made_ok bufs (Some (Inr (vacua dflt bufs)))"
    "made_ok bufs (Some (crea element_size shape fill bufs))"
    "counts_shapes count_of \<Longrightarrow> made_ok bufs (Some (structa count_of data shape bufs))"
proof -
  show "length data < usize_range \<Longrightarrow> made_ok bufs (Some (Inr (linea data bufs)))"
    unfolding linea_def using assms by (intro made_from_contiguous) (simp_all add: count_single)
  show "made_ok bufs (Some (Inr (vacua dflt bufs)))"
    unfolding vacua_def using assms by (intro made_from_contiguous) (simp_all add: count_empty)
  show "made_ok bufs (Some (crea element_size shape fill bufs))"
    unfolding crea_def shape_dims_and_count_def using assms
    by (auto simp: allocation_count_Inr intro!: made_from_contiguous split: sum.split)
  show "made_ok bufs (Some (structa count_of data shape bufs))" if "counts_shapes count_of"
    unfolding structa_def using assms that
    by (auto simp: shape_dims_def parse_all_Inr counts_shapes_def tensor_shape_has_element_count_def
        intro!: made_from_contiguous split: sum.split)
qed

lemma made_copies:
  assumes "store_ok bufs" "tensor_ok bufs t"
  shows "counts_shapes count_of \<Longrightarrow> made_ok bufs (forma count_of t shape bufs)"
    "made_ok bufs (map_option Inr (convert_elements f bufs t bufs))"
    "made_ok bufs (map_option Inr (materialize t bufs))"
proof -
  note copy = planata_ok[OF assms] tensor_ok_count[OF assms(2)] length_elements[OF assms(2)]
  have count: "checked_element_count_usize (tn_shape t) = Some (prod_list (tn_shape t))"
    using copy by (simp add: element_count_def)
  show "made_ok bufs (forma count_of t shape bufs)" if "counts_shapes count_of"
    unfolding forma_def using assms that copy
    by (auto simp: shape_dims_def parse_all_Inr counts_shapes_def tensor_shape_has_element_count_def
        intro!: made_from_contiguous split: sum.split)
  show "made_ok bufs (map_option Inr (convert_elements f bufs t bufs))"
    unfolding convert_elements_def using assms copy count by (auto intro!: made_from_contiguous)
  show "made_ok bufs (map_option Inr (materialize t bufs))"
    unfolding materialize_def using assms copy count by (auto intro!: made_from_contiguous)
qed

lemma made_sectio:
  assumes "store_ok bufs" "tensor_ok bufs t"
  shows "made_ok bufs (map_option (map_sum (\<lambda>e. e) (\<lambda>u. (u, bufs))) (sectio t start end'))"
proof (cases "\<exists>a b. slice_bounds start end' = Inr (a, b) \<and> tn_shape t \<noteq> [] \<and> b \<le> hd (tn_shape t)")
  case True
  then obtain a b dim dims where "slice_bounds start end' = Inr (a, b)" "tn_shape t = dim # dims" "b \<le> dim"
    by (auto simp: neq_Nil_conv)
  then obtain u where "sectio t start end' = Some (Inr u)" "tensor_ok bufs u"
    using sectio_window[OF assms] by blast
  then show ?thesis using assms by (auto simp: made_ok_def extends_def)
next
  case False
  have "sectio t start end' = Some (Inl (case slice_bounds start end' of Inl e \<Rightarrow> e | Inr _ \<Rightarrow> IndexOutOfBounds))"
    using False by (cases "slice_bounds start end'") (auto simp: sectio_def neq_Nil_conv hd_conv_nth)
  then show ?thesis by simp
qed

lemma made_tabulated:
  assumes "store_ok bufs" "tensor_ok bufs t" "tensor_ok bufs u"
  shows "made_ok bufs (transpose_rank2 element_size t bufs)" "made_ok bufs (permute element_size t axes bufs)"
    "made_ok bufs (tensor_elementwise element_size f t u bufs)" "made_ok bufs (matmul element_size add mul dflt t u bufs)"
proof -
  show "made_ok bufs (permute element_size t axes bufs)" "made_ok bufs (tensor_elementwise element_size f t u bufs)"
    using made_tabulate[OF assms(1)]
    by (auto simp: permute_ok[OF assms(1,2)] elementwise_ok[OF assms] split: sum.split)
  show "made_ok bufs (transpose_rank2 element_size t bufs)"
  proof (cases "length (tn_shape t) = 2")
    case True
    then have "tn_shape t = [tn_shape t ! 0, tn_shape t ! 1]" by (simp only: two_axes)
    from transpose_ok[OF assms(1,2) this] made_tabulate[OF assms(1)] show ?thesis by (auto split: sum.split)
  qed (simp add: transpose_rank2_def)
  show "made_ok bufs (matmul element_size add mul dflt t u bufs)"
  proof (cases "length (tn_shape t) = 2 \<and> length (tn_shape u) = 2 \<and> tn_shape t ! 1 = tn_shape u ! 0")
    case True
    then have "tn_shape t = [tn_shape t ! 0, tn_shape t ! 1]" "tn_shape u = [tn_shape t ! 1, tn_shape u ! 1]"
      by (metis two_axes)+
    from matmul_ok[OF assms this] made_tabulate[OF assms(1)] show ?thesis by (auto split: sum.split)
  qed (auto simp: matmul_def Let_def)
qed

lemma written_ok:
  assumes "state_ok s" "tensor_ok (fst s) t" "length data = length (tensor_data (fst s) t)"
  shows "step_ok (keep_written s (Some (Inr ((fst s)[tn_data t := data]))))"
  using update_keeps[OF _ assms(2,3)] assms(1) by (auto simp: state_ok_def step_ok_def keep_written_def)

lemma keep_written_ok:
  assumes "state_ok s" "tensor_ok (fst s) t"
  shows "step_ok (keep_written s (ponde t indices v (fst s)))"
    "step_ok (keep_written s (map_option Inr (reple t v (fst s))))"
proof -
  have s: "store_ok (fst s)" using assms(1) by (simp add: state_ok_def)
  have "step_ok (keep_written s (Some (Inl e)))" for e
    using assms(1) by (simp add: step_ok_def keep_written_def)
  then show "step_ok (keep_written s (ponde t indices v (fst s)))"
    using written_ok[OF assms] by (simp add: ponde_cases[OF s assms(2)])
  obtain data where "reple t v (fst s) = Some ((fst s)[tn_data t := data])" "length data = length (tensor_data (fst s) t)"
    using reple_ok[OF s assms(2)] by metis
  with written_ok[OF assms] show "step_ok (keep_written s (map_option Inr (reple t v (fst s))))" by simp
qed

lemma tensor_step_ok:
  assumes "counts_shapes count_of" "op_fits op" "state_ok s"
  shows "step_ok (tensor_step count_of el op s)"
proof -
  have s: "store_ok (fst s)" using assms(3) by (simp add: state_ok_def)
  have "made_ok (fst s) (Some (Inr (t, fst s)))" if "tensor_ok (fst s) t" for t
    using that s by (simp add: made_ok_def extends_def)
  moreover have "step_ok (Some s)" using assms(3) by (simp add: step_ok_def)
  moreover note made_creation[OF s] made_copies[OF s] made_sectio[OF s] made_tabulated[OF s] planata_ok[OF s]
  ultimately show ?thesis
    using assms
    by (cases op)
      (auto simp: summa_def addita_def subtrahe_def multiplica_def
        intro!: with_tensor_ok[OF assms(3)] keep_made_ok[OF assms(3)] keep_written_ok[OF assms(3)])
qed


definition sample_element :: "int element_type" where
  "sample_element = \<lparr>et_size = 8, et_default = 0, et_add = (+), et_sub = (-), et_mul = (*)\<rparr>"

definition checked_shape_count :: shape_count where
  "checked_shape_count shape = checked_element_count_usize (map unat shape)"

lemma checked_shape_count_ok: "counts_shapes checked_shape_count"
  by (simp add: counts_shapes_def checked_shape_count_def)


section \<open>Slices share their rows\<close>

lemma sectio_Inr:
  assumes "sectio t start end' = Some (Inr u)"
  obtains a b dim dims where "slice_bounds start end' = Inr (a, b)" "tn_shape t = dim # dims" "b \<le> dim"
  using assms by (cases "tn_shape t") (auto simp: sectio_def split: sum.splits if_splits)

lemma slice_cell:
  assumes "tn_data u = tn_data t" "tn_shape t = dim # dims" "tn_shape u = n # dims"
    "tn_offset u = tn_offset t + a * prod_list dims"
  shows "cell u (i # is) = cell t ((a + i) # is)"
  using assms by (simp add: cell_def add_mult_distrib)

lemma entry_cell:
  "tensor_ok bufs t \<Longrightarrow> index_in (tn_shape t) index \<Longrightarrow> entry bufs t index = bufs ! fst (cell t index) ! snd (cell t index)"
  using elements_nth[of bufs t "flat_index (tn_shape t) index"] flat_index_less[of "tn_shape t" index]
  by (simp add: entry_def cell_def tensor_data_def)

lemma ponde_Inr:
  assumes "store_ok bufs" "tensor_ok bufs t" "ponde t indices value bufs = Some (Inr bufs')"
  shows "index_in (tn_shape t) (map unat indices)"
    "bufs' = bufs[tn_data t := (tensor_data bufs t)[snd (cell t (map unat indices)) := value]]"
  using assms(3) by (auto simp: ponde_cases[OF assms(1,2)] split: if_splits)

text \<open>A slice is the rows it names, of the same buffer: an element of the slice is read as that of the tensor
  it was taken from, and a write through the slice changes exactly that element of the tensor.\<close>

theorem slice_shares_rows:
  assumes "store_ok bufs" "tensor_ok bufs t" "sectio t start end' = Some (Inr u)"
  shows "tensor_ok bufs u \<and> tn_shape u = (unat end' - unat start) # tl (tn_shape t) \<and>
    (\<forall>i is. index_in (tn_shape u) (i # is) \<longrightarrow> entry bufs u (i # is) = entry bufs t ((unat start + i) # is)) \<and>
    (\<forall>i is v bufs'. ponde u (i # is) v bufs = Some (Inr bufs') \<longrightarrow>
       (\<forall>index. index_in (tn_shape t) index \<longrightarrow> entry bufs' t index =
          (if index = (unat start + unat i) # map unat is then v else entry bufs t index)))"
proof -
  obtain a b dim dims where s: "slice_bounds start end' = Inr (a, b)" "tn_shape t = dim # dims" "b \<le> dim"
    using assms(3) by (rule sectio_Inr)
  from sectio_window[OF assms(1,2) s(2,1,3)] assms(3)
  have u: "tensor_ok bufs u" "tn_data u = tn_data t" "tn_shape u = (b - a) # dims"
    "tn_offset u = tn_offset t + a * prod_list dims" by auto
  have ab: "a = unat start" "b = unat end'" using s(1) by (simp_all add: slice_bounds_Inr)
  have inside: "index_in (tn_shape t) ((a + i) # is)" if "index_in (tn_shape u) (i # is)" for i "is"
    using that s(2,3) u(3) by auto
  note same_cell = slice_cell[OF u(2) s(2) u(3,4)]
  have read: "entry bufs u (i # is) = entry bufs t ((a + i) # is)" if "index_in (tn_shape u) (i # is)" for i "is"
    using entry_cell[OF u(1) that] entry_cell[OF assms(2) inside[OF that]] same_cell by simp
  have written: "entry bufs' t index = (if index = (a + unat i) # map unat is then v else entry bufs t index)"
    if "ponde u (i # is) v bufs = Some (Inr bufs')" "index_in (tn_shape t) index" for i "is" v bufs' index
  proof -
    from ponde_Inr[OF assms(1) u(1) that(1)] have p: "index_in (tn_shape u) (unat i # map unat is)"
      "bufs' = bufs[tn_data u := (tensor_data bufs u)[snd (cell u (unat i # map unat is)) := v]]" by simp_all
    have "cell t index = cell u (unat i # map unat is) \<longleftrightarrow> index = (a + unat i) # map unat is"
      using flat_index_inj[OF that(2) inside[OF p(1)]] same_cell[of "unat i" "map unat is"] by (auto simp: cell_def)
    with write_entry[OF u(1) assms(2) p(1) that(2)] p(2) show ?thesis by simp
  qed
  show ?thesis using u(1,3) s(2) read written by (simp add: ab)
qed

definition sample_matrix :: tensor where
  "sample_matrix = \<lparr>tn_data = 0, tn_shape = [2, 2], tn_strides = [2, 1], tn_offset = 0, tn_view = False\<rparr>"

lemma sample_matrix_ok: "store_ok [[1, 2, 3, 4 :: int]]" "tensor_ok [[1, 2, 3, 4 :: int]] sample_matrix"
  by (simp_all add: store_ok_def tensor_ok_def sample_matrix_def tensor_data_def saturated_product_def
      usize_saturating_mul_def usize_range_def checked_element_count_usize_def usize_checked_mul_def)

lemma slice_shares_rows_witness:
  "\<exists>u. sectio sample_matrix 1 2 = Some (Inr u) \<and> entry [[1, 2, 3, 4 :: int]] u [0, 1] = entry [[1, 2, 3, 4]] sample_matrix [1, 1]"
proof -
  define u where "u = sample_matrix\<lparr>tn_shape := [1, 2], tn_offset := 2, tn_view := True\<rparr>"
  have "sectio sample_matrix 1 2 = Some (Inr u)"
    by (simp add: sectio_def slice_bounds_def parse_non_negative_def sample_matrix_def u_def usize_range_def)
  moreover have "index_in (tn_shape u) [0, 1]" by (simp add: u_def)
  with slice_shares_rows[OF sample_matrix_ok calculation]
  have "entry [[1, 2, 3, 4 :: int]] u [0, 1] = entry [[1, 2, 3, 4]] sample_matrix [unat (1 :: i64) + 0, 1]" by blast
  then have "entry [[1, 2, 3, 4 :: int]] u [0, 1] = entry [[1, 2, 3, 4]] sample_matrix [1, 1]" by simp
  ultimately show ?thesis by blast
qed

section \<open>What the operations compute\<close>

definition allocatable :: "nat \<Rightarrow> nat list \<Rightarrow> bool" where
  "allocatable element_size shape \<longleftrightarrow> (\<exists>n. checked_allocation_count element_size shape = Inr n)"

text \<open>A result: a fresh tensor with these elements, nothing else in the store changed.\<close>

definition computes ::
  "'a buffers \<Rightarrow> bool \<Rightarrow> nat list \<Rightarrow> (nat list \<Rightarrow> 'a) \<Rightarrow> (tensor_error + tensor \<times> 'a buffers) option \<Rightarrow> bool" where
  "computes bufs accepts shape f r \<longleftrightarrow> (case r of
     None \<Rightarrow> False
   | Some (Inl e) \<Rightarrow> \<not> accepts
   | Some (Inr (u, bufs')) \<Rightarrow> accepts \<and> tensor_ok bufs' u \<and> store_ok bufs' \<and> tn_data u = length bufs \<and> tn_shape u = shape \<and>
       (\<forall>index. index_in shape index \<longrightarrow> entry bufs' u index = f index) \<and>
       (\<forall>v. tensor_ok bufs v \<longrightarrow> tensor_ok bufs' v \<and> elements bufs' v = elements bufs v))"

lemma computes_refused: "\<not> accepts \<Longrightarrow> computes bufs accepts shape f (Some (Inl e))"
  by (simp add: computes_def)

lemma computes_tabulate:
  assumes "store_ok bufs"
  shows "computes bufs (allocatable element_size shape) shape f (case checked_allocation_count element_size shape of
      Inl e \<Rightarrow> Some (Inl e) | Inr _ \<Rightarrow> Some (Inr (from_contiguous (tabulate shape f) shape bufs)))"
proof (cases "checked_allocation_count element_size shape")
  case (Inr n)
  then have "fresh_tensor bufs (tabulate shape f) shape (fst (from_contiguous (tabulate shape f) shape bufs))
    (snd (from_contiguous (tabulate shape f) shape bufs))"
    by (intro fresh_tabulate[OF assms]) (simp add: allocation_count_Inr)
  with fresh_entry[OF this] Inr show ?thesis
    by (auto simp: computes_def allocatable_def fresh_tensor_def split: prod.split)
qed (simp add: computes_def allocatable_def)

lemma computes_cong:
  "computes bufs a shape f r \<Longrightarrow> a = b \<Longrightarrow> (\<And>index. index_in shape index \<Longrightarrow> f index = g index) \<Longrightarrow> computes bufs b shape g r"
  by (auto simp: computes_def split: option.splits sum.splits)

text \<open>C34: permuting never panics; it is accepted exactly for an allocatable permutation of the axes, and then the
  element at a rearranged index is the one at the index, nothing else changing.\<close>

theorem permute_rearranges:
  assumes "store_ok bufs" "tensor_ok bufs t"
  shows "\<exists>f. computes bufs (axes_of axes (length (tn_shape t)) \<and> allocatable element_size (map (\<lambda>a. tn_shape t ! unat a) axes))
      (map (\<lambda>a. tn_shape t ! unat a) axes) f (permute element_size t axes bufs) \<and>
    (axes_of axes (length (tn_shape t)) \<longrightarrow>
       (\<forall>index. index_in (tn_shape t) index \<longrightarrow> f (map (\<lambda>a. index ! unat a) axes) = entry bufs t index))"
proof (cases "permute_axes axes (length (tn_shape t))")
  case (Inl e)
  then have no: "\<not> axes_of axes (length (tn_shape t))"
    using permute_axes_Inr[of axes "length (tn_shape t)" "map unat axes"] by simp
  have "permute element_size t axes bufs = Some (Inl e)" by (simp add: permute_def Inl)
  with no computes_refused show ?thesis by (simp add: computes_def)
next
  case (Inr ax)
  then have ax: "axes_of axes (length (tn_shape t))" "ax = map unat axes" by (simp_all add: permute_axes_Inr)
  have shape: "map ((!) (tn_shape t)) ax = map (\<lambda>a. tn_shape t ! unat a) axes" by (simp add: ax(2))
  define f where "f out = entry bufs t (permuted_index ax (length (tn_shape t)) out)" for out
  have "computes bufs (allocatable element_size (map (\<lambda>a. tn_shape t ! unat a) axes)) (map (\<lambda>a. tn_shape t ! unat a) axes) f
      (permute element_size t axes bufs)"
    using computes_tabulate[OF assms(1), of element_size "map (\<lambda>a. tn_shape t ! unat a) axes" f]
    by (simp add: permute_ok[OF assms] Inr shape f_def[abs_def] cong: sum.case_cong)
  moreover have "f (map (\<lambda>a. index ! unat a) axes) = entry bufs t index" if "index_in (tn_shape t) index" for index
    using permuted_index_eq[OF ax(1)] that ax(2) by (simp add: index_in_length f_def)
  ultimately show ?thesis using ax(1) by (intro exI[of _ f]) simp
qed

lemma permute_rearranges_witness:
  "\<exists>f. computes [[1, 2, 3, 4 :: int]] (allocatable 8 [2, 2]) [2, 2] f (permute 8 sample_matrix [1, 0] [[1, 2, 3, 4]]) \<and>
    f [0, 1] = entry [[1, 2, 3, 4]] sample_matrix [1, 0]"
proof -
  have m: "axes_of [1, 0] (Suc (Suc 0))" "tn_shape sample_matrix = [2, 2]"
    by (simp_all add: axes_of_def sample_matrix_def)
  obtain f where f: "computes [[1, 2, 3, 4 :: int]] (allocatable 8 [2, 2]) [2, 2] f (permute 8 sample_matrix [1, 0] [[1, 2, 3, 4]])"
    "\<forall>index. index_in [2, 2] index \<longrightarrow> f (map (\<lambda>a. index ! unat a) [1 :: i64, 0]) = entry [[1, 2, 3, 4]] sample_matrix index"
    using permute_rearranges[OF sample_matrix_ok, of "[1, 0]" 8] m by auto
  from f(2)[rule_format, of "[1, 0]"] f(1) show ?thesis by auto
qed

text \<open>Elementwise arithmetic never panics; it is accepted exactly when every pair of axes agrees or one of them is
  one, and the result fits, and combines the elements at the broadcast indices.\<close>

theorem elementwise_broadcasts:
  assumes "store_ok bufs" "tensor_ok bufs t" "tensor_ok bufs u"
  defines "rank \<equiv> max (length (tn_shape t)) (length (tn_shape u))"
  defines "shape \<equiv> map (joined_dim (tn_shape t) (tn_shape u) rank) [0..<rank]"
  shows "computes bufs (broadcastable (tn_shape t) (tn_shape u) \<and> allocatable element_size shape) shape
     (\<lambda>index. f (entry bufs t (broadcast_index index (tn_shape t))) (entry bufs u (broadcast_index index (tn_shape u))))
     (tensor_elementwise element_size f t u bufs)"
proof (cases "broadcastable (tn_shape t) (tn_shape u)")
  case True
  then have "broadcast_shape (tn_shape t) (tn_shape u) = Inr shape"
    by (simp add: broadcast_shape_eq shape_def rank_def)
  with True computes_tabulate[OF assms(1), of element_size shape] show ?thesis
    by (simp add: elementwise_ok[OF assms(1-3)])
next
  case False
  then show ?thesis by (simp add: elementwise_ok[OF assms(1-3)] broadcast_shape_eq computes_refused)
qed

lemma sample_allocation: "checked_allocation_count 8 [2, 2] = Inr 4"
  by (simp add: checked_allocation_count_def checked_element_count_usize_def usize_checked_mul_def usize_range_def)

lemma computesE:
  assumes "computes bufs accepts shape f r" accepts
  obtains u bufs' where "r = Some (Inr (u, bufs'))" "tn_shape u = shape"
    "\<forall>index. index_in shape index \<longrightarrow> entry bufs' u index = f index"
  using assms by (auto simp: computes_def split: option.splits sum.splits)

lemma sample_entries:
  "entry [[1, 2, 3, 4 :: int]] sample_matrix [0, 0] = 1" "entry [[1, 2, 3, 4 :: int]] sample_matrix [0, Suc 0] = 2"
  "entry [[1, 2, 3, 4 :: int]] sample_matrix [Suc 0, 0] = 3"
  by (simp_all add: entry_def elements_def sample_matrix_def tensor_data_def)

lemma elementwise_broadcasts_witness:
  "\<exists>u bufs'. tensor_elementwise 8 (+) sample_matrix sample_matrix [[1, 2, 3, 4 :: int]] = Some (Inr (u, bufs')) \<and>
    entry bufs' u [1, 0] = 6"
proof -
  have shape: "tn_shape sample_matrix = [2, 2]" by (simp add: sample_matrix_def)
  have joined: "broadcastable [2, 2] [2, 2]" "map (joined_dim [2, 2] [2, 2] 2) [0..<2] = [2, 2]"
    by (auto simp: broadcastable_def joinable_def joined_dim_def broadcast_dim_def upt_rec)
  have index: "broadcast_index [Suc 0, 0] [2, 2] = [Suc 0, 0]" by (simp add: broadcast_index_def upt_rec)
  have "computes [[1, 2, 3, 4 :: int]] (broadcastable [2, 2] [2, 2] \<and> allocatable 8 [2, 2]) [2, 2]
    (\<lambda>index. entry [[1, 2, 3, 4]] sample_matrix (broadcast_index index [2, 2]) + entry [[1, 2, 3, 4]] sample_matrix (broadcast_index index [2, 2]))
    (tensor_elementwise 8 (+) sample_matrix sample_matrix [[1, 2, 3, 4]])"
    using elementwise_broadcasts[OF sample_matrix_ok sample_matrix_ok(2), of 8 "(+)"] joined(2)
    by (simp add: shape numeral_2_eq_2)
  moreover have "broadcastable [2, 2] [2, 2] \<and> allocatable 8 [2, 2]"
    using joined(1) sample_allocation by (simp add: allocatable_def)
  ultimately obtain u bufs' where "tensor_elementwise 8 (+) sample_matrix sample_matrix [[1, 2, 3, 4 :: int]] = Some (Inr (u, bufs'))"
    "\<forall>i. index_in [2, 2] i \<longrightarrow> entry bufs' u i =
       entry [[1, 2, 3, 4]] sample_matrix (broadcast_index i [2, 2]) + entry [[1, 2, 3, 4]] sample_matrix (broadcast_index i [2, 2])"
    by (rule computesE) blast
  from this(1) this(2)[rule_format, of "[1, 0]"] show ?thesis by (simp add: index sample_entries)
qed

text \<open>C35: a matrix product never panics; it is accepted exactly for two matrices whose inner axes agree and whose
  result fits, and each element is the sum of the products along the inner axis, in order, from the default.\<close>

theorem matmul_contracts:
  assumes "store_ok bufs" "tensor_ok bufs t" "tensor_ok bufs u"
  shows "computes bufs
     (length (tn_shape t) = 2 \<and> length (tn_shape u) = 2 \<and> tn_shape t ! 1 = tn_shape u ! 0 \<and>
      allocatable element_size [tn_shape t ! 0, tn_shape u ! 1])
     [tn_shape t ! 0, tn_shape u ! 1]
     (\<lambda>index. foldl add dflt (map (\<lambda>k. mul (entry bufs t [index ! 0, k]) (entry bufs u [k, index ! 1])) [0..<tn_shape t ! 1]))
     (matmul element_size add mul dflt t u bufs)"
proof (cases "length (tn_shape t) = 2 \<and> length (tn_shape u) = 2 \<and> tn_shape t ! 1 = tn_shape u ! 0")
  case True
  then obtain m k n where shapes: "tn_shape t = [m, k]" "tn_shape u = [k, n]" by (metis two_axes)
  from matmul_ok[OF assms shapes] computes_tabulate[OF assms(1), of element_size "[m, n]"]
  show ?thesis by (simp add: shapes contraction_def[abs_def] cong: sum.case_cong)
next
  case False
  then show ?thesis by (auto simp: matmul_def Let_def intro: computes_refused)
qed

lemma matmul_contracts_witness:
  "\<exists>u bufs'. matmul 8 (+) (*) 0 sample_matrix sample_matrix [[1, 2, 3, 4 :: int]] = Some (Inr (u, bufs')) \<and>
    entry bufs' u [0, 0] = 7"
proof -
  have shape: "tn_shape sample_matrix = [2, 2]" by (simp add: sample_matrix_def)
  have "computes [[1, 2, 3, 4 :: int]] (allocatable 8 [2, 2]) [2, 2]
    (\<lambda>i. foldl (+) 0 (map (\<lambda>k. entry [[1, 2, 3, 4]] sample_matrix [i ! 0, k] * entry [[1, 2, 3, 4]] sample_matrix [k, i ! 1]) [0..<2]))
    (matmul 8 (+) (*) 0 sample_matrix sample_matrix [[1, 2, 3, 4]])"
    using matmul_contracts[OF sample_matrix_ok sample_matrix_ok(2), of 8 "(+)" 0 "(*)"] by (simp add: shape)
  moreover have "allocatable 8 [2, 2]" using sample_allocation by (simp add: allocatable_def)
  ultimately obtain u bufs' where "matmul 8 (+) (*) 0 sample_matrix sample_matrix [[1, 2, 3, 4 :: int]] = Some (Inr (u, bufs'))"
    "\<forall>i. index_in [2, 2] i \<longrightarrow> entry bufs' u i =
       foldl (+) 0 (map (\<lambda>k. entry [[1, 2, 3, 4]] sample_matrix [i ! 0, k] * entry [[1, 2, 3, 4]] sample_matrix [k, i ! 1]) [0..<2])"
    by (rule computesE) blast
  from this(1) this(2)[rule_format, of "[0, 0]"] show ?thesis by (simp add: sample_entries upt_rec)
qed

end
