(* ===== verification/Sparsa.thy ===== *)
theory Sparsa
  imports TensorRuns
begin

text \<open>
  The sparse tensor of \<open>src/sparsa.rs\<close>: a shape and a map from coordinates to the elements that are not the
  default, with the loops that walk the coordinates in row-major order to read a dense tensor and to fill one.
  The element type's default and its size, and two functions of the contract crate, are arguments.
\<close>

section \<open>Operations\<close>

record 'a sparsa =
  sp_shape :: "i64 list"
  sp_entries :: "(i64 list, 'a) fmap"

datatype sparsa_error =
    SparsaNegativeDim | SparsaRankMismatch | SparsaNegativeIndex | SparsaIndexOutOfBounds
  | SparsaElementCountOverflow | SparsaNonnihilCountOverflow | OfTensor tensor_error

definition sparsa_shape_dims :: "(i64 \<Rightarrow> bool) \<Rightarrow> i64 list \<Rightarrow> sparsa_error + i64 list" where
  "sparsa_shape_dims non_negative shape = (if list_all non_negative shape then Inr shape else Inl SparsaNegativeDim)"

fun validate_axes :: "i64 list \<Rightarrow> i64 list \<Rightarrow> sparsa_error option" where
  "validate_axes (idx # indices) (dim # dims) =
     (if sint idx < 0 then Some SparsaNegativeIndex
      else if sint idx \<ge> sint dim then Some SparsaIndexOutOfBounds
      else validate_axes indices dims)"
| "validate_axes _ _ = None"

definition validate_indices :: "i64 list \<Rightarrow> i64 list \<Rightarrow> sparsa_error option" where
  "validate_indices shape indices =
     (if length indices \<noteq> length shape then Some SparsaRankMismatch else validate_axes indices shape)"

definition sparsa_vacua :: "(i64 \<Rightarrow> bool) \<Rightarrow> i64 list \<Rightarrow> sparsa_error + 'a sparsa" where
  "sparsa_vacua non_negative shape = (case sparsa_shape_dims non_negative shape of
     Inl e \<Rightarrow> Inl e
   | Inr shape \<Rightarrow> Inr \<lparr>sp_shape = shape, sp_entries = fmempty\<rparr>)"

text \<open>The loop over the axes from the last one: the first component tells whether there is a next coordinate.\<close>

fun advance_from :: "nat \<Rightarrow> i64 list \<Rightarrow> i64 list \<Rightarrow> bool \<times> i64 list" where
  "advance_from 0 current shape = (False, current)"
| "advance_from (Suc axis) current shape =
     (let current = current[axis := current ! axis + 1] in
      if sint (current ! axis) < sint (shape ! axis) then (True, current)
      else advance_from axis (current[axis := 0]) shape)"

definition advance_coordinate :: "i64 list \<Rightarrow> i64 list \<Rightarrow> bool \<times> i64 list" where
  "advance_coordinate current shape = advance_from (length shape) current shape"

fun entries_loop :: "'a \<Rightarrow> i64 list \<Rightarrow> 'a list \<Rightarrow> i64 list \<Rightarrow> (i64 list, 'a) fmap \<Rightarrow> (i64 list, 'a) fmap" where
  "entries_loop dflt shape [] current entries = entries"
| "entries_loop dflt shape (v # vs) current entries =
     (let entries = (if v \<noteq> dflt then fmupd current v entries else entries) in
      if shape = [] then entries
      else let (again, current) = advance_coordinate current shape in
        if \<not> again then entries else entries_loop dflt shape vs current entries)"

definition entries_from_dense_values :: "'a \<Rightarrow> i64 list \<Rightarrow> 'a list \<Rightarrow> (i64 list, 'a) fmap" where
  "entries_from_dense_values dflt shape vs =
     (if vs = [] then fmempty else entries_loop dflt shape vs (replicate (length shape) 0) fmempty)"

definition sparsa_from_tensor :: "'a \<Rightarrow> 'a buffers \<Rightarrow> tensor \<Rightarrow> 'a sparsa option" where
  "sparsa_from_tensor dflt bufs dense = (case planata bufs dense of
     None \<Rightarrow> None
   | Some vs \<Rightarrow> Some \<lparr>sp_shape = magnitudines dense, sp_entries = entries_from_dense_values dflt (magnitudines dense) vs\<rparr>)"

definition sparsa_longitudo :: "'a sparsa \<Rightarrow> i64" where
  "sparsa_longitudo s = of_nat (length (sp_shape s))"

definition sparsa_element_count :: "shape_count \<Rightarrow> 'a sparsa \<Rightarrow> nat option" where
  "sparsa_element_count count_of s = count_of (sp_shape s)"

definition sparsa_nonnihil :: "'a sparsa \<Rightarrow> sparsa_error + i64" where
  "sparsa_nonnihil s =
     (if fcard (fmdom (sp_entries s)) < 2 ^ 63 then Inr (of_nat (fcard (fmdom (sp_entries s))))
      else Inl SparsaNonnihilCountOverflow)"

definition sparsa_accipe :: "'a \<Rightarrow> 'a sparsa \<Rightarrow> i64 list \<Rightarrow> sparsa_error + 'a" where
  "sparsa_accipe dflt s indices = (case validate_indices (sp_shape s) indices of
     Some e \<Rightarrow> Inl e
   | None \<Rightarrow> Inr (case fmlookup (sp_entries s) indices of Some v \<Rightarrow> v | None \<Rightarrow> dflt))"

definition sparsa_ponde :: "'a \<Rightarrow> i64 list \<Rightarrow> 'a \<Rightarrow> 'a sparsa \<Rightarrow> sparsa_error + 'a sparsa" where
  "sparsa_ponde dflt indices v s = (case validate_indices (sp_shape s) indices of
     Some e \<Rightarrow> Inl e
   | None \<Rightarrow>
       Inr (if v = dflt then s\<lparr>sp_entries := fmdrop indices (sp_entries s)\<rparr>
            else s\<lparr>sp_entries := fmupd indices v (sp_entries s)\<rparr>))"

text \<open>The endless loop of \<open>push_dense_values\<close>; not to return is \<open>None\<close>.\<close>

partial_function (option) push_loop :: "'a \<Rightarrow> i64 list \<Rightarrow> (i64 list, 'a) fmap \<Rightarrow> i64 list \<Rightarrow> 'a list \<Rightarrow> 'a list option" where
  "push_loop dflt shape entries current data =
     (let data = data @ [case fmlookup entries current of Some v \<Rightarrow> v | None \<Rightarrow> dflt] in
      if shape = [] then Some data
      else let (again, current) = advance_coordinate current shape in
        if \<not> again then Some data else push_loop dflt shape entries current data)"

definition push_dense_values :: "'a \<Rightarrow> 'a list \<Rightarrow> i64 list \<Rightarrow> (i64 list, 'a) fmap \<Rightarrow> 'a list option" where
  "push_dense_values dflt data shape entries =
     (if 0 \<in> set shape then Some data else push_loop dflt shape entries (replicate (length shape) 0) data)"

text \<open>\<open>Vec::with_capacity\<close> panics when the elements need again than \<open>isize::MAX\<close> bytes.\<close>

definition with_capacity :: "nat \<Rightarrow> nat \<Rightarrow> 'a list option" where
  "with_capacity element_size n =
     (if element_size \<noteq> 0 \<and> n > (2 ^ 63 - 1) div element_size then None else Some [])"

definition sparsa_densata ::
  "nat \<Rightarrow> shape_count \<Rightarrow> 'a \<Rightarrow> 'a sparsa \<Rightarrow> 'a buffers \<Rightarrow> (sparsa_error + tensor \<times> 'a buffers) option" where
  "sparsa_densata element_size count_of dflt s bufs = (case sparsa_element_count count_of s of
     None \<Rightarrow> Some (Inl SparsaElementCountOverflow)
   | Some n \<Rightarrow> (case with_capacity element_size n of
       None \<Rightarrow> None
     | Some data \<Rightarrow> (case push_dense_values dflt data (sp_shape s) (sp_entries s) of
         None \<Rightarrow> None
       | Some data \<Rightarrow> Some (case structa count_of data (sp_shape s) bufs of
           Inl e \<Rightarrow> Inl (OfTensor e)
         | Inr r \<Rightarrow> Inr r))))"

section \<open>The walk over the coordinates\<close>

definition dims_ok :: "i64 list \<Rightarrow> bool" where
  "dims_ok shape \<longleftrightarrow> (\<forall>d \<in> set shape. 0 \<le> sint d)"

definition coordinate_in :: "i64 list \<Rightarrow> i64 list \<Rightarrow> bool" where
  "coordinate_in shape current \<longleftrightarrow> index_in (map unat shape) (map unat current)"

definition flat_of :: "i64 list \<Rightarrow> i64 list \<Rightarrow> nat" where
  "flat_of shape current = flat_index (map unat shape) (map unat current)"

lemma sint_unat: "0 \<le> sint w \<Longrightarrow> sint w = int (unat w)" for w :: i64
  using uint_sint[of w] sint_less[of w] by (simp add: take_bit_int_eq_self)

lemma unat_bound:
  assumes "0 \<le> sint w"
  shows "unat (w :: i64) < 2 ^ 63"
proof -
  have "sint w < int (2 ^ 63)" using sint_less[of w] by simp
  then show ?thesis by (simp only: sint_unat[OF assms] of_nat_less_iff)
qed

lemma sint_of_int: "- (2 ^ 63) \<le> k \<Longrightarrow> k < 2 ^ 63 \<Longrightarrow> sint (word_of_int k :: i64) = k"
  by (simp add: signed_of_int signed_take_bit_int_eq_self)

lemma sint_small:
  assumes "unat w < 2 ^ 63"
  shows "sint (w :: i64) = int (unat w)"
proof -
  have "int (unat w) < int (2 ^ 63)" using assms by (simp only: of_nat_less_iff)
  then have "int (unat w) < 2 ^ 63" by (simp only: of_nat_power of_nat_numeral)
  moreover have "- (2 ^ 63) \<le> int (unat w)" by (rule order_trans[of _ 0]) simp_all
  ultimately have "sint (word_of_int (int (unat w)) :: i64) = int (unat w)" by (intro sint_of_int)
  then show ?thesis by simp
qed

text \<open>One step, from the first axis.\<close>

lemma advance_from_Cons:
  "advance_from (Suc n) (i # is) (d # ds) =
   (let (again, is') = advance_from n is ds in
    if again then (True, i # is')
    else if sint (i + 1) < sint d then (True, (i + 1) # is')
    else (False, 0 # is'))"
  by (induction n arbitrary: "is") (auto simp: Let_def split: prod.splits)

lemma advance_coordinate_Cons:
  "length is = length ds \<Longrightarrow> advance_coordinate (i # is) (d # ds) =
   (let (again, is') = advance_coordinate is ds in
    if again then (True, i # is')
    else if sint (i + 1) < sint d then (True, (i + 1) # is')
    else (False, 0 # is'))"
  unfolding advance_coordinate_def by (simp only: list.size add_0_right add_Suc_right advance_from_Cons)

lemma advance_coordinate_Nil [simp]: "advance_coordinate [] [] = (False, [])"
  by (simp add: advance_coordinate_def)

lemma coordinate_in_Cons [simp]:
  "coordinate_in [] current \<longleftrightarrow> current = []"
  "coordinate_in (d # ds) current \<longleftrightarrow> (\<exists>i is. current = i # is \<and> unat i < unat d \<and> coordinate_in ds is)"
  by (auto simp: coordinate_in_def map_eq_Cons_conv)

lemma coordinate_in_length: "coordinate_in shape current \<Longrightarrow> length current = length shape"
  using index_in_length[of "map unat shape" "map unat current"] by (simp add: coordinate_in_def)

lemma flat_of_Cons [simp]:
  "flat_of (d # ds) (i # is) = unat i * prod_list (map unat ds) + flat_of ds is" "flat_of [] is = 0"
  by (simp_all add: flat_of_def)

lemma unat_next:
  fixes i d :: i64
  assumes "0 \<le> sint d" "unat i < unat d"
  shows "unat (i + 1) = Suc (unat i)" "sint (i + 1) < sint d \<longleftrightarrow> Suc (unat i) < unat d"
proof -
  have d: "unat d < 2 ^ 63" by (rule unat_bound[OF assms(1)])
  then show next_i: "unat (i + 1) = Suc (unat i)" using assms(2) by (simp add: unat_word_ariths)
  have "sint (i + 1) = int (Suc (unat i))" using sint_small[of "i + 1"] next_i d assms(2) by simp
  then show "sint (i + 1) < sint d \<longleftrightarrow> Suc (unat i) < unat d" by (simp only: sint_unat[OF assms(1)] of_nat_less_iff)
qed

lemma advance_coordinate_flat:
  assumes "dims_ok shape" "coordinate_in shape current"
  shows "case advance_coordinate current shape of (again, next) \<Rightarrow>
    (again \<longleftrightarrow> Suc (flat_of shape current) < prod_list (map unat shape)) \<and>
    (again \<longrightarrow> coordinate_in shape next \<and> flat_of shape next = Suc (flat_of shape current)) \<and>
    (\<not> again \<longrightarrow> coordinate_in shape next \<and> flat_of shape next = 0)"
  using assms
proof (induction shape arbitrary: current)
  case (Cons d ds)
  then obtain i "is" where c: "current = i # is" "unat i < unat d" "coordinate_in ds is" by auto
  have d: "0 \<le> sint d" "dims_ok ds" using Cons.prems(1) by (simp_all add: dims_ok_def)
  obtain again "is'" where a: "advance_coordinate is ds = (again, is')" by fastforce
  let ?P = "prod_list (map unat ds)" and ?f = "flat_of ds is"
  have ih: "again \<longleftrightarrow> Suc ?f < ?P" "coordinate_in ds is'" "flat_of ds is' = (if again then Suc ?f else 0)"
    using Cons.IH[OF d(2) c(3)] a by (auto split: if_splits)
  have f: "?f < ?P" using flat_index_less c(3) by (simp add: flat_of_def coordinate_in_def)
  note step = advance_coordinate_Cons[OF coordinate_in_length[OF c(3)], of i d] a unat_next[OF d(1) c(2)]
  have le: "(k + 1) * ?P \<le> unat d * ?P" if "k < unat d" for k using that by (intro mult_le_mono1) simp
  show ?case
  proof (cases again)
    case True
    have "Suc (unat i * ?P + ?f) < unat d * ?P" using True ih(1) le[OF c(2)] by simp
    with True ih c(1,2) step show ?thesis by simp
  next
    case False
    then have last: "Suc ?f = ?P" using ih(1) f by simp
    then have end': "Suc (unat i * ?P + ?f) = Suc (unat i) * ?P" by simp
    have "Suc (unat i) * ?P < unat d * ?P \<longleftrightarrow> Suc (unat i) < unat d" using f by (simp only: mult_less_cancel2) simp
    with False ih c(1,2) step end' show ?thesis by (simp del: mult_Suc)
  qed
qed simp

text \<open>A coordinate is the word form of an index of the box.\<close>

lemma flat_of_inj:
  assumes "coordinate_in shape a" "coordinate_in shape b" "flat_of shape a = flat_of shape b"
  shows "a = b"
proof -
  have "map unat a = map unat b"
    using assms flat_index_inj[of "map unat shape" "map unat a" "map unat b"] by (simp add: coordinate_in_def flat_of_def)
  then show ?thesis by (rule map_injective) (simp add: inj_def word_unat_eq_iff)
qed

lemma flat_of_less: "coordinate_in shape c \<Longrightarrow> flat_of shape c < prod_list (map unat shape)"
  by (simp add: coordinate_in_def flat_of_def flat_index_less)

lemma coordinate_start:
  assumes "0 \<notin> set shape"
  shows "coordinate_in shape (replicate (length shape) 0) \<and> flat_of shape (replicate (length shape) 0) = 0"
  using assms by (induction shape) (auto simp: unat_gt_0)

section \<open>Reading and filling\<close>

text \<open>What the map holds after the remaining elements were read, from a coordinate on.\<close>

lemma entries_loop_lookup:
  assumes "dims_ok shape" "coordinate_in shape current" "length vs = prod_list (map unat shape) - flat_of shape current"
  shows "fmlookup (entries_loop dflt shape vs current entries) key =
    (if coordinate_in shape key \<and> flat_of shape current \<le> flat_of shape key \<and>
        vs ! (flat_of shape key - flat_of shape current) \<noteq> dflt
     then Some (vs ! (flat_of shape key - flat_of shape current)) else fmlookup entries key)"
  using assms(2,3)
proof (induction vs arbitrary: current entries)
  case Nil
  then have "prod_list (map unat shape) \<le> flat_of shape current" by simp
  with flat_of_less[OF Nil.prems(1)] show ?case by simp
next
  case (Cons v vs)
  let ?k = "flat_of shape current" and ?P = "prod_list (map unat shape)"
  let ?entries = "if v \<noteq> dflt then fmupd current v entries else entries"
  have at: "fmlookup ?entries key = (if key = current \<and> v \<noteq> dflt then Some v else fmlookup entries key)" by simp
  have here: "key = current \<longleftrightarrow> coordinate_in shape key \<and> flat_of shape key = ?k"
    using flat_of_inj[OF _ Cons.prems(1)] Cons.prems(1) by blast
  have last: "entries_loop dflt shape (v # vs) current entries = ?entries \<Longrightarrow> vs = [] \<Longrightarrow> ?case"
    using at here flat_of_less[of shape key] Cons.prems(2) by (cases "key = current") (auto simp: le_less)
  show ?case
  proof (cases "shape = []")
    case True
    with Cons.prems show ?thesis using last by (simp add: Let_def)
  next
    case False
    obtain again next' where a: "advance_coordinate current shape = (again, next')" by fastforce
    have step: "again \<longleftrightarrow> Suc ?k < ?P" "again \<Longrightarrow> coordinate_in shape next'" "again \<Longrightarrow> flat_of shape next' = Suc ?k"
      using advance_coordinate_flat[OF assms(1) Cons.prems(1)] a by auto
    show ?thesis
    proof (cases again)
      case True
      have "length vs = ?P - flat_of shape next'" using Cons.prems(2) step(3)[OF True] by simp
      from Cons.IH[OF step(2)[OF True] this, of ?entries] show ?thesis
        using False True a at here step(3)[OF True]
        by (cases "flat_of shape key = ?k") (auto simp: Let_def nth_Cons' Suc_le_eq Suc_diff_Suc le_less)
    next
      case no: False
      then have "vs = []" using Cons.prems(2) step(1) by (cases vs) auto
      then show ?thesis using last False no a by (simp add: Let_def)
    qed
  qed
qed

lemma entries_from_dense_lookup:
  assumes "dims_ok shape" "length vs = prod_list (map unat shape)"
  shows "fmlookup (entries_from_dense_values dflt shape vs) key =
    (if coordinate_in shape key \<and> vs ! flat_of shape key \<noteq> dflt then Some (vs ! flat_of shape key) else None)"
proof (cases "0 \<in> set shape")
  case True
  then have "0 \<in> set (map unat shape)" by force
  then have "prod_list (map unat shape) = 0" by (metis prod_list_zero_iff)
  moreover have "\<not> coordinate_in shape key" using flat_of_less[of shape key] calculation by auto
  ultimately show ?thesis using assms(2) by (simp add: entries_from_dense_values_def)
next
  case False
  from coordinate_start[OF False] have start: "coordinate_in shape (replicate (length shape) 0)"
    "flat_of shape (replicate (length shape) 0) = 0" by simp_all
  then have "vs \<noteq> []" using flat_of_less[OF start(1)] assms(2) by auto
  with entries_loop_lookup[OF assms(1) start(1), of vs dflt fmempty key] start(2) assms(2) show ?thesis
    by (simp add: entries_from_dense_values_def)
qed

definition coordinate_at :: "i64 list \<Rightarrow> nat \<Rightarrow> i64 list" where
  "coordinate_at shape k = map of_nat (coords (map unat shape) k)"

lemma coordinate_at_in:
  assumes "dims_ok shape" "k < prod_list (map unat shape)"
  shows "coordinate_in shape (coordinate_at shape k) \<and> flat_of shape (coordinate_at shape k) = k"
proof -
  obtain index where index: "index_in (map unat shape) index" "flat_index (map unat shape) index = k"
    "coords (map unat shape) k = index" using flat_cases[OF assms(2)] by metis
  have "index ! j < 2 ^ LENGTH(64)" if "j < length index" for j
  proof -
    have "index ! j < unat (shape ! j)" using index(1) that by (auto simp: index_in_nth)
    then show ?thesis using unsigned_less[of "shape ! j", where 'a = nat] by (rule less_trans)
  qed
  then have "map unat (map of_nat index :: i64 list) = index"
    by (intro nth_equalityI) (simp_all add: unsigned_of_nat take_bit_nat_eq_self)
  with index show ?thesis by (simp add: coordinate_at_def coordinate_in_def flat_of_def)
qed

lemma push_loop_fills:
  assumes "dims_ok shape" "coordinate_in shape current"
  shows "push_loop dflt shape entries current data = Some (data @
    map (\<lambda>k. case fmlookup entries (coordinate_at shape k) of Some v \<Rightarrow> v | None \<Rightarrow> dflt)
      [flat_of shape current..<prod_list (map unat shape)])"
  using assms(2)
proof (induction "prod_list (map unat shape) - flat_of shape current" arbitrary: current data rule: less_induct)
  case less
  let ?k = "flat_of shape current" and ?P = "prod_list (map unat shape)"
  have k: "?k < ?P" by (rule flat_of_less[OF less.prems])
  have here: "coordinate_at shape ?k = current"
    using coordinate_at_in[OF assms(1) k] flat_of_inj less.prems by blast
  show ?case
  proof (cases "shape = []")
    case True
    with less.prems here show ?thesis by (subst push_loop.simps) (simp add: Let_def)
  next
    case False
    obtain again next' where a: "advance_coordinate current shape = (again, next')" by fastforce
    have step: "again \<longleftrightarrow> Suc ?k < ?P" "again \<Longrightarrow> coordinate_in shape next'" "again \<Longrightarrow> flat_of shape next' = Suc ?k"
      using advance_coordinate_flat[OF assms(1) less.prems] a by auto
    show ?thesis
    proof (cases again)
      case True
      with less.hyps[OF _ step(2)[OF True]] step(1,3) a False here show ?thesis
        by (subst push_loop.simps) (simp add: Let_def upt_conv_Cons[OF k])
    next
      case no: False
      then have "[?k..<?P] = [?k]" using step(1) k by (simp add: upt_conv_Cons)
      with no a False here show ?thesis by (subst push_loop.simps) (simp add: Let_def)
    qed
  qed
qed

lemma push_dense_values_fills:
  assumes "dims_ok shape"
  shows "push_dense_values dflt [] shape entries = Some
    (map (\<lambda>k. case fmlookup entries (coordinate_at shape k) of Some v \<Rightarrow> v | None \<Rightarrow> dflt) [0..<prod_list (map unat shape)])"
proof (cases "0 \<in> set shape")
  case True
  then have "0 \<in> set (map unat shape)" by force
  then have "prod_list (map unat shape) = 0" by (metis prod_list_zero_iff)
  with True show ?thesis by (simp add: push_dense_values_def)
next
  case False
  from coordinate_start[OF False] push_loop_fills[OF assms conjunct1[OF coordinate_start[OF False]], of dflt entries "[]"] False
  show ?thesis by (simp add: push_dense_values_def)
qed

section \<open>A sparse tensor is a dense one\<close>

definition sparsa_models :: "'a \<Rightarrow> 'a sparsa \<Rightarrow> 'a buffers \<Rightarrow> tensor \<Rightarrow> bool" where
  "sparsa_models dflt s bufs t \<longleftrightarrow> dims_ok (sp_shape s) \<and> map unat (sp_shape s) = tn_shape t \<and>
     (\<forall>key. fmlookup (sp_entries s) key =
       (if coordinate_in (sp_shape s) key \<and> entry bufs t (map unat key) \<noteq> dflt then Some (entry bufs t (map unat key)) else None))"

lemma axis_in: "0 \<le> sint d \<Longrightarrow> 0 \<le> sint i \<and> sint i < sint d \<longleftrightarrow> unat i < unat d" for i d :: i64
proof
  assume d: "0 \<le> sint d" and i: "0 \<le> sint i \<and> sint i < sint d"
  then show "unat i < unat d" by (metis sint_unat of_nat_less_iff)
next
  assume d: "0 \<le> sint d" and less: "unat i < unat d"
  then have "unat i < 2 ^ 63" using unat_bound[OF d] by simp
  then have "sint i = int (unat i)" by (rule sint_small)
  with less sint_unat[OF d] show "0 \<le> sint i \<and> sint i < sint d" by (metis of_nat_0_le_iff of_nat_less_iff)
qed

lemma validate_axes_None:
  "dims_ok shape \<Longrightarrow> length indices = length shape \<Longrightarrow> validate_axes indices shape = None \<longleftrightarrow> coordinate_in shape indices"
proof (induction indices shape rule: list_induct2')
  case (4 i "is" d ds)
  then have "validate_axes is ds = None \<longleftrightarrow> coordinate_in ds is" "0 \<le> sint d" by (simp_all add: dims_ok_def)
  with axis_in[of d i] show ?case by (auto simp: not_le not_less)
qed simp_all

lemma validate_indices_None:
  "dims_ok shape \<Longrightarrow> validate_indices shape indices = None \<longleftrightarrow> coordinate_in shape indices"
  using validate_axes_None coordinate_in_length[of shape indices] by (auto simp: validate_indices_def)

lemma coordinate_in_signs: "dims_ok shape \<Longrightarrow> coordinate_in shape indices \<Longrightarrow> \<forall>i \<in> set indices. \<not> sint i < 0"
proof (induction shape arbitrary: indices)
  case (Cons d ds)
  from Cons.prems(2) obtain i "is" where is_: "indices = i # is" "unat i < unat d" "coordinate_in ds is" by auto
  have "0 \<le> sint d" "dims_ok ds" using Cons.prems(1) by (simp_all add: dims_ok_def)
  with axis_in[of d i] is_ Cons.IH[of "is"] show ?case by simp
qed simp

lemma from_tensor_models:
  assumes "store_ok bufs" "tensor_ok bufs t" "\<forall>d \<in> set (tn_shape t). d < 2 ^ 63" "sparsa_from_tensor dflt bufs t = Some s"
  shows "sparsa_models dflt s bufs t"
proof -
  have word: "unat (of_nat d :: i64) = d \<and> 0 \<le> sint (of_nat d :: i64)" if "d < 2 ^ 63" for d
  proof -
    have "unat (of_nat d :: i64) = d" using that by (simp add: unsigned_of_nat take_bit_nat_eq_self)
    then show ?thesis using sint_small[of "of_nat d"] that by simp
  qed
  have shape: "map unat (magnitudines t) = tn_shape t" "dims_ok (magnitudines t)"
    using assms(3) word by (auto simp: magnitudines_def dims_ok_def intro: map_idI)
  have s: "s = \<lparr>sp_shape = magnitudines t, sp_entries = entries_from_dense_values dflt (magnitudines t) (elements bufs t)\<rparr>"
    using assms(4) planata_ok[OF assms(1,2)] by (simp add: sparsa_from_tensor_def)
  have "length (elements bufs t) = prod_list (map unat (magnitudines t))"
    using length_elements[OF assms(2)] shape(1) by simp
  from entries_from_dense_lookup[OF shape(2) this] shape show ?thesis
    by (simp add: sparsa_models_def s entry_def flat_of_def)
qed

fun dense_writes :: "tensor \<Rightarrow> (i64 list \<times> 'a) list \<Rightarrow> 'a buffers \<Rightarrow> 'a buffers option" where
  "dense_writes t [] bufs = Some bufs"
| "dense_writes t ((indices, v) # ws) bufs = (case ponde t indices v bufs of
     None \<Rightarrow> None
   | Some (Inl e) \<Rightarrow> dense_writes t ws bufs
   | Some (Inr bufs) \<Rightarrow> dense_writes t ws bufs)"

fun sparsa_writes :: "'a \<Rightarrow> (i64 list \<times> 'a) list \<Rightarrow> 'a sparsa \<Rightarrow> 'a sparsa" where
  "sparsa_writes dflt [] s = s"
| "sparsa_writes dflt ((indices, v) # ws) s = (case sparsa_ponde dflt indices v s of
     Inl e \<Rightarrow> sparsa_writes dflt ws s
   | Inr s \<Rightarrow> sparsa_writes dflt ws s)"

lemma dense_ponde_cases:
  assumes "store_ok bufs" "tensor_ok bufs t" "dims_ok shape" "map unat shape = tn_shape t"
  shows "coordinate_in shape indices \<Longrightarrow> ponde t indices v bufs =
      Some (Inr (bufs[tn_data t := (tensor_data bufs t)[snd (cell t (map unat indices)) := v]]))"
    "\<not> coordinate_in shape indices \<Longrightarrow> \<exists>e. ponde t indices v bufs = Some (Inl e)"
  using assms(4) coordinate_in_signs[OF assms(3), of indices]
  by (auto simp: ponde_cases[OF assms(1,2)] coordinate_in_def)

lemma ponde_models:
  fixes v :: 'a
  assumes "store_ok bufs" "tensor_ok bufs t" "sparsa_models dflt s bufs t" "coordinate_in (sp_shape s) indices"
  defines "bufs' \<equiv> bufs[tn_data t := (tensor_data bufs t)[snd (cell t (map unat indices)) := v]]"
  shows "\<exists>s'. sparsa_ponde dflt indices v s = Inr s' \<and> sparsa_models dflt s' bufs' t"
proof -
  have m: "dims_ok (sp_shape s)" "map unat (sp_shape s) = tn_shape t" using assms(3) by (simp_all add: sparsa_models_def)
  have idx: "index_in (tn_shape t) (map unat indices)" using assms(4) m(2) by (simp add: coordinate_in_def)
  have written: "entry bufs' t (map unat key) = (if key = indices then v else entry bufs t (map unat key))"
    if "coordinate_in (sp_shape s) key" for key
  proof -
    have key: "index_in (tn_shape t) (map unat key)" using that m(2) by (simp add: coordinate_in_def)
    have "cell t (map unat key) = cell t (map unat indices) \<longleftrightarrow> key = indices"
      using flat_of_inj[OF that assms(4)] m(2) by (auto simp: cell_def flat_of_def)
    with write_entry[OF assms(2,2) idx key] show ?thesis by (simp add: bufs'_def)
  qed
  have "validate_indices (sp_shape s) indices = None" using validate_indices_None[OF m(1)] assms(4) by simp
  with assms(3,4) written show ?thesis by (auto simp: sparsa_ponde_def sparsa_models_def)
qed

lemma writes_model:
  assumes "store_ok bufs" "tensor_ok bufs t" "sparsa_models dflt s bufs t"
  shows "\<exists>bufs'. dense_writes t ws bufs = Some bufs' \<and> store_ok bufs' \<and> tensor_ok bufs' t \<and>
    sparsa_models dflt (sparsa_writes dflt ws s) bufs' t"
  using assms
proof (induction ws arbitrary: bufs s)
  case (Cons w ws)
  obtain indices v where w: "w = (indices, v)" by fastforce
  have m: "dims_ok (sp_shape s)" "map unat (sp_shape s) = tn_shape t" using Cons.prems(3) by (simp_all add: sparsa_models_def)
  note dense = dense_ponde_cases[OF Cons.prems(1,2) m, of indices v]
  show ?case
  proof (cases "coordinate_in (sp_shape s) indices")
    case True
    let ?bufs = "bufs[tn_data t := (tensor_data bufs t)[snd (cell t (map unat indices)) := v]]"
    obtain s' where "sparsa_ponde dflt indices v s = Inr s'" "sparsa_models dflt s' ?bufs t"
      using ponde_models[OF Cons.prems True] by blast
    moreover have "store_ok ?bufs \<and> tensor_ok ?bufs t"
      using update_keeps[OF Cons.prems(1,2)] Cons.prems(2) by simp
    ultimately show ?thesis using Cons.IH[of ?bufs s'] dense(1)[OF True] w by simp
  next
    case False
    then obtain e where "sparsa_ponde dflt indices v s = Inl e"
      using validate_indices_None[OF m(1), of indices] by (auto simp: sparsa_ponde_def)
    with Cons.IH[OF Cons.prems] dense(2)[OF False] w show ?thesis by auto
  qed
qed auto

lemma models_nonnihil:
  assumes "tensor_ok bufs t" "sparsa_models dflt s bufs t" "prod_list (tn_shape t) < 2 ^ 63"
  shows "sparsa_nonnihil s = Inr (of_nat (length (filter (\<lambda>v. v \<noteq> dflt) (elements bufs t))))"
proof -
  have m: "dims_ok (sp_shape s)" "map unat (sp_shape s) = tn_shape t" using assms(2) by (simp_all add: sparsa_models_def)
  let ?at = "coordinate_at (sp_shape s)" and ?K = "{k. k < length (elements bufs t) \<and> elements bufs t ! k \<noteq> dflt}"
  have at: "coordinate_in (sp_shape s) (?at k) \<and> flat_of (sp_shape s) (?at k) = k" if "k \<in> ?K" for k
    using coordinate_at_in[OF m(1), of k] that m(2) length_elements[OF assms(1)] by simp
  have dom: "fset (fmdom (sp_entries s)) = ?at ` ?K"
  proof (intro equalityI subsetI)
    fix key assume "key \<in> fset (fmdom (sp_entries s))"
    then have key: "coordinate_in (sp_shape s) key" "entry bufs t (map unat key) \<noteq> dflt"
      using assms(2) by (auto simp: sparsa_models_def fmlookup_dom_iff split: if_splits)
    then have k: "flat_of (sp_shape s) key \<in> ?K"
      using flat_of_less[OF key(1)] m(2) length_elements[OF assms(1)] by (simp add: entry_def flat_of_def)
    have "key = ?at (flat_of (sp_shape s) key)"
      using at[OF k] by (intro flat_of_inj[OF key(1)]) simp_all
    with k show "key \<in> ?at ` ?K" by (rule image_eqI[rotated])
  next
    fix key assume "key \<in> ?at ` ?K"
    then obtain k where "key = ?at k" "k \<in> ?K" by blast
    with at[of k] assms(2) m(2) show "key \<in> fset (fmdom (sp_entries s))"
      by (auto simp: sparsa_models_def fmlookup_dom_iff entry_def flat_of_def)
  qed
  have inj: "inj_on ?at ?K"
  proof (rule inj_on_inverseI)
    fix k assume "k \<in> ?K"
    then show "flat_of (sp_shape s) (?at k) = k" using at by blast
  qed
  have "fcard (fmdom (sp_entries s)) = length (filter (\<lambda>v. v \<noteq> dflt) (elements bufs t))"
    by (simp only: fcard.rep_eq dom card_image[OF inj] length_filter_conv_card)
  moreover have "length (filter (\<lambda>v. v \<noteq> dflt) (elements bufs t)) < 2 ^ 63"
    using length_filter_le[of _ "elements bufs t"] length_elements[OF assms(1)] assms(3) by (metis le_less_trans)
  ultimately show ?thesis by (simp add: sparsa_nonnihil_def)
qed

lemma models_densata:
  assumes "counts_shapes count_of" "store_ok bufs" "tensor_ok bufs t" "sparsa_models dflt s bufs t"
    "allocatable element_size (tn_shape t)"
  obtains u bufs' where "sparsa_densata element_size count_of (dflt :: 'a) s bufs = Some (Inr (u, bufs'))"
    "tn_shape u = tn_shape t" "elements bufs' u = elements bufs t" "tn_data u = length bufs"
proof -
  have m: "dims_ok (sp_shape s)" "map unat (sp_shape s) = tn_shape t" using assms(4) by (simp_all add: sparsa_models_def)
  let ?P = "prod_list (tn_shape t)"
  have n: "checked_element_count_usize (tn_shape t) = Some ?P" using tensor_ok_count[OF assms(3)] by (simp add: element_count_def)
  have count: "count_of (sp_shape s) = Some ?P"
    using assms(1) m n by (simp add: counts_shapes_def dims_ok_def)
  have "with_capacity element_size ?P = Some ([] :: 'a list)"
    using assms(5) n by (auto simp: allocatable_def allocation_count_Inr with_capacity_def)
  moreover have "(case fmlookup (sp_entries s) (coordinate_at (sp_shape s) k) of Some v \<Rightarrow> v | None \<Rightarrow> dflt) = elements bufs t ! k"
    if "k < ?P" for k
    using assms(4) coordinate_at_in[OF m(1), of k] that m(2) by (simp add: sparsa_models_def entry_def flat_of_def)
  then have "map (\<lambda>k. case fmlookup (sp_entries s) (coordinate_at (sp_shape s) k) of Some v \<Rightarrow> v | None \<Rightarrow> dflt) [0..<?P] = elements bufs t"
    using length_elements[OF assms(3)] by (intro nth_equalityI) simp_all
  then have "push_dense_values dflt [] (sp_shape s) (sp_entries s) = Some (elements bufs t)"
    using push_dense_values_fills[OF m(1), of dflt "sp_entries s"] m(2) by simp
  moreover have "shape_dims (sp_shape s) = Inr (tn_shape t)"
    using m by (simp add: shape_dims_def parse_all_Inr dims_ok_def)
  ultimately have "sparsa_densata element_size count_of dflt s bufs = Some (Inr (from_contiguous (elements bufs t) (tn_shape t) bufs))"
    using count length_elements[OF assms(3)]
    by (simp add: sparsa_densata_def sparsa_element_count_def structa_def tensor_shape_has_element_count_def)
  moreover have "fresh_tensor bufs (elements bufs t) (tn_shape t) (fst (from_contiguous (elements bufs t) (tn_shape t) bufs))
    (snd (from_contiguous (elements bufs t) (tn_shape t) bufs))"
    using n length_elements[OF assms(3)] by (intro fresh_from_contiguous[OF assms(2)]) auto
  ultimately show ?thesis using that by (cases "from_contiguous (elements bufs t) (tn_shape t) bufs") (simp add: fresh_tensor_def)
qed



text \<open>Filling a dense tensor does not check the allocation as making one does: a shape of $2^{62}$ elements of eight
  bytes has a count, and the vector's capacity panics.\<close>

lemma densata_capacity_panics:
  assumes "counts_shapes count_of"
  shows "sparsa_densata 8 count_of 0 \<lparr>sp_shape = [2 ^ 62], sp_entries = fmempty\<rparr> bufs = None \<and>
    crea 8 [2 ^ 62] 0 bufs = Inl ElementCountOverflow"
proof -
  have dim: "0 \<le> sint (2 ^ 62 :: i64)" "unat (2 ^ 62 :: i64) = 2 ^ 62" by simp_all
  then have "count_of [2 ^ 62] = Some (2 ^ 62)"
    using assms by (simp add: counts_shapes_def count_single usize_range_def)
  moreover have "shape_dims [2 ^ 62] = Inr [2 ^ 62]" using dim by (simp add: shape_dims_def parse_all_eq)
  ultimately show ?thesis
    by (simp add: sparsa_densata_def sparsa_element_count_def with_capacity_def crea_def shape_dims_and_count_def
        checked_allocation_count_def count_single usize_range_def)
qed

end
