(* ===== verification/TensorView.thy ===== *)
theory TensorView
  imports GgufProps
begin

text \<open>
  What becomes of the tensors of an admitted model file: the storage layout of each tensor
  (\<open>src/quantized_tensor_layout.rs\<close>), which checks the block geometry and the byte range again, and the
  view of the file (\<open>src/tensor_view.rs\<close>) with its lookups, its coverage check and its bounded access to the
  packed bytes. A context in an error is the text that the code formats.
\<close>

section \<open>Layouts\<close>

definition layout_alignment :: u64 where "layout_alignment = 32"
definition ggml_half_bytes :: u64 where "ggml_half_bytes = 2"
definition q4_k_scales_len :: u64 where "q4_k_scales_len = 12"
definition q4_k_qs_bytes :: u64 where "q4_k_qs_bytes = 128"
definition q5_0_qh_bytes :: u64 where "q5_0_qh_bytes = 4"
definition q5_0_qs_bytes :: u64 where "q5_0_qs_bytes = 16"
definition q8_0_qs_bytes :: u64 where "q8_0_qs_bytes = 32"
definition q6_k_super_block_elements :: u64 where "q6_k_super_block_elements = 256"
definition q6_k_super_block_bytes :: u64 where "q6_k_super_block_bytes = 210"
definition f32_scalar_bytes :: u64 where "f32_scalar_bytes = 4"

datatype logical_dtype = LogicalF32

definition logical_name :: "logical_dtype \<Rightarrow> string" where "logical_name d = ''f32''"
definition logical_bytes :: "logical_dtype \<Rightarrow> u64" where "logical_bytes d = 4"

datatype scale_min_encoding =
  EncQ4_K (d_half_bytes: u64) (dmin_half_bytes: u64) (scales_len: u64) (qs_len: u64)
| EncQ5_0 (d_half_bytes: u64) (qh_len: u64) (qs_len: u64)
| EncQ8_0 (d_half_bytes: u64) (qs_len: u64)
| EncQ6_K (super_block_elements: u64) (super_block_bytes: u64)
| EncF32 (scalar_bytes: u64)

fun encoding_of_type :: "ggml_type \<Rightarrow> scale_min_encoding" where
  "encoding_of_type Q4_K = EncQ4_K ggml_half_bytes ggml_half_bytes q4_k_scales_len q4_k_qs_bytes"
| "encoding_of_type Q5_0 = EncQ5_0 ggml_half_bytes q5_0_qh_bytes q5_0_qs_bytes"
| "encoding_of_type Q8_0 = EncQ8_0 ggml_half_bytes q8_0_qs_bytes"
| "encoding_of_type Q6_K = EncQ6_K q6_k_super_block_elements q6_k_super_block_bytes"
| "encoding_of_type F32 = EncF32 f32_scalar_bytes"

fun encoding_block_bytes :: "scale_min_encoding \<Rightarrow> u64" where
  "encoding_block_bytes (EncQ4_K d dmin scales qs) = d + dmin + scales + qs"
| "encoding_block_bytes (EncQ5_0 d qh qs) = d + qh + qs"
| "encoding_block_bytes (EncQ8_0 d qs) = d + qs"
| "encoding_block_bytes (EncQ6_K elements nbytes) = nbytes"
| "encoding_block_bytes (EncF32 scalar) = scalar"

record file_range =
  fr_start :: u64
  fr_end :: u64

definition file_range_len :: "file_range \<Rightarrow> u64" where
  "file_range_len r = saturating_sub (fr_end r) (fr_start r)"

definition file_range_is_empty :: "file_range \<Rightarrow> bool" where
  "file_range_is_empty r \<longleftrightarrow> fr_end r = fr_start r"

datatype repack_identity = RepackNative | RepackDeclared bytes

definition repack_hash_hex :: "bytes \<Rightarrow> string" where
  "repack_hash_hex digest = hex_lower digest"

record tensor_layout =
  tl_format_id :: ggml_type
  tl_logical_dtype :: logical_dtype
  tl_dims :: "u64 list"
  tl_element_count :: u64
  tl_block_elements :: u64
  tl_block_bytes :: u64
  tl_blocks :: u64
  tl_encoding :: scale_min_encoding
  tl_alignment :: u64
  tl_byte_range :: file_range
  tl_repack_identity :: repack_identity

datatype layout_error =
  LayoutOverflow ustr
| LayoutElementsNotAligned u64 u64
| LayoutRangeNotAligned u64 u64
| LayoutByteLenMismatch u64 u64
| LayoutRangeOutOfBounds u64 u64 u64
| LayoutMisalignedStart u64 u64
| LayoutEncodingMismatch ggml_type u64 u64

definition layout_resolve :: "tensor_descriptor \<Rightarrow> u64 \<Rightarrow> layout_error + tensor_layout" where
  "layout_resolve desc file_size =
     (let format_id = td_ggml_type desc;
          elements_per_block = block_elements format_id;
          bytes_per_block = block_bytes format_id in
      if td_element_count desc mod elements_per_block \<noteq> 0
      then Inl (LayoutElementsNotAligned (td_element_count desc) elements_per_block)
      else let blocks = td_element_count desc div elements_per_block in
      if td_byte_len desc mod bytes_per_block \<noteq> 0
      then Inl (LayoutRangeNotAligned (td_byte_len desc) bytes_per_block)
      else (case checked_mul blocks bytes_per_block of
        None \<Rightarrow> Inl (LayoutOverflow (lit ''byte length of '' @ td_name desc))
      | Some expected_len \<Rightarrow>
        if td_byte_len desc \<noteq> expected_len then Inl (LayoutByteLenMismatch (td_byte_len desc) expected_len)
        else let start = td_absolute_offset desc in (case checked_add start (td_byte_len desc) of
          None \<Rightarrow> Inl (LayoutOverflow (lit ''byte-range end of '' @ td_name desc))
        | Some end' \<Rightarrow>
          if file_size < end' then Inl (LayoutRangeOutOfBounds start end' file_size)
          else if start mod layout_alignment \<noteq> 0 then Inl (LayoutMisalignedStart start layout_alignment)
          else let encoding = encoding_of_type format_id; encoding_bytes = encoding_block_bytes encoding in
          if encoding_bytes \<noteq> bytes_per_block
          then Inl (LayoutEncodingMismatch format_id encoding_bytes bytes_per_block)
          else Inr \<lparr>tl_format_id = format_id, tl_logical_dtype = LogicalF32, tl_dims = td_dims desc,
            tl_element_count = td_element_count desc, tl_block_elements = elements_per_block,
            tl_block_bytes = bytes_per_block, tl_blocks = blocks, tl_encoding = encoding,
            tl_alignment = layout_alignment, tl_byte_range = \<lparr>fr_start = start, fr_end = end'\<rparr>,
            tl_repack_identity = RepackNative\<rparr>)))"

definition with_declared_repack :: "bytes \<Rightarrow> tensor_layout \<Rightarrow> tensor_layout" where
  "with_declared_repack hash layout = layout\<lparr>tl_repack_identity := RepackDeclared hash\<rparr>"

fun resolve_tensors :: "tensor_descriptor list \<Rightarrow> u64 \<Rightarrow> layout_error + tensor_layout list" where
  "resolve_tensors [] file_size = Inr []"
| "resolve_tensors (desc # descs) file_size = (case layout_resolve desc file_size of
     Inl e \<Rightarrow> Inl e
   | Inr layout \<Rightarrow> (case resolve_tensors descs file_size of Inl e \<Rightarrow> Inl e | Inr layouts \<Rightarrow> Inr (layout # layouts)))"

definition resolve_admission :: "gguf_admission \<Rightarrow> layout_error + tensor_layout list" where
  "resolve_admission admission = resolve_tensors (ga_tensors admission) (ga_file_size admission)"

section \<open>The view\<close>

definition pinned_base_names :: "string list" where
  "pinned_base_names = [''token_embd.weight'', ''attn_norm.weight'', ''attn_q.weight'', ''attn_k.weight'',
     ''attn_v.weight'', ''attn_output.weight'', ''ffn_norm.weight'', ''ffn_gate.weight'', ''ffn_up.weight'',
     ''ffn_down.weight'', ''output_norm.weight'']"

record view_entry =
  ve_name :: ustr
  ve_ggml_type :: ggml_type
  ve_dims :: "u64 list"
  ve_element_count :: u64
  ve_byte_range :: file_range
  ve_layout :: tensor_layout

datatype view_error =
  ViewLayout layout_error
| ViewWrongFileSize u64 u64
| ViewDataRegionOutOfBounds u64 u64 u64
| ViewByteRangeOutOfBounds ustr u64 u64 u64
| ViewOutsideDataRegion ustr u64 u64 u64 u64
| ViewOverflow ustr
| ViewAccessOutOfBounds ustr u64 u64 u64
| ViewBlockOutOfBounds ustr u64 u64

record tensor_view =
  tv_file :: bytes
  tv_schema :: string
  tv_file_size :: u64
  tv_sha256 :: bytes
  tv_data_offset :: u64
  tv_data_len :: u64
  tv_entries :: "view_entry list"

text \<open>\<open>PartialEq\<close> leaves the file out.\<close>

definition view_eq :: "tensor_view \<Rightarrow> tensor_view \<Rightarrow> bool" where
  "view_eq v w \<longleftrightarrow> tv_schema v = tv_schema w \<and> tv_file_size v = tv_file_size w \<and> tv_sha256 v = tv_sha256 w \<and>
     tv_data_offset v = tv_data_offset w \<and> tv_data_len v = tv_data_len w \<and> tv_entries v = tv_entries w"

definition view_entry_of :: "tensor_descriptor \<Rightarrow> tensor_layout \<Rightarrow> view_entry" where
  "view_entry_of desc layout = \<lparr>ve_name = td_name desc, ve_ggml_type = td_ggml_type desc, ve_dims = td_dims desc,
     ve_element_count = td_element_count desc, ve_byte_range = tl_byte_range layout, ve_layout = layout\<rparr>"

fun check_entries :: "u64 \<Rightarrow> u64 \<Rightarrow> u64 \<Rightarrow> view_entry list \<Rightarrow> view_error option" where
  "check_entries file_size data_offset data_end [] = None"
| "check_entries file_size data_offset data_end (entry # entries) =
     (let start = fr_start (ve_byte_range entry); end' = fr_end (ve_byte_range entry) in
      if file_size < end' then Some (ViewByteRangeOutOfBounds (ve_name entry) start end' file_size)
      else if start < data_offset \<or> data_end < end'
      then Some (ViewOutsideDataRegion (ve_name entry) start end' data_offset data_end)
      else check_entries file_size data_offset data_end entries)"

definition view_build :: "gguf_admission \<Rightarrow> bytes \<Rightarrow> view_error + tensor_view" where
  "view_build admission bytes =
     (if of_nat (length bytes) \<noteq> ga_file_size admission
      then Inl (ViewWrongFileSize (ga_file_size admission) (of_nat (length bytes)))
      else (case resolve_admission admission of
        Inl e \<Rightarrow> Inl (ViewLayout e)
      | Inr layouts \<Rightarrow>
        let entries = map2 view_entry_of (ga_tensors admission) layouts in
        (case checked_add (ga_data_offset admission) (ga_data_len admission) of
          None \<Rightarrow> Inl (ViewOverflow (lit ''tensor-data region end''))
        | Some data_end \<Rightarrow>
          if ga_file_size admission < data_end
          then Inl (ViewDataRegionOutOfBounds (ga_data_offset admission) data_end (ga_file_size admission))
          else (case check_entries (ga_file_size admission) (ga_data_offset admission) data_end entries of
            Some e \<Rightarrow> Inl e
          | None \<Rightarrow> Inr \<lparr>tv_file = bytes, tv_schema = ga_schema admission, tv_file_size = ga_file_size admission,
              tv_sha256 = pinned_sha256, tv_data_offset = ga_data_offset admission,
              tv_data_len = ga_data_len admission, tv_entries = entries\<rparr>))))"

definition view_sha256_hex :: "tensor_view \<Rightarrow> string" where
  "view_sha256_hex v = hex_lower (tv_sha256 v)"

definition data_region :: "tensor_view \<Rightarrow> file_range" where
  "data_region v = \<lparr>fr_start = tv_data_offset v, fr_end = tv_data_offset v + tv_data_len v\<rparr>"

definition view_entry_at :: "tensor_view \<Rightarrow> nat \<Rightarrow> view_entry option" where
  "view_entry_at v i = (if i < length (tv_entries v) then Some (tv_entries v ! i) else None)"

definition view_tensor :: "tensor_view \<Rightarrow> ustr \<Rightarrow> view_entry option" where
  "view_tensor v full_name = find (\<lambda>e. ve_name e = full_name) (tv_entries v)"

definition text_ends_with :: "ustr \<Rightarrow> ustr \<Rightarrow> bool" where
  "text_ends_with cs suffix \<longleftrightarrow> length suffix \<le> length cs \<and> drop (length cs - length suffix) cs = suffix"

definition view_family :: "tensor_view \<Rightarrow> ustr \<Rightarrow> view_entry list option" where
  "view_family v base_name =
     (let suffix = lit ''.'' @ base_name;
          hits = filter (\<lambda>e. ve_name e = base_name \<or> text_ends_with (ve_name e) suffix) (tv_entries v) in
      if hits = [] then None else Some hits)"

definition view_sha256_matches :: "tensor_view \<Rightarrow> bytes \<Rightarrow> bool" where
  "view_sha256_matches v file \<longleftrightarrow> gguf_sha256 file = tv_sha256 v"

definition per_tensor_covered :: "tensor_view \<Rightarrow> view_entry \<Rightarrow> bool" where
  "per_tensor_covered v entry \<longleftrightarrow>
     fr_start (ve_byte_range entry) \<le> fr_end (ve_byte_range entry) \<and> fr_end (ve_byte_range entry) \<le> tv_file_size v"

fun coverage_chain :: "tensor_view \<Rightarrow> u64 option \<Rightarrow> view_entry list \<Rightarrow> bool" where
  "coverage_chain v prev_end [] \<longleftrightarrow> True"
| "coverage_chain v prev_end (entry # entries) \<longleftrightarrow>
     per_tensor_covered v entry \<and>
     (case prev_end of None \<Rightarrow> True | Some prev \<Rightarrow> fr_start (ve_byte_range entry) = prev) \<and>
     coverage_chain v (Some (fr_end (ve_byte_range entry))) entries"

definition coverage_ok :: "tensor_view \<Rightarrow> bool" where
  "coverage_ok v \<longleftrightarrow> (case checked_add (tv_data_offset v) (tv_data_len v) of
     None \<Rightarrow> False
   | Some data_end \<Rightarrow>
       coverage_chain v None (tv_entries v) \<and> tv_entries v \<noteq> [] \<and>
       fr_start (ve_byte_range (hd (tv_entries v))) = tv_data_offset v \<and>
       fr_end (ve_byte_range (last (tv_entries v))) = data_end)"

text \<open>A slice of the file; \<open>None\<close> is the panic of an index out of range.\<close>

definition file_slice :: "bytes \<Rightarrow> u64 \<Rightarrow> u64 \<Rightarrow> bytes option" where
  "file_slice bytes start end' =
     (if start \<le> end' \<and> unat end' \<le> length bytes
      then Some (take (unat end' - unat start) (drop (unat start) bytes)) else None)"

definition raw_bytes :: "tensor_view \<Rightarrow> view_entry \<Rightarrow> (view_error + bytes) option" where
  "raw_bytes v entry =
     (let start = fr_start (ve_byte_range entry); end' = fr_end (ve_byte_range entry);
          available = of_nat (length (tv_file v)) in
      if end' < start \<or> available < end'
      then Some (Inl (ViewAccessOutOfBounds (ve_name entry) start end' available))
      else map_option Inr (file_slice (tv_file v) start end'))"

definition raw_block :: "tensor_view \<Rightarrow> view_entry \<Rightarrow> u64 \<Rightarrow> (view_error + bytes) option" where
  "raw_block v entry block_index =
     (let blocks = tl_blocks (ve_layout entry) in
      if blocks \<le> block_index then Some (Inl (ViewBlockOutOfBounds (ve_name entry) blocks block_index))
      else let size = tl_block_bytes (ve_layout entry); r = ve_byte_range entry;
               available = of_nat (length (tv_file v)) in
      (case checked_mul block_index size of
        None \<Rightarrow> Some (Inl (ViewOverflow (ve_name entry @ lit '' block offset'')))
      | Some block_offset \<Rightarrow> (case checked_add (fr_start r) block_offset of
        None \<Rightarrow> Some (Inl (ViewOverflow (ve_name entry @ lit '' block start'')))
      | Some block_start \<Rightarrow> (case checked_add block_start size of
        None \<Rightarrow> Some (Inl (ViewOverflow (ve_name entry @ lit '' block end'')))
      | Some block_end \<Rightarrow>
        if fr_end r < block_start \<or> fr_end r < block_end \<or> available < fr_end r
        then Some (Inl (ViewAccessOutOfBounds (ve_name entry) block_start block_end available))
        else map_option Inr (file_slice (tv_file v) block_start block_end)))))"

section \<open>Layouts that resolve\<close>

lemma encoding_widths: "encoding_block_bytes (encoding_of_type ty) = block_bytes ty"
  by (cases ty) (simp_all add: ggml_half_bytes_def q4_k_scales_len_def q4_k_qs_bytes_def q5_0_qh_bytes_def
      q5_0_qs_bytes_def q8_0_qs_bytes_def q6_k_super_block_bytes_def f32_scalar_bytes_def)

lemma block_units [simp]: "0 < unat (block_bytes ty)" "0 < unat (block_elements ty)" "block_bytes ty \<noteq> 0"
  "block_elements ty \<noteq> 0"
  by (cases ty; simp)+

text \<open>Where the packed bytes of a tensor lie, and when its layout resolves.\<close>

definition td_blocks_nat :: "tensor_descriptor \<Rightarrow> nat" where
  "td_blocks_nat d = unat (td_element_count d) div unat (block_elements (td_ggml_type d))"

definition layout_ok :: "nat \<Rightarrow> tensor_descriptor \<Rightarrow> bool" where
  "layout_ok file_size d \<longleftrightarrow>
     unat (block_elements (td_ggml_type d)) dvd unat (td_element_count d) \<and>
     unat (td_byte_len d) = td_blocks_nat d * unat (block_bytes (td_ggml_type d)) \<and>
     unat (td_absolute_offset d) + unat (td_byte_len d) \<le> file_size \<and> 32 dvd unat (td_absolute_offset d)"

definition layout_of :: "tensor_descriptor \<Rightarrow> tensor_layout" where
  "layout_of d = \<lparr>tl_format_id = td_ggml_type d, tl_logical_dtype = LogicalF32, tl_dims = td_dims d,
     tl_element_count = td_element_count d, tl_block_elements = block_elements (td_ggml_type d),
     tl_block_bytes = block_bytes (td_ggml_type d), tl_blocks = td_element_count d div block_elements (td_ggml_type d),
     tl_encoding = encoding_of_type (td_ggml_type d), tl_alignment = 32,
     tl_byte_range = \<lparr>fr_start = td_absolute_offset d, fr_end = td_absolute_offset d + td_byte_len d\<rparr>,
     tl_repack_identity = RepackNative\<rparr>"

lemma blocks_nat: "unat (td_element_count d div block_elements (td_ggml_type d)) = td_blocks_nat d"
  by (simp add: td_blocks_nat_def unat_div)

lemma mod_zero_iff: "a mod b = (0 :: u64) \<longleftrightarrow> unat b dvd unat a"
  by (metis dvd_eq_mod_eq_0 unat_eq_zero unat_mod)

lemma u64_below: "unat (x :: u64) < 18446744073709551616"
  using unsigned_less[where 'a = nat and 'b = 64, of x] by simp

lemma range_end: "unat (a :: u64) + unat b \<le> unat (c :: u64) \<Longrightarrow> unat (a + b) = unat a + unat b"
  using u64_below[of c] by (simp add: unat_word_ariths)

lemma layout_resolve_iff:
  "layout_resolve d file_size = Inr l \<longleftrightarrow> layout_ok (unat file_size) d \<and> l = layout_of d"
proof -
  let ?a = "td_absolute_offset d" and ?n = "td_byte_len d" and ?ty = "td_ggml_type d"
  let ?blocks = "td_element_count d div block_elements ?ty"
  note [simp] = layout_resolve_def Let_def layout_ok_def mod_zero_iff blocks_nat encoding_widths layout_alignment_def
  have size: "unat file_size < 2 ^ 64" using u64_below[of file_size] by simp
  show ?thesis
  proof (cases "unat (block_elements ?ty) dvd unat (td_element_count d) \<and> unat (block_bytes ?ty) dvd unat ?n")
    case False
    then show ?thesis by (auto simp del: block_units)
  next
    case geometry: True
    show ?thesis
    proof (cases "checked_mul ?blocks (block_bytes ?ty)")
      case None
      then have "unat ?n \<noteq> td_blocks_nat d * unat (block_bytes ?ty)"
        using u64_below[of ?n] by (simp add: wrap_simps blocks_nat)
      with None geometry show ?thesis by simp
    next
      case (Some len)
      then have len: "unat len = td_blocks_nat d * unat (block_bytes ?ty)" by (simp add: wrap_simps blocks_nat)
      then have exact: "?n = len \<longleftrightarrow> unat ?n = td_blocks_nat d * unat (block_bytes ?ty)" by (simp add: word_unat_eq_iff)
      show ?thesis
      proof (cases "checked_add ?a ?n")
        case None
        then have "2 ^ 64 \<le> unat ?a + unat ?n" by (simp add: wrap_simps)
        with size have "\<not> unat ?a + unat ?n \<le> unat file_size" by linarith
        with None Some geometry exact show ?thesis by simp
      next
        case (Some end')
        then have "unat end' = unat ?a + unat ?n" by (simp add: wrap_simps)
        then have "end' = ?a + ?n" "file_size < end' \<longleftrightarrow> \<not> unat ?a + unat ?n \<le> unat file_size"
          using range_end[of ?a ?n end'] by (simp_all add: word_unat_eq_iff word_less_nat_alt not_le)
        with Some \<open>checked_mul _ _ = Some len\<close> geometry exact show ?thesis by (auto simp: layout_of_def)
      qed
    qed
  qed
qed

lemma resolve_tensors_iff:
  "resolve_tensors ds file_size = Inr ls \<longleftrightarrow> list_all (layout_ok (unat file_size)) ds \<and> ls = map layout_of ds"
proof (induction ds arbitrary: ls)
  case (Cons d ds)
  show ?case
  proof (cases "layout_resolve d file_size")
    case (Inl e)
    then have "\<not> layout_ok (unat file_size) d" using layout_resolve_iff[of d file_size] by auto
    with Inl show ?thesis by simp
  next
    case (Inr l)
    then have "layout_ok (unat file_size) d" "l = layout_of d" using layout_resolve_iff by auto
    with Inr show ?thesis using Cons.IH by (cases "resolve_tensors ds file_size") auto
  qed
qed auto

section \<open>Views that build\<close>

definition in_region :: "nat \<Rightarrow> nat \<Rightarrow> tensor_descriptor \<Rightarrow> bool" where
  "in_region start end' d \<longleftrightarrow>
     start \<le> unat (td_absolute_offset d) \<and> unat (td_absolute_offset d) + unat (td_byte_len d) \<le> end'"

definition entry_of :: "tensor_descriptor \<Rightarrow> view_entry" where
  "entry_of d = view_entry_of d (layout_of d)"

lemma check_entries_iff:
  assumes "list_all (layout_ok (unat file_size)) ds" "data_end \<le> file_size"
  shows "check_entries file_size data_offset data_end (map entry_of ds) = None \<longleftrightarrow>
    list_all (in_region (unat data_offset) (unat data_end)) ds"
  using assms
proof (induction ds)
  case (Cons d ds)
  have "unat (td_absolute_offset d + td_byte_len d) = unat (td_absolute_offset d) + unat (td_byte_len d)"
    using Cons.prems(1) by (intro range_end[of _ _ file_size]) (simp add: layout_ok_def)
  with Cons show ?case
    by (auto simp: entry_of_def view_entry_of_def layout_of_def in_region_def Let_def word_le_nat_alt word_less_nat_alt layout_ok_def)
qed simp

lemma map2_map: "map2 f xs (map g xs) = map (\<lambda>x. f x (g x)) xs"
  by (induction xs) auto

definition view_ok :: "gguf_admission \<Rightarrow> bytes \<Rightarrow> bool" where
  "view_ok A bytes \<longleftrightarrow> of_nat (length bytes) = ga_file_size A \<and>
     list_all (layout_ok (unat (ga_file_size A))) (ga_tensors A) \<and>
     unat (ga_data_offset A) + unat (ga_data_len A) \<le> unat (ga_file_size A) \<and>
     list_all (in_region (unat (ga_data_offset A)) (unat (ga_data_offset A) + unat (ga_data_len A))) (ga_tensors A)"

definition view_of :: "gguf_admission \<Rightarrow> bytes \<Rightarrow> tensor_view" where
  "view_of A bytes = \<lparr>tv_file = bytes, tv_schema = ga_schema A, tv_file_size = ga_file_size A,
     tv_sha256 = pinned_sha256, tv_data_offset = ga_data_offset A, tv_data_len = ga_data_len A,
     tv_entries = map entry_of (ga_tensors A)\<rparr>"

lemma view_build_iff: "view_build A bytes = Inr v \<longleftrightarrow> view_ok A bytes \<and> v = view_of A bytes"
proof (cases "resolve_admission A")
  case (Inl e)
  then have "\<not> list_all (layout_ok (unat (ga_file_size A))) (ga_tensors A)"
    using resolve_tensors_iff[of "ga_tensors A" "ga_file_size A"] by (auto simp: resolve_admission_def)
  with Inl show ?thesis by (simp add: view_build_def view_ok_def)
next
  case (Inr ls)
  then have ok: "list_all (layout_ok (unat (ga_file_size A))) (ga_tensors A)" and ls: "ls = map layout_of (ga_tensors A)"
    using resolve_tensors_iff by (auto simp: resolve_admission_def)
  have entries: "map2 view_entry_of (ga_tensors A) ls = map entry_of (ga_tensors A)"
    by (simp add: ls map2_map entry_of_def)
  show ?thesis
  proof (cases "unat (ga_data_offset A) + unat (ga_data_len A) \<le> unat (ga_file_size A)")
    case False
    then show ?thesis
      using Inr by (auto simp: view_build_def view_ok_def Let_def checked_add_def word_less_nat_alt unat_word_ariths split: if_splits)
  next
    case True
    then have sum: "unat (ga_data_offset A + ga_data_len A) = unat (ga_data_offset A) + unat (ga_data_len A)"
      by (rule range_end)
    then have "ga_data_offset A + ga_data_len A \<le> ga_file_size A" using True by (simp add: word_le_nat_alt)
    from check_entries_iff[OF ok this, of "ga_data_offset A"] show ?thesis
      using Inr ok True sum u64_below[of "ga_file_size A"]
      by (auto simp: view_build_def view_ok_def view_of_def Let_def checked_add_def entries word_less_nat_alt split: option.split)
  qed
qed

section \<open>Reading the packed bytes\<close>

lemma concat_chunks:
  "concat (map (\<lambda>i. take n (drop (a + i * n) xs)) [0..<k]) = take (k * n) (drop a xs)"
proof (induction k)
  case (Suc k)
  have "take (k * n + n) (drop a xs) = take (k * n) (drop a xs) @ take n (drop (k * n + a) xs)"
    by (simp only: take_add drop_drop)
  then show ?case using Suc by (simp add: add.commute)
qed simp

definition tensor_bytes :: "bytes \<Rightarrow> tensor_descriptor \<Rightarrow> bytes" where
  "tensor_bytes file d = take (unat (td_byte_len d)) (drop (unat (td_absolute_offset d)) file)"

lemma file_slice_eq:
  "unat start \<le> unat end' \<Longrightarrow> unat end' \<le> length file \<Longrightarrow>
   file_slice file start end' = Some (take (unat end' - unat start) (drop (unat start) file))"
  by (simp add: file_slice_def word_le_nat_alt)

lemma file_length: "length (file :: bytes) < 2 ^ 64 \<Longrightarrow> unat (of_nat (length file) :: u64) = length file"
  by (simp add: unat_of_nat)

lemma raw_bytes_entry:
  assumes "length (tv_file v) < 2 ^ 64" "layout_ok (length (tv_file v)) d"
  shows "raw_bytes v (entry_of d) = Some (Inr (tensor_bytes (tv_file v) d))"
proof -
  let ?len = "of_nat (length (tv_file v)) :: u64"
  have "unat (td_absolute_offset d) + unat (td_byte_len d) \<le> unat ?len"
    using assms by (simp add: layout_ok_def file_length)
  then have "unat (td_absolute_offset d + td_byte_len d) = unat (td_absolute_offset d) + unat (td_byte_len d)"
    by (rule range_end)
  with assms show ?thesis
    by (simp add: raw_bytes_def entry_of_def view_entry_of_def layout_of_def Let_def word_less_nat_alt file_length
        file_slice_eq layout_ok_def tensor_bytes_def)
qed

lemma raw_block_entry:
  assumes "length (tv_file v) < 2 ^ 64" "layout_ok (length (tv_file v)) d" "i < td_blocks_nat d"
  shows "raw_block v (entry_of d) (of_nat i) = Some (Inr
    (take (unat (block_bytes (td_ggml_type d))) (drop (unat (td_absolute_offset d) + i * unat (block_bytes (td_ggml_type d))) (tv_file v))))"
proof -
  let ?a = "td_absolute_offset d" and ?s = "block_bytes (td_ggml_type d)"
  let ?len = "of_nat (length (tv_file v)) :: u64"
  have bounds: "unat ?a + unat (td_byte_len d) \<le> length (tv_file v)" "unat (td_byte_len d) = td_blocks_nat d * unat ?s"
    using assms(2) by (simp_all add: layout_ok_def)
  have last: "i * unat ?s + unat ?s \<le> td_blocks_nat d * unat ?s"
    using mult_le_mono1[of "Suc i" "td_blocks_nat d" "unat ?s"] assms(3) by simp
  have i: "unat (of_nat i :: u64) = i"
    using assms(3) u64_below[of "td_element_count d div block_elements (td_ggml_type d)"] by (simp add: unat_of_nat blocks_nat)
  have "i * unat ?s < 2 ^ 64" "unat ?a + i * unat ?s < 2 ^ 64" "unat ?a + i * unat ?s + unat ?s < 2 ^ 64"
    using bounds last assms(1) by linarith+
  then obtain off start end' where
    "checked_mul (of_nat i) ?s = Some off" "checked_add ?a off = Some start" "checked_add start ?s = Some end'"
    and nat: "unat start = unat ?a + i * unat ?s" "unat end' = unat ?a + i * unat ?s + unat ?s"
    by (auto simp: checked_mul_def checked_add_def unat_word_ariths i)
  moreover have "unat (?a + td_byte_len d) = unat ?a + unat (td_byte_len d)"
    using bounds(1) assms(1) by (intro range_end[of _ _ ?len]) (simp add: file_length)
  moreover have "\<not> td_element_count d div block_elements (td_ggml_type d) \<le> of_nat i"
    using assms(3) by (simp add: word_le_nat_alt blocks_nat i)
  ultimately show ?thesis
    using bounds last assms(1,3)
    by (simp add: raw_block_def entry_of_def view_entry_of_def layout_of_def Let_def word_less_nat_alt file_length file_slice_eq)
qed

lemma view_of_simps [simp]:
  "tv_file (view_of A bytes) = bytes" "tv_entries (view_of A bytes) = map entry_of (ga_tensors A)"
  "tv_file_size (view_of A bytes) = ga_file_size A" "tv_data_offset (view_of A bytes) = ga_data_offset A"
  "tv_data_len (view_of A bytes) = ga_data_len A"
  by (simp_all add: view_of_def)

lemma entry_of_simps [simp]:
  "ve_name (entry_of d) = td_name d" "ve_ggml_type (entry_of d) = td_ggml_type d"
  "ve_layout (entry_of d) = layout_of d" "tl_block_bytes (layout_of d) = block_bytes (td_ggml_type d)"
  "unat (tl_blocks (layout_of d)) = td_blocks_nat d"
  "fr_start (ve_byte_range (entry_of d)) = td_absolute_offset d"
  "fr_end (ve_byte_range (entry_of d)) = td_absolute_offset d + td_byte_len d"
  by (simp_all add: entry_of_def view_entry_of_def layout_of_def blocks_nat)

text \<open>Neither accessor panics, on a forged entry or a block index out of range either.\<close>

lemma accessors_never_panic:
  assumes "length (tv_file v) < 2 ^ 64"
  shows "raw_bytes v entry \<noteq> None \<and> raw_block v entry i \<noteq> None"
proof -
  have "start \<le> end' \<Longrightarrow> \<not> of_nat (length (tv_file v)) < end' \<Longrightarrow> file_slice (tv_file v) start end' \<noteq> None" for start end'
    using assms by (simp add: file_slice_def word_less_nat_alt file_length)
  moreover have "checked_add a b = Some c \<Longrightarrow> a \<le> c" for a b c :: u64
    by (simp add: wrap_simps word_le_nat_alt)
  ultimately show ?thesis
    by (fastforce simp: raw_bytes_def raw_block_def Let_def not_less split: option.split dest: order_trans)
qed

text \<open>C37: in every view that was built, from whatever admission, every tensor can be read completely: its raw
  bytes are the blocks of its type, one after the other, each block index below the count gives its block
  and every other index is refused.\<close>

theorem view_reads_whole_tensors:
  assumes "view_build A bytes = Inr v" "length bytes < 2 ^ 64" "e \<in> set (tv_entries v)"
  shows "\<exists>blocks. raw_bytes v e = Some (Inr (concat blocks)) \<and> length blocks = unat (tl_blocks (ve_layout e)) \<and>
    (\<forall>i < length blocks. raw_block v e (of_nat i) = Some (Inr (blocks ! i)) \<and>
       length (blocks ! i) = unat (block_bytes (ve_ggml_type e))) \<and>
    (\<forall>i. tl_blocks (ve_layout e) \<le> i \<longrightarrow> raw_block v e i = Some (Inl (ViewBlockOutOfBounds (ve_name e) (tl_blocks (ve_layout e)) i)))"
proof -
  from assms(1) have v: "v = view_of A bytes" and "view_ok A bytes" by (simp_all add: view_build_iff)
  then have "list_all (layout_ok (length bytes)) (ga_tensors A)"
    using assms(2) by (metis view_ok_def file_length)
  with assms(3) obtain d where e: "e = entry_of d" and d: "layout_ok (length bytes) d" by (auto simp: v list_all_iff)
  let ?n = "unat (block_bytes (td_ggml_type d))"
  let ?block = "\<lambda>i. take ?n (drop (unat (td_absolute_offset d) + i * ?n) bytes)"
  have len: "length (?block i) = ?n" if "i < td_blocks_nat d" for i
  proof -
    have "unat (td_absolute_offset d) + (i * ?n + ?n) \<le> length bytes"
      using d mult_le_mono1[of "Suc i" "td_blocks_nat d" ?n] that by (simp add: layout_ok_def)
    then show ?thesis by simp
  qed
  have whole: "concat (map ?block [0..<td_blocks_nat d]) = tensor_bytes bytes d"
    using d by (simp add: concat_chunks tensor_bytes_def layout_ok_def)
  have "raw_bytes v e = Some (Inr (tensor_bytes bytes d))"
    using raw_bytes_entry[of v d] assms(2) d by (simp add: v e)
  moreover have "raw_block v e (of_nat i) = Some (Inr (?block i))" if "i < td_blocks_nat d" for i
    using raw_block_entry[of v d i] assms(2) d that by (simp add: v e)
  moreover have "raw_block v e i = Some (Inl (ViewBlockOutOfBounds (ve_name e) (tl_blocks (ve_layout e)) i))"
    if "tl_blocks (ve_layout e) \<le> i" for i
    using that by (simp add: raw_block_def)
  ultimately show ?thesis
    using len by (intro exI[of _ "map ?block [0..<td_blocks_nat d]"]) (simp add: whole e)
qed

section \<open>The view of a placed tensor table\<close>

lemma align_up_dvd: "32 dvd unat (align_up v 32)"
proof -
  have "align_up v 32 = and (v + 31) (not (mask 5))"
    by (simp add: align_up_def mask_eq_exp_minus_1)
  then have "take_bit 5 (align_up v 32) = 0"
    by (intro bit_eqI) (auto simp: bit_simps)
  then have "take_bit 5 (unat (align_up v 32)) = 0"
    by (metis unsigned_take_bit_eq unsigned_0)
  then show ?thesis by (simp add: take_bit_eq_0_iff)
qed

text \<open>Ranges without padding between them.\<close>

fun tiled :: "nat \<Rightarrow> tensor_descriptor list \<Rightarrow> bool" where
  "tiled e [] \<longleftrightarrow> True"
| "tiled e (t # ts) \<longleftrightarrow> unat (td_offset_in_data t) = e \<and> tiled (td_end t) ts"

abbreviation data_sum :: "tensor_descriptor list \<Rightarrow> nat" where
  "data_sum ts \<equiv> sum_list (map (\<lambda>t. unat (td_byte_len t)) ts)"

lemma last_end_Cons [simp]: "last_end e (t # ts) = last_end (td_end t) ts"
  by (simp add: last_end_def)

lemma ranges_follow_sum: "ranges_follow e ts \<Longrightarrow> e + data_sum ts \<le> last_end e ts"
proof (induction e ts rule: ranges_follow.induct)
  case (2 e t ts)
  then show ?case by (simp add: td_end_def)
qed (simp add: last_end_def)

lemma tiled_iff_sum: "ranges_follow e ts \<Longrightarrow> tiled e ts \<longleftrightarrow> last_end e ts = e + data_sum ts"
proof (induction e ts rule: ranges_follow.induct)
  case (2 e t ts)
  have "td_end t + data_sum ts \<le> last_end (td_end t) ts" "e \<le> unat (td_offset_in_data t)"
    using 2 ranges_follow_sum[of "td_end t" ts] by simp_all
  moreover have "tiled (td_end t) ts \<longleftrightarrow> last_end (td_end t) ts = td_end t + data_sum ts" using 2 by simp
  ultimately show ?case by (auto simp: td_end_def)
qed (simp add: last_end_def)

lemma tiled_iff_aligned:
  "ranges_follow e ts \<Longrightarrow> list_all tensor_ok ts \<Longrightarrow> 32 dvd e \<Longrightarrow>
   tiled e ts \<longleftrightarrow> (\<forall>t \<in> set (butlast ts). 32 dvd unat (td_byte_len t))"
proof (induction e ts rule: ranges_follow.induct)
  case (2 e t ts)
  have offset: "32 dvd unat (td_offset_in_data t)" "e \<le> unat (td_offset_in_data t)" "unat (td_offset_in_data t) < e + 32"
    using 2 by (simp_all add: tensor_ok_def)
  then have e: "unat (td_offset_in_data t) = e" using 2(4) by (elim dvdE) auto
  show ?case
  proof (cases ts)
    case Nil
    then show ?thesis by (simp add: e)
  next
    case (Cons u us)
    have next_offset: "32 dvd unat (td_offset_in_data u)" using 2 Cons by (simp add: tensor_ok_def)
    show ?thesis
    proof (cases "32 dvd unat (td_byte_len t)")
      case True
      then have "32 dvd td_end t" using offset(1) by (simp add: td_end_def)
      then show ?thesis using 2 Cons True by (simp add: e)
    next
      case False
      then have "\<not> 32 dvd td_end t" using offset(1) by (simp add: td_end_def dvd_add_right_iff)
      then show ?thesis using Cons False next_offset by auto
    qed
  qed
qed simp

lemma tiled_within: "tiled e ts \<Longrightarrow> t \<in> set ts \<Longrightarrow> e \<le> unat (td_offset_in_data t) \<and> td_end t \<le> e + data_sum ts"
proof (induction e ts rule: tiled.induct)
  case (2 e u ts)
  then show ?case by (fastforce simp: td_end_def)
qed simp

lemma tiled_last: "tiled e ts \<Longrightarrow> ts \<noteq> [] \<Longrightarrow> td_end (last ts) = e + data_sum ts"
  by (induction e ts rule: tiled.induct) (auto simp: td_end_def split: if_splits)

lemma tiled_concat:
  "tiled e ts \<Longrightarrow> concat (map (\<lambda>t. take (unat (td_byte_len t)) (drop (region + unat (td_offset_in_data t)) xs)) ts)
     = take (data_sum ts) (drop (region + e) xs)"
proof (induction e ts rule: tiled.induct)
  case (2 e t ts)
  then have "tiled (td_end t) ts" "unat (td_offset_in_data t) = e" by simp_all
  with 2 show ?case by (simp add: take_add td_end_def ac_simps)
qed simp

text \<open>A tensor at its absolute offset.\<close>

definition place_at :: "u64 \<Rightarrow> tensor_descriptor \<Rightarrow> tensor_descriptor" where
  "place_at region t = t\<lparr>td_absolute_offset := region + td_offset_in_data t\<rparr>"

lemma place_at_simps [simp]:
  "td_name (place_at r t) = td_name t" "td_ggml_type (place_at r t) = td_ggml_type t"
  "td_element_count (place_at r t) = td_element_count t" "td_byte_len (place_at r t) = td_byte_len t"
  "td_absolute_offset (place_at r t) = r + td_offset_in_data t" "td_blocks_nat (place_at r t) = td_blocks_nat t"
  by (simp_all add: place_at_def td_blocks_nat_def)

lemma tensor_ok_geometry:
  assumes "tensor_ok t"
  shows "unat (block_elements (td_ggml_type t)) dvd unat (td_element_count t)"
    "unat (td_byte_len t) = td_blocks_nat t * unat (block_bytes (td_ggml_type t))"
proof -
  have count: "unat (td_element_count t) = unat (td_blocks t) * unat (block_elements (td_ggml_type t))"
    using assms by (simp add: tensor_ok_def)
  then show "unat (block_elements (td_ggml_type t)) dvd unat (td_element_count t)" by simp
  from count have "td_blocks_nat t = unat (td_blocks t)" by (simp add: td_blocks_nat_def)
  with assms show "unat (td_byte_len t) = td_blocks_nat t * unat (block_bytes (td_ggml_type t))"
    by (simp add: tensor_ok_def)
qed

lemma offset_no_wrap: "unat (r :: u64) \<le> unat (r + x) \<Longrightarrow> unat (r + x) = unat r + unat x"
  using u64_below[of r] u64_below[of x] by (simp add: unat_word_ariths mod_if split: if_splits)

lemma placed_ok:
  assumes "tiled 0 ts" "list_all tensor_ok ts" "unat region + data_sum ts \<le> file_size" "file_size < 2 ^ 64"
    "32 dvd unat region" "t \<in> set ts"
  shows "unat (region + td_offset_in_data t) = unat region + unat (td_offset_in_data t)"
    "layout_ok file_size (place_at region t)" "in_region (unat region) (unat region + data_sum ts) (place_at region t)"
proof -
  have t: "tensor_ok t" "td_end t \<le> data_sum ts" using assms(2,6) tiled_within[OF assms(1,6)] by (auto simp: list_all_iff)
  then have end': "unat region + unat (td_offset_in_data t) + unat (td_byte_len t) \<le> unat region + data_sum ts"
    by (simp add: td_end_def)
  then have "unat region + unat (td_offset_in_data t) < 2 ^ 64" using assms(3,4) by linarith
  then show abs: "unat (region + td_offset_in_data t) = unat region + unat (td_offset_in_data t)"
    by (simp add: unat_word_ariths)
  show "in_region (unat region) (unat region + data_sum ts) (place_at region t)"
    using end' by (simp add: in_region_def abs)
  have "32 dvd unat region + unat (td_offset_in_data t)" using t(1) assms(5) by (simp add: tensor_ok_def)
  then show "layout_ok file_size (place_at region t)"
    using end' assms(3) tensor_ok_geometry[OF t(1)] by (simp add: layout_ok_def abs)
qed

lemma coverage_chain_tiled:
  assumes "tiled e ts" "\<forall>t \<in> set ts. unat (region + td_offset_in_data t) = unat region + unat (td_offset_in_data t) \<and>
    unat (region + td_offset_in_data t + td_byte_len t) = unat region + td_end t \<and> unat region + td_end t \<le> unat (tv_file_size v)"
    "prev = None \<or> (\<exists>p. prev = Some p \<and> unat p = unat region + e)"
  shows "coverage_chain v prev (map (\<lambda>t. entry_of (place_at region t)) ts)"
  using assms
proof (induction e ts arbitrary: prev rule: tiled.induct)
  case (2 e t ts)
  then have "unat (region + td_offset_in_data t + td_byte_len t) = unat region + td_end t" by simp
  moreover from this 2 have "coverage_chain v (Some (region + td_offset_in_data t + td_byte_len t)) (map (\<lambda>t. entry_of (place_at region t)) ts)"
    by (intro "2.IH") auto
  ultimately show ?case using 2(2-4)
    by (auto simp: per_tensor_covered_def word_le_nat_alt word_unat_eq_iff td_end_def split: option.split)
qed simp

text \<open>The packed bytes of an entry that can be read.\<close>

definition entry_bytes :: "tensor_view \<Rightarrow> view_entry \<Rightarrow> bytes" where
  "entry_bytes v entry = (case raw_bytes v entry of Some (Inr bs) \<Rightarrow> bs | _ \<Rightarrow> [])"

text \<open>C38: for a table of tensors that the admission read and placed, the view builds exactly when every tensor
  but the last takes a multiple of 32 bytes, since the admission sizes the data region without the padding
  between tensors; and when it builds, its coverage check holds and the entries, read in order, are the
  bytes of the data region, each exactly once.\<close>

theorem view_tiles_data_region:
  assumes "read_tensors n empty_table cur = Some (Inr (tb, cur'))" "0 < n"
    and place: "place_tensors (of_nat (length bytes)) pos tb = Inr (ga_data_offset A, ga_tensors A)"
    and A: "ga_data_len A = tt_total_data_len tb" "ga_file_size A = of_nat (length bytes)" "length bytes < 2 ^ 64"
  shows "((\<exists>v. view_build A bytes = Inr v) \<longleftrightarrow> (\<forall>t \<in> set (butlast (tt_tensors tb)). 32 dvd unat (td_byte_len t))) \<and>
    (\<forall>v. view_build A bytes = Inr v \<longrightarrow> coverage_ok v \<and>
       concat (map (entry_bytes v) (tv_entries v)) = take (unat (ga_data_len A)) (drop (unat (ga_data_offset A)) bytes))"
proof -
  define ts where "ts = tt_tensors tb"
  define region where "region = ga_data_offset A"
  have table: "length ts = n" "list_all tensor_ok ts" "ranges_follow 0 ts" "unat (tt_total_data_len tb) = data_sum ts"
    using read_tensors_ok[OF assms(1) empty_table_ok] by (auto simp: ts_def table_ok_def Let_def empty_table_def)
  have placed: "32 dvd unat region" "unat region + data_sum ts \<le> length bytes" "ga_tensors A = map (place_at region) ts"
    using place align_up_dvd[of pos] A(3) table(4)
    by (auto simp: place_tensors_def Let_def gguf_alignment_def region_def ts_def place_at_def[abs_def] wrap_simps word_less_nat_alt
        file_length split: option.splits if_splits)
  have size: "unat (ga_file_size A) = length bytes" using A by (simp add: file_length)
  have tiled_iff: "tiled 0 ts \<longleftrightarrow> (\<forall>t \<in> set (butlast ts). 32 dvd unat (td_byte_len t))"
    using tiled_iff_aligned[OF table(3,2)] by simp
  note ok = placed_ok[OF _ table(2) placed(2) A(3) placed(1)]
  have "tiled 0 ts" if "view_ok A bytes"
  proof -
    have "last ts \<in> set ts" using table(1) assms(2) by (cases ts) auto
    with that have "in_region (unat region) (unat region + data_sum ts) (place_at region (last ts))"
      by (auto simp: view_ok_def placed(3) A(1) table(4) list_all_iff region_def[symmetric])
    then have "td_end (last ts) \<le> data_sum ts"
      using offset_no_wrap[of region "td_offset_in_data (last ts)"] by (simp add: in_region_def td_end_def)
    then show ?thesis
      using ranges_follow_sum[OF table(3)] tiled_iff_sum[OF table(3)] table(1) assms(2) by (auto simp: last_end_def)
  qed
  moreover have "view_ok A bytes" if "tiled 0 ts"
    using ok(2,3)[OF that] placed A(1,2) size table(4)
    by (auto simp: view_ok_def list_all_iff region_def[symmetric])
  ultimately have ok_iff: "view_ok A bytes \<longleftrightarrow> tiled 0 ts" by blast
  have "coverage_ok (view_of A bytes) \<and> concat (map (entry_bytes (view_of A bytes)) (tv_entries (view_of A bytes)))
      = take (unat (ga_data_len A)) (drop (unat (ga_data_offset A)) bytes)" if tiled: "tiled 0 ts"
  proof
    have ends: "unat (region + td_offset_in_data t + td_byte_len t) = unat region + td_end t" "td_end t \<le> data_sum ts"
      if "t \<in> set ts" for t
      using ok(1)[OF tiled that] tiled_within[OF tiled that] placed(2) A(3)
        range_end[of "region + td_offset_in_data t" "td_byte_len t" "ga_file_size A"]
      by (simp_all add: size td_end_def)
    have ne: "ts \<noteq> []" using table(1) assms(2) by auto
    have "td_offset_in_data (hd ts) = 0" using tiled ne by (cases ts) (auto simp: unat_eq_zero)
    then have hd_ts: "region + td_offset_in_data (hd ts) = region" by simp
    have "unat (region + tt_total_data_len tb) = unat region + data_sum ts"
      using placed(2) range_end[of region "tt_total_data_len tb" "ga_file_size A"] by (simp add: size table(4))
    moreover have "coverage_chain (view_of A bytes) None (map (\<lambda>t. entry_of (place_at region t)) ts)"
      using ok(1)[OF tiled] ends placed(2) by (intro coverage_chain_tiled[OF tiled]) (auto simp: size intro: order_trans[OF add_left_mono])
    ultimately show "coverage_ok (view_of A bytes)"
      using placed(2,3) A(3) ends(1)[of "last ts"] tiled_last[OF tiled ne] ne hd_ts table(4)
      by (simp add: coverage_ok_def comp_def checked_add_def region_def[symmetric] hd_map last_map word_unat_eq_iff A(1))
    have "entry_bytes (view_of A bytes) (entry_of (place_at region t)) =
        take (unat (td_byte_len t)) (drop (unat region + unat (td_offset_in_data t)) bytes)" if "t \<in> set ts" for t
      using raw_bytes_entry[of "view_of A bytes" "place_at region t"] ok(1,2)[OF tiled that] A(3)
      by (simp add: entry_bytes_def tensor_bytes_def)
    then have "concat (map (entry_bytes (view_of A bytes)) (tv_entries (view_of A bytes))) =
        concat (map (\<lambda>t. take (unat (td_byte_len t)) (drop (unat region + unat (td_offset_in_data t)) bytes)) ts)"
      by (simp add: placed(3) cong: map_cong)
    also have "\<dots> = take (data_sum ts) (drop (unat region) bytes)" using tiled_concat[OF tiled] by simp
    finally show "concat (map (entry_bytes (view_of A bytes)) (tv_entries (view_of A bytes)))
      = take (unat (ga_data_len A)) (drop (unat (ga_data_offset A)) bytes)"
      by (simp add: A(1) table(4) region_def)
  qed
  then show ?thesis using ok_iff tiled_iff by (auto simp: view_build_iff ts_def)
qed

section \<open>A file of one tensor, and one with padding\<close>

definition small_file :: bytes where
  "small_file = map of_nat [0..<68]"

definition small_admission :: "tensor_table \<Rightarrow> u64 \<Rightarrow> u64 \<Rightarrow> gguf_admission" where
  "small_admission tb region file_size = \<lparr>ga_schema = contract_schema, ga_file_size = file_size,
     ga_sha256_hex = hex_lower pinned_sha256, ga_metadata = [], ga_tensors = map (place_at region) (tt_tensors tb),
     ga_data_offset = region, ga_data_len = tt_total_data_len tb\<rparr>"

lemma first_table_read: "read_tensors 1 empty_table (at 0) = Some (Inr (first_table, at 33))"
proof -
  have dims: "read_dims name (Suc 0) [] 1 cur = Some (Inr (([1], 1), cur'))" if "u64_le cur = Some (Inr (1, cur'))" for name cur cur'
    using that by (simp add: then_parse_def max_dim_def checked_mul_def parsed_def)
  have "read_tensor empty_table (at 0) = Some (Inr (first_table, at 33))"
    by (simp add: read_tensor_def read_tensor_name_def then_parse_def parsed_def max_tensor_name_bytes_def max_tensor_dims_def
        sample_ints sample_texts dims ggml_from_id_def sample_adds empty_table_def del: read_dims.simps)
      (simp add: empty_table_def[symmetric] sample_adds parsed_def)
  then show ?thesis by (simp add: then_parse_def parsed_def)
qed

lemma first_table_placed:
  "place_tensors (of_nat (length small_file)) 33 first_table =
     Inr (ga_data_offset (small_admission first_table 64 68), ga_tensors (small_admission first_table 64 68))"
  by (simp add: place_tensors_def gguf_alignment_def checked_add_def align_up_def first_table_def sample_tensor_def
      small_admission_def place_at_def small_file_def Let_def)

lemma sample_table_placed:
  "place_tensors (of_nat (length (replicate 128 (0 :: u8)))) 66 sample_table =
     Inr (ga_data_offset (small_admission sample_table 96 128), ga_tensors (small_admission sample_table 96 128))"
  by (simp add: place_tensors_def gguf_alignment_def checked_add_def align_up_def sample_table_def sample_tensor_def
      small_admission_def place_at_def Let_def)

lemma small_admission_simps:
  "ga_data_len (small_admission tb r s) = tt_total_data_len tb" "ga_file_size (small_admission tb r s) = s"
  "ga_data_offset (small_admission tb r s) = r"
  by (simp_all add: small_admission_def)

lemma view_tiles_data_region_witness:
  "(\<exists>v. view_build (small_admission first_table 64 68) small_file = Inr v \<and> coverage_ok v \<and>
      concat (map (entry_bytes v) (tv_entries v)) = [64, 65, 66, 67]) \<and>
   (\<nexists>v. view_build (small_admission sample_table 96 128) (replicate 128 0) = Inr v)"
proof -
  have "take 4 (drop 64 small_file) = [64, 65, 66, 67]" by (simp add: small_file_def upt_rec)
  then have 1: "\<exists>v. view_build (small_admission first_table 64 68) small_file = Inr v \<and> coverage_ok v \<and>
      concat (map (entry_bytes v) (tv_entries v)) = [64, 65, 66, 67]"
    using view_tiles_data_region[OF first_table_read zero_less_one first_table_placed]
    by (simp add: small_admission_simps small_file_def) (simp add: first_table_def, blast)
  show ?thesis
    using 1 view_tiles_data_region[OF sample_table_read _ sample_table_placed]
    by (simp add: small_admission_simps sample_table_def sample_tensor_def)
qed

lemma small_view: "view_build (small_admission first_table 64 68) small_file = Inr (view_of (small_admission first_table 64 68) small_file)"
  by (simp add: view_build_iff view_ok_def small_admission_def first_table_def sample_tensor_def place_at_def small_file_def
      layout_ok_def in_region_def td_blocks_nat_def)

lemma view_reads_whole_tensors_witness:
  "\<exists>blocks. raw_bytes (view_of (small_admission first_table 64 68) small_file) (entry_of (place_at 64 (sample_tensor 97 0))) =
     Some (Inr (concat blocks)) \<and> length blocks = 1"
proof -
  have "entry_of (place_at 64 (sample_tensor 97 0)) \<in> set (tv_entries (view_of (small_admission first_table 64 68) small_file))"
    by (simp add: small_admission_def first_table_def)
  from view_reads_whole_tensors[OF small_view _ this] show ?thesis
    by (auto simp: small_file_def td_blocks_nat_def sample_tensor_def)
qed

end
