(* ===== verification/TensorKernels.thy ===== *)
theory TensorKernels
  imports TensorRuns
begin

text \<open>
  The \<open>f32\<close> kernels of \<open>src/tensor.rs\<close>. The arithmetic of \<open>f32\<close> and \<open>f64\<close> is a record of operations, so that a
  kernel is the order of its checks and the expression it computes; a literal is its decimal digits and exponent.
  Every result is a fresh tensor of the shape the code gives it.
\<close>

section \<open>Floating-point operations\<close>

record ('f, 'd) float_ops =
  fp_finite :: "'f \<Rightarrow> bool"
  fp_neg :: "'f \<Rightarrow> 'f"
  fp_add :: "'f \<Rightarrow> 'f \<Rightarrow> 'f"
  fp_sub :: "'f \<Rightarrow> 'f \<Rightarrow> 'f"
  fp_mul :: "'f \<Rightarrow> 'f \<Rightarrow> 'f"
  fp_div :: "'f \<Rightarrow> 'f \<Rightarrow> 'f"
  fp_max :: "'f \<Rightarrow> 'f \<Rightarrow> 'f"
  fp_less :: "'f \<Rightarrow> 'f \<Rightarrow> bool"
  fp_le :: "'f \<Rightarrow> 'f \<Rightarrow> bool"
  fp_eq :: "'f \<Rightarrow> 'f \<Rightarrow> bool"
  fp_sqrt :: "'f \<Rightarrow> 'f"
  fp_tanh :: "'f \<Rightarrow> 'f"
  fp_exp :: "'f \<Rightarrow> 'f"
  fp_ln :: "'f \<Rightarrow> 'f"
  fp_lit :: "int \<Rightarrow> int \<Rightarrow> 'f"
  fp_pi :: 'f
  fp_neg_infinity :: 'f
  fp_of_usize :: "nat \<Rightarrow> 'f"
  fp_widen :: "'f \<Rightarrow> 'd"
  fp_narrow :: "'d \<Rightarrow> 'f"
  dp_add :: "'d \<Rightarrow> 'd \<Rightarrow> 'd"
  dp_sub :: "'d \<Rightarrow> 'd \<Rightarrow> 'd"
  dp_mul :: "'d \<Rightarrow> 'd \<Rightarrow> 'd"
  dp_div :: "'d \<Rightarrow> 'd \<Rightarrow> 'd"
  dp_zero :: 'd
  dp_sum_start :: 'd
  dp_of_usize :: "nat \<Rightarrow> 'd"

abbreviation fp_zero :: "('f, 'd) float_ops \<Rightarrow> 'f" where
  "fp_zero fp \<equiv> fp_lit fp 0 0"

abbreviation fp_one :: "('f, 'd) float_ops \<Rightarrow> 'f" where
  "fp_one fp \<equiv> fp_lit fp 1 0"

datatype kernel_error =
    ReluNonFiniteInput | SqrtNonFiniteInput | SqrtNegativeInput | GeluNonFiniteInput | ExpNonFiniteInput | ExpOverflow
  | LogNonFiniteInput | LogNonPositiveInput | LogNonFiniteResult | SoftmaxNonFiniteInput | SoftmaxEmptyTensor
  | CruxEntropiaNonFiniteInput | CruxEntropiaEmptyTensor | CruxEntropiaTargetNonFinite | CruxEntropiaTargetRange
  | CruxEntropiaShapeMismatch | CruxEntropiaRank | DivideNonFiniteInput | DivideZeroDenominator | DivideNonFiniteResult
  | MediaEmpty | LayernormNonFiniteInput | LayernormEmptyTensor | LayernormRankTooHigh | LayernormAxisOutOfRange
  | LayernormGammaShapeMismatch | LayernormBetaShapeMismatch | LayernormGammaNonFinite | LayernormBetaNonFinite
  | LayernormEpsilonInvalid | TensorRefused tensor_error

type_synonym 'f kernel_result = "(kernel_error + tensor \<times> 'f buffers) option"

text \<open>\<open>map(...).collect::<Result<Vec<_>, _>>()\<close>, and the loops that push each result.\<close>

fun try_map :: "('a \<Rightarrow> 'e + 'b) \<Rightarrow> 'a list \<Rightarrow> 'e + 'b list" where
  "try_map f [] = Inr []"
| "try_map f (x # xs) = (case f x of
     Inl e \<Rightarrow> Inl e
   | Inr y \<Rightarrow> (case try_map f xs of Inl e \<Rightarrow> Inl e | Inr ys \<Rightarrow> Inr (y # ys)))"

definition tensor_made :: "'f list \<Rightarrow> nat list \<Rightarrow> 'f buffers \<Rightarrow> 'f kernel_result" where
  "tensor_made data shape bufs = Some (Inr (from_contiguous data shape bufs))"

section \<open>Elementwise kernels\<close>

definition tensor_neg :: "('f, 'd) float_ops \<Rightarrow> tensor \<Rightarrow> 'f buffers \<Rightarrow> (tensor \<times> 'f buffers) option" where
  "tensor_neg fp t bufs = map_option (\<lambda>data. from_contiguous (map (fp_neg fp) data) (tn_shape t) bufs) (planata bufs t)"

definition tensor_scala :: "('f, 'd) float_ops \<Rightarrow> 'f \<Rightarrow> tensor \<Rightarrow> 'f buffers \<Rightarrow> (tensor \<times> 'f buffers) option" where
  "tensor_scala fp factor t bufs =
     map_option (\<lambda>data. from_contiguous (map (\<lambda>v. fp_mul fp v factor) data) (tn_shape t) bufs) (planata bufs t)"

definition tensor_relu :: "('f, 'd) float_ops \<Rightarrow> tensor \<Rightarrow> 'f buffers \<Rightarrow> 'f kernel_result" where
  "tensor_relu fp t bufs = (case planata bufs t of
     None \<Rightarrow> None
   | Some data \<Rightarrow> (case try_each (\<lambda>v. if \<not> fp_finite fp v then Some ReluNonFiniteInput else None) data of
       Some e \<Rightarrow> Some (Inl e)
     | None \<Rightarrow> tensor_made (map (\<lambda>v. fp_max fp v (fp_zero fp)) data) (tn_shape t) bufs))"

definition tensor_sqrt :: "('f, 'd) float_ops \<Rightarrow> tensor \<Rightarrow> 'f buffers \<Rightarrow> 'f kernel_result" where
  "tensor_sqrt fp t bufs = (case planata bufs t of
     None \<Rightarrow> None
   | Some data \<Rightarrow>
       (case try_each (\<lambda>v. if \<not> fp_finite fp v then Some SqrtNonFiniteInput
            else if fp_less fp v (fp_zero fp) then Some SqrtNegativeInput else None) data of
          Some e \<Rightarrow> Some (Inl e)
        | None \<Rightarrow> tensor_made (map (fp_sqrt fp) data) (tn_shape t) bufs))"

definition gelu_value :: "('f, 'd) float_ops \<Rightarrow> 'f \<Rightarrow> 'f" where
  "gelu_value fp x =
     (let alpha = fp_sqrt fp (fp_div fp (fp_lit fp 2 0) (fp_pi fp));
          beta = fp_lit fp 44715 (- 6);
          cube = fp_mul fp (fp_mul fp x x) x
      in fp_mul fp (fp_mul fp (fp_lit fp 5 (- 1)) x)
           (fp_add fp (fp_one fp) (fp_tanh fp (fp_mul fp alpha (fp_add fp x (fp_mul fp beta cube))))))"

definition tensor_gelu :: "('f, 'd) float_ops \<Rightarrow> tensor \<Rightarrow> 'f buffers \<Rightarrow> 'f kernel_result" where
  "tensor_gelu fp t bufs = (case planata bufs t of
     None \<Rightarrow> None
   | Some data \<Rightarrow> (case try_each (\<lambda>v. if \<not> fp_finite fp v then Some GeluNonFiniteInput else None) data of
       Some e \<Rightarrow> Some (Inl e)
     | None \<Rightarrow> tensor_made (map (gelu_value fp) data) (tn_shape t) bufs))"

definition tensor_exp :: "('f, 'd) float_ops \<Rightarrow> tensor \<Rightarrow> 'f buffers \<Rightarrow> 'f kernel_result" where
  "tensor_exp fp t bufs = (case planata bufs t of
     None \<Rightarrow> None
   | Some data \<Rightarrow> (case try_each (\<lambda>v. if \<not> fp_finite fp v then Some ExpNonFiniteInput else None) data of
       Some e \<Rightarrow> Some (Inl e)
     | None \<Rightarrow>
         (case try_map (\<lambda>v. let result = fp_exp fp v in if \<not> fp_finite fp result then Inl ExpOverflow else Inr result) data of
            Inl e \<Rightarrow> Some (Inl e)
          | Inr out \<Rightarrow> tensor_made out (tn_shape t) bufs)))"

definition tensor_log :: "('f, 'd) float_ops \<Rightarrow> tensor \<Rightarrow> 'f buffers \<Rightarrow> 'f kernel_result" where
  "tensor_log fp t bufs = (case planata bufs t of
     None \<Rightarrow> None
   | Some data \<Rightarrow>
       (case try_each (\<lambda>v. if \<not> fp_finite fp v then Some LogNonFiniteInput
            else if fp_le fp v (fp_zero fp) then Some LogNonPositiveInput else None) data of
          Some e \<Rightarrow> Some (Inl e)
        | None \<Rightarrow>
            (case try_map (\<lambda>v. let result = fp_ln fp v in if \<not> fp_finite fp result then Inl LogNonFiniteResult else Inr result) data of
               Inl e \<Rightarrow> Some (Inl e)
             | Inr out \<Rightarrow> tensor_made out (tn_shape t) bufs)))"

definition checked_divide_f32 :: "('f, 'd) float_ops \<Rightarrow> 'f \<Rightarrow> 'f \<Rightarrow> kernel_error + 'f" where
  "checked_divide_f32 fp numerator denominator =
     (if \<not> fp_finite fp numerator \<or> \<not> fp_finite fp denominator then Inl DivideNonFiniteInput
      else if fp_eq fp denominator (fp_zero fp) then Inl DivideZeroDenominator
      else let result = fp_div fp numerator denominator in
        if \<not> fp_finite fp result then Inl DivideNonFiniteResult else Inr result)"

definition tensor_reciproca :: "('f, 'd) float_ops \<Rightarrow> tensor \<Rightarrow> 'f buffers \<Rightarrow> 'f kernel_result" where
  "tensor_reciproca fp t bufs = (case planata bufs t of
     None \<Rightarrow> None
   | Some data \<Rightarrow> (case try_map (checked_divide_f32 fp (fp_one fp)) data of
       Inl e \<Rightarrow> Some (Inl e)
     | Inr out \<Rightarrow> tensor_made out (tn_shape t) bufs))"

text \<open>The loop of \<open>divide\<close>: an element that panics or fails ends it.\<close>

fun divide_loop :: "('f, 'd) float_ops \<Rightarrow> tensor \<Rightarrow> tensor \<Rightarrow> nat list \<Rightarrow> 'f buffers \<Rightarrow> nat list \<Rightarrow> (kernel_error + 'f list) option" where
  "divide_loop fp lhs rhs shape bufs [] = Some (Inr [])"
| "divide_loop fp lhs rhs shape bufs (ordinal # ordinals) = (case unravel_index ordinal shape of
     None \<Rightarrow> None
   | Some index \<Rightarrow> (case value_at_logical bufs lhs (broadcast_index index (tn_shape lhs)) of
       None \<Rightarrow> None
     | Some a \<Rightarrow> (case value_at_logical bufs rhs (broadcast_index index (tn_shape rhs)) of
         None \<Rightarrow> None
       | Some b \<Rightarrow> (case checked_divide_f32 fp a b of
           Inl e \<Rightarrow> Some (Inl e)
         | Inr q \<Rightarrow> map_option (map_sum (\<lambda>e. e) (Cons q)) (divide_loop fp lhs rhs shape bufs ordinals)))))"

definition tensor_divide :: "('f, 'd) float_ops \<Rightarrow> tensor \<Rightarrow> tensor \<Rightarrow> 'f buffers \<Rightarrow> 'f kernel_result" where
  "tensor_divide fp lhs rhs bufs = (case broadcast_shape (tn_shape lhs) (tn_shape rhs) of
     Inl e \<Rightarrow> Some (Inl (TensorRefused e))
   | Inr shape \<Rightarrow> (case checked_allocation_count 4 shape of
       Inl e \<Rightarrow> Some (Inl (TensorRefused e))
     | Inr n \<Rightarrow> (case divide_loop fp lhs rhs shape bufs [0..<n] of
         None \<Rightarrow> None
       | Some (Inl e) \<Rightarrow> Some (Inl e)
       | Some (Inr data) \<Rightarrow> tensor_made data shape bufs)))"

definition tensor_media :: "('f, 'd) float_ops \<Rightarrow> tensor \<Rightarrow> 'f buffers \<Rightarrow> (kernel_error + 'f) option" where
  "tensor_media fp t bufs = (case element_count t of
     None \<Rightarrow> None
   | Some n \<Rightarrow>
       if n = 0 then Some (Inl MediaEmpty)
       else map_option (\<lambda>s. Inr (fp_div fp s (fp_of_usize fp n))) (summa (fp_add fp) (fp_zero fp) bufs t))"

section \<open>Softmax and cross-entropy\<close>

definition softmax_row :: "('f, 'd) float_ops \<Rightarrow> 'f list \<Rightarrow> 'f list" where
  "softmax_row fp row =
     (let max_val = foldl (fp_max fp) (fp_neg_infinity fp) row;
          exps = map (\<lambda>v. fp_exp fp (fp_sub fp v max_val)) row;
          exp_sum = foldl (fp_add fp) (fp_zero fp) exps
      in map (\<lambda>e. fp_div fp e exp_sum) exps)"

text \<open>\<open>self.shape[rank - 1]\<close> panics for a tensor without axes.\<close>

definition tensor_softmax :: "('f, 'd) float_ops \<Rightarrow> tensor \<Rightarrow> 'f buffers \<Rightarrow> 'f kernel_result" where
  "tensor_softmax fp t bufs = (case element_count t of
     None \<Rightarrow> None
   | Some n \<Rightarrow>
       if n = 0 then Some (Inl SoftmaxEmptyTensor)
       else case planata bufs t of
         None \<Rightarrow> None
       | Some flat \<Rightarrow> (case try_each (\<lambda>v. if \<not> fp_finite fp v then Some SoftmaxNonFiniteInput else None) flat of
           Some e \<Rightarrow> Some (Inl e)
         | None \<Rightarrow>
             if tn_shape t = [] then None
             else let last_dim = last (tn_shape t); batch = n div last_dim in
               tensor_made (concat (map (\<lambda>b. softmax_row fp (take last_dim (drop (b * last_dim) flat))) [0..<batch]))
                 (tn_shape t) bufs))"

definition crux_entropia_value :: "('f, 'd) float_ops \<Rightarrow> nat \<Rightarrow> 'f list \<Rightarrow> 'f list \<Rightarrow> 'f" where
  "crux_entropia_value fp last_dim softmax_data targets_data =
     fp_div fp
       (foldl (\<lambda>acc (s, t). fp_sub fp acc (fp_mul fp t (fp_ln fp (fp_add fp s (fp_lit fp 1 (- 7)))))) (fp_zero fp)
          (zip softmax_data targets_data))
       (fp_of_usize fp last_dim)"

definition tensor_crux_entropia :: "('f, 'd) float_ops \<Rightarrow> tensor \<Rightarrow> tensor \<Rightarrow> 'f buffers \<Rightarrow> (kernel_error + 'f) option" where
  "tensor_crux_entropia fp t targets bufs = (case element_count t of
     None \<Rightarrow> None
   | Some n \<Rightarrow>
       if n = 0 then Some (Inl CruxEntropiaEmptyTensor)
       else case planata bufs t of None \<Rightarrow> None | Some data \<Rightarrow>
       (case try_each (\<lambda>v. if \<not> fp_finite fp v then Some CruxEntropiaNonFiniteInput else None) data of
          Some e \<Rightarrow> Some (Inl e)
        | None \<Rightarrow> (case planata bufs targets of None \<Rightarrow> None | Some targets_data \<Rightarrow>
            (case try_each (\<lambda>v. if \<not> fp_finite fp v then Some CruxEntropiaTargetNonFinite
                 else if \<not> (fp_le fp (fp_zero fp) v \<and> fp_le fp v (fp_one fp)) then Some CruxEntropiaTargetRange else None) targets_data of
               Some e \<Rightarrow> Some (Inl e)
             | None \<Rightarrow>
                 if magnitudines t \<noteq> magnitudines targets then Some (Inl CruxEntropiaShapeMismatch)
                 else if \<not> (1 \<le> length (tn_shape t) \<and> length (tn_shape t) \<le> 2) then Some (Inl CruxEntropiaRank)
                 else (case tensor_softmax fp t bufs of
                     None \<Rightarrow> None
                   | Some (Inl e) \<Rightarrow> Some (Inl e)
                   | Some (Inr (softmax, bufs')) \<Rightarrow>
                       map_option (\<lambda>softmax_data. Inr (crux_entropia_value fp (last (tn_shape t)) softmax_data targets_data))
                         (planata bufs' softmax))))))"

section \<open>Layer normalization\<close>

text \<open>Mean and variance in \<open>f64\<close> from a start value, and the normalized and shifted element.\<close>

definition moments :: "('f, 'd) float_ops \<Rightarrow> 'd \<Rightarrow> 'f list \<Rightarrow> 'f \<times> 'f" where
  "moments fp start xs =
     (let n = dp_of_usize fp (length xs);
          mean = fp_narrow fp (dp_div fp (foldl (dp_add fp) start (map (fp_widen fp) xs)) n);
          squares = map (\<lambda>v. let d = dp_sub fp (fp_widen fp v) (fp_widen fp mean) in dp_mul fp d d) xs
      in (mean, fp_narrow fp (dp_div fp (foldl (dp_add fp) start squares) n)))"

definition normalized :: "('f, 'd) float_ops \<Rightarrow> 'f \<Rightarrow> 'f \<times> 'f \<Rightarrow> 'f list option \<Rightarrow> 'f list option \<Rightarrow> nat \<Rightarrow> 'f \<Rightarrow> 'f" where
  "normalized fp epsilon stats gamma_data beta_data i v =
     (let (mean, var) = stats;
          inv_std = fp_div fp (fp_one fp) (fp_sqrt fp (fp_add fp var epsilon));
          norm = fp_mul fp (fp_sub fp v mean) inv_std
      in case (gamma_data, beta_data) of
           (Some g, Some b) \<Rightarrow> fp_add fp (fp_mul fp norm (g ! i)) (b ! i)
         | (Some g, None) \<Rightarrow> fp_mul fp norm (g ! i)
         | (None, Some b) \<Rightarrow> fp_add fp norm (b ! i)
         | (None, None) \<Rightarrow> norm)"

definition layernorm_values ::
  "('f, 'd) float_ops \<Rightarrow> 'f \<Rightarrow> nat list \<Rightarrow> nat \<Rightarrow> 'f list option \<Rightarrow> 'f list option \<Rightarrow> 'f list \<Rightarrow> 'f list" where
  "layernorm_values fp epsilon shape axis gamma_data beta_data data =
     (if length shape = 1 then
        let stats = moments fp (dp_sum_start fp) data in
        map (\<lambda>(i, v). normalized fp epsilon stats gamma_data beta_data i v) (enumerate 0 data)
      else let rows = shape ! 0; cols = shape ! 1 in
        if axis = 1 then
          concat (map (\<lambda>r. let row = take cols (drop (r * cols) data); stats = moments fp (dp_sum_start fp) row in
            map (\<lambda>c. normalized fp epsilon stats gamma_data beta_data c (data ! (r * cols + c))) [0..<cols]) [0..<rows])
        else
          let columns = map (\<lambda>c. moments fp (dp_zero fp) (map (\<lambda>r. data ! (r * cols + c)) [0..<rows])) [0..<cols] in
          concat (map (\<lambda>r. map (\<lambda>c. normalized fp epsilon (columns ! c) gamma_data beta_data r (data ! (r * cols + c)))
            [0..<cols]) [0..<rows]))"

text \<open>The check of gamma, and that of beta: its data, or the error.\<close>

definition affine_checked ::
  "('f, 'd) float_ops \<Rightarrow> kernel_error \<Rightarrow> kernel_error \<Rightarrow> nat \<Rightarrow> 'f buffers \<Rightarrow> tensor option \<Rightarrow> (kernel_error + 'f list option) option" where
  "affine_checked fp shape_error finite_error dim bufs affine = (case affine of
     None \<Rightarrow> Some (Inr None)
   | Some g \<Rightarrow> (case planata bufs g of None \<Rightarrow> None | Some g_data \<Rightarrow>
       if length (tn_shape g) \<noteq> 1 \<or> tn_shape g ! 0 \<noteq> dim then Some (Inl shape_error)
       else (case try_each (\<lambda>v. if \<not> fp_finite fp v then Some finite_error else None) g_data of
           Some e \<Rightarrow> Some (Inl e)
         | None \<Rightarrow> Some (Inr (Some g_data)))))"

definition tensor_layernorm ::
  "('f, 'd) float_ops \<Rightarrow> i64 \<Rightarrow> 'f \<Rightarrow> tensor option \<Rightarrow> tensor option \<Rightarrow> tensor \<Rightarrow> 'f buffers \<Rightarrow> 'f kernel_result" where
  "tensor_layernorm fp axis epsilon gamma beta t bufs =
     (if \<not> fp_finite fp epsilon \<or> fp_le fp epsilon (fp_zero fp) then Some (Inl LayernormEpsilonInvalid)
      else case element_count t of None \<Rightarrow> None | Some n \<Rightarrow>
        if n = 0 then Some (Inl LayernormEmptyTensor)
        else if length (tn_shape t) > 2 then Some (Inl LayernormRankTooHigh)
        else if length (tn_shape t) = 0 then Some (Inl LayernormRankTooHigh)
        else if sint axis < 0 then Some (Inl LayernormAxisOutOfRange)
        else if unat axis \<ge> length (tn_shape t) then Some (Inl LayernormAxisOutOfRange)
        else case planata bufs t of None \<Rightarrow> None | Some data \<Rightarrow>
        (case try_each (\<lambda>v. if \<not> fp_finite fp v then Some LayernormNonFiniteInput else None) data of
           Some e \<Rightarrow> Some (Inl e)
         | None \<Rightarrow>
             (case affine_checked fp LayernormGammaShapeMismatch LayernormGammaNonFinite (tn_shape t ! unat axis) bufs gamma of
                None \<Rightarrow> None
              | Some (Inl e) \<Rightarrow> Some (Inl e)
              | Some (Inr gamma_data) \<Rightarrow>
                  (case affine_checked fp LayernormBetaShapeMismatch LayernormBetaNonFinite (tn_shape t ! unat axis) bufs beta of
                     None \<Rightarrow> None
                   | Some (Inl e) \<Rightarrow> Some (Inl e)
                   | Some (Inr beta_data) \<Rightarrow>
                       tensor_made (layernorm_values fp epsilon (tn_shape t) (unat axis) gamma_data beta_data data) (tn_shape t) bufs))))"

section \<open>No kernel panics on a tensor with axes\<close>

definition kernel_ok :: "'f buffers \<Rightarrow> nat list \<Rightarrow> 'f kernel_result \<Rightarrow> bool" where
  "kernel_ok bufs shape r \<longleftrightarrow> (\<exists>e. r = Some (Inl e)) \<or> (\<exists>data u bufs'. r = Some (Inr (u, bufs')) \<and> fresh_tensor bufs data shape u bufs')"

lemma kernel_ok_error [simp]: "kernel_ok bufs shape (Some (Inl e))"
  by (simp add: kernel_ok_def)

lemma kernel_ok_made:
  assumes "store_ok bufs" "checked_element_count_usize shape = Some (length data)"
  shows "kernel_ok bufs shape (tensor_made data shape bufs)"
  using from_contiguous_fresh[OF assms prod.collapse[symmetric]]
  by (cases "from_contiguous data shape bufs") (auto simp: kernel_ok_def tensor_made_def)

lemma length_try_map: "try_map f xs = Inr ys \<Longrightarrow> length ys = length xs"
  by (induction xs arbitrary: ys) (auto split: sum.splits)

lemma length_softmax_row [simp]: "length (softmax_row fp row) = length row"
  by (simp add: softmax_row_def Let_def)

lemma length_concat_const: "(\<And>i. i < m \<Longrightarrow> length (f i) = n) \<Longrightarrow> length (concat (map f [0..<m])) = m * n"
  by (induction m) simp_all

lemma row_length:
  assumes "length data = m * n" "i < m"
  shows "length (take n (drop (i * n) data)) = n"
proof -
  have "i * n + n \<le> m * n" using assms(2) mult_le_mono1[of "Suc i" m n] by simp
  then show ?thesis using assms(1) by simp
qed

lemma divide_loop_ok:
  assumes "store_ok bufs" "tensor_ok bufs lhs" "tensor_ok bufs rhs" "broadcast_shape (tn_shape lhs) (tn_shape rhs) = Inr shape"
    "\<forall>k \<in> set ks. k < prod_list shape"
  shows "(\<exists>e. divide_loop fp lhs rhs shape bufs ks = Some (Inl e)) \<or>
    (\<exists>data. divide_loop fp lhs rhs shape bufs ks = Some (Inr data) \<and> length data = length ks)"
  using assms(5)
proof (induction ks)
  case (Cons k ks)
  then have k: "k < prod_list shape" by simp
  then have "index_in shape (coords shape k)" using flat_cases[of k shape] by metis
  note sides = broadcast_sides[OF assms(4) this]
  have "unravel_index k shape = Some (coords shape k)" by (rule unravel_index_in[OF k])
  with value_at_entry[OF assms(1,2) conjunct1[OF sides]] value_at_entry[OF assms(1,3) conjunct2[OF sides]] Cons show ?case
    by (auto split: sum.split)
qed simp

lemma layernorm_length:
  assumes "length data = prod_list shape" "length shape = 1 \<or> length shape = 2"
  shows "length (layernorm_values fp epsilon shape axis g b data) = length data"
proof (cases "length shape = 1")
  case False
  with assms(2) have "shape = [shape ! 0, shape ! 1]" by (simp only: two_axes) simp
  then have "prod_list shape = shape ! 0 * shape ! 1" by (metis prod_list.Cons prod_list.Nil mult.right_neutral)
  with False assms(1) show ?thesis
    by (simp add: layernorm_values_def Let_def length_concat_const[where n = "shape ! 1"] del: length_concat)
qed (simp add: layernorm_values_def Let_def)

lemma affine_checked_total:
  "store_ok bufs \<Longrightarrow> \<forall>g. affine = Some g \<longrightarrow> tensor_ok bufs g \<Longrightarrow>
   \<exists>r. affine_checked fp shape_error finite_error dim bufs affine = Some r"
  by (auto simp: affine_checked_def planata_ok split: option.split)

text \<open>On tensors of a program no \<open>f32\<close> kernel panics, softmax excepted on a tensor without axes; each answers an
  error of its own, or a fresh tensor of its operand's shape, for a division the broadcast one.\<close>

theorem kernels_never_panic:
  assumes "store_ok bufs" "tensor_ok bufs t" "tensor_ok bufs u" "\<forall>g. gamma = Some g \<longrightarrow> tensor_ok bufs g" "\<forall>b. beta = Some b \<longrightarrow> tensor_ok bufs b"
  shows "kernel_ok bufs (tn_shape t) (tensor_relu fp t bufs) \<and> kernel_ok bufs (tn_shape t) (tensor_sqrt fp t bufs) \<and>
    kernel_ok bufs (tn_shape t) (tensor_gelu fp t bufs) \<and> kernel_ok bufs (tn_shape t) (tensor_exp fp t bufs) \<and>
    kernel_ok bufs (tn_shape t) (tensor_log fp t bufs) \<and> kernel_ok bufs (tn_shape t) (tensor_reciproca fp t bufs) \<and>
    kernel_ok bufs (map (joined_dim (tn_shape t) (tn_shape u) (max (length (tn_shape t)) (length (tn_shape u))))
      [0..<max (length (tn_shape t)) (length (tn_shape u))]) (tensor_divide fp t u bufs) \<and>
    kernel_ok bufs (tn_shape t) (tensor_layernorm fp axis epsilon gamma beta t bufs) \<and>
    (tn_shape t \<noteq> [] \<longrightarrow> kernel_ok bufs (tn_shape t) (tensor_softmax fp t bufs))"
proof -
  have n: "checked_element_count_usize (tn_shape t) = Some (prod_list (tn_shape t))"
    using tensor_ok_count[OF assms(2)] by (simp add: element_count_def)
  note flat = planata_ok[OF assms(1,2)] length_elements[OF assms(2)]
  have made: "kernel_ok bufs (tn_shape t) (tensor_made data (tn_shape t) bufs)" if "length data = prod_list (tn_shape t)" for data
    using that n by (intro kernel_ok_made[OF assms(1)]) simp
  have simple: "kernel_ok bufs (tn_shape t) (tensor_relu fp t bufs)" "kernel_ok bufs (tn_shape t) (tensor_sqrt fp t bufs)"
    "kernel_ok bufs (tn_shape t) (tensor_gelu fp t bufs)" "kernel_ok bufs (tn_shape t) (tensor_exp fp t bufs)"
    "kernel_ok bufs (tn_shape t) (tensor_log fp t bufs)" "kernel_ok bufs (tn_shape t) (tensor_reciproca fp t bufs)"
    unfolding tensor_relu_def tensor_sqrt_def tensor_gelu_def tensor_exp_def tensor_log_def tensor_reciproca_def
    using flat by (auto intro!: made dest: length_try_map split: option.split sum.split)
  have divide: "kernel_ok bufs (map (joined_dim (tn_shape t) (tn_shape u) (max (length (tn_shape t)) (length (tn_shape u))))
      [0..<max (length (tn_shape t)) (length (tn_shape u))]) (tensor_divide fp t u bufs)"
  proof (cases "broadcast_shape (tn_shape t) (tn_shape u)")
    case (Inr shape)
    show ?thesis
    proof (cases "checked_allocation_count 4 shape")
      case Inr': (Inr m)
      then have m: "checked_element_count_usize shape = Some m" by (simp add: allocation_count_Inr)
      have "kernel_ok bufs shape (tensor_divide fp t u bufs)"
        using divide_loop_ok[OF assms(1-3) Inr, of "[0..<m]" fp] checked_count_Some[OF m] kernel_ok_made[OF assms(1)] m
        by (auto simp: tensor_divide_def Inr Inr')
      moreover have "shape = map (joined_dim (tn_shape t) (tn_shape u) (max (length (tn_shape t)) (length (tn_shape u))))
        [0..<max (length (tn_shape t)) (length (tn_shape u))]"
        using Inr by (simp add: broadcast_shape_eq split: if_splits)
      ultimately show ?thesis by simp
    qed (simp add: tensor_divide_def Inr)
  qed (simp add: tensor_divide_def)
  have layernorm: "kernel_ok bufs (tn_shape t) (tensor_layernorm fp axis epsilon gamma beta t bufs)"
  proof -
    have rank: "length (tn_shape t) \<noteq> 0 \<Longrightarrow> \<not> 2 < length (tn_shape t) \<Longrightarrow> length (tn_shape t) = 1 \<or> length (tn_shape t) = 2"
      by linarith
    obtain r r' where r: "affine_checked fp LayernormGammaShapeMismatch LayernormGammaNonFinite (tn_shape t ! unat axis) bufs gamma = Some r"
      "affine_checked fp LayernormBetaShapeMismatch LayernormBetaNonFinite (tn_shape t ! unat axis) bufs beta = Some r'"
      using affine_checked_total[OF assms(1,4)] affine_checked_total[OF assms(1,5)] by metis
    have out: "kernel_ok bufs (tn_shape t) (tensor_made (layernorm_values fp epsilon (tn_shape t) (unat axis) g b (elements bufs t)) (tn_shape t) bufs)"
      if "length (tn_shape t) \<noteq> 0" "\<not> 2 < length (tn_shape t)" for g b
      using layernorm_length[OF flat(2) rank[OF that]] flat(2) by (intro made) simp
    show ?thesis
      unfolding tensor_layernorm_def
      using tensor_ok_count[OF assms(2)] flat r out
      by (cases r; cases r') (auto split: option.split)
  qed
  have softmax: "kernel_ok bufs (tn_shape t) (tensor_softmax fp t bufs)" if "tn_shape t \<noteq> []"
  proof -
    let ?d = "last (tn_shape t)" and ?P = "prod_list (tn_shape t)"
    have "?P = prod_list (butlast (tn_shape t)) * ?d"
      using that by (metis append_butlast_last_id prod_list.append prod_list.Cons prod_list.Nil mult.right_neutral)
    then have "?P = ?P div ?d * ?d" by simp
    then have "length (concat (map (\<lambda>b. softmax_row fp (take ?d (drop (b * ?d) (elements bufs t)))) [0..<?P div ?d])) = ?P"
      using flat(2) row_length[of "elements bufs t" "?P div ?d" ?d] by (subst length_concat_const[where n = ?d]) auto
    with made show ?thesis
      unfolding tensor_softmax_def using tensor_ok_count[OF assms(2)] flat that by (auto simp: Let_def split: option.split)
  qed
  from simple divide layernorm softmax show ?thesis by blast
qed

definition sample_floats :: "(int, int) float_ops" where
  "sample_floats = \<lparr>fp_finite = (\<lambda>_. True), fp_neg = uminus, fp_add = (+), fp_sub = (-), fp_mul = (*), fp_div = (div),
     fp_max = max, fp_less = (<), fp_le = (\<le>), fp_eq = (=), fp_sqrt = id, fp_tanh = id, fp_exp = id, fp_ln = id,
     fp_lit = (\<lambda>m e. m), fp_pi = 3, fp_neg_infinity = - 1000, fp_of_usize = int, fp_widen = id, fp_narrow = id,
     dp_add = (+), dp_sub = (-), dp_mul = (*), dp_div = (div), dp_zero = 0, dp_sum_start = 0, dp_of_usize = int\<rparr>"

lemma kernels_never_panic_witness:
  "kernel_ok [[1, 2, 3, 4 :: int]] [2, 2] (tensor_softmax sample_floats sample_matrix [[1, 2, 3, 4]])"
proof -
  have "tn_shape sample_matrix = [2, 2]" by (simp add: sample_matrix_def)
  with kernels_never_panic[OF sample_matrix_ok sample_matrix_ok(2), of None None sample_floats] show ?thesis by simp
qed

text \<open>The only panic: a tensor without axes holds one element, passes every check and has no last axis.\<close>

lemma softmax_without_axes_panics:
  assumes "fp_finite fp v"
  shows "tensor_softmax fp (fst (vacua v bufs)) (snd (vacua v bufs)) = None"
  using assms
  by (simp add: tensor_softmax_def vacua_def from_contiguous_def element_count_def count_empty planata_def logical_offsets_def
      unravel_index_def logical_offset_for_index_def at_index_def tensor_data_def usize_range_def)

end
