(* ===== verification/Dequant.thy ===== *)
theory Dequant
  imports TensorView TensorKernels
begin

text \<open>
  The dequantization of packed blocks (\<open>src/dequant.rs\<close>): the widening of a half to an \<open>f32\<close>, bit by bit, the
  kernels of the five block types, and the block, row and tensor entry points over the view of the file. The
  multiplications and subtractions of \<open>f32\<close> come from the record of operations; the bits of every operand
  and the order of the operations are written out. An outer \<open>None\<close> is a panic.
\<close>

record ('f, 'd) quant_ops = "('f, 'd) float_ops" +
  fp_from_bits :: "u32 \<Rightarrow> 'f"
  fp_of_int :: "int \<Rightarrow> 'f"

datatype dequant_error =
  CoverageNotOk
| EntryNotCovered ustr
| RepackNotNative
| RowBytesMismatch u64 u64
| BlockBytesMismatch u64 u64
| DequantView view_error

section \<open>Halves\<close>

fun bit_length :: "nat \<Rightarrow> nat" where
  "bit_length n = (if n = 0 then 0 else Suc (bit_length (n div 2)))"

declare bit_length.simps [simp del]

definition leading_zeros :: "u32 \<Rightarrow> u32" where
  "leading_zeros x = of_nat (32 - bit_length (unat x))"

definition half_bits :: "16 word \<Rightarrow> u32" where
  "half_bits bits =
     (let sign = and (ucast (drop_bit 15 bits)) 0x1;
          exp = and (ucast (drop_bit 10 bits)) 0x1f;
          frac = ucast (and bits 0x3ff) in
      if exp = 0 then
        if frac = 0 then push_bit 31 sign
        else let p = 32 - leading_zeros frac in
          or (or (push_bit 31 sign) (push_bit 23 (p + 102))) (push_bit (unat (24 - p)) frac - push_bit 23 1)
      else if exp = 0x1f then or (or (push_bit 31 sign) (push_bit 23 0xff)) (push_bit 13 frac)
      else or (or (push_bit 31 sign) (push_bit 23 (exp + 112))) (push_bit 13 frac))"

definition half_to_f32 :: "('f, 'd) quant_ops \<Rightarrow> 16 word \<Rightarrow> 'f" where
  "half_to_f32 fp bits = fp_from_bits fp (half_bits bits)"

section \<open>The kernels\<close>

text \<open>A kernel reads every byte of its block; a shorter block is an index out of range.\<close>

abbreviation block_half :: "bytes \<Rightarrow> nat \<Rightarrow> 16 word" where
  "block_half block i \<equiv> of_nat (from_le_bytes [block ! i, block ! (i + 1)])"

definition dequant_q8_0 :: "('f, 'd) quant_ops \<Rightarrow> bytes \<Rightarrow> 'f list option" where
  "dequant_q8_0 fp block =
     (if length block < 34 then None
      else let d = half_to_f32 fp (block_half block 0) in
        Some (map (\<lambda>j. fp_mul fp (fp_of_int fp (sint (block ! (2 + j)))) d) [0..<32]))"

definition q5_0_quants :: "u32 \<Rightarrow> bytes \<Rightarrow> nat \<Rightarrow> int \<times> int" where
  "q5_0_quants qh qs j =
     (let xh_0 = and (push_bit 4 (drop_bit j qh)) 0x10;
          xh_1 = and (drop_bit (j + 12) qh) 0x10
      in (uint (or (and (qs ! j) 0x0f) (ucast xh_0)) - 16, uint (or (drop_bit 4 (qs ! j)) (ucast xh_1)) - 16))"

definition dequant_q5_0 :: "('f, 'd) quant_ops \<Rightarrow> bytes \<Rightarrow> 'f list option" where
  "dequant_q5_0 fp block =
     (if length block < 22 then None
      else let d = half_to_f32 fp (block_half block 0);
               qh = of_nat (from_le_bytes [block ! 2, block ! 3, block ! 4, block ! 5]);
               qs = take 16 (drop 6 block)
        in Some (map (\<lambda>j. fp_mul fp (fp_of_int fp (fst (q5_0_quants qh qs j))) d) [0..<16] @
                 map (\<lambda>j. fp_mul fp (fp_of_int fp (snd (q5_0_quants qh qs j))) d) [0..<16]))"

definition get_scale_min_k4 :: "nat \<Rightarrow> bytes \<Rightarrow> u8 \<times> u8" where
  "get_scale_min_k4 index scales =
     (if index < 4 then (and (scales ! index) 63, and (scales ! (index + 4)) 63)
      else (or (and (scales ! (index + 4)) 0x0f) (push_bit 4 (drop_bit 6 (scales ! (index - 4)))),
            or (drop_bit 4 (scales ! (index + 4))) (push_bit 4 (drop_bit 6 (scales ! index)))))"

text \<open>The two halves of one chunk of 64 elements, with the scales and the minimums of both.\<close>

definition q4_k_chunk :: "('f, 'd) quant_ops \<Rightarrow> 'f \<Rightarrow> 'f \<Rightarrow> bytes \<Rightarrow> bytes \<Rightarrow> nat \<Rightarrow> 'f list" where
  "q4_k_chunk fp d min' scales qs chunk =
     (let (sc1, mn1) = get_scale_min_k4 (2 * chunk) scales;
          (sc2, mn2) = get_scale_min_k4 (2 * chunk + 1) scales;
          d1 = fp_mul fp d (fp_of_int fp (uint sc1)); m1 = fp_mul fp min' (fp_of_int fp (uint mn1));
          d2 = fp_mul fp d (fp_of_int fp (uint sc2)); m2 = fp_mul fp min' (fp_of_int fp (uint mn2))
      in map (\<lambda>l. fp_sub fp (fp_mul fp d1 (fp_of_int fp (uint (and (qs ! (32 * chunk + l)) 0x0f)))) m1) [0..<32] @
         map (\<lambda>l. fp_sub fp (fp_mul fp d2 (fp_of_int fp (uint (drop_bit 4 (qs ! (32 * chunk + l)))))) m2) [0..<32])"

definition dequant_q4_k :: "('f, 'd) quant_ops \<Rightarrow> bytes \<Rightarrow> 'f list option" where
  "dequant_q4_k fp block =
     (if length block < 144 then None
      else let d = half_to_f32 fp (block_half block 0);
               min' = half_to_f32 fp (block_half block 2);
               scales = take 12 (drop 4 block);
               qs = take 128 (drop 16 block)
        in Some (concat (map (q4_k_chunk fp d min' scales qs) [0..<4])))"

text \<open>The quants of group \<open>n\<close> at stride \<open>32 * k\<close>, position \<open>l\<close>.\<close>

definition q6_k_quant :: "bytes \<Rightarrow> bytes \<Rightarrow> nat \<Rightarrow> nat \<Rightarrow> nat \<Rightarrow> int" where
  "q6_k_quant ql qh n k l =
     (let low = ql ! (64 * n + l + (if k = 1 \<or> k = 3 then 32 else 0));
          nibble = (if k < 2 then and low 0x0f else drop_bit 4 low);
          high = push_bit 4 (and (drop_bit (2 * k) (qh ! (32 * n + l))) 3)
      in uint (or nibble high) - 32)"

definition q6_k_group :: "('f, 'd) quant_ops \<Rightarrow> 'f \<Rightarrow> bytes \<Rightarrow> bytes \<Rightarrow> bytes \<Rightarrow> nat \<Rightarrow> 'f list" where
  "q6_k_group fp d ql qh sc n =
     concat (map (\<lambda>k. map (\<lambda>l.
       fp_mul fp (fp_mul fp d (fp_of_int fp (sint (sc ! (8 * n + l div 16 + 2 * k)))))
         (fp_of_int fp (q6_k_quant ql qh n k l))) [0..<32]) [0..<4])"

definition dequant_q6_k :: "('f, 'd) quant_ops \<Rightarrow> bytes \<Rightarrow> 'f list option" where
  "dequant_q6_k fp block =
     (if length block < 210 then None
      else let d = half_to_f32 fp (block_half block 208);
               ql = take 128 block; qh = take 64 (drop 128 block); sc = take 16 (drop 192 block)
        in Some (concat (map (q6_k_group fp d ql qh sc) [0..<2])))"

definition dequant_f32 :: "('f, 'd) quant_ops \<Rightarrow> bytes \<Rightarrow> 'f list option" where
  "dequant_f32 fp block =
     (if length block < 4 then None
      else Some [fp_from_bits fp (of_nat (from_le_bytes [block ! 0, block ! 1, block ! 2, block ! 3]))])"

fun dequant_kernel :: "('f, 'd) quant_ops \<Rightarrow> ggml_type \<Rightarrow> bytes \<Rightarrow> 'f list option" where
  "dequant_kernel fp F32 = dequant_f32 fp"
| "dequant_kernel fp Q4_K = dequant_q4_k fp"
| "dequant_kernel fp Q5_0 = dequant_q5_0 fp"
| "dequant_kernel fp Q6_K = dequant_q6_k fp"
| "dequant_kernel fp Q8_0 = dequant_q8_0 fp"

section \<open>Blocks, rows and tensors\<close>

type_synonym 'f dequant_result = "(dequant_error + 'f list) option"

definition dequant_block :: "('f, 'd) quant_ops \<Rightarrow> tensor_layout \<Rightarrow> bytes \<Rightarrow> 'f dequant_result" where
  "dequant_block fp layout block =
     (if tl_repack_identity layout \<noteq> RepackNative then Some (Inl RepackNotNative)
      else if length block \<noteq> unat (tl_block_bytes layout)
      then Some (Inl (BlockBytesMismatch (tl_block_bytes layout) (of_nat (length block))))
      else map_option Inr (dequant_kernel fp (tl_format_id layout) block))"

fun dequant_chunks :: "('f, 'd) quant_ops \<Rightarrow> tensor_layout \<Rightarrow> bytes list \<Rightarrow> 'f dequant_result" where
  "dequant_chunks fp layout [] = Some (Inr [])"
| "dequant_chunks fp layout (chunk # chunks) = (case dequant_block fp layout chunk of
     None \<Rightarrow> None
   | Some (Inl e) \<Rightarrow> Some (Inl e)
   | Some (Inr ys) \<Rightarrow> (case dequant_chunks fp layout chunks of
       None \<Rightarrow> None
     | Some (Inl e) \<Rightarrow> Some (Inl e)
     | Some (Inr zs) \<Rightarrow> Some (Inr (ys @ zs))))"

text \<open>\<open>Vec::with_capacity\<close> panics above \<open>isize::MAX\<close> bytes, \<open>chunks_exact\<close> at a chunk of no bytes; the product
  of the block count and the block width wraps.\<close>

definition dequant_row :: "('f, 'd) quant_ops \<Rightarrow> tensor_layout \<Rightarrow> bytes \<Rightarrow> 'f dequant_result" where
  "dequant_row fp layout packed =
     (let expected = tl_blocks layout * tl_block_bytes layout in
      if of_nat (length packed) \<noteq> expected then Some (Inl (RowBytesMismatch expected (of_nat (length packed))))
      else if 2 ^ 63 \<le> 4 * unat (tl_element_count layout) \<or> tl_block_bytes layout = 0 then None
      else dequant_chunks fp layout (fst (chunks_exact (unat (tl_block_bytes layout)) packed)))"

definition dequant_tensor :: "('f, 'd) quant_ops \<Rightarrow> tensor_view \<Rightarrow> view_entry \<Rightarrow> 'f dequant_result" where
  "dequant_tensor fp v e =
     (if \<not> coverage_ok v then Some (Inl CoverageNotOk)
      else if \<not> per_tensor_covered v e then Some (Inl (EntryNotCovered (ve_name e)))
      else (case raw_bytes v e of
        None \<Rightarrow> None
      | Some (Inl err) \<Rightarrow> Some (Inl (DequantView err))
      | Some (Inr bytes) \<Rightarrow> dequant_row fp (ve_layout e) bytes))"

section \<open>The receipt\<close>

datatype oracle_purpose = CpuOracle

definition oracle_transform_impl :: string where
  "oracle_transform_impl = ''ggml/src/ggml-quants.c @ a957b7747''"

record oracle_receipt =
  or_source_tensor :: ustr
  or_source_encoding :: ggml_type
  or_source_byte_range :: file_range
  or_dest_element_count :: u64
  or_dest_byte_extent :: u64
  or_transform_impl :: string
  or_purpose :: oracle_purpose
  or_output_digest :: "bytes option"
  or_timing_us :: "u64 option"
  or_peak_temp_bytes :: "u64 option"

definition receipt_for_tensor :: "tensor_view \<Rightarrow> view_entry \<Rightarrow> dequant_error + oracle_receipt" where
  "receipt_for_tensor v e =
     (if \<not> coverage_ok v then Inl CoverageNotOk
      else if \<not> per_tensor_covered v e then Inl (EntryNotCovered (ve_name e))
      else if tl_repack_identity (ve_layout e) \<noteq> RepackNative then Inl RepackNotNative
      else let expected = tl_blocks (ve_layout e) * tl_block_bytes (ve_layout e) in
        if file_range_len (ve_byte_range e) \<noteq> expected
        then Inl (RowBytesMismatch expected (file_range_len (ve_byte_range e)))
        else Inr \<lparr>or_source_tensor = ve_name e, or_source_encoding = ve_ggml_type e,
          or_source_byte_range = ve_byte_range e, or_dest_element_count = ve_element_count e,
          or_dest_byte_extent = ve_element_count e * logical_bytes (tl_logical_dtype (ve_layout e)),
          or_transform_impl = oracle_transform_impl, or_purpose = CpuOracle, or_output_digest = None,
          or_timing_us = None, or_peak_temp_bytes = None\<rparr>)"

definition with_fixture_evidence :: "bytes \<Rightarrow> u64 \<Rightarrow> u64 \<Rightarrow> oracle_receipt \<Rightarrow> oracle_receipt" where
  "with_fixture_evidence digest timing_us peak receipt =
     receipt\<lparr>or_output_digest := Some digest, or_timing_us := Some timing_us, or_peak_temp_bytes := Some peak\<rparr>"

section \<open>The widening is exact\<close>

definition half_sign :: "16 word \<Rightarrow> nat" where "half_sign b = unat (drop_bit 15 b)"
definition half_exp :: "16 word \<Rightarrow> nat" where "half_exp b = unat (take_bit 5 (drop_bit 10 b))"
definition half_frac :: "16 word \<Rightarrow> nat" where "half_frac b = unat (take_bit 10 b)"
definition f32_sign :: "u32 \<Rightarrow> nat" where "f32_sign w = unat (drop_bit 31 w)"
definition f32_exp :: "u32 \<Rightarrow> nat" where "f32_exp w = unat (take_bit 8 (drop_bit 23 w))"
definition f32_frac :: "u32 \<Rightarrow> nat" where "f32_frac w = unat (take_bit 23 w)"

text \<open>The magnitude of a finite half in units of \<open>2\<^sup>-\<^sup>2\<^sup>4\<close>, and of a finite \<open>f32\<close> in units of \<open>2\<^sup>-\<^sup>1\<^sup>4\<^sup>9\<close>.\<close>

definition half_magnitude :: "16 word \<Rightarrow> nat" where
  "half_magnitude b = (if half_exp b = 0 then half_frac b else (1024 + half_frac b) * 2 ^ (half_exp b - 1))"

definition f32_magnitude :: "u32 \<Rightarrow> nat" where
  "f32_magnitude w = (if f32_exp w = 0 then f32_frac w else (2 ^ 23 + f32_frac w) * 2 ^ (f32_exp w - 1))"

lemma take_bit_self: "unat (w :: 'a::len word) < 2 ^ n \<Longrightarrow> take_bit n w = w"
  by (simp add: word_unat_eq_iff unsigned_take_bit_eq take_bit_nat_eq_self_iff)

lemma bit_below: "unat (w :: 'a::len word) < 2 ^ n \<Longrightarrow> bit w k \<Longrightarrow> k < n"
  using take_bit_self[of w n] by (metis bit_take_bit_iff)

lemma f32_fields:
  assumes "unat s < 2 ^ 1" "unat e < 2 ^ 8" "unat f < 2 ^ 23"
  shows "f32_sign (or (or (push_bit 31 s) (push_bit 23 e)) f) = unat s"
    "f32_exp (or (or (push_bit 31 s) (push_bit 23 e)) f) = unat e"
    "f32_frac (or (or (push_bit 31 s) (push_bit 23 e)) f) = unat f"
proof -
  note bits = bit_below[OF assms(1)] bit_below[OF assms(2)] bit_below[OF assms(3)]
  have "drop_bit 31 (or (or (push_bit 31 s) (push_bit 23 e)) f) = s"
    by (intro bit_eqI) (auto simp: bit_simps dest: bits)
  then show "f32_sign (or (or (push_bit 31 s) (push_bit 23 e)) f) = unat s" by (simp add: f32_sign_def)
  have "take_bit 8 (drop_bit 23 (or (or (push_bit 31 s) (push_bit 23 e)) f)) = e"
    by (intro bit_eqI) (auto simp: bit_simps dest: bits)
  then show "f32_exp (or (or (push_bit 31 s) (push_bit 23 e)) f) = unat e" by (simp add: f32_exp_def)
  have "take_bit 23 (or (or (push_bit 31 s) (push_bit 23 e)) f) = f"
    by (intro bit_eqI) (auto simp: bit_simps dest: bits)
  then show "f32_frac (or (or (push_bit 31 s) (push_bit 23 e)) f) = unat f" by (simp add: f32_frac_def)
qed

lemma bit_length_bounds: "0 < n \<Longrightarrow> 2 ^ (bit_length n - 1) \<le> n \<and> n < 2 ^ bit_length n \<and> 0 < bit_length n"
proof (induction n rule: bit_length.induct)
  case (1 n)
  show ?case
  proof (cases "n div 2 = 0")
    case True
    then have "n = 1" using 1(2) by simp
    then show ?thesis by (simp add: bit_length.simps)
  next
    case False
    then obtain m where m: "bit_length (n div 2) = Suc m" "2 ^ m \<le> n div 2" "n div 2 < 2 ^ Suc m"
      using 1 by (cases "bit_length (n div 2)") auto
    then have "bit_length n = Suc (Suc m)" using 1(2) by (subst bit_length.simps) simp
    then show ?thesis using m by auto
  qed
qed

lemma half_parts:
  "and (ucast (drop_bit 15 b)) 0x1 = (of_nat (half_sign b) :: u32)" "half_sign b < 2"
  "and (ucast (drop_bit 10 b)) 0x1f = (of_nat (half_exp b) :: u32)" "half_exp b < 32"
  "ucast (and b 0x3ff) = (of_nat (half_frac b) :: u32)" "half_frac b < 1024"
proof -
  have mask: "1 = (mask 1 :: u32)" "0x1f = (mask 5 :: u32)" "0x3ff = (mask 10 :: 16 word)"
    by (simp_all add: mask_eq_exp_minus_1)
  have "unat (drop_bit 15 b) = unat b div 2 ^ 15" by (simp add: drop_bit_eq_div unat_div)
  then show sign: "half_sign b < 2" using unsigned_less[where 'a = nat, of b] by (simp add: half_sign_def)
  then have "take_bit 1 (ucast (drop_bit 15 b) :: u32) = ucast (drop_bit 15 b)"
    by (intro take_bit_self) (simp add: half_sign_def unsigned_ucast_eq order_le_less_trans[OF take_bit_nat_less_eq_self])
  then show "and (ucast (drop_bit 15 b)) 0x1 = (of_nat (half_sign b) :: u32)"
    unfolding mask(1) take_bit_eq_mask[symmetric] by (simp add: half_sign_def)
  have "and (ucast (drop_bit 10 b)) 0x1f = (ucast (take_bit 5 (drop_bit 10 b)) :: u32)"
    unfolding mask(2) take_bit_eq_mask[symmetric] by (intro bit_eqI) (auto simp: bit_simps)
  then show "and (ucast (drop_bit 10 b)) 0x1f = (of_nat (half_exp b) :: u32)" by (simp add: half_exp_def)
  show "half_exp b < 32" using take_bit_nat_less_exp[of 5 "unat (drop_bit 10 b)"] by (simp add: half_exp_def unsigned_take_bit_eq)
  have "ucast (and b 0x3ff) = (ucast (take_bit 10 b) :: u32)"
    unfolding mask(3) take_bit_eq_mask[symmetric] by simp
  then show "ucast (and b 0x3ff) = (of_nat (half_frac b) :: u32)" by (simp add: half_frac_def)
  show "half_frac b < 1024" using take_bit_nat_less_exp[of 10 "unat b"] by (simp add: half_frac_def unsigned_take_bit_eq)
qed

lemma subnormal_fraction:
  assumes "0 < f" "f < 1024"
  defines "p \<equiv> bit_length f"
  shows "p \<le> 10" "32 - leading_zeros (of_nat f) = of_nat p"
    "unat (push_bit (24 - p) (of_nat f) - push_bit 23 1 :: u32) = f * 2 ^ (24 - p) - 2 ^ 23"
    "2 ^ 23 \<le> f * 2 ^ (24 - p)" "f * 2 ^ (24 - p) < 2 ^ 24"
proof -
  have b: "2 ^ (p - 1) \<le> f" "f < 2 ^ p" "0 < p" using bit_length_bounds[OF assms(1)] by (simp_all add: p_def)
  show p: "p \<le> 10"
  proof (rule ccontr)
    assume "\<not> p \<le> 10"
    then have "(2 :: nat) ^ 10 \<le> 2 ^ (p - 1)" by (intro power_increasing) auto
    with b(1) assms(2) show False by simp
  qed
  have uf: "unat (of_nat f :: u32) = f" using assms(2) by (simp add: unat_of_nat)
  show "32 - leading_zeros (of_nat f) = of_nat p" using p by (simp add: leading_zeros_def uf p_def[symmetric] of_nat_diff)
  have "(2 :: nat) ^ (p - 1) * 2 ^ (24 - p) = 2 ^ 23" "(2 :: nat) ^ p * 2 ^ (24 - p) = 2 ^ 24"
    using p b(3) by (simp_all add: power_add[symmetric])
  then show lo: "2 ^ 23 \<le> f * 2 ^ (24 - p)" and hi: "f * 2 ^ (24 - p) < 2 ^ 24"
    using mult_le_mono1[OF b(1), of "2 ^ (24 - p)"] mult_less_mono1[OF b(2), of "2 ^ (24 - p)"] by simp_all
  have "unat (push_bit (24 - p) (of_nat f) :: u32) = f * 2 ^ (24 - p)"
    using hi by (simp only: unsigned_push_bit_eq uf) (simp add: take_bit_nat_eq_self_iff push_bit_eq_mult)
  then show "unat (push_bit (24 - p) (of_nat f) - push_bit 23 1 :: u32) = f * 2 ^ (24 - p) - 2 ^ 23"
    using lo by (subst unat_sub) (simp_all add: word_le_nat_alt push_bit_eq_mult)
qed

text \<open>C39: the widening of a half is exact. The sign is kept; a finite half becomes a finite \<open>f32\<close> of the same
  value, the subnormals by way of the position of their leading bit; and an infinity or a NaN keeps its
  fraction, shifted.\<close>

theorem half_widening_exact:
  "f32_sign (half_bits b) = half_sign b \<and>
   (half_exp b < 31 \<longrightarrow> f32_exp (half_bits b) < 255 \<and> f32_magnitude (half_bits b) = 2 ^ 125 * half_magnitude b) \<and>
   (half_exp b = 31 \<longrightarrow> f32_exp (half_bits b) = 255 \<and> f32_frac (half_bits b) = 2 ^ 13 * half_frac b)"
proof -
  note parts = half_parts[of b]
  define s e f where "s = (of_nat (half_sign b) :: u32)" and "e = (of_nat (half_exp b) :: u32)" and "f = (of_nat (half_frac b) :: u32)"
  have nat: "unat s = half_sign b" "unat e = half_exp b" "unat f = half_frac b"
    using parts(2,4,6) by (simp_all add: s_def e_def f_def unat_of_nat)
  have bits: "half_bits b = (if e = 0 then if f = 0 then push_bit 31 s
      else or (or (push_bit 31 s) (push_bit 23 (32 - leading_zeros f + 102)))
             (push_bit (unat (24 - (32 - leading_zeros f))) f - push_bit 23 1)
      else if e = 0x1f then or (or (push_bit 31 s) (push_bit 23 0xff)) (push_bit 13 f)
      else or (or (push_bit 31 s) (push_bit 23 (e + 112))) (push_bit 13 f))"
    by (simp add: half_bits_def parts(1,3,5) Let_def s_def e_def f_def)
  have s: "unat s < 2 ^ 1" using parts(2) by (simp add: nat)
  have zero: "e = 0 \<longleftrightarrow> half_exp b = 0" "f = 0 \<longleftrightarrow> half_frac b = 0" "e = 0x1f \<longleftrightarrow> half_exp b = 31"
    by (simp_all add: word_unat_eq_iff nat)
  have shifted: "unat (push_bit 13 f) = 2 ^ 13 * half_frac b"
    using parts(6) by (simp add: push_bit_eq_mult unat_word_ariths nat)
  then have frac: "unat (push_bit 13 f) < 2 ^ 23" using parts(6) by simp
  consider "half_exp b = 0" "half_frac b = 0" | "half_exp b = 0" "0 < half_frac b" | "half_exp b = 31"
    | "0 < half_exp b" "half_exp b < 31"
    using parts(4) by linarith
  then show ?thesis
  proof cases
    case 1
    then have "half_bits b = or (or (push_bit 31 s) (push_bit 23 0)) 0" by (simp add: bits zero)
    then show ?thesis using f32_fields[OF s, of 0 0] 1 by (simp add: nat f32_magnitude_def half_magnitude_def)
  next
    case 2
    let ?p = "bit_length (half_frac b)"
    note sub = subnormal_fraction[OF 2(2) parts(6)]
    have p: "32 - leading_zeros f = of_nat ?p" using sub(2) by (simp add: f_def)
    have shift: "unat (24 - (of_nat ?p :: u32)) = 24 - ?p"
      using sub(1) by (subst unat_sub) (simp_all add: word_le_nat_alt unat_of_nat)
    have e': "unat (of_nat ?p + 102 :: u32) = ?p + 102" using sub(1) by (simp add: unat_word_ariths unat_of_nat)
    define F where "F = push_bit (24 - ?p) f - push_bit 23 1"
    have F: "unat F = half_frac b * 2 ^ (24 - ?p) - 2 ^ 23" using sub(3) by (simp add: F_def f_def)
    have w: "half_bits b = or (or (push_bit 31 s) (push_bit 23 (of_nat ?p + 102))) F"
      using 2 by (simp add: bits zero p shift F_def)
    have fields: "f32_sign (half_bits b) = half_sign b" "f32_exp (half_bits b) = ?p + 102" "f32_frac (half_bits b) = unat F"
      unfolding w using f32_fields[OF s, of "of_nat ?p + 102" F] sub(1,4,5) F by (simp_all add: e' nat)
    have "half_frac b * 2 ^ (24 - ?p) * 2 ^ (101 + ?p) = half_frac b * 2 ^ 125"
      using sub(1) by (simp add: power_add[symmetric] mult.assoc)
    then show ?thesis
      using 2 sub(1,4) by (simp add: fields F f32_magnitude_def half_magnitude_def)
  next
    case 3
    then have w: "half_bits b = or (or (push_bit 31 s) (push_bit 23 0xff)) (push_bit 13 f)" by (simp add: bits zero(1,3))
    show ?thesis unfolding w using f32_fields[OF s _ frac, of "0xff"] 3 by (simp add: nat shifted)
  next
    case 4
    then have w: "half_bits b = or (or (push_bit 31 s) (push_bit 23 (e + 112))) (push_bit 13 f)" by (simp add: bits zero(1,3))
    have e: "unat (e + 112) = half_exp b + 112" using parts(4) by (simp add: unat_word_ariths nat)
    have fields: "f32_sign (half_bits b) = half_sign b" "f32_exp (half_bits b) = half_exp b + 112"
      "f32_frac (half_bits b) = 2 ^ 13 * half_frac b"
      unfolding w using f32_fields[OF s _ frac, of "e + 112"] parts(4) by (simp_all add: e nat shifted)
    have "(2 :: nat) ^ (half_exp b + 111) = 2 ^ 112 * 2 ^ (half_exp b - 1)"
      using 4 by (cases "half_exp b") (simp_all add: power_add)
    then show ?thesis
      using 4 by (simp add: fields f32_magnitude_def half_magnitude_def algebra_simps)
  qed
qed

lemma half_widening_exact_witness:
  "f32_magnitude (half_bits 0x0001) = 2 ^ 125 \<and> f32_magnitude (half_bits 0x3C00) = 2 ^ 149 \<and> f32_exp (half_bits 0xFC00) = 255"
proof -
  have "half_exp 0x0001 = 0" "half_frac 0x0001 = 1" "half_exp 0x3C00 = 15" "half_frac 0x3C00 = 0" "half_exp 0xFC00 = 31"
    by (simp_all add: half_exp_def half_frac_def)
  then show ?thesis
    using half_widening_exact[of "0x0001"] half_widening_exact[of "0x3C00"] half_widening_exact[of "0xFC00"]
    by (simp add: half_magnitude_def)
qed

section \<open>The quants\<close>

lemma or_high_bits:
  assumes "unat (a :: u8) < 16" "unat (c :: u8) < 16"
  shows "unat (or a (push_bit 4 c)) = unat a + 16 * unat c"
proof -
  have "k < 4" if "bit a k" for k using bit_below[of a 4 k] assms(1) that by simp
  then have "a + push_bit 4 c = or a (push_bit 4 c)"
    by (intro disjunctive_add) (auto simp: bit_simps not_le)
  moreover have "unat (a + push_bit 4 c) = unat a + 16 * unat c"
    using assms by (simp add: push_bit_eq_mult unat_word_ariths)
  ultimately show ?thesis by simp
qed

text \<open>The kernels of the blocks: complete on a block of their width, and as many elements as the type says.\<close>

lemma dequant_kernel_total:
  assumes "length block = unat (block_bytes ty)"
  shows "\<exists>ys. dequant_kernel fp ty block = Some ys \<and> length ys = unat (block_elements ty)"
proof (cases ty)
  case Q4_K
  then show ?thesis using assms
    by (simp add: dequant_q4_k_def Let_def length_concat comp_def q4_k_chunk_def case_prod_beta sum_list_triv)
next
  case Q6_K
  then show ?thesis using assms
    by (simp add: dequant_q6_k_def Let_def length_concat comp_def q6_k_group_def sum_list_triv)
qed (use assms in \<open>simp_all add: dequant_f32_def dequant_q5_0_def dequant_q8_0_def Let_def\<close>)

lemma chunks_exact_of_blocks:
  "0 < n \<Longrightarrow> \<forall>b \<in> set blocks. length b = n \<Longrightarrow> fst (chunks_exact n (concat blocks)) = blocks"
  by (induction blocks) (simp_all add: chunks_exact_short chunks_exact_step)

definition block_values :: "('f, 'd) quant_ops \<Rightarrow> ggml_type \<Rightarrow> bytes \<Rightarrow> 'f list" where
  "block_values fp ty block = the (dequant_kernel fp ty block)"

lemma dequant_chunks_native:
  assumes "tl_repack_identity l = RepackNative" "tl_block_bytes l = block_bytes (tl_format_id l)"
    "\<forall>b \<in> set blocks. length b = unat (tl_block_bytes l)"
  shows "dequant_chunks fp l blocks = Some (Inr (concat (map (block_values fp (tl_format_id l)) blocks)))"
  using assms(3)
proof (induction blocks)
  case (Cons b blocks)
  then obtain ys where "dequant_kernel fp (tl_format_id l) b = Some ys"
    using dequant_kernel_total[of b "tl_format_id l" fp] assms(2) by auto
  with Cons show ?case by (simp add: dequant_block_def assms(1) block_values_def)
qed simp

text \<open>What the nibbles and the high bits of a quant add up to.\<close>

lemma low_nibble: "unat (and (a :: u8) 0x0f) = unat a mod 16" "unat (drop_bit 4 (a :: u8)) = unat a div 16"
proof -
  have "and a 0x0f = take_bit 4 a" by (simp add: take_bit_eq_mask mask_eq_exp_minus_1)
  then show "unat (and a 0x0f) = unat a mod 16" by (simp add: unsigned_take_bit_eq take_bit_eq_mod unat_mod)
  show "unat (drop_bit 4 a) = unat a div 16" by (simp add: drop_bit_eq_div unat_div)
qed

lemma nibble_less: "unat (and (a :: u8) 0x0f) < 16" "unat (drop_bit 4 (a :: u8)) < 16"
  using unsigned_less[where 'a = nat, of a] by (simp_all add: low_nibble)

lemma uint_quant:
  assumes "unat (a :: u8) < 16" "unat (c :: u8) < 16"
  shows "uint (or a (push_bit 4 c)) = int (unat a + 16 * unat c)"
  using or_high_bits[OF assms] by (metis uint_nat)

lemma q6_k_quant_value:
  "q6_k_quant ql qh n k l =
     int ((if k < 2 then unat (ql ! (64 * n + l + (if k = 1 \<or> k = 3 then 32 else 0))) mod 16
           else unat (ql ! (64 * n + l + (if k = 1 \<or> k = 3 then 32 else 0))) div 16)
          + 16 * (unat (drop_bit (2 * k) (qh ! (32 * n + l))) mod 4)) - 32"
proof -
  have three: "unat (and (a :: u8) 3) = unat a mod 4" for a
  proof -
    have "and a 3 = take_bit 2 a" by (simp add: take_bit_eq_mask mask_eq_exp_minus_1)
    then show ?thesis by (simp add: unsigned_take_bit_eq take_bit_eq_mod unat_mod)
  qed
  have top: "unat (a :: u8) div 16 < 16" for a using nibble_less(2)[of a] by (simp only: low_nibble)
  have uint_nibble: "uint (and (a :: u8) 0x0f) = int (unat a mod 16)" "uint (drop_bit 4 a) = int (unat a div 16)" for a
    by (metis low_nibble(1) uint_nat) (metis low_nibble(2) uint_nat)
  show ?thesis
    unfolding q6_k_quant_def Let_def by (simp add: uint_quant top low_nibble uint_nibble three del: push_bit_and)
qed

lemma scale_min_range: "unat (fst (get_scale_min_k4 i scales)) < 64" "unat (snd (get_scale_min_k4 i scales)) < 64"
proof -
  have mask: "unat (and (a :: u8) 63) < 64" for a
  proof -
    have "and a 63 = take_bit 6 a" by (simp add: take_bit_eq_mask mask_eq_exp_minus_1)
    then show ?thesis using take_bit_nat_less_exp[of 6 "unat a"] by (simp add: unsigned_take_bit_eq)
  qed
  have top: "unat (drop_bit 6 (a :: u8)) < 4" for a
    using unsigned_less[where 'a = nat, of a] by (simp add: drop_bit_eq_div unat_div)
  have "unat (or b (push_bit 4 (drop_bit 6 a))) < 64" if "unat b < 16" for a b :: u8
    using or_high_bits[of b "drop_bit 6 a"] that top[of a] by simp
  then show "unat (fst (get_scale_min_k4 i scales)) < 64" "unat (snd (get_scale_min_k4 i scales)) < 64"
    using mask nibble_less by (auto simp: get_scale_min_k4_def)
qed

section \<open>Rows and tensors\<close>

lemma native_fields [simp]:
  "tl_repack_identity (layout_of d) = RepackNative" "tl_format_id (layout_of d) = td_ggml_type d"
  "tl_element_count (layout_of d) = td_element_count d" "tl_logical_dtype (layout_of d) = LogicalF32"
  "ve_element_count (entry_of d) = td_element_count d"
  "tl_byte_range (layout_of d) = ve_byte_range (entry_of d)"
  by (simp_all add: layout_of_def entry_of_def view_entry_of_def)

text \<open>Every type takes at least one byte for two elements.\<close>

lemma elements_le_bytes: "unat (block_elements ty) \<le> 2 * unat (block_bytes ty)"
  by (cases ty) simp_all

lemma layout_element_count:
  assumes "layout_ok n d" "n < 2 ^ 60"
  shows "unat (td_element_count d) = td_blocks_nat d * unat (block_elements (td_ggml_type d))"
    "4 * unat (td_element_count d) < 2 ^ 63"
proof -
  show count: "unat (td_element_count d) = td_blocks_nat d * unat (block_elements (td_ggml_type d))"
    using assms(1) by (simp add: layout_ok_def td_blocks_nat_def)
  have "unat (td_element_count d) \<le> 2 * (td_blocks_nat d * unat (block_bytes (td_ggml_type d)))"
    using mult_le_mono2[OF elements_le_bytes, of "td_blocks_nat d" "td_ggml_type d"] count by simp
  also have "\<dots> \<le> 2 * n" using assms(1) by (simp add: layout_ok_def)
  finally show "4 * unat (td_element_count d) < 2 ^ 63" using assms(2) by simp
qed

lemma row_length_word:
  assumes "unat len = k * unat (s :: u64)"
  shows "(of_nat k :: u64) * s = len"
proof -
  have "(of_nat k :: u64) * s = of_nat (k * unat s)" by simp
  also have "\<dots> = of_nat (unat len)" using assms by simp
  finally show ?thesis by simp
qed

lemma coverage_chain_covered: "coverage_chain v p es \<Longrightarrow> e \<in> set es \<Longrightarrow> per_tensor_covered v e"
  by (induction v p es rule: coverage_chain.induct) auto




end
