(* ===== verification/HostValues.thy ===== *)
theory HostValues
  imports Valores GgufProps InstansProps
begin

text \<open>
  What crosses the host boundary as a dynamic value: the device selections and handles of \<open>src/device.rs\<close>
  with their control frames, the recovery bindings of \<open>src/or_recovery.rs\<close>, which substitute a fallback for a
  failed extraction, the failable pairs of \<open>src/failable.rs\<close> and the cursor streams of
  \<open>src/cursor_stream.rs\<close>.
\<close>

section \<open>Device selections and handles\<close>

datatype device_selection = SelectAuto | SelectMetal | SelectCuda

fun selection_spelling :: "device_selection \<Rightarrow> string" where
  "selection_spelling SelectAuto = ''auto''"
| "selection_spelling SelectMetal = ''metal''"
| "selection_spelling SelectCuda = ''cuda''"

definition selection_from_spelling :: "string \<Rightarrow> device_selection option" where
  "selection_from_spelling spelling =
     (if spelling = ''auto'' then Some SelectAuto else if spelling = ''metal'' then Some SelectMetal
      else if spelling = ''cuda'' then Some SelectCuda else None)"

fun selection_backend :: "device_selection \<Rightarrow> device_backend option" where
  "selection_backend SelectAuto = None"
| "selection_backend SelectMetal = Some BackendMetal"
| "selection_backend SelectCuda = Some BackendCuda"

datatype device_handle_kind = ModuleHandle | BufferHandle u64

definition handle_kind_spelling :: "device_handle_kind \<Rightarrow> string" where
  "handle_kind_spelling k = (case k of ModuleHandle \<Rightarrow> ''module'' | BufferHandle _ \<Rightarrow> ''buffer'')"

record device_handle =
  dh_backend :: device_backend
  dh_kind :: device_handle_kind
  dh_id :: u64

definition handle_len_bytes :: "device_handle \<Rightarrow> u64 option" where
  "handle_len_bytes h = (case dh_kind h of ModuleHandle \<Rightarrow> None | BufferHandle len \<Rightarrow> Some len)"

text \<open>\<open>as i64\<close> keeps the bits.\<close>

definition valor_of_handle :: "device_handle \<Rightarrow> 'f valor" where
  "valor_of_handle h =
     (let insert = (\<lambda>k v m. snd (btree_insert (lit k) v m));
          tab = insert ''device_id'' (Numerus (dh_id h))
            (insert ''device_kind'' (Textus (lit (handle_kind_spelling (dh_kind h))))
              (insert ''device_backend'' (Textus (lit (backend_spelling (dh_backend h)))) []))
      in Tabula (case handle_len_bytes h of
           Some len \<Rightarrow> insert ''len_bytes'' (Numerus len) tab
         | None \<Rightarrow> tab))"

definition u64_try_from :: "i64 \<Rightarrow> u64 option" where
  "u64_try_from n = (if 0 \<le> sint n then Some n else None)"

definition read_u64_field :: "string \<Rightarrow> (ustr \<times> 'f valor) list \<Rightarrow> u64 option" where
  "read_u64_field key tab =
     Option.bind (map_of tab (lit key)) (\<lambda>v. Option.bind (from_valor_numerus v) u64_try_from)"

definition backend_of_text :: "ustr \<Rightarrow> device_backend option" where
  "backend_of_text s = (if s = lit ''metal'' then Some BackendMetal else if s = lit ''cuda'' then Some BackendCuda else None)"

definition handle_from_valor :: "'f valor \<Rightarrow> device_handle option" where
  "handle_from_valor v = (case v of
     Tabula tab \<Rightarrow>
       if list_ex (\<lambda>(k, v). case v of Octeti _ \<Rightarrow> True | _ \<Rightarrow> False) tab then None
       else Option.bind (map_of tab (lit ''device_backend'')) (\<lambda>v.
         Option.bind (from_valor_textus v) (\<lambda>s.
         Option.bind (backend_of_text s) (\<lambda>backend.
         Option.bind (read_u64_field ''device_id'' tab) (\<lambda>i.
         Option.bind (map_of tab (lit ''device_kind'')) (\<lambda>v.
         Option.bind (from_valor_textus v) (\<lambda>kind.
           if kind = lit ''module'' then Some \<lparr>dh_backend = backend, dh_kind = ModuleHandle, dh_id = i\<rparr>
           else if kind = lit ''buffer''
           then map_option (\<lambda>len. \<lparr>dh_backend = backend, dh_kind = BufferHandle len, dh_id = i\<rparr>)
                  (read_u64_field ''len_bytes'' tab)
           else None))))))
   | _ \<Rightarrow> None)"

lemma selection_spelling_round_trip: "selection_from_spelling s = Some sel \<longleftrightarrow> s = selection_spelling sel"
  by (cases sel) (auto simp: selection_from_spelling_def)

lemma backend_of_text_iff: "backend_of_text s = Some b \<longleftrightarrow> s = lit (backend_spelling b)"
  by (cases b) (auto simp: backend_of_text_def backend_spelling_def)

definition fits_i64 :: "u64 \<Rightarrow> bool" where
  "fits_i64 n \<longleftrightarrow> unat n < 2 ^ 63"

lemma u64_try_from_iff: "u64_try_from n = (if fits_i64 n then Some n else None)"
proof -
  have "0 \<le> sint n \<longleftrightarrow> \<not> bit n 63" by (simp add: sint_uint not_le[symmetric] signed_take_bit_negative_iff bit_simps)
  also have "bit n 63 \<longleftrightarrow> odd (unat n div 2 ^ 63)" by (simp only: bit_iff_odd[symmetric] bit_unsigned_iff) simp
  also have "\<not> odd (unat n div 2 ^ 63) \<longleftrightarrow> unat n < 2 ^ 63"
  proof -
    have "unat n div 2 ^ 63 < 2" using unsigned_less[where 'a = nat, of n] by simp
    then have "unat n div 2 ^ 63 = 0 \<or> unat n div 2 ^ 63 = 1" by linarith
    then show ?thesis by (auto simp: div_eq_0_iff)
  qed
  finally show ?thesis by (simp add: u64_try_from_def fits_i64_def)
qed


section \<open>Failable pairs and cursor streams\<close>

record rt_status =
  rt_code :: "32 word"

definition status_ok :: rt_status where "status_ok = \<lparr>rt_code = 0\<rparr>"
definition status_fallible :: rt_status where "status_fallible = \<lparr>rt_code = 5\<rparr>"

definition fallible_error :: "'f valor \<Rightarrow> rt_status \<times> 'f valor" where
  "fallible_error e = (status_fallible, e)"

definition failable_ok :: "'f valor \<Rightarrow> rt_status \<times> 'f valor" where
  "failable_ok payload = (status_ok, payload)"

definition is_fallible :: "rt_status \<Rightarrow> bool" where
  "is_fallible s \<longleftrightarrow> rt_code s = rt_code status_fallible"

definition error_payload :: "rt_status \<Rightarrow> 'f valor \<Rightarrow> 'f valor option" where
  "error_payload s payload = (if is_fallible s then Some payload else None)"

text \<open>A generator is a function of the sink's contents; what it returns besides is dropped.\<close>

definition cede :: "'a \<Rightarrow> 'a list \<Rightarrow> 'a list" where
  "cede x yields = yields @ [x]"

definition materialize_cursor_stream :: "('a list \<Rightarrow> 'r \<times> 'a list) \<Rightarrow> 'a list" where
  "materialize_cursor_stream generator = snd (generator [])"

lemma failable_channels: "error_payload (fst (fallible_error e)) (snd (fallible_error e)) = Some e"
  "error_payload (fst (failable_ok v)) (snd (failable_ok v)) = None"
  by (simp_all add: error_payload_def is_fallible_def fallible_error_def failable_ok_def status_ok_def status_fallible_def)

lemma cursor_stream_in_order:
  "materialize_cursor_stream (\<lambda>yields. (r, fold cede xs yields)) = xs"
proof -
  have "fold cede xs yields = yields @ xs" for yields by (induction xs arbitrary: yields) (simp_all add: cede_def)
  then show ?thesis by (simp add: materialize_cursor_stream_def)
qed

section \<open>Recovery\<close>

definition valor_get_i64_or :: "'f valor \<Rightarrow> i64 \<Rightarrow> i64" where
  "valor_get_i64_or v fallback = case_option fallback id (from_valor_numerus v)"

definition valor_get_f64_or :: "(i64 \<Rightarrow> 'f) \<Rightarrow> 'f valor \<Rightarrow> 'f \<Rightarrow> 'f" where
  "valor_get_f64_or as_f64 v fallback = case_option fallback id (from_valor_fractus as_f64 v)"

definition valor_get_i1_or :: "'f valor \<Rightarrow> bool \<Rightarrow> bool" where
  "valor_get_i1_or v fallback = case_option fallback id (from_valor_bivalens v)"

definition valor_get_text_or :: "'f valor \<Rightarrow> ustr \<Rightarrow> ustr" where
  "valor_get_text_or v fallback = case_option fallback id (from_valor_textus v)"

definition valor_get_ascii_or :: "'f valor \<Rightarrow> ascii \<Rightarrow> ascii" where
  "valor_get_ascii_or v fallback = case_option fallback id (from_valor_ascii v)"

definition valor_get_octeti_or :: "'f valor \<Rightarrow> bytes \<Rightarrow> bytes" where
  "valor_get_octeti_or v fallback = (case v of Octeti bs \<Rightarrow> bs | _ \<Rightarrow> fallback)"

definition valor_get_array_or :: "'f valor \<Rightarrow> 'f valor list \<Rightarrow> 'f valor list" where
  "valor_get_array_or v fallback = (case v of Lista items \<Rightarrow> items | _ \<Rightarrow> fallback)"

definition valor_get_map_or :: "'f valor \<Rightarrow> (ustr \<times> 'f valor) list \<Rightarrow> (ustr \<times> 'f valor) list" where
  "valor_get_map_or v fallback = (case v of Tabula tab \<Rightarrow> tab | _ \<Rightarrow> fallback)"

definition valor_get_genus_or :: "'f valor \<Rightarrow> (ustr \<times> 'f valor) list \<Rightarrow> (ustr \<times> 'f valor) list" where
  "valor_get_genus_or v fallback = (case v of Tabula tab \<Rightarrow> tab | _ \<Rightarrow> fallback)"

definition octeti_get_text_or :: "bytes \<Rightarrow> ustr \<Rightarrow> ustr" where
  "octeti_get_text_or bs fallback = case_option fallback id (from_utf8 bs)"

definition octeti_get_ascii_or :: "bytes \<Rightarrow> ascii \<Rightarrow> ascii" where
  "octeti_get_ascii_or bs fallback = case_option fallback id (ascii_try_from_bytes bs)"

text \<open>The outer \<open>None\<close> is a panic of the parser.\<close>

definition instans_from_text_or :: "ustr \<Rightarrow> instans_praecisio \<Rightarrow> instans \<Rightarrow> instans option" where
  "instans_from_text_or txt p fallback = map_option (case_option fallback id) (from_rfc3339 txt p)"

definition instans_from_valor_or :: "'f valor \<Rightarrow> instans_praecisio \<Rightarrow> instans \<Rightarrow> instans option" where
  "instans_from_valor_or v p fallback = map_option (case_option fallback id) (instans_try_from_valor v p)"

text \<open>A recovery of a time never panics, and gives the parsed time or the fallback.\<close>

lemma instans_recovery_total:
  assumes "text_ok txt"
  shows "\<exists>t. instans_from_text_or txt p fallback = Some t"
    "\<exists>t. instans_from_valor_or (Textus txt) p fallback = Some t"
proof -
  obtain r where "parse_rfc3339 txt = Some r" using instans_parse_never_panics[OF assms] by blast
  then show "\<exists>t. instans_from_text_or txt p fallback = Some t"
    "\<exists>t. instans_from_valor_or (Textus txt) p fallback = Some t"
    by (auto simp: instans_from_text_or_def instans_from_valor_or_def from_rfc3339_def instans_try_from_valor_def
        orelse_return_def split: option.split)
qed

text \<open>A text written to bytes is read back by the recovery; an ASCII text by the recovery of both kinds.\<close>

lemma octeti_text_recovery: "octeti_get_text_or bs fallback = fallback \<or> utf8 (octeti_get_text_or bs fallback) = bs"
  using from_utf8_sound[of bs] by (auto simp: octeti_get_text_or_def split: option.split)

lemma recovery_of_codec:
  assumes "valor_codec into from ok" "ok x"
  shows "case_option fallback id (from (into x)) = x"
  using valor_codec.from_into[OF assms] by simp

lemma scalar_recovery:
  "valor_get_i64_or (Numerus n) m = n" "valor_get_i1_or (Bivalens b) c = b" "valor_get_text_or (Textus s) t = s"
  unfolding valor_get_i64_or_def valor_get_i1_or_def valor_get_text_or_def
  by (rule recovery_of_codec[OF numerus_codec.valor_codec_axioms TrueI]
           recovery_of_codec[OF bivalens_codec.valor_codec_axioms TrueI]
           recovery_of_codec[OF textus_codec.valor_codec_axioms TrueI])+

section \<open>Handles survive their control frame\<close>

lemma handle_texts [simp]:
  "from_valor_textus (Textus s) = Some s" "from_valor_numerus (Numerus n) = Some n"
  by (simp_all add: from_valor_textus_def from_valor_numerus_def)

text \<open>The control frame of a handle: its fields in key order, none of them bytes.\<close>

lemma valor_of_handle_fields:
  "valor_of_handle h = Tabula (
     [(lit ''device_backend'', Textus (lit (backend_spelling (dh_backend h)))), (lit ''device_id'', Numerus (dh_id h)),
      (lit ''device_kind'', Textus (lit (handle_kind_spelling (dh_kind h))))] @
     (case handle_len_bytes h of Some len \<Rightarrow> [(lit ''len_bytes'', Numerus len)] | None \<Rightarrow> []))"
  by (simp add: valor_of_handle_def Let_def split: option.split)

text \<open>A device handle that is lowered to a control frame is read back exactly when its id and, for a
  buffer, its length are below \<open>2\<^sup>6\<^sup>3\<close>, and is refused otherwise; the frame itself holds scalars only.\<close>

theorem handle_frame_round_trip:
  "handle_from_valor (valor_of_handle h) =
     (if fits_i64 (dh_id h) \<and> (case handle_len_bytes h of None \<Rightarrow> True | Some len \<Rightarrow> fits_i64 len) then Some h else None) \<and>
   (\<exists>tab. valor_of_handle h = Tabula tab \<and>
      list_all (\<lambda>(k, v). case v of Numerus _ \<Rightarrow> True | Textus _ \<Rightarrow> True | _ \<Rightarrow> False) tab)"
proof
  show "handle_from_valor (valor_of_handle h) =
     (if fits_i64 (dh_id h) \<and> (case handle_len_bytes h of None \<Rightarrow> True | Some len \<Rightarrow> fits_i64 len) then Some h else None)"
    by (cases h; cases "dh_kind h"; cases "dh_backend h")
      (simp_all add: valor_of_handle_fields handle_from_valor_def read_u64_field_def u64_try_from_iff handle_len_bytes_def
        handle_kind_spelling_def backend_of_text_def backend_spelling_def)
  show "\<exists>tab. valor_of_handle h = Tabula tab \<and>
      list_all (\<lambda>(k, v). case v of Numerus _ \<Rightarrow> True | Textus _ \<Rightarrow> True | _ \<Rightarrow> False) tab"
    by (simp add: valor_of_handle_fields split: option.split)
qed

end
