(* ===== verification/Spec2Isabelle.thy ===== *)
theory Spec2Isabelle
  imports TxProps Session Policy Transport Json Arena Intervallum BpeProps Pretoken EncodeProps InstansProps RouteProps GgufProps Sparsa Dequant HostValues
begin

text \<open>
  A verification library for the faber runtime: the Rust crate under \<open>src/\<close> that programs compiled by faber
  link against. Every definition translates the source; the file and the function it models are named in the
  opening text of its theory, and the names are those of the code.

  \<^bold>\<open>The program and its parts.\<close>
  The crate has four groups of components.

  (1) Device execution. A machine is discovered (\<open>discovery.rs\<close>) as physical devices (\<open>device_identity.rs\<close>),
  of which some are selected (\<open>device_set.rs\<close>) and divided into virtual partitions with budgets
  (\<open>partition.rs\<close>). A plan is admitted and bound to them (\<open>bound_plan.rs\<close>); a policy ranks candidate plans
  (\<open>policy.rs\<close>). A bound plan runs as a transaction (\<open>execution_transaction/\<close>): prepare reserves memory in
  each partition, operations execute and stage snapshots, commit publishes them at a boundary, abort gives
  everything back. It drives a backend (\<open>backend.rs\<close>, and the fault-injecting \<open>fake_device.rs\<close>). Data moves
  between partitions through the typed transport (\<open>transport.rs\<close>); an inference session (\<open>session.rs\<close>) advances
  its sequences over such snapshots and sizes its caches with \<open>kv_cache.rs\<close>.
  Theories: \<open>DeviceIdentity\<close>, \<open>Discovery\<close>, \<open>DeviceSet\<close>, \<open>Partition\<close>, \<open>BoundPlan\<close>, \<open>Policy\<close>, \<open>TxMirror\<close>,
  \<open>TxReservation\<close>, \<open>TxBackend\<close>, \<open>Transaction\<close>, \<open>TxRuns\<close>, \<open>TxProps\<close>, \<open>Transport\<close>, \<open>KvCache\<close>, \<open>Session\<close>, and
  \<open>Sha256\<close> for the two digests of the crate.

  (2) Values and conversations. The dynamic value and its conversions (\<open>valor.rs\<close>, \<open>ascii.rs\<close>), the JSON carrier
  (\<open>json.rs\<close>), points in time (\<open>instans.rs\<close>), numeric intervals (\<open>intervallum.rs\<close>), the arena of handles
  (\<open>arena.rs\<close>), what crosses the host boundary (\<open>device.rs\<close>, \<open>or_recovery.rs\<close>, \<open>failable.rs\<close>,
  \<open>cursor_stream.rs\<close>), and the in-process conversations of \<open>frame.rs\<close> with their materializers and the
  built-in routes.
  Theories: \<open>Utf8\<close>, \<open>Utf8Code\<close>, \<open>Json\<close>, \<open>Instans\<close>, \<open>InstansProps\<close>, \<open>Intervallum\<close>, \<open>Arena\<close>, \<open>Valores\<close>, \<open>HostValues\<close>,
  \<open>Conversation\<close>, \<open>ConvSteps\<close>, \<open>ConvProps\<close>, \<open>Materialize\<close>, \<open>Routes\<close>, \<open>RouteProps\<close>.

  (3) Model files. The admission of the one pinned GGUF file (\<open>gguf.rs\<close>), the storage layout of its tensors
  (\<open>quantized_tensor_layout.rs\<close>), the view of the file (\<open>tensor_view.rs\<close>), the dequantization of its blocks
  (\<open>dequant.rs\<close>), and the tokenizer that its metadata configure (\<open>tokenizer/\<close>).
  Theories: \<open>Gguf\<close>, \<open>GgufProps\<close>, \<open>TensorView\<close>, \<open>Dequant\<close>, \<open>Bpe\<close>, \<open>BpeProps\<close>, \<open>PretokenTables\<close>, \<open>Pretoken\<close>,
  \<open>Tokenizer\<close>, \<open>TokenizerProps\<close>, \<open>EncodeProps\<close>.

  (4) Tensors. Dense tensors over shared buffers with the \<open>f32\<close> kernels (\<open>tensor.rs\<close>) and sparse tensors
  (\<open>sparsa.rs\<close>).
  Theories: \<open>Tensors\<close>, \<open>TensorLemmas\<close>, \<open>TensorProps\<close>, \<open>TensorRuns\<close>, \<open>TensorKernels\<close>, \<open>Sparsa\<close>.

  \<open>Prelude\<close> holds what they share: checked and saturating arithmetic on words, ordered maps and sets, and the
  collections of simplification rules.

  \<^bold>\<open>How the model reads the code.\<close>
  A struct is a record, an enum a datatype, an error type a datatype with the source's variants. A \<open>Result\<close> is a
  sum, \<open>Inl\<close> the error. Where an operation can panic, an outer \<open>option\<close> carries it and \<open>None\<close> is the panic.
  Integers that can wrap are words of their width, and arithmetic without a check wraps, as in a release
  build; \<open>usize\<close> in the tensors is a natural number with the checked, saturating and wrapping operations
  written out. A text is the list of its scalar values with its UTF-8 bytes beside it. A \<open>BTreeMap\<close> is a finite
  map or the list of its entries in key order, a \<open>HashMap\<close> whose order is never observed a map. A method on
  \<open>&mut self\<close> returns the updated record.

  Shared state is explicit. The buffers of the tensors (\<open>Arc<Mutex<Vec>>\<close>) are a store of lists to which slices
  and shallow clones hold the same index. A conversation is a step relation over its threads in which a mutex
  is the identity of its holder, so that every interleaving is a run; a transaction is a step relation over its
  public operations and the completions of the environment. Both come with reachability and invariants by
  rule induction.

  Loops are structural recursion, or \<open>function\<close> with a measure. Where a loop of the source need not end it is
  a \<open>partial_function (option)\<close>, and that it ends is proved where it is claimed: the merge queue, the
  pre-tokenizer, the tokenizer's partition, the interval walks and the dense reading of a sparse tensor. The
  JSON parser takes fuel, and the length of its text plus one is proved sufficient.

  Code outside the repository is an argument: what the operating system answers (a record of calls), which
  statuses of the contract crate are terminal and the element count of a shape (named hypotheses that state
  their documented behaviour), the arithmetic of \<open>f32\<close> and \<open>f64\<close> (records of operations, so that a kernel is
  the order of its checks and the expression it computes), the element type of a tensor.

  \<^bold>\<open>What the lemmas show.\<close>
  Transactions: commit waits for every barrier and launch of the boundary; under every fault the published
  state is the old or the new one; reservations stay within the admitted budgets; an accepted plan can always
  be brought to its commit; the moves are those of the state machine; no call panics; abort is complete and
  idempotent. Plans, devices, partitions: a bind is accepted exactly under its conditions; a
  partition's states only move forward and its first failure is kept; a selection resolves to exactly the
  admissible devices. Digests: fed in pieces or at once, the two implementations agree. Policy: exactly the feasible
  candidates are ranked, best first. Transport and session: no copy exceeds its budget or its range, and a
  retried commit never advances a sequence twice.

  Values: the JSON carrier writes and reads back every valid document and accepts no other; the calendar is a
  bijection and times read back; interval operations are the set operations; the arena is a finite
  map; the conversions of values are inverse to each other, collections by way of a locale of codecs; a device
  handle reads back exactly below \<open>2\<^sup>6\<^sup>3\<close>. Conversations: one terminal frame at most, whatever the
  interleaving, and an end once the senders are gone; a materializer succeeds on exactly the frame
  sequences of its kind; a file read reaches its target.

  Model files: admission never panics on any bytes; an accepted table has aligned, disjoint ranges that match
  the dimensions; the admitted metadata configure a tokenizer; the view of a placed table builds exactly
  when there is no padding, and then tiles the data region; every view reads all its tensors, block by
  block; the widening of halves is exact; dequantization follows the view. Tokens: merging is greedy by rank,
  the pre-tokens cover the text, and an encoding reads back as the whole text.

  Tensors: no program of operations panics and every tensor stays a window of its buffer; slices alias the
  rows they name; permutation, broadcasting and the matrix product are the functions on indices they
  stand for; a sparse tensor follows the dense one through all writes.

  Each component is followed by its lemmas; a locale states an interface where a client relies on a provider
  (the execution backend, the transport adapter, the queue of the merge stage, the prefix codes of canonical
  bytes, the codecs of values), and is interpreted on the model's definitions. Lemmas
  that show where the code leaves its own contract stand beside the properties they limit: an unwinding
  \<open>prepare\<close> that keeps reservations, charges and ranges that wrap, the union of touching empty intervals that does
  not end, a deadlock in \<open>dispatch\<close> under the mutex of the conversation, a comparison of times that is not
  transitive, a bounds check of the tensor-data region that leaves out the padding, \<open>softmax\<close> on a tensor
  without axes, \<open>densata\<close> on a shape beyond the address space, fragments that the tokenizer skips.

  \<^bold>\<open>What is not modelled.\<close>
  The reverse-mode tape of \<open>autograd.rs\<close>, which only tests use. The \<open>f32\<close> reference of the forward pass
  (\<open>cpu_oracle.rs\<close>, \<open>decoder_ops.rs\<close>, \<open>greedy_run.rs\<close>), whose correctness is a matter of rounding against recorded
  values. Constant records (\<open>repack_plan.rs\<close>, \<open>capability.rs\<close>), the kernel description of \<open>prefill.rs\<close> and the toy
  carrier of \<open>packed_numeric.rs\<close>. Symbol tables (\<open>host_abi.rs\<close>), display texts, the HTTP client, and the host
  under \<open>hosts/llvm\<close>, which boxes and unboxes raw pointers around the operations modelled here. Memory
  allocation does not fail in the model except where the code bounds it; debug assertions are left out.
\<close>

end
